(* ===== verification/Prelude.thy ===== *)
theory Prelude
  imports Main "HOL-Library.Word" "HOL-Library.Signed_Division" "HOL-Library.Multiset"
begin

text \<open>
  The shared vocabulary of the development: the collections of facts the component
  theories add to, Go's fixed-width signed integers, the errors of a Go context and the
  generic lemmas on lists, options and association lists that several components use.

  Conventions. A Go \<^verbatim>\<open>int\<close> or \<^verbatim>\<open>int64\<close> is an \<open>int\<close>; where the code's arithmetic
  can leave the 64-bit range the operation is written with \<open>i64\<close>, which wraps around as
  two's complement does. A Go slice is a list, a pointer that may be nil an \<open>option\<close>, a
  Go string the list of its bytes (type \<open>string\<close>). A pair \<open>(value, error)\<close> is a sum
  \<open>error + value\<close>, with \<open>Inl\<close> for the error.
\<close>

named_theorems inv_intros \<open>facts that establish a component invariant\<close>
named_theorems frame_simps \<open>what an operation leaves unchanged\<close>

section \<open>64-bit signed integers\<close>

definition i64 :: "int \<Rightarrow> int" where
  "i64 x = (x + 2 ^ 63) mod 2 ^ 64 - 2 ^ 63"

abbreviation in_i64 :: "int \<Rightarrow> bool" where
  "in_i64 x \<equiv> - (2 ^ 63) \<le> x \<and> x < 2 ^ 63"

lemma i64_id [simp]: "- (2 ^ 63) \<le> x \<Longrightarrow> x < 2 ^ 63 \<Longrightarrow> i64 x = x"
  by (simp add: i64_def)

lemma i64_range: "in_i64 (i64 x)"
proof -
  have "0 \<le> (x + 2 ^ 63) mod 2 ^ 64" and "(x + 2 ^ 63) mod 2 ^ 64 < 2 ^ 64"
    by (rule pos_mod_sign, simp) (rule pos_mod_bound, simp)
  then show ?thesis by (simp add: i64_def)
qed

text \<open>\<open>i64\<close> is what the two's-complement reading of a 64-bit word gives.\<close>

lemma i64_sint: "i64 x = sint (word_of_int x :: 64 word)"
  by (simp add: i64_def sint_sbintrunc' signed_take_bit_eq_take_bit_shift take_bit_eq_mod)

section \<open>Contexts\<close>

text \<open>What \<^verbatim>\<open>ctx.Err()\<close> can return on a context that is done.\<close>

datatype ctx_err = Canceled | DeadlineExceeded

section \<open>Lists\<close>

lemma take_last_length [simp]: "n \<le> length xs \<Longrightarrow> length (drop (length xs - n) xs) = n"
  by simp

lemma filter_eq_self_iff: "filter P xs = xs \<longleftrightarrow> (\<forall>x \<in> set xs. P x)"
  by (induction xs) (auto, metis impossible_Cons length_filter_le)

lemma find_Some_in: "List.find P xs = Some x \<Longrightarrow> x \<in> set xs \<and> P x"
  by (auto simp: find_Some_iff in_set_conv_nth)

text \<open>The first index whose element satisfies a predicate (the shape of a Go search loop).\<close>

fun find_index :: "('a \<Rightarrow> bool) \<Rightarrow> 'a list \<Rightarrow> nat option" where
  "find_index P [] = None"
| "find_index P (x # xs) = (if P x then Some 0 else map_option Suc (find_index P xs))"

lemma find_index_Some:
  "find_index P xs = Some i \<longleftrightarrow> i < length xs \<and> P (xs ! i) \<and> (\<forall>j < i. \<not> P (xs ! j))"
proof (induction xs arbitrary: i)
  case Nil
  then show ?case by simp
next
  case (Cons x xs)
  show ?case
  proof (cases i)
    case 0
    then show ?thesis by auto
  next
    case (Suc k)
    then show ?thesis
      using Cons.IH [of k] by (auto simp: All_less_Suc2)
  qed
qed

lemma find_index_None: "find_index P xs = None \<longleftrightarrow> (\<forall>x \<in> set xs. \<not> P x)"
  by (induction xs) auto

section \<open>Stable sorting\<close>

text \<open>
  What \<^verbatim>\<open>sort.SliceStable\<close> promises for a comparison \<open>lt\<close>: insertion from the right keeps
  equivalent elements in their order.
\<close>

fun slice_insert :: "('a \<Rightarrow> 'a \<Rightarrow> bool) \<Rightarrow> 'a \<Rightarrow> 'a list \<Rightarrow> 'a list" where
  "slice_insert lt x [] = [x]"
| "slice_insert lt x (y # ys) = (if lt y x then y # slice_insert lt x ys else x # y # ys)"

definition SliceStable :: "('a \<Rightarrow> 'a \<Rightarrow> bool) \<Rightarrow> 'a list \<Rightarrow> 'a list" where
  "SliceStable lt xs = foldr (slice_insert lt) xs []"

lemma set_slice_insert [simp]: "set (slice_insert lt x ys) = insert x (set ys)"
  by (induction ys) auto

lemma mset_slice_insert [simp]: "mset (slice_insert lt x ys) = add_mset x (mset ys)"
  by (induction ys) auto

lemma mset_SliceStable [simp]: "mset (SliceStable lt xs) = mset xs"
  by (induction xs) (simp_all add: SliceStable_def)

lemma set_SliceStable [simp]: "set (SliceStable lt xs) = set xs"
  using mset_eq_setD [OF mset_SliceStable] .

lemma length_SliceStable [simp]: "length (SliceStable lt xs) = length xs"
  using mset_eq_length [OF mset_SliceStable] .

text \<open>A comparison is a strict weak order when "not less" is transitive and it is asymmetric.\<close>

definition weak_order :: "('a \<Rightarrow> 'a \<Rightarrow> bool) \<Rightarrow> bool" where
  "weak_order lt \<longleftrightarrow> (\<forall>x y. lt x y \<longrightarrow> \<not> lt y x)
     \<and> (\<forall>x y z. \<not> lt x y \<longrightarrow> \<not> lt y z \<longrightarrow> \<not> lt x z)"

lemma slice_insert_sorted:
  assumes "weak_order lt" "sorted_wrt (\<lambda>a b. \<not> lt b a) ys"
  shows "sorted_wrt (\<lambda>a b. \<not> lt b a) (slice_insert lt x ys)"
  using assms(2)
proof (induction ys)
  case (Cons y ys)
  have asym: "lt y x \<Longrightarrow> \<not> lt x y" and trans: "\<And>a b c. \<not> lt a b \<Longrightarrow> \<not> lt b c \<Longrightarrow> \<not> lt a c"
    using assms(1) unfolding weak_order_def by blast+
  show ?case
  proof (cases "lt y x")
    case True
    with Cons asym show ?thesis by auto
  next
    case False
    moreover have "\<not> lt z x" if "z \<in> set ys" for z
      using trans [of z y x] False that Cons.prems by auto
    ultimately show ?thesis using Cons.prems by auto
  qed
qed simp

lemma sorted_SliceStable: "weak_order lt \<Longrightarrow> sorted_wrt (\<lambda>a b. \<not> lt b a) (SliceStable lt xs)"
  by (induction xs) (simp_all add: SliceStable_def slice_insert_sorted)

section \<open>JSON values\<close>

text \<open>A decoded JSON value; numbers keep their source text.\<close>

datatype json =
    JNull | JBool bool | JNumber string | JString string
  | JArray "json list" | JObject "(string \<times> json) list"

end
