(* ===== verification/Bus.thy ===== *)
theory Bus
  imports Prelude
begin

text \<open>
  The message bus of \<^verbatim>\<open>internal/bus/bus.go\<close>: two queues (inbound from channels to the
  agent, outbound back to the channels) behind one mutex, a broadcast channel that wakes
  blocked consumers, and ordered local event subscriptions.

  The broadcast channel \<^verbatim>\<open>b.wait\<close> is a generation number: \<^verbatim>\<open>broadcastLocked\<close> closes the
  current channel and installs a new one, so a channel is closed exactly when its number
  is below the current generation. A subscription is a cell of the heap \<open>bus_subs\<close>,
  addressed by a number, because \<^verbatim>\<open>Publish\<close> reads its \<^verbatim>\<open>active\<close> flag through a pointer while
  handlers may clear it. The messages and handlers themselves are opaque to the bus and
  are type variables here.
\<close>

section \<open>State\<close>

datatype bus_error = ErrClosed | ErrFull | CtxErr ctx_err

record 'h subscription =
  sub_active :: bool
  sub_handler :: 'h

record ('i, 'o, 'h) bus =
  bus_inbound :: "'i list"
  bus_outbound :: "'o list"
  bus_wait :: nat
  bus_closed :: bool
  bus_maxInbound :: int
  bus_maxOutbound :: int
  bus_handlers :: "nat list"
  bus_subs :: "nat \<rightharpoonup> 'h subscription"
  bus_nextSub :: nat
  bus_consumers :: int
  bus_consumeStarts :: int

record bus_options =
  opt_MaxInbound :: int
  opt_MaxOutbound :: int

definition New :: "bus_options \<Rightarrow> ('i, 'o, 'h) bus" where
  "New opts = \<lparr> bus_inbound = [], bus_outbound = [], bus_wait = 0, bus_closed = False,
     bus_maxInbound = opt_MaxInbound opts, bus_maxOutbound = opt_MaxOutbound opts,
     bus_handlers = [], bus_subs = Map.empty, bus_nextSub = 0,
     bus_consumers = 0, bus_consumeStarts = 0 \<rparr>"

section \<open>Operations\<close>

definition broadcastLocked :: "('i, 'o, 'h) bus \<Rightarrow> ('i, 'o, 'h) bus" where
  "broadcastLocked b = b\<lparr>bus_wait := Suc (bus_wait b)\<rparr>"

text \<open>A publish runs wholly under the mutex: the checks in the code's order, then the append.\<close>

definition PublishInbound ::
  "ctx_err option \<Rightarrow> 'i \<Rightarrow> ('i, 'o, 'h) bus \<Rightarrow> bus_error option \<times> ('i, 'o, 'h) bus" where
  "PublishInbound ctx msg b =
     (if bus_closed b then (Some ErrClosed, b)
      else case ctx of
        Some e \<Rightarrow> (Some (CtxErr e), b)
      | None \<Rightarrow>
          if bus_maxInbound b > 0 \<and> int (length (bus_inbound b)) \<ge> bus_maxInbound b
          then (Some ErrFull, b)
          else (None, broadcastLocked (b\<lparr>bus_inbound := bus_inbound b @ [msg]\<rparr>)))"

definition PublishOutbound ::
  "ctx_err option \<Rightarrow> 'o \<Rightarrow> ('i, 'o, 'h) bus \<Rightarrow> bus_error option \<times> ('i, 'o, 'h) bus" where
  "PublishOutbound ctx msg b =
     (if bus_closed b then (Some ErrClosed, b)
      else case ctx of
        Some e \<Rightarrow> (Some (CtxErr e), b)
      | None \<Rightarrow>
          if bus_maxOutbound b > 0 \<and> int (length (bus_outbound b)) \<ge> bus_maxOutbound b
          then (Some ErrFull, b)
          else (None, broadcastLocked (b\<lparr>bus_outbound := bus_outbound b @ [msg]\<rparr>)))"

text \<open>
  One pass through the body of a consume loop, up to the unlock: the call returns a
  message or an error, or it blocks on the broadcast channel it read.
\<close>

datatype 'm attempt = Got 'm | Failed bus_error | Block nat

definition ConsumeInbound_pass ::
  "('i, 'o, 'h) bus \<Rightarrow> 'i attempt \<times> ('i, 'o, 'h) bus" where
  "ConsumeInbound_pass b =
     (case bus_inbound b of
        msg # rest \<Rightarrow> (Got msg, b\<lparr>bus_inbound := rest\<rparr>)
      | [] \<Rightarrow> if bus_closed b then (Failed ErrClosed, b) else (Block (bus_wait b), b))"

definition ConsumeOutbound_pass ::
  "('i, 'o, 'h) bus \<Rightarrow> 'o attempt \<times> ('i, 'o, 'h) bus" where
  "ConsumeOutbound_pass b =
     (case bus_outbound b of
        msg # rest \<Rightarrow> (Got msg, b\<lparr>bus_outbound := rest\<rparr>)
      | [] \<Rightarrow> if bus_closed b then (Failed ErrClosed, b) else (Block (bus_wait b), b))"

definition TryConsumeOutbound ::
  "('i, 'o, 'h) bus \<Rightarrow> 'o option \<times> ('i, 'o, 'h) bus" where
  "TryConsumeOutbound b =
     (case bus_outbound b of
        [] \<Rightarrow> (None, b)
      | msg # rest \<Rightarrow> (Some msg, b\<lparr>bus_outbound := rest\<rparr>))"

definition InboundSize :: "('i, 'o, 'h) bus \<Rightarrow> int" where
  "InboundSize b = int (length (bus_inbound b))"

definition OutboundSize :: "('i, 'o, 'h) bus \<Rightarrow> int" where
  "OutboundSize b = int (length (bus_outbound b))"

definition HasConsumer :: "('i, 'o, 'h) bus \<Rightarrow> bool" where
  "HasConsumer b \<longleftrightarrow> bus_consumeStarts b > 0"

definition ConsumerCount :: "('i, 'o, 'h) bus \<Rightarrow> int" where
  "ConsumerCount b = bus_consumers b"

text \<open>The two counters on entry to \<^verbatim>\<open>ConsumeInbound\<close>, and the deferred decrement.\<close>

definition ConsumeInbound_enter :: "('i, 'o, 'h) bus \<Rightarrow> ('i, 'o, 'h) bus" where
  "ConsumeInbound_enter b =
     b\<lparr>bus_consumeStarts := bus_consumeStarts b + 1, bus_consumers := bus_consumers b + 1\<rparr>"

definition ConsumeInbound_leave :: "('i, 'o, 'h) bus \<Rightarrow> ('i, 'o, 'h) bus" where
  "ConsumeInbound_leave b = b\<lparr>bus_consumers := bus_consumers b - 1\<rparr>"

text \<open>
  \<^verbatim>\<open>Subscribe\<close> allocates a subscription and returns its address; the unsubscribe closure
  it hands out is \<open>unsubscribe\<close> at that address. The \<^verbatim>\<open>sync.Once\<close> of the closure makes the
  later calls no-ops, which clearing a cleared flag and removing an absent address are too.
\<close>

definition Subscribe :: "'h \<Rightarrow> ('i, 'o, 'h) bus \<Rightarrow> nat \<times> ('i, 'o, 'h) bus" where
  "Subscribe handler b =
     (let sub = bus_nextSub b in
      (sub, b\<lparr>bus_subs := (bus_subs b)(sub \<mapsto> \<lparr>sub_active = True, sub_handler = handler\<rparr>),
              bus_nextSub := Suc sub,
              bus_handlers := bus_handlers b @ [sub]\<rparr>))"

definition unsubscribe :: "nat \<Rightarrow> ('i, 'o, 'h) bus \<Rightarrow> ('i, 'o, 'h) bus" where
  "unsubscribe sub b =
     b\<lparr>bus_subs := (bus_subs b)(sub := map_option (\<lambda>s. s\<lparr>sub_active := False\<rparr>) (bus_subs b sub)),
       bus_handlers := remove1 sub (bus_handlers b)\<rparr>"

text \<open>
  \<^verbatim>\<open>Publish\<close> copies the handler list and then calls the handlers of the copy in order,
  loading each flag immediately before its call. \<open>call h e b\<close> is what running handler \<open>h\<close>
  on event \<open>e\<close> makes of the bus (a handler may publish, subscribe or unsubscribe; a panic
  is recovered and leaves the bus as it is at that point); it is the subscribers' code
  and a parameter. The addresses of the handlers really called are returned with the bus.
\<close>

fun publish_loop ::
  "('h \<Rightarrow> 'e \<Rightarrow> ('i, 'o, 'h) bus \<Rightarrow> ('i, 'o, 'h) bus) \<Rightarrow> 'e \<Rightarrow> nat list \<Rightarrow> ('i, 'o, 'h) bus
     \<Rightarrow> nat list \<times> ('i, 'o, 'h) bus" where
  "publish_loop call e [] b = ([], b)"
| "publish_loop call e (sub # subs) b =
     (case bus_subs b sub of
        Some s \<Rightarrow>
          if sub_active s
          then let (called, b') = publish_loop call e subs (call (sub_handler s) e b)
               in (sub # called, b')
          else publish_loop call e subs b
      | None \<Rightarrow> publish_loop call e subs b)"

definition Publish ::
  "('h \<Rightarrow> 'e \<Rightarrow> ('i, 'o, 'h) bus \<Rightarrow> ('i, 'o, 'h) bus) \<Rightarrow> 'e \<Rightarrow> ('i, 'o, 'h) bus
     \<Rightarrow> nat list \<times> ('i, 'o, 'h) bus" where
  "Publish call e b = publish_loop call e (bus_handlers b) b"

definition Close :: "('i, 'o, 'h) bus \<Rightarrow> ('i, 'o, 'h) bus" where
  "Close b =
     (if bus_closed b then b
      else broadcastLocked (b\<lparr>bus_closed := True, bus_handlers := []\<rparr>))"

definition Closed :: "('i, 'o, 'h) bus \<Rightarrow> bool" where
  "Closed b = bus_closed b"

section \<open>Runs of one queue\<close>

text \<open>
  A sequence of publish and consume calls on one queue, with the messages it accepted and
  the messages it delivered. The two operations are arguments: the runs below are used at
  the inbound and at the outbound queue.
\<close>

datatype 'm fifo_op = Pub "ctx_err option" 'm | Take

fun fifo_run ::
  "(ctx_err option \<Rightarrow> 'm \<Rightarrow> 's \<Rightarrow> bus_error option \<times> 's) \<Rightarrow> ('s \<Rightarrow> 'm attempt \<times> 's)
     \<Rightarrow> 'm fifo_op list \<Rightarrow> 's \<Rightarrow> 'm list \<times> 'm list \<times> 's" where
  "fifo_run pub consume [] s = ([], [], s)"
| "fifo_run pub consume (Pub ctx m # ops) s =
     (let (err, s') = pub ctx m s; (acc, del, s'') = fifo_run pub consume ops s'
      in ((if err = None then m # acc else acc), del, s''))"
| "fifo_run pub consume (Take # ops) s =
     (let (r, s') = consume s; (acc, del, s'') = fifo_run pub consume ops s'
      in (acc, (case r of Got m \<Rightarrow> m # del | _ \<Rightarrow> del), s''))"

section \<open>The concurrent system\<close>

text \<open>
  Any number of goroutines call \<^verbatim>\<open>ConsumeInbound\<close>. Each is idle, about to run a pass of the
  loop, blocked in the \<^verbatim>\<open>select\<close> on the channel it read, or back with a result. The ghost
  fields record which messages the bus accepted and which were delivered, in order.
\<close>

datatype 'i consumer = Idle | Looping | Blocked nat | Returned "bus_error + 'i"

fun in_flight :: "'i consumer \<Rightarrow> bool" where
  "in_flight Looping = True"
| "in_flight (Blocked w) = True"
| "in_flight Idle = False"
| "in_flight (Returned r) = False"

record ('i, 'o, 'h) bus_sys =
  sys_bus :: "('i, 'o, 'h) bus"
  sys_cons :: "nat \<Rightarrow> 'i consumer"
  sys_accepted :: "'i list"
  sys_delivered :: "'i list"

definition init_sys :: "bus_options \<Rightarrow> ('i, 'o, 'h) bus_sys" where
  "init_sys opts = \<lparr> sys_bus = New opts, sys_cons = (\<lambda>_. Idle),
     sys_accepted = [], sys_delivered = [] \<rparr>"

inductive bus_step :: "('i, 'o, 'h) bus_sys \<Rightarrow> ('i, 'o, 'h) bus_sys \<Rightarrow> bool" where
  publish_ok: "PublishInbound ctx m (sys_bus s) = (None, b') \<Longrightarrow>
     bus_step s (s\<lparr>sys_bus := b', sys_accepted := sys_accepted s @ [m]\<rparr>)"
| publish_err: "PublishInbound ctx m (sys_bus s) = (Some e, b') \<Longrightarrow>
     bus_step s (s\<lparr>sys_bus := b'\<rparr>)"
| publish_out: "PublishOutbound ctx m' (sys_bus s) = (err, b') \<Longrightarrow>
     bus_step s (s\<lparr>sys_bus := b'\<rparr>)"
| consume_out: "ConsumeOutbound_pass (sys_bus s) = (r, b') \<Longrightarrow>
     bus_step s (s\<lparr>sys_bus := b'\<rparr>)"
| enter: "\<not> in_flight (sys_cons s c) \<Longrightarrow>
     bus_step s (s\<lparr>sys_bus := ConsumeInbound_enter (sys_bus s),
                   sys_cons := (sys_cons s)(c := Looping)\<rparr>)"
| pass_got: "sys_cons s c = Looping \<Longrightarrow> ConsumeInbound_pass (sys_bus s) = (Got m, b') \<Longrightarrow>
     bus_step s (s\<lparr>sys_bus := ConsumeInbound_leave b',
                   sys_cons := (sys_cons s)(c := Returned (Inr m)),
                   sys_delivered := sys_delivered s @ [m]\<rparr>)"
| pass_failed: "sys_cons s c = Looping \<Longrightarrow> ConsumeInbound_pass (sys_bus s) = (Failed e, b') \<Longrightarrow>
     bus_step s (s\<lparr>sys_bus := ConsumeInbound_leave b',
                   sys_cons := (sys_cons s)(c := Returned (Inl e))\<rparr>)"
| pass_block: "sys_cons s c = Looping \<Longrightarrow> ConsumeInbound_pass (sys_bus s) = (Block w, b') \<Longrightarrow>
     bus_step s (s\<lparr>sys_bus := b', sys_cons := (sys_cons s)(c := Blocked w)\<rparr>)"
| wake: "sys_cons s c = Blocked w \<Longrightarrow> w < bus_wait (sys_bus s) \<Longrightarrow>
     bus_step s (s\<lparr>sys_cons := (sys_cons s)(c := Looping)\<rparr>)"
| ctx_done: "sys_cons s c = Blocked w \<Longrightarrow>
     bus_step s (s\<lparr>sys_bus := ConsumeInbound_leave (sys_bus s),
                   sys_cons := (sys_cons s)(c := Returned (Inl (CtxErr e)))\<rparr>)"
| close: "bus_step s (s\<lparr>sys_bus := Close (sys_bus s)\<rparr>)"

inductive bus_reach :: "bus_options \<Rightarrow> ('i, 'o, 'h) bus_sys \<Rightarrow> bool" for opts where
  bus_reach_init: "bus_reach opts (init_sys opts)"
| bus_reach_step: "bus_reach opts s \<Longrightarrow> bus_step s t \<Longrightarrow> bus_reach opts t"

section \<open>Lemmas on the operations\<close>

lemmas bus_defs = PublishInbound_def PublishOutbound_def ConsumeInbound_pass_def
  ConsumeOutbound_pass_def TryConsumeOutbound_def broadcastLocked_def Close_def
  ConsumeInbound_enter_def ConsumeInbound_leave_def

text \<open>The contract both queues satisfy; the client lemmas are proved once from it.\<close>

locale closable_fifo =
  fixes pending :: "'s \<Rightarrow> 'm list"
    and limit :: "'s \<Rightarrow> int"
    and shut :: "'s \<Rightarrow> bool"
    and publish :: "ctx_err option \<Rightarrow> 'm \<Rightarrow> 's \<Rightarrow> bus_error option \<times> 's"
    and consume :: "'s \<Rightarrow> 'm attempt \<times> 's"
  assumes publish_accepts: "publish ctx m s = (None, s') \<Longrightarrow>
      pending s' = pending s @ [m] \<and> limit s' = limit s \<and>
      (limit s > 0 \<longrightarrow> int (length (pending s)) < limit s)"
    and publish_rejects: "publish ctx m s = (Some e, s') \<Longrightarrow> s' = s"
    and consume_got: "consume s = (Got m, s') \<Longrightarrow>
      pending s = m # pending s' \<and> limit s' = limit s"
    and consume_none: "consume s = (r, s') \<Longrightarrow> (\<nexists>m. r = Got m) \<Longrightarrow> s' = s"
    and consume_nonempty: "pending s \<noteq> [] \<Longrightarrow> \<exists>m. fst (consume s) = Got m"
begin

lemma publish_step:
  assumes "publish ctx m s = (err, s')"
  shows "pending s' = (if err = None then pending s @ [m] else pending s)"
    and "limit s' = limit s"
    and "limit s > 0 \<Longrightarrow> int (length (pending s)) \<le> limit s \<Longrightarrow>
         int (length (pending s')) \<le> limit s"
  using assms publish_accepts [of ctx m s s'] publish_rejects [of ctx m s _ s']
  by (cases err; auto)+

lemma consume_step:
  assumes "consume s = (r, s')"
  shows "pending s = (case r of Got m \<Rightarrow> m # pending s' | _ \<Rightarrow> pending s')"
    and "limit s' = limit s"
    and "int (length (pending s')) \<le> int (length (pending s))"
  using assms consume_got [of s _ s'] consume_none [of s r s']
  by (cases r; auto)+

lemma run_conserves:
  "fifo_run publish consume ops s = (acc, del, t) \<Longrightarrow> pending s @ acc = del @ pending t"
proof (induction ops arbitrary: s acc del)
  case Nil
  then show ?case by simp
next
  case (Cons op ops)
  show ?case
  proof (cases op)
    case (Pub ctx m)
    with Cons.prems obtain err s' acc' where
      "publish ctx m s = (err, s')" "fifo_run publish consume ops s' = (acc', del, t)"
      "acc = (if err = None then m # acc' else acc')"
      by (auto split: prod.splits)
    with publish_step(1) Cons.IH show ?thesis by fastforce
  next
    case Take
    with Cons.prems obtain r s' del' where
      "consume s = (r, s')" "fifo_run publish consume ops s' = (acc, del', t)"
      "del = (case r of Got m \<Rightarrow> m # del' | _ \<Rightarrow> del')"
      by (auto split: prod.splits)
    with consume_step(1) [of s r s'] Cons.IH [of s' acc del'] show ?thesis
      by (cases r) simp_all
  qed
qed

lemma run_bounded:
  "fifo_run publish consume ops s = (acc, del, t) \<Longrightarrow> limit s > 0 \<Longrightarrow>
   int (length (pending s)) \<le> limit s \<Longrightarrow>
   limit t = limit s \<and> int (length (pending t)) \<le> limit s"
proof (induction ops arbitrary: s acc del)
  case Nil
  then show ?case by simp
next
  case (Cons op ops)
  show ?case
  proof (cases op)
    case (Pub ctx m)
    with Cons.prems(1) obtain err s' acc' where
      p: "publish ctx m s = (err, s')" "fifo_run publish consume ops s' = (acc', del, t)"
      by (auto split: prod.splits)
    show ?thesis
      using Cons.IH [OF p(2)] publish_step(2,3) [OF p(1)] Cons.prems by simp
  next
    case Take
    with Cons.prems(1) obtain r s' del' where
      p: "consume s = (r, s')" "fifo_run publish consume ops s' = (acc, del', t)"
      by (auto split: prod.splits)
    show ?thesis
      using Cons.IH [OF p(2)] consume_step(2,3) [OF p(1)] Cons.prems by simp
  qed
qed

end

interpretation inq: closable_fifo bus_inbound bus_maxInbound bus_closed
  PublishInbound ConsumeInbound_pass
  by unfold_locales (auto simp: bus_defs split: if_splits option.splits list.splits)

interpretation outq: closable_fifo bus_outbound bus_maxOutbound bus_closed
  PublishOutbound ConsumeOutbound_pass
  by unfold_locales (auto simp: bus_defs split: if_splits option.splits list.splits)

section \<open>The invariant of the concurrent system\<close>

definition bus_inv :: "('i, 'o, 'h) bus_sys \<Rightarrow> bool" where
  "bus_inv s \<longleftrightarrow>
     sys_accepted s = sys_delivered s @ bus_inbound (sys_bus s)
   \<and> (bus_maxInbound (sys_bus s) > 0 \<longrightarrow>
        int (length (bus_inbound (sys_bus s))) \<le> bus_maxInbound (sys_bus s))
   \<and> (\<forall>c w. sys_cons s c = Blocked w \<longrightarrow>
        w \<le> bus_wait (sys_bus s) \<and>
        (w = bus_wait (sys_bus s) \<longrightarrow> bus_inbound (sys_bus s) = [] \<and> \<not> bus_closed (sys_bus s)))
   \<and> finite {c. in_flight (sys_cons s c)}
   \<and> bus_consumers (sys_bus s) = int (card {c. in_flight (sys_cons s c)})
   \<and> bus_consumers (sys_bus s) \<le> bus_consumeStarts (sys_bus s)"

text \<open>How the in-flight set moves when one consumer changes state.\<close>

lemma in_flight_upd:
  "{d. in_flight ((f(c := x)) d)} =
     (if in_flight x then insert c {d. in_flight (f d)} else {d. in_flight (f d)} - {c})"
  by auto

lemma card_enter:
  "finite {d. in_flight (f d)} \<Longrightarrow> \<not> in_flight (f c) \<Longrightarrow> in_flight x \<Longrightarrow>
   int (card {d. in_flight ((f(c := x)) d)}) = int (card {d. in_flight (f d)}) + 1"
  by (simp only: in_flight_upd) simp

lemma card_leave:
  assumes "finite {d. in_flight (f d)}" "in_flight (f c)" "\<not> in_flight x"
  shows "int (card {d. in_flight ((f(c := x)) d)}) = int (card {d. in_flight (f d)}) - 1"
proof -
  have "0 < card {d. in_flight (f d)}" using assms by (auto simp: card_gt_0_iff)
  then show ?thesis using assms by (simp only: in_flight_upd) (simp add: card_Diff_singleton)
qed

lemma card_stay:
  "in_flight (f c) \<Longrightarrow> in_flight x \<Longrightarrow>
   {d. in_flight ((f(c := x)) d)} = {d. in_flight (f d)}"
  by auto

lemma finite_in_flight_upd:
  "finite {d. in_flight (f d)} \<Longrightarrow> finite {d. in_flight ((f(c := x)) d)}"
  by (simp only: in_flight_upd) simp

lemma bus_inv_init: "bus_inv (init_sys opts)"
  by (simp add: bus_inv_def init_sys_def New_def)

lemma bus_inv_publish:
  assumes "bus_inv s" and "PublishInbound ctx m (sys_bus s) = (err, b')"
  shows "bus_inv (s\<lparr>sys_bus := b', sys_accepted :=
            (if err = None then sys_accepted s @ [m] else sys_accepted s)\<rparr>)"
proof -
  have "w \<le> bus_wait (sys_bus s)" if "sys_cons s c = Blocked w" for c w
    using that assms(1) by (auto simp: bus_inv_def)
  then show ?thesis
    using assms by (fastforce simp: bus_inv_def bus_defs split: if_splits option.splits)
qed

lemma bus_inv_outbound:
  assumes "bus_inv s"
    and "bus_inbound b' = bus_inbound (sys_bus s)" "bus_closed b' = bus_closed (sys_bus s)"
      "bus_maxInbound b' = bus_maxInbound (sys_bus s)" "bus_wait (sys_bus s) \<le> bus_wait b'"
      "bus_consumers b' = bus_consumers (sys_bus s)"
      "bus_consumeStarts b' = bus_consumeStarts (sys_bus s)"
  shows "bus_inv (s\<lparr>sys_bus := b'\<rparr>)"
proof -
  have "w \<le> bus_wait b' \<and> (w = bus_wait b' \<longrightarrow> bus_inbound b' = [] \<and> \<not> bus_closed b')"
    if "sys_cons s c = Blocked w" for c w
    using that assms by (fastforce simp: bus_inv_def)
  then show ?thesis using assms by (simp add: bus_inv_def)
qed

lemma publish_out_frame [frame_simps]:
  assumes "PublishOutbound ctx m b = (err, b')"
  shows "bus_inbound b' = bus_inbound b" "bus_closed b' = bus_closed b"
    "bus_maxInbound b' = bus_maxInbound b" "bus_wait b \<le> bus_wait b'"
    "bus_consumers b' = bus_consumers b" "bus_consumeStarts b' = bus_consumeStarts b"
  using assms by (auto simp: bus_defs split: if_splits option.splits)

lemma consume_out_frame [frame_simps]:
  assumes "ConsumeOutbound_pass b = (r, b')"
  shows "bus_inbound b' = bus_inbound b" "bus_closed b' = bus_closed b"
    "bus_maxInbound b' = bus_maxInbound b" "bus_wait b' = bus_wait b"
    "bus_consumers b' = bus_consumers b" "bus_consumeStarts b' = bus_consumeStarts b"
  using assms by (auto simp: bus_defs split: if_splits list.splits)

lemma bus_inv_step:
  assumes "bus_step s t" and "bus_inv s"
  shows "bus_inv t"
  using assms
proof (induction rule: bus_step.induct)
  case (publish_ok ctx m s b')
  then show ?case using bus_inv_publish [of s ctx m None b'] by simp
next
  case (publish_err ctx m s e b')
  then show ?case using bus_inv_publish [of s ctx m "Some e" b'] by simp
next
  case (publish_out ctx m' s err b')
  then show ?case by (intro bus_inv_outbound) (simp_all add: publish_out_frame)
next
  case (consume_out s r b')
  then show ?case by (intro bus_inv_outbound) (simp_all add: consume_out_frame)
next
  case (enter s c)
  then show ?case
    using card_enter [of "sys_cons s" c Looping] finite_in_flight_upd [of "sys_cons s" c Looping]
    by (auto simp: bus_inv_def ConsumeInbound_enter_def)
next
  case (pass_got s c m b')
  then show ?case
    using card_leave [of "sys_cons s" c "Returned (Inr m)"]
      finite_in_flight_upd [of "sys_cons s" c "Returned (Inr m)"]
    by (auto simp: bus_inv_def bus_defs split: list.splits if_splits) blast+
next
  case (pass_failed s c e b')
  then show ?case
    using card_leave [of "sys_cons s" c "Returned (Inl e)"]
      finite_in_flight_upd [of "sys_cons s" c "Returned (Inl e)"]
    by (auto simp: bus_inv_def bus_defs split: list.splits if_splits)
next
  case (pass_block s c w b')
  then show ?case
    using card_stay [of "sys_cons s" c "Blocked w"]
    by (auto simp: bus_inv_def bus_defs split: list.splits if_splits)
next
  case (wake s c w)
  then show ?case
    using card_stay [of "sys_cons s" c Looping] by (auto simp: bus_inv_def)
next
  case (ctx_done s c w e)
  then show ?case
    using card_leave [of "sys_cons s" c "Returned (Inl (CtxErr e))"]
      finite_in_flight_upd [of "sys_cons s" c "Returned (Inl (CtxErr e))"]
    by (auto simp: bus_inv_def ConsumeInbound_leave_def)
next
  case (close s)
  then have "w \<le> bus_wait (sys_bus s)" if "sys_cons s c = Blocked w" for c w
    using that by (auto simp: bus_inv_def)
  with close show ?case by (fastforce simp: bus_inv_def bus_defs)
qed

lemma bus_reach_inv: "bus_reach opts s \<Longrightarrow> bus_inv s"
  by (induction rule: bus_reach.induct) (auto intro: bus_inv_init bus_inv_step)

section \<open>Properties\<close>

text \<open>A subscription whose flag has been cleared.\<close>

definition unsubscribed :: "nat \<Rightarrow> ('i, 'o, 'h) bus \<Rightarrow> bool" where
  "unsubscribed sub b \<longleftrightarrow> (case bus_subs b sub of Some s \<Rightarrow> \<not> sub_active s | None \<Rightarrow> False)"

lemma publish_loop_skips:
  assumes "unsubscribed victim b"
    and "\<And>h c. unsubscribed victim c \<Longrightarrow> unsubscribed victim (call h e c)"
  shows "victim \<notin> set (fst (publish_loop call e zs b))"
  using assms(1)
proof (induction zs arbitrary: b)
  case Nil
  then show ?case by simp
next
  case (Cons z zs)
  have "victim \<notin> set (fst (publish_loop call e zs (call h e b)))" for h
    using Cons.IH assms(2) Cons.prems by blast
  then show ?case
    using Cons by (auto simp: unsubscribed_def split: option.splits prod.splits)
       (metis fst_conv)+
qed

lemma publish_loop_append:
  "publish_loop call e (xs @ ys) b =
     (let (c1, b1) = publish_loop call e xs b; (c2, b2) = publish_loop call e ys b1
      in (c1 @ c2, b2))"
  by (induction xs arbitrary: b) (auto split: option.splits prod.splits)

lemma publish_loop_subseq: "set (fst (publish_loop call e xs b)) \<subseteq> set xs"
  by (induction call e xs b rule: publish_loop.induct) (auto split: option.splits prod.splits)

text \<open>
  C1. No wake-up is lost: in every reachable state of any number of concurrent consumers,
  a consumer blocked on a broadcast channel while a message is pending, or while the bus
  is closed, blocks on a channel that has already been closed, so it can go round its loop.
\<close>

theorem bus_no_lost_wakeup:
  assumes "bus_reach opts s" and "sys_cons s c = Blocked w"
    and "bus_inbound (sys_bus s) \<noteq> [] \<or> bus_closed (sys_bus s)"
  shows "w < bus_wait (sys_bus s) \<and> bus_step s (s\<lparr>sys_cons := (sys_cons s)(c := Looping)\<rparr>)"
proof -
  have "w \<le> bus_wait (sys_bus s)" and "w \<noteq> bus_wait (sys_bus s)"
    using bus_reach_inv [OF assms(1)] assms(2,3) by (auto simp: bus_inv_def)
  then have "w < bus_wait (sys_bus s)" by simp
  with assms(2) show ?thesis by (auto intro: bus_step.wake)
qed

text \<open>
  A run that blocks one consumer and then publishes to it, for the witness.
\<close>

definition wake_example :: "(nat, nat, unit) bus_sys" where
  "wake_example =
     \<lparr> sys_bus = \<lparr> bus_inbound = [7], bus_outbound = [], bus_wait = 1, bus_closed = False,
        bus_maxInbound = 4, bus_maxOutbound = 4, bus_handlers = [], bus_subs = Map.empty,
        bus_nextSub = 0, bus_consumers = 1, bus_consumeStarts = 1 \<rparr>,
       sys_cons = (\<lambda>_. Idle)(0 := Blocked 0), sys_accepted = [7], sys_delivered = [] \<rparr>"

lemma wake_example_reachable:
  "bus_reach \<lparr>opt_MaxInbound = 4, opt_MaxOutbound = 4\<rparr> wake_example"
proof -
  let ?o = "\<lparr>opt_MaxInbound = 4, opt_MaxOutbound = 4\<rparr> :: bus_options"
  let ?b = "New ?o :: (nat, nat, unit) bus"
  let ?s1 = "(init_sys ?o)\<lparr>sys_bus := ConsumeInbound_enter ?b, sys_cons := (\<lambda>_. Idle)(0 := Looping)\<rparr>"
  let ?s2 = "?s1\<lparr>sys_cons := (\<lambda>_. Idle)(0 := Blocked 0)\<rparr>"
  have 1: "bus_reach ?o ?s1"
    using bus_reach_step [OF bus_reach_init bus_step.enter [of "init_sys ?o" 0]]
    by (simp add: init_sys_def)
  have 2: "bus_reach ?o ?s2"
    using bus_reach_step [OF 1 bus_step.pass_block [of ?s1 0 0 "ConsumeInbound_enter ?b"]]
    by (simp add: bus_defs New_def)
  show ?thesis
    using bus_reach_step [OF 2 bus_step.publish_ok
        [of None 7 ?s2 "broadcastLocked ((ConsumeInbound_enter ?b)\<lparr>bus_inbound := [7]\<rparr>)"]]
    by (simp add: bus_defs New_def init_sys_def wake_example_def)
qed

theorem bus_no_lost_wakeup_witness:
  "0 < bus_wait (sys_bus wake_example)
   \<and> bus_step wake_example (wake_example\<lparr>sys_cons := (sys_cons wake_example)(0 := Looping)\<rparr>)"
  by (rule bus_no_lost_wakeup [OF wake_example_reachable]) (simp_all add: wake_example_def)

text \<open>
  C2. In every reachable state the messages the bus accepted are, in order, those it
  delivered followed by those still queued: nothing is lost, duplicated or reordered,
  whatever the interleaving; a positive bound is never exceeded; and the consumer counter
  is the number of \<^verbatim>\<open>ConsumeInbound\<close> calls in flight.
\<close>

theorem bus_delivery_in_order:
  assumes "bus_reach opts s"
  shows "sys_accepted s = sys_delivered s @ bus_inbound (sys_bus s)
    \<and> (bus_maxInbound (sys_bus s) > 0 \<longrightarrow> InboundSize (sys_bus s) \<le> bus_maxInbound (sys_bus s))
    \<and> ConsumerCount (sys_bus s) = int (card {c. in_flight (sys_cons s c)})
    \<and> (ConsumerCount (sys_bus s) > 0 \<longrightarrow> HasConsumer (sys_bus s))"
  using bus_reach_inv [OF assms]
  by (auto simp: bus_inv_def InboundSize_def ConsumerCount_def HasConsumer_def)

theorem bus_delivery_in_order_witness:
  "sys_accepted wake_example = sys_delivered wake_example @ bus_inbound (sys_bus wake_example)
   \<and> InboundSize (sys_bus wake_example) \<le> 4
   \<and> ConsumerCount (sys_bus wake_example) = 1 \<and> HasConsumer (sys_bus wake_example)"
  using bus_delivery_in_order [OF wake_example_reachable]
  by (simp add: wake_example_def InboundSize_def ConsumerCount_def HasConsumer_def)



text \<open>
  A publish is all or nothing: it returns no error exactly when the bus is open, the
  context is live and the bound leaves room, and then the message is at the end of the
  queue and every earlier waiter is woken; on every error, which is chosen in the order
  closed, context, full, the bus is unchanged.
\<close>

theorem publish_all_or_nothing:
  "PublishInbound ctx m b =
     (if bus_closed b then (Some ErrClosed, b)
      else if ctx \<noteq> None then (Some (CtxErr (the ctx)), b)
      else if bus_maxInbound b > 0 \<and> InboundSize b \<ge> bus_maxInbound b then (Some ErrFull, b)
      else (None, b\<lparr>bus_inbound := bus_inbound b @ [m], bus_wait := Suc (bus_wait b)\<rparr>))"
  by (auto simp: bus_defs InboundSize_def split: option.splits)

text \<open>
  Event dispatch. The handlers called by \<^verbatim>\<open>Publish\<close> are a subset of those registered when
  it started, and a handler that an earlier handler of the same dispatch unsubscribes is
  not called any more, for any subscriber code that never sets a cleared flag again.
\<close>

theorem publish_respects_unsubscribe:
  assumes snapshot: "bus_handlers b = xs @ ys" and "victim \<notin> set xs"
    and off: "unsubscribed victim (snd (publish_loop call e xs b))"
    and stays: "\<And>h c. unsubscribed victim c \<Longrightarrow> unsubscribed victim (call h e c)"
  shows "victim \<notin> set (fst (Publish call e b))
    \<and> set (fst (Publish call e b)) \<subseteq> set (bus_handlers b)"
proof -
  obtain c1 b1 where 1: "publish_loop call e xs b = (c1, b1)"
    by (cases "publish_loop call e xs b")
  have "victim \<notin> set (fst (publish_loop call e ys b1))"
    using publish_loop_skips [of victim b1 call e ys] off stays 1 by simp
  moreover have "victim \<notin> set c1"
    using publish_loop_subseq [of call e xs b] assms(2) 1 by auto
  ultimately show ?thesis
    using publish_loop_subseq [of call e "bus_handlers b" b] 1
    by (auto simp: Publish_def snapshot publish_loop_append split: prod.splits)
qed

theorem publish_respects_unsubscribe_witness:
  "let b = snd (Subscribe (1::nat) (snd (Subscribe 1 (New \<lparr>opt_MaxInbound = 0, opt_MaxOutbound = 0\<rparr>
             :: (nat, nat, nat) bus))))
   in bus_handlers b = [0, 1] \<and> 1 \<notin> set (fst (Publish (\<lambda>h e. unsubscribe h) () b))"
proof -
  let ?n = "New \<lparr>opt_MaxInbound = 0, opt_MaxOutbound = 0\<rparr> :: (nat, nat, nat) bus"
  let ?b = "snd (Subscribe (1::nat) (snd (Subscribe 1 ?n)))"
  have h: "bus_handlers ?b = [0] @ [1]" by (simp add: Subscribe_def New_def)
  have "unsubscribed 1 (snd (publish_loop (\<lambda>h e. unsubscribe h) () [0] ?b))"
    by (simp add: Subscribe_def New_def unsubscribe_def unsubscribed_def)
  moreover have "unsubscribed 1 (unsubscribe h c)" if "unsubscribed 1 c"
    for h and c :: "(nat, nat, nat) bus"
    using that by (auto simp: unsubscribe_def unsubscribed_def split: option.splits)
  ultimately have "1 \<notin> set (fst (Publish (\<lambda>h e. unsubscribe h) () ?b))"
    using publish_respects_unsubscribe [OF h, of 1 "\<lambda>h e. unsubscribe h" "()"] by simp
  with h show ?thesis by simp
qed

end
