(* ===== verification/Bitvec.thy ===== *)
theory Bitvec
  imports Prelude
begin

text \<open>
  The fixed-width little-endian bit vectors of \<^verbatim>\<open>internal/filediff/indel.go\<close>: a vector is a
  list of 64-bit words, bit \<open>j\<close> in word \<open>j div 64\<close>. The lemmas read a vector as a natural
  number and show that the word-wise addition is addition modulo the vector's width, that
  the subtraction clears bits, and that the bit count is the number of set positions.
  Every index the code uses is in range, so no read or write of the model is out of range
  either (\<open>bv_set\<close> and \<open>bv_test\<close> are only used below \<open>64 * length\<close>).
\<close>

unbundle bit_operations_syntax

type_synonym bitvec = "64 word list"

section \<open>Definitions\<close>

definition newBitvec :: "nat \<Rightarrow> bitvec" where
  "newBitvec nbits = replicate ((nbits + 63) div 64) 0"

definition bv_set :: "bitvec \<Rightarrow> nat \<Rightarrow> bitvec" where
  "bv_set b n = b[n div 64 := (b ! (n div 64)) OR push_bit (n mod 64) 1]"

definition bv_test :: "bitvec \<Rightarrow> nat \<Rightarrow> bool" where
  "bv_test b n \<longleftrightarrow> (b ! (n div 64)) AND push_bit (n mod 64) 1 \<noteq> 0"

lemma and_minus_1_less: "x \<noteq> 0 \<Longrightarrow> unat (x AND (x - 1)) < unat x" for x :: "64 word"
proof -
  assume "x \<noteq> 0"
  have "x AND (x - 1) \<le> x - 1" by (rule word_and_le1)
  also have "x - 1 < x" using \<open>x \<noteq> 0\<close> by (metis word_less_1 word_not_simps(1) measure_unat word_less_nat_alt)
  finally show ?thesis by (simp add: word_less_nat_alt)
qed

text \<open>Kernighan's loop: clear the lowest set bit and count.\<close>

function popcount64 :: "64 word \<Rightarrow> nat" where
  "popcount64 x = (if x = 0 then 0 else Suc (popcount64 (x AND (x - 1))))"
  by pat_completeness auto
termination
  by (relation "measure unat") (auto intro: and_minus_1_less)

declare popcount64.simps [simp del]

fun popcount_words :: "bitvec \<Rightarrow> nat \<Rightarrow> nat" where
  "popcount_words b 0 = 0"
| "popcount_words b (Suc i) =
     (if i < length b then popcount_words b i + popcount64 (b ! i) else popcount_words b i)"

definition popcountBelow :: "bitvec \<Rightarrow> nat \<Rightarrow> nat" where
  "popcountBelow b nbits =
     (let full = nbits div 64; n = popcount_words b full; rem = nbits mod 64
      in if rem \<noteq> 0 \<and> full < length b
         then n + popcount64 ((b ! full) AND (push_bit rem 1 - 1)) else n)"

definition andBitvec :: "bitvec \<Rightarrow> bitvec option \<Rightarrow> bitvec" where
  "andBitvec a ob =
     (case ob of None \<Rightarrow> replicate (length a) 0 | Some b \<Rightarrow> map2 (AND) a b)"

definition orBitvec :: "bitvec \<Rightarrow> bitvec \<Rightarrow> bitvec" where
  "orBitvec a b = map2 (OR) a b"

fun add_words :: "64 word \<Rightarrow> bitvec \<Rightarrow> bitvec \<Rightarrow> bitvec" where
  "add_words carry (x # xs) (y # ys) =
     (let s = x + y; c = (if s < x then 1 else 0);
          s2 = s + carry; c' = (if s2 < s then 1 else c)
      in s2 # add_words c' xs ys)"
| "add_words carry _ _ = []"

definition addBitvec :: "bitvec \<Rightarrow> bitvec \<Rightarrow> bitvec" where
  "addBitvec a b = add_words 0 a b"

fun sub_words :: "64 word \<Rightarrow> bitvec \<Rightarrow> bitvec \<Rightarrow> bitvec" where
  "sub_words borrow (x # xs) (y # ys) =
     (let d = x - y; bo = (if x < y then 1 else 0);
          d2 = d - borrow; bo' = (if d < borrow then 1 else bo)
      in d2 # sub_words bo' xs ys)"
| "sub_words borrow _ _ = []"

definition subBitvec :: "bitvec \<Rightarrow> bitvec \<Rightarrow> bitvec" where
  "subBitvec a b = sub_words 0 a b"

section \<open>A vector as a number\<close>

fun bv_val :: "bitvec \<Rightarrow> nat" where
  "bv_val [] = 0"
| "bv_val (x # xs) = unat x + 2 ^ 64 * bv_val xs"

lemma bv_test_iff: "bv_test b n \<longleftrightarrow> bit (b ! (n div 64)) (n mod 64)"
  by (simp add: bv_test_def bit_iff_and_push_bit_not_eq_0)

lemma bit_unat_word: "bit (unat x) n \<longleftrightarrow> n < 64 \<and> bit x n" for x :: "64 word"
  using bit_imp_le_length [of x n] by (auto simp: bit_unsigned_iff)

lemma unat_word_less: "unat x < 2 ^ 64" for x :: "64 word"
  using unsigned_less [where 'a = nat, of x] by simp

lemma bit_bv_val: "bit (bv_val b) n \<longleftrightarrow> n < 64 * length b \<and> bv_test b n"
proof (induction b arbitrary: n)
  case Nil
  then show ?case by simp
next
  case (Cons x xs)
  have "bit (unat x + push_bit 64 (bv_val xs)) n \<longleftrightarrow>
      bit (unat x) n \<or> bit (push_bit 64 (bv_val xs)) n"
    by (rule bit_disjunctive_add_iff) (auto simp: bit_unat_word bit_push_bit_iff)
  moreover have "bv_val (x # xs) = unat x + push_bit 64 (bv_val xs)"
    by (simp add: push_bit_eq_mult)
  ultimately have *: "bit (bv_val (x # xs)) n \<longleftrightarrow> bit (unat x) n \<or> (64 \<le> n \<and> bit (bv_val xs) (n - 64))"
    by (simp only: bit_push_bit_iff) simp
  show ?case
  proof (cases "n < 64")
    case True
    with * show ?thesis by (simp add: bv_test_iff bit_unat_word)
  next
    case False
    then have "n div 64 = Suc ((n - 64) div 64)" "n mod 64 = (n - 64) mod 64"
      by (simp_all add: le_div_geq le_mod_geq)
    with False * Cons.IH [of "n - 64"] show ?thesis
      by (auto simp: bv_test_iff bit_unat_word)
  qed
qed

lemma bv_val_less: "bv_val b < 2 ^ (64 * length b)"
proof (induction b)
  case (Cons x xs)
  have "unat x + 2 ^ 64 * bv_val xs < 2 ^ 64 * (1 + bv_val xs)"
    using unat_word_less [of x] by simp
  also have "\<dots> \<le> 2 ^ 64 * 2 ^ (64 * length xs)"
    using Cons.IH by (intro mult_left_mono) auto
  finally show ?case by (simp add: power_add)
qed simp

lemma length_add_words [simp]: "length (add_words c a b) = min (length a) (length b)"
  by (induction c a b rule: add_words.induct) (auto simp: Let_def)

lemma add_word_carry:
  fixes x y c :: "64 word"
  assumes "unat c \<le> 1"
  defines "s \<equiv> x + y" and "s2 \<equiv> x + y + c"
  defines "c' \<equiv> if s2 < s then 1 else if s < x then 1 else (0 :: 64 word)"
  shows "unat s2 + 2 ^ 64 * unat c' = unat x + unat y + unat c \<and> unat c' \<le> 1"
proof -
  have s: "unat s = (unat x + unat y) mod 2 ^ 64"
    by (simp add: s_def unat_word_ariths)
  have s2: "unat s2 = (unat s + unat c) mod 2 ^ 64"
    by (simp add: s_def s2_def unat_word_ariths)
  have b: "unat x < 2 ^ 64" "unat y < 2 ^ 64" "unat s < 2 ^ 64" by (rule unat_word_less)+
  show ?thesis
  proof (cases "unat x + unat y < 2 ^ 64")
    case True
    then have "unat s = unat x + unat y" using s by simp
    then show ?thesis using s2 assms(1) b
      by (cases "unat s + unat c < 2 ^ 64")
         (auto simp: c'_def word_less_nat_alt not_less mod_if)
  next
    case False
    then have "(unat x + unat y) mod 2 ^ 64 = unat x + unat y - 2 ^ 64"
      using b by (simp add: le_mod_geq)
    then have "unat s + 2 ^ 64 = unat x + unat y" using s False by linarith
    then have "unat s + unat c < 2 ^ 64" "unat s < unat x" using b assms(1) by linarith+
    then show ?thesis
      using s2 \<open>unat s + 2 ^ 64 = unat x + unat y\<close>
      by (auto simp: c'_def word_less_nat_alt not_less)
  qed
qed

lemma mod_block: "a < B \<Longrightarrow> a + B * (v mod N) = (a + B * v) mod (B * N)" for a B v N :: nat
  by (cases "B = 0") (simp_all add: mod_mult2_eq)

lemma bv_val_add_words:
  "length a = length b \<Longrightarrow> unat c \<le> 1 \<Longrightarrow>
   bv_val (add_words c a b) = (bv_val a + bv_val b + unat c) mod 2 ^ (64 * length a)"
proof (induction c a b rule: add_words.induct)
  case (1 carry x xs y ys)
  define s where "s = x + y"
  define s2 where "s2 = x + y + carry"
  define c where "c = (if s2 < s then 1 else if s < x then 1 else (0 :: 64 word))"
  have c: "unat s2 + 2 ^ 64 * unat c = unat x + unat y + unat carry" "unat c \<le> 1"
    unfolding s_def s2_def c_def using add_word_carry [OF "1.prems"(2), of x y] by blast+
  let ?N = "2 ^ (64 * length xs) :: nat" and ?B = "2 ^ 64 :: nat"
  have IH: "bv_val (add_words c xs ys) = (bv_val xs + bv_val ys + unat c) mod ?N"
    using "1.IH" [OF refl refl refl refl] "1.prems"(1) c(2)
    unfolding s_def s2_def c_def by simp
  have "add_words carry (x # xs) (y # ys) = s2 # add_words c xs ys"
    by (simp add: s_def s2_def c_def Let_def)
  then have "bv_val (add_words carry (x # xs) (y # ys))
      = unat s2 + ?B * ((bv_val xs + bv_val ys + unat c) mod ?N)"
    by (simp add: IH)
  also have "\<dots> = (unat s2 + ?B * (bv_val xs + bv_val ys + unat c)) mod (?B * ?N)"
    by (rule mod_block) (rule unat_word_less)
  also have "unat s2 + ?B * (bv_val xs + bv_val ys + unat c)
      = bv_val (x # xs) + bv_val (y # ys) + unat carry"
    using c(1) by (simp add: algebra_simps)
  finally show ?case by (simp add: power_add)
qed auto

lemma addBitvec_val:
  "length a = length b \<Longrightarrow> bv_val (addBitvec a b) = (bv_val a + bv_val b) mod 2 ^ (64 * length a)"
  by (simp add: addBitvec_def bv_val_add_words)

section \<open>Subtraction of a subset, bit counts\<close>

lemma word_minus_subset:
  fixes x y :: "64 word"
  assumes "y AND NOT x = 0"
  shows "x - y = x AND NOT y" and "\<not> x < y"
proof -
  have "(x AND NOT y) + y = (x AND NOT y) OR y"
    by (rule disjunctive_add) (auto simp: bit_simps)
  also have "\<dots> = x"
  proof (rule bit_word_eqI)
    fix n
    have "\<not> bit (y AND NOT x) n" by (simp add: assms)
    then show "bit ((x AND NOT y) OR y) n = bit x n" if "n < LENGTH(64)"
      using that by (auto simp: bit_simps)
  qed
  finally have sum: "(x AND NOT y) + y = x" .
  then show "x - y = x AND NOT y" by (metis add_diff_cancel)
  have "y = y AND x"
  proof (rule bit_word_eqI)
    fix n
    have "\<not> bit (y AND NOT x) n" by (simp add: assms)
    then show "bit y n = bit (y AND x) n" if "n < LENGTH(64)"
      using that by (auto simp: bit_simps)
  qed
  then show "\<not> x < y" by (metis word_and_le1 not_less)
qed

lemma sub_words_subset:
  "length a = length b \<Longrightarrow> list_all2 (\<lambda>x y. y AND NOT x = 0) a b \<Longrightarrow>
   sub_words 0 a b = map2 (\<lambda>x y. x AND NOT y) a b"
  by (induction "0 :: 64 word" a b rule: sub_words.induct)
     (simp_all add: Let_def word_minus_subset)

lemma bv_test_map2:
  "length a = length b \<Longrightarrow> n < 64 * length a \<Longrightarrow> (\<And>x y i. i < 64 \<Longrightarrow> bit (f x y) i = g (bit x i) (bit y i)) \<Longrightarrow>
   bv_test (map2 f a b) n = g (bv_test a n) (bv_test b n)"
  by (simp add: bv_test_iff less_mult_imp_div_less mult.commute)

lemma bv_test_or: "length a = length b \<Longrightarrow> n < 64 * length a \<Longrightarrow>
   bv_test (orBitvec a b) n \<longleftrightarrow> bv_test a n \<or> bv_test b n"
  unfolding orBitvec_def by (rule bv_test_map2) (auto simp: bit_simps)

lemma bv_test_and: "length a = length b \<Longrightarrow> n < 64 * length a \<Longrightarrow>
   bv_test (andBitvec a (Some b)) n \<longleftrightarrow> bv_test a n \<and> bv_test b n"
  unfolding andBitvec_def option.case by (rule bv_test_map2) (auto simp: bit_simps)

lemma bv_test_zero: "n < 64 * length a \<Longrightarrow> \<not> bv_test (andBitvec a None) n"
  by (simp add: andBitvec_def bv_test_iff less_mult_imp_div_less mult.commute)

lemma length_bitvec_ops [simp]:
  "length (andBitvec a None) = length a"
  "length (andBitvec a (Some b)) = min (length a) (length b)"
  "length (orBitvec a b) = min (length a) (length b)"
  "length (addBitvec a b) = min (length a) (length b)"
  by (simp_all add: andBitvec_def orBitvec_def addBitvec_def)

lemma length_sub_words [simp]: "length (sub_words c a b) = min (length a) (length b)"
  by (induction c a b rule: sub_words.induct) (auto simp: Let_def)

lemma length_subBitvec [simp]: "length (subBitvec a b) = min (length a) (length b)"
  by (simp add: subBitvec_def)

lemma and_subset: "list_all2 (\<lambda>x y. y AND NOT x = 0) a (map2 (AND) a b)"
  if "length a = length b" for a b :: bitvec
  using that by (induction a b rule: list_induct2) (auto simp: bit_eq_iff bit_simps)

text \<open>In the LCS update the subtrahend is a subset, so the subtraction clears its bits.\<close>

lemma bv_test_sub_and:
  assumes "length a = length b" "n < 64 * length a"
  shows "bv_test (subBitvec a (andBitvec a (Some b))) n \<longleftrightarrow> bv_test a n \<and> \<not> bv_test b n"
proof -
  have "subBitvec a (andBitvec a (Some b)) = map2 (\<lambda>x y. x AND NOT y) a (map2 (AND) a b)"
    using assms(1) and_subset by (simp add: subBitvec_def andBitvec_def sub_words_subset)
  also have "\<dots> = map2 (\<lambda>x y. x AND NOT y) a b"
    by (rule nth_equalityI) (simp_all add: assms, auto simp: bit_eq_iff bit_simps)
  finally show ?thesis
    using bv_test_map2 [OF assms, of "\<lambda>x y. x AND NOT y" "\<lambda>p q. p \<and> \<not> q"]
    by (simp add: bit_simps)
qed

lemma subBitvec_zero: "subBitvec a (andBitvec a None) = a"
proof -
  have "sub_words 0 a (replicate (length a) 0) = a"
    by (induction a) (auto simp: Let_def)
  then show ?thesis by (simp add: subBitvec_def andBitvec_def)
qed

definition bits_of :: "64 word \<Rightarrow> nat set" where
  "bits_of x = {i. bit x i}"

lemma finite_bits_of [simp]: "finite (bits_of x)"
proof (rule finite_subset)
  show "bits_of x \<subseteq> {..<64}" using bit_imp_le_length [of x] by (auto simp: bits_of_def)
qed simp

text \<open>Subtracting one flips the lowest set bit and everything below it.\<close>

lemma bits_of_clear_lowest:
  assumes "x \<noteq> 0"
  shows "bits_of (x AND (x - 1)) = bits_of x - {Min (bits_of x)}" and "bits_of x \<noteq> {}"
proof -
  show ne: "bits_of x \<noteq> {}"
    using assms by (auto simp: bits_of_def bit_eq_iff)
  define n where "n = Min (bits_of x)"
  have n: "bit x n" "n < 64"
    using Min_in [OF finite_bits_of ne] bit_imp_le_length [of x n]
    by (auto simp: n_def bits_of_def)
  have low: "\<not> bit x j" if "j < n" for j
  proof
    assume "bit x j"
    then have "n \<le> j" unfolding n_def by (intro Min_le) (auto simp: bits_of_def)
    with that show False by simp
  qed
  define z where "z = x AND NOT (mask (Suc n))"
  have z: "bit z j \<longleftrightarrow> n < j \<and> bit x j" for j
    using bit_imp_le_length [of x j] by (auto simp: z_def bit_simps)
  have "z + push_bit n 1 = z OR push_bit n 1"
    by (rule disjunctive_add) (auto simp: z bit_simps)
  also have "\<dots> = x"
    using n low by (intro bit_word_eqI) (auto simp: z bit_simps, metis linorder_neqE_nat)
  finally have x: "x = z + push_bit n 1" by simp
  have "x - 1 = z + (push_bit n 1 - 1)" by (simp add: x)
  also have "push_bit n 1 - 1 = (mask n :: 64 word)" by (simp add: mask_eq_exp_minus_1)
  also have "z + mask n = z OR mask n"
    by (rule disjunctive_add) (auto simp: z bit_simps)
  finally have "bit (x - 1) j \<longleftrightarrow> (n < j \<and> bit x j) \<or> (j < n \<and> j < 64)" for j
    by (auto simp: z bit_simps)
  then have "bit (x AND (x - 1)) j \<longleftrightarrow> bit x j \<and> j \<noteq> n" for j
    using low by (auto simp: bit_simps) (metis linorder_neqE_nat)
  then show "bits_of (x AND (x - 1)) = bits_of x - {Min (bits_of x)}"
    by (auto simp: bits_of_def n_def)
qed

lemma popcount64_card: "popcount64 x = card (bits_of x)"
proof (induction x rule: popcount64.induct)
  case (1 x)
  show ?case
  proof (cases "x = 0")
    case True
    then show ?thesis by (simp add: popcount64.simps [of 0] bits_of_def)
  next
    case False
    have "card (bits_of x) = Suc (card (bits_of x - {Min (bits_of x)}))"
      using bits_of_clear_lowest(2) [OF False] by (intro card.remove) auto
    then show ?thesis
      using False "1.IH" [OF False] bits_of_clear_lowest(1) [OF False]
      by (simp add: popcount64.simps [of x])
  qed
qed

text \<open>The positions below \<open>n\<close> that are set, and how a word contributes its block of them.\<close>

definition below :: "bitvec \<Rightarrow> nat \<Rightarrow> nat set" where
  "below b n = {i. i < n \<and> bv_test b i}"

lemma finite_below [simp]: "finite (below b n)"
  by (rule finite_subset [of _ "{..<n}"]) (auto simp: below_def)

lemma card_below_block:
  assumes "r \<le> 64" and "w = b ! k"
  shows "card (below b (64 * k + r)) = card (below b (64 * k)) + card {i. i < r \<and> bit w i}"
proof -
  have "below b (64 * k + r) = below b (64 * k) \<union> (\<lambda>i. 64 * k + i) ` {i. i < r \<and> bit w i}"
  proof (rule set_eqI, rule iffI)
    fix n assume n: "n \<in> below b (64 * k + r)"
    show "n \<in> below b (64 * k) \<union> (\<lambda>i. 64 * k + i) ` {i. i < r \<and> bit w i}"
    proof (cases "n < 64 * k")
      case True
      with n show ?thesis by (simp add: below_def)
    next
      case False
      then obtain i where i: "n = 64 * k + i" by (metis not_less le_Suc_ex)
      with n assms have "i < r" "i < 64" by (auto simp: below_def)
      with n i assms(2) show ?thesis by (auto simp: below_def bv_test_iff)
    qed
  next
    fix n assume "n \<in> below b (64 * k) \<union> (\<lambda>i. 64 * k + i) ` {i. i < r \<and> bit w i}"
    with assms show "n \<in> below b (64 * k + r)" by (auto simp: below_def bv_test_iff)
  qed
  moreover have "below b (64 * k) \<inter> (\<lambda>i. 64 * k + i) ` {i. i < r \<and> bit w i} = {}"
    by (auto simp: below_def)
  ultimately show ?thesis
    by (simp add: card_Un_disjoint card_image inj_on_def)
qed

lemma popcount_words_card: "k \<le> length b \<Longrightarrow> popcount_words b k = card (below b (64 * k))"
proof (induction k)
  case 0
  then show ?case by (simp add: below_def)
next
  case (Suc k)
  have "{i. i < 64 \<and> bit (b ! k) i} = bits_of (b ! k)"
    using bit_imp_le_length [of "b ! k"] by (auto simp: bits_of_def)
  then show ?case
    using Suc card_below_block [of 64 "b ! k" b k] by (simp add: popcount64_card add.commute)
qed

lemma popcountBelow_card:
  assumes "n \<le> 64 * length b"
  shows "popcountBelow b n = card (below b n)"
proof -
  obtain k r where kr: "k = n div 64" "r = n mod 64" by simp
  then have n: "n = 64 * k + r" "r < 64" by simp_all
  have k: "k \<le> length b" using assms n(1) by linarith
  have full: "k < length b" if "r \<noteq> 0"
  proof (rule ccontr)
    assume "\<not> k < length b"
    then have "64 * length b \<le> 64 * k" by simp
    with that assms n show False by linarith
  qed
  have "push_bit r 1 - 1 = (mask r :: 64 word)" by (simp add: mask_eq_exp_minus_1)
  then have "bits_of ((b ! k) AND (push_bit r 1 - 1)) = {i. i < r \<and> bit (b ! k) i}"
    using bit_imp_le_length [of "b ! k"] by (auto simp: bits_of_def bit_simps)
  then have "popcountBelow b n = card (below b (64 * k)) + card {i. i < r \<and> bit (b ! k) i}"
    using popcount_words_card [OF k] full
    by (auto simp: popcountBelow_def Let_def popcount64_card simp flip: kr)
  also have "\<dots> = card (below b (64 * k + r))"
    using card_below_block [of r "b ! k" b k] n(2) by simp
  finally show ?thesis using n(1) by simp
qed

section \<open>Carries\<close>

definition carry_at :: "nat \<Rightarrow> nat \<Rightarrow> nat \<Rightarrow> bool" where
  "carry_at a b j \<longleftrightarrow> 2 ^ j \<le> take_bit j a + take_bit j b"

lemma carry_at_0 [simp]: "\<not> carry_at a b 0"
  by (simp add: carry_at_def)

lemma carry_at_Suc:
  "carry_at a b (Suc j) \<longleftrightarrow> (if bit a j = bit b j then bit a j else carry_at a b j)"
proof -
  have "take_bit j a < 2 ^ j" "take_bit j b < 2 ^ j" by simp_all
  then have "\<not> 2 * 2 ^ j \<le> take_bit j a + take_bit j b" by linarith
  then show ?thesis
    by (cases "bit a j"; cases "bit b j") (auto simp: carry_at_def take_bit_Suc_from_most)
qed

lemma bit_add_carry: "bit (a + b) j \<longleftrightarrow> ((bit a j \<noteq> bit b j) \<noteq> carry_at a b j)"
proof -
  have "(a + b) div 2 ^ j = a div 2 ^ j + b div 2 ^ j + (a mod 2 ^ j + b mod 2 ^ j) div 2 ^ j"
    by (rule div_add1_eq)
  moreover have "(a mod 2 ^ j + b mod 2 ^ j) div 2 ^ j = of_bool (carry_at a b j)"
  proof (cases "carry_at a b j")
    case True
    have "a mod 2 ^ j < 2 ^ j" "b mod 2 ^ j < 2 ^ j" by simp_all
    then have less: "a mod 2 ^ j + b mod 2 ^ j < 2 * 2 ^ j" by linarith
    have ge: "2 ^ j \<le> a mod 2 ^ j + b mod 2 ^ j"
      using True by (simp add: carry_at_def take_bit_eq_mod)
    have "(a mod 2 ^ j + b mod 2 ^ j) div 2 ^ j = 1"
      by (rule div_nat_eqI) (use less ge in simp_all)
    with True show ?thesis by simp
  next
    case False
    then show ?thesis by (simp add: carry_at_def take_bit_eq_mod)
  qed
  ultimately show ?thesis by (cases "carry_at a b j") (auto simp: bit_iff_odd)
qed

lemma bv_test_add:
  assumes "length a = length b" "n < 64 * length a"
  shows "bv_test (addBitvec a b) n \<longleftrightarrow>
     ((bv_test a n \<noteq> bv_test b n) \<noteq> carry_at (bv_val a) (bv_val b) n)"
proof -
  have "bv_test (addBitvec a b) n \<longleftrightarrow> bit (take_bit (64 * length a) (bv_val a + bv_val b)) n"
    using assms bit_bv_val [of "addBitvec a b" n] by (simp add: addBitvec_val take_bit_eq_mod)
  also have "\<dots> \<longleftrightarrow> bit (bv_val a + bv_val b) n"
    using assms(2) by (simp add: bit_take_bit_iff)
  finally show ?thesis using assms by (simp add: bit_add_carry bit_bv_val)
qed

end
