(* ===== verification/Indel.thy ===== *)
theory Indel
  imports Prelude Bitvec "HOL-Library.Sublist"
begin

text \<open>
  The line alignment of \<^verbatim>\<open>internal/filediff/indel.go\<close>: the bit-parallel longest common
  subsequence matrix, the backward recovery walk that fills an array of edit operations
  from its end, and their grouping into opcode blocks.

  An out-of-range array write of the code is the result \<open>None\<close> of the walk, and a grouping
  loop that makes no progress is the result \<open>None\<close> of the grouping; the theorems show that
  neither happens. Lines are values of any type with equality (the code has strings).
\<close>

section \<open>Definitions\<close>

datatype Tag = TagEqual | TagInsert | TagDelete | TagReplace

record Opcode =
  op_Tag :: Tag
  op_SrcStart :: nat
  op_SrcEnd :: nat
  op_DestStart :: nat
  op_DestEnd :: nat

record editop =
  ed_tag :: Tag
  ed_src :: nat
  ed_dest :: nat

fun common_prefix :: "'a list \<Rightarrow> 'a list \<Rightarrow> nat" where
  "common_prefix (x # xs) (y # ys) = (if x = y then Suc (common_prefix xs ys) else 0)"
| "common_prefix _ _ = 0"

text \<open>The prefix first, then the suffix of what remains, so that the two do not overlap.\<close>

definition commonAffix :: "'a list \<Rightarrow> 'a list \<Rightarrow> nat \<times> nat" where
  "commonAffix s1 s2 =
     (let p = common_prefix s1 s2 in (p, common_prefix (rev (drop p s1)) (rev (drop p s2))))"

text \<open>The match vectors: bit \<open>j\<close> of \<open>matches line\<close> says that \<open>s1 ! j\<close> is \<open>line\<close>.\<close>

fun match_loop :: "nat \<Rightarrow> nat \<Rightarrow> 'a list \<Rightarrow> ('a \<rightharpoonup> bitvec) \<Rightarrow> ('a \<rightharpoonup> bitvec)" where
  "match_loop n j [] matches = matches"
| "match_loop n j (line # rest) matches =
     (let m = (case matches line of Some m \<Rightarrow> m | None \<Rightarrow> newBitvec n)
      in match_loop n (Suc j) rest (matches(line \<mapsto> bv_set m j)))"

fun ones_loop :: "nat \<Rightarrow> bitvec \<Rightarrow> bitvec" where
  "ones_loop 0 s = s"
| "ones_loop (Suc j) s = bv_set (ones_loop j s) j"

definition lcs_update :: "bitvec \<Rightarrow> bitvec option \<Rightarrow> bitvec" where
  "lcs_update s m = (let u = andBitvec s m in orBitvec (addBitvec s u) (subBitvec s u))"

fun lcs_rows :: "('a \<rightharpoonup> bitvec) \<Rightarrow> bitvec \<Rightarrow> 'a list \<Rightarrow> bitvec list" where
  "lcs_rows matches s [] = []"
| "lcs_rows matches s (line # rest) =
     (let s' = lcs_update s (matches line) in s' # lcs_rows matches s' rest)"

definition lcsMatrix :: "'a list \<Rightarrow> 'a list \<Rightarrow> nat \<times> bitvec list" where
  "lcsMatrix s1 s2 =
     (if s1 = [] then (0, [])
      else let n = length s1;
               matches = match_loop n 0 s1 Map.empty;
               s = ones_loop n (newBitvec n);
               matrix = lcs_rows matches s s2;
               final = (if matrix = [] then s else last matrix)
           in (n - popcountBelow final n, matrix))"

text \<open>\<open>put\<close> is \<^verbatim>\<open>dist--; ops[dist] = e\<close>; a write at index -1 would be a panic.\<close>

definition put :: "editop \<Rightarrow> nat \<times> editop list \<Rightarrow> (nat \<times> editop list) option" where
  "put e st = (case st of (dist, ops) \<Rightarrow>
     if dist = 0 then None else Some (dist - 1, ops[dist - 1 := e]))"

fun drain_delete :: "nat \<Rightarrow> nat \<Rightarrow> nat \<Rightarrow> nat \<times> editop list \<Rightarrow> (nat \<times> editop list) option" where
  "drain_delete p 0 row st = Some st"
| "drain_delete p (Suc col) row st =
     Option.bind (put \<lparr>ed_tag = TagDelete, ed_src = col + p, ed_dest = row + p\<rparr> st)
       (drain_delete p col row)"

fun drain_insert :: "nat \<Rightarrow> nat \<Rightarrow> nat \<Rightarrow> nat \<times> editop list \<Rightarrow> (nat \<times> editop list) option" where
  "drain_insert p col 0 st = Some st"
| "drain_insert p col (Suc row) st =
     Option.bind (put \<lparr>ed_tag = TagInsert, ed_src = col + p, ed_dest = row + p\<rparr> st)
       (drain_insert p col row)"

text \<open>The backward walk; \<open>col\<close> indexes \<open>s1\<close> and \<open>row\<close> indexes \<open>s2\<close>, both from the end.\<close>

fun recover ::
  "bitvec list \<Rightarrow> nat \<Rightarrow> nat \<Rightarrow> nat \<Rightarrow> nat \<times> editop list \<Rightarrow> (nat \<times> editop list) option" where
  "recover matrix p (Suc col) (Suc row) st =
     (if bv_test (matrix ! row) col
      then Option.bind (put \<lparr>ed_tag = TagDelete, ed_src = col + p, ed_dest = Suc row + p\<rparr> st)
             (recover matrix p col (Suc row))
      else if row \<noteq> 0 \<and> \<not> bv_test (matrix ! (row - 1)) col
      then Option.bind (put \<lparr>ed_tag = TagInsert, ed_src = Suc col + p, ed_dest = row + p\<rparr> st)
             (recover matrix p (Suc col) row)
      else recover matrix p col row st)"
| "recover matrix p col row st =
     Option.bind (drain_delete p col row st) (drain_insert p 0 row)"

text \<open>The initial content of the array; the theorems show that every slot is overwritten.\<close>

definition zero_editop :: editop where
  "zero_editop = \<lparr>ed_tag = TagEqual, ed_src = 0, ed_dest = 0\<rparr>"

text \<open>One run of equal-tag operations at consecutive positions.\<close>

fun opcode_run :: "Tag \<Rightarrow> nat \<Rightarrow> nat \<Rightarrow> editop list \<Rightarrow> nat \<times> nat \<times> editop list" where
  "opcode_run tag srcPos destPos [] = (srcPos, destPos, [])"
| "opcode_run tag srcPos destPos (e # es) =
     (if ed_tag e = tag \<and> srcPos = ed_src e \<and> destPos = ed_dest e
      then (case tag of
              TagReplace \<Rightarrow> opcode_run tag (Suc srcPos) (Suc destPos) es
            | TagInsert \<Rightarrow> opcode_run tag srcPos (Suc destPos) es
            | TagDelete \<Rightarrow> opcode_run tag (Suc srcPos) destPos es
            | TagEqual \<Rightarrow> opcode_run tag srcPos destPos es)
      else (srcPos, destPos, e # es))"

text \<open>One pass of the grouping loop: the blocks it appends, the new position, what is left.\<close>

definition opcode_pass ::
  "nat \<Rightarrow> nat \<Rightarrow> editop \<Rightarrow> editop list \<Rightarrow> Opcode list \<times> nat \<times> nat \<times> editop list" where
  "opcode_pass srcPos destPos e es =
     (let gap = srcPos < ed_src e \<or> destPos < ed_dest e;
          eq = (if gap then [\<lparr>op_Tag = TagEqual, op_SrcStart = srcPos, op_SrcEnd = ed_src e,
                              op_DestStart = destPos, op_DestEnd = ed_dest e\<rparr>] else []);
          s = (if gap then ed_src e else srcPos); d = (if gap then ed_dest e else destPos);
          (s', d', rest) = opcode_run (ed_tag e) s d (e # es)
      in (eq @ [\<lparr>op_Tag = ed_tag e, op_SrcStart = s, op_SrcEnd = s',
                 op_DestStart = d, op_DestEnd = d'\<rparr>], s', d', rest))"

function opcode_blocks :: "nat \<Rightarrow> nat \<Rightarrow> editop list \<Rightarrow> (Opcode list \<times> nat \<times> nat) option" where
  "opcode_blocks srcPos destPos [] = Some ([], srcPos, destPos)"
| "opcode_blocks srcPos destPos (e # es) =
     (case opcode_pass srcPos destPos e es of (bs, s', d', rest) \<Rightarrow>
        if length rest < Suc (length es)
        then map_option (\<lambda>(bs', pos). (bs @ bs', pos)) (opcode_blocks s' d' rest)
        else None)"
  by pat_completeness auto
termination
  by (relation "measure (\<lambda>(s, d, es). length es)") auto

definition opsToOpcodes :: "editop list \<Rightarrow> nat \<Rightarrow> nat \<Rightarrow> Opcode list option" where
  "opsToOpcodes ops srcLen destLen =
     map_option (\<lambda>(bs, srcPos, destPos).
        if srcPos < srcLen \<or> destPos < destLen
        then bs @ [\<lparr>op_Tag = TagEqual, op_SrcStart = srcPos, op_SrcEnd = srcLen,
                    op_DestStart = destPos, op_DestEnd = destLen\<rparr>]
        else bs) (opcode_blocks 0 0 ops)"

definition IndelOpcodes :: "'a list \<Rightarrow> 'a list \<Rightarrow> Opcode list option" where
  "IndelOpcodes before after =
     (let (prefix, suffix) = commonAffix before after;
          s1 = drop prefix (take (length before - suffix) before);
          s2 = drop prefix (take (length after - suffix) after);
          (sim, matrix) = lcsMatrix s1 s2;
          srcLen = length s1 + prefix + suffix;
          destLen = length s2 + prefix + suffix;
          dist = length s1 + length s2 - 2 * sim
      in Option.bind (recover matrix prefix (length s1) (length s2) (dist, replicate dist zero_editop))
           (\<lambda>(_, ops). opsToOpcodes ops srcLen destLen))"

section \<open>The longest common subsequence\<close>

text \<open>
  The reference: the dynamic program on lists, read from the end of the two sequences
  (\<open>lcs_at s2 s1 i j\<close> is the value for the first \<open>i\<close> lines of \<open>s2\<close> and the first \<open>j\<close> of
  \<open>s1\<close>), and that it is the length of a longest common subsequence.
\<close>

fun lcs :: "'a list \<Rightarrow> 'a list \<Rightarrow> nat" where
  "lcs (x # xs) (y # ys) =
     (if x = y then Suc (lcs xs ys) else max (lcs xs (y # ys)) (lcs (x # xs) ys))"
| "lcs _ _ = 0"

lemma lcs_Nil [simp]: "lcs [] ys = 0" "lcs xs [] = 0"
  by (cases ys; simp) (cases xs; simp)

lemma lcs_upper: "subseq zs xs \<Longrightarrow> subseq zs ys \<Longrightarrow> length zs \<le> lcs xs ys"
proof (induction xs ys arbitrary: zs rule: lcs.induct)
  case (1 x xs y ys)
  show ?case
  proof (cases zs)
    case Nil
    then show ?thesis by simp
  next
    case (Cons z zs')
    show ?thesis
    proof (cases "x = y")
      case True
      have "length zs' \<le> lcs xs ys"
        using "1.prems" True Cons by (intro "1.IH"(1)) (auto simp: subseq_Cons2_iff
            split: if_splits dest: subseq_Cons')
      with True Cons show ?thesis by simp
    next
      case False
      have "subseq zs xs \<or> subseq zs ys"
        using "1.prems" False Cons by (auto simp: subseq_Cons2_iff split: if_splits)
      then show ?thesis
        using "1.IH"(2,3) [OF False] "1.prems" False by fastforce
    qed
  qed
qed auto

lemma lcs_attained: "\<exists>zs. subseq zs xs \<and> subseq zs ys \<and> length zs = lcs xs ys"
proof (induction xs ys rule: lcs.induct)
  case (1 x xs y ys)
  show ?case
  proof (cases "x = y")
    case True
    with "1.IH"(1) obtain zs where "subseq zs xs" "subseq zs ys" "length zs = lcs xs ys"
      by auto
    with True show ?thesis by (intro exI [of _ "x # zs"]) auto
  next
    case False
    with "1.IH"(2,3) show ?thesis
      by (auto simp: max_def intro: list_emb_Cons)
  qed
qed (auto intro: exI [of _ "[]"])

lemma lcs_le: "lcs xs ys \<le> length xs" "lcs xs ys \<le> length ys"
  using lcs_attained [of xs ys] by (auto dest: list_emb_length)

lemma subseq_rev_iff: "subseq (rev xs) (rev ys) \<longleftrightarrow> subseq xs ys"
proof -
  have *: "subseq xs ys \<Longrightarrow> subseq (rev xs) (rev ys)" for xs ys :: "'a list"
    by (induction rule: list_emb.induct) (auto intro: list_emb_append_mono)
  from * [of xs ys] * [of "rev xs" "rev ys"] show ?thesis by auto
qed

lemma lcs_rev: "lcs (rev xs) (rev ys) = lcs xs ys"
proof (rule antisym)
  obtain zs where "subseq zs (rev xs)" "subseq zs (rev ys)" "length zs = lcs (rev xs) (rev ys)"
    using lcs_attained by blast
  then show "lcs (rev xs) (rev ys) \<le> lcs xs ys"
    using lcs_upper [of "rev zs" xs ys] subseq_rev_iff [of "rev zs"] by auto
next
  obtain zs where "subseq zs xs" "subseq zs ys" "length zs = lcs xs ys"
    using lcs_attained by blast
  then show "lcs xs ys \<le> lcs (rev xs) (rev ys)"
    using lcs_upper [of "rev zs" "rev xs" "rev ys"] by (auto simp: subseq_rev_iff)
qed

lemma lcs_prefix: "lcs (ps @ xs) (ps @ ys) = length ps + lcs xs ys"
  by (induction ps) auto

lemma lcs_suffix: "lcs (xs @ zs) (ys @ zs) = lcs xs ys + length zs"
  using lcs_prefix [of "rev zs" "rev xs" "rev ys"] lcs_rev [of "xs @ zs" "ys @ zs"]
  by (simp add: lcs_rev)

definition lcs_at :: "'a list \<Rightarrow> 'a list \<Rightarrow> nat \<Rightarrow> nat \<Rightarrow> nat" where
  "lcs_at s2 s1 i j = lcs (rev (take i s2)) (rev (take j s1))"

lemma lcs_at_0 [simp]: "lcs_at s2 s1 0 j = 0" "lcs_at s2 s1 i 0 = 0"
  by (simp_all add: lcs_at_def)

lemma lcs_at_Suc:
  "i < length s2 \<Longrightarrow> j < length s1 \<Longrightarrow>
   lcs_at s2 s1 (Suc i) (Suc j) =
     (if s2 ! i = s1 ! j then Suc (lcs_at s2 s1 i j)
      else max (lcs_at s2 s1 i (Suc j)) (lcs_at s2 s1 (Suc i) j))"
  by (simp add: lcs_at_def take_Suc_conv_app_nth)

lemma lcs_at_full: "lcs_at s2 s1 (length s2) (length s1) = lcs s1 s2"
proof -
  have "lcs s2 s1 = lcs s1 s2"
  proof -
    have "lcs a b \<le> lcs b a" for a b :: "'a list"
      using lcs_attained [of a b] lcs_upper [of _ b a] by force
    then show ?thesis by (simp add: antisym)
  qed
  then show ?thesis by (simp add: lcs_at_def lcs_rev)
qed

text \<open>Neighbouring entries differ by at most one.\<close>

lemma lcs_at_mono_steps:
  "i \<le> length s2 \<Longrightarrow> j \<le> length s1 \<Longrightarrow>
   (j < length s1 \<longrightarrow> lcs_at s2 s1 i j \<le> lcs_at s2 s1 i (Suc j) \<and>
                      lcs_at s2 s1 i (Suc j) \<le> Suc (lcs_at s2 s1 i j)) \<and>
   (i < length s2 \<longrightarrow> lcs_at s2 s1 i j \<le> lcs_at s2 s1 (Suc i) j \<and>
                      lcs_at s2 s1 (Suc i) j \<le> Suc (lcs_at s2 s1 i j))"
proof (induction "i + j" arbitrary: i j rule: less_induct)
  case less
  show ?case
  proof (cases "i = 0 \<or> j = 0")
    case True
    then show ?thesis
      using lcs_le(1) [of "rev (take (Suc 0) s2)" "rev (take j s1)"]
        lcs_le(2) [of "rev (take i s2)" "rev (take (Suc 0) s1)"]
      by (auto simp: lcs_at_def)
  next
    case False
    then obtain a b where ab: "i = Suc a" "j = Suc b" by (metis not0_implies_Suc)
    have 1: "a < length s2" "b < length s1" using less.prems ab by auto
    note h1 = less.hyps [of a "Suc b"] and h2 = less.hyps [of "Suc a" b] and h3 = less.hyps [of a b]
    show ?thesis
      using h1 h2 h3 1 less.prems ab lcs_at_Suc [of a s2 b s1]
        lcs_at_Suc [of a s2 "Suc b" s1] lcs_at_Suc [of "Suc a" s2 b s1]
      by auto
  qed
qed

section \<open>The bit-parallel rows are the dynamic program\<close>

text \<open>
  Bit \<open>j\<close> of row \<open>i\<close> is set exactly when taking one more line of \<open>s1\<close> does not lengthen
  the common subsequence; the carry into bit \<open>j\<close> of the addition is the vertical increment.
\<close>

definition row_ok :: "'a list \<Rightarrow> 'a list \<Rightarrow> nat \<Rightarrow> bitvec \<Rightarrow> bool" where
  "row_ok s2 s1 i S \<longleftrightarrow> length s1 \<le> 64 * length S \<and>
     (\<forall>j < length s1. bv_test S j \<longleftrightarrow> lcs_at s2 s1 i (Suc j) = lcs_at s2 s1 i j)"

definition match_ok :: "'a list \<Rightarrow> 'a \<Rightarrow> nat \<Rightarrow> bitvec option \<Rightarrow> bool" where
  "match_ok s1 line w om \<longleftrightarrow>
     (case om of None \<Rightarrow> line \<notin> set s1
      | Some m \<Rightarrow> length m = w \<and> (\<forall>j < length s1. bv_test m j \<longleftrightarrow> s1 ! j = line))"

lemma and_row:
  assumes "length s1 \<le> 64 * length S" "match_ok s1 line (length S) om" "j < length s1"
  shows "bv_test (andBitvec S om) j \<longleftrightarrow> bv_test S j \<and> s1 ! j = line"
    and "bv_test (subBitvec S (andBitvec S om)) j \<longleftrightarrow> bv_test S j \<and> s1 ! j \<noteq> line"
  using assms
  by (cases om; auto simp: match_ok_def bv_test_and bv_test_zero bv_test_sub_and subBitvec_zero)+

lemma length_and_row: "match_ok s1 line (length S) om \<Longrightarrow> length (andBitvec S om) = length S"
  by (cases om) (auto simp: match_ok_def)

text \<open>The bit update and the carry are the two increments of one cell of the program.\<close>

lemma cell_update:
  fixes x h v d :: nat
  assumes "x \<le> h" "h \<le> Suc x" "x \<le> v" "v \<le> Suc x" "d = (if eq then Suc x else max h v)"
  shows "((((h = x) \<noteq> (h = x \<and> eq)) \<noteq> (v = Suc x)) \<or> (h = x \<and> \<not> eq)) \<longleftrightarrow> d = v"
    and "(if (h = x) = (h = x \<and> eq) then h = x else v = Suc x) \<longleftrightarrow> d = Suc h"
  using assms by (cases eq; auto simp: le_Suc_eq max_def)+

lemma carry_is_vertical:
  assumes row: "row_ok s2 s1 i S" and m: "match_ok s1 (s2 ! i) (length S) om"
    and i: "i < length s2"
  shows "j \<le> length s1 \<Longrightarrow> carry_at (bv_val S) (bv_val (andBitvec S om)) j \<longleftrightarrow>
           lcs_at s2 s1 (Suc i) j = Suc (lcs_at s2 s1 i j)"
proof (induction j)
  case 0
  then show ?case by simp
next
  case (Suc j)
  then have j: "j < length s1" by simp
  have len: "length s1 \<le> 64 * length S" using row by (simp add: row_ok_def)
  have bits: "bit (bv_val S) j \<longleftrightarrow> bv_test S j"
    "bit (bv_val (andBitvec S om)) j \<longleftrightarrow> bv_test S j \<and> s1 ! j = s2 ! i"
    using and_row(1) [OF len m j] len j length_and_row [OF m] by (simp_all add: bit_bv_val)
  have S: "bv_test S j \<longleftrightarrow> lcs_at s2 s1 i (Suc j) = lcs_at s2 s1 i j"
    using row j by (simp add: row_ok_def)
  have IH: "carry_at (bv_val S) (bv_val (andBitvec S om)) j \<longleftrightarrow>
      lcs_at s2 s1 (Suc i) j = Suc (lcs_at s2 s1 i j)" using Suc by simp
  show ?case
    unfolding carry_at_Suc bits IH S
    by (rule cell_update(2)) (use lcs_at_Suc [OF i j] lcs_at_mono_steps [of i s2 j s1] i j in auto)
qed

lemma lcs_update_row:
  assumes row: "row_ok s2 s1 i S" and m: "match_ok s1 (s2 ! i) (length S) om"
    and i: "i < length s2"
  shows "row_ok s2 s1 (Suc i) (lcs_update S om)" and "length (lcs_update S om) = length S"
proof -
  let ?u = "andBitvec S om"
  have len: "length s1 \<le> 64 * length S" using row by (simp add: row_ok_def)
  have u: "length ?u = length S" by (rule length_and_row [OF m])
  show l: "length (lcs_update S om) = length S" by (simp add: lcs_update_def Let_def u)
  have "bv_test (lcs_update S om) j \<longleftrightarrow> lcs_at s2 s1 (Suc i) (Suc j) = lcs_at s2 s1 (Suc i) j"
    if j: "j < length s1" for j
  proof -
    have jw: "j < 64 * length S" using len j by simp
    have S: "bv_test S j \<longleftrightarrow> lcs_at s2 s1 i (Suc j) = lcs_at s2 s1 i j"
      using row j by (simp add: row_ok_def)
    have "bv_test (lcs_update S om) j \<longleftrightarrow>
        ((bv_test S j \<noteq> (bv_test S j \<and> s1 ! j = s2 ! i))
           \<noteq> (lcs_at s2 s1 (Suc i) j = Suc (lcs_at s2 s1 i j)))
        \<or> (bv_test S j \<and> s1 ! j \<noteq> s2 ! i)"
      using and_row [OF len m j] carry_is_vertical [OF row m i, of j] j jw u
      by (simp add: lcs_update_def Let_def bv_test_or bv_test_add)
    also have "\<dots> \<longleftrightarrow> lcs_at s2 s1 (Suc i) (Suc j) = lcs_at s2 s1 (Suc i) j"
      unfolding S
      by (rule cell_update(1)) (use lcs_at_Suc [OF i j] lcs_at_mono_steps [of i s2 j s1] i j in auto)
    finally show ?thesis .
  qed
  then show "row_ok s2 s1 (Suc i) (lcs_update S om)"
    using len by (simp add: row_ok_def l)
qed

section \<open>The matrix\<close>

lemma bv_test_set:
  "n < 64 * length b \<Longrightarrow> k < 64 * length b \<Longrightarrow> bv_test (bv_set b n) k \<longleftrightarrow> k = n \<or> bv_test b k"
proof -
  assume "n < 64 * length b" "k < 64 * length b"
  then have len: "n div 64 < length b" "k div 64 < length b" by (simp_all add: less_mult_imp_div_less mult.commute)
  show ?thesis
  proof (cases "k div 64 = n div 64")
    case True
    then have "k = n \<longleftrightarrow> k mod 64 = n mod 64" by (metis div_mult_mod_eq)
    with True len show ?thesis by (auto simp: bv_test_iff bv_set_def bit_simps)
  next
    case False
    with len show ?thesis by (auto simp: bv_test_iff bv_set_def)
  qed
qed

lemma length_bv_set [simp]: "length (bv_set b n) = length b"
  by (simp add: bv_set_def)

lemma newBitvec_enough: "n \<le> 64 * length (newBitvec n)"
  unfolding newBitvec_def length_replicate by presburger

lemma bv_test_new: "k < 64 * length (newBitvec n) \<Longrightarrow> \<not> bv_test (newBitvec n) k"
  by (simp add: newBitvec_def bv_test_iff less_mult_imp_div_less mult.commute)

definition matches_ok :: "'a list \<Rightarrow> nat \<Rightarrow> nat \<Rightarrow> ('a \<rightharpoonup> bitvec) \<Rightarrow> bool" where
  "matches_ok s1 n j M \<longleftrightarrow> (\<forall>line. case M line of
       None \<Rightarrow> line \<notin> set (take j s1)
     | Some m \<Rightarrow> length m = length (newBitvec n) \<and>
         (\<forall>k < 64 * length (newBitvec n). bv_test m k \<longleftrightarrow> k < j \<and> k < length s1 \<and> s1 ! k = line))"

lemma matches_ok_step:
  assumes M: "matches_ok s1 n j M" and j: "j < length s1" and n: "n = length s1"
  shows "matches_ok s1 n (Suc j)
    (M(s1 ! j \<mapsto> bv_set (case M (s1 ! j) of Some m \<Rightarrow> m | None \<Rightarrow> newBitvec n) j))"
proof -
  have jw: "j < 64 * length (newBitvec n)" using newBitvec_enough [of n] j n by simp
  let ?m = "case M (s1 ! j) of Some m \<Rightarrow> m | None \<Rightarrow> newBitvec n"
  have m: "length ?m = length (newBitvec n)"
    "k < 64 * length (newBitvec n) \<Longrightarrow> bv_test ?m k \<longleftrightarrow> k < j \<and> k < length s1 \<and> s1 ! k = s1 ! j" for k
    using M [unfolded matches_ok_def, THEN spec, of "s1 ! j"] bv_test_new [of k n] j
    by (auto split: option.splits simp: in_set_conv_nth)
  show ?thesis
    unfolding matches_ok_def
  proof
    fix line
    show "case (M(s1 ! j \<mapsto> bv_set ?m j)) line of
       None \<Rightarrow> line \<notin> set (take (Suc j) s1)
     | Some m \<Rightarrow> length m = length (newBitvec n) \<and>
         (\<forall>k < 64 * length (newBitvec n). bv_test m k \<longleftrightarrow> k < Suc j \<and> k < length s1 \<and> s1 ! k = line)"
    proof (cases "line = s1 ! j")
      case True
      then show ?thesis using m jw j by (auto simp: bv_test_set less_Suc_eq)
    next
      case False
      then show ?thesis
        using M [unfolded matches_ok_def, THEN spec, of line] j
        by (auto simp: take_Suc_conv_app_nth less_Suc_eq split: option.splits)
    qed
  qed
qed

lemma match_loop_ok:
  "matches_ok s1 n j M \<Longrightarrow> n = length s1 \<Longrightarrow> j \<le> length s1 \<Longrightarrow>
   matches_ok s1 n n (match_loop n j (drop j s1) M)"
proof (induction "length s1 - j" arbitrary: j M)
  case 0
  then show ?case by simp
next
  case (Suc d)
  then have j: "j < length s1" by simp
  then have "drop j s1 = s1 ! j # drop (Suc j) s1" by (simp add: Cons_nth_drop_Suc)
  then show ?case
    using Suc.hyps(1) [OF _ matches_ok_step [OF Suc.prems(1) j Suc.prems(2)] Suc.prems(2)] Suc.hyps(2) j
    by (simp add: Let_def)
qed

lemma matches_ok_final:
  "matches_ok s1 n n M \<Longrightarrow> n = length s1 \<Longrightarrow> match_ok s1 line (length (newBitvec n)) (M line)"
  using newBitvec_enough [of n]
  by (auto simp: matches_ok_def match_ok_def split: option.splits elim!: allE [of _ line])

lemma ones_loop_ok:
  "j \<le> 64 * length s \<Longrightarrow> length (ones_loop j s) = length s \<and>
     (\<forall>k < 64 * length s. bv_test (ones_loop j s) k \<longleftrightarrow> k < j \<or> bv_test s k)"
  by (induction j) (auto simp: bv_test_set less_Suc_eq)

lemma lcs_rows_ok:
  "row_ok s2 s1 i S \<Longrightarrow> drop i s2 = xs \<Longrightarrow> (\<And>line. match_ok s1 line (length S) (M line)) \<Longrightarrow>
   length (lcs_rows M S xs) = length xs \<and>
   (\<forall>k < length xs. row_ok s2 s1 (Suc (i + k)) (lcs_rows M S xs ! k))"
proof (induction xs arbitrary: i S)
  case Nil
  then show ?case by simp
next
  case (Cons x xs)
  have i: "i < length s2" using Cons.prems(2) by (metis drop_all list.distinct(1) not_le)
  then have x: "s2 ! i = x" and xs: "drop (Suc i) s2 = xs"
    using Cons.prems(2) Cons_nth_drop_Suc [OF i] by simp_all
  let ?S = "lcs_update S (M x)"
  have r: "row_ok s2 s1 (Suc i) ?S" and l: "length ?S = length S"
    using lcs_update_row [OF Cons.prems(1) _ i, of "M x"] Cons.prems(3) x by auto
  have "length (lcs_rows M ?S xs) = length xs \<and>
     (\<forall>k < length xs. row_ok s2 s1 (Suc (Suc i + k)) (lcs_rows M ?S xs ! k))"
    using Cons.prems(3) l by (intro Cons.IH [OF r xs]) simp
  with r show ?case by (auto simp: Let_def less_Suc_eq_0_disj)
qed

text \<open>The zero bits of a row count the length of the common subsequence.\<close>

lemma lcs_at_telescope:
  "i \<le> length s2 \<Longrightarrow> n \<le> length s1 \<Longrightarrow>
   lcs_at s2 s1 i n + card {j. j < n \<and> lcs_at s2 s1 i (Suc j) = lcs_at s2 s1 i j} = n"
proof (induction n)
  case 0
  then show ?case by simp
next
  case (Suc n)
  let ?P = "\<lambda>j. lcs_at s2 s1 i (Suc j) = lcs_at s2 s1 i j"
  have "{j. j < Suc n \<and> ?P j} = {j. j < n \<and> ?P j} \<union> (if ?P n then {n} else {})"
    by (auto simp: less_Suc_eq)
  then have "card {j. j < Suc n \<and> ?P j} = card {j. j < n \<and> ?P j} + (if ?P n then 1 else 0)"
    by (simp add: card_Un_disjoint)
  then show ?case
    using Suc lcs_at_mono_steps [of i s2 n s1] by (auto split: if_splits)
qed

lemma row_ok_sim:
  assumes "row_ok s2 s1 i S" "i \<le> length s2"
  shows "length s1 - popcountBelow S (length s1) = lcs_at s2 s1 i (length s1)"
proof -
  have "popcountBelow S (length s1) = card (below S (length s1))"
    using assms(1) by (intro popcountBelow_card) (simp add: row_ok_def)
  also have "below S (length s1)
      = {j. j < length s1 \<and> lcs_at s2 s1 i (Suc j) = lcs_at s2 s1 i j}"
    using assms(1) by (auto simp: below_def row_ok_def)
  finally show ?thesis
    using lcs_at_telescope [OF assms(2), of "length s1" s1] by simp
qed

lemma lcsMatrix_ok:
  assumes "lcsMatrix s1 s2 = (sim, matrix)"
  shows "sim = lcs s1 s2"
    and "s1 \<noteq> [] \<Longrightarrow> k < length s2 \<Longrightarrow> row_ok s2 s1 (Suc k) (matrix ! k)"
proof -
  show "sim = lcs s1 s2" and "s1 \<noteq> [] \<Longrightarrow> k < length s2 \<Longrightarrow> row_ok s2 s1 (Suc k) (matrix ! k)"
  proof (atomize (full), cases "s1 = []")
    case True
    with assms show "sim = lcs s1 s2 \<and> (s1 \<noteq> [] \<longrightarrow> k < length s2 \<longrightarrow> row_ok s2 s1 (Suc k) (matrix ! k))"
      by (simp add: lcsMatrix_def)
  next
    case False
    let ?n = "length s1"
    let ?M = "match_loop ?n 0 s1 Map.empty" and ?S = "ones_loop ?n (newBitvec ?n)"
    have "matches_ok s1 ?n ?n ?M"
      using match_loop_ok [of s1 ?n 0 Map.empty] by (simp add: matches_ok_def)
    then have M: "match_ok s1 line (length (newBitvec ?n)) (?M line)" for line
      by (rule matches_ok_final) simp
    have S: "length ?S = length (newBitvec ?n)"
      "\<And>k. k < 64 * length (newBitvec ?n) \<Longrightarrow> bv_test ?S k \<longleftrightarrow> k < ?n"
      using ones_loop_ok [OF newBitvec_enough, of ?n] bv_test_new by auto
    have r0: "row_ok s2 s1 0 ?S"
      using S newBitvec_enough [of ?n] by (auto simp: row_ok_def)
    have rows: "length (lcs_rows ?M ?S s2) = length s2 \<and>
       (\<forall>k < length s2. row_ok s2 s1 (Suc k) (lcs_rows ?M ?S s2 ! k))"
      using lcs_rows_ok [OF r0, of s2 ?M] M S(1) by simp
    have m: "matrix = lcs_rows ?M ?S s2"
      and sim: "sim = ?n - popcountBelow (if matrix = [] then ?S else last matrix) ?n"
      using assms False by (auto simp: lcsMatrix_def Let_def)
    have "row_ok s2 s1 (length s2) (if matrix = [] then ?S else last matrix)"
      using rows r0 m by (cases "length s2") (auto simp: last_conv_nth)
    then have "sim = lcs s1 s2"
      using row_ok_sim [of s2 s1 "length s2"] sim by (simp add: lcs_at_full)
    with rows m show "sim = lcs s1 s2 \<and> (s1 \<noteq> [] \<longrightarrow> k < length s2 \<longrightarrow> row_ok s2 s1 (Suc k) (matrix ! k))"
      by simp
  qed
qed

section \<open>The recovery walk yields an optimal alignment\<close>

text \<open>
  \<open>aligns i j xs ys ops\<close>: from source position \<open>i\<close> and destination position \<open>j\<close>, the
  operations turn \<open>xs\<close> into \<open>ys\<close>, keeping a line wherever they leave one out.
\<close>

inductive aligns :: "nat \<Rightarrow> nat \<Rightarrow> 'a list \<Rightarrow> 'a list \<Rightarrow> editop list \<Rightarrow> bool" where
  aligns_nil: "aligns i j [] [] []"
| aligns_match: "aligns (Suc i) (Suc j) xs ys ops \<Longrightarrow> aligns i j (x # xs) (x # ys) ops"
| aligns_delete: "aligns (Suc i) j xs ys ops \<Longrightarrow>
    aligns i j (x # xs) ys (\<lparr>ed_tag = TagDelete, ed_src = i, ed_dest = j\<rparr> # ops)"
| aligns_insert: "aligns i (Suc j) xs ys ops \<Longrightarrow>
    aligns i j xs (y # ys) (\<lparr>ed_tag = TagInsert, ed_src = i, ed_dest = j\<rparr> # ops)"

inductive_cases aligns_NilE: "aligns i j xs ys []"
inductive_cases aligns_ConsE: "aligns i j xs ys (e # ops)"

text \<open>The state of the walk at \<open>(col, row)\<close>: what it has written from \<open>dist\<close> on is an alignment of the rest.\<close>

definition walked :: "'a list \<Rightarrow> 'a list \<Rightarrow> nat \<Rightarrow> nat \<Rightarrow> nat \<Rightarrow> nat \<times> editop list \<Rightarrow> bool" where
  "walked s1 s2 p col row st \<longleftrightarrow> col \<le> length s1 \<and> row \<le> length s2 \<and> fst st \<le> length (snd st)
     \<and> aligns (col + p) (row + p) (drop col s1) (drop row s2) (drop (fst st) (snd st))"

lemma put_ok:
  assumes "0 < dist" "dist \<le> length ops"
  shows "put e (dist, ops) = Some (dist - 1, ops[dist - 1 := e])"
    and "drop (dist - 1) (ops[dist - 1 := e]) = e # drop dist ops"
proof -
  obtain d where d: "dist = Suc d" "d < length ops" using assms by (cases dist) auto
  then have "drop d (ops[d := e]) = e # drop (Suc d) (ops[d := e])"
    using Cons_nth_drop_Suc [of d "ops[d := e]"] by simp
  then show "drop (dist - 1) (ops[dist - 1 := e]) = e # drop dist ops"
    using d by simp
qed (use assms in \<open>simp add: put_def\<close>)

lemma walked_delete:
  assumes "walked s1 s2 p (Suc col) row (dist, ops)" "0 < dist"
  shows "walked s1 s2 p col row
    (dist - 1, ops[dist - 1 := \<lparr>ed_tag = TagDelete, ed_src = col + p, ed_dest = row + p\<rparr>])"
proof -
  have "drop col s1 = s1 ! col # drop (Suc col) s1"
    using assms(1) by (simp add: walked_def Cons_nth_drop_Suc)
  then show ?thesis
    using assms put_ok(2) [of dist ops] by (auto simp: walked_def intro: aligns_delete)
qed

lemma walked_insert:
  assumes "walked s1 s2 p col (Suc row) (dist, ops)" "0 < dist"
  shows "walked s1 s2 p col row
    (dist - 1, ops[dist - 1 := \<lparr>ed_tag = TagInsert, ed_src = col + p, ed_dest = row + p\<rparr>])"
proof -
  have "drop row s2 = s2 ! row # drop (Suc row) s2"
    using assms(1) by (simp add: walked_def Cons_nth_drop_Suc)
  then show ?thesis
    using assms put_ok(2) [of dist ops] by (auto simp: walked_def intro: aligns_insert)
qed

lemma walked_match:
  assumes "walked s1 s2 p (Suc col) (Suc row) st" "s1 ! col = s2 ! row"
  shows "walked s1 s2 p col row st"
proof -
  have "drop col s1 = s1 ! col # drop (Suc col) s1" "drop row s2 = s2 ! row # drop (Suc row) s2"
    using assms(1) by (simp_all add: walked_def Cons_nth_drop_Suc)
  then show ?thesis using assms by (auto simp: walked_def intro: aligns_match)
qed

lemma drain_delete_ok:
  "walked s1 s2 p col row (dist, ops) \<Longrightarrow> col \<le> dist \<Longrightarrow>
   \<exists>ops'. drain_delete p col row (dist, ops) = Some (dist - col, ops')
     \<and> length ops' = length ops \<and> walked s1 s2 p 0 row (dist - col, ops')"
proof (induction col arbitrary: dist ops)
  case 0
  then show ?case by simp
next
  case (Suc col)
  then have d: "0 < dist" "dist \<le> length ops" by (auto simp: walked_def)
  then show ?case
    using Suc.IH [OF walked_delete [OF Suc.prems(1) d(1)]] Suc.prems(2)
    by (auto simp: put_ok(1) [OF d])
qed

lemma drain_insert_ok:
  "walked s1 s2 p col row (dist, ops) \<Longrightarrow> row \<le> dist \<Longrightarrow>
   \<exists>ops'. drain_insert p col row (dist, ops) = Some (dist - row, ops')
     \<and> length ops' = length ops \<and> walked s1 s2 p col 0 (dist - row, ops')"
proof (induction row arbitrary: dist ops)
  case 0
  then show ?case by simp
next
  case (Suc row)
  then have d: "0 < dist" "dist \<le> length ops" by (auto simp: walked_def)
  then show ?case
    using Suc.IH [OF walked_insert [OF Suc.prems(1) d(1)]] Suc.prems(2)
    by (auto simp: put_ok(1) [OF d])
qed

text \<open>
  The two tests of the walk and what they mean for the dynamic program: a set bit is a
  line of \<open>s1\<close> that can be dropped, two clear bits in a column a line of \<open>s2\<close> that can be
  dropped, and otherwise the two lines are equal.
\<close>

lemma walk_cases:
  assumes "col < length s1" "row < length s2"
    and "row_ok s2 s1 (Suc row) R" and "row \<noteq> 0 \<Longrightarrow> row_ok s2 s1 row R'"
  shows "bv_test R col \<Longrightarrow> lcs_at s2 s1 (Suc row) (Suc col) = lcs_at s2 s1 (Suc row) col"
    and "\<not> bv_test R col \<Longrightarrow> row \<noteq> 0 \<and> \<not> bv_test R' col \<Longrightarrow>
      lcs_at s2 s1 (Suc row) (Suc col) = lcs_at s2 s1 row (Suc col)"
    and "\<not> bv_test R col \<Longrightarrow> \<not> (row \<noteq> 0 \<and> \<not> bv_test R' col) \<Longrightarrow>
      s1 ! col = s2 ! row \<and> lcs_at s2 s1 (Suc row) (Suc col) = Suc (lcs_at s2 s1 row col)"
proof -
  let ?L = "lcs_at s2 s1"
  have R: "bv_test R col \<longleftrightarrow> ?L (Suc row) (Suc col) = ?L (Suc row) col"
    using assms by (simp add: row_ok_def)
  have R': "\<not> (row \<noteq> 0 \<and> \<not> bv_test R' col) \<longleftrightarrow> ?L row (Suc col) = ?L row col"
    using assms by (cases "row = 0") (auto simp: row_ok_def)
  note steps = lcs_at_Suc [OF assms(2,1)] lcs_at_mono_steps [of row s2 col s1]
    lcs_at_mono_steps [of row s2 "Suc col" s1] lcs_at_mono_steps [of "Suc row" s2 col s1]
  show "bv_test R col \<Longrightarrow> ?L (Suc row) (Suc col) = ?L (Suc row) col" using R by simp
  show "\<not> bv_test R col \<Longrightarrow> row \<noteq> 0 \<and> \<not> bv_test R' col \<Longrightarrow>
      ?L (Suc row) (Suc col) = ?L row (Suc col)"
    unfolding R R' [symmetric] using R' steps assms(1,2) by (auto split: if_splits simp: max_def)
  show "\<not> bv_test R col \<Longrightarrow> \<not> (row \<noteq> 0 \<and> \<not> bv_test R' col) \<Longrightarrow>
      s1 ! col = s2 ! row \<and> ?L (Suc row) (Suc col) = Suc (?L row col)"
    unfolding R R' using steps assms(1,2) by (auto split: if_splits simp: max_def)
qed

lemma lcs_at_le: "i \<le> length s2 \<Longrightarrow> j \<le> length s1 \<Longrightarrow> lcs_at s2 s1 i j \<le> i \<and> lcs_at s2 s1 i j \<le> j"
  using lcs_le [of "rev (take i s2)" "rev (take j s1)"] by (simp add: lcs_at_def)

lemma recover_border:
  "col = 0 \<or> row = 0 \<Longrightarrow>
   recover matrix p col row st = Option.bind (drain_delete p col row st) (drain_insert p 0 row)"
  by (cases col; cases row) simp_all

lemma recover_ok:
  assumes "\<And>k. s1 \<noteq> [] \<Longrightarrow> k < length s2 \<Longrightarrow> row_ok s2 s1 (Suc k) (matrix ! k)"
  shows "walked s1 s2 p col row (dist, ops) \<Longrightarrow> dist + 2 * lcs_at s2 s1 row col = col + row \<Longrightarrow>
   \<exists>ops'. recover matrix p col row (dist, ops) = Some (0, ops') \<and> length ops' = length ops
     \<and> walked s1 s2 p 0 0 (0, ops')"
proof (induction "col + row" arbitrary: col row dist ops rule: less_induct)
  case less
  show ?case
  proof (cases "col = 0 \<or> row = 0")
    case True
    then have "dist = col + row" using less.prems(2) by auto
    moreover from this obtain ops1 where
      1: "drain_delete p col row (dist, ops) = Some (dist - col, ops1)" "length ops1 = length ops"
        "walked s1 s2 p 0 row (dist - col, ops1)"
      using drain_delete_ok [OF less.prems(1)] by auto
    ultimately obtain ops2 where
      "drain_insert p 0 row (dist - col, ops1) = Some (0, ops2)" "length ops2 = length ops1"
        "walked s1 s2 p 0 0 (0, ops2)"
      using drain_insert_ok [OF 1(3)] by auto
    with 1 show ?thesis by (simp add: recover_border [OF True])
  next
    case False
    then obtain c r where cr: "col = Suc c" "row = Suc r" by (metis not0_implies_Suc)
    have len: "c < length s1" "r < length s2" using less.prems(1) cr by (auto simp: walked_def)
    then have ne: "s1 \<noteq> []" by auto
    note w = walk_cases [OF len assms [OF ne len(2)], of "matrix ! (r - 1)"]
    have r': "r \<noteq> 0 \<Longrightarrow> row_ok s2 s1 r (matrix ! (r - 1))"
      using assms [OF ne, of "r - 1"] len(2) by simp
    have d: "dist \<le> length ops" using less.prems(1) by (simp add: walked_def)
    have le: "lcs_at s2 s1 (Suc r) c \<le> c" "lcs_at s2 s1 r (Suc c) \<le> r"
      "lcs_at s2 s1 (Suc r) c \<le> Suc r" "lcs_at s2 s1 r (Suc c) \<le> Suc c"
      using lcs_at_le [of "Suc r" s2 c s1] lcs_at_le [of r s2 "Suc c" s1] len by auto
    consider (del) "bv_test (matrix ! r) c"
      | (ins) "\<not> bv_test (matrix ! r) c" "r \<noteq> 0 \<and> \<not> bv_test (matrix ! (r - 1)) c"
      | (keep) "\<not> bv_test (matrix ! r) c" "\<not> (r \<noteq> 0 \<and> \<not> bv_test (matrix ! (r - 1)) c)"
      by blast
    then show ?thesis
    proof cases
      case del
      have pos: "0 < dist" using w(1) [OF r' del] less.prems(2) le cr by simp
      have "dist - 1 + 2 * lcs_at s2 s1 row c = c + row"
        using w(1) [OF r' del] less.prems(2) cr pos by simp
      from less.hyps [OF _ walked_delete [OF less.prems(1) [unfolded cr(1)] pos] this] show ?thesis
        using pos del cr by (simp add: put_ok(1) [OF pos d])
    next
      case ins
      have pos: "0 < dist" using w(2) [OF r' ins] less.prems(2) le cr by simp
      have "dist - 1 + 2 * lcs_at s2 s1 r col = col + r"
        using w(2) [OF r' ins] less.prems(2) cr pos by simp
      from less.hyps [OF _ walked_insert [OF less.prems(1) [unfolded cr(2)] pos] this] show ?thesis
        using pos ins cr by (simp add: put_ok(1) [OF pos d])
    next
      case keep
      have "dist + 2 * lcs_at s2 s1 r c = c + r"
        using w(3) [OF r' keep] less.prems(2) cr by simp
      from less.hyps [OF _ walked_match [OF less.prems(1) [unfolded cr]] this] show ?thesis
        using w(3) [OF r' keep] keep cr by auto
    qed
  qed
qed

section \<open>Grouping keeps the alignment\<close>

definition slice :: "'a list \<Rightarrow> nat \<Rightarrow> nat \<Rightarrow> 'a list" where
  "slice xs i j = drop i (take j xs)"

text \<open>
  What a list of blocks promises: it runs from \<open>(s, d)\<close> without gap or overlap, equal
  blocks name equal lines, insertions and deletions are not empty and touch one side only.
\<close>

definition opcode_ok :: "'a list \<Rightarrow> 'a list \<Rightarrow> Opcode \<Rightarrow> bool" where
  "opcode_ok before after b \<longleftrightarrow>
     op_SrcStart b \<le> op_SrcEnd b \<and> op_DestStart b \<le> op_DestEnd b
   \<and> op_SrcEnd b \<le> length before \<and> op_DestEnd b \<le> length after
   \<and> (case op_Tag b of
        TagEqual \<Rightarrow> slice before (op_SrcStart b) (op_SrcEnd b) = slice after (op_DestStart b) (op_DestEnd b)
      | TagInsert \<Rightarrow> op_SrcEnd b = op_SrcStart b \<and> op_DestStart b < op_DestEnd b
      | TagDelete \<Rightarrow> op_DestEnd b = op_DestStart b \<and> op_SrcStart b < op_SrcEnd b
      | TagReplace \<Rightarrow> False)"

fun opcode_chain :: "'a list \<Rightarrow> 'a list \<Rightarrow> nat \<Rightarrow> nat \<Rightarrow> Opcode list \<Rightarrow> nat \<Rightarrow> nat \<Rightarrow> bool" where
  "opcode_chain before after s d [] s' d' \<longleftrightarrow> s = s' \<and> d = d'"
| "opcode_chain before after s d (b # bs) s' d' \<longleftrightarrow>
     op_SrcStart b = s \<and> op_DestStart b = d \<and> opcode_ok before after b
   \<and> opcode_chain before after (op_SrcEnd b) (op_DestEnd b) bs s' d'"

definition deleted_lines :: "Opcode list \<Rightarrow> nat" where
  "deleted_lines bs = (\<Sum>b \<leftarrow> bs. if op_Tag b = TagReplace \<or> op_Tag b = TagDelete
                                  then op_SrcEnd b - op_SrcStart b else 0)"

definition added_lines :: "Opcode list \<Rightarrow> nat" where
  "added_lines bs = (\<Sum>b \<leftarrow> bs. if op_Tag b = TagReplace \<or> op_Tag b = TagInsert
                                then op_DestEnd b - op_DestStart b else 0)"

lemma count_lines_simps [simp]:
  "deleted_lines [] = 0" "added_lines [] = 0"
  "deleted_lines (b # bs) = (if op_Tag b = TagReplace \<or> op_Tag b = TagDelete
      then op_SrcEnd b - op_SrcStart b else 0) + deleted_lines bs"
  "added_lines (b # bs) = (if op_Tag b = TagReplace \<or> op_Tag b = TagInsert
      then op_DestEnd b - op_DestStart b else 0) + added_lines bs"
  "deleted_lines (bs @ cs) = deleted_lines bs + deleted_lines cs"
  "added_lines (bs @ cs) = added_lines bs + added_lines cs"
  by (simp_all add: deleted_lines_def added_lines_def)

lemma opcode_chain_append:
  "opcode_chain before after s d (bs @ cs) s'' d'' \<longleftrightarrow>
     (\<exists>s' d'. opcode_chain before after s d bs s' d' \<and> opcode_chain before after s' d' cs s'' d'')"
  by (induction bs arbitrary: s d) auto

lemma aligns_first:
  "aligns i j xs ys (e # ops) \<Longrightarrow>
   \<exists>k. ed_src e = i + k \<and> ed_dest e = j + k \<and> k \<le> length xs \<and> k \<le> length ys
     \<and> take k xs = take k ys \<and> aligns (i + k) (j + k) (drop k xs) (drop k ys) (e # ops)"
proof (induction i j xs ys "e # ops" arbitrary: rule: aligns.induct)
  case (aligns_match i j xs ys x)
  then obtain k where "ed_src e = Suc i + k" "ed_dest e = Suc j + k" "k \<le> length xs"
    "k \<le> length ys" "take k xs = take k ys"
    "aligns (Suc i + k) (Suc j + k) (drop k xs) (drop k ys) (e # ops)" by auto
  then show ?case by (intro exI [of _ "Suc k"]) simp
next
  case (aligns_delete i j xs ys x)
  then show ?case by (intro exI [of _ 0]) (auto intro: aligns.aligns_delete)
next
  case (aligns_insert i j xs ys y)
  then show ?case by (intro exI [of _ 0]) (auto intro: aligns.aligns_insert)
qed

lemma aligns_here:
  assumes "aligns i j xs ys (e # ops)" "ed_src e = i"
  shows "ed_dest e = j \<and>
    ((ed_tag e = TagDelete \<and> xs \<noteq> [] \<and> aligns (Suc i) j (tl xs) ys ops)
   \<or> (ed_tag e = TagInsert \<and> ys \<noteq> [] \<and> aligns i (Suc j) xs (tl ys) ops))"
  using assms(1)
proof (rule aligns_ConsE)
  fix xs' ys' x
  assume "aligns (Suc i) (Suc j) xs' ys' (e # ops)"
  then show ?thesis using aligns_first assms(2) by fastforce
qed auto

lemma aligns_end: "aligns i j xs ys [] \<Longrightarrow> xs = ys"
  by (induction i j xs ys "[] :: editop list" rule: aligns.induct) auto

lemma opcode_run_delete:
  "aligns i j (drop i before) ys ops \<Longrightarrow> i \<le> length before \<Longrightarrow>
   opcode_run TagDelete i j ops = (s', d', rest) \<Longrightarrow>
   d' = j \<and> i \<le> s' \<and> s' \<le> length before \<and> aligns s' j (drop s' before) ys rest
   \<and> length ops = (s' - i) + length rest"
proof (induction ops arbitrary: i)
  case Nil
  then show ?case by auto
next
  case (Cons e ops)
  show ?case
  proof (cases "ed_tag e = TagDelete \<and> i = ed_src e \<and> j = ed_dest e")
    case True
    with aligns_here [OF Cons.prems(1)] have "drop i before \<noteq> []"
      "aligns (Suc i) j (drop (Suc i) before) ys ops"
      by (auto simp: drop_Suc tl_drop)
    then show ?thesis
      using Cons.IH [of "Suc i"] Cons.prems(3) True by auto
  next
    case False
    then show ?thesis using Cons.prems by auto
  qed
qed

lemma opcode_run_insert:
  "aligns i j xs (drop j after) ops \<Longrightarrow> j \<le> length after \<Longrightarrow>
   opcode_run TagInsert i j ops = (s', d', rest) \<Longrightarrow>
   s' = i \<and> j \<le> d' \<and> d' \<le> length after \<and> aligns i d' xs (drop d' after) rest
   \<and> length ops = (d' - j) + length rest"
proof (induction ops arbitrary: j)
  case Nil
  then show ?case by auto
next
  case (Cons e ops)
  show ?case
  proof (cases "ed_tag e = TagInsert \<and> i = ed_src e \<and> j = ed_dest e")
    case True
    with aligns_here [OF Cons.prems(1)] have "drop j after \<noteq> []"
      "aligns i (Suc j) xs (drop (Suc j) after) ops"
      by (auto simp: drop_Suc tl_drop)
    then show ?thesis
      using Cons.IH [of "Suc j"] Cons.prems(3) True by auto
  next
    case False
    then show ?thesis using Cons.prems by auto
  qed
qed

lemma slice_eq_take: "slice xs s (s + k) = take k (drop s xs)"
  by (simp add: slice_def take_drop add.commute)

lemma equal_block_chain:
  assumes "take k (drop s before) = take k (drop d after)" "s + k \<le> length before" "d + k \<le> length after"
  shows "opcode_chain before after s d
    (if 0 < k then [\<lparr>op_Tag = TagEqual, op_SrcStart = s, op_SrcEnd = s + k,
                     op_DestStart = d, op_DestEnd = d + k\<rparr>] else []) (s + k) (d + k)"
  using assms by (simp add: opcode_ok_def slice_eq_take)

lemma opcode_pass_ok:
  assumes al: "aligns s d (drop s before) (drop d after) (e # es)"
    and le: "s \<le> length before" "d \<le> length after"
    and pass: "opcode_pass s d e es = (bs, s', d', rest)"
  shows "opcode_chain before after s d bs s' d' \<and> s' \<le> length before \<and> d' \<le> length after
    \<and> aligns s' d' (drop s' before) (drop d' after) rest
    \<and> length rest < Suc (length es)
    \<and> deleted_lines bs + added_lines bs + length rest = Suc (length es)"
proof -
  obtain k where k: "ed_src e = s + k" "ed_dest e = d + k" "s + k \<le> length before" "d + k \<le> length after"
    "take k (drop s before) = take k (drop d after)"
    "aligns (s + k) (d + k) (drop (s + k) before) (drop (d + k) after) (e # es)"
    using aligns_first [OF al] le by (auto simp: add.commute)
  define E where "E = (if 0 < k then [\<lparr>op_Tag = TagEqual, op_SrcStart = s, op_SrcEnd = s + k,
      op_DestStart = d, op_DestEnd = d + k\<rparr>] else [] :: Opcode list)"
  have E: "opcode_chain before after s d E (s + k) (d + k)" "deleted_lines E = 0" "added_lines E = 0"
    using equal_block_chain [OF k(5,3,4)] by (simp_all add: E_def)
  have pass': "case opcode_run (ed_tag e) (s + k) (d + k) (e # es) of (a, b, r) \<Rightarrow>
      bs = E @ [\<lparr>op_Tag = ed_tag e, op_SrcStart = s + k, op_SrcEnd = a,
                 op_DestStart = d + k, op_DestEnd = b\<rparr>] \<and> s' = a \<and> d' = b \<and> rest = r"
    using pass k(1,2) unfolding opcode_pass_def Let_def E_def
    by (cases "k = 0") (simp_all del: opcode_run.simps split: prod.splits)
  from aligns_here [OF k(6) k(1)] consider
      (del) "ed_tag e = TagDelete" "drop (s + k) before \<noteq> []"
        "aligns (Suc (s + k)) (d + k) (drop (Suc (s + k)) before) (drop (d + k) after) es"
    | (ins) "ed_tag e = TagInsert" "drop (d + k) after \<noteq> []"
        "aligns (s + k) (Suc (d + k)) (drop (s + k) before) (drop (Suc (d + k)) after) es"
    by (auto simp: drop_Suc tl_drop)
  then show ?thesis
  proof cases
    case del
    obtain a b r where run: "opcode_run TagDelete (Suc (s + k)) (d + k) es = (a, b, r)"
      by (cases "opcode_run TagDelete (Suc (s + k)) (d + k) es") auto
    have a: "b = d + k" "Suc (s + k) \<le> a" "a \<le> length before"
      "aligns a (d + k) (drop a before) (drop (d + k) after) r" "length es = (a - Suc (s + k)) + length r"
      using opcode_run_delete [OF del(3) _ run] del(2) by auto
    have r: "bs = E @ [\<lparr>op_Tag = TagDelete, op_SrcStart = s + k, op_SrcEnd = a,
        op_DestStart = d + k, op_DestEnd = d + k\<rparr>]" "s' = a" "d' = d + k" "rest = r"
      using pass' run del(1) k(1,2) a(1) by auto
    show ?thesis
      using E a k(4) unfolding r by (auto simp: opcode_chain_append opcode_ok_def)
  next
    case ins
    obtain a b r where run: "opcode_run TagInsert (s + k) (Suc (d + k)) es = (a, b, r)"
      by (cases "opcode_run TagInsert (s + k) (Suc (d + k)) es") auto
    have a: "a = s + k" "Suc (d + k) \<le> b" "b \<le> length after"
      "aligns (s + k) b (drop (s + k) before) (drop b after) r" "length es = (b - Suc (d + k)) + length r"
      using opcode_run_insert [OF ins(3) _ run] ins(2) by auto
    have r: "bs = E @ [\<lparr>op_Tag = TagInsert, op_SrcStart = s + k, op_SrcEnd = s + k,
        op_DestStart = d + k, op_DestEnd = b\<rparr>]" "s' = s + k" "d' = b" "rest = r"
      using pass' run ins(1) k(1,2) a(1) by auto
    show ?thesis
      using E a k(3) unfolding r by (auto simp: opcode_chain_append opcode_ok_def)
  qed
qed

lemma opcode_blocks_ok:
  "aligns s d (drop s before) (drop d after) ops \<Longrightarrow> s \<le> length before \<Longrightarrow> d \<le> length after \<Longrightarrow>
   \<exists>bs s' d'. opcode_blocks s d ops = Some (bs, s', d') \<and> opcode_chain before after s d bs s' d'
     \<and> s' \<le> length before \<and> d' \<le> length after \<and> drop s' before = drop d' after
     \<and> deleted_lines bs + added_lines bs = length ops"
proof (induction "length ops" arbitrary: ops s d rule: less_induct)
  case less
  show ?case
  proof (cases ops)
    case Nil
    then show ?thesis using less.prems aligns_end by auto
  next
    case (Cons e es)
    obtain bs s1 d1 rest where p: "opcode_pass s d e es = (bs, s1, d1, rest)"
      by (cases "opcode_pass s d e es") auto
    note ok = opcode_pass_ok [OF less.prems [unfolded Cons] p]
    obtain cs s' d' where "opcode_blocks s1 d1 rest = Some (cs, s', d')"
      "opcode_chain before after s1 d1 cs s' d'" "s' \<le> length before" "d' \<le> length after"
      "drop s' before = drop d' after" "deleted_lines cs + added_lines cs = length rest"
      using less.hyps [of rest s1 d1] ok Cons by auto
    with ok p Cons show ?thesis by (auto simp: opcode_chain_append)
  qed
qed

lemma opsToOpcodes_ok:
  assumes "aligns 0 0 before after ops"
  shows "\<exists>bs. opsToOpcodes ops (length before) (length after) = Some bs
    \<and> opcode_chain before after 0 0 bs (length before) (length after)
    \<and> deleted_lines bs + added_lines bs = length ops"
proof -
  obtain bs s d where b: "opcode_blocks 0 0 ops = Some (bs, s, d)" "opcode_chain before after 0 0 bs s d"
    "s \<le> length before" "d \<le> length after" "drop s before = drop d after"
    "deleted_lines bs + added_lines bs = length ops"
    using opcode_blocks_ok [of 0 0 before after ops] assms by auto
  have "length before - s = length after - d" using arg_cong [OF b(5), of length] by simp
  then show ?thesis
    using b by (auto simp: opsToOpcodes_def opcode_chain_append opcode_ok_def slice_def)
qed

section \<open>Correctness of IndelOpcodes\<close>

lemma common_prefix_ok:
  "take (common_prefix xs ys) xs = take (common_prefix xs ys) ys
   \<and> common_prefix xs ys \<le> length xs \<and> common_prefix xs ys \<le> length ys"
  by (induction xs ys rule: common_prefix.induct) auto

lemma commonAffix_split:
  assumes "commonAffix before after = (p, q)"
  shows "\<exists>P S. length P = p \<and> length S = q
    \<and> before = P @ drop p (take (length before - q) before) @ S
    \<and> after = P @ drop p (take (length after - q) after) @ S"
proof -
  have p: "p = common_prefix before after"
    and q: "q = common_prefix (rev (drop p before)) (rev (drop p after))"
    using assms by (auto simp: commonAffix_def Let_def)
  note P = common_prefix_ok [of before after, folded p]
  note Q = common_prefix_ok [of "rev (drop p before)" "rev (drop p after)", folded q]
  have S: "drop (length before - q) before = drop (length after - q) after"
    using Q P by (auto simp: take_rev drop_drop)
  have split: "zs = take p zs @ drop p (take (length zs - q) zs) @ drop (length zs - q) zs"
    if "p + q \<le> length zs" for zs :: "'a list"
    using that append_take_drop_id [of p "take (length zs - q) zs"] by (simp add: min_absorb2 flip: append_assoc)
  show ?thesis
    using split [of before] split [of after] P Q S
    by (intro exI [of _ "take p before"] exI [of _ "drop (length before - q) before"]) auto
qed

lemma aligns_prefix:
  "aligns (i + length P) (j + length P) xs ys ops \<Longrightarrow> aligns i j (P @ xs) (P @ ys) ops"
  by (induction P arbitrary: i j) (auto intro: aligns_match)

lemma aligns_refl: "aligns i j zs zs []"
  by (induction zs arbitrary: i j) (auto intro: aligns.intros)

lemma aligns_suffix: "aligns i j xs ys ops \<Longrightarrow> aligns i j (xs @ zs) (ys @ zs) ops"
  by (induction rule: aligns.induct) (auto intro: aligns.intros aligns_refl)

lemma IndelOpcodes_chain:
  "\<exists>bs. IndelOpcodes before after = Some bs
    \<and> opcode_chain before after 0 0 bs (length before) (length after)
    \<and> deleted_lines bs + added_lines bs + 2 * lcs before after = length before + length after"
proof -
  obtain p q where pq: "commonAffix before after = (p, q)" by (cases "commonAffix before after")
  define s1 where "s1 = drop p (take (length before - q) before)"
  define s2 where "s2 = drop p (take (length after - q) after)"
  obtain P S where PS: "length P = p" "length S = q" "before = P @ s1 @ S" "after = P @ s2 @ S"
    using commonAffix_split [OF pq] unfolding s1_def s2_def by blast
  obtain sim matrix where m: "lcsMatrix s1 s2 = (sim, matrix)" by (cases "lcsMatrix s1 s2")
  note M = lcsMatrix_ok [OF m]
  let ?dist = "length s1 + length s2 - 2 * sim"
  have lcs2: "2 * sim \<le> length s1 + length s2"
    using M(1) lcs_le [of s1 s2] by simp
  have "walked s1 s2 p (length s1) (length s2) (?dist, replicate ?dist zero_editop)"
    by (simp add: walked_def aligns_nil)
  moreover have "?dist + 2 * lcs_at s2 s1 (length s2) (length s1) = length s1 + length s2"
    using M(1) lcs2 by (simp add: lcs_at_full)
  ultimately obtain ops where ops: "recover matrix p (length s1) (length s2)
      (?dist, replicate ?dist zero_editop) = Some (0, ops)" "length ops = ?dist"
      "walked s1 s2 p 0 0 (0, ops)"
    using recover_ok [of s1 s2 matrix p "length s1" "length s2"] M(2) by force
  then have "aligns p p s1 s2 ops" by (simp add: walked_def)
  then have al: "aligns 0 0 before after ops"
    using PS aligns_prefix [of 0 P 0 "s1 @ S" "s2 @ S" ops] aligns_suffix [of p p s1 s2 ops S] by simp
  have "IndelOpcodes before after = opsToOpcodes ops (length before) (length after)"
    using pq m ops(1) PS by (simp add: IndelOpcodes_def add.commute add.left_commute flip: s1_def s2_def)
  moreover have "length ops + 2 * lcs before after = length before + length after"
    using ops(2) M(1) lcs2 PS by (simp add: lcs_prefix lcs_suffix)
  ultimately show ?thesis using opsToOpcodes_ok [OF al] by auto
qed

text \<open>Applying a list of blocks: kept lines come from \<open>before\<close>, inserted ones from \<open>after\<close>.\<close>

definition apply_opcodes :: "'a list \<Rightarrow> 'a list \<Rightarrow> Opcode list \<Rightarrow> 'a list" where
  "apply_opcodes before after bs = concat (map (\<lambda>b. case op_Tag b of
       TagEqual \<Rightarrow> slice before (op_SrcStart b) (op_SrcEnd b)
     | TagInsert \<Rightarrow> slice after (op_DestStart b) (op_DestEnd b)
     | TagReplace \<Rightarrow> slice after (op_DestStart b) (op_DestEnd b)
     | TagDelete \<Rightarrow> []) bs)"

lemma slice_append: "i \<le> j \<Longrightarrow> j \<le> k \<Longrightarrow> slice xs i j @ slice xs j k = slice xs i k"
proof -
  assume "i \<le> j" "j \<le> k"
  then obtain a b where "j = i + a" "k = i + (a + b)" by (metis le_add_diff_inverse add.assoc)
  then show ?thesis
    using slice_eq_take [of xs i a] slice_eq_take [of xs "i + a" b] slice_eq_take [of xs i "a + b"]
    by (simp add: take_add add.assoc add.commute add.left_commute)
qed

lemma length_slice: "j \<le> length xs \<Longrightarrow> length (slice xs i j) = j - i"
  by (simp add: slice_def)

lemma slice_refl [simp]: "slice xs i i = []"
  by (simp add: slice_def)

lemma opcode_chain_le: "opcode_chain before after s d bs s' d' \<Longrightarrow> s \<le> s' \<and> d \<le> d'"
  by (induction bs arbitrary: s d) (fastforce simp: opcode_ok_def)+

lemma opcode_chain_apply:
  "opcode_chain before after s d bs s' d' \<Longrightarrow> apply_opcodes before after bs = slice after d d'"
proof (induction bs arbitrary: s d)
  case Nil
  then show ?case by (simp add: apply_opcodes_def)
next
  case (Cons b bs)
  then have b: "op_SrcStart b = s" "op_DestStart b = d" "opcode_ok before after b"
    and rest: "opcode_chain before after (op_SrcEnd b) (op_DestEnd b) bs s' d'" by auto
  have "apply_opcodes before after bs = slice after (op_DestEnd b) d'" by (rule Cons.IH [OF rest])
  moreover have "d \<le> op_DestEnd b" "op_DestEnd b \<le> d'"
    using b opcode_chain_le [OF rest] by (auto simp: opcode_ok_def)
  ultimately show ?case
    using b slice_append [of d "op_DestEnd b" d' after]
    by (cases "op_Tag b") (auto simp: apply_opcodes_def opcode_ok_def)
qed

text \<open>The kept lines of any chain are a common subsequence.\<close>

lemma opcode_chain_common:
  "opcode_chain before after s d bs s' d' \<Longrightarrow>
   \<exists>zs. subseq zs (slice before s s') \<and> subseq zs (slice after d d')
     \<and> length zs + deleted_lines bs = s' - s \<and> length zs + added_lines bs = d' - d"
proof (induction bs arbitrary: s d)
  case Nil
  then show ?case by simp
next
  case (Cons b bs)
  then have b: "op_SrcStart b = s" "op_DestStart b = d" "opcode_ok before after b"
    and rest: "opcode_chain before after (op_SrcEnd b) (op_DestEnd b) bs s' d'" by auto
  let ?s = "op_SrcEnd b" and ?d = "op_DestEnd b"
  obtain zs where zs: "subseq zs (slice before ?s s')" "subseq zs (slice after ?d d')"
    "length zs + deleted_lines bs = s' - ?s" "length zs + added_lines bs = d' - ?d"
    using Cons.IH [OF rest] by blast
  have le: "s \<le> ?s" "?s \<le> s'" "d \<le> ?d" "?d \<le> d'"
    using b opcode_chain_le [OF rest] by (auto simp: opcode_ok_def)
  note sl = slice_append [OF le(1,2), of before, symmetric] slice_append [OF le(3,4), of after, symmetric]
  define ks where "ks = (if op_Tag b = TagEqual then slice before s ?s else [])"
  have ks: "subseq ks (slice before s ?s)" "subseq ks (slice after d ?d)"
    using b by (auto simp: ks_def opcode_ok_def)
  have eq: "?s - s = ?d - d" if "op_Tag b = TagEqual"
    using b that length_slice [of ?s before s] length_slice [of ?d after d] by (simp add: opcode_ok_def)
  have bound: "?s \<le> length before" using b by (simp add: opcode_ok_def)
  have len: "length ks + (if op_Tag b = TagReplace \<or> op_Tag b = TagDelete then ?s - s else 0) = ?s - s"
    "length ks + (if op_Tag b = TagReplace \<or> op_Tag b = TagInsert then ?d - d else 0) = ?d - d"
    using b eq bound by (cases "op_Tag b"; simp add: ks_def opcode_ok_def length_slice)+
  show ?case
    unfolding sl
  proof (intro exI [of _ "ks @ zs"] conjI)
    show "subseq (ks @ zs) (slice before s ?s @ slice before ?s s')"
      "subseq (ks @ zs) (slice after d ?d @ slice after ?d d')"
      using zs(1,2) ks by (auto intro: list_emb_append_mono)
    show "length (ks @ zs) + deleted_lines (b # bs) = s' - s"
      "length (ks @ zs) + added_lines (b # bs) = d' - d"
      unfolding length_append count_lines_simps(3,4) b(1,2) using zs(3,4) len le by linarith+
  qed
qed

text \<open>
  C6. \<^verbatim>\<open>IndelOpcodes\<close> always returns (the recovery walk never writes outside its array and the
  grouping loop ends), and its blocks cover both line lists from end to end without gap or
  overlap, with no replace block, equal blocks naming equal lines; applying them to
  \<open>before\<close> yields \<open>after\<close>.
\<close>

theorem indel_opcodes_transform:
  "\<exists>bs. IndelOpcodes before after = Some bs
     \<and> opcode_chain before after 0 0 bs (length before) (length after)
     \<and> apply_opcodes before after bs = after"
proof -
  obtain bs where "IndelOpcodes before after = Some bs"
    "opcode_chain before after 0 0 bs (length before) (length after)"
    using IndelOpcodes_chain [of before after] by blast
  then show ?thesis using opcode_chain_apply by (fastforce simp: slice_def)
qed

text \<open>
  C7. The alignment is optimal: the bit-parallel matrix and the walk find a longest common
  subsequence, so the blocks delete \<open>length before - lcs\<close> and add \<open>length after - lcs\<close>
  lines, and no valid block list deletes or adds fewer.
\<close>

theorem indel_opcodes_minimal:
  "\<exists>bs. IndelOpcodes before after = Some bs
     \<and> deleted_lines bs = length before - lcs before after
     \<and> added_lines bs = length after - lcs before after
     \<and> \<not> (\<exists>cs. opcode_chain before after 0 0 cs (length before) (length after)
           \<and> (deleted_lines cs < deleted_lines bs \<or> added_lines cs < added_lines bs))"
proof -
  obtain bs where bs: "IndelOpcodes before after = Some bs"
    "opcode_chain before after 0 0 bs (length before) (length after)"
    "deleted_lines bs + added_lines bs + 2 * lcs before after = length before + length after"
    using IndelOpcodes_chain [of before after] by blast
  have kept: "deleted_lines cs \<ge> length before - lcs before after
      \<and> added_lines cs \<ge> length after - lcs before after"
    if "opcode_chain before after 0 0 cs (length before) (length after)" for cs
    using opcode_chain_common [OF that] lcs_upper [of _ before after] by (fastforce simp: slice_def)
  have "deleted_lines bs = length before - lcs before after
      \<and> added_lines bs = length after - lcs before after"
    using kept [OF bs(2)] bs(3) lcs_le [of before after] by linarith
  with bs(1) kept show ?thesis by (auto simp: not_less)
qed

end
