(* ===== verification/Go_Strings.thy ===== *)
theory Go_Strings
  imports Prelude "HOL-Library.Sublist"
begin

text \<open>
  The part of Go's string library the components call: a string is the list of its bytes
  (\<open>char\<close> ranges over the 256 byte values). Decimal conversion follows
  \<^verbatim>\<open>strconv.Itoa\<close> and \<^verbatim>\<open>strconv.Atoi\<close>, decoding and encoding of runes follow
  \<^verbatim>\<open>unicode/utf8\<close> (an invalid byte decodes to U+FFFD with width one), and white space is
  the set of \<^verbatim>\<open>unicode.IsSpace\<close>, recognised by its UTF-8 encodings. The lead bytes of
  those encodings are never continuation bytes, so scanning byte by byte finds the same
  spaces as scanning rune by rune.
\<close>

section \<open>Decimal numbers\<close>

definition digit_char :: "nat \<Rightarrow> char" where
  "digit_char d = char_of (48 + d)"

definition digit_val :: "char \<Rightarrow> nat" where
  "digit_val c = of_char c - 48"

definition is_digit :: "char \<Rightarrow> bool" where
  "is_digit c \<longleftrightarrow> 48 \<le> (of_char c :: nat) \<and> (of_char c :: nat) \<le> 57"

fun nat_digits :: "nat \<Rightarrow> string" where
  "nat_digits n = (if n < 10 then [digit_char n] else nat_digits (n div 10) @ [digit_char (n mod 10)])"

declare nat_digits.simps [simp del]

definition Itoa :: "int \<Rightarrow> string" where
  "Itoa n = (if n < 0 then ''-'' @ nat_digits (nat (- n)) else nat_digits (nat n))"

definition digits_val :: "string \<Rightarrow> nat" where
  "digits_val s = foldl (\<lambda>a c. 10 * a + digit_val c) 0 s"

definition digits_int :: "string \<Rightarrow> int" where
  "digits_int s = foldl (\<lambda>a c. 10 * a + (of_char c - 48)) 0 s"

text \<open>\<^verbatim>\<open>strconv.Atoi\<close>: an optional sign, then decimal digits only, within 64 bits.\<close>

definition Atoi :: "string \<Rightarrow> int option" where
  "Atoi s =
     (let neg = (s \<noteq> [] \<and> hd s = CHR ''-'');
          ds = (if s \<noteq> [] \<and> (hd s = CHR ''-'' \<or> hd s = CHR ''+'') then tl s else s);
          n = (if neg then - digits_int ds else digits_int ds)
      in if ds = [] \<or> \<not> list_all is_digit ds then None
         else if in_i64 n then Some n else None)"

lemma digit_char_is_digit [simp]: "d < 10 \<Longrightarrow> is_digit (digit_char d)"
  by (simp add: is_digit_def digit_char_def)

lemma digit_val_char [simp]: "d < 10 \<Longrightarrow> digit_val (digit_char d) = d"
  by (simp add: digit_val_def digit_char_def)

lemma nat_digits_nonempty [simp]: "nat_digits n \<noteq> []"
  by (subst nat_digits.simps) simp

lemma nat_digits_digits: "list_all is_digit (nat_digits n)"
proof (induction n rule: nat_digits.induct)
  case (1 n)
  then show ?case by (subst nat_digits.simps) simp
qed

lemma digits_val_snoc [simp]: "digits_val (s @ [c]) = 10 * digits_val s + digit_val c"
  by (simp add: digits_val_def)

lemma digits_val_nat_digits [simp]: "digits_val (nat_digits n) = n"
proof (induction n rule: nat_digits.induct)
  case (1 n)
  show ?case
  proof (cases "n < 10")
    case True
    then show ?thesis by (subst nat_digits.simps) (simp add: digits_val_def)
  next
    case False
    then show ?thesis using 1 by (subst nat_digits.simps) simp
  qed
qed

lemma digits_int_val: "list_all is_digit s \<Longrightarrow> digits_int s = int (digits_val s)"
proof (induction s rule: rev_induct)
  case (snoc c s)
  have "(of_char c :: int) = int (of_char c)" by (simp add: of_nat_of_char)
  with snoc show ?case by (simp add: digits_int_def digits_val_def digit_val_def is_digit_def of_nat_diff)
qed (simp add: digits_int_def digits_val_def)

lemma is_digit_not_sign: "is_digit c \<Longrightarrow> c \<noteq> CHR ''-'' \<and> c \<noteq> CHR ''+''"
  by (auto simp: is_digit_def)

lemma hd_nat_digits: "is_digit (hd (nat_digits n))"
  using nat_digits_digits [of n] nat_digits_nonempty [of n]
  by (cases "nat_digits n") (simp_all del: nat_digits_nonempty)

lemma Atoi_nat_digits: "int n < 2 ^ 63 \<Longrightarrow> Atoi (nat_digits n) = Some (int n)"
  using hd_nat_digits [of n] is_digit_not_sign [of "hd (nat_digits n)"] nat_digits_digits [of n]
  by (simp add: Atoi_def Let_def digits_int_val)

lemma Atoi_Itoa: "in_i64 n \<Longrightarrow> Atoi (Itoa n) = Some n"
proof (cases "n < 0")
  case True
  assume "in_i64 n"
  with True nat_digits_digits [of "nat (- n)"] show ?thesis by (simp add: Itoa_def Atoi_def digits_int_val)
next
  case False
  assume "in_i64 n"
  with False Atoi_nat_digits [of "nat n"] show ?thesis by (simp add: Itoa_def)
qed

section \<open>Searching and joining\<close>

definition HasPrefix :: "string \<Rightarrow> string \<Rightarrow> bool" where
  "HasPrefix s p \<longleftrightarrow> take (length p) s = p"

fun Contains :: "string \<Rightarrow> string \<Rightarrow> bool" where
  "Contains [] p \<longleftrightarrow> p = []"
| "Contains (c # s) p \<longleftrightarrow> HasPrefix (c # s) p \<or> Contains s p"

fun Join :: "string list \<Rightarrow> string \<Rightarrow> string" where
  "Join [] sep = []"
| "Join [s] sep = s"
| "Join (s # t # ss) sep = s @ sep @ Join (t # ss) sep"

text \<open>\<^verbatim>\<open>strings.Split(s, sep)\<close> for a one-byte separator.\<close>

fun split_acc :: "char \<Rightarrow> string \<Rightarrow> string \<Rightarrow> string list" where
  "split_acc sep cur [] = [cur]"
| "split_acc sep cur (c # s) =
     (if c = sep then cur # split_acc sep [] s else split_acc sep (cur @ [c]) s)"

definition Split :: "string \<Rightarrow> char \<Rightarrow> string list" where
  "Split s sep = split_acc sep [] s"

text \<open>\<^verbatim>\<open>strings.Cut(s, sep)\<close> for a one-byte separator.\<close>

fun cut_acc :: "char \<Rightarrow> string \<Rightarrow> string \<Rightarrow> (string \<times> string) option" where
  "cut_acc sep cur [] = None"
| "cut_acc sep cur (c # s) = (if c = sep then Some (cur, s) else cut_acc sep (cur @ [c]) s)"

definition Cut :: "string \<Rightarrow> char \<Rightarrow> (string \<times> string) option" where
  "Cut s sep = cut_acc sep [] s"

lemma HasPrefix_append [simp]: "HasPrefix (p @ s) p"
  by (simp add: HasPrefix_def)

lemma HasPrefix_iff: "HasPrefix s p \<longleftrightarrow> prefix p s"
  unfolding HasPrefix_def prefix_def by (metis append_eq_conv_conj append_take_drop_id)

lemma split_acc_no_sep: "s \<in> set (split_acc sep cur t) \<Longrightarrow> sep \<notin> set cur \<Longrightarrow> sep \<notin> set s"
  by (induction sep cur t arbitrary: rule: split_acc.induct) (auto split: if_splits)

lemma split_acc_join: "Join (split_acc sep cur t) [sep] = cur @ t"
proof (induction sep cur t rule: split_acc.induct)
  case (2 sep cur c s)
  have "split_acc sep xs ys \<noteq> []" for xs ys by (induction ys arbitrary: xs) simp_all
  then obtain y ys where "split_acc sep [] s = y # ys" by (cases "split_acc sep [] s") auto
  with 2 show ?case by auto
qed simp

lemma Split_nonempty [simp]: "Split s sep \<noteq> []"
proof -
  have "split_acc sep xs ys \<noteq> []" for xs ys by (induction ys arbitrary: xs) simp_all
  then show ?thesis by (simp add: Split_def)
qed

lemma Join_Split: "Join (Split s sep) [sep] = s"
  by (simp add: Split_def split_acc_join)

lemma Split_no_sep: "t \<in> set (Split s sep) \<Longrightarrow> sep \<notin> set t"
  unfolding Split_def by (rule split_acc_no_sep) auto

section \<open>Runes\<close>

abbreviation byte :: "char \<Rightarrow> nat" where
  "byte c \<equiv> of_char c"

definition cont_byte :: "char \<Rightarrow> bool" where
  "cont_byte c \<longleftrightarrow> 128 \<le> byte c \<and> byte c \<le> 191"

definition RuneError :: nat where
  "RuneError = 65533"

text \<open>\<^verbatim>\<open>utf8.DecodeRune\<close> on a non-empty string: the rune and its width.\<close>

fun decode_rune :: "string \<Rightarrow> nat \<times> nat" where
  "decode_rune [] = (RuneError, 0)"
| "decode_rune (a # s) =
     (let n = byte a in
      if n < 128 then (n, 1)
      else case s of
        [] \<Rightarrow> (RuneError, 1)
      | b # s1 \<Rightarrow>
          if 194 \<le> n \<and> n \<le> 223 then
            (if cont_byte b then ((n - 192) * 64 + (byte b - 128), 2) else (RuneError, 1))
          else (case s1 of
            [] \<Rightarrow> (RuneError, 1)
          | c # s2 \<Rightarrow>
              if 224 \<le> n \<and> n \<le> 239 then
                (if cont_byte b \<and> cont_byte c \<and> (n = 224 \<longrightarrow> 160 \<le> byte b) \<and> (n = 237 \<longrightarrow> byte b \<le> 159)
                 then ((n - 224) * 4096 + (byte b - 128) * 64 + (byte c - 128), 3) else (RuneError, 1))
              else (case s2 of
                [] \<Rightarrow> (RuneError, 1)
              | d # s3 \<Rightarrow>
                  if 240 \<le> n \<and> n \<le> 244 \<and> cont_byte b \<and> cont_byte c \<and> cont_byte d
                      \<and> (n = 240 \<longrightarrow> 144 \<le> byte b) \<and> (n = 244 \<longrightarrow> byte b \<le> 143)
                  then ((n - 240) * 262144 + (byte b - 128) * 4096 + (byte c - 128) * 64
                        + (byte d - 128), 4)
                  else (RuneError, 1))))"

lemma decode_rune_width: "s \<noteq> [] \<Longrightarrow> 0 < snd (decode_rune s)"
  by (cases s) (auto simp: Let_def split: list.splits)

text \<open>The conversion \<^verbatim>\<open>[]rune(s)\<close>.\<close>

function runes :: "string \<Rightarrow> nat list" where
  "runes s = (if s = [] then [] else fst (decode_rune s) # runes (drop (snd (decode_rune s)) s))"
  by pat_completeness auto
termination
  by (relation "measure length") (auto simp: decode_rune_width)

declare runes.simps [simp del]

text \<open>The conversion \<^verbatim>\<open>string(rs)\<close>: a surrogate or an out-of-range rune encodes as U+FFFD.\<close>

definition encode_rune :: "nat \<Rightarrow> string" where
  "encode_rune r =
     (let r = (if 1114111 < r \<or> (55296 \<le> r \<and> r \<le> 57343) then RuneError else r) in
      if r < 128 then [char_of r]
      else if r < 2048 then [char_of (192 + r div 64), char_of (128 + r mod 64)]
      else if r < 65536 then
        [char_of (224 + r div 4096), char_of (128 + r div 64 mod 64), char_of (128 + r mod 64)]
      else [char_of (240 + r div 262144), char_of (128 + r div 4096 mod 64),
            char_of (128 + r div 64 mod 64), char_of (128 + r mod 64)])"

definition runes_string :: "nat list \<Rightarrow> string" where
  "runes_string rs = concat (map encode_rune rs)"

subsection \<open>Encoding and decoding\<close>

text \<open>Decoding inverts encoding on the Unicode scalar values, which are all that decoding yields.\<close>

definition scalar :: "nat \<Rightarrow> bool" where
  "scalar r \<longleftrightarrow> r \<le> 1114111 \<and> \<not> (55296 \<le> r \<and> r \<le> 57343)"

lemma byte_char_of [simp]: "n < 256 \<Longrightarrow> byte (char_of n) = n"
  by simp

lemma encode_rune_nonempty [simp]: "encode_rune r \<noteq> []"
  by (simp add: encode_rune_def Let_def)

lemma cont_byte_char [simp]: "(n::nat) < 64 \<Longrightarrow> cont_byte (char_of (128 + n))"
  by (simp add: cont_byte_def)

lemma decode_encode_1: "r < 128 \<Longrightarrow> decode_rune (encode_rune r @ t) = (r, length (encode_rune r))"
  by (simp add: encode_rune_def)

lemma decode_encode_2:
  assumes "128 \<le> r" "r < 2048"
  shows "decode_rune (encode_rune r @ t) = (r, length (encode_rune r))"
proof -
  have b: "192 + r div 64 < 256" "128 + r mod 64 < 256" "194 \<le> 192 + r div 64" "192 + r div 64 \<le> 223"
    using assms by (auto simp: less_mult_imp_div_less)
  have "r div 64 * 64 + r mod 64 = r" by simp
  then show ?thesis
    using assms b by (simp add: encode_rune_def cont_byte_def Let_def)
qed

lemma split_64: "(r::nat) = r div 64 * 64 + r mod 64"
  by simp

lemma div_64: "(r::nat) div 64 div 64 = r div 4096" "r div 4096 div 64 = r div 262144"
  by (simp_all flip: div_mult2_eq)

lemma decode_encode_3:
  assumes "2048 \<le> r" "r < 65536" "scalar r"
  shows "decode_rune (encode_rune r @ t) = (r, length (encode_rune r))"
proof -
  define a b c where "a = r div 4096" and "b = r div 64 mod 64" and "c = r mod 64"
  have r: "r = a * 4096 + b * 64 + c" unfolding a_def b_def c_def using split_64 [of r] split_64 [of "r div 64"] div_64 [of r] by linarith
  have bd: "a < 16" "b < 64" "c < 64" using assms unfolding a_def b_def c_def by auto
  have l: "a = 0 \<Longrightarrow> 32 \<le> b" "a = 13 \<Longrightarrow> b \<le> 31"
    using assms r bd unfolding scalar_def by auto
  have "encode_rune r = [char_of (224 + a), char_of (128 + b), char_of (128 + c)]"
    using assms unfolding scalar_def a_def b_def c_def by (auto simp: encode_rune_def Let_def)
  moreover have "(224 + a - 224) * 4096 + (128 + b - 128) * 64 + (128 + c - 128) = r" using r by simp
  ultimately show ?thesis using bd l by (auto simp: Let_def)
qed

lemma decode_encode_4:
  assumes "65536 \<le> r" "scalar r"
  shows "decode_rune (encode_rune r @ t) = (r, length (encode_rune r))"
proof -
  define a b c d where "a = r div 262144" and "b = r div 4096 mod 64" and "c = r div 64 mod 64" and "d = r mod 64"
  have r: "r = a * 262144 + b * 4096 + c * 64 + d" unfolding a_def b_def c_def d_def
    using split_64 [of r] split_64 [of "r div 64"] split_64 [of "r div 4096"] div_64 [of r] by linarith
  have bd: "a < 5" "b < 64" "c < 64" "d < 64" using assms unfolding a_def b_def c_def d_def scalar_def by auto
  have l: "a = 0 \<Longrightarrow> 16 \<le> b" "a = 4 \<Longrightarrow> b \<le> 15"
    using assms r bd unfolding scalar_def by auto
  have "encode_rune r = [char_of (240 + a), char_of (128 + b), char_of (128 + c), char_of (128 + d)]"
    using assms unfolding scalar_def a_def b_def c_def d_def by (simp add: encode_rune_def Let_def)
  then show ?thesis using bd l r by (auto simp: Let_def)
qed

lemma decode_encode:
  "scalar r \<Longrightarrow> decode_rune (encode_rune r @ t) = (r, length (encode_rune r))"
  using decode_encode_1 [of r t] decode_encode_2 [of r t] decode_encode_3 [of r t] decode_encode_4 [of r t]
  by linarith

lemma scalar_RuneError [simp]: "scalar RuneError"
  by (simp add: scalar_def RuneError_def)

lemma scalar_2: "194 \<le> n \<Longrightarrow> n \<le> 223 \<Longrightarrow> b \<le> 191 \<Longrightarrow> scalar ((n - 192) * 64 + (b - 128))"
  unfolding scalar_def by linarith

lemma scalar_3:
  assumes "224 \<le> n" "n \<le> 239" "128 \<le> b" "b \<le> 191" "128 \<le> c" "c \<le> 191" "n = 237 \<longrightarrow> b \<le> 159"
  shows "scalar ((n - 224) * 4096 + (b - 128) * 64 + (c - 128))"
proof -
  consider "n \<le> 236" | "n = 237" | "238 \<le> n" by linarith
  then show ?thesis using assms unfolding scalar_def by cases linarith+
qed

lemma scalar_4:
  assumes "240 \<le> n" "n \<le> 244" "128 \<le> b" "b \<le> 191" "c \<le> 191" "d \<le> 191"
    "n = 240 \<longrightarrow> 144 \<le> b" "n = 244 \<longrightarrow> b \<le> 143"
  shows "scalar ((n - 240) * 262144 + (b - 128) * 4096 + (c - 128) * 64 + (d - 128))"
proof -
  consider "n = 240" | "241 \<le> n" "n \<le> 243" | "n = 244" using assms by linarith
  then show ?thesis using assms unfolding scalar_def by cases linarith+
qed

lemma scalar_decode: "scalar (fst (decode_rune s))"
proof (cases s)
  case (Cons a t)
  let ?n = "byte a"
  consider (one) "?n < 128" | (nil) "\<not> ?n < 128" "t = []"
    | (two) b u where "\<not> ?n < 128" "t = b # u" "194 \<le> ?n \<and> ?n \<le> 223"
    | (more) b u where "\<not> ?n < 128" "t = b # u" "\<not> (194 \<le> ?n \<and> ?n \<le> 223)"
    by (cases t) auto
  then show ?thesis
  proof cases
    case one
    then show ?thesis using Cons by (simp add: scalar_def)
  next
    case nil
    then show ?thesis using Cons by simp
  next
    case two
    then show ?thesis using Cons scalar_2 [of ?n "byte b"] by (auto simp: cont_byte_def)
  next
    case more
    show ?thesis
    proof (cases u)
      case Nil
      then show ?thesis using more Cons by (auto simp: Let_def)
    next
      case (Cons c v)
      note u = this
      show ?thesis
      proof (cases "224 \<le> ?n \<and> ?n \<le> 239")
        case True
        then show ?thesis using more u \<open>s = a # t\<close> scalar_3 [of ?n "byte b" "byte c"]
          by (auto simp: cont_byte_def Let_def)
      next
        case False
        then show ?thesis using more u \<open>s = a # t\<close>
            scalar_4 [of ?n "byte b" "byte c" "byte (hd v)"]
          by (cases v) (auto simp: cont_byte_def Let_def)
      qed
    qed
  qed
qed simp

lemma runes_scalar: "r \<in> set (runes s) \<Longrightarrow> scalar r"
proof (induction s rule: runes.induct)
  case (1 s)
  then show ?case by (subst (asm) (2) runes.simps) (auto split: if_splits simp: scalar_decode)
qed

lemma runes_encode: "scalar r \<Longrightarrow> runes (encode_rune r @ t) = r # runes t"
  by (subst runes.simps) (simp add: decode_encode)

lemma runes_runes_string: "(\<And>r. r \<in> set rs \<Longrightarrow> scalar r) \<Longrightarrow> runes (runes_string rs) = rs"
proof (induction rs)
  case (Cons r rs)
  have "runes (encode_rune r @ runes_string rs) = r # rs" using Cons by (simp add: runes_encode)
  then show ?case by (simp add: runes_string_def)
qed (simp add: runes_string_def runes.simps)

text \<open>A string with its invalid bytes replaced; on valid UTF-8 the identity.\<close>

definition utf8_fix :: "string \<Rightarrow> string" where
  "utf8_fix s = runes_string (runes s)"

definition valid_utf8 :: "string \<Rightarrow> bool" where
  "valid_utf8 s \<longleftrightarrow> utf8_fix s = s"

lemma utf8_fix_valid [simp]: "valid_utf8 (utf8_fix s)"
  using runes_scalar by (simp add: valid_utf8_def utf8_fix_def runes_runes_string)

lemma utf8_fix_id [simp]: "valid_utf8 s \<Longrightarrow> utf8_fix s = s"
  by (simp add: valid_utf8_def)

lemma runes_ascii: "list_all (\<lambda>c. byte c < 128) s \<Longrightarrow> runes s = map byte s"
proof (induction s)
  case (Cons c s)
  then show ?case by (subst runes.simps) simp
qed (simp add: runes.simps)

lemma ascii_valid: "list_all (\<lambda>c. byte c < 128) s \<Longrightarrow> valid_utf8 s"
  by (induction s) (simp_all add: valid_utf8_def utf8_fix_def runes_ascii runes_string_def encode_rune_def)

section \<open>White space\<close>

text \<open>The UTF-8 encodings of the runes of \<^verbatim>\<open>unicode.IsSpace\<close>.\<close>

definition space_encodings :: "string list" where
  "space_encodings =
     [[CHR 0x09], [CHR 0x0A], [CHR 0x0B], [CHR 0x0C], [CHR 0x0D], [CHR 0x20],
      [CHR 0xC2, CHR 0x85], [CHR 0xC2, CHR 0xA0], [CHR 0xE1, CHR 0x9A, CHR 0x80],
      [CHR 0xE2, CHR 0x80, CHR 0x80], [CHR 0xE2, CHR 0x80, CHR 0x81], [CHR 0xE2, CHR 0x80, CHR 0x82],
      [CHR 0xE2, CHR 0x80, CHR 0x83], [CHR 0xE2, CHR 0x80, CHR 0x84], [CHR 0xE2, CHR 0x80, CHR 0x85],
      [CHR 0xE2, CHR 0x80, CHR 0x86], [CHR 0xE2, CHR 0x80, CHR 0x87], [CHR 0xE2, CHR 0x80, CHR 0x88],
      [CHR 0xE2, CHR 0x80, CHR 0x89], [CHR 0xE2, CHR 0x80, CHR 0x8A], [CHR 0xE2, CHR 0x80, CHR 0xA8],
      [CHR 0xE2, CHR 0x80, CHR 0xA9], [CHR 0xE2, CHR 0x80, CHR 0xAF], [CHR 0xE2, CHR 0x81, CHR 0x9F],
      [CHR 0xE3, CHR 0x80, CHR 0x80]]"

definition space_width :: "string list \<Rightarrow> string \<Rightarrow> nat" where
  "space_width ws s = (case List.find (\<lambda>w. HasPrefix s w) ws of Some w \<Rightarrow> length w | None \<Rightarrow> 0)"

lemma space_width_le: "space_width ws s \<le> length s"
  by (auto simp: space_width_def HasPrefix_def split: option.splits dest!: find_Some_in)
     (metis length_take min.cobounded1)

function trim_front :: "string list \<Rightarrow> string \<Rightarrow> string" where
  "trim_front ws s = (if space_width ws s = 0 then s else trim_front ws (drop (space_width ws s) s))"
  by pat_completeness auto
termination
proof (relation "measure (\<lambda>(ws, s). length s)")
  show "wf (measure (\<lambda>(ws, s). length s))" by simp
next
  fix ws :: "string list" and s :: string
  assume "space_width ws s \<noteq> 0"
  then show "((ws, drop (space_width ws s) s), ws, s) \<in> measure (\<lambda>(ws, s). length s)"
    using space_width_le [of ws s] by simp
qed

declare trim_front.simps [simp del]

definition TrimSpace :: "string \<Rightarrow> string" where
  "TrimSpace s = rev (trim_front (map rev space_encodings) (rev (trim_front space_encodings s)))"

text \<open>\<^verbatim>\<open>strings.Fields\<close>: the maximal runs of non-space bytes.\<close>

function fields_acc :: "string \<Rightarrow> string \<Rightarrow> string list" where
  "fields_acc cur s =
     (if s = [] then (if cur = [] then [] else [cur])
      else if space_width space_encodings s = 0 then fields_acc (cur @ [hd s]) (tl s)
      else if cur = [] then fields_acc [] (drop (space_width space_encodings s) s)
      else cur # fields_acc [] (drop (space_width space_encodings s) s))"
  by pat_completeness auto
termination
  by (relation "measure (\<lambda>(cur, s). length s)") (auto simp: Suc_le_eq)

declare fields_acc.simps [simp del]

definition Fields :: "string \<Rightarrow> string list" where
  "Fields s = fields_acc [] s"

lemma TrimSpace_Nil [simp]: "TrimSpace [] = []"
  by (simp add: TrimSpace_def trim_front.simps space_width_def HasPrefix_def space_encodings_def)

section \<open>Case\<close>

definition ascii_upper :: "char \<Rightarrow> char" where
  "ascii_upper c = (if 97 \<le> byte c \<and> byte c \<le> 122 then char_of (byte c - 32) else c)"

definition ascii_lower :: "char \<Rightarrow> char" where
  "ascii_lower c = (if 65 \<le> byte c \<and> byte c \<le> 90 then char_of (byte c + 32) else c)"

section \<open>Order\<close>

text \<open>Go's string order is the lexicographic order of the bytes.\<close>

fun string_less :: "string \<Rightarrow> string \<Rightarrow> bool" where
  "string_less s [] = False"
| "string_less [] (d # t) = True"
| "string_less (c # s) (d # t) = (byte c < byte d \<or> (c = d \<and> string_less s t))"

lemma string_less_irrefl: "\<not> string_less s s"
  by (induction s) auto

lemma string_less_asym: "string_less s t \<Longrightarrow> \<not> string_less t s"
  by (induction s t rule: string_less.induct) auto

lemma string_less_trans: "\<not> string_less s t \<Longrightarrow> \<not> string_less t u \<Longrightarrow> \<not> string_less s u"
proof (induction s u arbitrary: t rule: string_less.induct)
  case (2 d t')
  then show ?case by (cases t) auto
next
  case (3 c s d u)
  show ?case
  proof (cases t)
    case Nil
    with 3 show ?thesis by simp
  next
    case (Cons e t')
    have le: "byte e \<le> byte c" "byte d \<le> byte e" using 3(2,3) Cons by auto
    show ?thesis
    proof
      assume less: "string_less (c # s) (d # u)"
      then have "byte c = byte d" using le by auto
      then have eq: "c = d" "e = d" using le by auto
      then have "\<not> string_less s t'" "\<not> string_less t' u" using 3(2,3) Cons by auto
      with 3(1) eq less show False by auto
    qed
  qed
qed simp

lemma weak_order_string_less: "weak_order string_less"
  using string_less_asym string_less_trans unfolding weak_order_def by blast

lemma string_less_linear: "\<not> string_less s t \<Longrightarrow> \<not> string_less t s \<Longrightarrow> s = t"
proof (induction s t rule: string_less.induct)
  case (1 s)
  then show ?case by (cases s) auto
next
  case (3 c s d t)
  then show ?case by (cases "byte c" "byte d" rule: linorder_cases) auto
qed simp

text \<open>\<^verbatim>\<open>sort.Strings\<close>.\<close>

definition sort_Strings :: "string list \<Rightarrow> string list" where
  "sort_Strings = SliceStable string_less"

lemma set_sort_Strings [simp]: "set (sort_Strings xs) = set xs"
  by (simp add: sort_Strings_def)

lemma distinct_sort_Strings [simp]: "distinct (sort_Strings xs) = distinct xs"
  unfolding sort_Strings_def by (metis mset_SliceStable mset_eq_imp_distinct_iff)

lemma sorted_sort_Strings: "sorted_wrt (\<lambda>a b. \<not> string_less b a) (sort_Strings xs)"
  unfolding sort_Strings_def by (rule sorted_SliceStable [OF weak_order_string_less])

end
