(* ===== verification/FileDiff.thy ===== *)
theory FileDiff
  imports Indel Go_Strings
begin

text \<open>
  The line diff of \<^verbatim>\<open>internal/filediff/filediff.go\<close>, \<^verbatim>\<open>pytext.go\<close> and \<^verbatim>\<open>payload.go\<close>: splitting a
  text into lines, the diff of two texts, the grouping of blocks into hunks, the unified
  diff and its bounded payload for the web client. An \<open>option\<close> result is \<open>None\<close> where the
  code would panic (an index or slice out of range). Context sizes are the non-negative
  ones the payload builder passes.

  The section on patches gives the specification: an independent reading of a unified diff
  as instructions on the old lines.
\<close>

section \<open>Lines of a text\<close>

text \<open>The width of the line break at the head of the string, 0 when there is none.\<close>

fun break_width :: "string \<Rightarrow> nat" where
  "break_width [] = 0"
| "break_width (c # s) =
     (if c = CHR 0x0A \<or> c = CHR 0x0B \<or> c = CHR 0x0C \<or> c = CHR 0x1C \<or> c = CHR 0x1D \<or> c = CHR 0x1E then 1
      else if c = CHR 0x0D then (if s \<noteq> [] \<and> hd s = CHR 0x0A then 2 else 1)
      else if c = CHR 0xC2 \<and> s \<noteq> [] \<and> hd s = CHR 0x85 then 2
      else if c = CHR 0xE2 \<and> 1 < length s \<and> hd s = CHR 0x80 \<and> (s ! 1 = CHR 0xA8 \<or> s ! 1 = CHR 0xA9) then 3
      else 0)"

text \<open>The loop of \<^verbatim>\<open>pySplitLines\<close>; \<open>cur\<close> is \<^verbatim>\<open>s[start:i]\<close>.\<close>

function split_lines :: "string \<Rightarrow> string \<Rightarrow> string list" where
  "split_lines cur s =
     (if s = [] then (if cur = [] then [] else [cur])
      else if break_width s = 0 then split_lines (cur @ [hd s]) (tl s)
      else cur # split_lines [] (drop (break_width s) s))"
  by pat_completeness auto
termination
  by (relation "measure (\<lambda>(cur, s). length s)") auto

declare split_lines.simps [simp del]

definition pySplitLines :: "string \<Rightarrow> string list" where
  "pySplitLines s = split_lines [] s"

text \<open>\<^verbatim>\<open>strings.ReplaceAll(s, "\r\n", "\n")\<close>\<close>

fun crlf_to_lf :: "string \<Rightarrow> string" where
  "crlf_to_lf (c # d # s) =
     (if c = CHR 0x0D \<and> d = CHR 0x0A then CHR 0x0A # crlf_to_lf s else c # crlf_to_lf (d # s))"
| "crlf_to_lf s = s"

section \<open>The diff of two texts\<close>

record FileDiff =
  fd_BeforeLines :: "string list"
  fd_AfterLines :: "string list"
  fd_Opcodes :: "Opcode list"
  fd_Added :: nat
  fd_Deleted :: nat

fun count_changes :: "nat \<times> nat \<Rightarrow> Opcode list \<Rightarrow> nat \<times> nat" where
  "count_changes (added, deleted) [] = (added, deleted)"
| "count_changes (added, deleted) (code # codes) =
     (let deleted' = (if op_Tag code = TagReplace \<or> op_Tag code = TagDelete
                      then deleted + (op_SrcEnd code - op_SrcStart code) else deleted);
          added' = (if op_Tag code = TagReplace \<or> op_Tag code = TagInsert
                    then added + (op_DestEnd code - op_DestStart code) else added)
      in count_changes (added', deleted') codes)"

definition FileDiffFromText :: "string \<Rightarrow> string \<Rightarrow> FileDiff option" where
  "FileDiffFromText before after =
     (let beforeLines = pySplitLines (crlf_to_lf before);
          afterLines = pySplitLines (crlf_to_lf after)
      in Option.bind (IndelOpcodes beforeLines afterLines) (\<lambda>opcodes.
           let (added, deleted) = count_changes (0, 0) opcodes
           in Some \<lparr>fd_BeforeLines = beforeLines, fd_AfterLines = afterLines, fd_Opcodes = opcodes,
                    fd_Added = added, fd_Deleted = deleted\<rparr>))"

definition Matches :: "FileDiff \<Rightarrow> string \<Rightarrow> string \<Rightarrow> bool" where
  "Matches d before after \<longleftrightarrow>
     fd_BeforeLines d = pySplitLines (crlf_to_lf before)
   \<and> fd_AfterLines d = pySplitLines (crlf_to_lf after)"

definition LineDiffStats :: "string option \<Rightarrow> string option \<Rightarrow> (nat \<times> nat) option" where
  "LineDiffStats before after =
     (case (before, after) of
        (Some b, Some a) \<Rightarrow> map_option (\<lambda>d. (fd_Added d, fd_Deleted d)) (FileDiffFromText b a)
      | _ \<Rightarrow> Some (0, 0))"

section \<open>Hunks\<close>

definition hasNonEqual :: "Opcode list \<Rightarrow> bool" where
  "hasNonEqual grp \<longleftrightarrow> list_ex (\<lambda>code. op_Tag code \<noteq> TagEqual) grp"

definition trim_first :: "nat \<Rightarrow> Opcode list \<Rightarrow> Opcode list" where
  "trim_first context codes =
     (if op_Tag (hd codes) = TagEqual
      then (hd codes)\<lparr>op_SrcStart := max (op_SrcStart (hd codes)) (op_SrcEnd (hd codes) - context),
                     op_DestStart := max (op_DestStart (hd codes)) (op_DestEnd (hd codes) - context)\<rparr>
           # tl codes
      else codes)"

definition trim_last :: "nat \<Rightarrow> Opcode list \<Rightarrow> Opcode list" where
  "trim_last context codes =
     (if op_Tag (last codes) = TagEqual
      then butlast codes @
           [(last codes)\<lparr>op_SrcEnd := min (op_SrcEnd (last codes)) (op_SrcStart (last codes) + context),
                         op_DestEnd := min (op_DestEnd (last codes)) (op_DestStart (last codes) + context)\<rparr>]
      else codes)"

fun group_loop :: "nat \<Rightarrow> Opcode list \<Rightarrow> Opcode list \<Rightarrow> Opcode list list" where
  "group_loop context grp [] = (if hasNonEqual grp then [grp] else [])"
| "group_loop context grp (code # codes) =
     (if op_Tag code = TagEqual \<and> op_SrcEnd code - op_SrcStart code > context * 2
      then (grp @ [code\<lparr>op_SrcEnd := op_SrcStart code + context,
                          op_DestEnd := op_DestStart code + context\<rparr>])
           # group_loop context
               [code\<lparr>op_SrcStart := op_SrcEnd code - context,
                     op_DestStart := op_DestEnd code - context\<rparr>] codes
      else group_loop context (grp @ [code]) codes)"

definition Groups :: "FileDiff \<Rightarrow> nat \<Rightarrow> Opcode list list" where
  "Groups d context =
     (if fd_Opcodes d = [] then []
      else group_loop context [] (trim_last context (trim_first context (fd_Opcodes d))))"

section \<open>The unified diff\<close>

definition formatHunkRange :: "int \<Rightarrow> int \<Rightarrow> string" where
  "formatHunkRange start lineCount =
     (if lineCount = 1 then Itoa start else Itoa start @ '','' @ Itoa lineCount)"

definition boolToInt :: "bool \<Rightarrow> int" where
  "boolToInt b = (if b then 1 else 0)"

text \<open>A slice expression \<^verbatim>\<open>xs[i:j]\<close>, which panics unless \<open>i \<le> j \<le> len(xs)\<close>.\<close>

definition go_slice :: "'a list \<Rightarrow> nat \<Rightarrow> nat \<Rightarrow> 'a list option" where
  "go_slice xs i j = (if i \<le> j \<and> j \<le> length xs then Some (slice xs i j) else None)"

definition marked :: "char \<Rightarrow> string list \<Rightarrow> nat \<Rightarrow> nat \<Rightarrow> string list option" where
  "marked m xs i j = map_option (map ((#) m)) (go_slice xs i j)"

definition code_lines :: "FileDiff \<Rightarrow> Opcode \<Rightarrow> string list option" where
  "code_lines d code =
     Option.bind (if op_Tag code = TagEqual
        then marked (CHR '' '') (fd_BeforeLines d) (op_SrcStart code) (op_SrcEnd code) else Some []) (\<lambda>eq.
     Option.bind (if op_Tag code = TagReplace \<or> op_Tag code = TagDelete
        then marked (CHR ''-'') (fd_BeforeLines d) (op_SrcStart code) (op_SrcEnd code) else Some []) (\<lambda>del.
     Option.bind (if op_Tag code = TagReplace \<or> op_Tag code = TagInsert
        then marked (CHR ''+'') (fd_AfterLines d) (op_DestStart code) (op_DestEnd code) else Some []) (\<lambda>ins.
     Some (eq @ del @ ins))))"

fun codes_lines :: "FileDiff \<Rightarrow> Opcode list \<Rightarrow> string list option" where
  "codes_lines d [] = Some []"
| "codes_lines d (code # codes) =
     Option.bind (code_lines d code) (\<lambda>ls. map_option ((@) ls) (codes_lines d codes))"

definition hunk_header :: "Opcode list \<Rightarrow> string" where
  "hunk_header grp =
     (let frst = hd grp; lst = last grp;
          oldCount = int (op_SrcEnd lst) - int (op_SrcStart frst);
          newCount = int (op_DestEnd lst) - int (op_DestStart frst);
          oldRange = formatHunkRange (int (op_SrcStart frst) + boolToInt (oldCount \<noteq> 0)) oldCount;
          newRange = formatHunkRange (int (op_DestStart frst) + boolToInt (newCount \<noteq> 0)) newCount
      in ''@@ -'' @ oldRange @ '' +'' @ newRange @ '' @@'')"

fun hunks_lines :: "FileDiff \<Rightarrow> Opcode list list \<Rightarrow> string list option" where
  "hunks_lines d [] = Some []"
| "hunks_lines d (grp # groups) =
     (if grp = [] then None
      else Option.bind (codes_lines d grp) (\<lambda>body.
             map_option (\<lambda>rest. hunk_header grp # body @ rest) (hunks_lines d groups)))"

definition UnifiedLines :: "FileDiff \<Rightarrow> string \<Rightarrow> string \<Rightarrow> nat \<Rightarrow> string list option" where
  "UnifiedLines d fromfile tofile context =
     (if fd_Added d = 0 \<and> fd_Deleted d = 0 then Some []
      else map_option (\<lambda>ls. (''--- '' @ fromfile) # (''+++ '' @ tofile) # ls)
             (hunks_lines d (Groups d context)))"

section \<open>The bounded payload\<close>

record UnifiedDiffPayload =
  ud_Format :: string
  ud_Context :: int
  ud_Truncated :: bool
  ud_Text :: string

record UnifiedDiffOptions =
  uo_FromFile :: string
  uo_ToFile :: string
  uo_ContextLines :: int
  uo_MaxLines :: int
  uo_MaxLineChars :: int
  uo_Diff :: "FileDiff option"

definition DefaultUnifiedDiffOptions :: UnifiedDiffOptions where
  "DefaultUnifiedDiffOptions = \<lparr>uo_FromFile = ''before'', uo_ToFile = ''after'',
     uo_ContextLines = 3, uo_MaxLines = 500, uo_MaxLineChars = 1200, uo_Diff = None\<rparr>"

text \<open>One line of \<^verbatim>\<open>limitUnifiedDiffLineChars\<close>: the kept line and whether it was cut.\<close>

definition limit_line :: "nat \<Rightarrow> string \<Rightarrow> string \<times> bool" where
  "limit_line maxLineChars line =
     (case line of
        [] \<Rightarrow> (line, False)
      | marker # content \<Rightarrow>
          if marker \<noteq> CHR '' '' \<and> marker \<noteq> CHR ''+'' \<and> marker \<noteq> CHR ''-'' then (line, False)
          else if length (runes content) > maxLineChars
          then (marker # runes_string (take maxLineChars (runes content)), True)
          else (line, False))"

definition limitUnifiedDiffLineChars :: "string list \<Rightarrow> int \<Rightarrow> string list \<times> bool" where
  "limitUnifiedDiffLineChars ls maxLineChars =
     (if maxLineChars \<le> 0 then (ls, False)
      else (map (fst \<circ> limit_line (nat maxLineChars)) ls,
            list_ex (snd \<circ> limit_line (nat maxLineChars)) ls))"

text \<open>
  \<^verbatim>\<open>hunkHeaderRe\<close>: the two start numbers, the two optional counts and the section. The
  expression is deterministic, a digit run is followed by a non-digit.
\<close>

definition scan_digits :: "string \<Rightarrow> (string \<times> string) option" where
  "scan_digits s = (if takeWhile is_digit s = [] then None else Some (takeWhile is_digit s, dropWhile is_digit s))"

definition scan_count :: "string \<Rightarrow> string \<times> string" where
  "scan_count s =
     (if s \<noteq> [] \<and> hd s = CHR '','' then (case scan_digits (tl s) of Some r \<Rightarrow> r | None \<Rightarrow> ([], s)) else ([], s))"

definition scan_lit :: "string \<Rightarrow> string \<Rightarrow> string option" where
  "scan_lit p s = (if HasPrefix s p then Some (drop (length p) s) else None)"

definition hunkHeaderRe :: "string \<Rightarrow> (string \<times> string \<times> string \<times> string \<times> string) option" where
  "hunkHeaderRe header =
     Option.bind (scan_lit ''@@ -'' header) (\<lambda>s.
     Option.bind (scan_digits s) (\<lambda>(m1, s).
     let (m2, s) = scan_count s in
     Option.bind (scan_lit '' +'' s) (\<lambda>s.
     Option.bind (scan_digits s) (\<lambda>(m3, s).
     let (m4, s) = scan_count s in
     Option.bind (scan_lit '' @@'' s) (\<lambda>m5.
     if CHR 0x0A \<in> set m5 then None else Some (m1, m2, m3, m4, m5))))))"

fun count_marks :: "char \<Rightarrow> string list \<Rightarrow> int" where
  "count_marks m [] = 0"
| "count_marks m (l # ls) =
     (if l \<noteq> [] \<and> (hd l = CHR '' '' \<or> hd l = m) then 1 else 0) + count_marks m ls"

definition rewriteHunkHeaderForBody :: "string \<Rightarrow> string list \<Rightarrow> string" where
  "rewriteHunkHeaderForBody header body =
     (case hunkHeaderRe header of
        None \<Rightarrow> header
      | Some (m1, m2, m3, m4, m5) \<Rightarrow>
          (case Atoi m1 of
             None \<Rightarrow> header
           | Some oldStart \<Rightarrow>
               (case Atoi m3 of
                  None \<Rightarrow> header
                | Some newStart \<Rightarrow>
                    ''@@ -'' @ formatHunkRange oldStart (count_marks (CHR ''-'') body)
                    @ '' +'' @ formatHunkRange newStart (count_marks (CHR ''+'') body) @ '' @@'' @ m5)))"

definition is_header :: "string \<Rightarrow> bool" where
  "is_header line \<longleftrightarrow> HasPrefix line ''@@ ''"

function limit_loop ::
  "nat \<Rightarrow> int \<Rightarrow> string list \<Rightarrow> bool \<Rightarrow> nat \<Rightarrow> string list \<Rightarrow> string list \<times> bool \<times> nat" where
  "limit_loop bodyLimit lineCharLimit limited truncated emitted [] = (limited, truncated, emitted)"
| "limit_loop bodyLimit lineCharLimit limited truncated emitted (line # rest) =
     (if \<not> is_header line
      then limit_loop bodyLimit lineCharLimit (limited @ [line]) truncated emitted rest
      else
        let hunkBody = takeWhile (\<lambda>l. \<not> is_header l) rest;
            rest' = dropWhile (\<lambda>l. \<not> is_header l) rest;
            remaining = bodyLimit - emitted
        in if remaining = 0 then (limited, True, emitted)
           else
             let selected = (if remaining < length hunkBody then take remaining hunkBody else hunkBody);
                 truncated = (if length selected < length hunkBody then True else truncated);
                 (selected, truncatedLine) = limitUnifiedDiffLineChars selected lineCharLimit;
                 truncated = (truncated \<or> truncatedLine);
                 header = (if length selected = length hunkBody then line
                           else rewriteHunkHeaderForBody line selected);
                 limited = limited @ header # selected;
                 emitted = emitted + length selected
             in if truncated \<and> emitted \<ge> bodyLimit then (limited, truncated, emitted)
                else limit_loop bodyLimit lineCharLimit limited truncated emitted rest')"
  by pat_completeness auto
termination
  by (relation "measure (\<lambda>(_, _, _, _, _, ls). length ls)")
     (auto simp: le_imp_less_Suc length_dropWhile_le)

definition limitUnifiedDiffLines :: "string list \<Rightarrow> int \<Rightarrow> int \<Rightarrow> string list \<times> bool \<times> nat" where
  "limitUnifiedDiffLines diffLines maxLines maxLineChars =
     limit_loop (nat (max 0 maxLines)) (max 0 maxLineChars) [] False 0 diffLines"

definition BuildUnifiedDiffPayload ::
  "string option \<Rightarrow> string option \<Rightarrow> UnifiedDiffOptions \<Rightarrow> UnifiedDiffPayload option option" where
  "BuildUnifiedDiffPayload before after opts =
     (case (before, after) of
        (Some b, Some a) \<Rightarrow>
          Option.bind (case uo_Diff opts of None \<Rightarrow> FileDiffFromText b a | Some d \<Rightarrow> Some d) (\<lambda>diff.
          Option.bind (UnifiedLines diff (uo_FromFile opts) (uo_ToFile opts) (nat (max 0 (uo_ContextLines opts))))
            (\<lambda>diffLines.
               if diffLines = [] then Some None
               else let (limited, truncated, emitted) =
                          limitUnifiedDiffLines diffLines (uo_MaxLines opts) (uo_MaxLineChars opts)
                    in if emitted = 0 then Some None
                       else Some (Some \<lparr>ud_Format = ''unified'', ud_Context = uo_ContextLines opts,
                                        ud_Truncated = truncated, ud_Text = Join limited [CHR 0x0A]\<rparr>)))
      | _ \<Rightarrow> Some None)"

section \<open>Patches: the specification\<close>

text \<open>
  A unified diff as instructions on the old lines: a header moves forward to the line it
  names, copying what it passes; a context line must agree with the old line and is kept,
  a minus line must agree and is dropped, a plus line is new. An empty range names the line
  before it, a non-empty range its first line.
\<close>

definition hunk_start :: "string \<Rightarrow> nat option" where
  "hunk_start header =
     (case hunkHeaderRe header of
        None \<Rightarrow> None
      | Some (m1, m2, _) \<Rightarrow>
          Some (if (if m2 = [] then 1 else digits_val m2) = 0 then digits_val m1 else digits_val m1 - 1))"

text \<open>Lines written before the rest of the result.\<close>

definition emit :: "string list \<Rightarrow> string list option \<Rightarrow> string list option" where
  "emit xs r = map_option (\<lambda>ys. xs @ ys) r"

lemma emit_simps [simp]:
  "emit [] r = r" "emit xs (Some ys) = Some (xs @ ys)" "emit xs (emit ys r) = emit (xs @ ys) r"
  by (cases r; simp add: emit_def)+

fun apply_patch :: "string list \<Rightarrow> nat \<Rightarrow> string list \<Rightarrow> string list option" where
  "apply_patch before pos [] = Some (drop pos before)"
| "apply_patch before pos ([] # ls) = None"
| "apply_patch before pos ((c # t) # ls) =
     (if c = CHR '' '' then
        (if pos < length before \<and> before ! pos = t
         then emit [t] (apply_patch before (Suc pos) ls) else None)
      else if c = CHR ''-'' then
        (if pos < length before \<and> before ! pos = t then apply_patch before (Suc pos) ls else None)
      else if c = CHR ''+'' then emit [t] (apply_patch before pos ls)
      else (case hunk_start (c # t) of
              None \<Rightarrow> None
            | Some k \<Rightarrow>
                if pos \<le> k \<and> k \<le> length before
                then emit (slice before pos k) (apply_patch before k ls) else None))"

subsection \<open>Headers\<close>

lemma Itoa_nonneg: "0 \<le> n \<Longrightarrow> Itoa n = nat_digits (nat n)"
  by (simp add: Itoa_def)

lemma takeWhile_digits:
  "\<not> is_digit c \<Longrightarrow> takeWhile is_digit (nat_digits n @ c # s) = nat_digits n
     \<and> dropWhile is_digit (nat_digits n @ c # s) = c # s"
  using nat_digits_digits [of n] by (auto simp: takeWhile_append2 dropWhile_append2 list_all_iff)

lemma scan_digits_nat: "\<not> is_digit c \<Longrightarrow> scan_digits (nat_digits n @ c # s) = Some (nat_digits n, c # s)"
  using takeWhile_digits [of c n s] by (simp add: scan_digits_def)

lemma scan_range:
  assumes "0 \<le> a" "0 \<le> b" "\<not> is_digit c" "c \<noteq> CHR '',''"
  obtains r where "scan_digits (formatHunkRange a b @ c # s) = Some (nat_digits (nat a), r)"
    "scan_count r = (if b = 1 then [] else nat_digits (nat b), c # s)"
proof (cases "b = 1")
  case True
  with assms show ?thesis
    by (intro that [of "c # s"]) (simp_all add: formatHunkRange_def Itoa_nonneg scan_digits_nat scan_count_def)
next
  case False
  have comma: "\<not> is_digit (CHR '','')" by (simp add: is_digit_def)
  from False assms comma show ?thesis
    by (intro that [of "CHR '','' # nat_digits (nat b) @ c # s"])
       (simp_all add: formatHunkRange_def Itoa_nonneg scan_digits_nat scan_count_def)
qed

lemma space_not_digit: "\<not> is_digit (CHR '' '')"
  by (simp add: is_digit_def)

lemma scan_lit_append [simp]: "scan_lit p (p @ s) = Some s"
  by (simp add: scan_lit_def)

lemma scan_lit_space:
  "scan_lit ''@@ -'' (CHR ''@'' # CHR ''@'' # CHR '' '' # CHR ''-'' # s) = Some s"
  "scan_lit '' +'' (CHR '' '' # CHR ''+'' # s) = Some s"
  "scan_lit '' @@'' (CHR '' '' # CHR ''@'' # CHR ''@'' # s) = Some s"
  using scan_lit_append [of "''@@ -''" s] scan_lit_append [of "'' +''" s] scan_lit_append [of "'' @@''" s]
  by simp_all

lemma hunkHeaderRe_format:
  assumes "0 \<le> a" "0 \<le> b" "0 \<le> c" "0 \<le> d"
  shows "hunkHeaderRe (''@@ -'' @ formatHunkRange a b @ '' +'' @ formatHunkRange c d @ '' @@'')
    = Some (nat_digits (nat a), if b = 1 then [] else nat_digits (nat b),
            nat_digits (nat c), if d = 1 then [] else nat_digits (nat d), [])"
proof -
  obtain r where r: "scan_digits (formatHunkRange c d @ CHR '' '' # ''@@'') = Some (nat_digits (nat c), r)"
    "scan_count r = (if d = 1 then [] else nat_digits (nat d), '' @@'')"
    using scan_range [OF assms(3,4) space_not_digit] by blast
  obtain q where q: "scan_digits (formatHunkRange a b @ CHR '' '' # CHR ''+'' # formatHunkRange c d @ '' @@'')
      = Some (nat_digits (nat a), q)"
    "scan_count q = (if b = 1 then [] else nat_digits (nat b), CHR '' '' # CHR ''+'' # formatHunkRange c d @ '' @@'')"
    using scan_range [OF assms(1,2) space_not_digit] by blast
  show ?thesis using r q by (simp add: hunkHeaderRe_def scan_lit_space)
qed

lemma hunk_start_format:
  assumes "0 \<le> a" "0 \<le> b" "0 \<le> c" "0 \<le> d"
  shows "hunk_start (''@@ -'' @ formatHunkRange a b @ '' +'' @ formatHunkRange c d @ '' @@'')
    = Some (if b = 0 then nat a else nat a - 1)"
  using hunkHeaderRe_format [OF assms] assms by (simp add: hunk_start_def)

lemma hunk_start_header:
  assumes "op_SrcStart (hd grp) \<le> op_SrcEnd (last grp)" "op_DestStart (hd grp) \<le> op_DestEnd (last grp)"
  shows "hunk_start (hunk_header grp) = Some (op_SrcStart (hd grp))"
  using assms by (simp add: hunk_header_def Let_def hunk_start_format boolToInt_def nat_add_distrib del: append.simps)

subsection \<open>Bodies\<close>

lemma slice_Cons: "i < j \<Longrightarrow> j \<le> length xs \<Longrightarrow> slice xs i j = xs ! i # slice xs (Suc i) j"
  by (simp add: slice_def Cons_nth_drop_Suc [symmetric])

lemma apply_patch_context:
  "i \<le> j \<Longrightarrow> j \<le> length before \<Longrightarrow>
   apply_patch before i (map ((#) (CHR '' '')) (slice before i j) @ rest)
     = emit (slice before i j) (apply_patch before j rest)"
proof (induction "j - i" arbitrary: i)
  case 0
  then show ?case by simp
next
  case (Suc n)
  then have "i < j" by simp
  with Suc show ?case by (simp add: slice_Cons)
qed

lemma apply_patch_delete:
  "i \<le> j \<Longrightarrow> j \<le> length before \<Longrightarrow>
   apply_patch before i (map ((#) (CHR ''-'')) (slice before i j) @ rest) = apply_patch before j rest"
proof (induction "j - i" arbitrary: i)
  case 0
  then show ?case by simp
next
  case (Suc n)
  then have "i < j" by simp
  with Suc show ?case by (simp add: slice_Cons)
qed

lemma apply_patch_insert:
  "apply_patch before i (map ((#) (CHR ''+'')) ls @ rest) = emit ls (apply_patch before i rest)"
  by (induction ls) simp_all

lemma code_lines_patch:
  assumes "opcode_ok (fd_BeforeLines d) (fd_AfterLines d) b"
  obtains ls where "code_lines d b = Some ls"
    "\<And>rest. apply_patch (fd_BeforeLines d) (op_SrcStart b) (ls @ rest)
      = emit (slice (fd_AfterLines d) (op_DestStart b) (op_DestEnd b))
          (apply_patch (fd_BeforeLines d) (op_SrcEnd b) rest)"
  using assms apply_patch_context [of "op_SrcStart b" "op_SrcEnd b" "fd_BeforeLines d"]
  by (cases "op_Tag b")
     (auto simp: opcode_ok_def code_lines_def marked_def go_slice_def
        apply_patch_delete apply_patch_insert intro!: that)

lemma codes_lines_patch:
  assumes "opcode_chain (fd_BeforeLines d) (fd_AfterLines d) s e grp s' e'"
  obtains ls where "codes_lines d grp = Some ls"
    "\<And>rest. apply_patch (fd_BeforeLines d) s (ls @ rest)
      = emit (slice (fd_AfterLines d) e e') (apply_patch (fd_BeforeLines d) s' rest)"
  using assms
proof (induction grp arbitrary: s e thesis)
  case Nil
  then show ?case by simp
next
  case (Cons b bs)
  then have b: "op_SrcStart b = s" "op_DestStart b = e" "opcode_ok (fd_BeforeLines d) (fd_AfterLines d) b"
    and chain: "opcode_chain (fd_BeforeLines d) (fd_AfterLines d) (op_SrcEnd b) (op_DestEnd b) bs s' e'" by auto
  obtain xs where xs: "codes_lines d bs = Some xs"
    "\<And>rest. apply_patch (fd_BeforeLines d) (op_SrcEnd b) (xs @ rest)
      = emit (slice (fd_AfterLines d) (op_DestEnd b) e') (apply_patch (fd_BeforeLines d) s' rest)"
    using Cons.IH [OF _ chain] by blast
  obtain ls where ls: "code_lines d b = Some ls"
    "\<And>rest. apply_patch (fd_BeforeLines d) (op_SrcStart b) (ls @ rest)
      = emit (slice (fd_AfterLines d) (op_DestStart b) (op_DestEnd b))
          (apply_patch (fd_BeforeLines d) (op_SrcEnd b) rest)"
    using code_lines_patch [OF b(3)] by blast
  have "e \<le> op_DestEnd b" "op_DestEnd b \<le> e'"
    using b opcode_chain_le [OF chain] by (auto simp: opcode_ok_def)
  then show ?case
    using xs ls b slice_append [of e "op_DestEnd b" e' "fd_AfterLines d"]
    by (intro Cons.prems(1)) auto
qed

lemma opcode_chain_ends:
  "opcode_chain before after s d grp s' d' \<Longrightarrow> grp \<noteq> [] \<Longrightarrow>
   op_SrcStart (hd grp) = s \<and> op_DestStart (hd grp) = d
   \<and> op_SrcEnd (last grp) = s' \<and> op_DestEnd (last grp) = d'"
proof (induction grp arbitrary: s d)
  case (Cons b bs)
  then show ?case by (cases bs) auto
qed simp

lemma opcode_chain_bounds:
  "opcode_chain before after s d grp s' d' \<Longrightarrow> grp \<noteq> [] \<Longrightarrow> s' \<le> length before \<and> d' \<le> length after"
proof (induction grp arbitrary: s d)
  case (Cons b bs)
  then show ?case by (cases bs) (auto simp: opcode_ok_def)
qed simp

lemma hunk_header_marker: "\<exists>t. hunk_header grp = CHR ''@'' # t"
  by (simp add: hunk_header_def Let_def)

lemma apply_patch_header:
  assumes "opcode_chain before after s d grp s' d'" "grp \<noteq> []" "pos \<le> s"
  shows "apply_patch before pos (hunk_header grp # ls)
    = emit (slice before pos s) (apply_patch before s ls)"
proof -
  obtain t where t: "hunk_header grp = CHR ''@'' # t" using hunk_header_marker by blast
  note ends = opcode_chain_ends [OF assms(1,2)] opcode_chain_le [OF assms(1)]
  have "hunk_start (hunk_header grp) = Some s" using hunk_start_header [of grp] ends by simp
  moreover have "s \<le> length before" using ends opcode_chain_bounds [OF assms(1,2)] by simp
  ultimately show ?thesis using assms(3) t by simp
qed

subsection \<open>Hunks leave out only equal lines\<close>

lemma slice_sub: "i + b \<le> j \<Longrightarrow> slice xs (i + a) (i + b) = drop a (take b (slice xs i j))"
  by (simp add: slice_def take_drop min_def add.commute)

lemma slice_drop: "i \<le> j \<Longrightarrow> slice xs i j @ drop j xs = drop i xs"
  using slice_append [of i j "max j (length xs)" xs] by (simp add: slice_def max_def split: if_splits)

lemma equal_code:
  assumes "opcode_ok before after b" "op_Tag b = TagEqual"
  obtains n where "op_SrcEnd b = op_SrcStart b + n" "op_DestEnd b = op_DestStart b + n"
    "slice before (op_SrcStart b) (op_SrcStart b + n) = slice after (op_DestStart b) (op_DestStart b + n)"
    "op_SrcStart b + n \<le> length before" "op_DestStart b + n \<le> length after"
proof -
  let ?s = "op_SrcStart b" and ?S = "op_SrcEnd b" and ?d = "op_DestStart b" and ?D = "op_DestEnd b"
  have ok: "?s \<le> ?S" "?d \<le> ?D" "?S \<le> length before" "?D \<le> length after"
    "slice before ?s ?S = slice after ?d ?D"
    using assms by (auto simp: opcode_ok_def)
  then have "?S - ?s = ?D - ?d"
    using length_slice [of ?S before ?s] length_slice [of ?D after ?d] by simp
  then obtain n where "?S = ?s + n" "?D = ?d + n" using ok by (metis le_add_diff_inverse)
  with ok show ?thesis by (intro that [of n]) auto
qed

text \<open>A part of an equal block is an equal block, at the same offset on both sides.\<close>

lemma equal_part:
  assumes "slice before s (s + n) = slice after d (d + n)" "a \<le> b" "b \<le> n"
  shows "slice before (s + a) (s + b) = slice after (d + a) (d + b)"
  using assms slice_sub [of s b "s + n" before a] slice_sub [of d b "d + n" after a] by simp

lemma opcode_ok_part:
  assumes "slice before s (s + n) = slice after d (d + n)" "a \<le> b" "b \<le> n"
    "s + n \<le> length before" "d + n \<le> length after"
    "op_Tag c = TagEqual" "op_SrcStart c = s + a" "op_SrcEnd c = s + b" "op_DestStart c = d + a" "op_DestEnd c = d + b"
  shows "opcode_ok before after c"
  using assms equal_part [OF assms(1,2,3)] by (simp add: opcode_ok_def)

lemma equal_chain:
  "opcode_chain before after s d bs s' d' \<Longrightarrow> \<not> hasNonEqual bs \<Longrightarrow> slice before s s' = slice after d d'"
proof (induction bs arbitrary: s d)
  case (Cons b bs)
  then have b: "op_SrcStart b = s" "op_DestStart b = d" "opcode_ok before after b" "op_Tag b = TagEqual"
    and rest: "opcode_chain before after (op_SrcEnd b) (op_DestEnd b) bs s' d'" "\<not> hasNonEqual bs"
    by (auto simp: hasNonEqual_def)
  have "s \<le> op_SrcEnd b" "d \<le> op_DestEnd b" "slice before s (op_SrcEnd b) = slice after d (op_DestEnd b)"
    using b by (auto simp: opcode_ok_def)
  with Cons.IH [OF rest] opcode_chain_le [OF rest(1)] show ?case
    by (metis slice_append)
qed simp

text \<open>
  A hunk is well formed when its header is in the printed format, names start lines within
  the bound, and its two counts are those of the body: context and minus lines for the old
  range, context and plus lines for the new one.
\<close>

definition range_count :: "string \<Rightarrow> int" where
  "range_count m = (if m = [] then 1 else int (digits_val m))"

definition hunk_ok :: "nat \<Rightarrow> string \<Rightarrow> string list \<Rightarrow> bool" where
  "hunk_ok N header body \<longleftrightarrow>
     (case hunkHeaderRe header of
        None \<Rightarrow> False
      | Some (m1, m2, m3, m4, m5) \<Rightarrow>
          range_count m2 = count_marks (CHR ''-'') body \<and> range_count m4 = count_marks (CHR ''+'') body
        \<and> (\<exists>a b. m1 = nat_digits a \<and> m3 = nat_digits b \<and> a \<le> N \<and> b \<le> N) \<and> m5 = [])"

definition body_line :: "string \<Rightarrow> bool" where
  "body_line l \<longleftrightarrow> l \<noteq> [] \<and> (hd l = CHR '' '' \<or> hd l = CHR ''-'' \<or> hd l = CHR ''+'')"

inductive hunks_wf :: "nat \<Rightarrow> string list \<Rightarrow> bool" for N where
  hunks_wf_Nil: "hunks_wf N []"
| hunks_wf_Cons: "is_header h \<Longrightarrow> list_all body_line body \<Longrightarrow> hunk_ok N h body \<Longrightarrow> hunks_wf N rest
    \<Longrightarrow> hunks_wf N (h # body @ rest)"

abbreviation bound :: "FileDiff \<Rightarrow> nat" where
  "bound d \<equiv> max (length (fd_BeforeLines d)) (length (fd_AfterLines d))"

lemma count_marks_append [simp]: "count_marks m (xs @ ys) = count_marks m xs + count_marks m ys"
  by (induction xs) simp_all

lemma count_marks_map:
  "count_marks m (map ((#) c) ls) = (if c = CHR '' '' \<or> c = m then int (length ls) else 0)"
  by (induction ls) auto

lemma count_marks_nonneg: "0 \<le> count_marks m ls"
  by (induction ls) auto

lemma code_lines_marks:
  assumes "opcode_ok (fd_BeforeLines d) (fd_AfterLines d) b" "code_lines d b = Some ls"
  shows "list_all body_line ls"
    "count_marks (CHR ''-'') ls = int (op_SrcEnd b) - int (op_SrcStart b)"
    "count_marks (CHR ''+'') ls = int (op_DestEnd b) - int (op_DestStart b)"
proof -
  let ?B = "slice (fd_BeforeLines d) (op_SrcStart b) (op_SrcEnd b)"
    and ?A = "slice (fd_AfterLines d) (op_DestStart b) (op_DestEnd b)"
  have len: "length ?B = op_SrcEnd b - op_SrcStart b" "length ?A = op_DestEnd b - op_DestStart b"
    using assms(1) by (auto simp: opcode_ok_def length_slice)
  have eq: "op_Tag b = TagEqual \<Longrightarrow> ?B = ?A" using assms(1) by (simp add: opcode_ok_def)
  show "list_all body_line ls"
    using assms by (cases "op_Tag b")
      (auto simp: opcode_ok_def code_lines_def marked_def go_slice_def body_line_def list_all_iff)
  show "count_marks (CHR ''-'') ls = int (op_SrcEnd b) - int (op_SrcStart b)"
    "count_marks (CHR ''+'') ls = int (op_DestEnd b) - int (op_DestStart b)"
    using assms len eq by (cases "op_Tag b";
      auto simp: opcode_ok_def code_lines_def marked_def go_slice_def count_marks_map)+
qed

lemma codes_lines_marks:
  assumes "opcode_chain (fd_BeforeLines d) (fd_AfterLines d) s e grp s' e'" "codes_lines d grp = Some ls"
  shows "list_all body_line ls \<and> count_marks (CHR ''-'') ls = int s' - int s
    \<and> count_marks (CHR ''+'') ls = int e' - int e"
  using assms
proof (induction grp arbitrary: s e ls)
  case (Cons b bs)
  then obtain xs ys where "code_lines d b = Some xs" "codes_lines d bs = Some ys" "ls = xs @ ys"
    by (auto simp: bind_eq_Some_conv)
  with Cons code_lines_marks [of d b xs] Cons.IH [of "op_SrcEnd b" "op_DestEnd b" ys] show ?case by auto
qed simp

lemma header_is_header: "is_header (hunk_header grp)"
  by (simp add: is_header_def HasPrefix_def hunk_header_def Let_def)

lemma range_count_format: "0 \<le> b \<Longrightarrow> range_count (if b = 1 then [] else nat_digits (nat b)) = b"
  by (simp add: range_count_def)

lemma hunk_ok_header:
  assumes chain: "opcode_chain (fd_BeforeLines d) (fd_AfterLines d) s e grp s' e'" and "grp \<noteq> []"
    and body: "codes_lines d grp = Some ls"
  shows "hunk_ok (bound d) (hunk_header grp) ls"
proof -
  let ?o = "int s' - int s" and ?n = "int e' - int e"
  note facts = opcode_chain_ends [OF chain assms(2)] opcode_chain_le [OF chain]
    opcode_chain_bounds [OF chain assms(2)] codes_lines_marks [OF chain body]
  have nn: "0 \<le> ?o" "0 \<le> ?n" using facts by auto
  have hdr: "hunk_header grp = ''@@ -'' @ formatHunkRange (int s + boolToInt (?o \<noteq> 0)) ?o @ '' +''
      @ formatHunkRange (int e + boolToInt (?n \<noteq> 0)) ?n @ '' @@''"
    using facts by (simp add: hunk_header_def Let_def)
  have le: "nat (int s + boolToInt (?o \<noteq> 0)) \<le> bound d" "nat (int e + boolToInt (?n \<noteq> 0)) \<le> bound d"
    using facts by (auto simp: boolToInt_def)
  have "hunkHeaderRe (hunk_header grp) = Some (nat_digits (nat (int s + boolToInt (?o \<noteq> 0))),
      if ?o = 1 then [] else nat_digits (nat ?o), nat_digits (nat (int e + boolToInt (?n \<noteq> 0))),
      if ?n = 1 then [] else nat_digits (nat ?n), [])"
    unfolding hdr by (rule hunkHeaderRe_format) (use nn in \<open>auto simp: boolToInt_def\<close>)
  then show ?thesis
    unfolding hunk_ok_def using range_count_format [OF nn(1)] range_count_format [OF nn(2)] facts le
    by (auto simp del: max.bounded_iff le_max_iff_disj)
qed

lemma hunks_lines_Cons:
  assumes chain: "opcode_chain (fd_BeforeLines d) (fd_AfterLines d) s e grp s' e'" and "grp \<noteq> []"
    and pos: "p \<le> s" "q \<le> e" "slice (fd_BeforeLines d) p s = slice (fd_AfterLines d) q e"
    and rest: "hunks_lines d groups = Some ls" "apply_patch (fd_BeforeLines d) s' ls = Some (drop e' (fd_AfterLines d))"
      "hunks_wf (bound d) ls"
  shows "\<exists>ls. hunks_lines d (grp # groups) = Some ls
    \<and> apply_patch (fd_BeforeLines d) p ls = Some (drop q (fd_AfterLines d)) \<and> hunks_wf (bound d) ls"
proof -
  obtain body where body: "codes_lines d grp = Some body"
    "\<And>rest. apply_patch (fd_BeforeLines d) s (body @ rest)
      = emit (slice (fd_AfterLines d) e e') (apply_patch (fd_BeforeLines d) s' rest)"
    using codes_lines_patch [OF chain] by blast
  have "apply_patch (fd_BeforeLines d) p (hunk_header grp # body @ ls) = Some (drop q (fd_AfterLines d))"
    using apply_patch_header [OF chain assms(2) pos(1)] body(2) rest(2) pos(2,3)
      opcode_chain_le [OF chain] by (simp add: slice_drop)
  moreover have "hunks_wf (bound d) (hunk_header grp # body @ ls)"
    using header_is_header codes_lines_marks [OF chain body(1)] hunk_ok_header [OF chain assms(2) body(1)] rest(3)
    by (intro hunks_wf_Cons) auto
  ultimately show ?thesis using body rest assms(2) by simp
qed

lemma group_loop_patch:
  assumes "opcode_chain (fd_BeforeLines d) (fd_AfterLines d) s0 e0 grp s e"
    and "opcode_chain (fd_BeforeLines d) (fd_AfterLines d) s e codes s' e'"
    and "drop s' (fd_BeforeLines d) = drop e' (fd_AfterLines d)"
    and "p \<le> s0" "q \<le> e0" "slice (fd_BeforeLines d) p s0 = slice (fd_AfterLines d) q e0"
  shows "\<exists>ls. hunks_lines d (group_loop ctx grp codes) = Some ls
    \<and> apply_patch (fd_BeforeLines d) p ls = Some (drop q (fd_AfterLines d)) \<and> hunks_wf (bound d) ls"
  using assms
proof (induction codes arbitrary: s0 e0 grp s e p q)
  case Nil
  let ?B = "fd_BeforeLines d" and ?A = "fd_AfterLines d"
  have end_: "drop s ?B = drop e ?A" using Nil by simp
  show ?case
  proof (cases "hasNonEqual grp")
    case True
    then have "grp \<noteq> []" by (auto simp: hasNonEqual_def)
    from hunks_lines_Cons [OF Nil(1) this Nil(4,5,6), of "[]" "[]"] True end_ show ?thesis by (simp add: hunks_wf_Nil)
  next
    case False
    have "slice ?B s0 s = slice ?A e0 e" by (rule equal_chain [OF Nil(1) False])
    then have "drop p ?B = drop q ?A"
      using Nil(4-6) opcode_chain_le [OF Nil(1)] end_ slice_drop [of p s0 ?B] slice_drop [of s0 s ?B]
        slice_drop [of q e0 ?A] slice_drop [of e0 e ?A] by metis
    with False show ?thesis by (simp add: hunks_wf_Nil)
  qed
next
  case (Cons c cs)
  let ?B = "fd_BeforeLines d" and ?A = "fd_AfterLines d"
  have c: "op_SrcStart c = s" "op_DestStart c = e" "opcode_ok ?B ?A c"
    and rest: "opcode_chain ?B ?A (op_SrcEnd c) (op_DestEnd c) cs s' e'" using Cons.prems(2) by auto
  show ?case
  proof (cases "op_Tag c = TagEqual \<and> op_SrcEnd c - op_SrcStart c > ctx * 2")
    case False
    have "opcode_chain ?B ?A s0 e0 (grp @ [c]) (op_SrcEnd c) (op_DestEnd c)"
      using Cons.prems(1) c by (auto simp: opcode_chain_append)
    from Cons.IH [OF this rest Cons.prems(3-6)] False show ?thesis by auto
  next
    case True
    then obtain n where n: "op_SrcEnd c = s + n" "op_DestEnd c = e + n" "slice ?B s (s + n) = slice ?A e (e + n)"
      "s + n \<le> length ?B" "e + n \<le> length ?A"
      using equal_code [OF c(3)] c by metis
    have long: "ctx * 2 < n" using True n c by simp
    let ?c1 = "c\<lparr>op_SrcEnd := op_SrcStart c + ctx, op_DestEnd := op_DestStart c + ctx\<rparr>"
    let ?c2 = "c\<lparr>op_SrcStart := op_SrcEnd c - ctx, op_DestStart := op_DestEnd c - ctx\<rparr>"
    have ok1: "opcode_ok ?B ?A ?c1"
      using True c long by (intro opcode_ok_part [OF n(3), of 0 ctx] n) auto
    have ok2: "opcode_ok ?B ?A ?c2"
      using True c long n(1,2) by (intro opcode_ok_part [OF n(3), of "n - ctx" n] n) auto
    have chain1: "opcode_chain ?B ?A s0 e0 (grp @ [?c1]) (s + ctx) (e + ctx)"
      using Cons.prems(1) ok1 c by (auto simp: opcode_chain_append)
    have chain2: "opcode_chain ?B ?A (s + n - ctx) (e + n - ctx) [?c2] (op_SrcEnd c) (op_DestEnd c)"
      using ok2 n by simp
    have mid: "slice ?B (s + ctx) (s + n - ctx) = slice ?A (e + ctx) (e + n - ctx)"
      using equal_part [OF n(3), of ctx "n - ctx"] long by simp
    have le: "s + ctx \<le> s + n - ctx" "e + ctx \<le> e + n - ctx" using long by simp_all
    obtain ls where "hunks_lines d (group_loop ctx [?c2] cs) = Some ls"
      "apply_patch ?B (s + ctx) ls = Some (drop (e + ctx) ?A)" "hunks_wf (bound d) ls"
      using Cons.IH [OF chain2 rest Cons.prems(3) le mid] by blast
    from hunks_lines_Cons [OF chain1 _ Cons.prems(4-6) this] True show ?thesis by simp
  qed
qed

lemma trim_first_chain:
  assumes "opcode_chain before after s d codes s' d'" "codes \<noteq> []"
  obtains s0 d0 where "opcode_chain before after s0 d0 (trim_first ctx codes) s' d'"
    "s \<le> s0" "d \<le> d0" "slice before s s0 = slice after d d0" "trim_first ctx codes \<noteq> []"
proof -
  obtain c cs where codes: "codes = c # cs" using assms(2) by (cases codes) auto
  have c: "op_SrcStart c = s" "op_DestStart c = d" "opcode_ok before after c" using assms(1) codes by auto
  show ?thesis
  proof (cases "op_Tag c = TagEqual")
    case False
    with assms codes show ?thesis by (intro that [of s d]) (auto simp: trim_first_def)
  next
    case True
    then obtain n where n: "op_SrcEnd c = s + n" "op_DestEnd c = d + n"
      "slice before s (s + n) = slice after d (d + n)" "s + n \<le> length before" "d + n \<le> length after"
      using equal_code [OF c(3)] c by metis
    let ?c = "c\<lparr>op_SrcStart := s + (n - ctx), op_DestStart := d + (n - ctx)\<rparr>"
    have eq: "max s (s + n - ctx) = s + (n - ctx)" "max d (d + n - ctx) = d + (n - ctx)" by auto
    have "opcode_ok before after ?c"
      using True c n(1,2) by (intro opcode_ok_part [OF n(3), of "n - ctx" n] n) auto
    moreover have "slice before s (s + (n - ctx)) = slice after d (d + (n - ctx))"
      using equal_part [OF n(3), of 0 "n - ctx"] by simp
    ultimately show ?thesis
      using assms(1) codes True c n(1,2) eq
      by (intro that [of "s + (n - ctx)" "d + (n - ctx)"]) (auto simp: trim_first_def)
  qed
qed

lemma trim_last_chain:
  assumes "opcode_chain before after s d codes s' d'" "codes \<noteq> []"
  obtains s1 d1 where "opcode_chain before after s d (trim_last ctx codes) s1 d1"
    "s1 \<le> s'" "d1 \<le> d'" "slice before s1 s' = slice after d1 d'"
proof -
  obtain cs c where codes: "codes = cs @ [c]" using assms(2) by (cases codes rule: rev_cases) auto
  obtain a b where cs: "opcode_chain before after s d cs a b" "opcode_chain before after a b [c] s' d'"
    using assms(1) codes by (auto simp: opcode_chain_append)
  have c: "op_SrcStart c = a" "op_DestStart c = b" "opcode_ok before after c" "op_SrcEnd c = s'" "op_DestEnd c = d'"
    using cs by auto
  show ?thesis
  proof (cases "op_Tag c = TagEqual")
    case False
    with assms codes show ?thesis by (intro that [of s' d']) (auto simp: trim_last_def)
  next
    case True
    then obtain n where n: "op_SrcEnd c = a + n" "op_DestEnd c = b + n"
      "slice before a (a + n) = slice after b (b + n)" "a + n \<le> length before" "b + n \<le> length after"
      using equal_code [OF c(3)] c by metis
    let ?k = "min n ctx"
    let ?c = "c\<lparr>op_SrcEnd := a + ?k, op_DestEnd := b + ?k\<rparr>"
    have eq: "min (a + n) (a + ctx) = a + ?k" "min (b + n) (b + ctx) = b + ?k" by auto
    have ok: "opcode_ok before after ?c"
      using True c by (intro opcode_ok_part [OF n(3), of 0 ?k] n) auto
    have "slice before (a + ?k) (a + n) = slice after (b + ?k) (b + n)"
      using equal_part [OF n(3), of ?k n] by simp
    then show ?thesis
      using cs(1) ok codes True c n(1,2) eq
      by (intro that [of "a + ?k" "b + ?k"]) (auto simp: trim_last_def opcode_chain_append)
  qed
qed

lemma count_changes_lines:
  "count_changes (a, d) codes = (a + added_lines codes, d + deleted_lines codes)"
  by (induction codes arbitrary: a d) (simp_all add: Let_def)

lemma no_changes_equal:
  "opcode_chain before after s d bs s' d' \<Longrightarrow> added_lines bs = 0 \<Longrightarrow> deleted_lines bs = 0 \<Longrightarrow> \<not> hasNonEqual bs"
proof (induction bs arbitrary: s d)
  case (Cons b bs)
  then show ?case by (cases "op_Tag b") (auto simp: hasNonEqual_def opcode_ok_def)
qed (simp add: hasNonEqual_def)

lemma FileDiffFromText_ok:
  obtains d where "FileDiffFromText before after = Some d"
    "fd_BeforeLines d = pySplitLines (crlf_to_lf before)" "fd_AfterLines d = pySplitLines (crlf_to_lf after)"
    "opcode_chain (fd_BeforeLines d) (fd_AfterLines d) 0 0 (fd_Opcodes d)
       (length (fd_BeforeLines d)) (length (fd_AfterLines d))"
    "fd_Added d = added_lines (fd_Opcodes d)" "fd_Deleted d = deleted_lines (fd_Opcodes d)"
    "fd_Added d = 0 \<and> fd_Deleted d = 0 \<longleftrightarrow> fd_BeforeLines d = fd_AfterLines d"
proof -
  let ?b = "pySplitLines (crlf_to_lf before)" and ?a = "pySplitLines (crlf_to_lf after)"
  obtain bs where bs: "IndelOpcodes ?b ?a = Some bs" "opcode_chain ?b ?a 0 0 bs (length ?b) (length ?a)"
    "deleted_lines bs + added_lines bs + 2 * lcs ?b ?a = length ?b + length ?a"
    using IndelOpcodes_chain [of ?b ?a] by blast
  have "added_lines bs = 0 \<and> deleted_lines bs = 0" if "?b = ?a"
    using bs(3) lcs_upper [of ?a ?b ?a] that by simp
  moreover have "?b = ?a" if "added_lines bs = 0" "deleted_lines bs = 0"
    using equal_chain [OF bs(2) no_changes_equal [OF bs(2) that]] by (simp add: slice_def)
  ultimately have "added_lines bs = 0 \<and> deleted_lines bs = 0 \<longleftrightarrow> ?b = ?a" by blast
  with bs(1,2) show ?thesis
    by (intro that [of "\<lparr>fd_BeforeLines = ?b, fd_AfterLines = ?a, fd_Opcodes = bs,
          fd_Added = added_lines bs, fd_Deleted = deleted_lines bs\<rparr>"])
       (simp_all add: FileDiffFromText_def Let_def count_changes_lines)
qed

lemma Groups_patch:
  assumes "opcode_chain (fd_BeforeLines d) (fd_AfterLines d) 0 0 (fd_Opcodes d)
       (length (fd_BeforeLines d)) (length (fd_AfterLines d))" "fd_Opcodes d \<noteq> []"
  shows "\<exists>ls. hunks_lines d (Groups d ctx) = Some ls
    \<and> apply_patch (fd_BeforeLines d) 0 ls = Some (fd_AfterLines d) \<and> hunks_wf (bound d) ls"
proof -
  let ?B = "fd_BeforeLines d" and ?A = "fd_AfterLines d"
  obtain s e where first: "opcode_chain ?B ?A s e (trim_first ctx (fd_Opcodes d)) (length ?B) (length ?A)"
    "slice ?B 0 s = slice ?A 0 e" "trim_first ctx (fd_Opcodes d) \<noteq> []"
    using trim_first_chain [OF assms] by blast
  obtain s' e' where last: "opcode_chain ?B ?A s e (trim_last ctx (trim_first ctx (fd_Opcodes d))) s' e'"
    "slice ?B s' (length ?B) = slice ?A e' (length ?A)"
    using trim_last_chain [OF first(1,3)] by blast
  have "drop s' ?B = drop e' ?A" using last(2) by (simp add: slice_def)
  from group_loop_patch [OF _ last(1) this _ _ first(2), of "[]"] assms(2) show ?thesis
    by (simp add: Groups_def)
qed

subsection \<open>Bounding keeps hunks well formed\<close>

lemma hunks_wf_first: "hunks_wf N ls \<Longrightarrow> ls = [] \<or> is_header (hd ls)"
  by (induction rule: hunks_wf.induct) auto

lemma body_line_not_header: "body_line l \<Longrightarrow> \<not> is_header l"
  by (cases l) (auto simp: body_line_def is_header_def HasPrefix_def)

lemma hunk_split:
  assumes "list_all body_line body" "hunks_wf N rest"
  shows "takeWhile (\<lambda>l. \<not> is_header l) (body @ rest) = body"
    "dropWhile (\<lambda>l. \<not> is_header l) (body @ rest) = rest"
proof -
  have "\<forall>l \<in> set body. \<not> is_header l" using assms(1) body_line_not_header by (auto simp: list_all_iff)
  with hunks_wf_first [OF assms(2)] show "takeWhile (\<lambda>l. \<not> is_header l) (body @ rest) = body"
    "dropWhile (\<lambda>l. \<not> is_header l) (body @ rest) = rest"
    by (cases rest; simp add: takeWhile_append2 dropWhile_append2)+
qed

lemma limit_line_marker: "body_line l \<Longrightarrow> body_line (fst (limit_line n l)) \<and> hd (fst (limit_line n l)) = hd l"
  by (cases l) (auto simp: body_line_def limit_line_def)

lemma limit_line_same: "\<not> snd (limit_line n l) \<Longrightarrow> fst (limit_line n l) = l"
  by (cases l) (auto simp: limit_line_def split: if_splits)

lemma limit_chars:
  assumes "limitUnifiedDiffLineChars ls n = (ls', was_cut)"
  shows "length ls' = length ls" "list_all body_line ls \<Longrightarrow> list_all body_line ls'"
    "list_all body_line ls \<Longrightarrow> count_marks m ls' = count_marks m ls" "\<not> was_cut \<Longrightarrow> ls' = ls"
proof -
  have marks: "list_all body_line xs \<Longrightarrow>
      count_marks m (map (fst \<circ> limit_line k) xs) = count_marks m xs" for xs k
    using limit_line_marker by (induction xs) (auto simp: body_line_def)
  show "length ls' = length ls" "list_all body_line ls \<Longrightarrow> list_all body_line ls'"
    "list_all body_line ls \<Longrightarrow> count_marks m ls' = count_marks m ls"
    using assms limit_line_marker marks
    by (auto simp: limitUnifiedDiffLineChars_def list_all_iff split: if_splits)
  show "ls' = ls" if "\<not> was_cut"
  proof (cases "n \<le> 0")
    case True
    with assms show ?thesis by (simp add: limitUnifiedDiffLineChars_def)
  next
    case False
    with assms that have "ls' = map (fst \<circ> limit_line (nat n)) ls" "\<forall>l \<in> set ls. \<not> snd (limit_line (nat n) l)"
      by (auto simp: limitUnifiedDiffLineChars_def list_ex_iff)
    with limit_line_same show ?thesis by (auto intro: map_idI)
  qed
qed

lemma count_marks_le: "count_marks m ls \<le> int (length ls)"
  by (induction ls) auto

lemma rewrite_ok:
  assumes "hunk_ok N header body" "int N < 2 ^ 63"
  shows "hunk_ok N (rewriteHunkHeaderForBody header sel) sel \<and> is_header (rewriteHunkHeaderForBody header sel)"
proof -
  obtain a b m2 m4 where h: "hunkHeaderRe header = Some (nat_digits a, m2, nat_digits b, m4, [])" "a \<le> N" "b \<le> N"
    using assms(1) by (auto simp: hunk_ok_def split: option.splits)
  let ?o = "count_marks (CHR ''-'') sel" and ?n = "count_marks (CHR ''+'') sel"
  have r: "rewriteHunkHeaderForBody header sel
      = ''@@ -'' @ formatHunkRange (int a) ?o @ '' +'' @ formatHunkRange (int b) ?n @ '' @@''"
    using h assms(2) by (simp add: rewriteHunkHeaderForBody_def Atoi_nat_digits)
  have "hunkHeaderRe (rewriteHunkHeaderForBody header sel) = Some (nat_digits a,
      if ?o = 1 then [] else nat_digits (nat ?o), nat_digits b, if ?n = 1 then [] else nat_digits (nat ?n), [])"
    unfolding r using hunkHeaderRe_format [of "int a" ?o "int b" ?n] count_marks_nonneg by simp
  moreover have "is_header (rewriteHunkHeaderForBody header sel)"
    unfolding r by (simp add: is_header_def HasPrefix_def)
  ultimately show ?thesis
    unfolding hunk_ok_def using range_count_format [of ?o] range_count_format [of ?n] count_marks_nonneg h(2,3)
    by auto
qed

lemma hunk_ok_cong:
  "hunk_ok N h body \<Longrightarrow> (\<And>m. count_marks m sel = count_marks m body) \<Longrightarrow> hunk_ok N h sel"
  unfolding hunk_ok_def by (cases "hunkHeaderRe h") auto

lemma limit_loop_hunks:
  assumes "hunks_wf N hs" "int N < 2 ^ 63" "em \<le> bl"
  shows "\<exists>out tr' em'. limit_loop bl cl lim tr em hs = (lim @ out, tr', em')
    \<and> hunks_wf N out \<and> em' \<le> bl \<and> (\<not> tr' \<longrightarrow> out = hs \<and> \<not> tr)"
  using assms(1,3)
proof (induction arbitrary: lim tr em rule: hunks_wf.induct)
  case hunks_wf_Nil
  then show ?case by (auto intro: hunks_wf.intros)
next
  case (hunks_wf_Cons h body rest)
  define sel0 where "sel0 = (if bl - em < length body then take (bl - em) body else body)"
  obtain sel was_cut where sel: "limitUnifiedDiffLineChars sel0 cl = (sel, was_cut)"
    by (cases "limitUnifiedDiffLineChars sel0 cl")
  note lc = limit_chars [OF sel]
  have sel0: "list_all body_line sel0" "length sel0 \<le> bl - em" "length sel0 \<le> length body"
    "length sel0 = length body \<Longrightarrow> sel0 = body"
    using hunks_wf_Cons.hyps(2) by (auto simp: sel0_def list_all_iff dest: in_set_takeD)
  define tr1 where "tr1 \<longleftrightarrow> (if length sel0 < length body then True else tr) \<or> was_cut"
  define hdr where "hdr = (if length sel = length body then h else rewriteHunkHeaderForBody h sel)"
  have hdr: "is_header hdr" "hunk_ok N hdr sel"
    using hunks_wf_Cons.hyps(1) rewrite_ok [OF hunks_wf_Cons.hyps(3) assms(2)]
      hunk_ok_cong [OF hunks_wf_Cons.hyps(3), of sel] lc(1) lc(3) [OF sel0(1)] sel0(4)
    by (auto simp: hdr_def)
  have step: "limit_loop bl cl lim tr em (h # body @ rest) =
      (if bl - em = 0 then (lim, True, em)
       else if tr1 \<and> em + length sel \<ge> bl then (lim @ hdr # sel, tr1, em + length sel)
       else limit_loop bl cl (lim @ hdr # sel) tr1 (em + length sel) rest)"
    using hunks_wf_Cons.hyps(1) hunk_split [OF hunks_wf_Cons.hyps(2,4)] sel
    by (simp add: Let_def sel0_def [symmetric] tr1_def hdr_def)
  have le: "em + length sel \<le> bl" using lc(1) sel0(2) hunks_wf_Cons.prems by simp
  have wf: "hunks_wf N out \<Longrightarrow> hunks_wf N (hdr # sel @ out)" for out
    using hdr lc(2) sel0(1) by (intro hunks_wf.intros) auto
  have same: "hdr # sel = h # body \<and> \<not> tr" if "\<not> tr1"
    using that lc(1,4) sel0(3,4) by (auto simp: tr1_def hdr_def split: if_splits)
  obtain out tr' em' where IH: "limit_loop bl cl (lim @ hdr # sel) tr1 (em + length sel) rest
      = ((lim @ hdr # sel) @ out, tr', em')" "hunks_wf N out" "em' \<le> bl" "\<not> tr' \<longrightarrow> out = rest \<and> \<not> tr1"
    using hunks_wf_Cons.IH [OF le] by blast
  consider "bl - em = 0" | "bl - em \<noteq> 0" "tr1 \<and> em + length sel \<ge> bl" | "bl - em \<noteq> 0" "\<not> (tr1 \<and> em + length sel \<ge> bl)"
    by blast
  then show ?case
  proof cases
    case 1
    then have "limit_loop bl cl lim tr em (h # body @ rest) = (lim @ [], True, em)"
      unfolding step by simp
    with hunks_wf_Cons.prems hunks_wf_Nil show ?thesis by blast
  next
    case 2
    then have "limit_loop bl cl lim tr em (h # body @ rest) = (lim @ hdr # sel, True, em + length sel)"
      unfolding step by simp
    with le wf [OF hunks_wf_Nil] show ?thesis by auto
  next
    case 3
    then have "limit_loop bl cl lim tr em (h # body @ rest) = (lim @ hdr # sel @ out, tr', em')"
      using IH(1) unfolding step by auto
    with IH wf [OF IH(2)] same show ?thesis by auto
  qed
qed


text \<open>
  The payload sent to the client is bounded and well formed: for a diff of two texts, the
  limited lines are the two file labels followed by hunks whose headers carry the counts of
  the bodies that are kept, at most \<^verbatim>\<open>MaxLines\<close> body lines are kept, and when nothing is
  reported as truncated the whole diff is there.
\<close>

theorem diff_payload_wellformed:
  assumes "FileDiffFromText before after = Some d" and "UnifiedLines d fromfile tofile ctx = Some ls"
    and "ls \<noteq> []" and "int (bound d) < 2 ^ 63"
    and "limitUnifiedDiffLines ls maxLines maxLineChars = (limited, truncated, emitted)"
  shows "\<exists>hs. limited = (''--- '' @ fromfile) # (''+++ '' @ tofile) # hs \<and> hunks_wf (bound d) hs
      \<and> int emitted \<le> max 0 maxLines \<and> (\<not> truncated \<longrightarrow> limited = ls)"
proof -
  obtain d' where d': "FileDiffFromText before after = Some d'"
    and chain': "opcode_chain (fd_BeforeLines d') (fd_AfterLines d') 0 0 (fd_Opcodes d')
       (length (fd_BeforeLines d')) (length (fd_AfterLines d'))"
    and empty': "fd_Added d' = 0 \<and> fd_Deleted d' = 0 \<longleftrightarrow> fd_BeforeLines d' = fd_AfterLines d'"
    by (rule FileDiffFromText_ok)
  have eq: "d' = d" using d' assms(1) by simp
  note chain = chain' [unfolded eq] and empty = empty' [unfolded eq]
  have ne: "\<not> (fd_Added d = 0 \<and> fd_Deleted d = 0)" using assms(2,3) by (intro notI) (simp add: UnifiedLines_def)
  with empty chain have "fd_Opcodes d \<noteq> []" by auto
  then obtain hs where hs: "hunks_lines d (Groups d ctx) = Some hs" "hunks_wf (bound d) hs"
    using Groups_patch [OF chain] by blast
  have ls: "ls = (''--- '' @ fromfile) # (''+++ '' @ tofile) # hs"
    using assms(2) ne hs(1) by (auto simp: UnifiedLines_def)
  let ?lim = "[''--- '' @ fromfile, ''+++ '' @ tofile]"
  have labels: "\<not> is_header (''--- '' @ fromfile)" "\<not> is_header (''+++ '' @ tofile)"
    by (simp_all add: is_header_def HasPrefix_def)
  then have "limitUnifiedDiffLines ls maxLines maxLineChars
      = limit_loop (nat (max 0 maxLines)) (max 0 maxLineChars) ?lim False 0 hs"
    by (simp add: ls limitUnifiedDiffLines_def)
  with limit_loop_hunks [OF hs(2) assms(4), of 0 "nat (max 0 maxLines)" "max 0 maxLineChars" ?lim False] assms(5)
  show ?thesis unfolding ls by auto
qed

theorem diff_payload_wellformed_witness:
  "\<exists>d ls limited truncated emitted.
     FileDiffFromText ''a'' ''b'' = Some d \<and> UnifiedLines d ''x'' ''y'' 3 = Some ls
   \<and> limitUnifiedDiffLines ls 1 10 = (limited, truncated, emitted)
   \<and> limited = [''--- x'', ''+++ y'', ''@@ -1,0 +1 @@'', ''+b''] \<and> truncated \<and> emitted = 1
   \<and> (\<exists>hs. limited = (''--- '' @ ''x'') # (''+++ '' @ ''y'') # hs \<and> hunks_wf (bound d) hs
      \<and> int emitted \<le> max 0 1 \<and> (\<not> truncated \<longrightarrow> limited = ls))"
proof -
  let ?d = "\<lparr>fd_BeforeLines = [''a''], fd_AfterLines = [''b''], fd_Opcodes =
     [\<lparr>op_Tag = TagInsert, op_SrcStart = 0, op_SrcEnd = 0, op_DestStart = 0, op_DestEnd = 1\<rparr>,
      \<lparr>op_Tag = TagDelete, op_SrcStart = 0, op_SrcEnd = 1, op_DestStart = 1, op_DestEnd = 1\<rparr>],
     fd_Added = 1, fd_Deleted = 1\<rparr>"
  let ?ls = "[''--- x'', ''+++ y'', ''@@ -1 +1 @@'', ''+b'', ''-a'']"
  let ?lim = "[''--- x'', ''+++ y'', ''@@ -1,0 +1 @@'', ''+b'']"
  have d: "FileDiffFromText ''a'' ''b'' = Some ?d" by code_simp
  have ls: "UnifiedLines ?d ''x'' ''y'' 3 = Some ?ls" by code_simp
  have lim: "limitUnifiedDiffLines ?ls 1 10 = (?lim, True, 1)" by code_simp
  show ?thesis
    using d ls lim diff_payload_wellformed [OF d ls _ _ lim] by auto
qed

end
