(* ===== verification/Cron_Schedule.thy ===== *)
theory Cron_Schedule
  imports Go_Strings "HOL-Library.While_Combinator"
begin

text \<open>
  Schedules of \<^verbatim>\<open>internal/cron/schedule.go\<close> and the data of \<^verbatim>\<open>internal/cron/types.go\<close>: parsing of
  the five-field cron expression, validation of a schedule, and the next instant a schedule
  names.

  An instant is its \<^verbatim>\<open>UnixMilli\<close>. The time zone database is not part of the repository: a
  \<open>location\<close> gives the civil fields of an instant and calendar addition, and \<open>zones\<close> the
  locations \<^verbatim>\<open>time.LoadLocation\<close> knows; both are parameters. Errors are values of a datatype
  where the code formats a message. Machine integers wrap where the code's arithmetic can
  leave 64 bits.
\<close>

section \<open>Data\<close>

record Schedule =
  sch_Kind :: string
  sch_AtMS :: "int option"
  sch_EveryMS :: "int option"
  sch_Expr :: string
  sch_TZ :: string

definition KindAt :: string where "KindAt = ''at''"
definition KindEvery :: string where "KindEvery = ''every''"
definition KindCron :: string where "KindCron = ''cron''"

record location =
  loc_year :: "int \<Rightarrow> int"
  loc_month :: "int \<Rightarrow> int"
  loc_day :: "int \<Rightarrow> int"
  loc_hour :: "int \<Rightarrow> int"
  loc_minute :: "int \<Rightarrow> int"
  loc_weekday :: "int \<Rightarrow> int"
  loc_addYears :: "int \<Rightarrow> int \<Rightarrow> int"

record zones =
  tz_local :: location
  tz_utc :: location
  tz_load :: "string \<Rightarrow> location option"

datatype field_error =
    EmptyItem | BadStep string | BadRange string | DescendingRange string
  | OutsideRange string int int | NoValues

datatype schedule_error =
    TZNotCron | AtRequired | EveryRequired | ExprRequired | UnsupportedKind string
  | FieldCount | UnknownTimezone string | FieldError string field_error | NoOccurrence

text \<open>\<open>fm_set\<close> is the key set of the map.\<close>

record fieldMatcher =
  fm_any :: bool
  fm_set :: "int set"

record cronSpec =
  cs_minute :: fieldMatcher
  cs_hour :: fieldMatcher
  cs_day :: fieldMatcher
  cs_month :: fieldMatcher
  cs_weekday :: fieldMatcher
  cs_dayAny :: bool
  cs_weekdayAny :: bool
  cs_loc :: location

definition monthNames :: "(string \<times> int) list" where
  "monthNames = [(''JAN'', 1), (''FEB'', 2), (''MAR'', 3), (''APR'', 4), (''MAY'', 5), (''JUN'', 6),
     (''JUL'', 7), (''AUG'', 8), (''SEP'', 9), (''OCT'', 10), (''NOV'', 11), (''DEC'', 12)]"

definition weekdayNames :: "(string \<times> int) list" where
  "weekdayNames = [(''SUN'', 0), (''MON'', 1), (''TUE'', 2), (''WED'', 3), (''THU'', 4), (''FRI'', 5), (''SAT'', 6)]"

section \<open>Parsing a field\<close>

text \<open>
  \<^verbatim>\<open>strings.ToUpper\<close> as far as a comparison with ASCII text can see: besides the ASCII letters
  only U+0131 and U+017F have an ASCII upper case; every other rune stays outside ASCII.
\<close>

fun ToUpper :: "string \<Rightarrow> string" where
  "ToUpper (c # d # s) =
     (if c = CHR 0xC4 \<and> d = CHR 0xB1 then CHR ''I'' # ToUpper s
      else if c = CHR 0xC5 \<and> d = CHR 0xBF then CHR ''S'' # ToUpper s
      else ascii_upper c # ToUpper (d # s))"
| "ToUpper [c] = [ascii_upper c]"
| "ToUpper [] = []"

definition splitStep :: "string \<Rightarrow> field_error + string \<times> int" where
  "splitStep item =
     (let parts = Split item (CHR ''/'') in
      if length parts > 2 then Inl (BadStep item)
      else if length parts = 2 then
        (case Atoi (parts ! 1) of
           None \<Rightarrow> Inl (BadStep (parts ! 1))
         | Some n \<Rightarrow> if n \<le> 0 then Inl (BadStep (parts ! 1)) else Inr (parts ! 0, n))
      else Inr (parts ! 0, 1))"

definition parseFieldValue :: "string \<Rightarrow> int \<Rightarrow> int \<Rightarrow> (string \<times> int) list option \<Rightarrow> field_error + int" where
  "parseFieldValue raw mn mx names =
     (case Option.bind names (\<lambda>ns. map_of ns (ToUpper raw)) of
        Some v \<Rightarrow> Inr v
      | None \<Rightarrow>
          (case Atoi raw of
             None \<Rightarrow> Inl (OutsideRange raw mn mx)
           | Some v \<Rightarrow> if v < mn \<or> v > mx then Inl (OutsideRange raw mn mx) else Inr v))"

text \<open>The range \<open>(start, end)\<close> an item's base selects.\<close>

definition item_range ::
  "string \<Rightarrow> string \<Rightarrow> int \<Rightarrow> int \<Rightarrow> (string \<times> int) list option \<Rightarrow> field_error + int \<times> int" where
  "item_range item base mn mx names =
     (if base = ''*'' then Inr (mn, mx)
      else if Contains base ''-'' then
        (let pair = Split base (CHR ''-'') in
         if length pair \<noteq> 2 then Inl (BadRange base)
         else case parseFieldValue (pair ! 0) mn mx names of
                Inl e \<Rightarrow> Inl e
              | Inr start \<Rightarrow>
                  (case parseFieldValue (pair ! 1) mn mx names of
                     Inl e \<Rightarrow> Inl e
                   | Inr stop \<Rightarrow> if start > stop then Inl (DescendingRange base) else Inr (start, stop)))
      else case parseFieldValue base mn mx names of
             Inl e \<Rightarrow> Inl e
           | Inr start \<Rightarrow> Inr (start, if Contains item ''/'' then mx else start))"

text \<open>\<^verbatim>\<open>for v := start; v <= end; v += step\<close>: the addition wraps at 64 bits.\<close>

definition step_body :: "int \<Rightarrow> bool \<Rightarrow> int \<times> int set \<Rightarrow> int \<times> int set" where
  "step_body step normalizeSunday =
     (\<lambda>(v, acc). (i64 (v + step), insert (if normalizeSunday \<and> v = 7 then 0 else v) acc))"

definition step_loop :: "int \<Rightarrow> int \<Rightarrow> int \<Rightarrow> bool \<Rightarrow> int set \<Rightarrow> int set" where
  "step_loop start stop step normalizeSunday acc =
     snd (while (\<lambda>(v, acc). v \<le> stop) (step_body step normalizeSunday) (start, acc))"

fun field_items ::
  "int \<Rightarrow> int \<Rightarrow> (string \<times> int) list option \<Rightarrow> bool \<Rightarrow> int set \<Rightarrow> string list \<Rightarrow> field_error + int set" where
  "field_items mn mx names sun acc [] = Inr acc"
| "field_items mn mx names sun acc (item # items) =
     (if item = [] then Inl EmptyItem
      else case splitStep item of
             Inl e \<Rightarrow> Inl e
           | Inr (base, step) \<Rightarrow>
               (case item_range item base mn mx names of
                  Inl e \<Rightarrow> Inl e
                | Inr (start, stop) \<Rightarrow>
                    field_items mn mx names sun (step_loop start stop step sun acc) items))"

definition parseField ::
  "string \<Rightarrow> int \<Rightarrow> int \<Rightarrow> (string \<times> int) list option \<Rightarrow> bool \<Rightarrow> field_error + fieldMatcher" where
  "parseField raw mn mx names normalizeSunday =
     (let raw = ToUpper (TrimSpace raw) in
      if raw = ''*'' then Inr \<lparr>fm_any = True, fm_set = {}\<rparr>
      else case field_items mn mx names normalizeSunday {} (Split raw (CHR '','')) of
             Inl e \<Rightarrow> Inl e
           | Inr s \<Rightarrow> if s = {} then Inl NoValues else Inr \<lparr>fm_any = False, fm_set = s\<rparr>)"

section \<open>The cron expression\<close>

definition named :: "string \<Rightarrow> field_error + 'a \<Rightarrow> schedule_error + 'a" where
  "named f r = (case r of Inl e \<Rightarrow> Inl (FieldError f e) | Inr x \<Rightarrow> Inr x)"

definition bind_sum :: "'e + 'a \<Rightarrow> ('a \<Rightarrow> 'e + 'b) \<Rightarrow> 'e + 'b" where
  "bind_sum r f = (case r of Inl e \<Rightarrow> Inl e | Inr x \<Rightarrow> f x)"

lemma bind_sum_Inr: "bind_sum r f = Inr y \<longleftrightarrow> (\<exists>x. r = Inr x \<and> f x = Inr y)"
  by (cases r) (simp_all add: bind_sum_def)

definition load_zone :: "zones \<Rightarrow> string \<Rightarrow> schedule_error + location" where
  "load_zone z tz =
     (if TrimSpace tz = [] then Inr (tz_local z)
      else case tz_load z tz of None \<Rightarrow> Inl (UnknownTimezone tz) | Some l \<Rightarrow> Inr l)"

definition parseCron :: "zones \<Rightarrow> string \<Rightarrow> string \<Rightarrow> schedule_error + cronSpec" where
  "parseCron z expr tz =
     (let parts = Fields expr in
      if length parts \<noteq> 5 then Inl FieldCount
      else
        bind_sum (load_zone z tz) (\<lambda>loc.
        bind_sum (named ''minute'' (parseField (parts ! 0) 0 59 None False)) (\<lambda>minute.
        bind_sum (named ''hour'' (parseField (parts ! 1) 0 23 None False)) (\<lambda>hour.
        bind_sum (named ''day'' (parseField (parts ! 2) 1 31 None False)) (\<lambda>day.
        bind_sum (named ''month'' (parseField (parts ! 3) 1 12 (Some monthNames) False)) (\<lambda>month.
        bind_sum (named ''weekday'' (parseField (parts ! 4) 0 7 (Some weekdayNames) True)) (\<lambda>weekday.
        Inr \<lparr>cs_minute = minute, cs_hour = hour, cs_day = day, cs_month = month, cs_weekday = weekday,
             cs_dayAny = (parts ! 2 = ''*''), cs_weekdayAny = (parts ! 4 = ''*''), cs_loc = loc\<rparr>)))))))"

definition fm_match :: "fieldMatcher \<Rightarrow> int \<Rightarrow> bool" where
  "fm_match m v \<longleftrightarrow> (if fm_any m then True else v \<in> fm_set m)"

definition matches :: "cronSpec \<Rightarrow> int \<Rightarrow> bool" where
  "matches s t =
     (let l = cs_loc s in
      if \<not> fm_match (cs_minute s) (loc_minute l t) \<or> \<not> fm_match (cs_hour s) (loc_hour l t)
         \<or> \<not> fm_match (cs_month s) (loc_month l t) then False
      else
        let dom = fm_match (cs_day s) (loc_day l t);
            dow = fm_match (cs_weekday s) (loc_weekday l t)
        in if cs_dayAny s \<and> cs_weekdayAny s then True
           else if cs_dayAny s then dow
           else if cs_weekdayAny s then dom
           else dom \<or> dow)"

section \<open>The next instant\<close>

definition minute_ms :: int where
  "minute_ms = 60000"

text \<open>\<^verbatim>\<open>Truncate(time.Minute)\<close> counts from a multiple of a minute, so it rounds the Unix time.\<close>

definition truncate_minute :: "int \<Rightarrow> int" where
  "truncate_minute t = t - t mod minute_ms"

function next_loop :: "cronSpec \<Rightarrow> int \<Rightarrow> int \<Rightarrow> int option" where
  "next_loop s limit cur =
     (if cur < limit then (if matches s cur then Some cur else next_loop s limit (cur + minute_ms)) else None)"
  by pat_completeness auto
termination
  by (relation "measure (\<lambda>(s, limit, cur). nat (limit - cur))") (auto simp: minute_ms_def)

declare next_loop.simps [simp del]

definition cron_next :: "cronSpec \<Rightarrow> int \<Rightarrow> int option" where
  "cron_next s after =
     (let cur = truncate_minute after + minute_ms; limit = loc_addYears (cs_loc s) 5 cur
      in next_loop s limit cur)"

definition ValidateSchedule :: "zones \<Rightarrow> Schedule \<Rightarrow> schedule_error option" where
  "ValidateSchedule z s =
     (if sch_Kind s = KindAt then
        (if sch_TZ s \<noteq> [] then Some TZNotCron
         else case sch_AtMS s of
                None \<Rightarrow> Some AtRequired
              | Some t \<Rightarrow> if t \<le> 0 then Some AtRequired else None)
      else if sch_Kind s = KindEvery then
        (if sch_TZ s \<noteq> [] then Some TZNotCron
         else case sch_EveryMS s of
                None \<Rightarrow> Some EveryRequired
              | Some t \<Rightarrow> if t \<le> 0 then Some EveryRequired else None)
      else if sch_Kind s = KindCron then
        (if TrimSpace (sch_Expr s) = [] then Some ExprRequired
         else case parseCron z (sch_Expr s) (sch_TZ s) of Inl e \<Rightarrow> Some e | Inr _ \<Rightarrow> None)
      else Some (UnsupportedKind (sch_Kind s)))"

text \<open>The result is nil, an instant, or an error.\<close>

definition NextRun :: "zones \<Rightarrow> Schedule \<Rightarrow> int \<Rightarrow> schedule_error + int option" where
  "NextRun z s after =
     (case ValidateSchedule z s of
        Some e \<Rightarrow> Inl e
      | None \<Rightarrow>
          if sch_Kind s = KindAt then
            (if the (sch_AtMS s) \<le> after then Inr None else Inr (sch_AtMS s))
          else if sch_Kind s = KindEvery then
            Inr (Some (i64 (after + the (sch_EveryMS s))))
          else if sch_Kind s = KindCron then
            (case parseCron z (sch_Expr s) (sch_TZ s) of
               Inl e \<Rightarrow> Inl e
             | Inr spec \<Rightarrow>
                 (case cron_next spec after of
                    None \<Rightarrow> Inl NoOccurrence
                  | Some t \<Rightarrow> Inr (Some t)))
          else Inr None)"

section \<open>The step loop\<close>

abbreviation in_steps :: "int \<Rightarrow> int \<times> int set \<Rightarrow> bool" where
  "in_steps stop \<equiv> \<lambda>(v, acc). v \<le> stop"

lemma step_while_unfold:
  "while (in_steps stop) (step_body step sun) (v, acc) =
     (if v \<le> stop then while (in_steps stop) (step_body step sun)
          (i64 (v + step), insert (if sun \<and> v = 7 then 0 else v) acc)
      else (v, acc))"
  by (subst while_unfold) (simp add: step_body_def)

text \<open>Without overflow the loop collects the multiples of the step from the start on.\<close>

lemma step_loop_values:
  assumes "0 < step" "stop + step < 2 ^ 63" "- (2 ^ 63) \<le> start"
  shows "step_loop start stop step sun acc =
    acc \<union> {if sun \<and> u = 7 then 0 else u | u. start \<le> u \<and> u \<le> stop \<and> step dvd u - start}"
  using assms(3)
proof (induction "nat (stop + 1 - start)" arbitrary: start acc rule: less_induct)
  case less
  let ?f = "\<lambda>u. if sun \<and> u = 7 then 0 else u"
  show ?case
  proof (cases "start \<le> stop")
    case False
    then show ?thesis by (auto simp: step_loop_def step_while_unfold)
  next
    case True
    have i: "i64 (start + step) = start + step" using True assms(1,2) less.prems by (intro i64_id) auto
    have unfold1: "step_loop start stop step sun acc = step_loop (start + step) stop step sun (insert (?f start) acc)"
      using True i by (simp add: step_loop_def step_while_unfold [of stop step sun start])
    have set_eq: "{u. start \<le> u \<and> u \<le> stop \<and> step dvd u - start}
        = insert start {u. start + step \<le> u \<and> u \<le> stop \<and> step dvd u - (start + step)}"
    proof -
      have "step dvd u - (start + step) \<longleftrightarrow> step dvd u - start" for u
        by (metis add.commute diff_diff_eq dvd_diff_commute dvd_minus_iff minus_diff_eq dvd_add_right_iff dvd_refl diff_add_cancel)
      moreover have "u = start \<or> start + step \<le> u" if "start \<le> u" "step dvd u - start" for u
        using zdvd_imp_le [of step "u - start"] that by fastforce
      ultimately show ?thesis using True assms(1) by auto
    qed
    have IH: "step_loop (start + step) stop step sun (insert (?f start) acc)
        = insert (?f start) acc \<union> {?f u | u. start + step \<le> u \<and> u \<le> stop \<and> step dvd u - (start + step)}"
      by (rule less.hyps) (use True assms(1) less.prems in auto)
    have "{?f u | u. start \<le> u \<and> u \<le> stop \<and> step dvd u - start}
        = insert (?f start) {?f u | u. start + step \<le> u \<and> u \<le> stop \<and> step dvd u - (start + step)}"
      using set_eq by (auto simp: set_eq_iff)
    with unfold1 IH show ?thesis by auto
  qed
qed

text \<open>The loop ends for every step the parser accepts, overflow included.\<close>

definition loop_ends :: "int \<Rightarrow> int \<Rightarrow> bool \<Rightarrow> int \<Rightarrow> bool" where
  "loop_ends stop step sun v \<longleftrightarrow> (\<forall>acc. \<exists>r. while_option (in_steps stop) (step_body step sun) (v, acc) = Some r)"

lemma loop_ends_exit: "stop < v \<Longrightarrow> loop_ends stop step sun v"
  unfolding loop_ends_def by (subst while_option_unfold) simp

lemma loop_ends_step: "loop_ends stop step sun (i64 (v + step)) \<Longrightarrow> loop_ends stop step sun v"
  unfolding loop_ends_def
  by (subst while_option_unfold) (simp add: step_body_def)

lemma loop_ends_small:
  assumes "0 < step" "stop + step < 2 ^ 63"
  shows "- (2 ^ 63) \<le> v \<Longrightarrow> loop_ends stop step sun v"
proof (induction "nat (stop + 1 - v)" arbitrary: v rule: less_induct)
  case less
  show ?case
  proof (cases "v \<le> stop")
    case True
    have "i64 (v + step) = v + step" using True assms less.prems by (intro i64_id) auto
    moreover have "loop_ends stop step sun (v + step)" using less True assms(1) by auto
    ultimately show ?thesis using loop_ends_step by metis
  qed (simp add: loop_ends_exit)
qed

lemma i64_wrap: "2 ^ 63 \<le> x \<Longrightarrow> x < 2 ^ 64 \<Longrightarrow> i64 x = x - 2 ^ 64"
proof -
  assume "2 ^ 63 \<le> x" "x < 2 ^ 64"
  then have "(x + 2 ^ 63) mod 2 ^ 64 = x + 2 ^ 63 - 2 ^ 64"
    by (subst mod_pos_geq) (auto intro!: mod_pos_pos_trivial)
  then show ?thesis by (simp add: i64_def)
qed

lemma loop_ends_big:
  assumes "0 \<le> stop" "stop < 64" "2 ^ 63 - 64 < step" "step < 2 ^ 63"
  shows "0 \<le> v \<Longrightarrow> loop_ends stop step sun v"
proof (induction "nat v" arbitrary: v rule: less_induct)
  case less
  consider "stop < v" | "v \<le> stop" "v + step < 2 ^ 63" | "v \<le> stop" "2 ^ 63 \<le> v + step" by linarith
  then show ?case
  proof cases
    case 1
    then show ?thesis by (rule loop_ends_exit)
  next
    case 2
    then have "i64 (v + step) = v + step" using less.prems assms by (intro i64_id) auto
    moreover have "loop_ends stop step sun (v + step)"
      by (rule loop_ends_exit) (use less.prems assms in auto)
    ultimately show ?thesis using loop_ends_step by metis
  next
    case 3
    let ?w = "v + step - 2 ^ 64" and ?u = "v + 2 * step - 2 ^ 64"
    have w: "i64 (v + step) = ?w" by (rule i64_wrap) (use 3 assms in auto)
    have u: "i64 (?w + step) = ?u" using 3 assms less.prems by (subst i64_id) auto
    have "loop_ends stop step sun ?u"
    proof (cases "0 \<le> ?u")
      case True
      then show ?thesis using assms by (intro less.hyps) auto
    next
      case False
      have "i64 (?u + step) = ?u + step" using False assms less.prems by (intro i64_id) auto
      moreover have "loop_ends stop step sun (?u + step)"
        by (rule loop_ends_exit) (use less.prems assms in auto)
      ultimately show ?thesis using loop_ends_step by metis
    qed
    then show ?thesis using loop_ends_step w u by metis
  qed
qed

lemma step_loop_terminates:
  assumes "0 \<le> start" "0 \<le> stop" "stop < 64" "0 < step" "step < 2 ^ 63"
  shows "loop_ends stop step sun start"
proof (cases "stop + step < 2 ^ 63")
  case True
  then show ?thesis using assms by (intro loop_ends_small) auto
next
  case False
  then show ?thesis using assms by (intro loop_ends_big) auto
qed

section \<open>What a field means\<close>

text \<open>The values one list item selects, read from the text of the item.\<close>

definition item_selects ::
  "int \<Rightarrow> int \<Rightarrow> (string \<times> int) list option \<Rightarrow> bool \<Rightarrow> string \<Rightarrow> int \<Rightarrow> bool" where
  "item_selects mn mx names sun item v \<longleftrightarrow>
     (\<exists>base step start stop u. splitStep item = Inr (base, step) \<and> item_range item base mn mx names = Inr (start, stop)
        \<and> start \<le> u \<and> u \<le> stop \<and> step dvd u - start \<and> v = (if sun \<and> u = 7 then 0 else u))"

text \<open>A step so large that the loop variable would leave 64 bits.\<close>

definition step_fits :: "int \<Rightarrow> string \<Rightarrow> bool" where
  "step_fits mx item \<longleftrightarrow> (case splitStep item of Inl _ \<Rightarrow> True | Inr (_, step) \<Rightarrow> mx + step < 2 ^ 63)"

definition names_ok :: "int \<Rightarrow> int \<Rightarrow> (string \<times> int) list option \<Rightarrow> bool" where
  "names_ok mn mx names \<longleftrightarrow> (\<forall>ns. names = Some ns \<longrightarrow> (\<forall>(n, v) \<in> set ns. mn \<le> v \<and> v \<le> mx))"

lemma parseFieldValue_range:
  "parseFieldValue raw mn mx names = Inr v \<Longrightarrow> names_ok mn mx names \<Longrightarrow> mn \<le> v \<and> v \<le> mx"
  by (auto simp: parseFieldValue_def names_ok_def bind_eq_Some_conv split: option.splits if_splits
           dest!: map_of_SomeD)

lemma item_range_bounds:
  assumes "item_range item base mn mx names = Inr (start, stop)" "names_ok mn mx names" "mn \<le> mx"
  shows "mn \<le> start \<and> start \<le> stop \<and> stop \<le> mx"
  using assms parseFieldValue_range [OF _ assms(2)]
  by (auto simp: item_range_def Let_def split: if_splits sum.splits)

lemma splitStep_pos: "splitStep item = Inr (base, step) \<Longrightarrow> 0 < step \<and> step < 2 ^ 63"
proof -
  have "Atoi s = Some n \<Longrightarrow> n < 2 ^ 63" for s n
    by (auto simp: Atoi_def Let_def split: if_splits)
  then show "splitStep item = Inr (base, step) \<Longrightarrow> 0 < step \<and> step < 2 ^ 63"
    by (auto simp: splitStep_def Let_def split: if_splits option.splits)
qed

lemma field_items_selects:
  assumes "field_items mn mx names sun acc items = Inr s" "names_ok mn mx names" "0 \<le> mn" "mn \<le> mx"
    and "\<forall>item \<in> set items. step_fits mx item"
  shows "s = acc \<union> {v. \<exists>item \<in> set items. item_selects mn mx names sun item v}"
  using assms(1,5)
proof (induction items arbitrary: acc)
  case Nil
  then show ?case by simp
next
  case (Cons item items)
  obtain base step start stop where item: "splitStep item = Inr (base, step)"
    "item_range item base mn mx names = Inr (start, stop)"
    and rest: "field_items mn mx names sun (step_loop start stop step sun acc) items = Inr s"
    using Cons.prems(1) by (auto split: if_splits sum.splits)
  have bounds: "mn \<le> start" "start \<le> stop" "stop \<le> mx"
    using item_range_bounds [OF item(2) assms(2,4)] by auto
  have "stop + step < 2 ^ 63"
    using Cons.prems(2) item(1) bounds by (auto simp: step_fits_def)
  then have loop: "step_loop start stop step sun acc =
      acc \<union> {if sun \<and> u = 7 then 0 else u | u. start \<le> u \<and> u \<le> stop \<and> step dvd u - start}"
    using splitStep_pos [OF item(1)] bounds assms(3) by (intro step_loop_values) auto
  have sel: "item_selects mn mx names sun item v \<longleftrightarrow>
      (\<exists>u. v = (if sun \<and> u = 7 then 0 else u) \<and> start \<le> u \<and> u \<le> stop \<and> step dvd u - start)" for v
    using item by (auto simp: item_selects_def)
  have "s = step_loop start stop step sun acc \<union> {v. \<exists>item \<in> set items. item_selects mn mx names sun item v}"
    using Cons.IH [OF rest] Cons.prems(2) by simp
  then show ?case unfolding loop by (auto simp: sel)
qed

lemma item_selects_range:
  assumes "item_selects mn mx names sun item v" "names_ok mn mx names" "0 \<le> mn" "mn \<le> mx"
  shows "(mn \<le> v \<and> v \<le> mx \<and> (sun \<longrightarrow> v \<noteq> 7)) \<or> (sun \<and> v = 0)"
  using assms item_range_bounds [OF _ assms(2,4)]
  by (fastforce simp: item_selects_def split: if_splits)

section \<open>The search for the next instant\<close>

lemma aligned_from:
  "minute_ms dvd u - cur \<Longrightarrow> cur \<le> u \<Longrightarrow> u = cur \<or> (cur + minute_ms \<le> u \<and> minute_ms dvd u - (cur + minute_ms))"
proof -
  assume a: "minute_ms dvd u - cur" "cur \<le> u"
  then obtain k where k: "u - cur = minute_ms * k" by (elim dvdE)
  with a(2) have "0 \<le> k" by (simp add: minute_ms_def zero_le_mult_iff)
  moreover have "u - (cur + minute_ms) = minute_ms * (k - 1)" using k by (simp add: algebra_simps)
  ultimately have "u = cur \<or> cur + minute_ms \<le> u" using k by (cases "k = 0") (auto simp: minute_ms_def)
  moreover have "minute_ms dvd u - (cur + minute_ms)"
    using \<open>u - (cur + minute_ms) = minute_ms * (k - 1)\<close> by simp
  ultimately show ?thesis by blast
qed

lemma next_loop_Some:
  "next_loop s limit cur = Some t \<Longrightarrow>
   cur \<le> t \<and> t < limit \<and> minute_ms dvd t - cur \<and> matches s t
   \<and> (\<forall>u. cur \<le> u \<longrightarrow> u < t \<longrightarrow> minute_ms dvd u - cur \<longrightarrow> \<not> matches s u)"
proof (induction s limit cur rule: next_loop.induct)
  case (1 s limit cur)
  show ?case
  proof (cases "cur < limit \<and> matches s cur")
    case True
    with 1(2) show ?thesis by (subst (asm) next_loop.simps) auto
  next
    case False
    then have step: "cur < limit" "\<not> matches s cur" "next_loop s limit (cur + minute_ms) = Some t"
      using 1(2) by (subst (asm) next_loop.simps, simp split: if_splits)+
    have IH: "cur + minute_ms \<le> t" "t < limit" "minute_ms dvd t - (cur + minute_ms)" "matches s t"
      and least: "\<And>u. cur + minute_ms \<le> u \<Longrightarrow> u < t \<Longrightarrow> minute_ms dvd u - (cur + minute_ms) \<Longrightarrow> \<not> matches s u"
      using 1(1) [OF step] by blast+
    have "minute_ms dvd t - cur" using dvd_add [OF IH(3) dvd_refl] by simp
    moreover have "\<not> matches s u" if "cur \<le> u" "u < t" "minute_ms dvd u - cur" for u
      using aligned_from [OF that(3,1)] least [of u] that(2) step(2) by auto
    moreover have "cur \<le> t" using IH(1) by (simp add: minute_ms_def)
    ultimately show ?thesis using IH by blast
  qed
qed

lemma next_loop_None:
  "next_loop s limit cur = None \<Longrightarrow>
   (\<forall>u. cur \<le> u \<longrightarrow> u < limit \<longrightarrow> minute_ms dvd u - cur \<longrightarrow> \<not> matches s u)"
proof (induction s limit cur rule: next_loop.induct)
  case (1 s limit cur)
  show ?case
  proof (cases "cur < limit")
    case True
    then have step: "\<not> matches s cur" "next_loop s limit (cur + minute_ms) = None"
      using 1(2) by (subst (asm) next_loop.simps, simp split: if_splits)+
    show ?thesis using 1(1) [OF True step] aligned_from step(1) by blast
  qed auto
qed

lemma truncate_minute_bounds:
  "minute_ms dvd truncate_minute t" "truncate_minute t \<le> t" "t < truncate_minute t + minute_ms"
  by (simp_all add: truncate_minute_def minute_ms_def minus_mod_eq_mult_div)

lemma aligned_after:
  assumes "minute_ms dvd u"
  shows "after < u \<longleftrightarrow> truncate_minute after + minute_ms \<le> u" "minute_ms dvd u - (truncate_minute after + minute_ms)"
proof -
  obtain a b where a: "truncate_minute after = minute_ms * a" and b: "u = minute_ms * b"
    using truncate_minute_bounds(1) [of after] assms by (elim dvdE) auto
  show "after < u \<longleftrightarrow> truncate_minute after + minute_ms \<le> u"
  proof
    assume "after < u"
    then have "minute_ms * a < minute_ms * b" using truncate_minute_bounds(2) [of after] a b by simp
    then have "a + 1 \<le> b" by (simp add: minute_ms_def)
    then show "truncate_minute after + minute_ms \<le> u" using a b by (simp add: minute_ms_def)
  next
    assume "truncate_minute after + minute_ms \<le> u"
    then show "after < u" using truncate_minute_bounds(3) [of after] by simp
  qed
  show "minute_ms dvd u - (truncate_minute after + minute_ms)"
    unfolding a b by simp
qed

lemma cron_next_after: "cron_next s after = Some t \<Longrightarrow> after < t"
  using next_loop_Some [of s _ "truncate_minute after + minute_ms" t] truncate_minute_bounds(3) [of after]
  by (fastforce simp: cron_next_def Let_def)

section \<open>Fixed-offset zones\<close>

text \<open>
  The proleptic Gregorian calendar for a zone at a constant offset (UTC for offset 0), the
  concrete instance of a location: day number to civil date and back, and \<^verbatim>\<open>AddDate\<close> by years,
  which normalises 29 February in a common year to 1 March.
\<close>

definition civil_of_days :: "int \<Rightarrow> int \<times> int \<times> int" where
  "civil_of_days z =
     (let z = z + 719468; era = z div 146097; doe = z mod 146097;
          yoe = (doe - doe div 1460 + doe div 36524 - doe div 146096) div 365;
          doy = doe - (365 * yoe + yoe div 4 - yoe div 100);
          mp = (5 * doy + 2) div 153;
          d = doy - (153 * mp + 2) div 5 + 1;
          m = (if mp < 10 then mp + 3 else mp - 9)
      in (yoe + era * 400 + (if m \<le> 2 then 1 else 0), m, d))"

definition days_of_civil :: "int \<Rightarrow> int \<Rightarrow> int \<Rightarrow> int" where
  "days_of_civil y m d =
     (let y = (if m \<le> 2 then y - 1 else y); era = y div 400; yoe = y mod 400;
          doy = (153 * (if m > 2 then m - 3 else m + 9) + 2) div 5 + d - 1;
          doe = yoe * 365 + yoe div 4 - yoe div 100 + doy
      in era * 146097 + doe - 719468)"

definition day_ms :: int where
  "day_ms = 86400000"

definition fixed_zone :: "int \<Rightarrow> location" where
  "fixed_zone off =
     \<lparr>loc_year = (\<lambda>t. fst (civil_of_days ((t + off) div day_ms))),
      loc_month = (\<lambda>t. fst (snd (civil_of_days ((t + off) div day_ms)))),
      loc_day = (\<lambda>t. snd (snd (civil_of_days ((t + off) div day_ms)))),
      loc_hour = (\<lambda>t. (t + off) mod day_ms div 3600000),
      loc_minute = (\<lambda>t. (t + off) mod 3600000 div minute_ms),
      loc_weekday = (\<lambda>t. ((t + off) div day_ms + 4) mod 7),
      loc_addYears = (\<lambda>n t. let (y, m, d) = civil_of_days ((t + off) div day_ms)
                            in (days_of_civil (y + n) m 1 + d - 1) * day_ms + (t + off) mod day_ms - off)\<rparr>"

definition utc_zones :: zones where
  "utc_zones = \<lparr>tz_local = fixed_zone 0, tz_utc = fixed_zone 0,
     tz_load = (\<lambda>n. if n = ''UTC'' then Some (fixed_zone 0) else None)\<rparr>"

section \<open>Properties\<close>

text \<open>
  C10. \<^verbatim>\<open>next\<close> returns the first matching minute: the result is a whole minute strictly after the
  given instant, it matches the expression, and no whole minute between the two does; no
  result means no minute of the search horizon (five calendar years) matches.
\<close>

theorem cron_next_least:
  fixes s :: cronSpec and after :: int
  shows "case cron_next s after of
     Some t \<Rightarrow> after < t \<and> minute_ms dvd t \<and> matches s t
       \<and> (\<forall>u. after < u \<longrightarrow> u < t \<longrightarrow> minute_ms dvd u \<longrightarrow> \<not> matches s u)
   | None \<Rightarrow> \<forall>u. after < u \<longrightarrow> u < loc_addYears (cs_loc s) 5 (truncate_minute after + minute_ms)
       \<longrightarrow> minute_ms dvd u \<longrightarrow> \<not> matches s u"
proof (cases "cron_next s after")
  case None
  then show ?thesis
    using next_loop_None [of s _ "truncate_minute after + minute_ms"] aligned_after [of _ after]
    by (auto simp: cron_next_def Let_def)
next
  case (Some t)
  let ?cur = "truncate_minute after + minute_ms"
  have found: "minute_ms dvd t - ?cur" "matches s t"
    and least: "\<And>u. ?cur \<le> u \<Longrightarrow> u < t \<Longrightarrow> minute_ms dvd u - ?cur \<Longrightarrow> \<not> matches s u"
    using Some next_loop_Some [of s _ ?cur t] by (auto simp: cron_next_def Let_def)
  have "minute_ms dvd t"
    using dvd_add [OF found(1), of ?cur] truncate_minute_bounds(1) [of after] by simp
  moreover have "\<not> matches s u" if "after < u" "u < t" "minute_ms dvd u" for u
    using least [of u] aligned_after [OF that(3), of after] that by simp
  ultimately show ?thesis using Some found(2) cron_next_after [OF Some] by auto
qed

theorem cron_next_least_witness:
  "\<exists>s. parseCron utc_zones ''*/5 * * * *'' ''UTC'' = Inr s \<and> cron_next s 61000 = Some 300000
     \<and> (\<forall>u. 61000 < u \<longrightarrow> u < 300000 \<longrightarrow> minute_ms dvd u \<longrightarrow> \<not> matches s u)"
proof -
  have "case parseCron utc_zones ''*/5 * * * *'' ''UTC'' of Inl _ \<Rightarrow> False
      | Inr s \<Rightarrow> cron_next s 61000 = Some 300000"
    by code_simp
  then obtain s where "parseCron utc_zones ''*/5 * * * *'' ''UTC'' = Inr s" "cron_next s 61000 = Some 300000"
    by (cases "parseCron utc_zones ''*/5 * * * *'' ''UTC''") auto
  with cron_next_least [where s = s and after = 61000] show ?thesis by auto
qed

text \<open>
  C11. An accepted field means what its text says: unless it is a lone star, it matches exactly the
  values its comma-separated items select (each a start, an end and a step), all of them
  within the field's bounds, provided no step is so large that the loop variable overflows.
\<close>

theorem parseField_meaning:
  assumes "parseField raw mn mx names sun = Inr m" and "names_ok mn mx names" and "0 \<le> mn" and "mn \<le> mx"
    and "\<forall>item \<in> set (Split (ToUpper (TrimSpace raw)) (CHR '','')). step_fits mx item"
  shows "(\<forall>v. fm_match m v \<longleftrightarrow> ToUpper (TrimSpace raw) = ''*''
      \<or> (\<exists>item \<in> set (Split (ToUpper (TrimSpace raw)) (CHR '','')). item_selects mn mx names sun item v))
    \<and> (ToUpper (TrimSpace raw) \<noteq> ''*'' \<longrightarrow>
       fm_set m \<noteq> {} \<and> (\<forall>v \<in> fm_set m. (mn \<le> v \<and> v \<le> mx) \<or> (sun \<and> v = 0)))"
proof -
  let ?items = "Split (ToUpper (TrimSpace raw)) (CHR '','')"
  have m: "(ToUpper (TrimSpace raw) = ''*'' \<and> m = \<lparr>fm_any = True, fm_set = {}\<rparr>)
    \<or> (ToUpper (TrimSpace raw) \<noteq> ''*'' \<and> \<not> fm_any m \<and> fm_set m \<noteq> {}
       \<and> fm_set m = {v. \<exists>item \<in> set ?items. item_selects mn mx names sun item v})"
    using assms(1) field_items_selects [OF _ assms(2-5), of sun "{}"]
    by (auto simp: parseField_def Let_def split: if_splits sum.splits)
  have range: "(mn \<le> v \<and> v \<le> mx) \<or> (sun \<and> v = 0)" if "item_selects mn mx names sun item v" for item v
    using item_selects_range [OF that assms(2-4)] by blast
  show ?thesis
  proof (intro conjI allI impI ballI)
    show "fm_match m v \<longleftrightarrow> ToUpper (TrimSpace raw) = ''*''
        \<or> (\<exists>item \<in> set ?items. item_selects mn mx names sun item v)" for v
      using m by (auto simp: fm_match_def)
    show "fm_set m \<noteq> {}" if "ToUpper (TrimSpace raw) \<noteq> ''*''" using m that by blast
    show "(mn \<le> v \<and> v \<le> mx) \<or> (sun \<and> v = 0)" if "ToUpper (TrimSpace raw) \<noteq> ''*''" "v \<in> fm_set m" for v
      using m that range by blast
  qed
qed

theorem parseField_meaning_witness:
  "\<exists>m. parseField ''mon-fri/2,7'' 0 7 (Some weekdayNames) True = Inr m \<and> fm_set m = {0, 1, 3, 5}
     \<and> (\<forall>v \<in> fm_set m. (0 \<le> v \<and> v \<le> 7) \<or> (True \<and> v = 0))"
proof -
  let ?raw = "''mon-fri/2,7''" and ?m = "\<lparr>fm_any = False, fm_set = {0, 1, 3, 5 :: int}\<rparr>"
  have parse: "parseField ?raw 0 7 (Some weekdayNames) True = Inr ?m" by code_simp
  have names: "names_ok 0 7 (Some weekdayNames)" by (simp add: names_ok_def weekdayNames_def)
  have fits: "\<forall>item \<in> set (Split (ToUpper (TrimSpace ?raw)) (CHR '','')). step_fits 7 item" by code_simp
  have "ToUpper (TrimSpace ?raw) \<noteq> ''*''" by code_simp
  with parse parseField_meaning [OF parse names _ _ fits] show ?thesis by auto
qed

text \<open>
  The step loop of a field ends for every step the parser accepts, although a step near the
  64-bit maximum makes the loop variable wrap around.
\<close>

theorem field_step_loop_ends:
  assumes "splitStep item = Inr (base, step)" and "item_range item base mn mx names = Inr (start, stop)"
    and "names_ok mn mx names" and "0 \<le> mn" and "mn \<le> mx" and "mx < 64"
  shows "\<exists>r. while_option (\<lambda>(v, acc). v \<le> stop) (step_body step sun) (start, acc) = Some r"
  using step_loop_terminates [of start stop step sun] splitStep_pos [OF assms(1)]
    item_range_bounds [OF assms(2,3,5)] assms(4,6)
  unfolding loop_ends_def by auto

theorem field_step_loop_ends_witness:
  "splitStep ''5/9223372036854775807'' = Inr (''5'', 9223372036854775807)
   \<and> (\<exists>r. while_option (\<lambda>(v, acc). v \<le> 59) (step_body 9223372036854775807 False) (5, {}) = Some r)"
proof -
  have s: "splitStep ''5/9223372036854775807'' = Inr (''5'', 9223372036854775807)"
    and r: "item_range ''5/9223372036854775807'' ''5'' 0 59 None = Inr (5, 59)" by code_simp+
  from s field_step_loop_ends [OF s r, of False "{}"] show ?thesis by (simp add: names_ok_def)
qed

text \<open>
  The wrap-around is visible: the minute field \<^verbatim>\<open>5/9223372036854775807\<close>, which names only
  minute 5, is accepted and also matches the minutes 3 and 1.
\<close>

theorem field_step_overflow:
  "\<exists>m. parseField ''5/9223372036854775807'' 0 59 None False = Inr m
     \<and> fm_match m 5 \<and> fm_match m 3 \<and> fm_match m 1
     \<and> \<not> item_selects 0 59 None False ''5/9223372036854775807'' 3"
proof -
  let ?raw = "''5/9223372036854775807''"
  have "case parseField ?raw 0 59 None False of Inl _ \<Rightarrow> False
      | Inr m \<Rightarrow> fm_match m 5 \<and> fm_match m 3 \<and> fm_match m 1" by code_simp
  then obtain m where "parseField ?raw 0 59 None False = Inr m" "fm_match m 5" "fm_match m 3" "fm_match m 1"
    by (cases "parseField ?raw 0 59 None False") auto
  moreover have s: "splitStep ?raw = Inr (''5'', 9223372036854775807)"
    and r: "item_range ?raw ''5'' 0 59 None = Inr (5, 59)" by code_simp+
  then have "\<not> item_selects 0 59 None False ?raw 3" by (auto simp: item_selects_def)
  ultimately show ?thesis by blast
qed

end
