(* ===== verification/Cron_Service.thy ===== *)
theory Cron_Service
  imports Cron_Schedule
begin

text \<open>
  The scheduler of \<^verbatim>\<open>internal/cron/service.go\<close> and its data from \<^verbatim>\<open>types.go\<close>. Every method that
  holds the service mutex is one function from the state to a result and the new state; what
  the environment decides is an argument: the clock (\<open>now\<close>), whether a write of the store
  reaches the disk (\<open>io\<close>), a fresh random id, the lease, the executor's outcome. Methods that
  release the mutex in between (\<^verbatim>\<open>Start\<close>, \<^verbatim>\<open>Close\<close>, \<^verbatim>\<open>execute\<close>) are split at that point.

  Jobs are values here, so the copies the code makes with \<^verbatim>\<open>cloneJob\<close> are implicit; nil and
  empty metadata maps are one value, as they are for every use in the code. A cancel function
  is a token; \<open>svc_cancelled\<close> holds the tokens that were cancelled. \<^verbatim>\<open>LastError\<close> keeps the error
  whose text the code stores.
\<close>

section \<open>Data\<close>

definition PayloadAgentTurn :: string where "PayloadAgentTurn = ''agent_turn''"
definition PayloadSystemEvent :: string where "PayloadSystemEvent = ''system_event''"
definition StatusRunning :: string where "StatusRunning = ''running''"
definition StatusOK :: string where "StatusOK = ''ok''"
definition StatusError :: string where "StatusError = ''error''"
definition StatusSkipped :: string where "StatusSkipped = ''skipped''"
definition MisfireFireOnce :: string where "MisfireFireOnce = ''fire_once''"
definition MisfireSkip :: string where "MisfireSkip = ''skip''"

datatype cron_error =
    ErrNotFound | ErrProtected | ErrUnbound | ErrActive | ErrLeaseHeld | ErrShutDown
  | NameRequired | MessageRequired | InvalidMisfirePolicy string | NegativeGrace | NegativeTimeout
  | DuplicateID string | SystemPayloadRequired | SystemIDRequired | NameEmpty | MessageEmpty
  | ConcurrencyLimit | JobDisabled | SystemEventRequired | UnsupportedPayload string | NotRunning
  | ExecutorInUse | NoExecutor | MissedOneShot | SaveFailed | PersistPrevious | ReadFailed
  | CorruptStore bool | ScheduleError schedule_error | ExecutorError string | WaitError ctx_err
  | RunIDRequired | InvalidRunRecord | RunIdentityMismatch

record Payload =
  pl_Kind :: string
  pl_Message :: string
  pl_SystemEvent :: string
  pl_SessionKey :: string
  pl_OriginChannel :: string
  pl_OriginChatID :: string
  pl_OriginMetadata :: "(string \<times> json) list"

record RunRecord =
  rr_RunAtMS :: int
  rr_ScheduledForMS :: int
  rr_Status :: string
  rr_DurationMS :: int
  rr_Error :: string
  rr_RunID :: string
  rr_IdempotencyKey :: string

record State =
  st_NextRunAtMS :: "int option"
  st_LastRunAtMS :: "int option"
  st_LastScheduledForMS :: "int option"
  st_LastStatus :: string
  st_LastError :: "cron_error option"
  st_LastIdempotencyKey :: string
  st_RunHistory :: "RunRecord list"
  st_Pending :: bool

record Job =
  job_ID :: string
  job_Name :: string
  job_Enabled :: bool
  job_Schedule :: Schedule
  job_Payload :: Payload
  job_State :: State
  job_CreatedAtMS :: int
  job_UpdatedAtMS :: int
  job_DeleteAfterRun :: bool
  job_TimeoutMS :: int
  job_MisfirePolicy :: string
  job_MisfireGraceMS :: int
  job_ScheduledForMS :: int
  job_IdempotencyKey :: string

record Store =
  store_Version :: int
  store_Jobs :: "Job list"

record RunResult =
  res_RunID :: string
  res_Response :: string

record Update =
  up_Name :: "string option"
  up_Enabled :: "bool option"
  up_Schedule :: "Schedule option"
  up_Message :: "string option"
  up_DeleteAfterRun :: "bool option"
  up_TimeoutMS :: "int option"
  up_MisfirePolicy :: "string option"
  up_MisfireGraceMS :: "int option"

text \<open>What is at the store path: a corrupt file decodes partially before the error is seen.\<close>

datatype store_file = NoFile | Unreadable | Corrupt Store | Stored Store

text \<open>The JSON document of one run.\<close>

record run_doc =
  doc_run_id :: string
  doc_job_id :: string
  doc_job_name :: string
  doc_session_key :: string
  doc_status :: string
  doc_created_at_ms :: int
  doc_scheduled_for_ms :: int
  doc_duration_ms :: int
  doc_error :: string
  doc_response :: string
  doc_idempotency_key :: string

datatype run_file = BadRunFile | UnparsableRunFile | RunFile run_doc

record Service =
  svc_version :: int
  svc_jobs :: "Job list"
  svc_active :: "string \<rightharpoonup> nat"
  svc_nextToken :: nat
  svc_cancelled :: "nat set"
  svc_ctxDone :: bool
  svc_wake :: bool
  svc_wg :: nat
  svc_running :: bool
  svc_loaded :: bool
  svc_dirty :: bool
  svc_closed :: bool
  svc_maxSleep :: int
  svc_maxConcurrent :: int
  svc_lease :: bool
  svc_hasExecutor :: bool
  svc_disk :: store_file
  svc_runs :: "string \<rightharpoonup> run_file"

definition maxRunHistory :: nat where "maxRunHistory = 20"
definition defaultMaxConcurrent :: int where "defaultMaxConcurrent = 2"
definition second_ns :: int where "second_ns = 1000000000"
definition millisecond_ns :: int where "millisecond_ns = 1000000"
definition defaultJobTimeout :: int where "defaultJobTimeout = 10 * 60 * second_ns"

definition NewService :: "bool \<Rightarrow> store_file \<Rightarrow> (string \<rightharpoonup> run_file) \<Rightarrow> Service" where
  "NewService executor disk runs =
     \<lparr>svc_version = 2, svc_jobs = [], svc_active = Map.empty, svc_nextToken = 0, svc_cancelled = {},
      svc_ctxDone = False, svc_wake = False, svc_wg = 0, svc_running = False, svc_loaded = False,
      svc_dirty = False, svc_closed = False, svc_maxSleep = 5 * 60 * second_ns,
      svc_maxConcurrent = defaultMaxConcurrent, svc_lease = False, svc_hasExecutor = executor,
      svc_disk = disk, svc_runs = runs\<rparr>"

section \<open>Small helpers\<close>

definition signal :: "Service \<Rightarrow> Service" where
  "signal s = s\<lparr>svc_wake := True\<rparr>"

definition active_count :: "Service \<Rightarrow> nat" where
  "active_count s = card (dom (svc_active s))"

definition SetExecutor :: "bool \<Rightarrow> Service \<Rightarrow> cron_error option \<times> Service" where
  "SetExecutor executor s =
     (if active_count s \<noteq> 0 then (Some ExecutorInUse, s) else (None, s\<lparr>svc_hasExecutor := executor\<rparr>))"

definition SetMaxConcurrent :: "int \<Rightarrow> Service \<Rightarrow> Service" where
  "SetMaxConcurrent n s = signal (s\<lparr>svc_maxConcurrent := (if n < 1 then 1 else n)\<rparr>)"

definition MaxConcurrent :: "Service \<Rightarrow> int" where
  "MaxConcurrent s = svc_maxConcurrent s"

definition ActiveCount :: "Service \<Rightarrow> nat" where
  "ActiveCount s = active_count s"

definition Running :: "Service \<Rightarrow> bool" where
  "Running s = svc_running s"

definition indexLocked :: "string \<Rightarrow> Service \<Rightarrow> nat option" where
  "indexLocked jid s = find_index (\<lambda>j. job_ID j = jid) (svc_jobs s)"

definition idempotencyKey :: "string \<Rightarrow> int \<Rightarrow> string" where
  "idempotencyKey jobID scheduledForMS = jobID @ '':'' @ Itoa scheduledForMS"

text \<open>Each rune that is not a plain ASCII name character becomes one underscore.\<close>

definition safe_rune :: "nat \<Rightarrow> bool" where
  "safe_rune r \<longleftrightarrow> (97 \<le> r \<and> r \<le> 122) \<or> (65 \<le> r \<and> r \<le> 90) \<or> (48 \<le> r \<and> r \<le> 57) \<or> r = 45 \<or> r = 95"

definition safeRunName :: "string \<Rightarrow> string" where
  "safeRunName name = map (\<lambda>r. if safe_rune r then char_of r else CHR ''_'') (runes name)"

definition validateBoundJob :: "Job \<Rightarrow> cron_error option" where
  "validateBoundJob job =
     (let p = job_Payload job in
      if pl_Kind p = PayloadSystemEvent then
        (if TrimSpace (pl_SystemEvent p) = [] then Some SystemEventRequired else None)
      else if pl_Kind p \<noteq> PayloadAgentTurn then Some (UnsupportedPayload (pl_Kind p))
      else if TrimSpace (pl_SessionKey p) = [] \<or> TrimSpace (pl_OriginChannel p) = []
              \<or> TrimSpace (pl_OriginChatID p) = [] then Some ErrUnbound
      else None)"

definition normalizeJobPolicy :: "Job \<Rightarrow> Job" where
  "normalizeJobPolicy job =
     (let job = (if job_MisfirePolicy job = [] then job\<lparr>job_MisfirePolicy := MisfireFireOnce\<rparr> else job)
      in if job_TimeoutMS job < 0 then job\<lparr>job_TimeoutMS := 0\<rparr> else job)"

definition shouldFireMisfire :: "Job \<Rightarrow> int \<Rightarrow> bool" where
  "shouldFireMisfire job now =
     (let policy = (if job_MisfirePolicy job = [] then MisfireFireOnce else job_MisfirePolicy job) in
      if policy \<noteq> MisfireFireOnce then False
      else case st_NextRunAtMS (job_State job) of
             None \<Rightarrow> False
           | Some next \<Rightarrow>
               if job_MisfireGraceMS job \<le> 0 then True
               else i64 (now - next) \<le> job_MisfireGraceMS job)"

section \<open>The store\<close>

text \<open>Fields tagged \<^verbatim>\<open>json:"-"\<close> are not written.\<close>

definition persist_job :: "Job \<Rightarrow> Job" where
  "persist_job job =
     job\<lparr>job_State := (job_State job)\<lparr>st_Pending := False\<rparr>, job_ScheduledForMS := 0, job_IdempotencyKey := []\<rparr>"

definition persisted :: "Service \<Rightarrow> Store" where
  "persisted s = \<lparr>store_Version = svc_version s, store_Jobs = map persist_job (svc_jobs s)\<rparr>"

text \<open>The temporary file replaces the store by a rename, so a failed write leaves the old store.\<close>

definition saveLocked :: "bool \<Rightarrow> Service \<Rightarrow> cron_error option \<times> Service" where
  "saveLocked io s =
     (if io then (None, s\<lparr>svc_disk := Stored (persisted s), svc_dirty := False\<rparr>)
      else (Some SaveFailed, s\<lparr>svc_dirty := True\<rparr>))"

definition loadLocked :: "bool \<Rightarrow> Service \<Rightarrow> cron_error option \<times> Service" where
  "loadLocked rename_ok s =
     (case svc_disk s of
        NoFile \<Rightarrow> (None, s\<lparr>svc_version := 2, svc_jobs := []\<rparr>)
      | Unreadable \<Rightarrow> (Some ReadFailed, s\<lparr>svc_version := 2, svc_jobs := []\<rparr>)
      | Corrupt part \<Rightarrow>
          (let s = s\<lparr>svc_version := store_Version part, svc_jobs := store_Jobs part\<rparr> in
           if rename_ok then (Some (CorruptStore True), s\<lparr>svc_disk := NoFile\<rparr>)
           else (Some (CorruptStore False), s))
      | Stored st \<Rightarrow>
          (None, s\<lparr>svc_version := (if store_Version st < 2 then 2 else store_Version st),
                   svc_jobs := map normalizeJobPolicy (store_Jobs st)\<rparr>))"

definition Load :: "bool \<Rightarrow> Service \<Rightarrow> cron_error option \<times> Service" where
  "Load rename_ok s =
     (if svc_loaded s then (None, s)
      else case loadLocked rename_ok s of
             (Some e, s') \<Rightarrow> (Some e, s')
           | (None, s') \<Rightarrow> (None, s'\<lparr>svc_loaded := True\<rparr>))"

section \<open>Start and close\<close>

definition disable_with :: "string \<Rightarrow> cron_error \<Rightarrow> Job \<Rightarrow> Job" where
  "disable_with status err job =
     job\<lparr>job_Enabled := False,
         job_State := (job_State job)\<lparr>st_NextRunAtMS := None, st_LastStatus := status, st_LastError := Some err\<rparr>\<rparr>"

definition set_next :: "int option \<Rightarrow> Job \<Rightarrow> Job" where
  "set_next n job = job\<lparr>job_State := (job_State job)\<lparr>st_NextRunAtMS := n\<rparr>\<rparr>"

definition schedule_next :: "zones \<Rightarrow> int \<Rightarrow> Job \<Rightarrow> Job" where
  "schedule_next z now job =
     (case NextRun z (job_Schedule job) now of
        Inl e \<Rightarrow> disable_with StatusError (ScheduleError e) job
      | Inr next \<Rightarrow> set_next next job)"

definition prepareJobOnStartLocked :: "zones \<Rightarrow> int \<Rightarrow> Job \<Rightarrow> Job" where
  "prepareJobOnStartLocked z now job =
     (if \<not> job_Enabled job then set_next None job
      else
        let job = normalizeJobPolicy job in
        case validateBoundJob job of
          Some e \<Rightarrow> disable_with StatusError e job
        | None \<Rightarrow>
            (case st_NextRunAtMS (job_State job) of
               Some next \<Rightarrow>
                 if next > now then job
                 else if shouldFireMisfire job now then job
                 else if sch_Kind (job_Schedule job) = KindAt
                 then disable_with StatusSkipped MissedOneShot job
                 else schedule_next z now job
             | None \<Rightarrow> schedule_next z now job))"

text \<open>The two critical sections of \<^verbatim>\<open>Start\<close>, with the acquisition of the process lease in between.\<close>

definition Start_load :: "bool \<Rightarrow> Service \<Rightarrow> cron_error option \<times> Service" where
  "Start_load rename_ok s = (if svc_running s then (None, s) else Load rename_ok s)"

definition Start_run :: "zones \<Rightarrow> int \<Rightarrow> bool \<Rightarrow> Service \<Rightarrow> cron_error option \<times> Service" where
  "Start_run z now io s =
     (if svc_running s then (None, s)
      else
        let s = s\<lparr>svc_lease := True, svc_jobs := map (prepareJobOnStartLocked z now) (svc_jobs s)\<rparr> in
        case saveLocked io s of
          (Some e, s) \<Rightarrow> (Some e, s\<lparr>svc_lease := False\<rparr>)
        | (None, s) \<Rightarrow> (None, signal (s\<lparr>svc_running := True, svc_closed := False, svc_wg := Suc (svc_wg s)\<rparr>)))"

definition Start :: "zones \<Rightarrow> bool \<Rightarrow> bool \<Rightarrow> int \<Rightarrow> bool \<Rightarrow> Service \<Rightarrow> cron_error option \<times> Service" where
  "Start z rename_ok lease_ok now io s =
     (if svc_running s then (None, s)
      else case Start_load rename_ok s of
             (Some e, s) \<Rightarrow> (Some e, s)
           | (None, s) \<Rightarrow> if lease_ok then Start_run z now io s else (Some ErrLeaseHeld, s))"

definition Close_begin :: "Service \<Rightarrow> Service" where
  "Close_begin s = signal (s\<lparr>svc_closed := True, svc_ctxDone := True\<rparr>)"

text \<open>The end of \<^verbatim>\<open>Close\<close>: the wait group has drained, or the caller's context ended first.\<close>

definition Close_end :: "ctx_err option \<Rightarrow> Service \<Rightarrow> (cron_error option \<times> Service) option" where
  "Close_end ctx s =
     (case ctx of
        Some e \<Rightarrow> Some (Some (WaitError e), s)
      | None \<Rightarrow> if svc_wg s = 0 then Some (None, s\<lparr>svc_lease := False, svc_running := False\<rparr>) else None)"

section \<open>The loop\<close>

fun earliest_due :: "Service \<Rightarrow> int \<Rightarrow> Job list \<Rightarrow> int" where
  "earliest_due s earliest [] = earliest"
| "earliest_due s earliest (job # jobs) =
     (case st_NextRunAtMS (job_State job) of
        None \<Rightarrow> earliest_due s earliest jobs
      | Some next \<Rightarrow>
          if \<not> job_Enabled job \<or> svc_active s (job_ID job) \<noteq> None then earliest_due s earliest jobs
          else earliest_due s (if earliest = 0 \<or> next < earliest then next else earliest) jobs)"

text \<open>Durations are nanoseconds in 64 bits.\<close>

definition nextDelay :: "int \<Rightarrow> Service \<Rightarrow> int" where
  "nextDelay now s =
     (if svc_dirty s then second_ns
      else if int (active_count s) \<ge> svc_maxConcurrent s then second_ns
      else
        let earliest = earliest_due s 0 (svc_jobs s) in
        if earliest = 0 then svc_maxSleep s
        else
          let d = i64 (i64 (earliest - now) * millisecond_ns) in
          if d < 0 then 0 else if d > svc_maxSleep s then svc_maxSleep s else d)"

definition due :: "int \<Rightarrow> Service \<Rightarrow> Job \<Rightarrow> bool" where
  "due now s job \<longleftrightarrow>
     job_Enabled job
   \<and> (case st_NextRunAtMS (job_State job) of None \<Rightarrow> False | Some next \<Rightarrow> next \<le> now)
   \<and> svc_active s (job_ID job) = None"

definition candidates :: "int \<Rightarrow> Service \<Rightarrow> (nat \<times> int) list" where
  "candidates now s =
     [(i, the (st_NextRunAtMS (job_State (svc_jobs s ! i)))). i \<leftarrow> [0..<length (svc_jobs s)], due now s (svc_jobs s ! i)]"

text \<open>One iteration of the launch loop: register the run and take the snapshot to execute.\<close>

definition launch_one :: "nat \<times> int \<Rightarrow> Service \<Rightarrow> (nat \<times> Job) \<times> Service" where
  "launch_one c s =
     (let (idx, at) = c; job = svc_jobs s ! idx; tok = svc_nextToken s;
          job = job\<lparr>job_State := (job_State job)\<lparr>st_Pending := True\<rparr>\<rparr>;
          snapshot = job\<lparr>job_ScheduledForMS := at, job_IdempotencyKey := idempotencyKey (job_ID job) at\<rparr>
      in ((tok, snapshot),
          s\<lparr>svc_active := (svc_active s)(job_ID job \<mapsto> tok), svc_nextToken := Suc tok,
            svc_jobs := (svc_jobs s)[idx := job], svc_wg := Suc (svc_wg s)\<rparr>))"

fun launch_all :: "(nat \<times> int) list \<Rightarrow> Service \<Rightarrow> (nat \<times> Job) list \<times> Service" where
  "launch_all [] s = ([], s)"
| "launch_all (c # cs) s =
     (let (l, s) = launch_one c s; (ls, s) = launch_all cs s in (l # ls, s))"

definition dispatchDue :: "int \<Rightarrow> bool \<Rightarrow> Service \<Rightarrow> (nat \<times> Job) list \<times> Service" where
  "dispatchDue now io s =
     (if svc_closed s then ([], s)
      else
        let (err, s) = (if svc_dirty s then saveLocked io s else (None, s)) in
        if err \<noteq> None then ([], s)
        else
          let cs = SliceStable (\<lambda>a b. snd a < snd b) (candidates now s);
              capacity = max 0 (svc_maxConcurrent s - int (active_count s));
              cs = (if int (length cs) > capacity then take (nat capacity) cs else cs)
          in launch_all cs s)"

text \<open>The goroutine of \<^verbatim>\<open>loop\<close> ends when the context is done.\<close>

definition loop_exit :: "Service \<Rightarrow> Service option" where
  "loop_exit s = (if svc_ctxDone s \<and> svc_wg s > 0 then Some (s\<lparr>svc_wg := svc_wg s - 1\<rparr>) else None)"

section \<open>Execution\<close>

text \<open>The wall-clock minute of an instant, \<^verbatim>\<open>2006-01-02T15:04\<close>, in the schedule's zone.\<close>

datatype wall_minute = Wall int int int int int

definition cronWallKey :: "zones \<Rightarrow> Schedule \<Rightarrow> int \<Rightarrow> wall_minute" where
  "cronWallKey z schedule t =
     (let l = (case tz_load z (sch_TZ schedule) of Some l \<Rightarrow> l | None \<Rightarrow> tz_utc z)
      in Wall (loc_year l t) (loc_month l t) (loc_day l t) (loc_hour l t) (loc_minute l t))"

text \<open>The loop that skips a repeated wall-clock minute; \<open>None\<close> means it does not return.\<close>

partial_function (option) skip_repeated ::
  "zones \<Rightarrow> Schedule \<Rightarrow> wall_minute \<Rightarrow> int \<Rightarrow> (schedule_error + int option) option" where
  "skip_repeated z schedule key next =
     (if cronWallKey z schedule next = key then
        (if isl (NextRun z schedule next) then Some (Inl (projl (NextRun z schedule next)))
         else if projr (NextRun z schedule next) = None then Some (Inr None)
         else skip_repeated z schedule key (the (projr (NextRun z schedule next))))
      else Some (Inr (Some next)))"

declare skip_repeated.simps [code]

definition nextRecurringAfter :: "zones \<Rightarrow> Schedule \<Rightarrow> int \<Rightarrow> int \<Rightarrow> (schedule_error + int option) option" where
  "nextRecurringAfter z schedule after previousScheduledMS =
     (case (sch_Kind schedule = KindEvery, sch_EveryMS schedule) of
        (True, Some every) \<Rightarrow>
          (let next = i64 (previousScheduledMS + every) in
           if next \<le> after then
             (let missed = i64 (i64 (after - next) sdiv every + 1)
              in Some (Inr (Some (i64 (next + i64 (missed * every))))))
           else Some (Inr (Some next)))
      | _ \<Rightarrow>
          (case NextRun z schedule after of
             Inl e \<Rightarrow> Some (Inl e)
           | Inr None \<Rightarrow> Some (Inr None)
           | Inr (Some t) \<Rightarrow>
               if sch_Kind schedule \<noteq> KindCron \<or> previousScheduledMS = 0 then Some (Inr (Some t))
               else skip_repeated z schedule (cronWallKey z schedule previousScheduledMS) t))"

definition execute_snapshot :: "int \<Rightarrow> Job \<Rightarrow> Job" where
  "execute_snapshot start snapshot =
     (let snapshot = (if job_ScheduledForMS snapshot = 0 then snapshot\<lparr>job_ScheduledForMS := start\<rparr> else snapshot)
      in if job_IdempotencyKey snapshot = []
         then snapshot\<lparr>job_IdempotencyKey := idempotencyKey (job_ID snapshot) (job_ScheduledForMS snapshot)\<rparr>
         else snapshot)"

definition execute_timeout :: "Job \<Rightarrow> int" where
  "execute_timeout snapshot =
     (if job_TimeoutMS snapshot > 0 then i64 (job_TimeoutMS snapshot * millisecond_ns) else defaultJobTimeout)"

text \<open>What the executor returned: no error, a \<^verbatim>\<open>SkippedError\<close>, or another error, with its text.\<close>

datatype exec_outcome = ExecOK | ExecSkipped string | ExecFailed string

definition exec_status :: "exec_outcome \<Rightarrow> string" where
  "exec_status r = (case r of ExecOK \<Rightarrow> StatusOK | ExecSkipped _ \<Rightarrow> StatusSkipped | ExecFailed _ \<Rightarrow> StatusError)"

definition exec_text :: "exec_outcome \<Rightarrow> string" where
  "exec_text r = (case r of ExecOK \<Rightarrow> [] | ExecSkipped m \<Rightarrow> m | ExecFailed m \<Rightarrow> m)"

definition exec_error :: "exec_outcome \<Rightarrow> cron_error option" where
  "exec_error r = (case r of ExecOK \<Rightarrow> None | ExecSkipped m \<Rightarrow> Some (ExecutorError m) | ExecFailed m \<Rightarrow> Some (ExecutorError m))"

definition execute_record :: "int \<Rightarrow> int \<Rightarrow> Job \<Rightarrow> RunResult \<Rightarrow> exec_outcome \<Rightarrow> RunRecord" where
  "execute_record start duration snapshot result outcome =
     \<lparr>rr_RunAtMS = start, rr_ScheduledForMS = job_ScheduledForMS snapshot, rr_Status = exec_status outcome,
      rr_DurationMS = duration, rr_Error = exec_text outcome,
      rr_RunID = (if res_RunID result = [] then job_IdempotencyKey snapshot else res_RunID result),
      rr_IdempotencyKey = job_IdempotencyKey snapshot\<rparr>"

definition push_history :: "RunRecord \<Rightarrow> RunRecord list \<Rightarrow> RunRecord list" where
  "push_history record hist =
     (let h = hist @ [record] in if length h > maxRunHistory then drop (length h - maxRunHistory) h else h)"

definition record_run :: "int \<Rightarrow> Job \<Rightarrow> RunRecord \<Rightarrow> exec_outcome \<Rightarrow> Job \<Rightarrow> Job" where
  "record_run end_ms snapshot record outcome job =
     job\<lparr>job_State := (job_State job)\<lparr>st_Pending := False, st_LastRunAtMS := Some (rr_RunAtMS record),
           st_LastScheduledForMS := Some (job_ScheduledForMS snapshot),
           st_LastStatus := exec_status outcome, st_LastError := exec_error outcome,
           st_LastIdempotencyKey := job_IdempotencyKey snapshot,
           st_RunHistory := push_history record (st_RunHistory (job_State job))\<rparr>,
         job_UpdatedAtMS := end_ms\<rparr>"

definition remove_at :: "nat \<Rightarrow> 'a list \<Rightarrow> 'a list" where
  "remove_at i xs = take i xs @ drop (Suc i) xs"

text \<open>
  What becomes of the job after its run: \<open>None\<close> is a search for the next instant that does not
  return, \<open>Some None\<close> removes a one-shot job, \<open>Some (Some job)\<close> keeps it.
\<close>

definition finish_job :: "zones \<Rightarrow> int \<Rightarrow> Job \<Rightarrow> Job \<Rightarrow> Job option option" where
  "finish_job z end_ms snapshot job =
     (if sch_Kind (job_Schedule job) = KindAt then
        (if job_DeleteAfterRun job then Some None
         else Some (Some (set_next None (job\<lparr>job_Enabled := False\<rparr>))))
      else if job_Enabled job then
        map_option (\<lambda>r. case r of
            Inl e \<Rightarrow> Some (disable_with StatusError (ScheduleError e) job)
          | Inr next \<Rightarrow> Some (set_next next job))
          (nextRecurringAfter z (job_Schedule job) end_ms (job_ScheduledForMS snapshot))
      else Some (Some (set_next None job)))"

text \<open>The locked end of \<^verbatim>\<open>execute\<close>.\<close>

definition execute_finish ::
  "zones \<Rightarrow> int \<Rightarrow> bool \<Rightarrow> Job \<Rightarrow> RunRecord \<Rightarrow> exec_outcome \<Rightarrow> Service \<Rightarrow> Service option" where
  "execute_finish z end_ms io snapshot record outcome s =
     (let s = s\<lparr>svc_active := (svc_active s)(job_ID snapshot := None)\<rparr> in
      case indexLocked (job_ID snapshot) s of
        None \<Rightarrow> Some (signal s)
      | Some idx \<Rightarrow>
          let job = record_run end_ms snapshot record outcome (svc_jobs s ! idx) in
          map_option (\<lambda>kept.
              let jobs = (case kept of None \<Rightarrow> remove_at idx (svc_jobs s) | Some job \<Rightarrow> (svc_jobs s)[idx := job])
              in signal (snd (saveLocked io (s\<lparr>svc_jobs := jobs\<rparr>))))
            (finish_job z end_ms snapshot job))"

section \<open>Run records\<close>

definition writeRunRecord :: "bool \<Rightarrow> Job \<Rightarrow> RunRecord \<Rightarrow> string \<Rightarrow> Service \<Rightarrow> cron_error option \<times> Service" where
  "writeRunRecord io job run response s =
     (if io then
        (None, s\<lparr>svc_runs := (svc_runs s)(safeRunName (rr_RunID run) @ ''.json'' \<mapsto>
           RunFile \<lparr>doc_run_id = rr_RunID run, doc_job_id = job_ID job, doc_job_name = job_Name job,
                    doc_session_key = pl_SessionKey (job_Payload job), doc_status = rr_Status run,
                    doc_created_at_ms = rr_RunAtMS run, doc_scheduled_for_ms = rr_ScheduledForMS run,
                    doc_duration_ms = rr_DurationMS run, doc_error = rr_Error run, doc_response = response,
                    doc_idempotency_key = rr_IdempotencyKey run\<rparr>)\<rparr>)
      else (Some SaveFailed, s))"

definition ReadRunRecord :: "string \<Rightarrow> Service \<Rightarrow> cron_error + run_doc" where
  "ReadRunRecord runID s =
     (if TrimSpace runID = [] then Inl RunIDRequired
      else case svc_runs s (safeRunName runID @ ''.json'') of
             None \<Rightarrow> Inl ErrNotFound
           | Some BadRunFile \<Rightarrow> Inl InvalidRunRecord
           | Some UnparsableRunFile \<Rightarrow> Inl ReadFailed
           | Some (RunFile d) \<Rightarrow> if doc_run_id d \<noteq> runID then Inl RunIdentityMismatch else Inr d)"

section \<open>Managing jobs\<close>

text \<open>The checks and defaults of \<^verbatim>\<open>AddJob\<close> before the lock is taken.\<close>

definition check_new_job :: "zones \<Rightarrow> Job \<Rightarrow> cron_error + Job" where
  "check_new_job z job =
     (if TrimSpace (job_Name job) = [] then Inl NameRequired
      else
        let job = (if pl_Kind (job_Payload job) = []
                   then job\<lparr>job_Payload := (job_Payload job)\<lparr>pl_Kind := PayloadAgentTurn\<rparr>\<rparr> else job) in
        if TrimSpace (pl_Message (job_Payload job)) = [] \<and> pl_Kind (job_Payload job) = PayloadAgentTurn
        then Inl MessageRequired
        else
          let job = normalizeJobPolicy job in
          if job_MisfirePolicy job \<noteq> MisfireFireOnce \<and> job_MisfirePolicy job \<noteq> MisfireSkip
          then Inl (InvalidMisfirePolicy (job_MisfirePolicy job))
          else if job_MisfireGraceMS job < 0 then Inl NegativeGrace
          else if job_TimeoutMS job < 0 then Inl NegativeTimeout
          else case validateBoundJob job of
                 Some e \<Rightarrow> Inl e
               | None \<Rightarrow>
                   (case ValidateSchedule z (job_Schedule job) of
                      Some e \<Rightarrow> Inl (ScheduleError e)
                    | None \<Rightarrow> Inr job))"

text \<open>The job \<^verbatim>\<open>AddJob\<close> appends: checked, with an id, enabled, stamped and scheduled.\<close>

definition new_job :: "zones \<Rightarrow> int \<Rightarrow> string \<Rightarrow> Job \<Rightarrow> cron_error + Job" where
  "new_job z now fresh job =
     bind_sum (check_new_job z job) (\<lambda>job.
       let job = (if job_ID job = [] then job\<lparr>job_ID := fresh\<rparr> else job);
           job = job\<lparr>job_Enabled := True, job_CreatedAtMS := now, job_UpdatedAtMS := now\<rparr>
       in case NextRun z (job_Schedule job) now of
            Inl e \<Rightarrow> Inl (ScheduleError e)
          | Inr next \<Rightarrow> Inr (set_next next job))"

definition AddJob ::
  "zones \<Rightarrow> int \<Rightarrow> string \<Rightarrow> bool \<Rightarrow> Job \<Rightarrow> Service \<Rightarrow> (cron_error + Job) \<times> Service" where
  "AddJob z now fresh io job s =
     (case new_job z now fresh job of
        Inl e \<Rightarrow> (Inl e, s)
      | Inr job \<Rightarrow>
          if indexLocked (job_ID job) s \<noteq> None then (Inl (DuplicateID (job_ID job)), s)
          else
            let wasDirty = svc_dirty s; s = s\<lparr>svc_jobs := svc_jobs s @ [job]\<rparr> in
            (case saveLocked io s of
               (Some e, s) \<Rightarrow> (Inl e, s\<lparr>svc_jobs := butlast (svc_jobs s), svc_dirty := wasDirty\<rparr>)
             | (None, s) \<Rightarrow> (Inr job, signal s)))"

text \<open>The job \<^verbatim>\<open>UpsertSystemJob\<close> stores; an existing job keeps its state and creation time.\<close>

definition upsert_job :: "zones \<Rightarrow> int \<Rightarrow> Job \<Rightarrow> Service \<Rightarrow> cron_error + Job" where
  "upsert_job z now job s =
     (if pl_Kind (job_Payload job) \<noteq> PayloadSystemEvent then Inl SystemPayloadRequired
      else if TrimSpace (job_ID job) = [] then Inl SystemIDRequired
      else
        let job = normalizeJobPolicy job in
        case ValidateSchedule z (job_Schedule job) of
          Some e \<Rightarrow> Inl (ScheduleError e)
        | None \<Rightarrow>
            let job = (case indexLocked (job_ID job) s of
                         Some i \<Rightarrow> job\<lparr>job_CreatedAtMS := job_CreatedAtMS (svc_jobs s ! i),
                                       job_State := job_State (svc_jobs s ! i)\<rparr>
                       | None \<Rightarrow> job\<lparr>job_CreatedAtMS := now\<rparr>);
                job = job\<lparr>job_Enabled := True, job_UpdatedAtMS := now\<rparr>
            in case NextRun z (job_Schedule job) now of
                 Inl e \<Rightarrow> Inl (ScheduleError e)
               | Inr next \<Rightarrow> Inr (set_next next job))"

definition UpsertSystemJob ::
  "zones \<Rightarrow> int \<Rightarrow> bool \<Rightarrow> Job \<Rightarrow> Service \<Rightarrow> (cron_error + Job) \<times> Service" where
  "UpsertSystemJob z now io job s =
     (case upsert_job z now job s of
        Inl e \<Rightarrow> (Inl e, s)
      | Inr job \<Rightarrow>
          let s = s\<lparr>svc_jobs := (case indexLocked (job_ID job) s of
                                  Some i \<Rightarrow> (svc_jobs s)[i := job]
                                | None \<Rightarrow> svc_jobs s @ [job])\<rparr>
          in (case saveLocked io s of
                (Some e, s) \<Rightarrow> (Inl e, s)
              | (None, s) \<Rightarrow> (Inr job, signal s)))"

definition show_pending :: "Service \<Rightarrow> Job \<Rightarrow> Job" where
  "show_pending s job = job\<lparr>job_State := (job_State job)\<lparr>st_Pending := (svc_active s (job_ID job) \<noteq> None)\<rparr>\<rparr>"

definition job_before :: "Job \<Rightarrow> Job \<Rightarrow> bool" where
  "job_before x y =
     (case (st_NextRunAtMS (job_State x), st_NextRunAtMS (job_State y)) of
        (None, None) \<Rightarrow> string_less (job_Name x) (job_Name y)
      | (None, Some _) \<Rightarrow> False
      | (Some _, None) \<Rightarrow> True
      | (Some a, Some b) \<Rightarrow> a < b)"

definition ListJobs :: "bool \<Rightarrow> Service \<Rightarrow> Job list" where
  "ListJobs includeDisabled s =
     SliceStable job_before
       (map (show_pending s) (filter (\<lambda>j. includeDisabled \<or> job_Enabled j) (svc_jobs s)))"

definition GetJob :: "string \<Rightarrow> Service \<Rightarrow> Job option" where
  "GetJob jid s = map_option (\<lambda>i. show_pending s (svc_jobs s ! i)) (indexLocked jid s)"

text \<open>The fields of an update, checked in the code's order; the flag says the schedule changed.\<close>

definition update_name :: "Update \<Rightarrow> Job \<Rightarrow> cron_error + Job" where
  "update_name u job =
     (case up_Name u of
        None \<Rightarrow> Inr job
      | Some n \<Rightarrow> if TrimSpace n = [] then Inl NameEmpty else Inr (job\<lparr>job_Name := TrimSpace n\<rparr>))"

definition update_message :: "Update \<Rightarrow> Job \<Rightarrow> cron_error + Job" where
  "update_message u job =
     (case up_Message u of
        None \<Rightarrow> Inr job
      | Some m \<Rightarrow> if TrimSpace m = [] then Inl MessageEmpty
                   else Inr (job\<lparr>job_Payload := (job_Payload job)\<lparr>pl_Message := TrimSpace m\<rparr>\<rparr>))"

definition update_schedule :: "zones \<Rightarrow> Update \<Rightarrow> Job \<Rightarrow> cron_error + Job \<times> bool" where
  "update_schedule z u job =
     (case up_Schedule u of
        None \<Rightarrow> Inr (job, False)
      | Some sch \<Rightarrow> (case ValidateSchedule z sch of
            Some e \<Rightarrow> Inl (ScheduleError e)
          | None \<Rightarrow> Inr (job\<lparr>job_Schedule := sch\<rparr>, True)))"

definition update_delete :: "Update \<Rightarrow> Job \<Rightarrow> Job" where
  "update_delete u job = (case up_DeleteAfterRun u of None \<Rightarrow> job | Some b \<Rightarrow> job\<lparr>job_DeleteAfterRun := b\<rparr>)"

definition update_timeout :: "Update \<Rightarrow> Job \<Rightarrow> cron_error + Job" where
  "update_timeout u job =
     (case up_TimeoutMS u of
        None \<Rightarrow> Inr job
      | Some n \<Rightarrow> if n < 0 then Inl NegativeTimeout else Inr (job\<lparr>job_TimeoutMS := n\<rparr>))"

definition update_policy :: "Update \<Rightarrow> Job \<Rightarrow> cron_error + Job" where
  "update_policy u job =
     (case up_MisfirePolicy u of
        None \<Rightarrow> Inr job
      | Some p \<Rightarrow> if TrimSpace p \<noteq> MisfireFireOnce \<and> TrimSpace p \<noteq> MisfireSkip
                   then Inl (InvalidMisfirePolicy (TrimSpace p))
                   else Inr (job\<lparr>job_MisfirePolicy := TrimSpace p\<rparr>))"

definition update_grace :: "Update \<Rightarrow> Job \<Rightarrow> cron_error + Job" where
  "update_grace u job =
     (case up_MisfireGraceMS u of
        None \<Rightarrow> Inr job
      | Some n \<Rightarrow> if n < 0 then Inl NegativeGrace else Inr (job\<lparr>job_MisfireGraceMS := n\<rparr>))"

definition update_enabled :: "Update \<Rightarrow> Job \<Rightarrow> Job" where
  "update_enabled u job = (case up_Enabled u of None \<Rightarrow> job | Some b \<Rightarrow> job\<lparr>job_Enabled := b\<rparr>)"

definition apply_update :: "zones \<Rightarrow> Update \<Rightarrow> Job \<Rightarrow> cron_error + Job \<times> bool" where
  "apply_update z u job =
     bind_sum (update_name u job) (\<lambda>job.
     bind_sum (update_message u job) (\<lambda>job.
     bind_sum (update_schedule z u job) (\<lambda>(job, changed).
     bind_sum (update_timeout u (update_delete u job)) (\<lambda>job.
     bind_sum (update_policy u job) (\<lambda>job.
     bind_sum (update_grace u job) (\<lambda>job.
     Inr (update_enabled u job, changed)))))))"

definition update_next :: "zones \<Rightarrow> int \<Rightarrow> Update \<Rightarrow> bool \<Rightarrow> Job \<Rightarrow> cron_error + Job" where
  "update_next z now u scheduleChanged candidate =
     (if \<not> job_Enabled candidate then Inr (set_next None candidate)
      else if scheduleChanged \<or> up_Enabled u \<noteq> None then
        (case NextRun z (job_Schedule candidate) now of
           Inl e \<Rightarrow> Inl (ScheduleError e)
         | Inr next \<Rightarrow> Inr (set_next next candidate))
      else Inr candidate)"

definition UpdateJob ::
  "zones \<Rightarrow> int \<Rightarrow> int \<Rightarrow> bool \<Rightarrow> string \<Rightarrow> Update \<Rightarrow> Service \<Rightarrow> (cron_error + Job) \<times> Service" where
  "UpdateJob z now now' io jid u s =
     (case indexLocked jid s of
        None \<Rightarrow> (Inl ErrNotFound, s)
      | Some idx \<Rightarrow>
          let original = svc_jobs s ! idx in
          if pl_Kind (job_Payload original) = PayloadSystemEvent then (Inl ErrProtected, s)
          else case apply_update z u original of
                 Inl e \<Rightarrow> (Inl e, s)
               | Inr (candidate, scheduleChanged) \<Rightarrow>
                   let candidate = candidate\<lparr>job_UpdatedAtMS := now\<rparr> in
                   case update_next z now' u scheduleChanged candidate of
                     Inl e \<Rightarrow> (Inl e, s)
                   | Inr candidate \<Rightarrow>
                       let wasDirty = svc_dirty s; s = s\<lparr>svc_jobs := (svc_jobs s)[idx := candidate]\<rparr> in
                       (case saveLocked io s of
                          (Some e, s) \<Rightarrow> (Inl e, s\<lparr>svc_jobs := (svc_jobs s)[idx := original], svc_dirty := wasDirty\<rparr>)
                        | (None, s) \<Rightarrow> (Inr (show_pending s candidate), signal s)))"

text \<open>
  The roll-back of \<^verbatim>\<open>RemoveJob\<close>: append a slot, shift the tail by one, put the job back.
\<close>

definition insert_back :: "nat \<Rightarrow> 'a \<Rightarrow> 'a list \<Rightarrow> 'a list" where
  "insert_back idx x xs = (take (Suc idx) (xs @ [x]) @ drop idx xs)[idx := x]"

definition RemoveJob :: "bool \<Rightarrow> string \<Rightarrow> Service \<Rightarrow> cron_error option \<times> Service" where
  "RemoveJob io jid s =
     (case indexLocked jid s of
        None \<Rightarrow> (Some ErrNotFound, s)
      | Some idx \<Rightarrow>
          let original = svc_jobs s ! idx in
          if pl_Kind (job_Payload original) = PayloadSystemEvent then (Some ErrProtected, s)
          else if svc_active s jid \<noteq> None then (Some ErrActive, s)
          else
            let wasDirty = svc_dirty s; s = s\<lparr>svc_jobs := remove_at idx (svc_jobs s)\<rparr> in
            (case saveLocked io s of
               (Some e, s) \<Rightarrow> (Some e, s\<lparr>svc_jobs := insert_back idx original (svc_jobs s), svc_dirty := wasDirty\<rparr>)
             | (None, s) \<Rightarrow> (None, signal s)))"

text \<open>\<^verbatim>\<open>RunNow\<close> launches one run; on success the result is the token and snapshot it executes.\<close>

definition RunNow ::
  "int \<Rightarrow> bool \<Rightarrow> string \<Rightarrow> bool \<Rightarrow> Service \<Rightarrow> (cron_error + nat \<times> Job) \<times> Service" where
  "RunNow now io jid force s =
     (if svc_closed s then (Inl ErrShutDown, s)
      else
        let (err, s) = (if svc_dirty s then saveLocked io s else (None, s)) in
        if err \<noteq> None then (Inl PersistPrevious, s)
        else case indexLocked jid s of
               None \<Rightarrow> (Inl ErrNotFound, s)
             | Some idx \<Rightarrow>
                 if svc_active s jid \<noteq> None then (Inl ErrActive, s)
                 else if int (active_count s) \<ge> svc_maxConcurrent s then (Inl ConcurrencyLimit, s)
                 else
                   let job = svc_jobs s ! idx in
                   if \<not> force \<and> \<not> job_Enabled job then (Inl JobDisabled, s)
                   else case validateBoundJob job of
                          Some e \<Rightarrow> (Inl e, s)
                        | None \<Rightarrow>
                            let tok = svc_nextToken s;
                                snapshot = job\<lparr>job_ScheduledForMS := now, job_IdempotencyKey := idempotencyKey (job_ID job) now\<rparr>
                            in (Inr (tok, snapshot),
                                s\<lparr>svc_active := (svc_active s)(jid \<mapsto> tok), svc_nextToken := Suc tok,
                                  svc_jobs := (svc_jobs s)[idx := job\<lparr>job_State := (job_State job)\<lparr>st_Pending := True\<rparr>\<rparr>],
                                  svc_wg := Suc (svc_wg s)\<rparr>))"

definition Cancel :: "string \<Rightarrow> Service \<Rightarrow> cron_error option \<times> Service" where
  "Cancel jid s =
     (case svc_active s jid of
        None \<Rightarrow> (if GetJob jid s = None then (Some ErrNotFound, s) else (Some NotRunning, s))
      | Some tok \<Rightarrow> (None, s\<lparr>svc_cancelled := insert tok (svc_cancelled s)\<rparr>))"

end
