(* ===== verification/Cron_Proofs.thy ===== *)
theory Cron_Proofs
  imports Cron_Service
begin

text \<open>
  What the scheduler of \<^verbatim>\<open>Cron_Service\<close> guarantees: the effect of every operation on the job
  list, the store on disk and the table of active runs; the system of the service together
  with its in-flight runs as a step relation, with the invariant that ties the active table to
  them; and the properties of dispatching, rescheduling, roll-back and run records.
\<close>

section \<open>What the operations change\<close>

definition ids :: "Service \<Rightarrow> string list" where
  "ids s = map job_ID (svc_jobs s)"

text \<open>The store on disk is the store in memory, unless a write is outstanding.\<close>

definition in_sync :: "Service \<Rightarrow> bool" where
  "in_sync s \<longleftrightarrow> svc_dirty s \<or> svc_disk s = Stored (persisted s)"

definition same_runs :: "Service \<Rightarrow> Service \<Rightarrow> bool" where
  "same_runs s s' \<longleftrightarrow> svc_active s' = svc_active s \<and> svc_nextToken s' = svc_nextToken s"

lemma persist_job_pending [simp]:
  "persist_job (job\<lparr>job_State := (job_State job)\<lparr>st_Pending := b\<rparr>\<rparr>) = persist_job job"
  by (simp add: persist_job_def)

lemma saveLocked_frame [simp]:
  "svc_jobs (snd (saveLocked io s)) = svc_jobs s" "svc_active (snd (saveLocked io s)) = svc_active s"
  "svc_nextToken (snd (saveLocked io s)) = svc_nextToken s" "svc_wg (snd (saveLocked io s)) = svc_wg s"
  "svc_maxConcurrent (snd (saveLocked io s)) = svc_maxConcurrent s"
  "svc_ctxDone (snd (saveLocked io s)) = svc_ctxDone s" "svc_version (snd (saveLocked io s)) = svc_version s"
  "svc_closed (snd (saveLocked io s)) = svc_closed s"
  by (simp_all add: saveLocked_def)

lemma saveLocked_in_sync [simp]: "in_sync (snd (saveLocked io s))"
  by (simp add: saveLocked_def in_sync_def persisted_def)

lemma saveLocked_cases:
  "saveLocked io s = (e, s') \<Longrightarrow>
   (io \<and> e = None \<and> s' = s\<lparr>svc_disk := Stored (persisted s), svc_dirty := False\<rparr>)
   \<or> (\<not> io \<and> e = Some SaveFailed \<and> s' = s\<lparr>svc_dirty := True\<rparr>)"
  by (auto simp: saveLocked_def split: if_splits)

lemma signal_frame [simp]:
  "svc_jobs (signal s) = svc_jobs s" "svc_active (signal s) = svc_active s" "svc_disk (signal s) = svc_disk s"
  "svc_nextToken (signal s) = svc_nextToken s" "svc_dirty (signal s) = svc_dirty s" "svc_wg (signal s) = svc_wg s"
  "svc_version (signal s) = svc_version s" "svc_maxConcurrent (signal s) = svc_maxConcurrent s"
  "svc_ctxDone (signal s) = svc_ctxDone s"
  by (simp_all add: signal_def)

lemma in_sync_signal [simp]: "in_sync (signal s) = in_sync s"
  by (simp add: in_sync_def persisted_def)

lemma ids_signal [simp]: "ids (signal s) = ids s"
  by (simp add: ids_def)

lemma indexLocked_Some:
  "indexLocked jid s = Some i \<Longrightarrow> i < length (svc_jobs s) \<and> job_ID (svc_jobs s ! i) = jid"
  by (simp add: indexLocked_def find_index_Some)

lemma indexLocked_None: "indexLocked jid s = None \<longleftrightarrow> jid \<notin> set (ids s)"
  by (auto simp: indexLocked_def find_index_None ids_def)

lemma ids_update:
  "i < length (svc_jobs s) \<Longrightarrow> job_ID job = job_ID (svc_jobs s ! i) \<Longrightarrow>
   map job_ID ((svc_jobs s)[i := job]) = ids s"
  by (simp add: ids_def map_update list_update_same_conv)

lemma ID_frames [simp]:
  "job_ID (set_next n job) = job_ID job" "job_ID (disable_with st e job) = job_ID job"
  "job_ID (normalizeJobPolicy job) = job_ID job" "job_ID (record_run t sn r x job) = job_ID job"
  by (simp_all add: set_next_def disable_with_def normalizeJobPolicy_def record_run_def Let_def)

lemma ID_prepare [simp]: "job_ID (prepareJobOnStartLocked z now job) = job_ID job"
  by (auto simp: prepareJobOnStartLocked_def schedule_next_def Let_def split: option.splits sum.splits)

lemma update_IDs:
  "update_name u job = Inr j \<Longrightarrow> job_ID j = job_ID job" "update_message u job = Inr j \<Longrightarrow> job_ID j = job_ID job"
  "update_schedule z u job = Inr (j, b) \<Longrightarrow> job_ID j = job_ID job"
  "update_timeout u job = Inr j \<Longrightarrow> job_ID j = job_ID job" "update_policy u job = Inr j \<Longrightarrow> job_ID j = job_ID job"
  "update_grace u job = Inr j \<Longrightarrow> job_ID j = job_ID job"
  "job_ID (update_delete u job) = job_ID job" "job_ID (update_enabled u job) = job_ID job"
  by (auto simp: update_name_def update_message_def update_schedule_def update_timeout_def update_policy_def
        update_grace_def update_delete_def update_enabled_def split: option.splits if_splits)

lemma apply_update_ID: "apply_update z u job = Inr (job', b) \<Longrightarrow> job_ID job' = job_ID job"
  by (auto simp: apply_update_def bind_sum_Inr update_IDs(7,8) dest!: update_IDs(1-6))

lemma remove_at_map: "map f (remove_at i xs) = remove_at i (map f xs)"
  by (simp add: remove_at_def take_map drop_map)

lemma distinct_remove_at: "distinct xs \<Longrightarrow> distinct (remove_at i xs)"
  by (simp add: remove_at_def set_take_disj_set_drop_if_distinct)

lemma insert_back_remove_at: "i < length xs \<Longrightarrow> insert_back i (xs ! i) (remove_at i xs) = xs"
proof -
  assume i: "i < length xs"
  then obtain ys z zs where xs: "xs = ys @ z # zs" "length ys = i" by (metis id_take_nth_drop length_take min.absorb4)
  then show ?thesis
    by (cases zs) (simp_all add: insert_back_def remove_at_def nth_append list_update_append)
qed

section \<open>The system of the service and its runs\<close>

text \<open>
  The goroutines that execute jobs are the list of in-flight runs, each a token and the
  snapshot it was launched with. The invariant: the active table is the table of these runs,
  no two of them belong to one job, tokens are never reused, job ids are unique, and the disk
  is in step with the memory unless a write is outstanding.
\<close>

record cron_sys =
  sys_svc :: Service
  sys_runs :: "(nat \<times> Job) list"

definition run_table :: "(nat \<times> Job) list \<Rightarrow> (string \<rightharpoonup> nat)" where
  "run_table runs = map_of (map (\<lambda>(tok, job). (job_ID job, tok)) runs)"

definition run_ids :: "(nat \<times> Job) list \<Rightarrow> string list" where
  "run_ids runs = map (\<lambda>(tok, job). job_ID job) runs"

definition cron_inv :: "cron_sys \<Rightarrow> bool" where
  "cron_inv y \<longleftrightarrow>
     distinct (ids (sys_svc y)) \<and> distinct (run_ids (sys_runs y))
   \<and> svc_active (sys_svc y) = run_table (sys_runs y)
   \<and> (\<forall>(tok, job) \<in> set (sys_runs y). tok < svc_nextToken (sys_svc y))
   \<and> distinct (map fst (sys_runs y)) \<and> in_sync (sys_svc y)"

text \<open>What every operation that only manages jobs promises, and that this keeps the invariant.\<close>

locale management =
  fixes op :: "Service \<Rightarrow> Service"
  assumes keeps_runs: "same_runs s (op s)"
    and keeps_ids: "distinct (ids s) \<Longrightarrow> distinct (ids (op s))"
    and keeps_sync: "in_sync s \<Longrightarrow> in_sync (op s)"
begin

lemma inv_step: "cron_inv y \<Longrightarrow> cron_inv (y\<lparr>sys_svc := op (sys_svc y)\<rparr>)"
  using keeps_runs [of "sys_svc y"] keeps_ids [of "sys_svc y"] keeps_sync [of "sys_svc y"]
  by (auto simp: cron_inv_def same_runs_def)

end

lemma same_runs_simps [simp]:
  "same_runs s s" "same_runs s (signal t) = same_runs s t" "same_runs s (snd (saveLocked io t)) = same_runs s t"
  "same_runs s (t\<lparr>svc_jobs := js\<rparr>) = same_runs s t" "same_runs s (t\<lparr>svc_dirty := b\<rparr>) = same_runs s t"
  "same_runs s (t\<lparr>svc_disk := d\<rparr>) = same_runs s t"
  by (simp_all add: same_runs_def)

text \<open>A change of the job list followed by a save.\<close>

lemma saved_change:
  assumes "saveLocked io (s\<lparr>svc_jobs := js\<rparr>) = (e, s')"
  shows "same_runs s s'" "ids s' = map job_ID js" "in_sync s'"
    "svc_jobs s' = js" "svc_dirty s' = (e \<noteq> None)"
  using assms by (auto simp: saveLocked_def same_runs_def ids_def in_sync_def persisted_def split: if_splits)

text \<open>Undoing the change after a failed save restores the service exactly.\<close>

lemma saved_undo:
  assumes "saveLocked io (s\<lparr>svc_jobs := js\<rparr>) = (Some e, s')"
  shows "s'\<lparr>svc_jobs := svc_jobs s, svc_dirty := svc_dirty s\<rparr> = s"
  using assms by (auto simp: saveLocked_def split: if_splits)

subsection \<open>Operations that roll back\<close>

lemma new_job_next:
  "new_job z now fresh job = Inr j \<Longrightarrow>
   job_Enabled j \<and> NextRun z (job_Schedule j) now = Inr (st_NextRunAtMS (job_State j))"
proof -
  assume j: "new_job z now fresh job = Inr j"
  then obtain x where x: "check_new_job z job = Inr x" unfolding new_job_def bind_sum_Inr by blast
  have sch: "job_Schedule (if job_ID x = [] then x\<lparr>job_ID := fresh\<rparr> else x) = job_Schedule x" by simp
  show ?thesis
    using j x by (cases "NextRun z (job_Schedule x) now") (auto simp: new_job_def bind_sum_def Let_def set_next_def sch)
qed

lemma AddJob_cases:
  assumes "AddJob z now fresh io job s = (r, s')"
  obtains (err) e where "r = Inl e" "s' = s"
  | (ok) j t where "r = Inr j" "job_ID j \<notin> set (ids s)" "s' = signal t"
      "saveLocked io (s\<lparr>svc_jobs := svc_jobs s @ [j]\<rparr>) = (None, t)" "new_job z now fresh job = Inr j"
proof (cases "new_job z now fresh job")
  case (Inl e)
  with assms show ?thesis by (intro err [of e]) (auto simp: AddJob_def)
next
  case (Inr j)
  show ?thesis
  proof (cases "indexLocked (job_ID j) s")
    case (Some i)
    with Inr assms show ?thesis by (intro err) (auto simp: AddJob_def)
  next
    case None
    then have new: "job_ID j \<notin> set (ids s)" by (simp add: indexLocked_None)
    obtain e t where save: "saveLocked io (s\<lparr>svc_jobs := svc_jobs s @ [j]\<rparr>) = (e, t)"
      by (cases "saveLocked io (s\<lparr>svc_jobs := svc_jobs s @ [j]\<rparr>)")
    have step: "AddJob z now fresh io job s = (case e of
         Some x \<Rightarrow> (Inl x, t\<lparr>svc_jobs := butlast (svc_jobs t), svc_dirty := svc_dirty s\<rparr>)
       | None \<Rightarrow> (Inr j, signal t))"
      using Inr None save by (simp add: AddJob_def Let_def split: option.splits)
    show ?thesis
    proof (cases e)
      case None
      with step save assms new Inr show ?thesis by (intro ok [of j t]) auto
    next
      case (Some x)
      have jobs: "butlast (svc_jobs t) = svc_jobs s" using saved_change(4) [OF save] by simp
      have "t\<lparr>svc_jobs := butlast (svc_jobs t), svc_dirty := svc_dirty s\<rparr> = s"
        unfolding jobs using saved_undo save Some by blast
      with step Some assms show ?thesis by (intro err [of x]) auto
    qed
  qed
qed

lemma UpdateJob_cases:
  assumes "UpdateJob z now now' io jid u s = (r, s')"
  obtains (err) e where "r = Inl e" "s' = s"
  | (ok) i j t where "r = Inr (show_pending s j)" "indexLocked jid s = Some i" "job_ID j = jid" "s' = signal t"
      "saveLocked io (s\<lparr>svc_jobs := (svc_jobs s)[i := j]\<rparr>) = (None, t)"
proof (cases "indexLocked jid s")
  case None
  with assms show ?thesis by (intro err [of ErrNotFound]) (auto simp: UpdateJob_def)
next
  case (Some i)
  define orig where "orig = svc_jobs s ! i"
  note i = indexLocked_Some [OF Some]
  show ?thesis
  proof (cases "pl_Kind (job_Payload orig) = PayloadSystemEvent \<or> isl (apply_update z u orig)")
    case True
    with Some assms show ?thesis
      by (cases "apply_update z u orig") (auto simp: UpdateJob_def Let_def orig_def [symmetric] split: if_splits intro: err)
  next
    case False
    then obtain c changed where c: "apply_update z u orig = Inr (c, changed)"
      by (cases "apply_update z u orig") auto
    let ?c = "c\<lparr>job_UpdatedAtMS := now\<rparr>"
    define pick where "pick = update_next z now' u changed ?c"
    have step: "UpdateJob z now now' io jid u s = (case pick of Inl e \<Rightarrow> (Inl e, s)
       | Inr j \<Rightarrow> (case saveLocked io (s\<lparr>svc_jobs := (svc_jobs s)[i := j]\<rparr>) of
            (Some e, t) \<Rightarrow> (Inl e, t\<lparr>svc_jobs := (svc_jobs t)[i := orig], svc_dirty := svc_dirty s\<rparr>)
          | (None, t) \<Rightarrow> (Inr (show_pending t j), signal t)))"
      using Some False c by (simp add: UpdateJob_def Let_def orig_def [symmetric] pick_def cong: sum.case_cong)
    show ?thesis
    proof (cases pick)
      case (Inl e)
      with step assms show ?thesis by (intro err [of e]) auto
    next
      case (Inr j)
      then have "job_ID j = job_ID c" by (auto simp: pick_def update_next_def split: if_splits sum.splits)
      then have id: "job_ID j = jid" using apply_update_ID [OF c] i orig_def by simp
      obtain e t where save: "saveLocked io (s\<lparr>svc_jobs := (svc_jobs s)[i := j]\<rparr>) = (e, t)"
        by (cases "saveLocked io (s\<lparr>svc_jobs := (svc_jobs s)[i := j]\<rparr>)")
      show ?thesis
      proof (cases e)
        case None
        have "show_pending t j = show_pending s j"
          using saved_change(1) [OF save] by (simp add: show_pending_def same_runs_def)
        with None step Inr save assms Some id show ?thesis by (intro ok [of j i t]) auto
      next
        case (Some x)
        have jobs: "(svc_jobs t)[i := orig] = svc_jobs s"
          using saved_change(4) [OF save] i by (simp add: orig_def)
        have "t\<lparr>svc_jobs := (svc_jobs t)[i := orig], svc_dirty := svc_dirty s\<rparr> = s"
          unfolding jobs using saved_undo save Some by blast
        with step Inr save Some assms show ?thesis by (intro err [of x]) auto
      qed
    qed
  qed
qed

lemma RemoveJob_cases:
  assumes "RemoveJob io jid s = (r, s')"
  obtains (err) e where "r = Some e" "s' = s"
  | (ok) i t where "r = None" "indexLocked jid s = Some i" "svc_active s jid = None" "s' = signal t"
      "saveLocked io (s\<lparr>svc_jobs := remove_at i (svc_jobs s)\<rparr>) = (None, t)"
proof (cases "indexLocked jid s")
  case None
  with assms show ?thesis by (intro err [of ErrNotFound]) (auto simp: RemoveJob_def)
next
  case (Some i)
  note i = indexLocked_Some [OF Some]
  show ?thesis
  proof (cases "pl_Kind (job_Payload (svc_jobs s ! i)) = PayloadSystemEvent \<or> svc_active s jid \<noteq> None")
    case True
    with Some assms show ?thesis by (auto simp: RemoveJob_def Let_def split: if_splits intro: err)
  next
    case False
    let ?js = "remove_at i (svc_jobs s)"
    obtain e t where save: "saveLocked io (s\<lparr>svc_jobs := ?js\<rparr>) = (e, t)"
      by (cases "saveLocked io (s\<lparr>svc_jobs := ?js\<rparr>)")
    have step: "RemoveJob io jid s = (case e of
         Some x \<Rightarrow> (Some x, t\<lparr>svc_jobs := insert_back i (svc_jobs s ! i) (svc_jobs t), svc_dirty := svc_dirty s\<rparr>)
       | None \<Rightarrow> (None, signal t))"
      using Some False save by (auto simp: RemoveJob_def Let_def split: option.splits)
    show ?thesis
    proof (cases e)
      case None
      with step save assms Some False show ?thesis by (intro ok [of i t]) auto
    next
      case (Some x)
      have jobs: "insert_back i (svc_jobs s ! i) (svc_jobs t) = svc_jobs s"
        using saved_change(4) [OF save] insert_back_remove_at i by metis
      have "t\<lparr>svc_jobs := insert_back i (svc_jobs s ! i) (svc_jobs t), svc_dirty := svc_dirty s\<rparr> = s"
        unfolding jobs using saved_undo save Some by blast
      with step Some assms show ?thesis by (intro err [of x]) auto
    qed
  qed
qed

lemma upsert_job_ID: "upsert_job z now job s = Inr j \<Longrightarrow> job_ID j = job_ID job"
  by (auto simp: upsert_job_def Let_def split: if_splits option.splits sum.splits)

lemma UpsertSystemJob_cases:
  assumes "UpsertSystemJob z now io job s = (r, s')"
  obtains (err) e where "r = Inl e" "s' = s"
  | (saved) js e t where "saveLocked io (s\<lparr>svc_jobs := js\<rparr>) = (e, t)" "s' = (if e = None then signal t else t)"
      "distinct (ids s) \<Longrightarrow> distinct (map job_ID js)"
proof (cases "upsert_job z now job s")
  case (Inl e)
  with assms show ?thesis by (intro err [of e]) (auto simp: UpsertSystemJob_def)
next
  case (Inr j)
  define js where "js = (case indexLocked (job_ID j) s of Some i \<Rightarrow> (svc_jobs s)[i := j] | None \<Rightarrow> svc_jobs s @ [j])"
  obtain e t where save: "saveLocked io (s\<lparr>svc_jobs := js\<rparr>) = (e, t)" by (cases "saveLocked io (s\<lparr>svc_jobs := js\<rparr>)")
  have "UpsertSystemJob z now io job s = (case e of Some x \<Rightarrow> (Inl x, t) | None \<Rightarrow> (Inr j, signal t))"
    using Inr save by (simp add: UpsertSystemJob_def Let_def js_def [symmetric] split: option.splits)
  moreover have "distinct (map job_ID js)" if "distinct (ids s)"
  proof (cases "indexLocked (job_ID j) s")
    case None
    with that show ?thesis using indexLocked_None [of "job_ID j" s] by (simp add: js_def ids_def)
  next
    case (Some i)
    with indexLocked_Some [OF Some] that show ?thesis by (simp add: js_def ids_update)
  qed
  ultimately show ?thesis using assms save by (intro saved [of js e t]) (auto split: option.splits)
qed

subsection \<open>Every management operation is one\<close>

lemma saved_management:
  assumes "saveLocked io (s\<lparr>svc_jobs := js\<rparr>) = (e, t)" "distinct (ids s) \<Longrightarrow> distinct (map job_ID js)"
  shows "same_runs s t \<and> (distinct (ids s) \<longrightarrow> distinct (ids t)) \<and> in_sync t"
  using saved_change [OF assms(1)] assms(2) by simp

interpretation add_op: management "\<lambda>s. snd (AddJob z now fresh io job s)" for z now fresh io job
proof
  fix s
  obtain r s' where op: "AddJob z now fresh io job s = (r, s')" by (cases "AddJob z now fresh io job s")
  have "same_runs s s' \<and> (distinct (ids s) \<longrightarrow> distinct (ids s')) \<and> (in_sync s \<longrightarrow> in_sync s')"
    using op
  proof (cases rule: AddJob_cases)
    case (ok j t)
    then show ?thesis using saved_management [OF ok(4)] by (auto simp: ids_def)
  qed simp
  then show "same_runs s (snd (AddJob z now fresh io job s))"
    "distinct (ids s) \<Longrightarrow> distinct (ids (snd (AddJob z now fresh io job s)))"
    "in_sync s \<Longrightarrow> in_sync (snd (AddJob z now fresh io job s))" by (simp_all add: op)
qed

interpretation update_op: management "\<lambda>s. snd (UpdateJob z now now' io jid u s)" for z now now' io jid u
proof
  fix s
  obtain r s' where op: "UpdateJob z now now' io jid u s = (r, s')" by (cases "UpdateJob z now now' io jid u s")
  have "same_runs s s' \<and> (distinct (ids s) \<longrightarrow> distinct (ids s')) \<and> (in_sync s \<longrightarrow> in_sync s')"
    using op
  proof (cases rule: UpdateJob_cases)
    case (ok i j t)
    then show ?thesis
      using saved_management [OF ok(5)] indexLocked_Some [OF ok(2)] by (simp add: ids_update)
  qed simp
  then show "same_runs s (snd (UpdateJob z now now' io jid u s))"
    "distinct (ids s) \<Longrightarrow> distinct (ids (snd (UpdateJob z now now' io jid u s)))"
    "in_sync s \<Longrightarrow> in_sync (snd (UpdateJob z now now' io jid u s))" by (simp_all add: op)
qed

interpretation remove_op: management "\<lambda>s. snd (RemoveJob io jid s)" for io jid
proof
  fix s
  obtain r s' where op: "RemoveJob io jid s = (r, s')" by (cases "RemoveJob io jid s")
  have "same_runs s s' \<and> (distinct (ids s) \<longrightarrow> distinct (ids s')) \<and> (in_sync s \<longrightarrow> in_sync s')"
    using op
  proof (cases rule: RemoveJob_cases)
    case (ok i t)
    then show ?thesis
      using saved_management [OF ok(5)] by (simp add: remove_at_map distinct_remove_at ids_def)
  qed simp
  then show "same_runs s (snd (RemoveJob io jid s))"
    "distinct (ids s) \<Longrightarrow> distinct (ids (snd (RemoveJob io jid s)))"
    "in_sync s \<Longrightarrow> in_sync (snd (RemoveJob io jid s))" by (simp_all add: op)
qed

interpretation upsert_op: management "\<lambda>s. snd (UpsertSystemJob z now io job s)" for z now io job
proof
  fix s
  obtain r s' where op: "UpsertSystemJob z now io job s = (r, s')" by (cases "UpsertSystemJob z now io job s")
  have "same_runs s s' \<and> (distinct (ids s) \<longrightarrow> distinct (ids s')) \<and> (in_sync s \<longrightarrow> in_sync s')"
    using op
  proof (cases rule: UpsertSystemJob_cases)
    case (saved js e t)
    then show ?thesis using saved_management [OF saved(1)] by simp
  qed simp
  then show "same_runs s (snd (UpsertSystemJob z now io job s))"
    "distinct (ids s) \<Longrightarrow> distinct (ids (snd (UpsertSystemJob z now io job s)))"
    "in_sync s \<Longrightarrow> in_sync (snd (UpsertSystemJob z now io job s))" by (simp_all add: op)
qed

interpretation start_op: management "\<lambda>s. snd (Start_run z now io s)" for z now io
proof
  fix s
  show "same_runs s (snd (Start_run z now io s))" "in_sync s \<Longrightarrow> in_sync (snd (Start_run z now io s))"
    "distinct (ids s) \<Longrightarrow> distinct (ids (snd (Start_run z now io s)))"
    by (auto simp: Start_run_def saveLocked_def Let_def same_runs_def in_sync_def persisted_def ids_def comp_def)
qed

lemmas small_op_defs = SetMaxConcurrent_def SetExecutor_def Cancel_def Close_begin_def signal_def
  same_runs_def in_sync_def persisted_def ids_def

interpretation max_op: management "SetMaxConcurrent n" for n
  by unfold_locales (auto simp: small_op_defs)

interpretation executor_op: management "\<lambda>s. snd (SetExecutor b s)" for b
  by unfold_locales (auto simp: small_op_defs)

interpretation cancel_op: management "\<lambda>s. snd (Cancel jid s)" for jid
  by unfold_locales (auto simp: small_op_defs split: option.splits)

interpretation close_op: management Close_begin
  by unfold_locales (auto simp: small_op_defs)

interpretation write_op: management "\<lambda>s. snd (writeRunRecord io job run resp s)" for io job run resp
  by unfold_locales (auto simp: small_op_defs writeRunRecord_def)

subsection \<open>Launching\<close>

lemma run_table_snoc:
  "job_ID job \<notin> set (run_ids runs) \<Longrightarrow>
   run_table (runs @ [(tok, job)]) = (run_table runs)(job_ID job \<mapsto> tok)"
proof (rule ext)
  fix k
  assume new: "job_ID job \<notin> set (run_ids runs)"
  show "run_table (runs @ [(tok, job)]) k = ((run_table runs)(job_ID job \<mapsto> tok)) k"
  proof (cases "k = job_ID job")
    case True
    with new have "map_of (map (\<lambda>(tok, job). (job_ID job, tok)) runs) k = None"
      by (auto simp: map_of_eq_None_iff run_ids_def)
    with True show ?thesis by (simp add: run_table_def map_add_def)
  qed (simp add: run_table_def map_add_def split: option.splits)
qed

lemma run_table_None: "run_table runs k = None \<longleftrightarrow> k \<notin> set (run_ids runs)"
  by (simp add: run_table_def run_ids_def map_of_eq_None_iff image_image case_prod_beta)

text \<open>A run registered for a job that has none keeps the invariant; the job list only gets its pending flag.\<close>

lemma register_inv:
  assumes inv: "cron_inv y" and i: "i < length (svc_jobs (sys_svc y))"
    and free: "svc_active (sys_svc y) (job_ID (svc_jobs (sys_svc y) ! i)) = None"
    and job': "job' = (svc_jobs (sys_svc y) ! i)\<lparr>job_State := (job_State (svc_jobs (sys_svc y) ! i))\<lparr>st_Pending := True\<rparr>\<rparr>"
    and snap: "job_ID snap = job_ID job'"
    and s': "svc_jobs s' = (svc_jobs (sys_svc y))[i := job']"
      "svc_active s' = (svc_active (sys_svc y))(job_ID job' \<mapsto> svc_nextToken (sys_svc y))"
      "svc_nextToken s' = Suc (svc_nextToken (sys_svc y))" "svc_disk s' = svc_disk (sys_svc y)"
      "svc_dirty s' = svc_dirty (sys_svc y)" "svc_version s' = svc_version (sys_svc y)"
  shows "cron_inv \<lparr>sys_svc = s', sys_runs = sys_runs y @ [(svc_nextToken (sys_svc y), snap)]\<rparr> \<and> ids s' = ids (sys_svc y)"
proof -
  let ?s = "sys_svc y"
  have id': "job_ID job' = job_ID (svc_jobs ?s ! i)" by (simp add: job')
  have ids: "ids s' = ids ?s" using ids_update [OF i id'] by (simp add: ids_def s'(1))
  have new: "job_ID snap \<notin> set (run_ids (sys_runs y))"
    using inv free run_table_None id' snap by (metis cron_inv_def)
  have "map persist_job (svc_jobs s') = map persist_job (svc_jobs ?s)"
    using i by (simp add: s'(1) map_update job' list_update_same_conv)
  then have sync: "in_sync s'" using inv by (simp add: cron_inv_def in_sync_def persisted_def s'(4,5,6))
  have "svc_nextToken ?s \<notin> fst ` set (sys_runs y)" using inv by (fastforce simp: cron_inv_def)
  moreover have "svc_active s' = run_table (sys_runs y @ [(svc_nextToken ?s, snap)])"
    using inv s'(2) snap by (simp add: run_table_snoc [OF new] cron_inv_def)
  moreover have "distinct (run_ids (sys_runs y @ [(svc_nextToken ?s, snap)]))"
    using inv new by (simp add: cron_inv_def run_ids_def)
  moreover have "\<forall>(tok, job) \<in> set (sys_runs y @ [(svc_nextToken ?s, snap)]). tok < svc_nextToken s'"
    using inv by (auto simp: cron_inv_def s'(3) less_Suc_eq)
  ultimately show ?thesis using inv ids sync by (simp add: cron_inv_def)
qed

lemma launch_all_inv:
  assumes "cron_inv y" "distinct (map fst cs)"
    "\<forall>(i, at) \<in> set cs. i < length (svc_jobs (sys_svc y)) \<and> svc_active (sys_svc y) (job_ID (svc_jobs (sys_svc y) ! i)) = None"
    "launch_all cs (sys_svc y) = (ls, s')"
  shows "cron_inv \<lparr>sys_svc = s', sys_runs = sys_runs y @ ls\<rparr> \<and> ids s' = ids (sys_svc y)"
  using assms
proof (induction cs arbitrary: y ls)
  case Nil
  then show ?case by (cases y) simp
next
  case (Cons c cs)
  obtain i at where c: "c = (i, at)" by (cases c)
  let ?s = "sys_svc y" and ?job = "svc_jobs (sys_svc y) ! i"
  obtain snap s1 where one: "launch_one c ?s = ((svc_nextToken ?s, snap), s1)" and snap: "job_ID snap = job_ID ?job"
    and s1: "svc_jobs s1 = (svc_jobs ?s)[i := ?job\<lparr>job_State := (job_State ?job)\<lparr>st_Pending := True\<rparr>\<rparr>]"
      "svc_active s1 = (svc_active ?s)(job_ID ?job \<mapsto> svc_nextToken ?s)" "svc_nextToken s1 = Suc (svc_nextToken ?s)"
      "svc_disk s1 = svc_disk ?s" "svc_dirty s1 = svc_dirty ?s" "svc_version s1 = svc_version ?s"
    by (simp add: launch_one_def c Let_def)
  obtain ls1 where rest: "launch_all cs s1 = (ls1, s')" "ls = (svc_nextToken ?s, snap) # ls1"
    using Cons.prems(4) one by (cases "launch_all cs s1") auto
  let ?y1 = "\<lparr>sys_svc = s1, sys_runs = sys_runs y @ [(svc_nextToken ?s, snap)]\<rparr>"
  have i: "i < length (svc_jobs ?s)" "svc_active ?s (job_ID ?job) = None" using Cons.prems(3) c by auto
  have y1: "cron_inv ?y1" "ids s1 = ids ?s"
    using register_inv [OF Cons.prems(1) i refl _ s1(1) _ s1(3-6), of snap] snap s1(2) by auto
  have others: "k < length (svc_jobs s1) \<and> svc_active s1 (job_ID (svc_jobs s1 ! k)) = None"
    if "(k, b) \<in> set cs" for k b
  proof -
    have k: "k < length (svc_jobs ?s)" "svc_active ?s (job_ID (svc_jobs ?s ! k)) = None" "k \<noteq> i"
      using Cons.prems(2,3) that c by (auto simp: rev_image_eqI)
    have "job_ID (svc_jobs ?s ! k) \<noteq> job_ID ?job"
      using Cons.prems(1) k(1,3) i(1) by (auto simp: cron_inv_def ids_def distinct_conv_nth)
    with k show ?thesis by (simp add: s1)
  qed
  have "cron_inv \<lparr>sys_svc = s', sys_runs = sys_runs ?y1 @ ls1\<rparr> \<and> ids s' = ids (sys_svc ?y1)"
    using others Cons.prems(2) rest(1) by (intro Cons.IH [OF y1(1)]) auto
  then show ?case using rest(2) y1(2) by simp
qed

lemma candidates_ok:
  "(i, at) \<in> set (candidates now s) \<Longrightarrow>
   i < length (svc_jobs s) \<and> due now s (svc_jobs s ! i) \<and> st_NextRunAtMS (job_State (svc_jobs s ! i)) = Some at"
  by (auto simp: candidates_def due_def split: if_splits option.splits)

lemma distinct_candidates: "distinct (map fst (candidates now s))"
proof -
  have "map fst (concat (map (\<lambda>i. if P i then [(i, f i)] else []) xs)) = filter P xs" for P xs and f :: "nat \<Rightarrow> int"
    by (induction xs) auto
  then have "map fst (candidates now s) = filter (\<lambda>i. due now s (svc_jobs s ! i)) [0..<length (svc_jobs s)]"
    unfolding candidates_def .
  then show ?thesis by simp
qed

lemma distinct_map_SliceStable: "distinct (map f (SliceStable lt xs)) = distinct (map f xs)"
proof -
  have "mset (map f (SliceStable lt xs)) = mset (map f xs)" by simp
  then show ?thesis using mset_eq_imp_distinct_iff by blast
qed

text \<open>The dispatcher's launch list: due jobs, no job twice, and within the free capacity.\<close>

definition launch_list :: "int \<Rightarrow> Service \<Rightarrow> (nat \<times> int) list" where
  "launch_list now s =
     (let cs = SliceStable (\<lambda>a b. snd a < snd b) (candidates now s);
          capacity = max 0 (svc_maxConcurrent s - int (active_count s))
      in if int (length cs) > capacity then take (nat capacity) cs else cs)"

lemma launch_list_ok:
  "distinct (map fst (launch_list now s))" "set (launch_list now s) \<subseteq> set (candidates now s)"
  "int (length (launch_list now s)) \<le> max 0 (svc_maxConcurrent s - int (active_count s))"
proof -
  let ?cs = "SliceStable (\<lambda>a b. snd a < snd b) (candidates now s)"
  have "distinct (map fst ?cs)" using distinct_candidates distinct_map_SliceStable by metis
  then show "distinct (map fst (launch_list now s))"
    by (simp add: launch_list_def Let_def take_map [symmetric] distinct_take)
  show "set (launch_list now s) \<subseteq> set (candidates now s)"
    using set_take_subset [of _ ?cs] by (auto simp: launch_list_def Let_def split: if_splits)
  let ?cap = "max 0 (svc_maxConcurrent s - int (active_count s))"
  show "int (length (launch_list now s)) \<le> ?cap"
  proof (cases "int (length ?cs) > ?cap")
    case True
    then have "launch_list now s = take (nat ?cap) ?cs" by (simp only: launch_list_def Let_def if_True)
    then show ?thesis by (simp only: length_take)
  next
    case False
    then have "launch_list now s = ?cs" by (simp only: launch_list_def Let_def if_False)
    with False show ?thesis by (simp only:)
  qed
qed

lemma dispatchDue_cases:
  assumes "dispatchDue now io s = (ls, s')"
  obtains (idle) "ls = []" "s' = s \<or> s' = snd (saveLocked io s)"
  | (launch) t where "\<not> svc_closed s" "\<not> svc_dirty t" "launch_all (launch_list now t) t = (ls, s')"
      "t = s \<or> (svc_dirty s \<and> t = snd (saveLocked io s) \<and> io)"
proof (cases "svc_closed s \<or> (svc_dirty s \<and> \<not> io)")
  case True
  with assms show ?thesis
    by (intro idle) (auto simp: dispatchDue_def saveLocked_def split: if_splits)
next
  case False
  let ?t = "if svc_dirty s then snd (saveLocked io s) else s"
  have "launch_all (launch_list now ?t) ?t = (ls, s')"
    using assms False by (auto simp: dispatchDue_def saveLocked_def launch_list_def Let_def split: if_splits)
  with False show ?thesis by (intro launch [of ?t]) (auto simp: saveLocked_def)
qed

lemma saveLocked_inv: "cron_inv y \<Longrightarrow> cron_inv (y\<lparr>sys_svc := snd (saveLocked io (sys_svc y))\<rparr>)"
  by (auto simp: cron_inv_def ids_def)

lemma dispatch_inv:
  assumes "cron_inv y" "dispatchDue now io (sys_svc y) = (ls, s')"
  shows "cron_inv \<lparr>sys_svc = s', sys_runs = sys_runs y @ ls\<rparr>"
  using assms(2)
proof (cases rule: dispatchDue_cases)
  case idle
  then show ?thesis using assms(1) saveLocked_inv [OF assms(1), of io] by (cases y) auto
next
  case (launch t)
  let ?y = "y\<lparr>sys_svc := t\<rparr>"
  have "cron_inv ?y" using launch(4) assms(1) saveLocked_inv [OF assms(1), of io] by (cases y) auto
  moreover have "\<forall>(i, at) \<in> set (launch_list now t). i < length (svc_jobs t) \<and> svc_active t (job_ID (svc_jobs t ! i)) = None"
    using launch_list_ok(2) candidates_ok by (fastforce simp: due_def)
  ultimately show ?thesis using launch_all_inv [of ?y "launch_list now t" ls s'] launch(3) launch_list_ok(1) by simp
qed

lemma RunNow_cases:
  assumes "RunNow now io jid force s = (r, s')"
  obtains (err) e where "r = Inl e" "s' = s \<or> s' = snd (saveLocked io s)"
  | (ok) t i job snap where "r = Inr (svc_nextToken t, snap)" "\<not> svc_closed s" "\<not> svc_dirty t"
      "t = s \<or> (svc_dirty s \<and> t = snd (saveLocked io s) \<and> io)"
      "indexLocked jid t = Some i" "svc_active t jid = None" "int (active_count t) < svc_maxConcurrent t"
      "job = svc_jobs t ! i" "force \<or> job_Enabled job"
      "snap = job\<lparr>job_ScheduledForMS := now, job_IdempotencyKey := idempotencyKey (job_ID job) now\<rparr>"
      "s' = t\<lparr>svc_active := (svc_active t)(jid \<mapsto> svc_nextToken t), svc_nextToken := Suc (svc_nextToken t),
             svc_jobs := (svc_jobs t)[i := job\<lparr>job_State := (job_State job)\<lparr>st_Pending := True\<rparr>\<rparr>],
             svc_wg := Suc (svc_wg t)\<rparr>"
proof (cases "svc_closed s \<or> (svc_dirty s \<and> \<not> io)")
  case True
  with assms show ?thesis
    by (auto simp: RunNow_def saveLocked_def split: if_splits intro: err)
next
  case False
  define t where "t = (if svc_dirty s then snd (saveLocked io s) else s)"
  have t: "\<not> svc_dirty t" "t = s \<or> (svc_dirty s \<and> t = snd (saveLocked io s) \<and> io)"
    using False by (auto simp: t_def saveLocked_def)
  have pre: "(if svc_dirty s then saveLocked io s else (None, s)) = (None, t)"
    using False by (auto simp: t_def saveLocked_def)
  show ?thesis
  proof (cases "indexLocked jid t")
    case None
    with assms False pre t(2) show ?thesis by (auto simp: RunNow_def intro: err)
  next
    case (Some i)
    show ?thesis
    proof (cases "svc_active t jid \<noteq> None \<or> int (active_count t) \<ge> svc_maxConcurrent t
        \<or> (\<not> force \<and> \<not> job_Enabled (svc_jobs t ! i)) \<or> validateBoundJob (svc_jobs t ! i) \<noteq> None")
      case True
      then have "isl r \<and> s' = t" using assms False pre Some
        by (auto simp: RunNow_def Let_def split: if_splits option.splits)
      with t(2) show ?thesis by (cases r) (auto intro: err)
    next
      case ok_now: False
      with assms False pre Some t show ?thesis
        by (intro ok [of t "(svc_jobs t ! i)\<lparr>job_ScheduledForMS := now,
               job_IdempotencyKey := idempotencyKey (job_ID (svc_jobs t ! i)) now\<rparr>" i "svc_jobs t ! i"])
           (auto simp: RunNow_def Let_def)
    qed
  qed
qed

lemma runnow_inv:
  assumes "cron_inv y" "RunNow now io jid force (sys_svc y) = (r, s')"
  shows "cron_inv \<lparr>sys_svc = s', sys_runs = sys_runs y @ (case r of Inl _ \<Rightarrow> [] | Inr l \<Rightarrow> [l])\<rparr>"
  using assms(2)
proof (cases rule: RunNow_cases)
  case (err e)
  then show ?thesis using assms(1) saveLocked_inv [OF assms(1), of io] by (cases y) auto
next
  case (ok t i job snap)
  let ?y = "y\<lparr>sys_svc := t\<rparr>"
  have y: "cron_inv ?y" using ok(4) assms(1) saveLocked_inv [OF assms(1), of io] by (cases y) auto
  have i: "i < length (svc_jobs t)" "job_ID job = jid" using indexLocked_Some [OF ok(5)] ok(8) by auto
  have "cron_inv \<lparr>sys_svc = s', sys_runs = sys_runs ?y @ [(svc_nextToken (sys_svc ?y), snap)]\<rparr> \<and> ids s' = ids (sys_svc ?y)"
    by (rule register_inv [OF y, of i "job\<lparr>job_State := (job_State job)\<lparr>st_Pending := True\<rparr>\<rparr>"])
       (use i ok in auto)
  then show ?thesis using ok(1) by simp
qed

subsection \<open>Finishing\<close>

lemma finish_job_ID: "finish_job z end_ms snap job = Some (Some j) \<Longrightarrow> job_ID j = job_ID job"
proof (cases "nextRecurringAfter z (job_Schedule job) end_ms (job_ScheduledForMS snap)")
  case (Some r)
  then show "finish_job z end_ms snap job = Some (Some j) \<Longrightarrow> job_ID j = job_ID job"
    by (cases r) (auto simp: finish_job_def split: if_splits)
qed (auto simp: finish_job_def split: if_splits)

lemma execute_finish_effect:
  assumes "execute_finish z end_ms io snap rec out s = Some s'"
  shows "svc_active s' = (svc_active s)(job_ID snap := None)" "svc_nextToken s' = svc_nextToken s"
    "distinct (ids s) \<Longrightarrow> distinct (ids s')" "in_sync s \<Longrightarrow> in_sync s'"
proof -
  let ?s = "s\<lparr>svc_active := (svc_active s)(job_ID snap := None)\<rparr>"
  have frame: "ids ?s = ids s" "in_sync ?s = in_sync s" by (simp_all add: ids_def in_sync_def persisted_def)
  show "svc_active s' = (svc_active s)(job_ID snap := None)" "svc_nextToken s' = svc_nextToken s"
    using assms by (auto simp: execute_finish_def Let_def split: option.splits)
  show "in_sync s \<Longrightarrow> in_sync s'"
    using assms frame(2) by (auto simp: execute_finish_def Let_def split: option.splits)
  show "distinct (ids s) \<Longrightarrow> distinct (ids s')"
  proof (cases "indexLocked (job_ID snap) ?s")
    case None
    then show "distinct (ids s) \<Longrightarrow> distinct (ids s')"
      using assms frame(1) by (auto simp: execute_finish_def Let_def)
  next
    case (Some i)
    note i = indexLocked_Some [OF Some]
    have upd: "map job_ID ((svc_jobs s)[i := j]) = ids s" if "job_ID j = job_ID (svc_jobs s ! i)" for j
      using ids_update [of i s j] i that by simp
    obtain kept where kept: "finish_job z end_ms snap (record_run end_ms snap rec out (svc_jobs s ! i)) = Some kept"
      "ids s' = map job_ID (case kept of None \<Rightarrow> remove_at i (svc_jobs s) | Some j \<Rightarrow> (svc_jobs s)[i := j])"
      using assms Some by (auto simp: execute_finish_def Let_def ids_def cong: option.case_cong)
    show "distinct (ids s) \<Longrightarrow> distinct (ids s')"
    proof (cases kept)
      case None
      with kept(2) show "distinct (ids s) \<Longrightarrow> distinct (ids s')"
        by (simp add: remove_at_map distinct_remove_at ids_def)
    next
      case (Some j)
      have "job_ID j = job_ID (svc_jobs s ! i)" using finish_job_ID kept(1) Some by fastforce
      with kept(2) Some upd show "distinct (ids s) \<Longrightarrow> distinct (ids s')" by simp
    qed
  qed
qed

lemma run_table_remove:
  assumes "distinct (run_ids runs)" "distinct (map fst runs)" "(tok, job) \<in> set runs"
  shows "run_table (filter (\<lambda>r. fst r \<noteq> tok) runs) = (run_table runs)(job_ID job := None)"
  using assms
proof (induction runs)
  case (Cons r runs)
  obtain t j where r: "r = (t, j)" by (cases r)
  show ?case
  proof (cases "t = tok")
    case True
    then have "(tok, job) \<notin> set runs" using Cons.prems(2) r by force
    then have j: "j = job" using Cons.prems(3) r by simp
    have "filter (\<lambda>r. fst r \<noteq> tok) runs = runs"
      using Cons.prems(2) r True by (auto simp: filter_eq_self_iff rev_image_eqI)
    moreover have "run_table runs (job_ID job) = None"
      using Cons.prems(1) r j by (simp add: run_table_None run_ids_def)
    ultimately show ?thesis using r True j by (auto simp: run_table_def)
  next
    case False
    then have mem: "(tok, job) \<in> set runs" using Cons.prems(3) r by simp
    then have "job_ID j \<noteq> job_ID job" using Cons.prems(1) r by (force simp: run_ids_def)
    with False mem Cons r show ?thesis by (auto simp: run_table_def run_ids_def)
  qed
qed simp

lemma finish_inv:
  assumes inv: "cron_inv y" and run: "(tok, snap) \<in> set (sys_runs y)" and snap': "job_ID snap' = job_ID snap"
    and fin: "execute_finish z end_ms io snap' rec out (sys_svc y) = Some s'"
  shows "cron_inv \<lparr>sys_svc = s'\<lparr>svc_wg := n\<rparr>, sys_runs = filter (\<lambda>r. fst r \<noteq> tok) (sys_runs y)\<rparr>"
proof -
  note eff = execute_finish_effect [OF fin]
  have "distinct (run_ids (filter (\<lambda>r. fst r \<noteq> tok) (sys_runs y)))"
    "distinct (map fst (filter (\<lambda>r. fst r \<noteq> tok) (sys_runs y)))"
    using inv by (simp_all add: cron_inv_def run_ids_def distinct_map_filter)
  moreover have "svc_active s' = run_table (filter (\<lambda>r. fst r \<noteq> tok) (sys_runs y))"
    using run_table_remove [OF _ _ run] inv eff(1) snap' by (simp add: cron_inv_def)
  ultimately show ?thesis using inv eff by (auto simp: cron_inv_def in_sync_def persisted_def ids_def)
qed

subsection \<open>The step relation\<close>

definition stored_ids :: "store_file \<Rightarrow> string list" where
  "stored_ids f = (case f of Stored st \<Rightarrow> map job_ID (store_Jobs st) | _ \<Rightarrow> [])"

inductive cron_step :: "zones \<Rightarrow> cron_sys \<Rightarrow> cron_sys \<Rightarrow> bool" for z where
  step_add: "cron_step z y (y\<lparr>sys_svc := snd (AddJob z now fresh io job (sys_svc y))\<rparr>)"
| step_update: "cron_step z y (y\<lparr>sys_svc := snd (UpdateJob z now now' io jid u (sys_svc y))\<rparr>)"
| step_remove: "cron_step z y (y\<lparr>sys_svc := snd (RemoveJob io jid (sys_svc y))\<rparr>)"
| step_upsert: "cron_step z y (y\<lparr>sys_svc := snd (UpsertSystemJob z now io job (sys_svc y))\<rparr>)"
| step_start: "cron_step z y (y\<lparr>sys_svc := snd (Start_run z now io (sys_svc y))\<rparr>)"
| step_max: "cron_step z y (y\<lparr>sys_svc := SetMaxConcurrent n (sys_svc y)\<rparr>)"
| step_executor: "cron_step z y (y\<lparr>sys_svc := snd (SetExecutor b (sys_svc y))\<rparr>)"
| step_cancel: "cron_step z y (y\<lparr>sys_svc := snd (Cancel jid (sys_svc y))\<rparr>)"
| step_close: "cron_step z y (y\<lparr>sys_svc := Close_begin (sys_svc y)\<rparr>)"
| step_close_end: "Close_end ctx (sys_svc y) = Some (r, s') \<Longrightarrow> cron_step z y (y\<lparr>sys_svc := s'\<rparr>)"
| step_loop_exit: "loop_exit (sys_svc y) = Some s' \<Longrightarrow> cron_step z y (y\<lparr>sys_svc := s'\<rparr>)"
| step_write: "(tok, snap) \<in> set (sys_runs y) \<Longrightarrow>
    cron_step z y (y\<lparr>sys_svc := snd (writeRunRecord io snap run resp (sys_svc y))\<rparr>)"
| step_dispatch: "dispatchDue now io (sys_svc y) = (ls, s') \<Longrightarrow>
    cron_step z y \<lparr>sys_svc = s', sys_runs = sys_runs y @ ls\<rparr>"
| step_run_now: "RunNow now io jid force (sys_svc y) = (r, s') \<Longrightarrow>
    cron_step z y \<lparr>sys_svc = s', sys_runs = sys_runs y @ (case r of Inl _ \<Rightarrow> [] | Inr l \<Rightarrow> [l])\<rparr>"
| step_finish: "(tok, snap) \<in> set (sys_runs y) \<Longrightarrow> snap' = execute_snapshot start snap \<Longrightarrow>
    execute_finish z end_ms io snap' (execute_record start duration snap' result out) out (sys_svc y) = Some s' \<Longrightarrow>
    cron_step z y \<lparr>sys_svc = s'\<lparr>svc_wg := svc_wg s' - 1\<rparr>, sys_runs = filter (\<lambda>r. fst r \<noteq> tok) (sys_runs y)\<rparr>"

inductive cron_reach :: "zones \<Rightarrow> cron_sys \<Rightarrow> bool" for z where
  reach_start: "distinct (stored_ids disk) \<Longrightarrow>
    Start z rename_ok lease_ok now io (NewService executor disk runs) = (None, s) \<Longrightarrow>
    cron_reach z \<lparr>sys_svc = s, sys_runs = []\<rparr>"
| reach_step: "cron_reach z y \<Longrightarrow> cron_step z y y' \<Longrightarrow> cron_reach z y'"

inductive_cases cron_stepE: "cron_step z y y'"

lemma execute_snapshot_ID [simp]: "job_ID (execute_snapshot start snap) = job_ID snap"
  by (simp add: execute_snapshot_def Let_def)

lemma frame_inv:
  assumes "cron_inv y" "svc_jobs s' = svc_jobs (sys_svc y)" "svc_active s' = svc_active (sys_svc y)"
    "svc_nextToken s' = svc_nextToken (sys_svc y)" "svc_disk s' = svc_disk (sys_svc y)"
    "svc_dirty s' = svc_dirty (sys_svc y)" "svc_version s' = svc_version (sys_svc y)"
  shows "cron_inv (y\<lparr>sys_svc := s'\<rparr>)"
  using assms by (simp add: cron_inv_def ids_def in_sync_def persisted_def)

lemma cron_step_inv:
  assumes "cron_step z y y'" "cron_inv y"
  shows "cron_inv y'"
  using assms(1)
proof (cases rule: cron_step.cases)
  case (step_close_end ctx r s')
  then show ?thesis
    using assms(2) by (auto simp: Close_end_def split: option.splits if_splits intro: frame_inv)
next
  case (step_loop_exit s')
  then show ?thesis using assms(2) by (auto simp: loop_exit_def split: if_splits intro!: frame_inv)
next
  case (step_finish tok snap snap' start end_ms io duration result out s')
  then show ?thesis using finish_inv [OF assms(2), of tok snap snap'] by auto
qed (use assms(2) in \<open>auto intro: add_op.inv_step update_op.inv_step remove_op.inv_step upsert_op.inv_step
      start_op.inv_step max_op.inv_step executor_op.inv_step cancel_op.inv_step close_op.inv_step
      write_op.inv_step dispatch_inv runnow_inv\<close>)

lemma Start_inv:
  assumes "distinct (stored_ids disk)"
    and "Start z rename_ok lease_ok now io (NewService executor disk runs) = (None, s)"
  shows "cron_inv \<lparr>sys_svc = s, sys_runs = []\<rparr>"
proof -
  let ?n = "NewService executor disk runs"
  obtain t where t: "Load rename_ok ?n = (None, t)" "Start_run z now io t = (None, s)"
    using assms(2) by (auto simp: Start_def Start_load_def NewService_def split: prod.splits option.splits if_splits)
  have load: "distinct (ids t)" "svc_active t = Map.empty" "svc_running t = False"
    using t(1) assms(1)
    by (auto simp: Load_def loadLocked_def NewService_def ids_def stored_ids_def Let_def comp_def
        split: store_file.splits if_splits)
  have "in_sync s"
    using t(2) load(3) by (auto simp: Start_run_def saveLocked_def in_sync_def persisted_def Let_def split: if_splits)
  moreover have "distinct (ids s)" "svc_active s = Map.empty"
    using start_op.keeps_ids [OF load(1), of z now io] start_op.keeps_runs [of t z now io] load(2) t(2)
    by (simp_all add: same_runs_def)
  ultimately show ?thesis by (simp add: cron_inv_def run_ids_def run_table_def)
qed

lemma cron_reach_inv: "cron_reach z y \<Longrightarrow> cron_inv y"
  by (induction rule: cron_reach.induct) (auto intro: Start_inv cron_step_inv)

section \<open>Dispatching\<close>

lemma launch_one_frame [simp]:
  "svc_dirty (snd (launch_one c s)) = svc_dirty s" "svc_version (snd (launch_one c s)) = svc_version s"
  "svc_maxConcurrent (snd (launch_one c s)) = svc_maxConcurrent s"
  by (simp_all add: launch_one_def Let_def case_prod_beta)

lemma launch_all_dirty: "svc_dirty (snd (launch_all cs s)) = svc_dirty s"
  by (induction cs arbitrary: s) (simp_all add: case_prod_beta Let_def)

definition launch_info :: "nat \<times> Job \<Rightarrow> string \<times> int \<times> string" where
  "launch_info l = (job_ID (snd l), job_ScheduledForMS (snd l), job_IdempotencyKey (snd l))"

lemma launch_all_info:
  assumes "launch_all cs s = (ls, s')" "\<forall>(i, at) \<in> set cs. i < length (svc_jobs s)"
  shows "map launch_info ls = map (\<lambda>(i, at). (job_ID (svc_jobs s ! i), at, idempotencyKey (job_ID (svc_jobs s ! i)) at)) cs"
  using assms
proof (induction cs arbitrary: s ls)
  case (Cons c cs)
  obtain i at where c: "c = (i, at)" by (cases c)
  obtain l s1 where one: "launch_one c s = (l, s1)" by (cases "launch_one c s")
  obtain ls1 where rest: "launch_all cs s1 = (ls1, s')" "ls = l # ls1"
    using Cons.prems(1) one by (cases "launch_all cs s1") auto
  have s1: "svc_jobs s1 = (svc_jobs s)[i := (svc_jobs s ! i)\<lparr>job_State := (job_State (svc_jobs s ! i))\<lparr>st_Pending := True\<rparr>\<rparr>]"
    "launch_info l = (job_ID (svc_jobs s ! i), at, idempotencyKey (job_ID (svc_jobs s ! i)) at)"
    using one by (auto simp: launch_one_def Let_def c launch_info_def)
  have ids: "job_ID (svc_jobs s1 ! k) = job_ID (svc_jobs s ! k)" if "k < length (svc_jobs s)" for k
    using that by (cases "k = i") (simp_all add: s1(1))
  have "map launch_info ls1 = map (\<lambda>(i, at). (job_ID (svc_jobs s1 ! i), at, idempotencyKey (job_ID (svc_jobs s1 ! i)) at)) cs"
    using Cons.IH [OF rest(1)] Cons.prems(2) by (simp add: s1(1))
  also have "\<dots> = map (\<lambda>(i, at). (job_ID (svc_jobs s ! i), at, idempotencyKey (job_ID (svc_jobs s ! i)) at)) cs"
    using Cons.prems(2) ids by auto
  finally show ?case using rest(2) s1(2) c by simp
qed simp

lemma due_candidate:
  assumes "i < length (svc_jobs s)" "due now s (svc_jobs s ! i)"
  shows "(i, the (st_NextRunAtMS (job_State (svc_jobs s ! i)))) \<in> set (candidates now s)"
  using assms by (auto simp: candidates_def)

lemma launch_list_earliest:
  shows "sorted (map snd (launch_list now s))"
    and "c \<in> set (candidates now s) \<Longrightarrow> c \<notin> set (launch_list now s) \<Longrightarrow>
      int (length (launch_list now s)) = max 0 (svc_maxConcurrent s - int (active_count s))
      \<and> (\<forall>l \<in> set (launch_list now s). snd l \<le> snd c)"
proof -
  let ?cs = "SliceStable (\<lambda>a b. snd a < snd b) (candidates now s)"
    and ?cap = "max 0 (svc_maxConcurrent s - int (active_count s))"
  have "weak_order (\<lambda>a b :: nat \<times> int. snd a < snd b)" by (auto simp: weak_order_def)
  from sorted_SliceStable [OF this] have srt: "sorted_wrt (\<lambda>a b. snd a \<le> snd b) ?cs" by (simp add: not_less)
  have cut: "launch_list now s = (if int (length ?cs) > ?cap then take (nat ?cap) ?cs else ?cs)"
    by (simp only: launch_list_def Let_def)
  show "sorted (map snd (launch_list now s))"
    using srt sorted_wrt_take [OF srt] unfolding cut by (auto simp: sorted_map)
  show "int (length (launch_list now s)) = ?cap \<and> (\<forall>l \<in> set (launch_list now s). snd l \<le> snd c)"
    if c: "c \<in> set (candidates now s)" "c \<notin> set (launch_list now s)"
  proof -
    have big: "int (length ?cs) > ?cap"
    proof (rule ccontr)
      assume "\<not> int (length ?cs) > ?cap"
      then have "launch_list now s = ?cs" unfolding cut by (simp only: if_False)
      with c show False by simp
    qed
    then have l: "launch_list now s = take (nat ?cap) ?cs" unfolding cut by (simp only: if_True)
    have "c \<in> set (drop (nat ?cap) ?cs)"
      using c l by (metis Un_iff append_take_drop_id set_SliceStable set_append)
    moreover have "sorted_wrt (\<lambda>a b. snd a \<le> snd b) (take (nat ?cap) ?cs @ drop (nat ?cap) ?cs)"
      using srt by simp
    ultimately have "\<forall>l \<in> set (launch_list now s). snd l \<le> snd c"
      unfolding l sorted_wrt_append by blast
    moreover have "length (launch_list now s) = nat ?cap" using big unfolding l length_take by linarith
    ultimately show ?thesis by simp
  qed
qed

section \<open>Ordering of jobs\<close>

lemma job_before_trans: "\<not> job_before x y \<Longrightarrow> \<not> job_before y w \<Longrightarrow> \<not> job_before x w"
  using string_less_trans [of "job_Name x" "job_Name y" "job_Name w"]
  by (cases "st_NextRunAtMS (job_State x)"; cases "st_NextRunAtMS (job_State y)"; cases "st_NextRunAtMS (job_State w)")
     (simp_all add: job_before_def)

lemma weak_order_job_before: "weak_order job_before"
proof -
  have "\<not> job_before y x" if "job_before x y" for x y
    using that string_less_asym by (auto simp: job_before_def split: option.splits)
  with job_before_trans show ?thesis unfolding weak_order_def by blast
qed

section \<open>A small run of the service\<close>

text \<open>The states the witnesses use: a started service, one recurring job added, the job due.\<close>

definition demo_job :: Job where
  "demo_job = \<lparr>job_ID = ''j1'', job_Name = ''ping'', job_Enabled = False,
     job_Schedule = \<lparr>sch_Kind = ''every'', sch_AtMS = None, sch_EveryMS = Some 1000, sch_Expr = [], sch_TZ = []\<rparr>,
     job_Payload = \<lparr>pl_Kind = [], pl_Message = ''hello'', pl_SystemEvent = [], pl_SessionKey = ''s'',
        pl_OriginChannel = ''cli'', pl_OriginChatID = ''1'', pl_OriginMetadata = []\<rparr>,
     job_State = \<lparr>st_NextRunAtMS = None, st_LastRunAtMS = None, st_LastScheduledForMS = None, st_LastStatus = [],
        st_LastError = None, st_LastIdempotencyKey = [], st_RunHistory = [], st_Pending = False\<rparr>,
     job_CreatedAtMS = 0, job_UpdatedAtMS = 0, job_DeleteAfterRun = False, job_TimeoutMS = 0, job_MisfirePolicy = [],
     job_MisfireGraceMS = 0, job_ScheduledForMS = 0, job_IdempotencyKey = []\<rparr>"

definition demo_stored :: Job where
  "demo_stored = demo_job\<lparr>job_Enabled := True, job_Payload := (job_Payload demo_job)\<lparr>pl_Kind := ''agent_turn''\<rparr>,
     job_MisfirePolicy := ''fire_once'', job_CreatedAtMS := 5000, job_UpdatedAtMS := 5000,
     job_State := (job_State demo_job)\<lparr>st_NextRunAtMS := Some 6000\<rparr>\<rparr>"

lemma demo_new_job: "new_job utc_zones 5000 ''x'' demo_job = Inr demo_stored"
  by code_simp

definition demo_started :: Service where
  "demo_started = snd (Start utc_zones True True 0 True (NewService True NoFile Map.empty))"

definition demo_service :: Service where
  "demo_service = snd (AddJob utc_zones 5000 ''x'' True demo_job demo_started)"

lemma demo_started_simps:
  "Start utc_zones True True 0 True (NewService True NoFile Map.empty) = (None, demo_started)"
  "svc_jobs demo_started = []" "svc_active demo_started = Map.empty" "svc_dirty demo_started = False"
  "svc_closed demo_started = False" "svc_maxConcurrent demo_started = 2" "svc_nextToken demo_started = 0"
  by (simp_all add: demo_started_def Start_def Start_load_def Load_def loadLocked_def NewService_def Start_run_def
      saveLocked_def Let_def defaultMaxConcurrent_def signal_def)

lemma demo_service_simps:
  "svc_jobs demo_service = [demo_stored]" "svc_active demo_service = Map.empty" "svc_dirty demo_service = False"
  "svc_closed demo_service = False" "svc_maxConcurrent demo_service = 2" "svc_nextToken demo_service = 0"
  by (simp_all add: demo_service_def AddJob_def demo_new_job indexLocked_def saveLocked_def demo_started_simps Let_def signal_def)

lemma demo_dispatch:
  "\<exists>s' snap. dispatchDue 7000 True demo_service = ([(0, snap)], s') \<and> job_ID snap = ''j1''
     \<and> job_ScheduledForMS snap = 6000"
  by (simp add: dispatchDue_def demo_service_simps candidates_def due_def SliceStable_def active_count_def
      launch_one_def Let_def demo_stored_def demo_job_def)

lemma demo_reach: "cron_reach utc_zones \<lparr>sys_svc = demo_service, sys_runs = []\<rparr>"
proof -
  have "cron_reach utc_zones \<lparr>sys_svc = demo_started, sys_runs = []\<rparr>"
    by (rule reach_start [OF _ demo_started_simps(1)]) (simp add: stored_ids_def)
  from reach_step [OF this step_add [of _ _ 5000 "''x''" True demo_job]]
  show ?thesis by (simp add: demo_service_def)
qed

section \<open>Properties\<close>

text \<open>
  C14. One run per job: in every reachable state of the running service, the active table is exactly
  the table of in-flight runs, no job has two of them, and job ids are unique.
\<close>

theorem cron_single_flight:
  assumes "cron_reach z y"
  shows "svc_active (sys_svc y) = run_table (sys_runs y) \<and> distinct (run_ids (sys_runs y))
    \<and> distinct (map job_ID (svc_jobs (sys_svc y)))"
  using cron_reach_inv [OF assms] by (simp add: cron_inv_def ids_def)

theorem cron_single_flight_witness:
  "\<exists>y. cron_reach utc_zones y \<and> run_ids (sys_runs y) = [''j1''] \<and> svc_active (sys_svc y) = [''j1'' \<mapsto> 0]"
proof -
  obtain s' snap where d: "dispatchDue 7000 True demo_service = ([(0, snap)], s')" "job_ID snap = ''j1''"
    using demo_dispatch by blast
  let ?y = "\<lparr>sys_svc = s', sys_runs = [(0, snap)]\<rparr>"
  have y: "cron_reach utc_zones ?y"
    using reach_step [OF demo_reach step_dispatch [of 7000 True]] d(1) by simp
  with cron_single_flight [OF y] d(2) show ?thesis
    by (intro exI [of _ ?y]) (simp add: run_ids_def run_table_def)
qed

text \<open>
  C15. A run is launched only from a store that is on disk: whenever the dispatcher launches anything
  in a reachable state, the store file holds the job list in memory, so a failed write of an
  earlier run's outcome blocks every further run until it is written.
\<close>

theorem launch_only_when_persisted:
  assumes "cron_reach z y" and "dispatchDue now io (sys_svc y) = (ls, s')" and "ls \<noteq> []"
  shows "svc_disk s' = Stored (persisted s')"
proof -
  have "cron_inv \<lparr>sys_svc = s', sys_runs = sys_runs y @ ls\<rparr>"
    by (rule dispatch_inv [OF cron_reach_inv [OF assms(1)] assms(2)])
  moreover have "\<not> svc_dirty s'"
    using assms(2)
  proof (cases rule: dispatchDue_cases)
    case (launch t)
    with launch_all_dirty [of "launch_list now t" t] show ?thesis by simp
  qed (use assms(3) in simp)
  ultimately show ?thesis by (simp add: cron_inv_def in_sync_def)
qed

theorem launch_only_when_persisted_witness:
  "\<exists>ls s'. dispatchDue 7000 True demo_service = (ls, s') \<and> ls \<noteq> [] \<and> svc_disk s' = Stored (persisted s')"
proof -
  obtain s' snap where d: "dispatchDue 7000 True demo_service = ([(0, snap)], s')"
    using demo_dispatch by blast
  then have "dispatchDue 7000 True (sys_svc \<lparr>sys_svc = demo_service, sys_runs = []\<rparr>) = ([(0, snap)], s')" by simp
  from launch_only_when_persisted [OF demo_reach this] d show ?thesis by auto
qed



text \<open>
  C17. Adding, updating and removing a job are all-or-nothing: when one of them reports an error, a
  failed write of the store included, the service is exactly as before, down to the pending-write
  flag.
\<close>

theorem failed_change_rolls_back:
  "(\<forall>e s'. AddJob z now fresh io job s = (Inl e, s') \<longrightarrow> s' = s)
   \<and> (\<forall>e s'. UpdateJob z now now' io jid u s = (Inl e, s') \<longrightarrow> s' = s)
   \<and> (\<forall>e s'. RemoveJob io jid s = (Some e, s') \<longrightarrow> s' = s)"
proof (intro conjI allI impI)
  show "s' = s" if "AddJob z now fresh io job s = (Inl e, s')" for e s'
    using that by (cases rule: AddJob_cases) auto
  show "s' = s" if "UpdateJob z now now' io jid u s = (Inl e, s')" for e s'
    using that by (cases rule: UpdateJob_cases) auto
  show "s' = s" if "RemoveJob io jid s = (Some e, s')" for e s'
    using that by (cases rule: RemoveJob_cases) auto
qed

theorem failed_change_rolls_back_witness:
  "AddJob utc_zones 5000 ''x'' False demo_job demo_started = (Inl SaveFailed, demo_started)
   \<and> RemoveJob False ''j1'' demo_service = (Some SaveFailed, demo_service)"
proof -
  have "fst (AddJob utc_zones 5000 ''x'' False demo_job demo_started) = Inl SaveFailed"
    by (simp add: AddJob_def demo_new_job indexLocked_def saveLocked_def demo_started_simps Let_def)
  moreover have "fst (RemoveJob False ''j1'' demo_service) = Some SaveFailed"
    by (simp add: RemoveJob_def indexLocked_def demo_service_simps saveLocked_def Let_def demo_stored_def demo_job_def
        PayloadSystemEvent_def)
  ultimately show ?thesis
    using failed_change_rolls_back [of utc_zones 5000 "''x''" False demo_job demo_started]
      failed_change_rolls_back [where s = demo_service and io = False and jid = "''j1''"]
    by (metis prod.collapse)
qed

lemma find_index_append:
  "find_index P (xs @ ys) = (case find_index P xs of Some i \<Rightarrow> Some i | None \<Rightarrow> map_option ((+) (length xs)) (find_index P ys))"
proof (induction xs)
  case Nil
  then show ?case by (cases "find_index P ys") auto
next
  case (Cons x xs)
  then show ?case by (cases "find_index P xs"; cases "find_index P ys") auto
qed

text \<open>
  A job that was added is there: it is found under its id, the other jobs are found as before, it is
  on disk, and its next instant is the one its schedule gives after the moment of adding.
\<close>

theorem add_then_get:
  assumes "AddJob z now fresh io job s = (Inr j, s')"
  shows "GetJob (job_ID j) s' = Some (show_pending s j)
    \<and> (\<forall>k. k \<noteq> job_ID j \<longrightarrow> GetJob k s' = GetJob k s)
    \<and> svc_disk s' = Stored (persisted s')
    \<and> NextRun z (job_Schedule j) now = Inr (st_NextRunAtMS (job_State j))"
  using assms
proof (cases rule: AddJob_cases)
  case (ok j' t)
  have t: "svc_jobs t = svc_jobs s @ [j]" "svc_active t = svc_active s" "\<not> svc_dirty t" "in_sync t"
    using saved_change [OF ok(4)] ok(1) by (auto simp: same_runs_def)
  have none: "find_index (\<lambda>x. job_ID x = job_ID j) (svc_jobs s) = None"
    using ok(1) indexLocked_None [of "job_ID j'" s] ok(2) by (simp add: indexLocked_def)
  have jobs': "svc_jobs s' = svc_jobs s @ [j]" "svc_active s' = svc_active s" using ok(3) t by simp_all
  have "GetJob (job_ID j) s' = Some (show_pending s j)"
    using none jobs' by (simp add: GetJob_def indexLocked_def find_index_append show_pending_def)
  moreover have "GetJob k s' = GetJob k s" if "k \<noteq> job_ID j" for k
  proof (cases "find_index (\<lambda>x. job_ID x = k) (svc_jobs s)")
    case None
    with that jobs' show ?thesis by (simp add: GetJob_def indexLocked_def find_index_append)
  next
    case (Some i)
    then have "i < length (svc_jobs s)" by (simp add: find_index_Some)
    with Some jobs' show ?thesis
      by (simp add: GetJob_def indexLocked_def find_index_append show_pending_def nth_append)
  qed
  moreover have "svc_disk s' = Stored (persisted s')"
    using t ok(3) by (simp add: in_sync_def persisted_def)
  ultimately show ?thesis using new_job_next ok(1,5) by auto
qed simp

theorem add_then_get_witness:
  "\<exists>s'. AddJob utc_zones 5000 ''x'' True demo_job demo_started = (Inr demo_stored, s')
     \<and> GetJob ''j1'' s' = Some (show_pending demo_started demo_stored)"
proof -
  have "AddJob utc_zones 5000 ''x'' True demo_job demo_started = (Inr demo_stored, demo_service)"
    unfolding demo_service_def
    by (simp add: AddJob_def demo_new_job indexLocked_def saveLocked_def demo_started_simps Let_def)
  from add_then_get [OF this] this show ?thesis by (auto simp: demo_stored_def demo_job_def)
qed

text \<open>
  A recurring interval keeps its phase: after a run, an every-schedule moves to the first instant
  after the present that lies a whole number of intervals after the instant that was run, however
  many intervals the run took (as long as the sums stay within 64 bits).
\<close>

theorem every_keeps_phase:
  assumes "sch_Kind sch = KindEvery" and "sch_EveryMS sch = Some every" and "0 < every"
    and "0 \<le> prev" and "0 \<le> after" and "prev + every < 2 ^ 63" and "after + every < 2 ^ 63"
  shows "\<exists>n. nextRecurringAfter z sch after prev = Some (Inr (Some n))
     \<and> after < n \<and> prev < n \<and> every dvd n - prev
     \<and> (\<forall>m. after < m \<longrightarrow> prev < m \<longrightarrow> every dvd m - prev \<longrightarrow> n \<le> m)"
proof (cases "prev + every \<le> after")
  case False
  have "nextRecurringAfter z sch after prev = Some (Inr (Some (prev + every)))"
    using assms False by (simp add: nextRecurringAfter_def Let_def)
  moreover have "prev + every \<le> m" if "prev < m" "every dvd m - prev" for m
    using zdvd_imp_le [OF that(2)] that(1) by simp
  ultimately show ?thesis using False assms(3) by (intro exI [of _ "prev + every"]) auto
next
  case True
  define d where "d = after - (prev + every)"
  define k where "k = d div every"
  have d: "0 \<le> d" "d < 2 ^ 63 - 1" using True assms by (simp_all add: d_def)
  have k: "0 \<le> k" "k * every \<le> d" "d < k * every + every"
  proof -
    show "0 \<le> k" using pos_imp_zdiv_nonneg_iff [OF assms(3), of d] d(1) by (simp add: k_def)
    have "k * every + d mod every = d" by (simp add: k_def)
    then show "k * every \<le> d" "d < k * every + every"
      using pos_mod_bound [OF assms(3), of d] pos_mod_sign [OF assms(3), of d] by linarith+
  qed
  have "k * 1 \<le> k * every" using k(1) assms(3) by (intro mult_left_mono) auto
  then have small: "k \<le> d" using k(2) by simp
  have sdiv: "d sdiv every = k" using d(1) assms(3) by (cases "d = 0") (auto simp: signed_divide_int_def k_def)
  define p where "p = (k + 1) * every"
  have me: "p = k * every + every" by (simp add: p_def algebra_simps)
  let ?n = "prev + every + p"
  have n: "after < ?n" "?n \<le> after + every" using k(2,3) unfolding me d_def by linarith+
  have bounds: "0 \<le> p" "p < 2 ^ 63" "?n < 2 ^ 63" "0 \<le> ?n" "k + 1 < 2 ^ 63"
    using n k(1) assms(3-7) small d me mult_nonneg_nonneg [of k every] by linarith+
  have next_eq: "nextRecurringAfter z sch after prev = Some (Inr (Some ?n))"
  proof -
    have w: "i64 (p) = p" "i64 ?n = ?n" "i64 (k + 1) = k + 1" "i64 d = d"
      "i64 (prev + every) = prev + every"
      using bounds d assms k(1) by simp_all
    show ?thesis
      unfolding nextRecurringAfter_def using assms(1,2) True
      by (simp add: Let_def w sdiv d_def [symmetric] p_def [symmetric] del: i64_id)
  qed
  have "?n \<le> m" if m: "after < m" "every dvd m - prev" for m
  proof -
    obtain c where c: "m - prev = every * c" using m(2) by (elim dvdE)
    have "every * (k + 1) < every * c" using m(1) c k(2) by (simp add: d_def algebra_simps)
    then have "k + 1 < c" using assms(3) by (simp add: mult_less_cancel_left_pos)
    then have "every * (k + 2) \<le> every * c" using assms(3) by (intro mult_left_mono) auto
    then show ?thesis using c by (simp add: me algebra_simps)
  qed
  moreover have "every dvd ?n - prev" by (simp add: me)
  moreover have "prev < ?n" using n True assms(3) by linarith
  ultimately show ?thesis using next_eq n(1) by blast
qed

theorem every_keeps_phase_witness:
  "\<exists>n. nextRecurringAfter utc_zones (job_Schedule demo_stored) 8500 6000 = Some (Inr (Some n))
     \<and> 8500 < n \<and> n = 9000 \<and> 1000 dvd n - (6000 :: int)"
proof -
  have "nextRecurringAfter utc_zones (job_Schedule demo_stored) 8500 6000 = Some (Inr (Some 9000))"
    by (simp add: nextRecurringAfter_def demo_stored_def demo_job_def KindEvery_def i64_def Let_def signed_divide_int_def)
  with every_keeps_phase [of "job_Schedule demo_stored" 1000 6000 8500 utc_zones] show ?thesis
    by (auto simp: demo_stored_def demo_job_def KindEvery_def)
qed

text \<open>
  Run records are never confused: reading back the record of a run just written gives that
  document, and a document that is read always carries the id that was asked for, although
  different ids may share a file name.
\<close>

theorem run_record_roundtrip:
  assumes "writeRunRecord True job run resp s = (e, s')" and "TrimSpace (rr_RunID run) \<noteq> []"
  shows "(\<exists>d. ReadRunRecord (rr_RunID run) s' = Inr d \<and> doc_run_id d = rr_RunID run
       \<and> doc_job_id d = job_ID job \<and> doc_status d = rr_Status run \<and> doc_response d = resp)
    \<and> (\<forall>other d. ReadRunRecord other s' = Inr d \<longrightarrow> doc_run_id d = other)
    \<and> (\<forall>other. safeRunName other \<noteq> safeRunName (rr_RunID run) \<longrightarrow> ReadRunRecord other s' = ReadRunRecord other s)"
proof (intro conjI allI impI)
  show "\<exists>d. ReadRunRecord (rr_RunID run) s' = Inr d \<and> doc_run_id d = rr_RunID run
       \<and> doc_job_id d = job_ID job \<and> doc_status d = rr_Status run \<and> doc_response d = resp"
    using assms by (auto simp: writeRunRecord_def ReadRunRecord_def)
  show "doc_run_id d = other" if "ReadRunRecord other s' = Inr d" for other d
    using that by (auto simp: ReadRunRecord_def split: if_splits option.splits run_file.splits)
  show "ReadRunRecord other s' = ReadRunRecord other s"
    if "safeRunName other \<noteq> safeRunName (rr_RunID run)" for other
    using assms(1) that by (auto simp: writeRunRecord_def ReadRunRecord_def)
qed

definition demo_run :: RunRecord where
  "demo_run = \<lparr>rr_RunAtMS = 7000, rr_ScheduledForMS = 6000, rr_Status = ''ok'', rr_DurationMS = 3, rr_Error = [],
     rr_RunID = ''j1:6000'', rr_IdempotencyKey = ''j1:6000''\<rparr>"

theorem run_record_roundtrip_witness:
  "\<exists>s' d. writeRunRecord True demo_stored demo_run ''done'' demo_service = (None, s')
     \<and> ReadRunRecord ''j1:6000'' s' = Inr d \<and> doc_response d = ''done''
     \<and> ReadRunRecord ''j1_6000'' s' = Inl RunIdentityMismatch"
proof -
  obtain s' where w: "writeRunRecord True demo_stored demo_run ''done'' demo_service = (None, s')"
    by (simp add: writeRunRecord_def)
  have t: "TrimSpace ''j1:6000'' \<noteq> []" "TrimSpace ''j1_6000'' \<noteq> []" "safeRunName ''j1:6000'' = safeRunName ''j1_6000''"
    by code_simp+
  have "ReadRunRecord ''j1_6000'' s' = Inl RunIdentityMismatch"
    using w t by (auto simp: writeRunRecord_def ReadRunRecord_def demo_run_def)
  with run_record_roundtrip [OF w] w t show ?thesis by (auto simp: demo_run_def)
qed

text \<open>
  Restarting after a downtime respects the misfire policy: a job is left due in the past only when
  its policy is to fire once and the delay is within its grace; any other enabled job gets an instant
  in the future (or none), provided the sum for an interval stays within 64 bits.
\<close>

lemma NextRun_future:
  assumes "NextRun z sch now = Inr (Some t)"
    and "sch_Kind sch = KindEvery \<longrightarrow> now + the (sch_EveryMS sch) < 2 ^ 63" and "- (2 ^ 63) \<le> now"
  shows "now < t"
proof -
  consider "sch_Kind sch = KindAt" | "sch_Kind sch = KindEvery" | "sch_Kind sch = KindCron"
    using assms(1) by (auto simp: NextRun_def ValidateSchedule_def split: if_splits option.splits)
  then show ?thesis
  proof cases
    case 1
    then show ?thesis using assms(1) by (auto simp: NextRun_def split: if_splits option.splits)
  next
    case 2
    then have e: "0 < the (sch_EveryMS sch)" "t = i64 (now + the (sch_EveryMS sch))"
      using assms(1) by (auto simp: NextRun_def ValidateSchedule_def KindAt_def KindEvery_def split: if_splits option.splits)
    moreover have "i64 (now + the (sch_EveryMS sch)) = now + the (sch_EveryMS sch)"
      using assms(2,3) 2 e(1) by (intro i64_id) auto
    ultimately show ?thesis by simp
  next
    case 3
    then show ?thesis
      using assms(1) cron_next_after
      by (auto simp: NextRun_def KindAt_def KindEvery_def KindCron_def split: option.splits sum.splits if_splits)
  qed
qed

theorem start_misfire_policy:
  assumes "job' = prepareJobOnStartLocked z now job" and "job_Enabled job'" and "st_NextRunAtMS (job_State job') = Some t"
    and "t \<le> now" and "- (2 ^ 63) \<le> now"
    and "sch_Kind (job_Schedule job) = KindEvery \<longrightarrow> now + the (sch_EveryMS (job_Schedule job)) < 2 ^ 63"
  shows "job_Enabled job \<and> st_NextRunAtMS (job_State job) = Some t
    \<and> (job_MisfirePolicy job = [] \<or> job_MisfirePolicy job = MisfireFireOnce)
    \<and> (job_MisfireGraceMS job \<le> 0 \<or> i64 (now - t) \<le> job_MisfireGraceMS job)"
proof -
  let ?j = "normalizeJobPolicy job"
  have frame: "job_State ?j = job_State job" "job_Schedule ?j = job_Schedule job" "job_Enabled ?j = job_Enabled job"
    "job_MisfireGraceMS ?j = job_MisfireGraceMS job"
    "job_MisfirePolicy ?j = (if job_MisfirePolicy job = [] then MisfireFireOnce else job_MisfirePolicy job)"
    by (simp_all add: normalizeJobPolicy_def Let_def)
  have en: "job_Enabled job"
    using assms(1,3) by (auto simp: prepareJobOnStartLocked_def set_next_def split: if_splits)
  have valid: "validateBoundJob ?j = None"
    using assms(1,2) en by (auto simp: prepareJobOnStartLocked_def Let_def disable_with_def split: option.splits)
  have sched: False if "job' = schedule_next z now ?j"
    using that assms(2-6) NextRun_future [of z "job_Schedule job" now t] frame
    by (cases "NextRun z (job_Schedule job) now") (auto simp: schedule_next_def disable_with_def set_next_def)
  show ?thesis
  proof (cases "st_NextRunAtMS (job_State job)")
    case None
    with assms(1) en valid frame sched show ?thesis by (simp add: prepareJobOnStartLocked_def Let_def)
  next
    case (Some n)
    have "job' = ?j"
      using assms(1,2) en valid frame sched Some
      by (auto simp: prepareJobOnStartLocked_def Let_def disable_with_def split: if_splits)
    moreover from this have "n = t" using assms(3) frame Some by simp
    moreover have "shouldFireMisfire ?j now"
      using assms(1,2,4) en valid frame sched Some \<open>n = t\<close>
      by (auto simp: prepareJobOnStartLocked_def Let_def disable_with_def split: if_splits)
    ultimately show ?thesis
      using en Some frame by (auto simp: shouldFireMisfire_def Let_def split: if_splits)
  qed
qed

theorem start_misfire_policy_witness:
  "\<exists>job'. job' = prepareJobOnStartLocked utc_zones 9000 demo_stored
     \<and> st_NextRunAtMS (job_State job') = Some 6000 \<and> (job_MisfirePolicy demo_stored = [] \<or> job_MisfirePolicy demo_stored = MisfireFireOnce)"
proof -
  define job' where "job' = prepareJobOnStartLocked utc_zones 9000 demo_stored"
  have "job_Enabled job'" "st_NextRunAtMS (job_State job') = Some 6000"
    unfolding job'_def by code_simp+
  with start_misfire_policy [OF job'_def, of 6000] show ?thesis
    unfolding job'_def [symmetric] by (auto simp: demo_stored_def demo_job_def KindEvery_def)
qed

text \<open>
  The job list shown to a client is the stored list, filtered, in order: scheduled jobs by next
  instant, then the unscheduled ones by name, each with its pending flag read from the active table.
\<close>

theorem list_jobs_ordered:
  "mset (ListJobs b s) = mset (map (show_pending s) (filter (\<lambda>j. b \<or> job_Enabled j) (svc_jobs s)))
   \<and> sorted_wrt (\<lambda>x y. \<not> job_before y x) (ListJobs b s)"
  by (simp add: ListJobs_def sorted_SliceStable weak_order_job_before)

section \<open>Limits of the code\<close>

definition far_job :: Job where
  "far_job = demo_stored\<lparr>job_Schedule := \<lparr>sch_Kind = ''at'', sch_AtMS = Some 253402300799999, sch_EveryMS = None,
       sch_Expr = [], sch_TZ = []\<rparr>, job_State := (job_State demo_stored)\<lparr>st_NextRunAtMS := Some 253402300799999\<rparr>\<rparr>"

definition far_service :: Service where
  "far_service = demo_service\<lparr>svc_jobs := [far_job]\<rparr>"

text \<open>
  The timer of the loop overflows for far instants: a one-shot job for the end of the year 9999 is
  accepted, is not due, and yet makes the computed delay zero, so the loop spins without
  sleeping until the job is removed.
\<close>

theorem next_delay_overflow:
  "ValidateSchedule utc_zones (job_Schedule far_job) = None
   \<and> NextRun utc_zones (job_Schedule far_job) 1700000000000 = Inr (st_NextRunAtMS (job_State far_job))
   \<and> svc_jobs far_service = [far_job] \<and> \<not> due 1700000000000 far_service far_job
   \<and> nextDelay 1700000000000 far_service = 0"
  by (simp add: ValidateSchedule_def NextRun_def KindAt_def due_def nextDelay_def demo_service_simps active_count_def
      far_job_def far_service_def demo_stored_def i64_def millisecond_ns_def Let_def)

text \<open>After a shutdown the context stays cancelled, so a service started again has a loop that ends at once.\<close>

lemma restart_keeps_cancelled_context:
  assumes "Close_end None (Close_begin s) = Some (None, s1)" "Start z rename_ok True now io s1 = (None, s2)"
  shows "svc_running s2 \<and> \<not> svc_closed s2 \<and> svc_ctxDone s2 \<and> loop_exit s2 \<noteq> None"
  using assms
  by (auto simp: Close_end_def Close_begin_def Start_def Start_load_def Load_def loadLocked_def Start_run_def saveLocked_def
      signal_def Let_def loop_exit_def split: if_splits store_file.splits prod.splits)

text \<open>
  An autumn change of clocks: a zone one hour ahead of UTC until the instant 3600000 and at UTC from
  then on, so that the wall clock shows the minutes of one hour twice.
\<close>

definition fold_zone :: location where
  "fold_zone =
     (let pick = (\<lambda>f t. if t < 3600000 then f (fixed_zone 3600000) t else f (fixed_zone 0) t) in
      \<lparr>loc_year = pick loc_year, loc_month = pick loc_month, loc_day = pick loc_day, loc_hour = pick loc_hour,
       loc_minute = pick loc_minute, loc_weekday = pick loc_weekday, loc_addYears = loc_addYears (fixed_zone 0)\<rparr>)"

definition fold_zones :: zones where
  "fold_zones = \<lparr>tz_local = fold_zone, tz_utc = fixed_zone 0,
     tz_load = (\<lambda>n. if n = [] \<or> n = ''UTC'' then Some (fixed_zone 0)
                    else if n = ''Home'' then Some fold_zone else None)\<rparr>"

definition nightly :: "string \<Rightarrow> Schedule" where
  "nightly tz = \<lparr>sch_Kind = ''cron'', sch_AtMS = None, sch_EveryMS = None, sch_Expr = ''5 1 * * *'', sch_TZ = tz\<rparr>"

text \<open>
  The repeated hour is handled for a named zone only: with the zone named, the second 01:05 of the
  night is skipped and the next run is the day after; with the zone left empty, which means the
  same local zone for the expression, the wall-clock key is taken in UTC and the job runs again
  one hour later.
\<close>

theorem local_zone_runs_twice:
  "nextRecurringAfter fold_zones (nightly []) 300000 300000 = Some (Inr (Some 3900000))
   \<and> loc_hour fold_zone 300000 = 1 \<and> loc_minute fold_zone 300000 = 5
   \<and> loc_hour fold_zone 3900000 = 1 \<and> loc_minute fold_zone 3900000 = 5
   \<and> cronWallKey fold_zones (nightly ''Home'') 3900000 = cronWallKey fold_zones (nightly ''Home'') 300000"
  by code_simp

section \<open>Rescheduling a cron job ends\<close>

lemma skip_repeated_returns:
  assumes within: "\<And>a b. cronWallKey z sch a = cronWallKey z sch b \<Longrightarrow> \<bar>a - b\<bar> \<le> W"
    and cron: "sch_Kind sch = KindCron"
  shows "prev < nx \<Longrightarrow> \<exists>r. skip_repeated z sch (cronWallKey z sch prev) nx = Some r
    \<and> (\<forall>t. r = Inr (Some t) \<longrightarrow> nx \<le> t \<and> cronWallKey z sch t \<noteq> cronWallKey z sch prev)"
proof (induction "nat (prev + W + 1 - nx)" arbitrary: nx rule: less_induct)
  case less
  show ?case
  proof (cases "cronWallKey z sch nx = cronWallKey z sch prev")
    case False
    then show ?thesis by (subst skip_repeated.simps) simp
  next
    case True
    then have near: "nx \<le> prev + W" using within [OF True] by linarith
    show ?thesis
    proof (cases "NextRun z sch nx")
      case (Inl e)
      with True show ?thesis by (subst skip_repeated.simps) simp
    next
      case (Inr n)
      show ?thesis
      proof (cases n)
        case None
        with True Inr show ?thesis by (subst skip_repeated.simps) simp
      next
        case (Some t)
        have later: "nx < t"
          using Inr Some cron cron_next_after
          by (auto simp: NextRun_def KindAt_def KindEvery_def KindCron_def split: option.splits sum.splits if_splits)
        obtain r where r: "skip_repeated z sch (cronWallKey z sch prev) t = Some r"
          "\<forall>u. r = Inr (Some u) \<longrightarrow> t \<le> u \<and> cronWallKey z sch u \<noteq> cronWallKey z sch prev"
        proof -
          have m: "nat (prev + W + 1 - t) < nat (prev + W + 1 - nx)" "prev < t" using near later less.prems by auto
          from less.hyps [OF m] show ?thesis using that by blast
        qed
        have "skip_repeated z sch (cronWallKey z sch prev) nx = Some r"
          using True Inr Some r(1) by (subst skip_repeated.simps) simp
        with r(2) later show ?thesis by fastforce
      qed
    qed
  qed
qed


text \<open>A location whose wall clock numbers the minutes since the epoch, in its year field.\<close>

definition minute_zone :: location where
  "minute_zone = \<lparr>loc_year = (\<lambda>t. t div minute_ms), loc_month = (\<lambda>t. 1), loc_day = (\<lambda>t. 1), loc_hour = (\<lambda>t. 0),
     loc_minute = (\<lambda>t. t div minute_ms mod 60), loc_weekday = (\<lambda>t. 0), loc_addYears = (\<lambda>n t. t + n * 525600 * minute_ms)\<rparr>"

definition minute_zones :: zones where
  "minute_zones = \<lparr>tz_local = minute_zone, tz_utc = minute_zone, tz_load = (\<lambda>n. Some minute_zone)\<rparr>"

lemma minute_zones_key:
  assumes "cronWallKey minute_zones sch a = cronWallKey minute_zones sch b"
  shows "\<bar>a - b\<bar> \<le> 60000"
proof -
  have eq: "a div 60000 = b div 60000"
    using assms by (simp add: cronWallKey_def minute_zones_def minute_zone_def minute_ms_def)
  have "a = a div 60000 * 60000 + a mod 60000" "b = b div 60000 * 60000 + b mod 60000" by simp_all
  moreover have "0 \<le> a mod 60000" "a mod 60000 < 60000" "0 \<le> b mod 60000" "b mod 60000 < 60000" by simp_all
  ultimately show ?thesis unfolding eq by linarith
qed

definition quarter_hours :: Schedule where
  "quarter_hours = \<lparr>sch_Kind = ''cron'', sch_AtMS = None, sch_EveryMS = None, sch_Expr = ''*/15 * * * *'', sch_TZ = ''M''\<rparr>"


end
