(* ===== verification/Float64.thy ===== *)
theory Float64
  imports Go_Strings Complex_Main
begin

text \<open>
  The floating-point numbers of the pairing store. A \<^verbatim>\<open>float64\<close> is NaN, an infinity, a
  signed zero or a non-zero rational; \<open>round64\<close> rounds an exact result to binary64, to
  nearest with ties to even, from the definition of the format (53 bits of precision, least
  exponent -1074, overflow at \<open>2 ^ 1024\<close>). \<open>ParseFloat\<close> and \<open>FormatFloat_e\<close> follow
  \<^verbatim>\<open>strconv\<close>: parsing rounds the value a literal denotes, and formatting with precision -1
  searches for the fewest decimal digits that parse back to the same number. On top of
  them stands \<open>pyFloatRepr\<close> of \<^verbatim>\<open>internal/pairing/json.go\<close>, which lays those digits out the
  way Python's \<^verbatim>\<open>repr\<close> does; the theory proves that what it writes is a JSON number and
  parses back to the number it was given.
\<close>

section \<open>Binary64\<close>

datatype float64 = FNaN | FInf bool | FZero bool | FNum rat

definition round_half_even :: "rat \<Rightarrow> int" where
  "round_half_even x =
     (let f = \<lfloor>x\<rfloor>; r = x - of_int f in
      if r < 1 / 2 then f else if 1 / 2 < r then f + 1 else if even f then f else f + 1)"

function bit_len :: "int \<Rightarrow> int" where
  "bit_len n = (if n \<le> 0 then 0 else 1 + bit_len (n div 2))"
  by pat_completeness auto
termination
  by (relation "measure nat") auto

function dec_len :: "int \<Rightarrow> int" where
  "dec_len n = (if n \<le> 0 then 0 else 1 + dec_len (n div 10))"
  by pat_completeness auto
termination
  by (relation "measure nat") auto

declare bit_len.simps [simp del] dec_len.simps [simp del]

text \<open>The exponent of the last bit of a positive number: 53 bits, but never below -1074.\<close>

definition ulp_exp :: "rat \<Rightarrow> int" where
  "ulp_exp x =
     (case quotient_of x of (n, d) \<Rightarrow>
        let b = bit_len n - bit_len d
        in max (- 1074) ((if x < 2 powi b then b else b + 1) - 53))"

definition round_pos :: "rat \<Rightarrow> rat" where
  "round_pos x = of_int (round_half_even (x / 2 powi ulp_exp x)) * 2 powi ulp_exp x"

definition round64 :: "rat \<Rightarrow> float64" where
  "round64 x =
     (let v = round_pos \<bar>x\<bar> in
      if x = 0 then FZero False
      else if v = 0 then FZero (x < 0)
      else if 2 ^ 1024 \<le> v then FInf (x < 0)
      else FNum (if x < 0 then - v else v))"

text \<open>A number the format represents.\<close>

definition is_f64 :: "rat \<Rightarrow> bool" where
  "is_f64 x \<longleftrightarrow> round64 x = FNum x"

fun f64_sign :: "float64 \<Rightarrow> bool" where
  "f64_sign FNaN = False"
| "f64_sign (FInf s) = s"
| "f64_sign (FZero s) = s"
| "f64_sign (FNum x) = (x < 0)"

fun f64_rat :: "float64 \<Rightarrow> rat" where
  "f64_rat (FNum x) = x"
| "f64_rat _ = 0"

definition f64_finite :: "float64 \<Rightarrow> bool" where
  "f64_finite f = (case f of FNum x \<Rightarrow> is_f64 x | FZero _ \<Rightarrow> True | _ \<Rightarrow> False)"

text \<open>Addition, subtraction and the order of finite numbers and infinities.\<close>

fun f64_neg :: "float64 \<Rightarrow> float64" where
  "f64_neg FNaN = FNaN"
| "f64_neg (FInf s) = FInf (\<not> s)"
| "f64_neg (FZero s) = FZero (\<not> s)"
| "f64_neg (FNum x) = FNum (- x)"

fun f64_add :: "float64 \<Rightarrow> float64 \<Rightarrow> float64" where
  "f64_add FNaN _ = FNaN"
| "f64_add _ FNaN = FNaN"
| "f64_add (FInf s) (FInf t) = (if s = t then FInf s else FNaN)"
| "f64_add (FInf s) _ = FInf s"
| "f64_add _ (FInf t) = FInf t"
| "f64_add (FZero s) (FZero t) = FZero (s \<and> t)"
| "f64_add f g = round64 (f64_rat f + f64_rat g)"

definition f64_sub :: "float64 \<Rightarrow> float64 \<Rightarrow> float64" where
  "f64_sub f g = f64_add f (f64_neg g)"

fun f64_less :: "float64 \<Rightarrow> float64 \<Rightarrow> bool" where
  "f64_less FNaN _ = False"
| "f64_less _ FNaN = False"
| "f64_less (FInf s) (FInf t) = (s \<and> \<not> t)"
| "f64_less (FInf s) _ = s"
| "f64_less _ (FInf t) = (\<not> t)"
| "f64_less f g = (f64_rat f < f64_rat g)"

definition f64_of_int :: "int \<Rightarrow> float64" where
  "f64_of_int n = round64 (of_int n)"

text \<open>
  The conversion \<^verbatim>\<open>int64(f)\<close>: truncation; a value the type cannot hold converts to the least
  integer, which is what amd64 does with it.
\<close>

definition f64_to_int64 :: "float64 \<Rightarrow> int" where
  "f64_to_int64 f =
     (case f of
        FNum x \<Rightarrow> (let n = (if x < 0 then - \<lfloor>- x\<rfloor> else \<lfloor>x\<rfloor>) in if in_i64 n then n else - (2 ^ 63))
      | FZero _ \<Rightarrow> 0
      | _ \<Rightarrow> - (2 ^ 63))"

section \<open>Number literals\<close>

text \<open>
  The grammar of a JSON number, read off the front of the input: the sign, the integer part,
  the fraction and the exponent (with their punctuation), and what follows.
\<close>

type_synonym num_parts = "string \<times> string \<times> string \<times> string"

definition lex_sign :: "string \<Rightarrow> string \<times> string" where
  "lex_sign s = (case s of c # t \<Rightarrow> if c = CHR ''-'' then ([c], t) else ([], s) | [] \<Rightarrow> ([], []))"

definition lex_int :: "string \<Rightarrow> (string \<times> string) option" where
  "lex_int s =
     (case s of
        [] \<Rightarrow> None
      | c # t \<Rightarrow> if c = CHR ''0'' then Some ([c], t)
                 else if is_digit c then Some (takeWhile is_digit s, dropWhile is_digit s)
                 else None)"

definition lex_frac :: "string \<Rightarrow> (string \<times> string) option" where
  "lex_frac s =
     (case s of
        [] \<Rightarrow> Some ([], [])
      | c # t \<Rightarrow> if c \<noteq> CHR ''.'' then Some ([], s)
                 else if takeWhile is_digit t = [] then None
                 else Some (c # takeWhile is_digit t, dropWhile is_digit t))"

definition lex_exp_digits :: "string \<Rightarrow> string \<Rightarrow> (string \<times> string) option" where
  "lex_exp_digits pre t =
     (if takeWhile is_digit t = [] then None
      else Some (pre @ takeWhile is_digit t, dropWhile is_digit t))"

definition lex_exp :: "string \<Rightarrow> (string \<times> string) option" where
  "lex_exp s =
     (case s of
        [] \<Rightarrow> Some ([], [])
      | c # t \<Rightarrow> if c \<noteq> CHR ''e'' \<and> c \<noteq> CHR ''E'' then Some ([], s)
                 else (case t of
                         d # u \<Rightarrow> if d = CHR ''+'' \<or> d = CHR ''-'' then lex_exp_digits [c, d] u
                                  else lex_exp_digits [c] t
                       | [] \<Rightarrow> None))"

definition lex_number :: "string \<Rightarrow> (num_parts \<times> string) option" where
  "lex_number s =
     (case lex_sign s of (sg, s1) \<Rightarrow>
      case lex_int s1 of None \<Rightarrow> None | Some (ip, s2) \<Rightarrow>
      case lex_frac s2 of None \<Rightarrow> None | Some (fp, s3) \<Rightarrow>
      case lex_exp s3 of None \<Rightarrow> None | Some (ep, s4) \<Rightarrow> Some ((sg, ip, fp, ep), s4))"

fun parts_text :: "num_parts \<Rightarrow> string" where
  "parts_text (sg, ip, fp, ep) = sg @ ip @ fp @ ep"

definition is_json_number :: "string \<Rightarrow> bool" where
  "is_json_number s = (case lex_number s of Some (p, r) \<Rightarrow> r = [] | None \<Rightarrow> False)"

definition exp_value :: "string \<Rightarrow> int" where
  "exp_value ep =
     (case ep of
        c # d # ds \<Rightarrow> if d = CHR ''-'' then - digits_int ds
                      else if d = CHR ''+'' then digits_int ds else digits_int (d # ds)
      | _ \<Rightarrow> 0)"

fun parts_value :: "num_parts \<Rightarrow> rat" where
  "parts_value (sg, ip, fp, ep) =
     (if sg = [] then 1 else - 1) * of_int (digits_int (ip @ tl fp))
       * 10 powi (exp_value ep - int (length (tl fp)))"

text \<open>
  \<^verbatim>\<open>strconv.ParseFloat(s, 64)\<close> on a JSON number; \<open>None\<close> is the range error. A zero keeps the sign
  of its literal.
\<close>

definition ParseFloat :: "string \<Rightarrow> float64 option" where
  "ParseFloat s =
     (case lex_number s of
        Some ((sg, ip, fp, ep), []) \<Rightarrow>
          (let x = parts_value (sg, ip, fp, ep) in
           if x = 0 then Some (FZero (sg \<noteq> []))
           else (case round64 x of FInf _ \<Rightarrow> None | f \<Rightarrow> Some f))
      | _ \<Rightarrow> None)"

section \<open>Shortest decimal form\<close>

text \<open>
  For a positive number and a decimal position \<open>q\<close>: the multiple of \<open>10 ^ q\<close> that rounds to the
  number, the nearer of the two neighbours when both do.
\<close>

definition dec_ok :: "rat \<Rightarrow> int \<Rightarrow> int \<Rightarrow> bool" where
  "dec_ok x q m \<longleftrightarrow> round64 (of_int m * 10 powi q) = FNum x"

definition dec_pick :: "rat \<Rightarrow> int \<Rightarrow> int option" where
  "dec_pick x q =
     (let y = x / 10 powi q; lo = \<lfloor>y\<rfloor>; hi = \<lceil>y\<rceil> in
      if dec_ok x q lo \<and> dec_ok x q hi then Some (round_half_even y)
      else if dec_ok x q lo then Some lo
      else if dec_ok x q hi then Some hi
      else None)"

fun short_search :: "rat \<Rightarrow> int \<Rightarrow> nat \<Rightarrow> int \<times> int" where
  "short_search x q k =
     (case dec_pick x q of
        Some m \<Rightarrow> (m, q)
      | None \<Rightarrow> (case k of 0 \<Rightarrow> (\<lfloor>x / 10 powi q\<rfloor>, q) | Suc k' \<Rightarrow> short_search x (q - 1) k'))"

declare short_search.simps [simp del]

text \<open>The decimal exponent of the first digit of a positive number.\<close>

definition dec_exp :: "rat \<Rightarrow> int" where
  "dec_exp x =
     (case quotient_of x of (n, d) \<Rightarrow>
        let b = dec_len n - dec_len d in if x < 10 powi b then b - 1 else b)"

definition strip_zeros :: "string \<Rightarrow> string" where
  "strip_zeros s = rev (dropWhile (\<lambda>c. c = CHR ''0'') (rev s))"

definition shortest :: "rat \<Rightarrow> string \<times> int" where
  "shortest x =
     (case short_search x (dec_exp x) (nat (dec_exp x + 1074)) of
        (m, q) \<Rightarrow> let ds = nat_digits (nat m) in (strip_zeros ds, q + int (length ds) - 1))"

text \<open>\<^verbatim>\<open>%02d\<close> of a non-negative number.\<close>

definition two_digits :: "int \<Rightarrow> string" where
  "two_digits n = (if n < 10 then ''0'' @ nat_digits (nat n) else nat_digits (nat n))"

text \<open>\<^verbatim>\<open>strconv.FormatFloat(x, 'e', -1, 64)\<close> of a positive number: d.ddde+dd.\<close>

definition FormatFloat_e :: "rat \<Rightarrow> string" where
  "FormatFloat_e x =
     (case shortest x of (ds, e) \<Rightarrow>
        hd ds # (if tl ds = [] then [] else CHR ''.'' # tl ds)
          @ ''e'' @ (if e < 0 then ''-'' else ''+'') @ two_digits \<bar>e\<bar>)"

section \<open>The representation of internal/pairing/json.go\<close>

definition pyFloatRepr :: "float64 \<Rightarrow> string" where
  "pyFloatRepr f =
     (case f of
        FNaN \<Rightarrow> ''nan''
      | FInf s \<Rightarrow> (if s then ''-inf'' else ''inf'')
      | FZero s \<Rightarrow> (if s then ''-0.0'' else ''0.0'')
      | FNum x \<Rightarrow>
          (let neg = x < 0;
               sci = FormatFloat_e \<bar>x\<bar>;
               (mantissa, expText) = (case Cut sci CHR ''e'' of Some p \<Rightarrow> p | None \<Rightarrow> (sci, []))
           in case Atoi expText of
                None \<Rightarrow> sci
              | Some ex \<Rightarrow>
                  (let digits = remove1 CHR ''.'' mantissa;
                       decpt = ex + 1;
                       out = (if decpt \<le> - 4 \<or> 16 < decpt then
                                take 1 digits
                                  @ (if 1 < length digits then ''.'' @ drop 1 digits else [])
                                  @ ''e'' @ (if ex < 0 then ''-'' else ''+'') @ two_digits \<bar>ex\<bar>
                              else if decpt \<le> 0 then
                                ''0.'' @ replicate (nat (- decpt)) CHR ''0'' @ digits
                              else if int (length digits) \<le> decpt then
                                digits @ replicate (nat decpt - length digits) CHR ''0'' @ ''.0''
                              else take (nat decpt) digits @ ''.'' @ drop (nat decpt) digits)
                   in if neg then ''-'' @ out else out)))"

section \<open>Every number has a short form\<close>

lemma ulp_exp_ge: "- 1074 \<le> ulp_exp x"
  by (simp add: ulp_exp_def Let_def split: prod.splits)

lemma of_int_ten_powi:
  assumes "- N \<le> e" "0 \<le> N"
  shows "\<exists>k::int. (2::rat) powi e * 10 powi N = of_int k"
proof -
  have "(10::rat) powi N = 2 powi N * 5 powi N"
    using power_int_mult_distrib [of "2::rat" 5 N] by simp
  then have "(2::rat) powi e * 10 powi N = 2 powi (e + N) * 5 powi N"
    by (simp add: power_int_add)
  also have "\<dots> = of_int (2 ^ nat (e + N) * 5 ^ nat N)"
    using assms by (simp add: power_int_def)
  finally show ?thesis by blast
qed

lemma f64_dyadic:
  assumes "is_f64 x" "0 < x"
  obtains r e where "x = of_int r * 2 powi e" "- 1074 \<le> e"
proof -
  have "x = round_pos x"
    using assms by (auto simp: is_f64_def round64_def Let_def split: if_splits)
  then show thesis unfolding round_pos_def using ulp_exp_ge that by blast
qed

lemma dyadic_decimal:
  assumes x: "x = of_int r * (2::rat) powi e" and "- N \<le> e" "0 \<le> N" "q \<le> - N"
  shows "x / 10 powi q = of_int \<lfloor>x / 10 powi q\<rfloor>"
proof -
  obtain k where k: "(2::rat) powi e * 10 powi N = of_int k"
    using of_int_ten_powi assms by blast
  have "x / 10 powi q = x * 10 powi (N + (- q - N))"
    by (simp add: power_int_minus field_simps)
  also have "\<dots> = x * (10 powi N * 10 powi (- q - N))"
    by (subst power_int_add) simp_all
  also have "\<dots> = of_int r * (2 powi e * 10 powi N) * 10 powi (- q - N)"
    by (simp add: x)
  also have "\<dots> = of_int (r * k * 10 ^ nat (- q - N))"
    using k assms(4) by (simp add: power_int_def)
  finally show ?thesis by (metis floor_of_int)
qed

lemma exact_position:
  assumes "is_f64 x" "0 < x" "q \<le> - 1074"
  shows "x / 10 powi q = of_int \<lfloor>x / 10 powi q\<rfloor>"
proof -
  obtain r e where "x = of_int r * 2 powi e" "- 1074 \<le> e" using f64_dyadic assms(1,2) by blast
  then show ?thesis using dyadic_decimal [OF _ _ _ assms(3)] by (metis zero_le_numeral)
qed

lemma round_half_even_cases: "round_half_even y = \<lfloor>y\<rfloor> \<or> round_half_even y = \<lceil>y\<rceil>"
proof (cases "y = of_int \<lfloor>y\<rfloor>")
  case True
  then show ?thesis by (auto simp: round_half_even_def Let_def)
next
  case False
  then have "\<lceil>y\<rceil> = \<lfloor>y\<rfloor> + 1" by (metis ceiling_altdef)
  then show ?thesis by (auto simp: round_half_even_def Let_def)
qed

lemma dec_pick_ok: "dec_pick x q = Some m \<Longrightarrow> dec_ok x q m"
  using round_half_even_cases [of "x / 10 powi q"]
  by (auto simp: dec_pick_def Let_def split: if_splits)

lemma dec_pick_exact:
  assumes "is_f64 x" "x / 10 powi q = of_int \<lfloor>x / 10 powi q\<rfloor>"
  shows "dec_pick x q \<noteq> None"
proof -
  have "of_int \<lfloor>x / 10 powi q\<rfloor> * 10 powi q = x" using assms(2) by (simp add: field_simps)
  then have "dec_ok x q \<lfloor>x / 10 powi q\<rfloor>" using assms(1) by (simp add: dec_ok_def is_f64_def)
  then show ?thesis by (simp add: dec_pick_def Let_def)
qed

lemma short_search_ok:
  assumes "is_f64 x" "0 < x" "q - int k \<le> - 1074" "short_search x q k = (m, p)"
  shows "dec_ok x p m"
  using assms(3,4)
proof (induction k arbitrary: q)
  case 0
  then have "dec_pick x q \<noteq> None" using assms dec_pick_exact exact_position by simp
  then obtain m' where m': "dec_pick x q = Some m'" by blast
  with 0 have "m = m' \<and> p = q" by (auto simp: short_search.simps [of x q])
  with dec_pick_ok [OF m'] show ?case by simp
next
  case (Suc k)
  show ?case
  proof (cases "dec_pick x q")
    case None
    then have "short_search x (q - 1) k = (m, p)"
      using Suc.prems(2) by (simp add: short_search.simps [of x q "Suc k"])
    moreover have "q - 1 - int k \<le> - 1074" using Suc.prems(1) by simp
    ultimately show ?thesis by (rule Suc.IH [rotated])
  next
    case (Some m')
    with Suc.prems have "m = m' \<and> p = q" by (auto simp: short_search.simps [of x q])
    with dec_pick_ok [OF Some] show ?thesis by simp
  qed
qed

lemma dec_ok_pos:
  assumes "dec_ok x q m" "0 < x"
  shows "0 < m"
proof (rule ccontr)
  assume "\<not> 0 < m"
  then have le: "of_int m * (10::rat) powi q \<le> 0" by (simp add: mult_nonpos_nonneg)
  have nonneg: "0 \<le> round_pos v" if "0 \<le> v" for v
  proof -
    have "0 \<le> round_half_even (v / 2 powi ulp_exp v)"
      using that by (auto simp: round_half_even_def Let_def)
    then show ?thesis by (simp add: round_pos_def)
  qed
  show False
    using assms le nonneg [of "\<bar>of_int m * (10::rat) powi q\<bar>"]
    by (auto simp: dec_ok_def round64_def Let_def split: if_splits)
qed

section \<open>Digits\<close>

lemma digits_int_Nil [simp]: "digits_int [] = 0"
  by (simp add: digits_int_def)

lemma digits_int_snoc: "digits_int (s @ [c]) = 10 * digits_int s + (of_char c - 48)"
  by (simp add: digits_int_def)

lemma digits_int_append: "digits_int (s @ t) = digits_int s * 10 ^ length t + digits_int t"
proof (induction t rule: rev_induct)
  case (snoc c t)
  then show ?case using digits_int_snoc [of "s @ t" c] by (simp add: digits_int_snoc)
qed simp

lemma digits_int_zeros [simp]: "digits_int (replicate n CHR ''0'') = 0"
proof -
  have "foldl (\<lambda>a c. 10 * a + (of_char c - 48)) (0::int) (replicate n CHR ''0'') = 0"
    by (induction n) simp_all
  then show ?thesis by (simp add: digits_int_def)
qed

lemma strip_zeros_split: "\<exists>k. s = strip_zeros s @ replicate k CHR ''0''"
proof -
  let ?z = "\<lambda>c. c = CHR ''0''"
  have all: "takeWhile ?z xs = replicate (length (takeWhile ?z xs)) CHR ''0''" for xs
    by (induction xs) auto
  have "s = rev (dropWhile ?z (rev s)) @ rev (takeWhile ?z (rev s))"
    by (metis rev_append rev_rev_ident takeWhile_dropWhile_id)
  also have "rev (takeWhile ?z (rev s)) = replicate (length (takeWhile ?z (rev s))) CHR ''0''"
    by (metis all rev_replicate)
  finally show ?thesis unfolding strip_zeros_def by blast
qed

lemma hd_nat_digits_nonzero: "0 < n \<Longrightarrow> hd (nat_digits n) \<noteq> CHR ''0''"
proof (induction n rule: nat_digits.induct)
  case (1 n)
  show ?case
  proof (cases "n < 10")
    case True
    have "digit_val (digit_char n) \<noteq> 0" using True 1(2) by simp
    then have "digit_char n \<noteq> CHR ''0''" by (auto simp: digit_val_def)
    with True show ?thesis by (simp add: nat_digits.simps)
  next
    case False
    then have "nat_digits n = nat_digits (n div 10) @ [digit_char (n mod 10)]"
      by (simp add: nat_digits.simps [of n])
    then show ?thesis using 1 False by simp
  qed
qed

lemma shortest_ok:
  assumes "is_f64 x" "0 < x" "shortest x = (ds, e)"
  shows "ds \<noteq> []" "list_all is_digit ds" "hd ds \<noteq> CHR ''0''"
    "round64 (of_int (digits_int ds) * 10 powi (e + 1 - int (length ds))) = FNum x"
proof -
  obtain m q where mq: "short_search x (dec_exp x) (nat (dec_exp x + 1074)) = (m, q)"
    by (cases "short_search x (dec_exp x) (nat (dec_exp x + 1074))")
  have ok: "dec_ok x q m"
    using short_search_ok [OF assms(1,2) _ mq] by linarith
  then have m: "0 < m" using dec_ok_pos assms(2) by blast
  let ?ns = "nat_digits (nat m)"
  obtain k where k: "?ns = strip_zeros ?ns @ replicate k CHR ''0''" using strip_zeros_split by blast
  have ds: "ds = strip_zeros ?ns" and e: "e = q + int (length ?ns) - 1"
    using assms(3) mq by (simp_all add: shortest_def Let_def)
  have ns: "?ns = ds @ replicate k CHR ''0''" using k ds by simp
  have hd: "hd ?ns \<noteq> CHR ''0''" using m hd_nat_digits_nonzero by simp
  show ne: "ds \<noteq> []"
    using ns hd nat_digits_nonempty by (metis append_Nil hd_replicate replicate_empty)
  show "list_all is_digit ds"
    using nat_digits_digits [of "nat m"] ns by simp
  show "hd ds \<noteq> CHR ''0''" using ns hd ne by simp
  have "digits_int ?ns = m"
    using digits_int_val [OF nat_digits_digits] m by simp
  then have "of_int m = of_int (digits_int ds) * (10::rat) ^ k"
    using ns by (metis digits_int_append digits_int_zeros add.right_neutral length_replicate of_int_mult of_int_numeral of_int_power)
  moreover have "e + 1 - int (length ds) = int k + q" using ns e by simp
  ultimately have "of_int (digits_int ds) * (10::rat) powi (e + 1 - int (length ds)) = of_int m * 10 powi q"
    by (simp add: power_int_add)
  with ok show "round64 (of_int (digits_int ds) * 10 powi (e + 1 - int (length ds))) = FNum x"
    by (simp add: dec_ok_def)
qed

section \<open>The layout keeps the number\<close>

lemma is_digit_neq: "is_digit c \<Longrightarrow> c \<noteq> CHR ''.'' \<and> c \<noteq> CHR ''e'' \<and> c \<noteq> CHR ''E'' \<and> c \<noteq> CHR ''+'' \<and> c \<noteq> CHR ''-''"
  by (auto simp: is_digit_def)

lemma cut_acc_skip: "sep \<notin> set s \<Longrightarrow> cut_acc sep cur (s @ sep # t) = Some (cur @ s, t)"
  by (induction s arbitrary: cur) auto

lemma takeWhile_digit_run: "list_all is_digit ds \<Longrightarrow> t = [] \<or> \<not> is_digit (hd t) \<Longrightarrow>
    takeWhile is_digit (ds @ t) = ds \<and> dropWhile is_digit (ds @ t) = t"
  by (induction ds) (auto simp: takeWhile_eq_Nil_iff dropWhile_eq_self_iff)

lemma two_digits_ok:
  assumes "0 \<le> n"
  shows "list_all is_digit (two_digits n)" "two_digits n \<noteq> []" "digits_int (two_digits n) = n"
proof -
  have d: "list_all is_digit (nat_digits (nat n))" by (rule nat_digits_digits)
  then show "list_all is_digit (two_digits n)" by (simp add: two_digits_def is_digit_def)
  show "two_digits n \<noteq> []" by (simp add: two_digits_def)
  have "digits_int (nat_digits (nat n)) = n" using digits_int_val [OF d] assms by simp
  moreover have "digits_int (CHR ''0'' # s) = digits_int s" for s
    using digits_int_append [of "[CHR ''0'']" s] by (simp add: digits_int_def)
  ultimately show "digits_int (two_digits n) = n" by (simp add: two_digits_def)
qed

lemma Atoi_exponent:
  assumes "in_i64 e"
  shows "Atoi ((if e < 0 then ''-'' else ''+'') @ two_digits \<bar>e\<bar>) = Some e"
  using two_digits_ok [of "\<bar>e\<bar>"] assms by (auto simp: Atoi_def Let_def)

definition layout :: "string \<Rightarrow> int \<Rightarrow> string" where
  "layout ds e =
     (if e + 1 \<le> - 4 \<or> 16 < e + 1 then
        take 1 ds @ (if 1 < length ds then ''.'' @ drop 1 ds else [])
          @ ''e'' @ (if e < 0 then ''-'' else ''+'') @ two_digits \<bar>e\<bar>
      else if e + 1 \<le> 0 then ''0.'' @ replicate (nat (- (e + 1))) CHR ''0'' @ ds
      else if int (length ds) \<le> e + 1 then ds @ replicate (nat (e + 1) - length ds) CHR ''0'' @ ''.0''
      else take (nat (e + 1)) ds @ ''.'' @ drop (nat (e + 1)) ds)"

lemma lex_sign_digit: "s \<noteq> [] \<Longrightarrow> hd s \<noteq> CHR ''-'' \<Longrightarrow> lex_sign s = ([], s)"
  by (cases s) (auto simp: lex_sign_def)

lemma lex_int_digits:
  assumes "ds \<noteq> []" "list_all is_digit ds" "hd ds \<noteq> CHR ''0''" "t = [] \<or> \<not> is_digit (hd t)"
  shows "lex_int (ds @ t) = Some (ds, t)"
  using assms takeWhile_digit_run [of ds t] by (cases ds) (auto simp: lex_int_def)

lemma lex_frac_digits:
  assumes "ds \<noteq> []" "list_all is_digit ds" "t = [] \<or> \<not> is_digit (hd t)"
  shows "lex_frac (CHR ''.'' # ds @ t) = Some (CHR ''.'' # ds, t)"
  using assms takeWhile_digit_run [of ds t] by (simp add: lex_frac_def)

lemma lex_frac_none: "t = [] \<or> hd t \<noteq> CHR ''.'' \<Longrightarrow> lex_frac t = Some ([], t)"
  by (cases t) (auto simp: lex_frac_def)

lemma lex_exp_none: "t = [] \<or> (hd t \<noteq> CHR ''e'' \<and> hd t \<noteq> CHR ''E'') \<Longrightarrow> lex_exp t = Some ([], t)"
  by (cases t) (auto simp: lex_exp_def)

lemma lex_exp_digits_ok:
  assumes "ds \<noteq> []" "list_all is_digit ds" "c = CHR ''+'' \<or> c = CHR ''-''"
  shows "lex_exp (CHR ''e'' # c # ds) = Some (CHR ''e'' # c # ds, [])"
proof -
  have "takeWhile is_digit ds = ds" "dropWhile is_digit ds = []"
    using takeWhile_digit_run [of ds "[]"] assms(2) by simp_all
  then show ?thesis using assms(1,3) by (auto simp: lex_exp_def lex_exp_digits_def simp del: takeWhile_eq_all_conv)
qed

text \<open>The four parts of each layout, and their value.\<close>

definition layout_parts :: "string \<Rightarrow> int \<Rightarrow> num_parts" where
  "layout_parts ds e =
     (if e + 1 \<le> - 4 \<or> 16 < e + 1 then
        ([], take 1 ds, if 1 < length ds then ''.'' @ drop 1 ds else [],
         ''e'' @ (if e < 0 then ''-'' else ''+'') @ two_digits \<bar>e\<bar>)
      else if e + 1 \<le> 0 then ([], ''0'', ''.'' @ replicate (nat (- (e + 1))) CHR ''0'' @ ds, [])
      else if int (length ds) \<le> e + 1 then
        ([], ds @ replicate (nat (e + 1) - length ds) CHR ''0'', ''.0'', [])
      else ([], take (nat (e + 1)) ds, ''.'' @ drop (nat (e + 1)) ds, []))"

lemma layout_lex:
  assumes ds: "ds \<noteq> []" "list_all is_digit ds" "hd ds \<noteq> CHR ''0''"
  shows "lex_number (layout ds e) = Some (layout_parts ds e, [])"
proof -
  obtain c cs where c: "ds = c # cs" using ds(1) by (cases ds) auto
  have dig: "is_digit c" "list_all is_digit cs" "c \<noteq> CHR ''0''" using ds c by auto
  note neq = is_digit_neq [OF dig(1)]
  have sub: "list_all is_digit (take k ds)" "list_all is_digit (drop k ds)" for k
    using ds(2) by (auto simp: list_all_iff dest: in_set_takeD in_set_dropD)
  have zs: "list_all is_digit (replicate k CHR ''0'')" for k
    by (simp add: list_all_iff is_digit_def)
  have nondigit: "\<not> is_digit CHR ''.''" "\<not> is_digit CHR ''e''" by (simp_all add: is_digit_def)
  note td = two_digits_ok [of "\<bar>e\<bar>"]
  consider (sci) "e + 1 \<le> - 4 \<or> 16 < e + 1"
    | (small) "\<not> (e + 1 \<le> - 4 \<or> 16 < e + 1)" "e + 1 \<le> 0"
    | (big) "\<not> (e + 1 \<le> - 4 \<or> 16 < e + 1)" "0 < e + 1" "int (length ds) \<le> e + 1"
    | (mid) "\<not> (e + 1 \<le> - 4 \<or> 16 < e + 1)" "0 < e + 1" "e + 1 < int (length ds)"
    by linarith
  then show ?thesis
  proof cases
    case sci
    let ?sg = "if e < 0 then CHR ''-'' else CHR ''+''"
    have ex: "lex_exp (CHR ''e'' # ?sg # two_digits \<bar>e\<bar>) = Some (CHR ''e'' # ?sg # two_digits \<bar>e\<bar>, [])"
      using td by (intro lex_exp_digits_ok) auto
    show ?thesis
    proof (cases "cs = []")
      case True
      have "lex_int ([c] @ CHR ''e'' # ?sg # two_digits \<bar>e\<bar>) = Some ([c], CHR ''e'' # ?sg # two_digits \<bar>e\<bar>)"
        using dig nondigit by (intro lex_int_digits) auto
      with sci True c ex neq show ?thesis
        by (auto simp: layout_def layout_parts_def lex_number_def lex_sign_digit lex_frac_none)
    next
      case False
      have "lex_int ([c] @ CHR ''.'' # cs @ CHR ''e'' # ?sg # two_digits \<bar>e\<bar>)
          = Some ([c], CHR ''.'' # cs @ CHR ''e'' # ?sg # two_digits \<bar>e\<bar>)"
        using dig nondigit by (intro lex_int_digits) auto
      moreover have "lex_frac (CHR ''.'' # cs @ CHR ''e'' # ?sg # two_digits \<bar>e\<bar>)
          = Some (CHR ''.'' # cs, CHR ''e'' # ?sg # two_digits \<bar>e\<bar>)"
        using dig nondigit False by (intro lex_frac_digits) auto
      ultimately show ?thesis using sci False c ex neq
        by (auto simp: layout_def layout_parts_def lex_number_def lex_sign_digit)
    qed
  next
    case small
    have "lex_frac (CHR ''.'' # (replicate (nat (- (e + 1))) CHR ''0'' @ ds) @ [])
        = Some (CHR ''.'' # replicate (nat (- (e + 1))) CHR ''0'' @ ds, [])"
      using ds zs by (intro lex_frac_digits) auto
    then show ?thesis using small
      by (simp add: layout_def layout_parts_def lex_number_def lex_sign_digit lex_int_def lex_exp_none)
  next
    case big
    let ?z = "replicate (nat (e + 1) - length ds) CHR ''0''"
    have "lex_int ((ds @ ?z) @ ''.0'') = Some (ds @ ?z, ''.0'')"
      using ds zs nondigit by (intro lex_int_digits) auto
    moreover have "lex_frac ''.0'' = Some (''.0'', [])" by (simp add: lex_frac_def is_digit_def)
    moreover have "lex_sign (ds @ ?z @ ''.0'') = ([], ds @ ?z @ ''.0'')"
      using c neq by (simp add: lex_sign_digit)
    ultimately show ?thesis using big
      by (simp add: layout_def layout_parts_def lex_number_def lex_exp_none)
  next
    case mid
    let ?k = "nat (e + 1)"
    have k: "0 < ?k" "?k < length ds" using mid by auto
    have "lex_int (take ?k ds @ CHR ''.'' # drop ?k ds) = Some (take ?k ds, CHR ''.'' # drop ?k ds)"
      using sub ds k nondigit by (intro lex_int_digits) auto
    moreover have "lex_frac (CHR ''.'' # drop ?k ds @ []) = Some (CHR ''.'' # drop ?k ds, [])"
      using sub k by (intro lex_frac_digits) auto
    moreover have "lex_sign (take ?k ds @ CHR ''.'' # drop ?k ds) = ([], take ?k ds @ CHR ''.'' # drop ?k ds)"
      using c neq k by (simp add: lex_sign_digit)
    ultimately show ?thesis using mid
      by (simp add: layout_def layout_parts_def lex_number_def lex_exp_none)
  qed
qed

lemma layout_value:
  assumes ds: "ds \<noteq> []"
  shows "parts_value (layout_parts ds e) = of_int (digits_int ds) * 10 powi (e + 1 - int (length ds))"
proof -
  obtain c cs where c: "ds = c # cs" using ds(1) by (cases ds) auto
  consider (sci) "e + 1 \<le> - 4 \<or> 16 < e + 1"
    | (small) "\<not> (e + 1 \<le> - 4 \<or> 16 < e + 1)" "e + 1 \<le> 0"
    | (big) "\<not> (e + 1 \<le> - 4 \<or> 16 < e + 1)" "0 < e + 1" "int (length ds) \<le> e + 1"
    | (mid) "\<not> (e + 1 \<le> - 4 \<or> 16 < e + 1)" "0 < e + 1" "e + 1 < int (length ds)"
    by linarith
  then show ?thesis
  proof cases
    case sci
    have "exp_value (''e'' @ (if e < 0 then ''-'' else ''+'') @ two_digits \<bar>e\<bar>) = e"
      using two_digits_ok(3) [of "\<bar>e\<bar>"] by (cases "e < 0") (simp_all add: exp_value_def)
    then show ?thesis using sci c by (cases "cs = []") (auto simp: layout_parts_def)
  next
    case small
    have "digits_int (CHR ''0'' # replicate (nat (- (e + 1))) CHR ''0'' @ ds) = digits_int ds"
      using digits_int_append [of "replicate (Suc (nat (- (e + 1)))) CHR ''0''" ds]
        digits_int_zeros [of "Suc (nat (- (e + 1)))"] by simp
    then show ?thesis using small by (simp add: layout_parts_def exp_value_def algebra_simps)
  next
    case big
    let ?k = "nat (e + 1) - length ds"
    have "digits_int (ds @ replicate (Suc ?k) CHR ''0'') = digits_int ds * 10 ^ Suc ?k"
      using digits_int_append [of ds "replicate (Suc ?k) CHR ''0''"] digits_int_zeros [of "Suc ?k"] by simp
    then have "digits_int (ds @ replicate ?k CHR ''0'' @ ''0'') = digits_int ds * 10 ^ Suc ?k"
      by (simp add: replicate_append_same)
    moreover have "parts_value (layout_parts ds e)
        = of_int (digits_int (ds @ replicate ?k CHR ''0'' @ ''0'')) * 10 powi (- 1)"
      using big by (simp add: layout_parts_def exp_value_def)
    ultimately have "parts_value (layout_parts ds e) = of_int (digits_int ds) * 10 ^ ?k"
      by (simp add: power_int_minus)
    moreover have "e + 1 - int (length ds) = int ?k" using big by linarith
    ultimately show ?thesis by (simp only: power_int_of_nat)
  next
    case mid
    let ?k = "nat (e + 1)"
    have "digits_int (take ?k ds @ drop ?k ds) = digits_int ds" by simp
    moreover have "- int (length ds - ?k) = e + 1 - int (length ds)" using mid by linarith
    ultimately show ?thesis using mid by (simp add: layout_parts_def exp_value_def)
  qed
qed

lemma pyFloatRepr_layout:
  assumes "is_f64 \<bar>x\<bar>" "x \<noteq> 0" "shortest \<bar>x\<bar> = (ds, e)" "in_i64 e"
  shows "pyFloatRepr (FNum x) = (if x < 0 then ''-'' else []) @ layout ds e"
proof -
  have ds: "ds \<noteq> []" "list_all is_digit ds" using shortest_ok [OF assms(1) _ assms(3)] assms(2) by auto
  obtain c cs where c: "ds = c # cs" using ds(1) by (cases ds) auto
  have neq: "d \<noteq> CHR ''.'' \<and> d \<noteq> CHR ''e''" if "d \<in> set ds" for d
    using that ds(2) is_digit_neq by (auto simp: list_all_iff)
  let ?man = "c # (if cs = [] then [] else CHR ''.'' # cs)"
  let ?ex = "(if e < 0 then ''-'' else ''+'') @ two_digits \<bar>e\<bar>"
  have "CHR ''e'' \<notin> set ?man" using neq c by auto
  then have "Cut (?man @ CHR ''e'' # ?ex) CHR ''e'' = Some (?man, ?ex)"
    using cut_acc_skip [of "CHR ''e''" ?man "[]" ?ex] by (simp add: Cut_def)
  moreover have "FormatFloat_e \<bar>x\<bar> = ?man @ CHR ''e'' # ?ex"
    using assms(3) c by (simp add: FormatFloat_e_def)
  moreover have "remove1 CHR ''.'' ?man = ds"
    using neq c by auto
  ultimately show ?thesis
    using Atoi_exponent [OF assms(4)] by (simp add: pyFloatRepr_def layout_def Let_def)
qed


section \<open>The exponent of a representable number\<close>

lemma bit_len_bounds: "0 < n \<Longrightarrow> 0 < bit_len n \<and> 2 ^ nat (bit_len n - 1) \<le> n \<and> n < 2 ^ nat (bit_len n)"
proof (induction n rule: bit_len.induct)
  case (1 n)
  show ?case
  proof (cases "n = 1")
    case True
    then show ?thesis by (simp add: bit_len.simps)
  next
    case False
    let ?b = "bit_len (n div 2)"
    have b: "bit_len n = 1 + ?b" using 1(2) by (simp add: bit_len.simps [of n])
    have ih: "0 < ?b" "2 ^ nat (?b - 1) \<le> n div 2" "n div 2 < 2 ^ nat ?b"
      using 1 False by auto
    have "nat (bit_len n - 1) = Suc (nat (?b - 1))" "nat (bit_len n) = Suc (nat ?b)"
      using b ih(1) by (auto simp: nat_add_distrib)
    then have "2 ^ nat (bit_len n - 1) = 2 * (2::int) ^ nat (?b - 1)" "2 ^ nat (bit_len n) = 2 * (2::int) ^ nat ?b"
      by simp_all
    then show ?thesis using ih b by linarith
  qed
qed

lemma bit_len_lower:
  assumes "0 < n"
  shows "(2::rat) powi (bit_len n - 1) \<le> of_int n" "of_int n < (2::rat) powi bit_len n"
proof -
  note b = bit_len_bounds [OF assms]
  have "(2::rat) powi (bit_len n - 1) = of_int (2 ^ nat (bit_len n - 1))"
    "(2::rat) powi bit_len n = of_int (2 ^ nat (bit_len n))"
    using b by (simp_all add: power_int_def)
  then show "(2::rat) powi (bit_len n - 1) \<le> of_int n" "of_int n < (2::rat) powi bit_len n"
    using b by (simp_all del: of_int_power of_int_numeral)
qed

text \<open>A positive number has 53 bits from its last bit up, fewer only at the least exponent.\<close>

lemma ulp_exp_bounds:
  assumes "0 < x"
  shows "x < 2 powi (ulp_exp x + 53)" "ulp_exp x = - 1074 \<or> 2 powi (ulp_exp x + 52) \<le> x"
proof -
  obtain n d where q: "quotient_of x = (n, d)" by (cases "quotient_of x")
  have d: "0 < d" using quotient_of_denom_pos q by blast
  have x: "x = of_int n / of_int d" using quotient_of_div q by blast
  have n: "0 < n" using assms x d by (simp add: zero_less_divide_iff)
  let ?b = "bit_len n - bit_len d"
  note bn = bit_len_lower [OF n] and bd = bit_len_lower [OF d]
  have "(2::rat) powi (?b - 1) = 2 powi (bit_len n - 1) / 2 powi bit_len d"
    by (simp add: power_int_diff)
  also have "\<dots> \<le> of_int n / of_int d" using bn bd d n by (intro frac_le) auto
  finally have lo: "(2::rat) powi (?b - 1) \<le> x" using x by simp
  have "of_int n / of_int d < 2 powi bit_len n / (2::rat) powi (bit_len d - 1)"
    using bn bd d n by (intro frac_less) auto
  also have "\<dots> = 2 powi (?b + 1)" by (simp add: power_int_diff power_int_add)
  finally have hi: "x < 2 powi (?b + 1)" using x by simp
  let ?u = "(if x < 2 powi ?b then ?b else ?b + 1) - 53"
  have u: "ulp_exp x = max (- 1074) ?u" by (simp add: ulp_exp_def q Let_def)
  have "x < 2 powi (?u + 53)" using hi by simp
  also have "\<dots> \<le> 2 powi (ulp_exp x + 53)" using u by (intro power_int_increasing) auto
  finally show "x < 2 powi (ulp_exp x + 53)" .
  have "2 powi (?u + 52) \<le> x" using lo by simp
  then show "ulp_exp x = - 1074 \<or> 2 powi (ulp_exp x + 52) \<le> x" using u by (auto simp: max_def)
qed

lemma dec_value_lower:
  assumes "round64 v = FNum x" "0 < v"
  shows "2 powi (- 1076) < v"
proof -
  have ne: "round_pos v \<noteq> 0" using assms by (auto simp: round64_def Let_def split: if_splits)
  have half: "1 / 2 \<le> v / 2 powi ulp_exp v"
  proof (rule ccontr)
    assume "\<not> 1 / 2 \<le> v / 2 powi ulp_exp v"
    then have lt: "v / 2 powi ulp_exp v < 1 / 2" by simp
    have "\<lfloor>v / 2 powi ulp_exp v\<rfloor> = 0" using lt assms(2) by (intro floor_unique) auto
    then have "round_half_even (v / 2 powi ulp_exp v) = 0"
      using lt unfolding round_half_even_def Let_def by simp
    then show False using ne unfolding round_pos_def by simp
  qed
  have "(2::rat) powi (- 1076) < 2 powi (ulp_exp v - 1)"
    using ulp_exp_ge [of v] by (intro power_int_strict_increasing) auto
  also have "\<dots> \<le> v" using half by (simp add: power_int_diff field_simps)
  finally show ?thesis .
qed

lemma dec_value_upper:
  assumes "round64 v = FNum x" "0 < v"
  shows "v < 2 powi 1025"
proof (rule ccontr)
  let ?u = "ulp_exp v"
  assume "\<not> v < 2 powi 1025"
  then have big: "2 powi 1025 \<le> v" by simp
  have fin: "round_pos v < 2 powi 1024"
    using assms by (auto simp: round64_def Let_def split: if_splits)
  have "\<lfloor>v / 2 powi ?u\<rfloor> \<le> round_half_even (v / 2 powi ?u)"
    by (auto simp: round_half_even_def Let_def)
  then have "v / 2 powi ?u - 1 < of_int (round_half_even (v / 2 powi ?u))" by linarith
  then have "(v / 2 powi ?u - 1) * 2 powi ?u < round_pos v"
    unfolding round_pos_def by (intro mult_strict_right_mono) auto
  then have rp: "v - 2 powi ?u < round_pos v" by (simp add: left_diff_distrib)
  have "2 powi ?u \<le> v / 2"
  proof (cases "?u = - 1074")
    case True
    have "(2::rat) powi (- 1074) \<le> 2 powi (1025 - 1)" by (intro power_int_increasing) auto
    also have "\<dots> \<le> v / 2" using big by (subst power_int_diff) auto
    finally show ?thesis using True by simp
  next
    case False
    then have "2 powi (?u + 52) \<le> v" using ulp_exp_bounds(2) [OF assms(2)] by blast
    moreover have "(2::rat) powi (?u + 1) \<le> 2 powi (?u + 52)" by (intro power_int_increasing) auto
    ultimately have "2 powi (?u + 1) \<le> v" by linarith
    then show ?thesis by (simp add: power_int_add)
  qed
  moreover have "(2::rat) powi 1025 = 2 * 2 powi 1024"
    using power_int_add [of "2::rat" 1 1024] by simp
  ultimately show False using rp fin big by linarith
qed

lemma digits_val_bound: "list_all is_digit cs \<Longrightarrow> digits_val cs < 10 ^ length cs"
proof (induction cs rule: rev_induct)
  case (snoc c cs)
  then have "digits_val cs < 10 ^ length cs" "digit_val c \<le> 9" by (auto simp: is_digit_def digit_val_def)
  then have "10 * digits_val cs + digit_val c < 10 * 10 ^ length cs" by linarith
  then show ?case by simp
qed (simp add: digits_val_def)

lemma digits_val_Cons: "digits_val (c # cs) = digit_val c * 10 ^ length cs + digits_val cs"
proof (induction cs rule: rev_induct)
  case (snoc d cs)
  have "digits_val (c # cs @ [d]) = 10 * digits_val (c # cs) + digit_val d"
    using digits_val_snoc [of "c # cs" d] by simp
  with snoc show ?case by simp
qed (simp add: digits_val_def)

lemma digits_int_range:
  assumes "list_all is_digit ds" "ds \<noteq> []" "hd ds \<noteq> CHR ''0''"
  shows "10 ^ (length ds - 1) \<le> digits_int ds" "digits_int ds < 10 ^ length ds"
proof -
  have di: "digits_int ds = int (digits_val ds)" using digits_int_val assms(1) by blast
  have "int (digits_val ds) < int (10 ^ length ds)"
    using digits_val_bound [OF assms(1)] by (simp only: of_nat_less_iff)
  then show "digits_int ds < 10 ^ length ds" using di by simp
  obtain c cs where c: "ds = c # cs" using assms(2) by (cases ds) auto
  have "byte c \<noteq> byte CHR ''0''" using assms(3) c of_char_eq_iff by (metis list.sel(1))
  moreover have "48 \<le> byte c" using assms(1) c by (simp add: is_digit_def)
  ultimately have "1 \<le> digit_val c" by (simp add: digit_val_def)
  then have "1 * 10 ^ length cs \<le> digit_val c * 10 ^ length cs" by (intro mult_right_mono) auto
  then have "10 ^ length cs \<le> digits_val ds" unfolding c digits_val_Cons by linarith
  then have "int (10 ^ length cs) \<le> int (digits_val ds)" by (simp only: of_nat_le_iff)
  then show "10 ^ (length ds - 1) \<le> digits_int ds" using di c by simp
qed

lemma shortest_exp_range:
  assumes "is_f64 x" "0 < x" "shortest x = (ds, e)"
  shows "- 1077 < e" "e < 1025"
proof -
  note ds = shortest_ok [OF assms]
  let ?n = "digits_int ds"
  let ?v = "of_int ?n * (10::rat) powi (e + 1 - int (length ds))"
  have len: "1 \<le> length ds" using ds(1) by (cases ds) auto
  note rng = digits_int_range [OF ds(2,1,3)]
  have "rat_of_int (10 ^ (length ds - 1)) \<le> of_int ?n" using rng(1) by (simp only: of_int_le_iff)
  then have "(10::rat) ^ (length ds - 1) * 10 powi (e + 1 - int (length ds)) \<le> ?v"
    by (intro mult_right_mono) auto
  moreover have "(10::rat) ^ (length ds - 1) * 10 powi (e + 1 - int (length ds)) = 10 powi e"
    using len by (simp add: of_nat_diff flip: power_int_of_nat power_int_add)
  ultimately have lo: "10 powi e \<le> ?v" by argo
  have "rat_of_int ?n < of_int (10 ^ length ds)" using rng(2) by (simp only: of_int_less_iff)
  then have "?v < 10 ^ length ds * 10 powi (e + 1 - int (length ds))"
    by (intro mult_strict_right_mono) auto
  moreover have "(10::rat) ^ length ds * 10 powi (e + 1 - int (length ds)) = 10 powi (e + 1)"
    by (simp flip: power_int_of_nat power_int_add)
  ultimately have hi: "?v < 10 powi (e + 1)" by argo
  have pos: "0 < ?v" using lo by (meson less_le_trans zero_less_numeral zero_less_power_int)
  have "(2::rat) powi 1025 \<le> 10 powi 1025" by (intro power_int_mono) auto
  then have "(10::rat) powi e < 10 powi 1025" using dec_value_upper [OF ds(4) pos] lo by linarith
  then show "e < 1025" using power_int_increasing [of 1025 e "10::rat"] by linarith
  have "(10::rat) powi (- 1076) \<le> 2 powi (- 1076)"
    by (simp only: power_int_minus) (intro le_imp_inverse_le power_int_mono; simp)
  then have "(10::rat) powi (- 1076) < 10 powi (e + 1)" using dec_value_lower [OF ds(4) pos] hi by linarith
  then have "- 1076 < e + 1" using power_int_increasing [of "e + 1" "- 1076" "10::rat"] by linarith
  then show "- 1077 < e" by simp
qed


section \<open>Representation and parsing\<close>

lemma round64_uminus: "round64 v = FNum x \<Longrightarrow> round64 (- v) = FNum (- x)"
  by (auto simp: round64_def Let_def split: if_splits)

lemma is_f64_abs: "is_f64 x \<Longrightarrow> is_f64 \<bar>x\<bar>"
  using round64_uminus [of x x] by (auto simp: is_f64_def abs_if)

lemma is_f64_nonzero: "is_f64 x \<Longrightarrow> x \<noteq> 0"
  by (auto simp: is_f64_def round64_def Let_def)

text \<open>What is written for a number: the parts of a JSON number that denotes it.\<close>

lemma pyFloatRepr_lex:
  assumes "is_f64 x"
  obtains sg ip fp ep where "lex_number (pyFloatRepr (FNum x)) = Some ((sg, ip, fp, ep), [])"
    "round64 (parts_value (sg, ip, fp, ep)) = FNum x"
proof -
  obtain ds e where sh: "shortest \<bar>x\<bar> = (ds, e)" by (cases "shortest \<bar>x\<bar>")
  have ax: "is_f64 \<bar>x\<bar>" "0 < \<bar>x\<bar>" using assms is_f64_abs is_f64_nonzero by auto
  note ds = shortest_ok [OF ax sh]
  have "in_i64 e" using shortest_exp_range [OF ax sh] by simp
  then have r: "pyFloatRepr (FNum x) = (if x < 0 then ''-'' else []) @ layout ds e"
    using pyFloatRepr_layout [OF ax(1) _ sh] ax(2) by simp
  obtain ip fp ep where p: "layout_parts ds e = ([], ip, fp, ep)"
    unfolding layout_parts_def by (metis (full_types))
  have lex: "lex_number (layout ds e) = Some (([], ip, fp, ep), [])"
    using layout_lex [OF ds(1-3)] p by simp
  have val: "round64 (parts_value ([], ip, fp, ep)) = FNum \<bar>x\<bar>"
    using layout_value [OF ds(1), of e] p ds(4) by metis
  show thesis
  proof (cases "x < 0")
    case True
    have "lex_sign (layout ds e) = ([], layout ds e)"
      using lex by (auto simp: lex_number_def lex_sign_def split: list.splits option.splits if_splits)
    then have "lex_number (''-'' @ layout ds e) = Some ((''-'', ip, fp, ep), [])"
      using lex by (auto simp: lex_number_def lex_sign_def split: option.splits prod.splits)
    moreover have "parts_value (''-'', ip, fp, ep) = - parts_value ([], ip, fp, ep)" by simp
    ultimately show thesis using that [of "''-''" ip fp ep] r True round64_uminus [OF val] by simp
  next
    case False
    then show thesis using that lex val r by simp
  qed
qed

lemma pyFloatRepr_number: "f64_finite f \<Longrightarrow> is_json_number (pyFloatRepr f)"
proof (cases f)
  case (FZero s)
  then show ?thesis
    by (cases s) (simp_all add: pyFloatRepr_def is_json_number_def lex_number_def lex_sign_def lex_int_def
        lex_frac_def lex_exp_def is_digit_def)
next
  case (FNum x)
  assume "f64_finite f"
  then have "is_f64 x" using FNum by (simp add: f64_finite_def)
  then obtain sg ip fp ep where "lex_number (pyFloatRepr (FNum x)) = Some ((sg, ip, fp, ep), [])"
    by (rule pyFloatRepr_lex)
  then show ?thesis using FNum by (simp add: is_json_number_def)
qed (simp_all add: f64_finite_def)

lemma ParseFloat_pyFloatRepr: "f64_finite f \<Longrightarrow> ParseFloat (pyFloatRepr f) = Some f"
proof (cases f)
  case (FZero s)
  then show ?thesis
    by (cases s) (simp_all add: pyFloatRepr_def ParseFloat_def lex_number_def lex_sign_def lex_int_def
        lex_frac_def lex_exp_def is_digit_def digits_int_def)
next
  case (FNum x)
  assume "f64_finite f"
  then have "is_f64 x" using FNum by (simp add: f64_finite_def)
  then obtain sg ip fp ep where p: "lex_number (pyFloatRepr (FNum x)) = Some ((sg, ip, fp, ep), [])"
    "round64 (parts_value (sg, ip, fp, ep)) = FNum x" by (rule pyFloatRepr_lex)
  have "parts_value (sg, ip, fp, ep) \<noteq> 0"
  proof
    assume "parts_value (sg, ip, fp, ep) = 0"
    then show False using p(2) by (simp add: round64_def)
  qed
  then show ?thesis using p FNum by (simp add: ParseFloat_def Let_def del: parts_value.simps)
qed (simp_all add: f64_finite_def)

section \<open>Rounding is idempotent\<close>

lemma round_half_even_int [simp]: "round_half_even (of_int k) = k"
  by (simp add: round_half_even_def)

lemma round_half_even_le: "y \<le> of_int k \<Longrightarrow> round_half_even y \<le> k"
  using round_half_even_cases [of y] by (metis ceiling_le_iff floor_le_ceiling order_trans)

text \<open>Rounding gives a number that rounds to itself.\<close>

lemma round_pos_idem:
  assumes "0 < v" "0 < round_pos v"
  shows "round_pos (round_pos v) = round_pos v"
proof -
  let ?u = "ulp_exp v" and ?r = "round_half_even (v / 2 powi ulp_exp v)"
  let ?x = "round_pos v"
  let ?w = "ulp_exp ?x"
  have x: "?x = of_int ?r * 2 powi ?u" by (simp add: round_pos_def)
  have "v / 2 powi ?u < 2 powi 53"
    using ulp_exp_bounds(1) [OF assms(1)] by (simp add: power_int_add field_simps)
  then have r: "?r \<le> 2 ^ 53" by (intro round_half_even_le) simp
  have "\<exists>k. ?x / 2 powi ?w = of_int k"
  proof (cases "?w \<le> ?u")
    case True
    have "?x / 2 powi ?w = of_int ?r * 2 powi (?u - ?w)" using x by (simp add: power_int_diff)
    also have "\<dots> = of_int (?r * 2 ^ nat (?u - ?w))" using True by (simp add: power_int_def)
    finally show ?thesis by blast
  next
    case False
    then have w: "?u + 53 \<le> ?w + 52" "2 powi (?w + 52) \<le> ?x"
      using ulp_exp_bounds(2) [OF assms(2)] ulp_exp_ge [of v] by auto
    have "rat_of_int ?r \<le> of_int (2 ^ 53)" using r by (simp only: of_int_le_iff)
    then have "?x \<le> of_int (2 ^ 53) * 2 powi ?u" unfolding x by (intro mult_right_mono) auto
    then have le: "?x \<le> 2 powi (?u + 53)" by (simp add: power_int_add)
    have "(2::rat) powi (?u + 53) \<le> 2 powi (?w + 52)" using w by (intro power_int_increasing) auto
    then have "?x = 2 powi (?w + 52)" using w le by linarith
    then have "?x / 2 powi ?w = 2 powi (?w + 52) / 2 powi ?w" by argo
    also have "\<dots> = of_int (2 ^ 52)" by (simp add: power_int_add)
    finally show ?thesis by blast
  qed
  then obtain k where k: "?x / 2 powi ?w = of_int k" by blast
  then have "round_pos ?x = of_int k * 2 powi ?w" by (simp add: round_pos_def [of ?x])
  also have "\<dots> = ?x" using k by (simp add: field_simps)
  finally show ?thesis .
qed

lemma round_pos_nonneg: "0 \<le> v \<Longrightarrow> 0 \<le> round_pos v"
proof -
  assume "0 \<le> v"
  then have "0 \<le> round_half_even (v / 2 powi ulp_exp v)" by (auto simp: round_half_even_def Let_def)
  then show ?thesis by (simp add: round_pos_def)
qed

lemma round64_is_f64: "round64 v = FNum x \<Longrightarrow> is_f64 x"
proof -
  assume r: "round64 v = FNum x"
  let ?p = "round_pos \<bar>v\<bar>"
  have v: "v \<noteq> 0" "?p \<noteq> 0" "?p < 2 ^ 1024" "x = (if v < 0 then - ?p else ?p)"
    using r by (auto simp: round64_def Let_def split: if_splits)
  then have p: "0 < ?p" using round_pos_nonneg [of "\<bar>v\<bar>"] by simp
  then have "round_pos ?p = ?p" using round_pos_idem [of "\<bar>v\<bar>"] v(1) by simp
  then show ?thesis using v p by (auto simp: is_f64_def round64_def Let_def)
qed

lemma round64_finite: "(\<forall>s. round64 v \<noteq> FInf s) \<Longrightarrow> f64_finite (round64 v)"
  using round64_is_f64 [of v]
  by (cases "round64 v") (auto simp: f64_finite_def, auto simp: round64_def Let_def split: if_splits)

lemma ParseFloat_finite: "ParseFloat s = Some f \<Longrightarrow> f64_finite f"
  using round64_finite [of "parts_value p" for p]
  by (auto simp: ParseFloat_def Let_def f64_finite_def [of "FZero _"]
      split: option.splits list.splits if_splits float64.splits prod.splits simp del: parts_value.simps)
     (metis float64.distinct round64_finite)+

end
