(* ===== verification/Json_Codec.thy ===== *)
theory Json_Codec
  imports Float64 "HOL-Library.AList"
begin

text \<open>
  The ordered JSON reader and writer of \<^verbatim>\<open>internal/pairing/json.go\<close>. An object keeps the order
  its keys were first written in, so it is an association list with distinct keys; a number
  keeps its text. Reading goes through the tokens of Go's \<^verbatim>\<open>json.Decoder\<close>, whose grammar of
  strings, numbers and punctuation is written out here on the bytes of the input; writing
  follows Python's \<^verbatim>\<open>json.dumps(..., indent=2, ensure_ascii=False)\<close>. The theory ends with the
  round trip: what is written reads back as the same value, with its numbers in canonical form
  and invalid UTF-8 replaced by U+FFFD.
\<close>

section \<open>Ordered objects\<close>

type_synonym jobject = "(string \<times> json) list"

definition obj_get :: "jobject \<Rightarrow> string \<Rightarrow> json" where
  "obj_get ob k = (case map_of ob k of Some v \<Rightarrow> v | None \<Rightarrow> JNull)"

definition obj_len :: "jobject \<Rightarrow> nat" where
  "obj_len ob = length ob"

definition obj_set :: "jobject \<Rightarrow> string \<Rightarrow> json \<Rightarrow> jobject" where
  "obj_set ob k v = AList.update k v ob"

section \<open>Reading\<close>

definition is_ws :: "char \<Rightarrow> bool" where
  "is_ws c \<longleftrightarrow> c = CHR '' '' \<or> c = CHR 0x09 \<or> c = CHR 0x0A \<or> c = CHR 0x0D"

definition skip_ws :: "string \<Rightarrow> string" where
  "skip_ws = dropWhile is_ws"

abbreviation quote_char :: char where
  "quote_char \<equiv> CHR 0x22"

abbreviation backslash :: char where
  "backslash \<equiv> CHR 0x5C"

definition hex_val :: "char \<Rightarrow> nat option" where
  "hex_val c =
     (let n = byte c in
      if 48 \<le> n \<and> n \<le> 57 then Some (n - 48)
      else if 97 \<le> n \<and> n \<le> 102 then Some (n - 87)
      else if 65 \<le> n \<and> n \<le> 70 then Some (n - 55)
      else None)"

definition getu4 :: "string \<Rightarrow> nat option" where
  "getu4 s =
     (case s of
        a # b # c # d # _ \<Rightarrow>
          (case (hex_val a, hex_val b, hex_val c, hex_val d) of
             (Some p, Some q, Some r, Some t) \<Rightarrow> Some (((p * 16 + q) * 16 + r) * 16 + t)
           | _ \<Rightarrow> None)
      | _ \<Rightarrow> None)"

text \<open>
  What follows a backslash: the bytes it stands for and how many bytes of the input it takes. A
  surrogate that is not the first half of a pair stands for U+FFFD.
\<close>

definition scan_unicode :: "string \<Rightarrow> (string \<times> nat) option" where
  "scan_unicode u =
     (case getu4 u of
        None \<Rightarrow> None
      | Some r \<Rightarrow>
          if 55296 \<le> r \<and> r \<le> 57343 then
            (case drop 4 u of
               c # d # v \<Rightarrow>
                 (case getu4 v of
                    Some r1 \<Rightarrow>
                      if c = backslash \<and> d = CHR ''u'' \<and> r \<le> 56319 \<and> 56320 \<le> r1 \<and> r1 \<le> 57343
                      then Some (encode_rune (65536 + (r - 55296) * 1024 + (r1 - 56320)), 11)
                      else Some (encode_rune RuneError, 5)
                  | None \<Rightarrow> Some (encode_rune RuneError, 5))
             | _ \<Rightarrow> Some (encode_rune RuneError, 5))
          else Some (encode_rune r, 5))"

definition scan_escape :: "string \<Rightarrow> (string \<times> nat) option" where
  "scan_escape t =
     (case t of
        [] \<Rightarrow> None
      | c # u \<Rightarrow>
          if c = quote_char \<or> c = backslash \<or> c = CHR ''/'' then Some ([c], 1)
          else if c = CHR ''b'' then Some ([CHR 0x08], 1)
          else if c = CHR ''f'' then Some ([CHR 0x0C], 1)
          else if c = CHR ''n'' then Some ([CHR 0x0A], 1)
          else if c = CHR ''r'' then Some ([CHR 0x0D], 1)
          else if c = CHR ''t'' then Some ([CHR 0x09], 1)
          else if c = CHR ''u'' then scan_unicode u
          else None)"

text \<open>The body of a string and its closing quote: the decoded string and what follows.\<close>

function scan_string :: "string \<Rightarrow> (string \<times> string) option" where
  "scan_string s =
     (case s of
        [] \<Rightarrow> None
      | c # t \<Rightarrow>
          if c = quote_char then Some ([], t)
          else if c = backslash then
            (case scan_escape t of
               None \<Rightarrow> None
             | Some (out, n) \<Rightarrow> map_option (\<lambda>(d, r). (out @ d, r)) (scan_string (drop n t)))
          else if byte c < 32 then None
          else map_option (\<lambda>(d, r). (encode_rune (fst (decode_rune s)) @ d, r))
                 (scan_string (drop (snd (decode_rune s)) s)))"
  by pat_completeness auto
termination
proof (relation "measure length", goal_cases)
  case (3 s c t)
  then show ?case using decode_rune_width [of s] by simp
qed auto

declare scan_string.simps [simp del]

text \<open>
  A value, the elements of an array after its opening bracket, and the members of an object
  after its opening brace. \<open>first\<close> says that no comma is due. Between any two nested calls a byte
  is consumed, so a fuel above twice the length of the input is never used up (\<open>decode_fuel\<close>).
\<close>

fun decodeJSONValue :: "nat \<Rightarrow> string \<Rightarrow> (json \<times> string) option"
  and decode_items :: "nat \<Rightarrow> bool \<Rightarrow> json list \<Rightarrow> string \<Rightarrow> (json \<times> string) option"
  and decode_members :: "nat \<Rightarrow> bool \<Rightarrow> jobject \<Rightarrow> string \<Rightarrow> (json \<times> string) option" where
  "decodeJSONValue 0 s = None"
| "decodeJSONValue (Suc n) s =
     (case skip_ws s of
        [] \<Rightarrow> None
      | c # t \<Rightarrow>
          if c = CHR ''{'' then decode_members n True [] t
          else if c = CHR ''['' then decode_items n True [] t
          else if c = quote_char then map_option (\<lambda>(d, r). (JString d, r)) (scan_string t)
          else if HasPrefix (c # t) ''null'' then Some (JNull, drop 3 t)
          else if HasPrefix (c # t) ''true'' then Some (JBool True, drop 3 t)
          else if HasPrefix (c # t) ''false'' then Some (JBool False, drop 4 t)
          else map_option (\<lambda>(p, r). (JNumber (parts_text p), r)) (lex_number (c # t)))"
| "decode_items 0 first arr s = None"
| "decode_items (Suc n) first arr s =
     (case skip_ws s of
        [] \<Rightarrow> None
      | c # t \<Rightarrow>
          if c = CHR '']'' then Some (JArray arr, t)
          else if c = CHR ''}'' then None
          else if first then
            (case decodeJSONValue n (c # t) of
               None \<Rightarrow> None
             | Some (v, r) \<Rightarrow> decode_items n False (arr @ [v]) r)
          else if c = CHR '','' then
            (case decodeJSONValue n t of
               None \<Rightarrow> None
             | Some (v, r) \<Rightarrow> decode_items n False (arr @ [v]) r)
          else None)"
| "decode_members 0 first ob s = None"
| "decode_members (Suc n) first ob s =
     (case skip_ws s of
        [] \<Rightarrow> None
      | c # t \<Rightarrow>
          if c = CHR ''}'' then Some (JObject ob, t)
          else if c = CHR '']'' then None
          else if \<not> first \<and> c \<noteq> CHR '','' then None
          else
            (case (if first then c # t else skip_ws t) of
               [] \<Rightarrow> None
             | q # k \<Rightarrow>
                 if q \<noteq> quote_char then None
                 else (case scan_string k of
                         None \<Rightarrow> None
                       | Some (key, r) \<Rightarrow>
                           (case skip_ws r of
                              [] \<Rightarrow> None
                            | d # r' \<Rightarrow>
                                if d \<noteq> CHR '':'' then None
                                else (case decodeJSONValue n r' of
                                        None \<Rightarrow> None
                                      | Some (v, r'') \<Rightarrow> decode_members n False (obj_set ob key v) r'')))))"

definition decodeJSONDocument :: "string \<Rightarrow> json option" where
  "decodeJSONDocument raw =
     (case decodeJSONValue (2 * length raw + 2) raw of
        None \<Rightarrow> None
      | Some (v, r) \<Rightarrow> if skip_ws r = [] then Some v else None)"

section \<open>Writing\<close>

definition hex_digit :: "nat \<Rightarrow> char" where
  "hex_digit n = (if n < 10 then char_of (48 + n) else char_of (87 + n))"

text \<open>The lower-case hexadecimal digits of a number, at least \<open>w\<close> of them.\<close>

fun hex_pad :: "nat \<Rightarrow> nat \<Rightarrow> string" where
  "hex_pad 0 n = []"
| "hex_pad (Suc w) n = hex_pad w (n div 16) @ [hex_digit (n mod 16)]"

definition json_escape :: "nat \<Rightarrow> string" where
  "json_escape r =
     (if r = 34 then [backslash, quote_char]
      else if r = 92 then [backslash, backslash]
      else if r = 8 then [backslash, CHR ''b'']
      else if r = 12 then [backslash, CHR ''f'']
      else if r = 10 then [backslash, CHR ''n'']
      else if r = 13 then [backslash, CHR ''r'']
      else if r = 9 then [backslash, CHR ''t'']
      else if r < 32 then [backslash, CHR ''u''] @ hex_pad 4 r
      else encode_rune r)"

definition pyJSONString :: "string \<Rightarrow> string" where
  "pyJSONString s = [quote_char] @ concat (map json_escape (runes s)) @ [quote_char]"

text \<open>\<^verbatim>\<open>big.Int.SetString(s, 10)\<close> followed by \<^verbatim>\<open>String\<close>.\<close>

definition big_int_text :: "string \<Rightarrow> string option" where
  "big_int_text s =
     (let neg = (s \<noteq> [] \<and> hd s = CHR ''-'');
          ds = (if s \<noteq> [] \<and> (hd s = CHR ''-'' \<or> hd s = CHR ''+'') then tl s else s)
      in if ds = [] \<or> \<not> list_all is_digit ds then None
         else Some (Itoa (if neg then - digits_int ds else digits_int ds)))"

definition pyJSONNumber :: "string \<Rightarrow> string" where
  "pyJSONNumber s =
     (if \<not> (CHR ''.'' \<in> set s \<or> CHR ''e'' \<in> set s \<or> CHR ''E'' \<in> set s) then
        (case big_int_text s of Some t \<Rightarrow> t | None \<Rightarrow> s)
      else (case ParseFloat s of None \<Rightarrow> s | Some f \<Rightarrow> pyFloatRepr f))"

definition writeJSONIndent :: "nat \<Rightarrow> string" where
  "writeJSONIndent indent = concat (replicate indent ''  '')"

fun writeJSONValue :: "json \<Rightarrow> nat \<Rightarrow> string"
  and write_items :: "json list \<Rightarrow> nat \<Rightarrow> string"
  and write_members :: "(string \<times> json) list \<Rightarrow> nat \<Rightarrow> string" where
  "writeJSONValue JNull indent = ''null''"
| "writeJSONValue (JBool b) indent = (if b then ''true'' else ''false'')"
| "writeJSONValue (JString s) indent = pyJSONString s"
| "writeJSONValue (JNumber n) indent = pyJSONNumber n"
| "writeJSONValue (JArray vs) indent =
     (if vs = [] then ''[]''
      else ''['' @ [CHR 0x0A] @ write_items vs indent @ writeJSONIndent indent @ '']'')"
| "writeJSONValue (JObject ms) indent =
     (if ms = [] then ''{}''
      else ''{'' @ [CHR 0x0A] @ write_members ms indent @ writeJSONIndent indent @ ''}'')"
| "write_items [] indent = []"
| "write_items (v # vs) indent =
     writeJSONIndent (indent + 1) @ writeJSONValue v (indent + 1)
       @ (if vs = [] then [] else '','') @ [CHR 0x0A] @ write_items vs indent"
| "write_members [] indent = []"
| "write_members (m # ms) indent =
     writeJSONIndent (indent + 1) @ pyJSONString (fst m) @ '': '' @ writeJSONValue (snd m) (indent + 1)
       @ (if ms = [] then [] else '','') @ [CHR 0x0A] @ write_members ms indent"

definition encodeJSONDocument :: "json \<Rightarrow> string" where
  "encodeJSONDocument v = writeJSONValue v 0"

section \<open>Python's str and repr\<close>

text \<open>
  \<open>printable\<close> is \<^verbatim>\<open>unicode.IsPrint\<close>: the tables of the Unicode version Go was built with are
  not part of the sources.
\<close>

definition pyReprRune :: "(nat \<Rightarrow> bool) \<Rightarrow> nat \<Rightarrow> nat \<Rightarrow> string" where
  "pyReprRune printable quote r =
     (if r = 92 then [backslash, backslash]
      else if r mod 256 = quote \<and> r < 128 then [backslash, char_of quote]
      else if r = 10 then [backslash, CHR ''n'']
      else if r = 13 then [backslash, CHR ''r'']
      else if r = 9 then [backslash, CHR ''t'']
      else if printable r then encode_rune r
      else if r < 256 then [backslash, CHR ''x''] @ hex_pad 2 r
      else if r < 65536 then [backslash, CHR ''u''] @ hex_pad 4 r
      else [backslash, CHR ''U''] @ hex_pad 8 r)"

definition pyReprString :: "(nat \<Rightarrow> bool) \<Rightarrow> string \<Rightarrow> string" where
  "pyReprString printable s =
     (let quote = (if CHR 0x27 \<in> set s \<and> quote_char \<notin> set s then 34 else 39)
      in [char_of quote] @ concat (map (pyReprRune printable quote) (runes s)) @ [char_of quote])"

fun pyStr :: "(nat \<Rightarrow> bool) \<Rightarrow> json \<Rightarrow> string"
  and pyRepr :: "(nat \<Rightarrow> bool) \<Rightarrow> json \<Rightarrow> string"
  and pyReprSeq :: "(nat \<Rightarrow> bool) \<Rightarrow> json list \<Rightarrow> string list"
  and pyReprObject :: "(nat \<Rightarrow> bool) \<Rightarrow> (string \<times> json) list \<Rightarrow> string list" where
  "pyStr pr JNull = ''None''"
| "pyStr pr (JBool b) = (if b then ''True'' else ''False'')"
| "pyStr pr (JString s) = s"
| "pyStr pr (JNumber n) = pyJSONNumber n"
| "pyStr pr (JArray vs) = ''['' @ Join (pyReprSeq pr vs) '', '' @ '']''"
| "pyStr pr (JObject ms) = ''{'' @ Join (pyReprObject pr ms) '', '' @ ''}''"
| "pyRepr pr (JString s) = pyReprString pr s"
| "pyRepr pr JNull = ''None''"
| "pyRepr pr (JBool b) = (if b then ''True'' else ''False'')"
| "pyRepr pr (JNumber n) = pyJSONNumber n"
| "pyRepr pr (JArray vs) = ''['' @ Join (pyReprSeq pr vs) '', '' @ '']''"
| "pyRepr pr (JObject ms) = ''{'' @ Join (pyReprObject pr ms) '', '' @ ''}''"
| "pyReprSeq pr [] = []"
| "pyReprSeq pr (v # vs) = pyRepr pr v # pyReprSeq pr vs"
| "pyReprObject pr [] = []"
| "pyReprObject pr (m # ms) = (pyReprString pr (fst m) @ '': '' @ pyRepr pr (snd m)) # pyReprObject pr ms"

lemma pyRepr_pyStr: "(\<forall>s. v \<noteq> JString s) \<Longrightarrow> pyRepr pr v = pyStr pr v"
  by (cases v) auto

section \<open>Strings round trip\<close>

lemma hex_val_digit [simp]: "n < 16 \<Longrightarrow> hex_val (hex_digit n) = Some n"
  by (auto simp: hex_val_def hex_digit_def Let_def)

lemma hex_pad_small: "r < 32 \<Longrightarrow> hex_pad 4 r = [hex_digit 0, hex_digit 0, hex_digit (r div 16), hex_digit (r mod 16)]"
proof -
  assume r: "r < 32"
  have 4: "(4::nat) = Suc (Suc (Suc (Suc 0)))" by simp
  have "r div 16 div 16 = 0" "r div 16 < 16" using r by auto
  then show ?thesis unfolding 4 hex_pad.simps by simp
qed

lemma getu4_small: "r < 32 \<Longrightarrow> getu4 (hex_pad 4 r @ t) = Some r"
  by (simp add: hex_pad_small getu4_def)

lemma lead_byte:
  assumes "scalar r" "128 \<le> r"
  shows "\<exists>n s. encode_rune r = char_of n # s \<and> 128 \<le> n \<and> n < (256::nat)"
proof -
  consider "r < 2048" | "2048 \<le> r" "r < 65536" | "65536 \<le> r" by linarith
  then show ?thesis
  proof cases
    case 1
    then have "encode_rune r = char_of (192 + r div 64) # [char_of (128 + r mod 64)]" "r div 64 < 64"
      using assms by (auto simp: encode_rune_def Let_def scalar_def)
    then show ?thesis by (intro exI [of _ "192 + r div 64"]) auto
  next
    case 2
    then have "\<exists>s. encode_rune r = char_of (224 + r div 4096) # s" "r div 4096 < 16"
      using assms by (auto simp: encode_rune_def Let_def scalar_def)
    then show ?thesis by (intro exI [of _ "224 + r div 4096"]) auto
  next
    case 3
    then have "\<exists>s. encode_rune r = char_of (240 + r div 262144) # s" "r div 262144 < 5"
      using assms by (auto simp: encode_rune_def Let_def scalar_def)
    then show ?thesis by (intro exI [of _ "240 + r div 262144"]) auto
  qed
qed

lemma encode_rune_first:
  assumes "scalar r" "32 \<le> r" "r \<noteq> 34" "r \<noteq> 92"
  shows "\<exists>c s. encode_rune r = c # s \<and> c \<noteq> quote_char \<and> c \<noteq> backslash \<and> 32 \<le> byte c"
proof (cases "r < 128")
  case True
  then have e: "encode_rune r = [char_of r]" by (simp add: encode_rune_def)
  have b: "byte (char_of r) = r" using True by simp
  have "char_of r \<noteq> quote_char"
  proof
    assume "char_of r = quote_char"
    then have "byte (char_of r) = byte quote_char" by simp
    then show False using b assms(3) by simp
  qed
  moreover have "char_of r \<noteq> backslash"
  proof
    assume "char_of r = backslash"
    then have "byte (char_of r) = byte backslash" by simp
    then show False using b assms(4) by simp
  qed
  ultimately show ?thesis using e b assms(2) by auto
next
  case False
  then obtain n :: nat and s where n: "encode_rune r = char_of n # s" "128 \<le> n" "n < 256"
    using lead_byte assms(1) by (metis not_less)
  have b: "byte (char_of n) = n" using n by simp
  have "char_of n \<noteq> c" if "byte c < 128" for c using b n(2) that by auto
  then have "char_of n \<noteq> quote_char" "char_of n \<noteq> backslash" by simp_all
  then show ?thesis using n b by auto
qed

lemma scan_plain:
  assumes "scalar r" "32 \<le> r" "r \<noteq> 34" "r \<noteq> 92"
  shows "scan_string (encode_rune r @ t) = map_option (\<lambda>(d, u). (encode_rune r @ d, u)) (scan_string t)"
proof -
  obtain c s where c: "encode_rune r = c # s" "c \<noteq> quote_char" "c \<noteq> backslash" "32 \<le> byte c"
    using encode_rune_first assms by blast
  have "scan_string (c # s @ t) = map_option (\<lambda>(d, u). (encode_rune r @ d, u)) (scan_string t)"
    using c decode_encode [OF assms(1), of t]
    by (subst scan_string.simps) (simp add: not_less)
  then show ?thesis using c(1) by simp
qed

lemma scan_backslash:
  assumes "scan_escape (e @ t) = Some (out, length e)"
  shows "scan_string (backslash # e @ t) = map_option (\<lambda>(d, u). (out @ d, u)) (scan_string t)"
  using assms by (subst scan_string.simps) simp

lemma json_named:
  "r \<in> {34, 92, 8, 12, 10, 13, 9} \<Longrightarrow>
     \<exists>c. json_escape r = [backslash, c] \<and> scan_escape (c # t) = Some (encode_rune r, 1)"
  by (elim insertE emptyE; simp add: json_escape_def scan_escape_def encode_rune_def char_of_def bit_Suc_0_iff)

lemma scan_json_escape:
  assumes "scalar r"
  shows "scan_string (json_escape r @ t) = map_option (\<lambda>(d, u). (encode_rune r @ d, u)) (scan_string t)"
proof -
  consider (named) c where "json_escape r = [backslash, c]" "scan_escape (c # t) = Some (encode_rune r, 1)"
    | (hex) "json_escape r = [backslash, CHR ''u''] @ hex_pad 4 r" "r < 32"
    | (plain) "json_escape r = encode_rune r" "32 \<le> r" "r \<noteq> 34" "r \<noteq> 92"
    using json_named [of r t] by (cases "r \<in> {34, 92, 8, 12, 10, 13, 9}"; cases "r < 32")
      (auto simp: json_escape_def)
  then show ?thesis
  proof cases
    case named
    then show ?thesis using scan_backslash [of "[c]" t] by simp
  next
    case hex
    have len: "length (hex_pad 4 r) = 4" using hex(2) by (simp add: hex_pad_small)
    have "scan_escape ((CHR ''u'' # hex_pad 4 r) @ t) = Some (encode_rune r, length (CHR ''u'' # hex_pad 4 r))"
      using hex(2) len by (simp add: scan_escape_def scan_unicode_def getu4_small)
    then show ?thesis using scan_backslash [of "CHR ''u'' # hex_pad 4 r" t "encode_rune r"] hex(1) by simp
  next
    case plain
    then show ?thesis using scan_plain assms by simp
  qed
qed

lemma scan_pyJSONString: "scan_string (concat (map json_escape (runes s)) @ quote_char # t) = Some (utf8_fix s, t)"
proof -
  have "scan_string (concat (map json_escape rs) @ quote_char # t) = Some (runes_string rs, t)"
    if "\<And>r. r \<in> set rs \<Longrightarrow> scalar r" for rs
    using that
  proof (induction rs)
    case Nil
    then show ?case by (subst scan_string.simps) (simp add: runes_string_def)
  next
    case (Cons r rs)
    then show ?case by (simp add: scan_json_escape runes_string_def)
  qed
  then show ?thesis using runes_scalar by (simp add: utf8_fix_def)
qed


section \<open>Numbers\<close>

definition ends_number :: "string \<Rightarrow> bool" where
  "ends_number t \<longleftrightarrow> t = [] \<or> (\<not> is_digit (hd t) \<and> hd t \<noteq> CHR ''.'' \<and> hd t \<noteq> CHR ''e'' \<and> hd t \<noteq> CHR ''E'')"

lemma takeWhile_ext: "ends_number t \<Longrightarrow> takeWhile is_digit (s @ t) = takeWhile is_digit s"
  by (induction s) (auto simp: ends_number_def takeWhile_eq_Nil_iff)

lemma dropWhile_ext: "ends_number t \<Longrightarrow> dropWhile is_digit (s @ t) = dropWhile is_digit s @ t"
  by (induction s) (auto simp: ends_number_def dropWhile_eq_self_iff)

lemma lex_exp_ext:
  assumes "lex_exp s = Some (ep, r)" "ends_number t"
  shows "lex_exp (s @ t) = Some (ep, r @ t)"
proof (cases s)
  case Nil
  then show ?thesis using assms by (cases t) (auto simp: lex_exp_def ends_number_def)
next
  case (Cons c u)
  then show ?thesis using assms(1)
    by (auto simp: lex_exp_def lex_exp_digits_def takeWhile_ext [OF assms(2)] dropWhile_ext [OF assms(2)]
        split: list.splits if_splits)
qed

lemma lex_frac_ext:
  assumes "lex_frac s = Some (fp, r)" "ends_number t"
  shows "lex_frac (s @ t) = Some (fp, r @ t)"
proof (cases s)
  case Nil
  then show ?thesis using assms by (cases t) (auto simp: lex_frac_def ends_number_def)
next
  case (Cons c u)
  then show ?thesis using assms(1)
    by (auto simp: lex_frac_def takeWhile_ext [OF assms(2)] dropWhile_ext [OF assms(2)] split: if_splits)
qed

lemma lex_int_ext:
  assumes "lex_int s = Some (ip, r)" "ends_number t"
  shows "lex_int (s @ t) = Some (ip, r @ t)"
  using assms takeWhile_ext [OF assms(2), of s] dropWhile_ext [OF assms(2), of s]
  by (cases s) (auto simp: lex_int_def split: if_splits)

lemma lex_number_ext:
  assumes "lex_number s = Some (p, r)" "ends_number t"
  shows "lex_number (s @ t) = Some (p, r @ t)"
proof -
  obtain sg s1 ip s2 fp s3 ep where l: "lex_sign s = (sg, s1)" "lex_int s1 = Some (ip, s2)"
    "lex_frac s2 = Some (fp, s3)" "lex_exp s3 = Some (ep, r)" "p = (sg, ip, fp, ep)"
    using assms(1) by (auto simp: lex_number_def split: prod.splits option.splits)
  have "lex_sign (s @ t) = (sg, s1 @ t)"
    using l(1,2) by (cases s) (auto simp: lex_sign_def lex_int_def split: if_splits)
  then show ?thesis using l assms(2) by (simp add: lex_number_def lex_int_ext lex_frac_ext lex_exp_ext)
qed

lemma lex_number_text:
  assumes "lex_number s = Some (p, r)"
  shows "s = parts_text p @ r"
proof -
  have e: "u = ep @ v" if "lex_exp u = Some (ep, v)" for u ep v
    using that by (auto simp: lex_exp_def lex_exp_digits_def split: list.splits if_splits)
  have f: "u = fp @ v" if "lex_frac u = Some (fp, v)" for u fp v
    using that by (auto simp: lex_frac_def split: list.splits if_splits)
  have i: "u = ip @ v" if "lex_int u = Some (ip, v)" for u ip v
    using that by (auto simp: lex_int_def split: list.splits if_splits)
  have g: "u = sg @ v" if "lex_sign u = (sg, v)" for u sg v
    using that by (auto simp: lex_sign_def split: list.splits if_splits)
  show ?thesis using assms
    by (auto simp: lex_number_def split: prod.splits option.splits dest!: e f i g)
qed

text \<open>What may start a number: a digit or a minus sign, never a bracket, a quote or a letter.\<close>

lemma lex_number_first:
  "lex_number s = Some (p, r) \<Longrightarrow> \<exists>c t. s = c # t \<and> (is_digit c \<or> c = CHR ''-'')"
  by (cases s) (auto simp: lex_number_def lex_sign_def lex_int_def is_digit_def split: prod.splits option.splits if_splits)

lemma Itoa_number: "is_json_number (Itoa n)"
proof -
  have pos: "lex_number (nat_digits k) = Some (([], nat_digits k, [], []), [])" for k
  proof (cases "k = 0")
    case True
    then show ?thesis
      by (simp add: nat_digits.simps digit_char_def lex_number_def lex_sign_def lex_int_def lex_frac_def lex_exp_def
          char_of_def bit_Suc_0_iff)
  next
    case False
    have "lex_int (nat_digits k @ []) = Some (nat_digits k, [])"
      using False hd_nat_digits_nonzero nat_digits_digits by (intro lex_int_digits) auto
    moreover have "lex_sign (nat_digits k) = ([], nat_digits k)"
      using hd_nat_digits is_digit_neq by (intro lex_sign_digit) auto
    ultimately show ?thesis by (simp add: lex_number_def lex_frac_none lex_exp_none)
  qed
  have "lex_sign (nat_digits k) = ([], nat_digits k)" for k
    using hd_nat_digits is_digit_neq by (intro lex_sign_digit) auto
  then have "lex_number (''-'' @ nat_digits k) = Some ((''-'', nat_digits k, [], []), [])" for k
    using pos [of k] by (auto simp: lex_number_def lex_sign_def split: option.splits prod.splits)
  then show ?thesis using pos by (auto simp: is_json_number_def Itoa_def)
qed

lemma pyJSONNumber_number: "is_json_number s \<Longrightarrow> is_json_number (pyJSONNumber s)"
  using Itoa_number pyFloatRepr_number ParseFloat_finite
  by (auto simp: pyJSONNumber_def big_int_text_def Let_def split: option.splits)


section \<open>Documents round trip\<close>

text \<open>Every number of a decoded value is the text of a JSON number.\<close>

fun json_ok :: "json \<Rightarrow> bool" where
  "json_ok (JNumber n) = is_json_number n"
| "json_ok (JArray vs) = list_all json_ok vs"
| "json_ok (JObject ms) = list_all (\<lambda>m. json_ok (snd m)) ms"
| "json_ok _ = True"

text \<open>What a value becomes by being written and read.\<close>

fun jnorm :: "json \<Rightarrow> json"
  and jnorm_items :: "json list \<Rightarrow> json list"
  and jnorm_members :: "jobject \<Rightarrow> (string \<times> json) list \<Rightarrow> jobject" where
  "jnorm JNull = JNull"
| "jnorm (JBool b) = JBool b"
| "jnorm (JString s) = JString (utf8_fix s)"
| "jnorm (JNumber n) = JNumber (pyJSONNumber n)"
| "jnorm (JArray vs) = JArray (jnorm_items vs)"
| "jnorm (JObject ms) = JObject (jnorm_members [] ms)"
| "jnorm_items [] = []"
| "jnorm_items (v # vs) = jnorm v # jnorm_items vs"
| "jnorm_members ob [] = ob"
| "jnorm_members ob (m # ms) = jnorm_members (obj_set ob (utf8_fix (fst m)) (jnorm (snd m))) ms"

lemma skip_ws_Nil [simp]: "skip_ws [] = []"
  by (simp add: skip_ws_def)

lemma skip_ws_space [simp]: "is_ws c \<Longrightarrow> skip_ws (c # s) = skip_ws s"
  by (simp add: skip_ws_def)

lemma skip_ws_other [simp]: "\<not> is_ws c \<Longrightarrow> skip_ws (c # s) = c # s"
  by (simp add: skip_ws_def)

lemma skip_ws_indent [simp]: "skip_ws (writeJSONIndent k @ s) = skip_ws s"
  by (induction k) (simp_all add: writeJSONIndent_def skip_ws_def is_ws_def)

lemma is_ws_punct [simp]:
  "is_ws CHR 0x0A" "\<not> is_ws CHR '']''" "\<not> is_ws CHR ''}''" "\<not> is_ws CHR '',''" "\<not> is_ws CHR '':''"
  "\<not> is_ws CHR ''{''" "\<not> is_ws CHR ''[''" "\<not> is_ws quote_char" "is_ws CHR '' ''"
  by (simp_all add: is_ws_def)

lemma number_first_neq:
  assumes "is_digit c \<or> c = CHR ''-''"
  shows "\<not> is_ws c" "c \<notin> {CHR ''{'', CHR ''['', CHR '']'', CHR ''}'', quote_char, CHR ''n'', CHR ''t'', CHR ''f''}"
  using assms by (auto simp: is_ws_def is_digit_def)

text \<open>The first byte of a written value is neither white space nor a closing bracket.\<close>

lemma write_first:
  assumes "json_ok v"
  shows "\<exists>c t. writeJSONValue v k = c # t \<and> \<not> is_ws c \<and> c \<noteq> CHR '']'' \<and> c \<noteq> CHR ''}''"
proof (cases v)
  case (JNumber n)
  then have "is_json_number (pyJSONNumber n)" using assms pyJSONNumber_number by simp
  then obtain p r where "lex_number (pyJSONNumber n) = Some (p, r)"
    by (auto simp: is_json_number_def split: option.splits)
  then obtain c t where "pyJSONNumber n = c # t" "is_digit c \<or> c = CHR ''-''"
    using lex_number_first by blast
  then show ?thesis using JNumber number_first_neq [of c] by auto
qed (auto simp: pyJSONString_def is_ws_def)

lemma decode_number:
  assumes "is_json_number n" "ends_number r"
  shows "decodeJSONValue (Suc m) (n @ r) = Some (JNumber n, r)"
proof -
  obtain p where p: "lex_number n = Some (p, [])"
    using assms(1) by (auto simp: is_json_number_def split: option.splits)
  obtain c t where c: "n = c # t" "is_digit c \<or> c = CHR ''-''" using lex_number_first [OF p] by blast
  note neq = number_first_neq [OF c(2)]
  have "lex_number (c # t @ r) = Some (p, r)" using lex_number_ext [OF p assms(2)] c(1) by simp
  moreover have "parts_text p = n" using lex_number_text [OF p] by simp
  ultimately show ?thesis using neq c(1) by (simp add: HasPrefix_def)
qed

lemma decode_string: "decodeJSONValue (Suc m) (pyJSONString s @ r) = Some (JString (utf8_fix s), r)"
  by (simp add: pyJSONString_def scan_pyJSONString)

lemma ends_number_punct [simp]: "ends_number (CHR '','' # t)" "ends_number (CHR 0x0A # t)" "ends_number []"
  by (simp_all add: ends_number_def is_digit_def)

abbreviation comma_if :: "bool \<Rightarrow> string" where
  "comma_if b \<equiv> (if b then '','' else [])"

lemma decode_write:
  "json_ok v \<Longrightarrow> ends_number r \<Longrightarrow> length (writeJSONValue v k) \<le> n \<Longrightarrow>
     decodeJSONValue n (writeJSONValue v k @ r) = Some (jnorm v, r)"
  "list_all json_ok vs \<Longrightarrow> length (write_items vs k) < n \<Longrightarrow>
     decode_items n first arr (comma_if (\<not> first \<and> vs \<noteq> []) @ CHR 0x0A # write_items vs k @ writeJSONIndent k @ CHR '']'' # r)
       = Some (JArray (arr @ jnorm_items vs), r)"
  "list_all (\<lambda>m. json_ok (snd m)) ms \<Longrightarrow> length (write_members ms k) < n \<Longrightarrow>
     decode_members n first ob (comma_if (\<not> first \<and> ms \<noteq> []) @ CHR 0x0A # write_members ms k @ writeJSONIndent k @ CHR ''}'' # r)
       = Some (JObject (jnorm_members ob ms), r)"
proof (induction v k and vs k and ms k arbitrary: n r and n r first arr and n r first ob
    rule: writeJSONValue_write_items_write_members.induct)
  case (1 k)
  then show ?case by (cases n) (simp_all add: HasPrefix_def is_ws_def)
next
  case (2 b k)
  then show ?case by (cases n; cases b) (auto simp add: HasPrefix_def is_ws_def)
next
  case (3 s k)
  then show ?case using decode_string by (cases n) (auto simp: pyJSONString_def)
next
  case (4 m k)
  then have num: "is_json_number (pyJSONNumber m)" using pyJSONNumber_number by simp
  have "0 < n"
    using 4(3) lex_number_first num by (cases "pyJSONNumber m") (auto simp: is_json_number_def lex_number_def lex_sign_def lex_int_def)
  then show ?case using decode_number [OF num 4(2)] by (cases n) auto
next
  case (5 vs k)
  then obtain m where n: "n = Suc m" by (cases n) (auto split: if_splits)
  show ?case
  proof (cases "vs = []")
    case True
    then show ?thesis using n 5(4) by (cases m) simp_all
  next
    case False
    then have "length (write_items vs k) < m" using 5(4) n by simp
    then have "decode_items m True [] (CHR 0x0A # write_items vs k @ writeJSONIndent k @ CHR '']'' # r)
        = Some (JArray (jnorm_items vs), r)"
      using 5(1) [OF False _ , of m True "[]" r] 5(2) by simp
    then show ?thesis using n False by simp
  qed
next
  case (6 ms k)
  then obtain m where n: "n = Suc m" by (cases n) (auto split: if_splits)
  show ?case
  proof (cases "ms = []")
    case True
    then show ?thesis using n 6(4) by (cases m) simp_all
  next
    case False
    then have "length (write_members ms k) < m" using 6(4) n by simp
    then have "decode_members m True [] (CHR 0x0A # write_members ms k @ writeJSONIndent k @ CHR ''}'' # r)
        = Some (JObject (jnorm_members [] ms), r)"
      using 6(1) [OF False _ , of m True "[]" r] 6(2) by simp
    then show ?thesis using n False by simp
  qed
next
  case (7 k)
  then show ?case by (cases n) simp_all
next
  case (8 v vs k)
  obtain m where n: "n = Suc m" using 8(4) by (cases n) auto
  let ?V = "writeJSONValue v (k + 1)"
  let ?R = "comma_if (vs \<noteq> []) @ CHR 0x0A # write_items vs k @ writeJSONIndent k @ CHR '']'' # r"
  obtain c t where c: "?V = c # t" "\<not> is_ws c" "c \<noteq> CHR '']''" "c \<noteq> CHR ''}''"
    using write_first [of v "k + 1"] 8(3) by auto
  have v: "decodeJSONValue m (?V @ ?R) = Some (jnorm v, ?R)"
    using 8(1) [of ?R m] 8(3,4) n by simp
  moreover have "decodeJSONValue m (CHR 0x0A # writeJSONIndent (Suc k) @ s) = decodeJSONValue m s" for s
    by (cases m) simp_all
  moreover have "decode_items m False (arr @ [jnorm v]) ?R = Some (JArray (arr @ jnorm v # jnorm_items vs), r)"
    using 8(2) [of m False "arr @ [jnorm v]" r] 8(3,4) n by simp
  ultimately show ?case using n c 8(3) by (cases first; cases "vs = []") simp_all
next
  case (9 k)
  then show ?case by (cases n) simp_all
next
  case (10 m ms k)
  obtain n' where n: "n = Suc n'" using 10(4) by (cases n) auto
  let ?V = "writeJSONValue (snd m) (k + 1)"
  let ?R = "comma_if (ms \<noteq> []) @ CHR 0x0A # write_members ms k @ writeJSONIndent k @ CHR ''}'' # r"
  have "decodeJSONValue n' (?V @ ?R) = Some (jnorm (snd m), ?R)"
    using 10(1) [of ?R n'] 10(3,4) n by simp
  moreover have "decodeJSONValue n' (CHR '' '' # s) = decodeJSONValue n' s" for s
    by (cases n') simp_all
  ultimately have v: "decodeJSONValue n' (CHR '' '' # ?V @ ?R) = Some (jnorm (snd m), ?R)" by simp
  have k: "scan_string (concat (map json_escape (runes (fst m))) @ quote_char # CHR '':'' # CHR '' '' # ?V @ ?R)
      = Some (utf8_fix (fst m), CHR '':'' # CHR '' '' # ?V @ ?R)"
    by (rule scan_pyJSONString)
  have ms: "decode_members n' False (obj_set ob (utf8_fix (fst m)) (jnorm (snd m))) ?R
      = Some (JObject (jnorm_members ob (m # ms)), r)"
    using 10(2) [of n' False "obj_set ob (utf8_fix (fst m)) (jnorm (snd m))" r] 10(3,4) n by simp
  show ?case
    using n v k ms by (cases first; cases "ms = []") (simp_all add: pyJSONString_def)
qed

lemma decode_encode_document: "json_ok v \<Longrightarrow> decodeJSONDocument (encodeJSONDocument v) = Some (jnorm v)"
  using decode_write(1) [of v "[]" 0 "2 * length (writeJSONValue v 0) + 2"]
  by (simp add: decodeJSONDocument_def encodeJSONDocument_def)

section \<open>Decoded values are well formed\<close>

text \<open>Numbers are JSON numbers, strings are valid UTF-8 and the keys of an object are distinct.\<close>

fun json_wf :: "json \<Rightarrow> bool" where
  "json_wf (JNumber n) = is_json_number n"
| "json_wf (JString s) = valid_utf8 s"
| "json_wf (JArray vs) = list_all json_wf vs"
| "json_wf (JObject ms) = (distinct (map fst ms) \<and> list_all (\<lambda>m. valid_utf8 (fst m) \<and> json_wf (snd m)) ms)"
| "json_wf _ = True"

lemma json_wf_ok: "json_wf v \<Longrightarrow> json_ok v"
  by (induction v rule: json_ok.induct) (auto simp: list_all_iff)

lemma valid_runes_string: "(\<And>r. r \<in> set rs \<Longrightarrow> scalar r) \<Longrightarrow> valid_utf8 (runes_string rs)"
  by (simp add: valid_utf8_def utf8_fix_def runes_runes_string)

lemma valid_append_rune: "scalar r \<Longrightarrow> valid_utf8 d \<Longrightarrow> valid_utf8 (encode_rune r @ d)"
proof -
  assume r: "scalar r" and d: "valid_utf8 d"
  have "encode_rune r @ d = runes_string (r # runes d)"
    using d by (simp add: runes_string_def valid_utf8_def utf8_fix_def)
  then show ?thesis using valid_runes_string [of "r # runes d"] r runes_scalar by auto
qed

lemma hex_val_bound: "hex_val c = Some n \<Longrightarrow> n < 16"
  by (auto simp: hex_val_def Let_def split: if_splits)

lemma getu4_bound: "getu4 s = Some r \<Longrightarrow> r < 65536"
proof -
  assume "getu4 s = Some r"
  then obtain p q u t :: nat where "p < 16" "q < 16" "u < 16" "t < 16" and r: "r = ((p * 16 + q) * 16 + u) * 16 + t"
    by (auto simp: getu4_def split: list.splits option.splits dest!: hex_val_bound)
  moreover have step: "x * 16 + y < m * 16" if "x < m" "y < 16" for x y m :: nat
    using that by (induction m) (auto simp: less_Suc_eq)
  ultimately show ?thesis
    using step [OF step [OF step [OF \<open>p < 16\<close> \<open>q < 16\<close>] \<open>u < 16\<close>] \<open>t < 16\<close>] by simp
qed

lemma rune_error_rune: "\<exists>r. scalar r \<and> encode_rune RuneError = encode_rune r"
  using scalar_RuneError by blast

lemma scan_escape_rune:
  assumes "scan_escape t = Some (out, n)"
  shows "\<exists>r. scalar r \<and> out = encode_rune r"
proof -
  have simple: "\<exists>r. scalar r \<and> [c] = encode_rune r" if "byte c < 128" for c
    using that by (intro exI [of _ "byte c"]) (simp add: scalar_def encode_rune_def)
  have uni: "\<exists>r. scalar r \<and> out = encode_rune r" if u: "scan_unicode u = Some (out, n)" for u
  proof -
    have "scalar (65536 + (p - 55296) * 1024 + (q - 56320))" if "p \<le> 56319" "56320 \<le> q" "q \<le> 57343" for p q
      using that unfolding scalar_def by linarith
    moreover have "scalar p" if "getu4 u = Some p" "\<not> (55296 \<le> p \<and> p \<le> 57343)" for p
      using that getu4_bound [of u p] unfolding scalar_def by linarith
    moreover obtain p where "getu4 u = Some p" using u by (auto simp: scan_unicode_def split: option.splits)
    ultimately show ?thesis
      using u by (auto simp: scan_unicode_def rune_error_rune split: if_splits list.splits option.splits)
  qed
  show ?thesis
    using assms by (cases t) (auto simp: scan_escape_def split: if_splits intro: simple uni)
qed

lemma scan_string_valid: "scan_string s = Some (d, r) \<Longrightarrow> valid_utf8 d \<and> length r < length s"
proof (induction s arbitrary: d r rule: scan_string.induct)
  case (1 s)
  obtain c t where s: "s = c # t" using 1(3) by (cases s) (auto simp: scan_string.simps)
  have ne: "valid_utf8 []" by (simp add: valid_utf8_def utf8_fix_def runes_string_def runes.simps)
  consider (q) "c = quote_char" | (b) out n d' where "c = backslash" "c \<noteq> quote_char" "scan_escape t = Some (out, n)"
      "scan_string (drop n t) = Some (d', r)" "d = out @ d'"
    | (p) d' where "c \<noteq> quote_char" "c \<noteq> backslash" "\<not> byte c < 32"
      "scan_string (drop (snd (decode_rune s)) s) = Some (d', r)" "d = encode_rune (fst (decode_rune s)) @ d'"
    using 1(3) unfolding s by (subst (asm) scan_string.simps) (auto split: if_splits option.splits)
  then show ?case
  proof cases
    case q
    then show ?thesis using 1(3) ne unfolding s by (subst (asm) scan_string.simps) auto
  next
    case b
    then have "valid_utf8 d' \<and> length r < length (drop n t)" using 1(1) [OF s] by blast
    then show ?thesis using b scan_escape_rune [OF b(3)] valid_append_rune s by auto
  next
    case p
    then have "valid_utf8 d' \<and> length r < length (drop (snd (decode_rune s)) s)" using 1(2) [OF s] by blast
    then show ?thesis using p valid_append_rune scalar_decode by auto
  qed
qed

lemma obj_set_wf: "json_wf (JObject ob) \<Longrightarrow> valid_utf8 k \<Longrightarrow> json_wf v \<Longrightarrow> json_wf (JObject (obj_set ob k v))"
proof -
  assume wf: "json_wf (JObject ob)" and k: "valid_utf8 k" and v: "json_wf v"
  have "set (AList.update k v ob) \<subseteq> insert (k, v) (set ob)"
    by (induction ob) (auto split: if_splits)
  then show ?thesis using wf k v distinct_update [of ob k v]
    by (fastforce simp: obj_set_def list_all_iff)
qed

lemma lex_exp_self:
  assumes "lex_exp s = Some (ep, r)"
  shows "lex_exp ep = Some (ep, [])" "ep = [] \<or> hd ep = CHR ''e'' \<or> hd ep = CHR ''E''"
proof -
  have tw: "takeWhile is_digit (takeWhile is_digit t) = takeWhile is_digit t" for t
    by (rule takeWhile_idem)
  have dw: "dropWhile is_digit (takeWhile is_digit t) = []" for t
    by (auto dest: set_takeWhileD)
  have nd: "takeWhile is_digit t \<noteq> [] \<Longrightarrow> hd (takeWhile is_digit t) \<noteq> CHR ''+'' \<and> hd (takeWhile is_digit t) \<noteq> CHR ''-''" for t
    by (cases t) (auto simp: is_digit_def)
  show "lex_exp ep = Some (ep, [])"
  proof (cases s)
    case Nil
    then show ?thesis using assms by (simp add: lex_exp_def)
  next
    case (Cons c t)
    then show ?thesis
      using assms tw dw nd [of t] by (cases t) (auto simp: lex_exp_def lex_exp_digits_def split: if_splits)
  qed
  show "ep = [] \<or> hd ep = CHR ''e'' \<or> hd ep = CHR ''E''"
    using assms by (auto simp: lex_exp_def lex_exp_digits_def split: list.splits if_splits)
qed

lemma takeWhile_all: "list_all is_digit (takeWhile is_digit t)"
  by (auto simp: list_all_iff dest: set_takeWhileD)

lemma lex_frac_self:
  assumes "lex_frac s = Some (fp, r)" "ep = [] \<or> hd ep = CHR ''e'' \<or> hd ep = CHR ''E''"
  shows "lex_frac (fp @ ep) = Some (fp, ep)" "fp = [] \<or> hd fp = CHR ''.''"
proof -
  have e: "ep = [] \<or> \<not> is_digit (hd ep)" "ep = [] \<or> hd ep \<noteq> CHR ''.''" using assms(2) by (auto simp: is_digit_def)
  have "fp = [] \<or> (\<exists>ds. fp = CHR ''.'' # ds \<and> ds \<noteq> [] \<and> list_all is_digit ds)"
    using assms(1) takeWhile_all [of "tl s"] by (cases s) (auto simp: lex_frac_def split: if_splits)
  then show "lex_frac (fp @ ep) = Some (fp, ep)" "fp = [] \<or> hd fp = CHR ''.''"
    using e lex_frac_digits [of _ ep] lex_frac_none [of ep] by auto
qed

lemma lex_int_self:
  assumes "lex_int s = Some (ip, r)" "t = [] \<or> \<not> is_digit (hd t)"
  shows "lex_int (ip @ t) = Some (ip, t)"
proof -
  have "ip = ''0'' \<or> (ip \<noteq> [] \<and> list_all is_digit ip \<and> hd ip \<noteq> CHR ''0'')"
    using assms(1) takeWhile_all [of s] by (auto simp: lex_int_def split: list.splits if_splits)
  then show ?thesis using lex_int_digits [of ip t] assms(2) by (auto simp: lex_int_def)
qed

lemma lex_number_wf:
  assumes "lex_number s = Some (p, r)"
  shows "is_json_number (parts_text p) \<and> length r < length s"
proof -
  obtain sg s1 ip s2 fp s3 ep where l: "lex_sign s = (sg, s1)" "lex_int s1 = Some (ip, s2)"
    "lex_frac s2 = Some (fp, s3)" "lex_exp s3 = Some (ep, r)" "p = (sg, ip, fp, ep)"
    using assms by (auto simp: lex_number_def split: prod.splits option.splits)
  note ep = lex_exp_self [OF l(4)]
  note fp = lex_frac_self [OF l(3) ep(2)]
  have "fp @ ep = [] \<or> \<not> is_digit (hd (fp @ ep))" using fp(2) ep(2) by (cases fp) (auto simp: is_digit_def)
  note ip = lex_int_self [OF l(2) this]
  have ne: "ip \<noteq> []" "hd ip \<noteq> CHR ''-''"
    using l(2) by (auto simp: lex_int_def is_digit_def split: list.splits if_splits)
  have "sg = [] \<or> sg = ''-''" using l(1) by (auto simp: lex_sign_def split: list.splits if_splits)
  then have "lex_sign (sg @ ip @ fp @ ep) = (sg, ip @ fp @ ep)"
  proof
    assume "sg = []"
    then show ?thesis using ne lex_sign_digit [of "ip @ fp @ ep"] by simp
  qed (simp add: lex_sign_def)
  then have "is_json_number (parts_text p)"
    using l(5) ip fp(1) ep(1) by (simp add: is_json_number_def lex_number_def)
  moreover have "length r < length s" using lex_number_text [OF assms] l(5) ne(1) by (cases ip) auto
  ultimately show ?thesis by blast
qed

lemma skip_ws_length: "length (skip_ws s) \<le> length s"
  by (simp add: skip_ws_def length_dropWhile_le)

lemma decode_wf:
  "decodeJSONValue n s = Some (v, r) \<Longrightarrow> json_wf v \<and> length r < length s"
  "decode_items n first arr s = Some (v, r) \<Longrightarrow> list_all json_wf arr \<Longrightarrow> json_wf v \<and> length r < length s"
  "decode_members n first ob s = Some (v, r) \<Longrightarrow> json_wf (JObject ob) \<Longrightarrow> json_wf v \<and> length r < length s"
proof (induction n s and n first arr s and n first ob s arbitrary: v r and v r and v r
    rule: decodeJSONValue_decode_items_decode_members.induct)
  case (2 n s)
  obtain c t where c: "skip_ws s = c # t" using 2(3) by (cases "skip_ws s") auto
  have len: "length t < length s" using skip_ws_length [of s] c by simp
  note p = 2(3) [unfolded decodeJSONValue.simps c list.case]
  show ?case
    using p 2(1,2) [OF c] len scan_string_valid [of t] lex_number_wf [of "c # t"]
    by (fastforce split: if_splits)
next
  case (4 n first arr s)
  obtain c t where c: "skip_ws s = c # t" using 4(5) by (cases "skip_ws s") auto
  have len: "length t < length s" using skip_ws_length [of s] c by simp
  have tail: "json_wf v \<and> length r < length s"
    if "decodeJSONValue n u = Some (w, r')" "decode_items n False (arr @ [w]) r' = Some (v, r)"
      "json_wf w \<and> length r' < length u" "length u \<le> length s"
      "\<And>v r. decode_items n False (arr @ [w]) r' = Some (v, r) \<Longrightarrow> list_all json_wf (arr @ [w]) \<Longrightarrow>
         json_wf v \<and> length r < length r'" for u w r'
    using that 4(6) by fastforce
  show ?case
  proof (cases "c = CHR '']''")
    case True
    then show ?thesis using 4(5,6) c len by auto
  next
    case False
    then have nb: "c \<noteq> CHR ''}''" using 4(5) c by auto
    have ct: "length (c # t) \<le> length s" using len by simp
    show ?thesis
    proof (cases first)
      case True
      then obtain w r' where w: "decodeJSONValue n (c # t) = Some (w, r')" "decode_items n False (arr @ [w]) r' = Some (v, r)"
        using 4(5) c False nb by (auto split: option.splits)
      show ?thesis
        by (rule tail [OF w 4(1) [OF c False nb True w(1)] ct 4(2) [OF c False nb True w(1) refl]])
    next
      case nf: False
      then have cc: "c = CHR '',''" using 4(5) c False nb by (auto split: if_splits)
      then obtain w r' where w: "decodeJSONValue n t = Some (w, r')" "decode_items n False (arr @ [w]) r' = Some (v, r)"
        using 4(5) c False nb nf by (auto split: option.splits)
      show ?thesis
        by (rule tail [OF w 4(3) [OF c False nb nf cc w(1)] less_imp_le [OF len] 4(4) [OF c False nb nf cc w(1) refl]])
    qed
  qed
next
  case (6 n first ob s)
  obtain c t where c: "skip_ws s = c # t" using 6(3) by (cases "skip_ws s") auto
  have len: "length t < length s" using skip_ws_length [of s] c by simp
  show ?case
  proof (cases "c = CHR ''}''")
    case True
    then show ?thesis using 6(3,4) c len by auto
  next
    case False
    then have nb: "c \<noteq> CHR '']''" "\<not> (\<not> first \<and> c \<noteq> CHR '','')" using 6(3) c by (auto split: if_splits)
    let ?u = "if first then c # t else skip_ws t"
    obtain k key r1 r2 w r3 where k: "?u = quote_char # k" "scan_string k = Some (key, r1)"
      "skip_ws r1 = CHR '':'' # r2" "decodeJSONValue n r2 = Some (w, r3)"
      "decode_members n False (obj_set ob key w) r3 = Some (v, r)"
      using 6(3) c False nb by (auto split: list.splits option.splits if_splits)
    have "length ?u \<le> length s" using len skip_ws_length [of t] by auto
    then have "length k < length s" using k(1) by simp
    moreover have "valid_utf8 key \<and> length r1 < length k" using scan_string_valid k(2) by blast
    moreover have "length r2 < length r1" using skip_ws_length [of r1] k(3) by simp
    moreover have "json_wf w \<and> length r3 < length r2"
      using 6(1) [OF c False nb k(1) _ k(2) refl k(3) _ k(4)] by simp
    moreover have "json_wf (JObject (obj_set ob key w)) \<Longrightarrow> json_wf v \<and> length r < length r3"
      using 6(2) [OF c False nb k(1) _ k(2) refl k(3) _ k(4) refl k(5)] by simp
    ultimately show ?thesis using obj_set_wf 6(4) by (metis less_trans)
  qed
qed simp_all
section \<open>Writing is canonical\<close>

lemma valid_append:
  assumes "valid_utf8 a" "valid_utf8 b"
  shows "valid_utf8 (a @ b)"
proof -
  have "runes_string rs @ b = runes_string (rs @ runes b)" for rs
    using assms(2) by (simp add: runes_string_def valid_utf8_def utf8_fix_def)
  then have "a @ b = runes_string (runes a @ runes b)"
    using assms(1) by (metis valid_utf8_def utf8_fix_def)
  then show ?thesis using valid_runes_string [of "runes a @ runes b"] runes_scalar by auto
qed

lemma is_digit_ascii: "is_digit c \<Longrightarrow> byte c < 128"
  by (simp add: is_digit_def)

lemma number_ascii: "is_json_number s \<Longrightarrow> list_all (\<lambda>c. byte c < 128) s"
proof -
  assume "is_json_number s"
  then obtain sg ip fp ep where n: "lex_number s = Some ((sg, ip, fp, ep), [])"
    by (auto simp: is_json_number_def split: option.splits)
  have dig: "list_all (\<lambda>c. byte c < 128) (takeWhile is_digit t)" for t
    by (auto simp: list_all_iff is_digit_def dest: set_takeWhileD)
  have "list_all (\<lambda>c. byte c < 128) ep" if "lex_exp u = Some (ep, r)" for u r
    using that dig is_digit_ascii by (auto simp: lex_exp_def lex_exp_digits_def split: list.splits if_splits)
  moreover have "list_all (\<lambda>c. byte c < 128) fp" if "lex_frac u = Some (fp, r)" for u r
    using that dig by (auto simp: lex_frac_def split: list.splits if_splits)
  moreover have "list_all (\<lambda>c. byte c < 128) ip" if "lex_int u = Some (ip, r)" for u r
    using that dig [of u] by (auto simp: lex_int_def split: list.splits if_splits)
  moreover have "list_all (\<lambda>c. byte c < 128) sg" if "lex_sign u = (sg, r)" for u r
    using that by (auto simp: lex_sign_def split: list.splits if_splits)
  ultimately have "list_all (\<lambda>c. byte c < 128) (parts_text (sg, ip, fp, ep))"
    using n by (auto simp: lex_number_def split: prod.splits option.splits)
  then show ?thesis using lex_number_text [OF n] by simp
qed

lemma number_valid: "is_json_number s \<Longrightarrow> valid_utf8 s"
  by (intro ascii_valid number_ascii)

lemma float_text_marked:
  assumes "f64_finite f"
  shows "CHR ''.'' \<in> set (pyFloatRepr f) \<or> CHR ''e'' \<in> set (pyFloatRepr f)"
proof (cases f)
  case (FNum x)
  obtain ds e where sh: "shortest \<bar>x\<bar> = (ds, e)" by (cases "shortest \<bar>x\<bar>")
  have fx: "is_f64 x" using assms FNum by (simp add: f64_finite_def)
  have ax: "is_f64 \<bar>x\<bar>" "0 < \<bar>x\<bar>" using fx is_f64_abs is_f64_nonzero by auto
  have "in_i64 e" using shortest_exp_range [OF ax sh] by simp
  then have "pyFloatRepr f = (if x < 0 then ''-'' else []) @ layout ds e"
    using pyFloatRepr_layout [OF ax(1) _ sh] ax(2) FNum by simp
  moreover have "CHR ''.'' \<in> set (layout ds e) \<or> CHR ''e'' \<in> set (layout ds e)"
    by (simp add: layout_def)
  ultimately show ?thesis by auto
next
  case (FZero s)
  then show ?thesis by (cases s) (simp_all add: pyFloatRepr_def)
qed (use assms in \<open>simp_all add: f64_finite_def\<close>)

lemma Itoa_plain: "c \<in> set (Itoa n) \<Longrightarrow> c \<noteq> CHR ''.'' \<and> c \<noteq> CHR ''e'' \<and> c \<noteq> CHR ''E''"
  using nat_digits_digits is_digit_neq by (auto simp: Itoa_def list_all_iff split: if_splits)

lemma big_int_text_Itoa: "big_int_text (Itoa n) = Some (Itoa n)"
proof -
  have d: "list_all is_digit (nat_digits k)" "digits_int (nat_digits k) = int k" for k
    using nat_digits_digits digits_int_val [OF nat_digits_digits] by simp_all
  have h: "hd (nat_digits k) \<noteq> CHR ''-'' \<and> hd (nat_digits k) \<noteq> CHR ''+''" for k
    using hd_nat_digits is_digit_neq by blast
  show ?thesis by (simp add: big_int_text_def Itoa_def Let_def d h)
qed

lemma pyJSONNumber_idem: "pyJSONNumber (pyJSONNumber s) = pyJSONNumber s"
proof (cases "CHR ''.'' \<in> set s \<or> CHR ''e'' \<in> set s \<or> CHR ''E'' \<in> set s")
  case True
  show ?thesis
  proof (cases "ParseFloat s")
    case None
    then show ?thesis using True by (simp add: pyJSONNumber_def)
  next
    case (Some f)
    then have "pyJSONNumber s = pyFloatRepr f" using True by (simp add: pyJSONNumber_def)
    moreover have "f64_finite f" using ParseFloat_finite Some by blast
    ultimately show ?thesis using float_text_marked ParseFloat_pyFloatRepr
      by (auto simp: pyJSONNumber_def [of "pyFloatRepr f"])
  qed
next
  case False
  show ?thesis
  proof (cases "big_int_text s")
    case None
    then show ?thesis using False by (simp add: pyJSONNumber_def)
  next
    case (Some t)
    then obtain n where "t = Itoa n" by (auto simp: big_int_text_def Let_def split: if_splits)
    then have "pyJSONNumber s = Itoa n" using Some False by (simp add: pyJSONNumber_def)
    then show ?thesis using Itoa_plain big_int_text_Itoa by (auto simp: pyJSONNumber_def [of "Itoa n"])
  qed
qed

text \<open>On a well-formed value, writing and reading only rewrites the numbers.\<close>

fun jcanon :: "json \<Rightarrow> json" where
  "jcanon (JNumber n) = JNumber (pyJSONNumber n)"
| "jcanon (JArray vs) = JArray (map jcanon vs)"
| "jcanon (JObject ms) = JObject (map (\<lambda>m. (fst m, jcanon (snd m))) ms)"
| "jcanon v = v"

lemma obj_set_append: "k \<notin> fst ` set ob \<Longrightarrow> obj_set ob k v = ob @ [(k, v)]"
  unfolding obj_set_def by (induction ob) auto

lemma jnorm_canon:
  "json_wf v \<Longrightarrow> jnorm v = jcanon v"
  "list_all json_wf vs \<Longrightarrow> jnorm_items vs = map jcanon vs"
  "list_all (\<lambda>m. valid_utf8 (fst m) \<and> json_wf (snd m)) ms \<Longrightarrow> distinct (map fst (ob @ ms)) \<Longrightarrow>
     jnorm_members ob ms = ob @ map (\<lambda>m. (fst m, jcanon (snd m))) ms"
proof (induction v and vs and ob ms rule: jnorm_jnorm_items_jnorm_members.induct)
  case (10 ob m ms)
  then show ?case by (auto simp: obj_set_append image_iff)
qed auto

lemma json_wf_canon: "json_wf v \<Longrightarrow> json_wf (jcanon v)"
  by (induction v rule: jcanon.induct) (auto simp: list_all_iff pyJSONNumber_number comp_def)

lemma jcanon_idem: "jcanon (jcanon v) = jcanon v"
  by (induction v rule: jcanon.induct) (auto simp: pyJSONNumber_idem)

section \<open>The fuel is never used up\<close>

lemma fuel_step:
  assumes "decodeJSONValue n u = decodeJSONValue m u" "\<And>w r. length r < length u \<Longrightarrow> F w r = G w r"
  shows "(case decodeJSONValue n u of None \<Rightarrow> None | Some (w, r) \<Rightarrow> F w r)
       = (case decodeJSONValue m u of None \<Rightarrow> None | Some (w, r) \<Rightarrow> G w r)"
  using assms decode_wf(1) [of m u] by (auto split: option.splits)

lemma skip_ws_shrink: "skip_ws s = c # t \<Longrightarrow> length t < length s"
  using skip_ws_length [of s] by simp

lemma fuel_value:
  assumes "\<And>first arr u. 2 * length u + 1 < n \<Longrightarrow> 2 * length u + 1 < m \<Longrightarrow>
      decode_items n first arr u = decode_items m first arr u"
    "\<And>first ob u. 2 * length u + 1 < n \<Longrightarrow> 2 * length u + 1 < m \<Longrightarrow>
      decode_members n first ob u = decode_members m first ob u"
    "2 * length s < Suc n" "2 * length s < Suc m"
  shows "decodeJSONValue (Suc n) s = decodeJSONValue (Suc m) s"
proof (cases "skip_ws s")
  case (Cons c t)
  have "2 * length t + 1 < n" "2 * length t + 1 < m" using skip_ws_shrink [OF Cons] assms(3,4) by auto
  then show ?thesis using assms(1,2) Cons by simp
qed simp

lemma fuel_items:
  assumes "\<And>u. 2 * length u < n \<Longrightarrow> 2 * length u < m \<Longrightarrow> decodeJSONValue n u = decodeJSONValue m u"
    "\<And>first arr u. 2 * length u + 1 < n \<Longrightarrow> 2 * length u + 1 < m \<Longrightarrow>
      decode_items n first arr u = decode_items m first arr u"
    "2 * length s + 1 < Suc n" "2 * length s + 1 < Suc m"
  shows "decode_items (Suc n) first arr s = decode_items (Suc m) first arr s"
proof (cases "skip_ws s")
  case (Cons c t)
  have "(case decodeJSONValue n u of None \<Rightarrow> None | Some (w, r) \<Rightarrow> decode_items n False (arr @ [w]) r)
      = (case decodeJSONValue m u of None \<Rightarrow> None | Some (w, r) \<Rightarrow> decode_items m False (arr @ [w]) r)"
    if "length u \<le> length s" for u
    using assms that by (intro fuel_step) auto
  from this [of "c # t"] this [of t] show ?thesis using skip_ws_shrink [OF Cons] Cons by simp
qed simp

lemma fuel_members:
  assumes "\<And>u. 2 * length u < n \<Longrightarrow> 2 * length u < m \<Longrightarrow> decodeJSONValue n u = decodeJSONValue m u"
    "\<And>first ob u. 2 * length u + 1 < n \<Longrightarrow> 2 * length u + 1 < m \<Longrightarrow>
      decode_members n first ob u = decode_members m first ob u"
    "2 * length s + 1 < Suc n" "2 * length s + 1 < Suc m"
  shows "decode_members (Suc n) first ob s = decode_members (Suc m) first ob s"
proof (cases "skip_ws s")
  case (Cons c t)
  have step: "(case decodeJSONValue n u of None \<Rightarrow> None | Some (w, r) \<Rightarrow> decode_members n False (obj_set ob k w) r)
      = (case decodeJSONValue m u of None \<Rightarrow> None | Some (w, r) \<Rightarrow> decode_members m False (obj_set ob k w) r)"
    if "length u \<le> length s" for u k
    using assms that by (intro fuel_step) auto
  have t: "length t \<le> length s" using skip_ws_shrink [OF Cons] by simp
  have body: "(case scan_string k of None \<Rightarrow> None | Some (key, r) \<Rightarrow>
        (case skip_ws r of [] \<Rightarrow> None | d # r' \<Rightarrow> if d \<noteq> CHR '':'' then None
           else (case decodeJSONValue n r' of None \<Rightarrow> None
                 | Some (w, r'') \<Rightarrow> decode_members n False (obj_set ob key w) r'')))
     = (case scan_string k of None \<Rightarrow> None | Some (key, r) \<Rightarrow>
        (case skip_ws r of [] \<Rightarrow> None | d # r' \<Rightarrow> if d \<noteq> CHR '':'' then None
           else (case decodeJSONValue m r' of None \<Rightarrow> None
                 | Some (w, r'') \<Rightarrow> decode_members m False (obj_set ob key w) r'')))"
    if k: "length k \<le> length s" for k
  proof (cases "scan_string k")
    case (Some p)
    obtain key r where p: "p = (key, r)" by (cases p)
    show ?thesis
    proof (cases "skip_ws r")
      case (Cons d r')
      have "length r' \<le> length s"
        using k scan_string_valid [of k key r] Some p skip_ws_shrink [OF Cons] by auto
      then show ?thesis using step [of r' key] Some p Cons by simp
    qed (simp add: Some p)
  qed simp
  have st: "length k \<le> length s" if "skip_ws t = q # k" for q k
    using skip_ws_shrink [OF that] t by simp
  show ?thesis
  proof (cases first)
    case True
    then show ?thesis using Cons body [OF t] by simp
  next
    case False
    then show ?thesis using Cons body st by (cases "skip_ws t") simp_all
  qed
qed simp

lemma decode_fuel_all:
  "(\<forall>m s. 2 * length s < n \<longrightarrow> 2 * length s < m \<longrightarrow> decodeJSONValue n s = decodeJSONValue m s)
   \<and> (\<forall>m first arr s. 2 * length s + 1 < n \<longrightarrow> 2 * length s + 1 < m \<longrightarrow>
        decode_items n first arr s = decode_items m first arr s)
   \<and> (\<forall>m first ob s. 2 * length s + 1 < n \<longrightarrow> 2 * length s + 1 < m \<longrightarrow>
        decode_members n first ob s = decode_members m first ob s)"
proof (induction n)
  case (Suc n)
  have pos: "m = Suc (m - 1)" if "2 * k < m" for m k :: nat using that by simp
  show ?case
  proof (intro conjI allI impI)
    fix m s assume l: "2 * length s < Suc n" "2 * length (s :: string) < m"
    show "decodeJSONValue (Suc n) s = decodeJSONValue m s"
      using fuel_value [of n "m - 1" s] Suc l pos [OF l(2)] by metis
  next
    fix m first arr s assume l: "2 * length s + 1 < Suc n" "2 * length (s :: string) + 1 < m"
    show "decode_items (Suc n) first arr s = decode_items m first arr s"
      using fuel_items [of n "m - 1" s first arr] Suc l pos [of "length s" m] by (metis add_lessD1)
  next
    fix m first ob s assume l: "2 * length s + 1 < Suc n" "2 * length (s :: string) + 1 < m"
    show "decode_members (Suc n) first ob s = decode_members m first ob s"
      using fuel_members [of n "m - 1" s first ob] Suc l pos [of "length s" m] by (metis add_lessD1)
  qed
qed simp

text \<open>Whatever fuel reads a value, the fuel of a document reads it too.\<close>

lemma decode_fuel: "2 * length s < n \<Longrightarrow> decodeJSONValue n s = decodeJSONValue (2 * length s + 2) s"
  using decode_fuel_all [of n, THEN conjunct1, rule_format, of s "2 * length s + 2"] by simp


section \<open>Python representations are valid strings\<close>

lemma valid_Nil [simp]: "valid_utf8 []"
  by (rule ascii_valid) simp

lemma valid_rune: "scalar r \<Longrightarrow> valid_utf8 (encode_rune r)"
  using valid_append_rune [of r "[]"] by simp

lemma valid_concat: "(\<And>s. s \<in> set ss \<Longrightarrow> valid_utf8 s) \<Longrightarrow> valid_utf8 (concat ss)"
  by (induction ss) (auto intro: valid_append)

lemma valid_Join: "(\<And>s. s \<in> set ss \<Longrightarrow> valid_utf8 s) \<Longrightarrow> valid_utf8 sep \<Longrightarrow> valid_utf8 (Join ss sep)"
  by (induction ss sep rule: Join.induct) (auto intro: valid_append)

lemma hex_digit_ascii: "k < 16 \<Longrightarrow> byte (hex_digit k) < 128"
  by (simp add: hex_digit_def)

lemma hex_pad_ascii: "list_all (\<lambda>c. byte c < 128) (hex_pad w n)"
proof (induction w n rule: hex_pad.induct)
  case (2 w n)
  then show ?case by (simp add: hex_digit_ascii)
qed simp

lemma pyReprRune_valid: "scalar r \<Longrightarrow> q < 128 \<Longrightarrow> valid_utf8 (pyReprRune pr q r)"
  using hex_pad_ascii by (auto simp: pyReprRune_def intro!: ascii_valid valid_rune)

lemma pyReprString_valid: "valid_utf8 (pyReprString pr s)"
proof -
  have q: "valid_utf8 [char_of (n::nat)]" if "n < 128" for n using that by (intro ascii_valid) simp
  have body: "valid_utf8 (concat (map (pyReprRune pr q) (runes s)))" if "q < 128" for q
    using that runes_scalar pyReprRune_valid by (intro valid_concat) auto
  have "valid_utf8 ([char_of q] @ concat (map (pyReprRune pr q) (runes s)) @ [char_of q])" if "q < 128" for q
    using q [OF that] body [OF that] by (intro valid_append)
  then show ?thesis by (simp add: pyReprString_def Let_def)
qed

lemma valid_Cons: "byte c < 128 \<Longrightarrow> valid_utf8 s \<Longrightarrow> valid_utf8 (c # s)"
  using valid_append [of "[c]" s] ascii_valid [of "[c]"] by simp

lemma valid_literals [simp]:
  "valid_utf8 ''None''" "valid_utf8 ''True''" "valid_utf8 ''False''" "valid_utf8 '', ''" "valid_utf8 '': ''"
  "valid_utf8 '']''" "valid_utf8 ''}''"
  by (simp_all add: ascii_valid)

lemma pyStr_valid:
  "json_wf v \<Longrightarrow> valid_utf8 (pyStr pr v)"
  "json_wf v \<Longrightarrow> valid_utf8 (pyRepr pr v)"
  "list_all json_wf vs \<Longrightarrow> list_all valid_utf8 (pyReprSeq pr vs)"
  "list_all (\<lambda>m. json_wf (snd m)) ms \<Longrightarrow> list_all valid_utf8 (pyReprObject pr ms)"
proof (induction pr v and pr v and pr vs and pr ms rule: pyStr_pyRepr_pyReprSeq_pyReprObject.induct)
  case (16 pr m ms)
  have "valid_utf8 (pyReprString pr (fst m) @ '': '' @ pyRepr pr (snd m))"
    using 16 pyReprString_valid by (intro valid_append) auto
  then show ?case using 16 by simp
qed (auto simp: pyReprString_valid list_all_iff number_valid pyJSONNumber_number
    intro!: valid_Cons valid_append valid_Join)

declare decodeJSONValue.simps [simp del] decode_items.simps [simp del] decode_members.simps [simp del]

end
