(* ===== verification/Textutil.thy ===== *)
theory Textutil
  imports Go_Strings
begin

text \<open>
  Python's notion of white space and its \<^verbatim>\<open>str.strip\<close>, as \<^verbatim>\<open>internal/textutil/pystr.go\<close> ports
  them: the table of ranges, its binary search, and the three trims, which walk the string by
  runes from the front and from the back. \<^verbatim>\<open>utf8.DecodeLastRuneInString\<close> is modelled with its
  bounded search for the first byte of the last rune.
\<close>

section \<open>White space\<close>

definition pySpaceRanges :: "(nat \<times> nat) list" where
  "pySpaceRanges = [(9, 13), (28, 32), (133, 133), (160, 160), (5760, 5760), (8192, 8202),
     (8232, 8233), (8239, 8239), (8287, 8287), (12288, 12288)]"

function space_search :: "nat \<Rightarrow> int \<Rightarrow> int \<Rightarrow> bool" where
  "space_search r lo hi =
     (if lo \<le> hi then
        (let mid = (lo + hi) div 2; rng = pySpaceRanges ! nat mid in
         if r < fst rng then space_search r lo (mid - 1)
         else if snd rng < r then space_search r (mid + 1) hi
         else True)
      else False)"
  by pat_completeness auto
termination
  by (relation "measure (\<lambda>(r, lo, hi). nat (hi - lo + 1))") auto

declare space_search.simps [simp del]

definition PyIsSpace :: "nat \<Rightarrow> bool" where
  "PyIsSpace r = space_search r 0 (int (length pySpaceRanges) - 1)"

lemma PyIsSpace_iff: "PyIsSpace r \<longleftrightarrow> (\<exists>(lo, hi) \<in> set pySpaceRanges. lo \<le> r \<and> r \<le> hi)"
  unfolding PyIsSpace_def pySpaceRanges_def
  by (auto simp: space_search.simps pySpaceRanges_def Let_def split: if_splits)

section \<open>Trimming\<close>

text \<open>
  \<^verbatim>\<open>utf8.DecodeLastRuneInString\<close>: one step back for an ASCII byte, otherwise at most four bytes
  back to a byte that can start a rune; a rune that does not end exactly at the end of the
  string is reported as an invalid byte.
\<close>

fun last_start :: "string \<Rightarrow> nat \<Rightarrow> nat \<Rightarrow> nat" where
  "last_start s lim 0 = 0"
| "last_start s lim (Suc start) =
     (if start < lim then start
      else if \<not> cont_byte (s ! start) then start
      else last_start s lim start)"

definition decode_last_rune :: "string \<Rightarrow> nat \<times> nat" where
  "decode_last_rune s =
     (if s = [] then (RuneError, 0)
      else if byte (last s) < 128 then (byte (last s), 1)
      else
        let start = last_start s (length s - 4) (length s - 1);
            (r, size) = decode_rune (drop start s)
        in if start + size \<noteq> length s then (RuneError, 1) else (r, size))"

lemma last_start_le: "last_start s lim n \<le> n"
  by (induction n) auto

lemma decode_last_rune_width: "s \<noteq> [] \<Longrightarrow> 0 < snd (decode_last_rune s)"
  using last_start_le [of s "length s - 4" "length s - 1"]
  by (auto simp: decode_last_rune_def Let_def decode_rune_width split: prod.splits)
    (metis Suc_pred add.right_neutral length_greater_0_conv lessI linorder_not_less neq0_conv)

function PyRStrip :: "string \<Rightarrow> string" where
  "PyRStrip s =
     (if s = [] then s
      else let (r, size) = decode_last_rune s in
        if \<not> PyIsSpace r then s else PyRStrip (take (length s - size) s))"
  by pat_completeness auto

termination
proof (relation "measure length")
  fix s :: string and x r size
  assume s: "s \<noteq> []" and d: "x = decode_last_rune s" "(r, size) = x"
  have "0 < size" using decode_last_rune_width [OF s] by (simp flip: d)
  with s show "(take (length s - size) s, s) \<in> measure length" by simp
qed simp

declare PyRStrip.simps [simp del]

function PyLStrip :: "string \<Rightarrow> string" where
  "PyLStrip s =
     (if s = [] then s
      else let (r, size) = decode_rune s in
        if \<not> PyIsSpace r then s else PyLStrip (drop size s))"
  by pat_completeness auto
termination
proof (relation "measure length")
  fix s :: string and x r size
  assume s: "s \<noteq> []" and d: "x = decode_rune s" "(r, size) = x"
  have "0 < size" using decode_rune_width [OF s] by (simp flip: d)
  with s show "(drop size s, s) \<in> measure length" by simp
qed simp

declare PyLStrip.simps [simp del]

definition PyStrip :: "string \<Rightarrow> string" where
  "PyStrip s = PyRStrip (PyLStrip s)"

lemma PyRStrip_prefix: "\<exists>n. PyRStrip s = take n s"
proof (induction s rule: PyRStrip.induct)
  case (1 s)
  obtain r size where d: "decode_last_rune s = (r, size)" by fastforce
  show ?case
  proof (cases "s = [] \<or> \<not> PyIsSpace r")
    case True
    then have "PyRStrip s = take (length s) s" by (subst PyRStrip.simps) (auto simp: d)
    then show ?thesis by blast
  next
    case False
    then obtain n where "PyRStrip (take (length s - size) s) = take n (take (length s - size) s)"
      using 1 [OF _ d [symmetric] refl] by auto
    moreover have "PyRStrip s = PyRStrip (take (length s - size) s)"
      using False by (subst PyRStrip.simps) (auto simp: d)
    ultimately show ?thesis by (metis take_take)
  qed
qed

lemma PyLStrip_suffix: "\<exists>n. PyLStrip s = drop n s"
proof (induction s rule: PyLStrip.induct)
  case (1 s)
  obtain r size where d: "decode_rune s = (r, size)" by fastforce
  show ?case
  proof (cases "s = [] \<or> \<not> PyIsSpace r")
    case True
    then have "PyLStrip s = drop 0 s" by (subst PyLStrip.simps) (auto simp: d)
    then show ?thesis by blast
  next
    case False
    then obtain n where "PyLStrip (drop size s) = drop n (drop size s)"
      using 1 [OF _ d [symmetric] refl] by auto
    moreover have "PyLStrip s = PyLStrip (drop size s)"
      using False by (subst PyLStrip.simps) (auto simp: d)
    ultimately show ?thesis by (metis drop_drop)
  qed
qed

text \<open>Trimming keeps one contiguous part of the string.\<close>

lemma PyStrip_sublist: "sublist (PyStrip s) s"
proof -
  obtain m n where "PyStrip s = take n (drop m s)"
    unfolding PyStrip_def using PyLStrip_suffix [of s] PyRStrip_prefix by metis
  then show ?thesis by (metis sublist_drop sublist_order.order_trans sublist_take)
qed

end
