(* ===== verification/Pairing.thy ===== *)
theory Pairing
  imports Json_Codec Textutil
begin

text \<open>
  The sender-approval store of \<^verbatim>\<open>internal/pairing\<close>: one JSON file that holds, per channel, the
  approved senders, and the pending pairing codes with their expiry. Every operation reads the
  file, works on the loaded view and, when it changes something, writes the file back in one
  atomic replacement. The state of the model is that file (and the temporary file the write
  goes through); the outcome of each system call, the clock and the random bytes are arguments
  of the operations, so that every error path of the code is a branch of the model. The mutex
  of the store makes the operations atomic, so a run is a sequence of them.
\<close>

section \<open>Errors and I/O\<close>

record StoreIOError =
  sio_Op :: string
  sio_Path :: string

text \<open>
  What the system calls of one operation answer: \<open>True\<close> in a field means that the call fails with
  an error other than "does not exist".
\<close>

record io =
  io_read :: bool
  io_mkdir :: bool
  io_create :: bool
  io_write :: bool
  io_sync :: bool
  io_close :: bool
  io_rename :: bool

definition io_ok :: io where
  "io_ok = \<lparr>io_read = False, io_mkdir = False, io_create = False, io_write = False,
            io_sync = False, io_close = False, io_rename = False\<rparr>"

text \<open>The paths of the store, the file behind it and the temporary file of a write.\<close>

record PairingStore =
  st_path :: string
  st_dir :: string
  st_tmpName :: string
  st_file :: "string option"
  st_tmp :: "string option"

section \<open>In-memory view\<close>

text \<open>The ordered maps of \<^verbatim>\<open>storeData\<close>: the order slice and the map together, as one list.\<close>

record storeData =
  approved :: "(string \<times> string list) list"
  pending :: "(string \<times> json) list"

definition newStoreData :: storeData where
  "newStoreData = \<lparr>approved = [], pending = []\<rparr>"

definition setApproved :: "string \<Rightarrow> string \<Rightarrow> storeData \<Rightarrow> storeData" where
  "setApproved channel sender d =
     (case map_of (approved d) channel of
        None \<Rightarrow> d\<lparr>approved := approved d @ [(channel, [sender])]\<rparr>
      | Some users \<Rightarrow> d\<lparr>approved := AList.update channel (List.insert sender users) (approved d)\<rparr>)"

definition delApproved :: "string \<Rightarrow> storeData \<Rightarrow> storeData" where
  "delApproved channel d = d\<lparr>approved := AList.delete channel (approved d)\<rparr>"

definition setPending :: "string \<Rightarrow> jobject \<Rightarrow> storeData \<Rightarrow> storeData" where
  "setPending code entry d = d\<lparr>pending := AList.update code (JObject entry) (pending d)\<rparr>"

definition delPending :: "string \<Rightarrow> storeData \<Rightarrow> storeData" where
  "delPending code d = d\<lparr>pending := AList.delete code (pending d)\<rparr>"

section \<open>Load and save\<close>

fun load_users :: "(nat \<Rightarrow> bool) \<Rightarrow> json \<Rightarrow> string list" where
  "load_users pr (JArray users) = remdups (map (pyStr pr) users)"
| "load_users pr _ = []"

definition load_data :: "(nat \<Rightarrow> bool) \<Rightarrow> jobject \<Rightarrow> storeData" where
  "load_data pr rt =
     \<lparr>approved = (case obj_get rt ''approved'' of
                   JObject ob \<Rightarrow> map (\<lambda>(channel, users). (channel, load_users pr users)) ob
                 | _ \<Rightarrow> []),
      pending = (case obj_get rt ''pending'' of JObject ob \<Rightarrow> ob | _ \<Rightarrow> [])\<rparr>"

definition load :: "(nat \<Rightarrow> bool) \<Rightarrow> io \<Rightarrow> PairingStore \<Rightarrow> StoreIOError + storeData" where
  "load pr io s =
     (if io_read io then Inl \<lparr>sio_Op = ''read'', sio_Path = st_path s\<rparr>
      else case st_file s of
        None \<Rightarrow> Inr newStoreData
      | Some raw \<Rightarrow>
          (case decodeJSONDocument raw of
             Some (JObject rt) \<Rightarrow> Inr (load_data pr rt)
           | _ \<Rightarrow> Inr newStoreData))"

text \<open>
  \<^verbatim>\<open>writeFileAtomic\<close>: the content reaches the target only through the rename of a complete
  temporary file, which is removed when a step fails.
\<close>

definition writeFileAtomic :: "io \<Rightarrow> string \<Rightarrow> PairingStore \<Rightarrow> StoreIOError option \<times> PairingStore" where
  "writeFileAtomic io content s =
     (if io_create io then (Some \<lparr>sio_Op = ''write'', sio_Path = st_path s\<rparr>, s)
      else
        let s = s\<lparr>st_tmp := Some []\<rparr> in
        if io_write io then (Some \<lparr>sio_Op = ''write'', sio_Path = st_tmpName s\<rparr>, s\<lparr>st_tmp := None\<rparr>)
        else
          let s = s\<lparr>st_tmp := Some content\<rparr> in
          if io_sync io \<or> io_close io
          then (Some \<lparr>sio_Op = ''write'', sio_Path = st_tmpName s\<rparr>, s\<lparr>st_tmp := None\<rparr>)
          else if io_rename io
          then (Some \<lparr>sio_Op = ''rename'', sio_Path = st_path s\<rparr>, s\<lparr>st_tmp := None\<rparr>)
          else (None, s\<lparr>st_file := st_tmp s, st_tmp := None\<rparr>))"

definition save_root :: "storeData \<Rightarrow> jobject" where
  "save_root d =
     obj_set
       (obj_set [] ''approved''
         (JObject (foldl (\<lambda>ob (channel, users). obj_set ob channel (JArray (map JString (sort_Strings users))))
                    [] (approved d))))
       ''pending''
       (JObject (foldl (\<lambda>ob (code, entry). obj_set ob code entry) [] (pending d)))"

definition save :: "io \<Rightarrow> storeData \<Rightarrow> PairingStore \<Rightarrow> StoreIOError option \<times> PairingStore" where
  "save io d s =
     (if st_dir s \<noteq> [] \<and> io_mkdir io then (Some \<lparr>sio_Op = ''mkdir'', sio_Path = st_dir s\<rparr>, s)
      else writeFileAtomic io (encodeJSONDocument (JObject (save_root d))) s)"

definition numericValue :: "json \<Rightarrow> float64 option" where
  "numericValue v = (case v of JNumber n \<Rightarrow> ParseFloat n | _ \<Rightarrow> None)"

text \<open>A pending entry survives when it is an object with a channel, a sender and an expiry not in the past.\<close>

definition live :: "float64 \<Rightarrow> json \<Rightarrow> bool" where
  "live now entry =
     (case entry of
        JObject info \<Rightarrow>
          (case (obj_get info ''channel'', numericValue (obj_get info ''expires_at'')) of
             (JString channel, Some expiresAt) \<Rightarrow>
               channel \<noteq> [] \<and> obj_get info ''sender_id'' \<noteq> JNull \<and> \<not> f64_less expiresAt now
           | _ \<Rightarrow> False)
      | _ \<Rightarrow> False)"

definition gcPending :: "float64 \<Rightarrow> storeData \<Rightarrow> storeData" where
  "gcPending now d =
     foldl (\<lambda>d code. delPending code d) d
       (map fst (filter (\<lambda>(code, entry). \<not> live now entry) (pending d)))"

section \<open>Operations\<close>

record Approval =
  ap_Channel :: string
  ap_SenderID :: string

record ClearResult =
  cr_Approved :: nat
  cr_Pending :: nat

definition CodeAlphabet :: string where
  "CodeAlphabet = ''ABCDEFGHIJKLMNOPQRSTUVWXYZ0123456789''"

definition CodeLength :: nat where
  "CodeLength = 8"

text \<open>
  \<^verbatim>\<open>randomCode\<close> on the sequence of results of \<^verbatim>\<open>rand.Read\<close>, each a byte or (\<open>None\<close>) an error. The
  loop runs until enough bytes are accepted; \<open>None\<close> as a result says that the bytes given
  were not enough.
\<close>

fun randomCode_loop :: "string \<Rightarrow> nat option list \<Rightarrow> (StoreIOError + string) option" where
  "randomCode_loop buf bs =
     (if CodeLength \<le> length buf then Some (Inr (take 4 buf @ ''-'' @ drop 4 buf))
      else case bs of
        [] \<Rightarrow> None
      | None # _ \<Rightarrow> Some (Inl \<lparr>sio_Op = ''random'', sio_Path = []\<rparr>)
      | Some b # bs' \<Rightarrow>
          if 256 - (256 mod length CodeAlphabet) \<le> b then randomCode_loop buf bs'
          else randomCode_loop (buf @ [CodeAlphabet ! (b mod length CodeAlphabet)]) bs')"

declare randomCode_loop.simps [simp del]

definition randomCode :: "nat option list \<Rightarrow> (StoreIOError + string) option" where
  "randomCode bs = randomCode_loop [] bs"

text \<open>The stored channel as a string, empty when it is not one.\<close>

fun json_string :: "json \<Rightarrow> string" where
  "json_string (JString s) = s"
| "json_string _ = []"

fun find_code :: "(nat \<Rightarrow> bool) \<Rightarrow> string \<Rightarrow> string \<Rightarrow> (string \<times> json) list \<Rightarrow> string option" where
  "find_code pr channel sender [] = None"
| "find_code pr channel sender ((code, entry) # ps) =
     (case entry of
        JObject info \<Rightarrow>
          if json_string (obj_get info ''channel'') = channel \<and> pyStr pr (obj_get info ''sender_id'') = sender
          then Some code else find_code pr channel sender ps
      | _ \<Rightarrow> find_code pr channel sender ps)"

definition new_entry :: "string \<Rightarrow> string \<Rightarrow> float64 \<Rightarrow> int \<Rightarrow> jobject" where
  "new_entry channel sender now ttlSeconds =
     obj_set (obj_set (obj_set (obj_set []
       ''channel'' (JString channel))
       ''sender_id'' (JString sender))
       ''created_at'' (JNumber (pyFloatRepr now)))
       ''expires_at'' (JNumber (pyFloatRepr (f64_add now (f64_of_int ttlSeconds))))"

definition GenerateCode :: "(nat \<Rightarrow> bool) \<Rightarrow> io \<Rightarrow> float64 \<Rightarrow> nat option list \<Rightarrow> string \<Rightarrow> string \<Rightarrow> int \<Rightarrow> PairingStore
    \<Rightarrow> (StoreIOError + string) option \<times> PairingStore" where
  "GenerateCode pr io now bs channel senderID ttlSeconds s =
     (case load pr io s of
        Inl e \<Rightarrow> (Some (Inl e), s)
      | Inr data \<Rightarrow>
          let data = gcPending now data in
          (case find_code pr channel senderID (pending data) of
             Some code \<Rightarrow> (Some (Inr code), s)
           | None \<Rightarrow>
               (case randomCode bs of
                  None \<Rightarrow> (None, s)
                | Some (Inl e) \<Rightarrow> (Some (Inl e), s)
                | Some (Inr code) \<Rightarrow>
                    (case save io (setPending code (new_entry channel senderID now ttlSeconds) data) s of
                       (Some e, s) \<Rightarrow> (Some (Inl e), s)
                     | (None, s) \<Rightarrow> (Some (Inr code), s)))))"

definition ApproveCode :: "(nat \<Rightarrow> bool) \<Rightarrow> io \<Rightarrow> float64 \<Rightarrow> string \<Rightarrow> PairingStore
    \<Rightarrow> (StoreIOError + Approval option) \<times> PairingStore" where
  "ApproveCode pr io now code s =
     (case load pr io s of
        Inl e \<Rightarrow> (Inl e, s)
      | Inr data \<Rightarrow>
          let data = gcPending now data in
          (case map_of (pending data) code of
             Some (JObject info) \<Rightarrow>
               let data = delPending code data;
                   channel = json_string (obj_get info ''channel'');
                   senderID = pyStr pr (obj_get info ''sender_id'');
                   data = setApproved channel senderID data
               in (case save io data s of
                     (Some e, s) \<Rightarrow> (Inl e, s)
                   | (None, s) \<Rightarrow> (Inr (Some \<lparr>ap_Channel = channel, ap_SenderID = senderID\<rparr>), s))
           | _ \<Rightarrow> (Inr None, s)))"

definition DenyCode :: "(nat \<Rightarrow> bool) \<Rightarrow> io \<Rightarrow> float64 \<Rightarrow> string \<Rightarrow> PairingStore \<Rightarrow> (StoreIOError + bool) \<times> PairingStore" where
  "DenyCode pr io now code s =
     (case load pr io s of
        Inl e \<Rightarrow> (Inl e, s)
      | Inr data \<Rightarrow>
          let data = gcPending now data in
          (case map_of (pending data) code of
             None \<Rightarrow> (Inr False, s)
           | Some _ \<Rightarrow>
               (case save io (delPending code data) s of
                  (Some e, s) \<Rightarrow> (Inl e, s)
                | (None, s) \<Rightarrow> (Inr True, s))))"

definition IsApproved :: "(nat \<Rightarrow> bool) \<Rightarrow> io \<Rightarrow> string \<Rightarrow> string \<Rightarrow> PairingStore \<Rightarrow> bool" where
  "IsApproved pr io channel senderID s =
     (case load pr io s of
        Inl e \<Rightarrow> False
      | Inr data \<Rightarrow> (case map_of (approved data) channel of Some users \<Rightarrow> senderID \<in> set users | None \<Rightarrow> False))"

record PendingRequest =
  pr_Code :: string
  pr_Channel :: json
  pr_SenderID :: json
  pr_CreatedAt :: json
  pr_ExpiresAt :: json
  pr_Extra :: "(string \<times> json) list"
  pr_present :: "string list"

definition std_keys :: "string list" where
  "std_keys = [''channel'', ''sender_id'', ''created_at'', ''expires_at'']"

definition pending_request :: "string \<Rightarrow> jobject \<Rightarrow> PendingRequest" where
  "pending_request code info =
     \<lparr>pr_Code = code, pr_Channel = obj_get info ''channel'', pr_SenderID = obj_get info ''sender_id'',
      pr_CreatedAt = obj_get info ''created_at'', pr_ExpiresAt = obj_get info ''expires_at'',
      pr_Extra = filter (\<lambda>m. fst m \<notin> set std_keys) info,
      pr_present = filter (\<lambda>k. k \<in> set std_keys) (map fst info)\<rparr>"

fun list_requests :: "(string \<times> json) list \<Rightarrow> PendingRequest list" where
  "list_requests [] = []"
| "list_requests ((code, JObject info) # ps) = pending_request code info # list_requests ps"
| "list_requests (_ # ps) = list_requests ps"

definition ListPending :: "(nat \<Rightarrow> bool) \<Rightarrow> io \<Rightarrow> float64 \<Rightarrow> PairingStore \<Rightarrow> PendingRequest list" where
  "ListPending pr io now s =
     (case load pr io s of
        Inl e \<Rightarrow> []
      | Inr data \<Rightarrow> list_requests (pending (gcPending now data)))"

definition PendingRequest_Map :: "PendingRequest \<Rightarrow> string \<Rightarrow> json option" where
  "PendingRequest_Map p =
     (let out = [''code'' \<mapsto> JString (pr_Code p)];
          out = (if ''channel'' \<in> set (pr_present p) then out(''channel'' \<mapsto> pr_Channel p) else out);
          out = (if ''sender_id'' \<in> set (pr_present p) then out(''sender_id'' \<mapsto> pr_SenderID p) else out);
          out = (if ''created_at'' \<in> set (pr_present p) then out(''created_at'' \<mapsto> pr_CreatedAt p) else out);
          out = (if ''expires_at'' \<in> set (pr_present p) then out(''expires_at'' \<mapsto> pr_ExpiresAt p) else out)
      in out ++ map_of (pr_Extra p))"

definition Revoke :: "(nat \<Rightarrow> bool) \<Rightarrow> io \<Rightarrow> string \<Rightarrow> string \<Rightarrow> PairingStore \<Rightarrow> (StoreIOError + bool) \<times> PairingStore" where
  "Revoke pr io channel senderID s =
     (case load pr io s of
        Inl e \<Rightarrow> (Inl e, s)
      | Inr data \<Rightarrow>
          (case map_of (approved data) channel of
             None \<Rightarrow> (Inr False, s)
           | Some users \<Rightarrow>
               if senderID \<notin> set users then (Inr False, s)
               else
                 let users = removeAll senderID users;
                     data = data\<lparr>approved := AList.update channel users (approved data)\<rparr>;
                     data = (if users = [] then delApproved channel data else data)
                 in (case save io data s of
                       (Some e, s) \<Rightarrow> (Inl e, s)
                     | (None, s) \<Rightarrow> (Inr True, s))))"

definition RevokeChannel :: "(nat \<Rightarrow> bool) \<Rightarrow> io \<Rightarrow> string \<Rightarrow> PairingStore \<Rightarrow> (StoreIOError + nat) \<times> PairingStore" where
  "RevokeChannel pr io channel s =
     (case load pr io s of
        Inl e \<Rightarrow> (Inl e, s)
      | Inr data \<Rightarrow>
          (case map_of (approved data) channel of
             None \<Rightarrow> (Inr 0, s)
           | Some users \<Rightarrow>
               if users = [] then (Inr 0, s)
               else (case save io (delApproved channel data) s of
                       (Some e, s) \<Rightarrow> (Inl e, s)
                     | (None, s) \<Rightarrow> (Inr (length users), s))))"

definition codes_of_channel :: "(nat \<Rightarrow> bool) \<Rightarrow> string \<Rightarrow> (string \<times> json) list \<Rightarrow> string list" where
  "codes_of_channel pr channel ps =
     map fst (filter (\<lambda>(code, entry). case entry of
                 JObject info \<Rightarrow> pyStr pr (obj_get info ''channel'') = channel
               | _ \<Rightarrow> False) ps)"

definition ClearChannel :: "(nat \<Rightarrow> bool) \<Rightarrow> io \<Rightarrow> float64 \<Rightarrow> string \<Rightarrow> PairingStore
    \<Rightarrow> (StoreIOError + ClearResult) \<times> PairingStore" where
  "ClearChannel pr io now channel s =
     (case load pr io s of
        Inl e \<Rightarrow> (Inl e, s)
      | Inr data \<Rightarrow>
          let data = gcPending now data;
              approvedUsers = (case map_of (approved data) channel of Some users \<Rightarrow> users | None \<Rightarrow> []);
              data = delApproved channel data;
              pendingCodes = codes_of_channel pr channel (pending data);
              data = foldl (\<lambda>d code. delPending code d) data pendingCodes
          in if approvedUsers = [] \<and> pendingCodes = []
             then (Inr \<lparr>cr_Approved = 0, cr_Pending = 0\<rparr>, s)
             else (case save io data s of
                     (Some e, s) \<Rightarrow> (Inl e, s)
                   | (None, s) \<Rightarrow>
                       (Inr \<lparr>cr_Approved = length approvedUsers, cr_Pending = length pendingCodes\<rparr>, s)))"

definition GetApproved :: "(nat \<Rightarrow> bool) \<Rightarrow> io \<Rightarrow> string \<Rightarrow> PairingStore \<Rightarrow> string list" where
  "GetApproved pr io channel s =
     (case load pr io s of
        Inl e \<Rightarrow> []
      | Inr data \<Rightarrow>
          sort_Strings (case map_of (approved data) channel of Some users \<Rightarrow> users | None \<Rightarrow> []))"

section \<open>Commands\<close>

definition FormatPairingReply :: "string \<Rightarrow> string" where
  "FormatPairingReply code =
     ''Hi! This is your private nanobot.'' @ [CHR 0x0A, CHR 0x0A]
     @ ''Your pairing code is: `'' @ code @ ''`'' @ [CHR 0x0A, CHR 0x0A]
     @ ''Open the nanobot WebUI and enter this code to pair your chat account.'' @ [CHR 0x0A]
     @ ''Without the WebUI, approve it from an already paired chat with ''
     @ ''`/pairing approve '' @ code @ ''`.''"

definition FormatExpiry :: "float64 \<Rightarrow> float64 \<Rightarrow> string" where
  "FormatExpiry now expiresAt =
     (let remaining = f64_to_int64 (f64_sub expiresAt now)
      in if 0 < remaining then Itoa remaining @ ''s'' else ''expired'')"

text \<open>\<^verbatim>\<open>pySplit\<close>: the maximal runs of runes that are not white space.\<close>

function pySplit_loop :: "string \<Rightarrow> string \<Rightarrow> string list" where
  "pySplit_loop cur s =
     (if s = [] then (if cur = [] then [] else [cur])
      else
        let w = snd (decode_rune s) in
        if PyIsSpace (fst (decode_rune s))
        then (if cur = [] then pySplit_loop [] (drop w s) else cur # pySplit_loop [] (drop w s))
        else pySplit_loop (cur @ take w s) (drop w s))"
  by pat_completeness auto
termination
  by (relation "measure (\<lambda>(cur, s). length s)") (auto simp: decode_rune_width)

declare pySplit_loop.simps [simp del]

definition pySplit :: "string \<Rightarrow> string list" where
  "pySplit s = pySplit_loop [] s"

definition em_dash :: string where
  "em_dash = [CHR 0xE2, CHR 0x80, CHR 0x94]"

definition request_line :: "(nat \<Rightarrow> bool) \<Rightarrow> float64 \<Rightarrow> PendingRequest \<Rightarrow> string" where
  "request_line pr now item =
     ''- `'' @ pr_Code item @ ''` | '' @ pyStr pr (pr_Channel item) @ '' | ''
       @ pyStr pr (pr_SenderID item) @ '' | ''
       @ FormatExpiry now (case numericValue (pr_ExpiresAt item) of Some f \<Rightarrow> f | None \<Rightarrow> FZero False)"

definition revoke_reply :: "string \<Rightarrow> string \<Rightarrow> bool \<Rightarrow> string" where
  "revoke_reply user channel revoked =
     (if revoked then ''Revoked '' @ user @ '' from '' @ channel
      else user @ '' was not in the approved list for '' @ channel)"

definition revoke_command :: "(nat \<Rightarrow> bool) \<Rightarrow> io \<Rightarrow> string \<Rightarrow> string \<Rightarrow> PairingStore \<Rightarrow> (StoreIOError + string) \<times> PairingStore" where
  "revoke_command pr io channel user s =
     (case Revoke pr io channel user s of
        (Inl e, s) \<Rightarrow> (Inl e, s)
      | (Inr revoked, s) \<Rightarrow> (Inr (revoke_reply user channel revoked), s))"

definition handlePairingSubcommand :: "(nat \<Rightarrow> bool) \<Rightarrow> io \<Rightarrow> float64 \<Rightarrow> string \<Rightarrow> string \<Rightarrow> PairingStore
    \<Rightarrow> (StoreIOError + string) \<times> PairingStore" where
  "handlePairingSubcommand pr io now channel text s =
     (let parts = pySplit text;
          sub = (case parts of p # _ \<Rightarrow> p | [] \<Rightarrow> ''list'');
          hasArg = 1 < length parts;
          arg = (if hasArg then parts ! 1 else [])
      in
      if sub = ''list'' then
        (case ListPending pr io now s of
           [] \<Rightarrow> (Inr ''No pending pairing requests.'', s)
         | items \<Rightarrow> (Inr (Join (''Pending pairing requests:'' # map (request_line pr now) items) [CHR 0x0A]), s))
      else if sub = ''approve'' then
        (if \<not> hasArg then (Inr ''Usage: `/pairing approve <code>`'', s)
         else case ApproveCode pr io now arg s of
           (Inl e, s) \<Rightarrow> (Inl e, s)
         | (Inr None, s) \<Rightarrow> (Inr (''Invalid or expired pairing code: `'' @ arg @ ''`''), s)
         | (Inr (Some a), s) \<Rightarrow>
             (Inr (''Approved pairing code `'' @ arg @ ''` '' @ em_dash @ '' '' @ ap_SenderID a
                     @ '' can now access '' @ ap_Channel a), s))
      else if sub = ''deny'' then
        (if \<not> hasArg then (Inr ''Usage: `/pairing deny <code>`'', s)
         else case DenyCode pr io now arg s of
           (Inl e, s) \<Rightarrow> (Inl e, s)
         | (Inr denied, s) \<Rightarrow>
             (Inr (if denied then ''Denied pairing code `'' @ arg @ ''`''
                   else ''Pairing code `'' @ arg @ ''` not found or already expired''), s))
      else if sub = ''revoke'' then
        (if length parts = 2 then revoke_command pr io channel (parts ! 1) s
         else if length parts = 3 then revoke_command pr io (parts ! 1) (parts ! 2) s
         else (Inr ''Usage: `/pairing revoke <user_id>` or `/pairing revoke <channel> <user_id>`'', s))
      else
        (Inr (''Unknown pairing command.'' @ [CHR 0x0A] @
           ''Usage: `/pairing [list|approve <code>|deny <code>|revoke <user_id>|revoke <channel> <user_id>]`''), s))"

definition HandlePairingCommand :: "(nat \<Rightarrow> bool) \<Rightarrow> io \<Rightarrow> float64 \<Rightarrow> string \<Rightarrow> string \<Rightarrow> PairingStore \<Rightarrow> string \<times> PairingStore" where
  "HandlePairingCommand pr io now channel text s =
     (case handlePairingSubcommand pr io now channel text s of
        (Inl e, s) \<Rightarrow> (''The pairing store is temporarily unavailable. Please try again.'', s)
      | (Inr out, s) \<Rightarrow> (out, s))"

end
