(* ===== verification/Pairing_Proofs.thy ===== *)
theory Pairing_Proofs
  imports Pairing
begin

text \<open>
  What the pairing store guarantees. A loaded view is always well formed, and a successful save
  is read back as the same view with sorted senders and canonical numbers. Every mutating
  operation is a read-modify-write cycle: the locale \<open>store_operation\<close> states that shape once,
  derives from it what an error and a success leave in the file, and is interpreted for each
  operation of the store.
\<close>

section \<open>Well-formed views\<close>

definition wf_data :: "storeData \<Rightarrow> bool" where
  "wf_data d \<longleftrightarrow>
     distinct (map fst (approved d))
     \<and> list_all (\<lambda>(channel, users). valid_utf8 channel \<and> distinct users \<and> list_all valid_utf8 users) (approved d)
     \<and> json_wf (JObject (pending d))"

definition approved_in :: "storeData \<Rightarrow> string \<Rightarrow> string \<Rightarrow> bool" where
  "approved_in d channel sender =
     (case map_of (approved d) channel of Some users \<Rightarrow> sender \<in> set users | None \<Rightarrow> False)"

text \<open>The view of a file that can be read.\<close>

definition file_data :: "(nat \<Rightarrow> bool) \<Rightarrow> PairingStore \<Rightarrow> storeData" where
  "file_data pr s = projr (load pr io_ok s)"

definition norm_data :: "storeData \<Rightarrow> storeData" where
  "norm_data d = \<lparr>approved = map (\<lambda>(c, us). (c, sort_Strings us)) (approved d),
                  pending = map (\<lambda>m. (fst m, jcanon (snd m))) (pending d)\<rparr>"

lemma load_eq: "load pr io s = (if io_read io then Inl \<lparr>sio_Op = ''read'', sio_Path = st_path s\<rparr> else Inr (file_data pr s))"
  by (auto simp: load_def file_data_def io_ok_def split: option.splits json.splits)

lemma wf_new [simp]: "wf_data newStoreData"
  by (simp add: wf_data_def newStoreData_def)

lemma load_users_wf: "json_wf v \<Longrightarrow> distinct (load_users pr v) \<and> list_all valid_utf8 (load_users pr v)"
  by (cases v) (auto simp: list_all_iff pyStr_valid)

lemma obj_get_wf: "json_wf (JObject ob) \<Longrightarrow> json_wf (obj_get ob k)"
  by (auto simp: obj_get_def list_all_iff split: option.splits dest!: map_of_SomeD)

lemma load_users_part:
  assumes "json_wf (JObject ob)"
  shows "distinct (map fst (map (\<lambda>(c, us). (c, load_users pr us)) ob))"
    "list_all (\<lambda>(c, us). valid_utf8 c \<and> distinct us \<and> list_all valid_utf8 us)
       (map (\<lambda>(c, us). (c, load_users pr us)) ob)"
  using assms load_users_wf by (fastforce simp: comp_def case_prod_beta list_all_iff)+

lemma load_data_wf: "json_wf (JObject rt) \<Longrightarrow> wf_data (load_data pr rt)"
proof -
  assume wf: "json_wf (JObject rt)"
  note a = obj_get_wf [OF wf, of "''approved''"] and p = obj_get_wf [OF wf, of "''pending''"]
  have "json_wf (JObject (case obj_get rt ''pending'' of JObject ob \<Rightarrow> ob | _ \<Rightarrow> []))"
    using p by (cases "obj_get rt ''pending''") auto
  moreover have "wf_data \<lparr>approved = case obj_get rt ''approved'' of
                   JObject ob \<Rightarrow> map (\<lambda>(channel, users). (channel, load_users pr users)) ob
                 | _ \<Rightarrow> [], pending = []\<rparr>"
    using a load_users_part by (cases "obj_get rt ''approved''") (simp_all add: wf_data_def del: map_map)
  ultimately show ?thesis by (simp add: wf_data_def load_data_def)
qed

lemma decodeJSONDocument_wf: "decodeJSONDocument raw = Some v \<Longrightarrow> json_wf v"
  by (auto simp: decodeJSONDocument_def split: option.splits if_splits dest: decode_wf(1))

lemma file_data_wf: "wf_data (file_data pr s)"
proof -
  have "wf_data (load_data pr rt)" if "decodeJSONDocument raw = Some (JObject rt)" for raw rt
    using load_data_wf decodeJSONDocument_wf [OF that] by blast
  then show ?thesis by (auto simp: file_data_def load_def io_ok_def split: option.splits json.splits)
qed

section \<open>Saving and loading\<close>

lemma foldl_obj_set:
  "distinct (map fst (ob @ map (\<lambda>(k, x). (k, f x)) xs)) \<Longrightarrow>
     foldl (\<lambda>ob (k, x). obj_set ob k (f x)) ob xs = ob @ map (\<lambda>(k, x). (k, f x)) xs"
proof (induction xs arbitrary: ob)
  case (Cons a xs)
  then show ?case by (cases a) (auto simp: obj_set_append)
qed simp

lemma save_root_eq:
  assumes "wf_data d"
  shows "save_root d =
    [(''approved'', JObject (map (\<lambda>(c, us). (c, JArray (map JString (sort_Strings us)))) (approved d))),
     (''pending'', JObject (pending d))]"
proof -
  have "foldl (\<lambda>ob (c, us). obj_set ob c (JArray (map JString (sort_Strings us)))) [] (approved d)
      = map (\<lambda>(c, us). (c, JArray (map JString (sort_Strings us)))) (approved d)"
    using foldl_obj_set [of "[]" "\<lambda>us. JArray (map JString (sort_Strings us))" "approved d"] assms
    by (simp add: wf_data_def comp_def case_prod_beta)
  moreover have "foldl (\<lambda>ob (c, e). obj_set ob c e) [] (pending d) = pending d"
    using foldl_obj_set [of "[]" "\<lambda>e. e" "pending d"] assms by (simp add: wf_data_def comp_def case_prod_beta)
  ultimately show ?thesis by (simp add: save_root_def obj_set_def)
qed

lemma save_root_wf: "wf_data d \<Longrightarrow> json_wf (JObject (save_root d))"
  by (auto simp: save_root_eq wf_data_def list_all_iff comp_def case_prod_beta intro!: ascii_valid)

lemma load_users_strings: "distinct us \<Longrightarrow> load_users pr (jcanon (JArray (map JString us))) = us"
  by (simp add: comp_def)

lemma load_data_save_root:
  assumes "wf_data d" "jcanon (JObject (save_root d)) = JObject rt"
  shows "load_data pr rt = norm_data d"
proof -
  have rt: "rt = [(''approved'', jcanon (JObject (map (\<lambda>(c, us). (c, JArray (map JString (sort_Strings us)))) (approved d)))),
     (''pending'', jcanon (JObject (pending d)))]"
    using assms by (simp add: save_root_eq)
  have "distinct us" if "(c, us) \<in> set (approved d)" for c us
    using assms(1) that by (auto simp: wf_data_def list_all_iff)
  then show ?thesis unfolding rt load_data_def norm_data_def
    by (auto simp: obj_get_def comp_def)
qed

lemma writeFileAtomic_cases:
  assumes "writeFileAtomic io content s = (r, s')"
  shows "st_path s' = st_path s \<and> st_dir s' = st_dir s
    \<and> (st_tmp s = None \<longrightarrow> st_tmp s' = None)
    \<and> (case r of Some e \<Rightarrow> st_file s' = st_file s | None \<Rightarrow> st_file s' = Some content)"
  using assms by (auto simp: writeFileAtomic_def Let_def split: if_splits)

lemma save_cases:
  assumes "save io d s = (r, s')"
  shows "(st_tmp s = None \<longrightarrow> st_tmp s' = None)
    \<and> (case r of Some e \<Rightarrow> st_file s' = st_file s
       | None \<Rightarrow> st_file s' = Some (encodeJSONDocument (JObject (save_root d))))"
  using assms writeFileAtomic_cases by (fastforce simp: save_def split: if_splits)

lemma file_data_save:
  assumes "save io d s = (None, s')" "wf_data d"
  shows "file_data pr s' = norm_data d"
proof -
  have content: "st_file s' = Some (encodeJSONDocument (JObject (save_root d)))"
    using save_cases [OF assms(1)] by simp
  have wf: "json_wf (JObject (save_root d))" by (rule save_root_wf [OF assms(2)])
  then have "decodeJSONDocument (encodeJSONDocument (JObject (save_root d))) = Some (jcanon (JObject (save_root d)))"
    using decode_encode_document [OF json_wf_ok] jnorm_canon(1) by metis
  moreover obtain rt where "jcanon (JObject (save_root d)) = JObject rt" by simp
  ultimately show ?thesis
    using content load_data_save_root [OF assms(2)] by (simp add: file_data_def load_def io_ok_def)
qed

lemma file_data_same: "st_file s' = st_file s \<Longrightarrow> file_data pr s' = file_data pr s"
  by (simp add: file_data_def load_def io_ok_def)

lemma approved_in_norm [simp]: "approved_in (norm_data d) c u = approved_in d c u"
proof -
  have "map_of (map (\<lambda>(c, us). (c, sort_Strings us)) xs) c = map_option sort_Strings (map_of xs c)" for xs
    by (induction xs) auto
  then show ?thesis by (simp add: approved_in_def norm_data_def split: option.splits)
qed

lemma IsApproved_iff: "IsApproved pr io c u s \<longleftrightarrow> \<not> io_read io \<and> approved_in (file_data pr s) c u"
  by (simp add: IsApproved_def load_eq approved_in_def)

section \<open>The shape of an operation\<close>

text \<open>
  Read the file, compute the new view or nothing to write or an error, write the view.
\<close>

definition rmw :: "(nat \<Rightarrow> bool) \<Rightarrow> (storeData \<Rightarrow> StoreIOError + storeData option) \<Rightarrow> io \<Rightarrow> PairingStore
    \<Rightarrow> StoreIOError option \<times> PairingStore" where
  "rmw pr update io s =
     (case load pr io s of
        Inl e \<Rightarrow> (Some e, s)
      | Inr d \<Rightarrow> (case update d of
                   Inl e \<Rightarrow> (Some e, s)
                 | Inr None \<Rightarrow> (None, s)
                 | Inr (Some d') \<Rightarrow> save io d' s))"

locale store_operation =
  fixes pr :: "nat \<Rightarrow> bool"
    and run :: "io \<Rightarrow> PairingStore \<Rightarrow> StoreIOError option \<times> PairingStore"
    and update :: "storeData \<Rightarrow> StoreIOError + storeData option"
    and args_ok :: bool
  assumes shape: "run io s = rmw pr update io s"
    and keeps_wf: "args_ok \<Longrightarrow> wf_data d \<Longrightarrow> update d = Inr (Some d') \<Longrightarrow> wf_data d'"
begin

lemma unreadable: "io_read io \<Longrightarrow> run io s = (Some \<lparr>sio_Op = ''read'', sio_Path = st_path s\<rparr>, s)"
  by (simp add: shape rmw_def load_eq)

lemma error_keeps_file:
  assumes "run io s = (Some e, s')" "st_tmp s = None"
  shows "st_file s' = st_file s \<and> st_tmp s' = None"
  using assms by (auto simp: shape rmw_def split: sum.splits option.splits dest: save_cases)

lemma success_view:
  assumes "run io s = (None, s')" args_ok
  shows "\<not> io_read io \<and> (case update (file_data pr s) of
       Inl e \<Rightarrow> False
     | Inr None \<Rightarrow> s' = s
     | Inr (Some d) \<Rightarrow> file_data pr s' = norm_data d)"
  using assms keeps_wf [OF _ file_data_wf]
  by (auto simp: shape rmw_def load_eq file_data_save split: if_splits sum.splits option.splits)

lemma no_tmp: "st_tmp s = None \<Longrightarrow> st_tmp (snd (run io s)) = None"
  by (auto simp: shape rmw_def split: sum.splits option.splits) (metis save_cases surjective_pairing)

text \<open>Whatever the outcome, an approval that appears was put there by the update.\<close>

lemma approval_from_update:
  assumes "approved_in (file_data pr (snd (run io s))) c u" "\<not> approved_in (file_data pr s) c u"
    "st_tmp s = None" args_ok
  shows "\<exists>d. update (file_data pr s) = Inr (Some d) \<and> approved_in d c u \<and> fst (run io s) = None \<and> \<not> io_read io"
proof (cases "run io s")
  case (Pair r s')
  show ?thesis
  proof (cases r)
    case None
    then show ?thesis using success_view [of io s s'] Pair assms by (auto split: sum.splits option.splits)
  next
    case (Some e)
    then have "st_file s' = st_file s" using error_keeps_file Pair assms(3) by blast
    then show ?thesis using assms Pair file_data_same [of s' s] by simp
  qed
qed

end

section \<open>The updates of the operations\<close>

lemma wf_pendingI: "wf_data d \<Longrightarrow> json_wf (JObject ps) \<Longrightarrow> wf_data (d\<lparr>pending := ps\<rparr>)"
  by (simp add: wf_data_def)

lemma delete_filter: "AList.delete k xs = filter (\<lambda>m. fst m \<noteq> k) xs"
  by (induction xs) auto

lemma json_wf_filter: "json_wf (JObject ms) \<Longrightarrow> json_wf (JObject (filter P ms))"
  by (auto simp: list_all_iff intro: distinct_map_filter)

lemma delPending_all: "foldl (\<lambda>d code. delPending code d) d codes
    = d\<lparr>pending := filter (\<lambda>m. fst m \<notin> set codes) (pending d)\<rparr>"
proof (induction codes arbitrary: d)
  case (Cons c codes)
  then show ?case by (simp add: delPending_def delete_filter conj_commute)
qed simp

text \<open>Garbage collection keeps exactly the live entries.\<close>

lemma gcPending_filter:
  assumes "wf_data d"
  shows "gcPending now d = d\<lparr>pending := filter (\<lambda>m. live now (snd m)) (pending d)\<rparr>"
proof -
  have d: "distinct (map fst (pending d))" using assms by (simp add: wf_data_def)
  have "fst m \<notin> set (map fst (filter (\<lambda>(c, e). \<not> live now e) (pending d))) \<longleftrightarrow> live now (snd m)"
    if "m \<in> set (pending d)" for m
  proof
    assume "fst m \<notin> set (map fst (filter (\<lambda>(c, e). \<not> live now e) (pending d)))"
    then show "live now (snd m)" using that by force
  next
    assume l: "live now (snd m)"
    show "fst m \<notin> set (map fst (filter (\<lambda>(c, e). \<not> live now e) (pending d)))"
    proof
      assume "fst m \<in> set (map fst (filter (\<lambda>(c, e). \<not> live now e) (pending d)))"
      then obtain e where "(fst m, e) \<in> set (pending d)" "\<not> live now e" by auto
      then show False using l that d by (metis eq_key_imp_eq_value surjective_pairing)
    qed
  qed
  then show ?thesis unfolding gcPending_def delPending_all by (simp cong: filter_cong)
qed

lemma wf_gc: "wf_data d \<Longrightarrow> wf_data (gcPending now d)"
  using json_wf_filter [of "pending d"] by (simp add: gcPending_filter wf_data_def)

lemma wf_delPending: "wf_data d \<Longrightarrow> wf_data (delPending code d)"
  using json_wf_filter [of "pending d"] by (simp add: delPending_def delete_filter wf_data_def)

lemma wf_delApproved: "wf_data d \<Longrightarrow> wf_data (delApproved c d)"
  by (auto simp: delApproved_def delete_filter wf_data_def list_all_iff intro: distinct_map_filter)

lemma wf_setPending: "wf_data d \<Longrightarrow> valid_utf8 code \<Longrightarrow> json_wf (JObject entry) \<Longrightarrow> wf_data (setPending code entry d)"
  using obj_set_wf [of "pending d" code "JObject entry"]
  by (simp add: setPending_def wf_data_def obj_set_def del: json_wf.simps)

lemma wf_users:
  assumes "wf_data d" "valid_utf8 c" "distinct us" "list_all valid_utf8 us"
  shows "wf_data (d\<lparr>approved := AList.update c us (approved d)\<rparr>)"
proof -
  have "set (AList.update c us xs) \<subseteq> insert (c, us) (set xs)" for xs
    by (induction xs) (auto split: if_splits)
  then show ?thesis using assms distinct_update [of "approved d" c us]
    by (fastforce simp: wf_data_def list_all_iff)
qed

lemma users_wf: "wf_data d \<Longrightarrow> map_of (approved d) c = Some us \<Longrightarrow> valid_utf8 c \<and> distinct us \<and> list_all valid_utf8 us"
  by (auto simp: wf_data_def list_all_iff dest!: map_of_SomeD)

lemma setApproved_update: "setApproved c u d = d\<lparr>approved := AList.update c
    (case map_of (approved d) c of Some us \<Rightarrow> List.insert u us | None \<Rightarrow> [u]) (approved d)\<rparr>"
proof -
  have "map_of xs c = None \<Longrightarrow> AList.update c v xs = xs @ [(c, v)]" for xs :: "(string \<times> string list) list" and v
    by (induction xs) (auto split: if_splits)
  then show ?thesis by (simp add: setApproved_def split: option.split)
qed

lemma wf_setApproved: "wf_data d \<Longrightarrow> valid_utf8 c \<Longrightarrow> valid_utf8 u \<Longrightarrow> wf_data (setApproved c u d)"
  unfolding setApproved_update
  by (rule wf_users) (auto split: option.splits dest: users_wf simp: list_all_iff)

lemma approved_in_set: "approved_in (setApproved c u d) c' u' \<longleftrightarrow> (c' = c \<and> u' = u) \<or> approved_in d c' u'"
  by (auto simp: setApproved_update approved_in_def update_conv split: option.splits)

lemma approved_in_del: "approved_in (delApproved c d) c' u' \<longleftrightarrow> c' \<noteq> c \<and> approved_in d c' u'"
  by (simp add: delApproved_def approved_in_def delete_conv)

lemma approved_in_pending [simp]:
  "approved_in (gcPending now d) c u = approved_in d c u"
  "approved_in (delPending code d) c u = approved_in d c u"
  "approved_in (setPending code e d) c u = approved_in d c u"
  "approved_in (foldl (\<lambda>d code. delPending code d) d codes) c u = approved_in d c u"
proof -
  show "approved_in (gcPending now d) c u = approved_in d c u"
    unfolding gcPending_def delPending_all by (simp add: approved_in_def)
  show "approved_in (foldl (\<lambda>d code. delPending code d) d codes) c u = approved_in d c u"
    unfolding delPending_all by (simp add: approved_in_def)
qed (simp_all add: approved_in_def delPending_def setPending_def)

lemma wf_entry: "wf_data d \<Longrightarrow> map_of (pending d) code = Some (JObject info) \<Longrightarrow> json_wf (JObject info)"
  unfolding wf_data_def json_wf.simps(4) [of "pending d"] list_all_iff
  by (auto dest!: map_of_SomeD simp del: json_wf.simps)

lemma json_string_valid: "json_wf v \<Longrightarrow> valid_utf8 (json_string v)"
  by (cases v) auto

definition approve_update :: "(nat \<Rightarrow> bool) \<Rightarrow> float64 \<Rightarrow> string \<Rightarrow> storeData \<Rightarrow> StoreIOError + storeData option" where
  "approve_update pr now code d =
     (case map_of (pending (gcPending now d)) code of
        Some (JObject info) \<Rightarrow>
          Inr (Some (setApproved (json_string (obj_get info ''channel'')) (pyStr pr (obj_get info ''sender_id''))
                       (delPending code (gcPending now d))))
      | _ \<Rightarrow> Inr None)"

definition deny_update :: "float64 \<Rightarrow> string \<Rightarrow> storeData \<Rightarrow> StoreIOError + storeData option" where
  "deny_update now code d =
     (case map_of (pending (gcPending now d)) code of
        None \<Rightarrow> Inr None
      | Some _ \<Rightarrow> Inr (Some (delPending code (gcPending now d))))"

definition generate_update :: "(nat \<Rightarrow> bool) \<Rightarrow> float64 \<Rightarrow> nat option list \<Rightarrow> string \<Rightarrow> string \<Rightarrow> int
    \<Rightarrow> storeData \<Rightarrow> StoreIOError + storeData option" where
  "generate_update pr now bs channel sender ttl d =
     (case find_code pr channel sender (pending (gcPending now d)) of
        Some code \<Rightarrow> Inr None
      | None \<Rightarrow> (case randomCode bs of
          None \<Rightarrow> Inr None
        | Some (Inl e) \<Rightarrow> Inl e
        | Some (Inr code) \<Rightarrow> Inr (Some (setPending code (new_entry channel sender now ttl) (gcPending now d)))))"

definition revoke_update :: "string \<Rightarrow> string \<Rightarrow> storeData \<Rightarrow> StoreIOError + storeData option" where
  "revoke_update channel sender d =
     (case map_of (approved d) channel of
        None \<Rightarrow> Inr None
      | Some users \<Rightarrow>
          if sender \<notin> set users then Inr None
          else if removeAll sender users = []
          then Inr (Some (delApproved channel (d\<lparr>approved := AList.update channel [] (approved d)\<rparr>)))
          else Inr (Some (d\<lparr>approved := AList.update channel (removeAll sender users) (approved d)\<rparr>)))"

definition revokeChannel_update :: "string \<Rightarrow> storeData \<Rightarrow> StoreIOError + storeData option" where
  "revokeChannel_update channel d =
     (case map_of (approved d) channel of
        None \<Rightarrow> Inr None
      | Some users \<Rightarrow> if users = [] then Inr None else Inr (Some (delApproved channel d)))"

definition clear_update :: "(nat \<Rightarrow> bool) \<Rightarrow> float64 \<Rightarrow> string \<Rightarrow> storeData \<Rightarrow> StoreIOError + storeData option" where
  "clear_update pr now channel d =
     (let d = gcPending now d;
          us = (case map_of (approved d) channel of Some us \<Rightarrow> us | None \<Rightarrow> []);
          codes = codes_of_channel pr channel (pending d)
      in if us = [] \<and> codes = [] then Inr None
         else Inr (Some (foldl (\<lambda>d code. delPending code d) (delApproved channel d) codes)))"

text \<open>Only the error of a result matters to the contract.\<close>

definition outcome :: "(StoreIOError + 'a) \<times> PairingStore \<Rightarrow> StoreIOError option \<times> PairingStore" where
  "outcome r = (case r of (Inl e, s) \<Rightarrow> (Some e, s) | (Inr _, s) \<Rightarrow> (None, s))"

definition outcome_opt :: "(StoreIOError + 'a) option \<times> PairingStore \<Rightarrow> StoreIOError option \<times> PairingStore" where
  "outcome_opt r = (case r of (Some (Inl e), s) \<Rightarrow> (Some e, s) | (_, s) \<Rightarrow> (None, s))"

lemmas store_op_defs = outcome_def outcome_opt_def rmw_def Let_def

interpretation approve: store_operation pr "\<lambda>io s. outcome (ApproveCode pr io now code s)"
  "approve_update pr now code" True
proof
  show "outcome (ApproveCode pr io now code s) = rmw pr (approve_update pr now code) io s" for io s
    by (auto simp: store_op_defs ApproveCode_def approve_update_def split: sum.splits option.splits json.splits prod.splits)
next
  fix d d' assume wf: "wf_data d" and u: "approve_update pr now code d = Inr (Some d')"
  then obtain info where info: "map_of (pending (gcPending now d)) code = Some (JObject info)"
    and d': "d' = setApproved (json_string (obj_get info ''channel'')) (pyStr pr (obj_get info ''sender_id''))
      (delPending code (gcPending now d))"
    by (auto simp: approve_update_def split: option.splits json.splits)
  have "json_wf (JObject info)" using wf_entry [OF wf_gc [OF wf] info] .
  then show "wf_data d'" unfolding d'
    using wf by (intro wf_setApproved wf_delPending wf_gc json_string_valid pyStr_valid obj_get_wf)
qed

interpretation deny: store_operation pr "\<lambda>io s. outcome (DenyCode pr io now code s)" "deny_update now code" True
proof
  show "outcome (DenyCode pr io now code s) = rmw pr (deny_update now code) io s" for io s
    by (auto simp: store_op_defs DenyCode_def deny_update_def split: sum.splits option.splits prod.splits)
next
  show "wf_data d'" if "wf_data d" "deny_update now code d = Inr (Some d')" for d d'
    using that by (auto simp: deny_update_def intro!: wf_delPending wf_gc split: option.splits)
qed

interpretation revoke: store_operation pr "\<lambda>io s. outcome (Revoke pr io channel sender s)"
  "revoke_update channel sender" True
proof
  show "outcome (Revoke pr io channel sender s) = rmw pr (revoke_update channel sender) io s" for io s
    by (auto simp: store_op_defs Revoke_def revoke_update_def split: sum.splits option.splits prod.splits)
next
  fix d d' assume wf: "wf_data d" and u: "revoke_update channel sender d = Inr (Some d')"
  then obtain us where us: "map_of (approved d) channel = Some us"
    by (auto simp: revoke_update_def split: option.splits)
  have "wf_data (d\<lparr>approved := AList.update channel (removeAll sender us) (approved d)\<rparr>)"
    using users_wf [OF wf us] wf by (intro wf_users) (auto simp: list_all_iff distinct_removeAll)
  then show "wf_data d'" using u us
    by (auto simp: revoke_update_def intro: wf_delApproved split: if_splits)
qed

interpretation revokeChannel: store_operation pr "\<lambda>io s. outcome (RevokeChannel pr io channel s)"
  "revokeChannel_update channel" True
proof
  show "outcome (RevokeChannel pr io channel s) = rmw pr (revokeChannel_update channel) io s" for io s
    by (auto simp: store_op_defs RevokeChannel_def revokeChannel_update_def split: sum.splits option.splits prod.splits)
next
  show "wf_data d'" if "wf_data d" "revokeChannel_update channel d = Inr (Some d')" for d d'
    using that by (auto simp: revokeChannel_update_def intro!: wf_delApproved split: option.splits if_splits)
qed

lemma wf_delPending_all: "wf_data d \<Longrightarrow> wf_data (foldl (\<lambda>d code. delPending code d) d codes)"
  by (induction codes arbitrary: d) (auto intro: wf_delPending)

interpretation clear: store_operation pr "\<lambda>io s. outcome (ClearChannel pr io now channel s)"
  "clear_update pr now channel" True
proof
  show "outcome (ClearChannel pr io now channel s) = rmw pr (clear_update pr now channel) io s" for io s
    by (auto simp: store_op_defs ClearChannel_def clear_update_def delApproved_def split: sum.splits prod.splits option.splits)
next
  show "wf_data d'" if "wf_data d" "clear_update pr now channel d = Inr (Some d')" for d d'
    using that by (auto simp: clear_update_def Let_def intro!: wf_delPending_all wf_delApproved wf_gc split: if_splits)
qed

section \<open>Pairing codes\<close>

lemma length_alphabet: "length CodeAlphabet = 36"
  by (simp add: CodeAlphabet_def)

lemma randomCode_loop_shape:
  "randomCode_loop buf bs = Some (Inr code) \<Longrightarrow> length buf \<le> 8 \<Longrightarrow> set buf \<subseteq> set CodeAlphabet \<Longrightarrow>
     \<exists>b. length b = 8 \<and> set b \<subseteq> set CodeAlphabet \<and> code = take 4 b @ ''-'' @ drop 4 b"
proof (induction buf bs rule: randomCode_loop.induct)
  case (1 buf bs)
  show ?case
  proof (cases "CodeLength \<le> length buf")
    case True
    then show ?thesis using 1 by (auto simp: randomCode_loop.simps [of buf bs] CodeLength_def)
  next
    case False
    then obtain b bs' where bs: "bs = Some b # bs'"
      using 1(3) by (auto simp: randomCode_loop.simps [of buf bs] split: list.splits option.splits)
    have mem: "CodeAlphabet ! (b mod 36) \<in> set CodeAlphabet" by (simp add: length_alphabet)
    show ?thesis
    proof (cases "256 - 256 mod length CodeAlphabet \<le> b")
      case True
      then show ?thesis using 1(1) [OF False bs refl True] 1(3,4,5) False bs
        by (simp add: randomCode_loop.simps [of buf "Some b # bs'"])
    next
      case nb: False
      then show ?thesis using 1(2) [OF False bs refl nb] 1(3,4,5) False bs mem
        by (simp add: randomCode_loop.simps [of buf "Some b # bs'"] length_alphabet CodeLength_def)
    qed
  qed
qed

lemma randomCode_shape:
  "randomCode bs = Some (Inr code) \<Longrightarrow>
     \<exists>b. length b = 8 \<and> set b \<subseteq> set CodeAlphabet \<and> code = take 4 b @ ''-'' @ drop 4 b"
  unfolding randomCode_def by (rule randomCode_loop_shape) auto

lemma alphabet_ascii: "c \<in> set CodeAlphabet \<Longrightarrow> byte c < 128"
  by (auto simp: CodeAlphabet_def)

lemma randomCode_valid: "randomCode bs = Some (Inr code) \<Longrightarrow> valid_utf8 code"
proof -
  assume "randomCode bs = Some (Inr code)"
  then obtain b where b: "set b \<subseteq> set CodeAlphabet" "code = take 4 b @ ''-'' @ drop 4 b"
    using randomCode_shape by blast
  have "list_all (\<lambda>c. byte c < 128) b" using b(1) alphabet_ascii by (auto simp: list_all_iff)
  then show ?thesis unfolding b(2)
    by (intro ascii_valid) (auto simp: list_all_iff dest: in_set_takeD in_set_dropD)
qed

text \<open>The loop returns once enough acceptable bytes have been read.\<close>

abbreviation accepted :: "nat option \<Rightarrow> bool" where
  "accepted b \<equiv> (case b of Some n \<Rightarrow> n < 252 | None \<Rightarrow> False)"

lemma randomCode_loop_returns:
  "None \<notin> set bs \<Longrightarrow> 8 \<le> length buf + length (filter accepted bs) \<Longrightarrow> \<exists>code. randomCode_loop buf bs = Some (Inr code)"
proof (induction bs arbitrary: buf)
  case Nil
  then show ?case by (simp add: randomCode_loop.simps CodeLength_def)
next
  case (Cons b bs)
  then obtain n where b: "b = Some n" by (cases b) auto
  then show ?case using Cons
    by (subst randomCode_loop.simps) (auto simp: length_alphabet CodeLength_def)
qed

text \<open>Seven of the accepted bytes stand for each letter.\<close>

lemma bytes_of_letter:
  assumes "i < 36"
  shows "card {b. b < 252 \<and> CodeAlphabet ! (b mod 36) = CodeAlphabet ! i} = 7"
proof -
  have "distinct CodeAlphabet" by (simp add: CodeAlphabet_def)
  then have "CodeAlphabet ! (b mod 36) = CodeAlphabet ! i \<longleftrightarrow> b mod 36 = i" for b
    using assms by (simp add: nth_eq_iff_index_eq length_alphabet)
  then have "{b. b < 252 \<and> CodeAlphabet ! (b mod 36) = CodeAlphabet ! i} = (\<lambda>k. 36 * k + i) ` {0..<7}"
  proof (intro set_eqI iffI)
    fix b assume "b \<in> {b. b < 252 \<and> CodeAlphabet ! (b mod 36) = CodeAlphabet ! i}"
    then have "b < 252" "b mod 36 = i" using \<open>\<And>b. (CodeAlphabet ! (b mod 36) = CodeAlphabet ! i) = (b mod 36 = i)\<close> by auto
    then have "b = 36 * (b div 36) + i" "b div 36 < 7" by auto
    then show "b \<in> (\<lambda>k. 36 * k + i) ` {0..<7}" by force
  next
    fix b assume "b \<in> (\<lambda>k. 36 * k + i) ` {0..<7}"
    then obtain k where "b = 36 * k + i" "k < 7" by auto
    then have "b < 252" "b mod 36 = i" using assms by auto
    then show "b \<in> {b. b < 252 \<and> CodeAlphabet ! (b mod 36) = CodeAlphabet ! i}" by simp
  qed
  moreover have "inj_on (\<lambda>k. 36 * k + i) {0..<7}" by (simp add: inj_on_def)
  ultimately show ?thesis by (simp add: card_image)
qed

lemma new_entry_list: "new_entry channel sender now ttl =
    [(''channel'', JString channel), (''sender_id'', JString sender), (''created_at'', JNumber (pyFloatRepr now)),
     (''expires_at'', JNumber (pyFloatRepr (f64_add now (f64_of_int ttl))))]"
  by (simp add: new_entry_def obj_set_def)

definition generate_args_ok :: "string \<Rightarrow> string \<Rightarrow> float64 \<Rightarrow> int \<Rightarrow> bool" where
  "generate_args_ok channel sender now ttl \<longleftrightarrow> valid_utf8 channel \<and> valid_utf8 sender
     \<and> f64_finite now \<and> f64_finite (f64_add now (f64_of_int ttl))"

lemma new_entry_wf: "generate_args_ok channel sender now ttl \<Longrightarrow> json_wf (JObject (new_entry channel sender now ttl))"
  by (auto simp: generate_args_ok_def new_entry_list pyFloatRepr_number intro!: ascii_valid)

interpretation generate: store_operation pr "\<lambda>io s. outcome_opt (GenerateCode pr io now bs channel sender ttl s)"
  "generate_update pr now bs channel sender ttl" "generate_args_ok channel sender now ttl"
proof
  show "outcome_opt (GenerateCode pr io now bs channel sender ttl s)
      = rmw pr (generate_update pr now bs channel sender ttl) io s" for io s
    by (auto simp: store_op_defs GenerateCode_def generate_update_def split: sum.splits option.splits prod.splits)
next
  show "wf_data d'" if "generate_args_ok channel sender now ttl" "wf_data d"
    "generate_update pr now bs channel sender ttl d = Inr (Some d')" for d d'
    using that by (auto simp: generate_update_def split: option.splits sum.splits
        intro!: wf_setPending wf_gc new_entry_wf randomCode_valid)
qed

section \<open>Runs of the store\<close>

datatype pairing_op =
    OpGenerate float64 "nat option list" string string int
  | OpApprove float64 string
  | OpDeny float64 string
  | OpRevoke string string
  | OpRevokeChannel string
  | OpClear float64 string

fun exec :: "(nat \<Rightarrow> bool) \<Rightarrow> pairing_op \<Rightarrow> io \<Rightarrow> PairingStore \<Rightarrow> StoreIOError option \<times> PairingStore" where
  "exec pr (OpGenerate now bs channel sender ttl) io s = outcome_opt (GenerateCode pr io now bs channel sender ttl s)"
| "exec pr (OpApprove now code) io s = outcome (ApproveCode pr io now code s)"
| "exec pr (OpDeny now code) io s = outcome (DenyCode pr io now code s)"
| "exec pr (OpRevoke channel sender) io s = outcome (Revoke pr io channel sender s)"
| "exec pr (OpRevokeChannel channel) io s = outcome (RevokeChannel pr io channel s)"
| "exec pr (OpClear now channel) io s = outcome (ClearChannel pr io now channel s)"

fun op_ok :: "pairing_op \<Rightarrow> bool" where
  "op_ok (OpGenerate now bs channel sender ttl) = generate_args_ok channel sender now ttl"
| "op_ok _ = True"

fun run_ops :: "(nat \<Rightarrow> bool) \<Rightarrow> (io \<times> pairing_op) list \<Rightarrow> PairingStore \<Rightarrow> PairingStore" where
  "run_ops pr [] s = s"
| "run_ops pr ((io, op) # ops) s = run_ops pr ops (snd (exec pr op io s))"

text \<open>The operation approves this sender: it names a live pending code issued for the sender on the channel.\<close>

definition grants :: "(nat \<Rightarrow> bool) \<Rightarrow> pairing_op \<Rightarrow> PairingStore \<Rightarrow> string \<Rightarrow> string \<Rightarrow> bool" where
  "grants pr op s channel sender =
     (case op of
        OpApprove now code \<Rightarrow>
          (case map_of (pending (file_data pr s)) code of
             Some (JObject info) \<Rightarrow>
               live now (JObject info) \<and> obj_get info ''channel'' = JString channel
               \<and> pyStr pr (obj_get info ''sender_id'') = sender
           | _ \<Rightarrow> False)
      | _ \<Rightarrow> False)"

lemma exec_error: "exec pr op io s = (Some e, s') \<Longrightarrow> st_tmp s = None \<Longrightarrow> st_file s' = st_file s \<and> st_tmp s' = None"
  using approve.error_keeps_file deny.error_keeps_file revoke.error_keeps_file revokeChannel.error_keeps_file
    clear.error_keeps_file generate.error_keeps_file
  by (cases op) simp_all

lemma exec_unreadable: "io_read io \<Longrightarrow> exec pr op io s = (Some \<lparr>sio_Op = ''read'', sio_Path = st_path s\<rparr>, s)"
  using approve.unreadable deny.unreadable revoke.unreadable revokeChannel.unreadable clear.unreadable generate.unreadable
  by (cases op) simp_all

lemma exec_no_tmp: "st_tmp s = None \<Longrightarrow> st_tmp (snd (exec pr op io s)) = None"
  using approve.no_tmp deny.no_tmp revoke.no_tmp revokeChannel.no_tmp clear.no_tmp generate.no_tmp
  by (cases op) simp_all

lemma map_of_filter_snd:
  assumes "distinct (map fst xs)"
  shows "map_of (filter (\<lambda>m. P (snd m)) xs) k = Some v \<longleftrightarrow> map_of xs k = Some v \<and> P v"
proof -
  have "distinct (map fst (filter (\<lambda>m. P (snd m)) xs))" using assms by (rule distinct_map_filter)
  then show ?thesis using assms by (simp add: map_of_eq_Some_iff conj_commute)
qed

lemma gc_entry:
  "wf_data d \<Longrightarrow> map_of (pending (gcPending now d)) code = Some v \<longleftrightarrow> map_of (pending d) code = Some v \<and> live now v"
  by (simp add: gcPending_filter map_of_filter_snd wf_data_def)

lemma live_channel: "live now (JObject info) \<Longrightarrow> obj_get info ''channel'' = JString (json_string (obj_get info ''channel''))"
  by (cases "obj_get info ''channel''") (auto simp: live_def)

lemma approve_update_grants:
  assumes "wf_data (file_data pr s)" "approve_update pr now code (file_data pr s) = Inr (Some d)"
    "approved_in d c u" "\<not> approved_in (file_data pr s) c u"
  shows "grants pr (OpApprove now code) s c u"
proof -
  obtain info where info: "map_of (pending (gcPending now (file_data pr s))) code = Some (JObject info)"
    and d: "d = setApproved (json_string (obj_get info ''channel'')) (pyStr pr (obj_get info ''sender_id''))
      (delPending code (gcPending now (file_data pr s)))"
    using assms(2) by (auto simp: approve_update_def split: option.splits json.splits)
  have "map_of (pending (file_data pr s)) code = Some (JObject info)" "live now (JObject info)"
    using info gc_entry [OF assms(1)] by auto
  moreover have "c = json_string (obj_get info ''channel'')" "u = pyStr pr (obj_get info ''sender_id'')"
    using assms(3,4) by (auto simp: d approved_in_set)
  ultimately show ?thesis using live_channel [of now info] by (simp add: grants_def)
qed

text \<open>No other update adds an approval.\<close>

lemma other_updates:
  assumes "approved_in d' c u"
  shows "deny_update now code d = Inr (Some d') \<Longrightarrow> approved_in d c u"
    "generate_update pr now bs ch se ttl d = Inr (Some d') \<Longrightarrow> approved_in d c u"
    "revoke_update ch se d = Inr (Some d') \<Longrightarrow> approved_in d c u"
    "revokeChannel_update ch d = Inr (Some d') \<Longrightarrow> approved_in d c u"
    "clear_update pr now ch d = Inr (Some d') \<Longrightarrow> approved_in d c u"
proof -
  show "deny_update now code d = Inr (Some d') \<Longrightarrow> approved_in d c u"
    using assms by (auto simp: deny_update_def split: option.splits)
  show "generate_update pr now bs ch se ttl d = Inr (Some d') \<Longrightarrow> approved_in d c u"
    using assms by (auto simp: generate_update_def split: option.splits sum.splits)
  show "revokeChannel_update ch d = Inr (Some d') \<Longrightarrow> approved_in d c u"
    using assms by (auto simp: revokeChannel_update_def approved_in_del split: option.splits if_splits)
  show "clear_update pr now ch d = Inr (Some d') \<Longrightarrow> approved_in d c u"
    using assms by (auto simp: clear_update_def Let_def approved_in_del split: if_splits)
  show "revoke_update ch se d = Inr (Some d') \<Longrightarrow> approved_in d c u"
    using assms by (auto simp: revoke_update_def approved_in_def delApproved_def delete_conv update_conv
        split: option.splits if_splits)
qed

lemma exec_grants:
  assumes "approved_in (file_data pr (snd (exec pr op io s))) c u" "\<not> approved_in (file_data pr s) c u"
    "st_tmp s = None" "op_ok op"
  shows "grants pr op s c u"
proof (cases op)
  case (OpApprove now code)
  then obtain d where "approve_update pr now code (file_data pr s) = Inr (Some d)" "approved_in d c u"
    using approve.approval_from_update [of pr io now code s c u] assms by auto
  then show ?thesis using approve_update_grants [OF file_data_wf] assms(2) OpApprove by blast
next
  case (OpGenerate now bs ch se ttl)
  then show ?thesis
    using generate.approval_from_update [of pr io now bs ch se ttl s c u] assms other_updates(2) by fastforce
next
  case (OpDeny now code)
  then show ?thesis
    using deny.approval_from_update [of pr io now code s c u] assms other_updates(1) by fastforce
next
  case (OpRevoke ch se)
  then show ?thesis
    using revoke.approval_from_update [of pr io ch se s c u] assms other_updates(3) by fastforce
next
  case (OpRevokeChannel ch)
  then show ?thesis
    using revokeChannel.approval_from_update [of pr io ch s c u] assms other_updates(4) by fastforce
next
  case (OpClear now ch)
  then show ?thesis
    using clear.approval_from_update [of pr io now ch s c u] assms other_updates(5) by fastforce
qed

lemma write_canon:
  "writeJSONValue (jcanon v) k = writeJSONValue v k"
  "write_items (map jcanon vs) k = write_items vs k"
  "write_members (map (\<lambda>m. (fst m, jcanon (snd m))) ms) k = write_members ms k"
  by (induction v k and vs k and ms k rule: writeJSONValue_write_items_write_members.induct)
     (auto simp: pyJSONNumber_idem)

lemma save_ok: "\<exists>s'. save io_ok d s = (None, s')"
  by (simp add: save_def writeFileAtomic_def io_ok_def Let_def)

text \<open>Approving a code the store holds for a sender.\<close>

lemma approve_granted:
  assumes "grants pr (OpApprove now code) s c u"
  shows "\<exists>s'. ApproveCode pr io_ok now code s = (Inr (Some \<lparr>ap_Channel = c, ap_SenderID = u\<rparr>), s')
    \<and> approved_in (file_data pr s') c u \<and> map_of (pending (file_data pr s')) code = None"
proof -
  obtain info where info: "map_of (pending (file_data pr s)) code = Some (JObject info)" "live now (JObject info)"
    "obj_get info ''channel'' = JString c" "pyStr pr (obj_get info ''sender_id'') = u"
    using assms by (auto simp: grants_def split: option.splits json.splits)
  let ?d = "setApproved c u (delPending code (gcPending now (file_data pr s)))"
  have gc: "map_of (pending (gcPending now (file_data pr s))) code = Some (JObject info)"
    using gc_entry [OF file_data_wf] info by blast
  have wf: "wf_data ?d"
    using approve.keeps_wf [of "file_data pr s" pr now code ?d] file_data_wf gc info by (simp add: approve_update_def)
  obtain s' where s': "save io_ok ?d s = (None, s')" using save_ok by blast
  have "ApproveCode pr io_ok now code s = (Inr (Some \<lparr>ap_Channel = c, ap_SenderID = u\<rparr>), s')"
    using gc info s' by (simp add: ApproveCode_def load_eq Let_def io_ok_def)
  moreover have "file_data pr s' = norm_data ?d" using file_data_save [OF s' wf] .
  moreover have "map_of (pending (norm_data ?d)) code = None"
    by (simp add: norm_data_def setApproved_update delPending_def map_of_eq_None_iff delete_filter image_iff)
  ultimately show ?thesis by (auto simp: approved_in_set)
qed

lemma approve_unknown: "map_of (pending (file_data pr s)) code = None \<Longrightarrow> fst (ApproveCode pr io_ok now code s) = Inr None"
  using gc_entry [OF file_data_wf, of now pr s code]
  by (auto simp: ApproveCode_def load_eq io_ok_def Let_def split: option.splits json.splits)

lemma find_code_entry:
  "find_code pr c u ps = Some code \<Longrightarrow> distinct (map fst ps) \<Longrightarrow>
     \<exists>info. map_of ps code = Some (JObject info) \<and> json_string (obj_get info ''channel'') = c
       \<and> pyStr pr (obj_get info ''sender_id'') = u"
proof (induction ps)
  case (Cons m ps)
  obtain k e where m: "m = (k, e)" by (cases m)
  show ?case
  proof (cases "find_code pr c u ps = Some code")
    case True
    then obtain info where "map_of ps code = Some (JObject info)" using Cons by auto
    then have "code \<in> fst ` set ps" by (force dest!: map_of_SomeD)
    then show ?thesis using Cons m by (auto split: json.splits if_splits)
  next
    case False
    then show ?thesis using Cons.prems m by (auto split: json.splits if_splits)
  qed
qed simp

lemma generated_grants:
  assumes "generate_args_ok channel sender now ttl" "channel \<noteq> []"
    "\<not> f64_less (f64_add now (f64_of_int ttl)) now"
    "GenerateCode pr io_ok now bs channel sender ttl s = (Some (Inr code), s1)"
  shows "grants pr (OpApprove now code) s1 channel sender"
proof (cases "find_code pr channel sender (pending (gcPending now (file_data pr s)))")
  case (Some code')
  then have c: "code' = code" "s1 = s" using assms(4) by (simp_all add: GenerateCode_def load_eq io_ok_def Let_def)
  have "distinct (map fst (pending (gcPending now (file_data pr s))))"
    using wf_gc [OF file_data_wf] by (simp add: wf_data_def)
  then obtain info where info: "map_of (pending (gcPending now (file_data pr s))) code = Some (JObject info)"
    "json_string (obj_get info ''channel'') = channel" "pyStr pr (obj_get info ''sender_id'') = sender"
    using find_code_entry Some c by blast
  then show ?thesis using gc_entry [OF file_data_wf] live_channel c(2) by (auto simp: grants_def)
next
  case None
  then obtain d where r: "randomCode bs = Some (Inr code)"
    and sv: "save io_ok (setPending code (new_entry channel sender now ttl) (gcPending now (file_data pr s))) s = (None, s1)"
    using assms(4) by (auto simp: GenerateCode_def load_eq io_ok_def Let_def split: option.splits sum.splits prod.splits)
  let ?d = "setPending code (new_entry channel sender now ttl) (gcPending now (file_data pr s))"
  have "wf_data ?d"
    using assms(1) r by (intro wf_setPending wf_gc file_data_wf new_entry_wf randomCode_valid)
  then have fd: "file_data pr s1 = norm_data ?d" using file_data_save sv by blast
  have canon: "jcanon (JObject (new_entry channel sender now ttl)) = JObject (new_entry channel sender now ttl)"
  proof -
    have "pyJSONNumber (pyFloatRepr f) = pyFloatRepr f" if "f64_finite f" for f
      using that float_text_marked ParseFloat_pyFloatRepr by (auto simp: pyJSONNumber_def)
    then show ?thesis using assms(1) by (simp add: generate_args_ok_def new_entry_list)
  qed
  have "map_of (map (\<lambda>m. (fst m, jcanon (snd m))) xs) code = map_option jcanon (map_of xs code)" for xs
    by (induction xs) auto
  then have "map_of (pending (file_data pr s1)) code = Some (JObject (new_entry channel sender now ttl))"
    unfolding fd using canon by (simp add: norm_data_def setPending_def update_conv)
  moreover have "live now (JObject (new_entry channel sender now ttl))"
    using assms(1-3) ParseFloat_pyFloatRepr
    by (simp add: live_def new_entry_list obj_get_def numericValue_def generate_args_ok_def)
  ultimately show ?thesis by (simp add: grants_def new_entry_list obj_get_def)
qed

section \<open>A small run\<close>

definition demo_store :: PairingStore where
  "demo_store = \<lparr>st_path = ''pairing.json'', st_dir = [], st_tmpName = ''.pairing.json.tmp'', st_file = None, st_tmp = None\<rparr>"

definition demo_bytes :: "nat option list" where
  "demo_bytes = [Some 0, Some 1, Some 255, Some 2, Some 3, Some 40, Some 5, Some 6, Some 7]"

lemma randomCode_loop_steps:
  "length buf < 8 \<Longrightarrow> b < 252 \<Longrightarrow>
     randomCode_loop buf (Some b # bs) = randomCode_loop (buf @ [CodeAlphabet ! (b mod 36)]) bs"
  "length buf < 8 \<Longrightarrow> 252 \<le> b \<Longrightarrow> randomCode_loop buf (Some b # bs) = randomCode_loop buf bs"
  "length buf = 8 \<Longrightarrow> randomCode_loop buf bs = Some (Inr (take 4 buf @ ''-'' @ drop 4 buf))"
  by (subst randomCode_loop.simps; simp add: length_alphabet CodeLength_def)+

lemma demo_letters: "map ((!) CodeAlphabet) [0, 1, 2, 3, 4, 5, 6, 7] = ''ABCDEFGH''"
  by (simp add: CodeAlphabet_def)

lemma demo_code: "randomCode demo_bytes = Some (Inr ''ABCD-EFGH'')"
  using demo_letters by (simp add: randomCode_def demo_bytes_def randomCode_loop_steps)

lemma demo_ttl: "f64_of_int 600 = FNum 600"
  by code_simp

lemma demo_now: "f64_finite (FNum 1000)"
  by code_simp

lemma demo_expiry: "f64_add (FNum 1000) (FNum 600) = FNum 1600"
  by code_simp

lemma demo_finite: "f64_finite (FNum 1000)" "f64_finite (f64_add (FNum 1000) (f64_of_int 600))"
  "\<not> f64_less (f64_add (FNum 1000) (f64_of_int 600)) (FNum 1000)"
proof -
  have "round64 1600 = FNum 1600" using demo_expiry by simp
  then show "f64_finite (f64_add (FNum 1000) (f64_of_int 600))"
    by (simp only: demo_ttl demo_expiry f64_finite_def is_f64_def float64.case)
  show "\<not> f64_less (f64_add (FNum 1000) (f64_of_int 600)) (FNum 1000)"
    by (simp only: demo_ttl demo_expiry) simp
qed (rule demo_now)

lemma demo_args: "generate_args_ok ''tg'' ''bob'' (FNum 1000) 600"
  using demo_finite by (simp add: generate_args_ok_def ascii_valid)

lemma demo_data: "file_data pr demo_store = newStoreData"
  by (simp add: file_data_def load_def demo_store_def io_ok_def)

lemma demo_generate:
  "\<exists>s1. GenerateCode pr io_ok (FNum 1000) demo_bytes ''tg'' ''bob'' 600 demo_store = (Some (Inr ''ABCD-EFGH''), s1)"
proof -
  obtain s1 where "save io_ok (setPending ''ABCD-EFGH'' (new_entry ''tg'' ''bob'' (FNum 1000) 600)
      (gcPending (FNum 1000) newStoreData)) demo_store = (None, s1)"
    using save_ok by blast
  moreover have "pending (gcPending (FNum 1000) newStoreData) = []"
    by (simp add: gcPending_def newStoreData_def)
  ultimately show ?thesis
    using demo_code by (simp add: GenerateCode_def load_eq demo_data Let_def io_ok_def)
qed

section \<open>Properties\<close>

text \<open>
  C26. A JSON document survives its own writer: a well-formed value (as every decoded file is)
  reads back as itself with its numbers in Python's canonical form, and writing that
  canonical value again gives the same bytes, so a file is stable after one rewrite.
\<close>

theorem json_document_roundtrip:
  assumes "json_wf v"
  shows "decodeJSONDocument (encodeJSONDocument v) = Some (jcanon v)
    \<and> encodeJSONDocument (jcanon v) = encodeJSONDocument v"
  using assms decode_encode_document [OF json_wf_ok] jnorm_canon(1) write_canon(1)
  by (simp add: encodeJSONDocument_def)

theorem json_document_roundtrip_witness:
  "decodeJSONDocument (encodeJSONDocument (JArray [JNumber ''-0'', JString ''a'', JNull]))
     = Some (JArray [JNumber ''0'', JString ''a'', JNull])"
proof -
  have "json_wf (JArray [JNumber ''-0'', JString ''a'', JNull])"
    by (simp add: is_json_number_def lex_number_def lex_sign_def lex_int_def lex_frac_def lex_exp_def is_digit_def
        ascii_valid)
  moreover have "pyJSONNumber ''-0'' = ''0''"
    by (simp add: pyJSONNumber_def big_int_text_def Let_def is_digit_def digits_int_def Itoa_def nat_digits.simps
        digit_char_def char_of_def bit_Suc_0_iff)
  ultimately show ?thesis using json_document_roundtrip [of "JArray [JNumber ''-0'', JString ''a'', JNull]"] by simp
qed

text \<open>
  The text written for a finite timestamp is a JSON number, and parsing it gives the very
  float64 it was written from: rearranging the shortest digits into Python's layout (fixed
  notation with a trailing ".0", or an exponent) never changes the value.
\<close>

theorem float_repr_roundtrip:
  assumes "f64_finite f"
  shows "is_json_number (pyFloatRepr f) \<and> ParseFloat (pyFloatRepr f) = Some f"
  using assms pyFloatRepr_number ParseFloat_pyFloatRepr by blast

theorem float_repr_roundtrip_witness:
  "f64_finite (FNum (3 / 2)) \<and> ParseFloat (pyFloatRepr (FNum (3 / 2))) = Some (FNum (3 / 2))"
proof -
  have "f64_finite (FNum (3 / 2))" by code_simp
  then show ?thesis using float_repr_roundtrip [of "FNum (3 / 2)"] by blast
qed

text \<open>
  C28. Nobody is approved without a code. Over any sequence of store operations, with any of
  their system calls failing, a sender who is approved at the end and was not at the start was
  approved by some \<^verbatim>\<open>ApproveCode\<close> of the sequence, which named a code that was pending in the
  file at that moment, not expired, and issued for that very channel and sender.
\<close>

theorem approvals_only_by_code:
  assumes "IsApproved pr io_ok channel sender (run_ops pr ops s)" "\<not> IsApproved pr io_ok channel sender s"
    "st_tmp s = None" "list_all (\<lambda>(io, op). op_ok op) ops"
  shows "\<exists>before io op rest. ops = before @ (io, op) # rest \<and> grants pr op (run_ops pr before s) channel sender"
  using assms
proof (induction ops arbitrary: s)
  case (Cons x ops)
  obtain io op where x: "x = (io, op)" by (cases x)
  let ?s = "snd (exec pr op io s)"
  show ?case
  proof (cases "IsApproved pr io_ok channel sender ?s")
    case True
    then have "grants pr op s channel sender"
      using exec_grants [of pr op io s channel sender] Cons.prems x by (simp add: IsApproved_iff)
    then show ?thesis using x by (intro exI [of _ "[]"]) auto
  next
    case False
    then obtain bef io' op' rest where "ops = bef @ (io', op') # rest" "grants pr op' (run_ops pr bef ?s) channel sender"
      using Cons.IH [of ?s] Cons.prems x exec_no_tmp by auto
    then show ?thesis using x by (intro exI [of _ "x # bef"]) auto
  qed
qed simp

theorem approvals_only_by_code_witness:
  "\<exists>before io op rest.
     [(io_ok, OpGenerate (FNum 1000) demo_bytes ''tg'' ''bob'' 600), (io_ok, OpApprove (FNum 1000) ''ABCD-EFGH'')]
       = before @ (io, op) # rest
     \<and> grants (\<lambda>r. True) op (run_ops (\<lambda>r. True) before demo_store) ''tg'' ''bob''"
proof -
  let ?pr = "\<lambda>r::nat. True"
  obtain s1 where s1: "GenerateCode ?pr io_ok (FNum 1000) demo_bytes ''tg'' ''bob'' 600 demo_store = (Some (Inr ''ABCD-EFGH''), s1)"
    using demo_generate by blast
  obtain s2 where s2: "ApproveCode ?pr io_ok (FNum 1000) ''ABCD-EFGH'' s1
      = (Inr (Some \<lparr>ap_Channel = ''tg'', ap_SenderID = ''bob''\<rparr>), s2)" "approved_in (file_data ?pr s2) ''tg'' ''bob''"
    using approve_granted [OF generated_grants [OF demo_args _ demo_finite(3) s1]] by auto
  let ?ops = "[(io_ok, OpGenerate (FNum 1000) demo_bytes ''tg'' ''bob'' 600), (io_ok, OpApprove (FNum 1000) ''ABCD-EFGH'')]"
  have "run_ops ?pr ?ops demo_store = s2" using s1 s2(1) by (simp add: outcome_def outcome_opt_def)
  then have "IsApproved ?pr io_ok ''tg'' ''bob'' (run_ops ?pr ?ops demo_store)"
    using s2(2) by (simp add: IsApproved_iff io_ok_def)
  moreover have "\<not> IsApproved ?pr io_ok ''tg'' ''bob'' demo_store"
    by (simp add: IsApproved_iff demo_data newStoreData_def approved_in_def)
  moreover have "st_tmp demo_store = None" by (simp add: demo_store_def)
  ultimately show ?thesis
    using approvals_only_by_code [of ?pr "''tg''" "''bob''" ?ops demo_store] demo_args by simp
qed

text \<open>
  Pairing works. After \<^verbatim>\<open>GenerateCode\<close> has returned a code for a sender, fresh or already
  pending, approving that code reports exactly that channel and sender, the sender is
  approved from then on, and the code is spent: approving it again is refused.
\<close>

theorem pairing_roundtrip:
  assumes "generate_args_ok channel sender now ttl" "channel \<noteq> []"
    "\<not> f64_less (f64_add now (f64_of_int ttl)) now"
    "GenerateCode pr io_ok now bs channel sender ttl s = (Some (Inr code), s1)"
  shows "\<exists>s2. ApproveCode pr io_ok now code s1 = (Inr (Some \<lparr>ap_Channel = channel, ap_SenderID = sender\<rparr>), s2)
    \<and> IsApproved pr io_ok channel sender s2
    \<and> fst (ApproveCode pr io_ok later code s2) = Inr None"
  using approve_granted [OF generated_grants [OF assms]] approve_unknown
  by (metis IsApproved_iff io_ok_def io.select_convs(1))

theorem pairing_roundtrip_witness:
  "\<exists>s1 s2. ApproveCode (\<lambda>r. True) io_ok (FNum 1000) ''ABCD-EFGH'' s1
      = (Inr (Some \<lparr>ap_Channel = ''tg'', ap_SenderID = ''bob''\<rparr>), s2)
    \<and> IsApproved (\<lambda>r. True) io_ok ''tg'' ''bob'' s2"
proof -
  obtain s1 where s1: "GenerateCode (\<lambda>r. True) io_ok (FNum 1000) demo_bytes ''tg'' ''bob'' 600 demo_store
      = (Some (Inr ''ABCD-EFGH''), s1)"
    using demo_generate by blast
  show ?thesis using pairing_roundtrip [OF demo_args _ demo_finite(3) s1] by blast
qed

text \<open>
  Errors never damage the store. An operation that cannot read the file reports the read
  error and changes nothing, while the read-only checks then answer "not approved", an empty
  list of requests and an empty list of senders; and whatever system call an operation fails
  in, the file keeps its previous content and no temporary file is left.
\<close>

theorem errors_keep_store:
  "(io_read io \<longrightarrow> exec pr op io s = (Some \<lparr>sio_Op = ''read'', sio_Path = st_path s\<rparr>, s)
      \<and> \<not> IsApproved pr io channel sender s \<and> ListPending pr io now s = [] \<and> GetApproved pr io channel s = [])
   \<and> (exec pr op io s = (Some e, s') \<and> st_tmp s = None \<longrightarrow> st_file s' = st_file s \<and> st_tmp s' = None)"
  using exec_unreadable exec_error
  by (auto simp: IsApproved_iff ListPending_def GetApproved_def load_eq)

theorem errors_keep_store_witness:
  "st_file (snd (exec (\<lambda>r. True) (OpRevoke ''tg'' ''bob'') (io_ok\<lparr>io_read := True\<rparr>)
      \<lparr>st_path = ''p'', st_dir = [], st_tmpName = ''t'', st_file = Some ''{}'', st_tmp = None\<rparr>)) = Some ''{}''"
  using errors_keep_store [of "io_ok\<lparr>io_read := True\<rparr>" "\<lambda>r. True" "OpRevoke ''tg'' ''bob''"
      "\<lparr>st_path = ''p'', st_dir = [], st_tmpName = ''t'', st_file = Some ''{}'', st_tmp = None\<rparr>" "''tg''" "''bob''"
      "FZero False"]
  by (simp add: io_ok_def)

lemma revoke_view:
  assumes "Revoke pr io channel sender s = (Inr True, s')"
  shows "\<exists>d. revoke_update channel sender (file_data pr s) = Inr (Some d) \<and> file_data pr s' = norm_data d"
proof -
  have run: "outcome (Revoke pr io channel sender s) = (None, s')" using assms by (simp add: outcome_def)
  have "revoke_update channel sender (file_data pr s) \<noteq> Inr None"
    using assms by (auto simp: Revoke_def revoke_update_def load_eq Let_def split: if_splits option.splits prod.splits)
  then show ?thesis using revoke.success_view [OF run TrueI] by (auto split: sum.splits option.splits)
qed

lemma revoke_present:
  assumes "approved_in (file_data pr s) c u"
  shows "\<exists>s'. Revoke pr io_ok c u s = (Inr True, s')"
proof -
  obtain us where us: "map_of (approved (file_data pr s)) c = Some us" "u \<in> set us"
    using assms by (auto simp: approved_in_def split: option.splits)
  let ?d = "(file_data pr s)\<lparr>approved := AList.update c (removeAll u us) (approved (file_data pr s))\<rparr>"
  obtain s' where "save io_ok (if removeAll u us = [] then delApproved c ?d else ?d) s = (None, s')"
    using save_ok by blast
  then show ?thesis using us by (simp add: Revoke_def load_eq Let_def) (simp add: io_ok_def)
qed

lemma revoke_update_view:
  assumes "revoke_update channel sender d = Inr (Some d')"
  shows "approved_in d' c u \<longleftrightarrow> (c, u) \<noteq> (channel, sender) \<and> approved_in d c u" "pending d' = pending d"
proof -
  obtain us where us: "map_of (approved d) channel = Some us" "sender \<in> set us"
    using assms by (auto simp: revoke_update_def split: option.splits if_splits)
  show "approved_in d' c u \<longleftrightarrow> (c, u) \<noteq> (channel, sender) \<and> approved_in d c u"
  proof (cases "removeAll sender us = []")
    case True
    then have "set us \<subseteq> {sender}" by (metis Diff_eq_empty_iff empty_set set_removeAll)
    moreover have "d' = delApproved channel (d\<lparr>approved := AList.update channel [] (approved d)\<rparr>)"
      using assms us True by (simp add: revoke_update_def)
    ultimately show ?thesis using us by (auto simp: approved_in_def delApproved_def delete_conv update_conv)
  next
    case False
    then have "d' = d\<lparr>approved := AList.update channel (removeAll sender us) (approved d)\<rparr>"
      using assms us by (simp add: revoke_update_def)
    then show ?thesis using us by (auto simp: approved_in_def update_conv)
  qed
  show "pending d' = pending d"
    using assms us by (auto simp: revoke_update_def delApproved_def split: if_splits)
qed

text \<open>
  Revoking takes effect and touches nothing else: once \<^verbatim>\<open>Revoke\<close> has answered true, that
  sender is no longer approved on that channel, every other sender's approval is what it was,
  and the pending codes are still there.
\<close>

theorem revoke_removes:
  assumes "Revoke pr io channel sender s = (Inr True, s')"
  shows "(IsApproved pr io_ok c u s' \<longleftrightarrow> (c, u) \<noteq> (channel, sender) \<and> IsApproved pr io_ok c u s)
    \<and> map fst (pending (file_data pr s')) = map fst (pending (file_data pr s))"
proof -
  obtain d where d: "revoke_update channel sender (file_data pr s) = Inr (Some d)" "file_data pr s' = norm_data d"
    using revoke_view [OF assms] by blast
  show ?thesis using revoke_update_view [OF d(1)] d(2)
    by (simp add: IsApproved_iff io_ok_def) (simp add: norm_data_def comp_def)
qed

theorem revoke_removes_witness:
  "\<exists>s2 s3. Revoke (\<lambda>r. True) io_ok ''tg'' ''bob'' s2 = (Inr True, s3) \<and> \<not> IsApproved (\<lambda>r. True) io_ok ''tg'' ''bob'' s3"
proof -
  let ?pr = "\<lambda>r::nat. True"
  obtain s1 where s1: "GenerateCode ?pr io_ok (FNum 1000) demo_bytes ''tg'' ''bob'' 600 demo_store = (Some (Inr ''ABCD-EFGH''), s1)"
    using demo_generate by blast
  obtain s2 where s2: "approved_in (file_data ?pr s2) ''tg'' ''bob''"
    using approve_granted [OF generated_grants [OF demo_args _ demo_finite(3) s1]] by auto
  obtain s3 where s3: "Revoke ?pr io_ok ''tg'' ''bob'' s2 = (Inr True, s3)"
    using revoke_present [OF s2] by blast
  show ?thesis using revoke_removes [OF s3, of "''tg''" "''bob''"] s3 by blast
qed



end
