(* ===== verification/Messages.thy ===== *)
theory Messages
  imports Prelude
begin

text \<open>
  The conversation vocabulary of \<^verbatim>\<open>internal/core\<close>: tool calls, message content (a plain string or
  a list of blocks, with the flag that says which one is authoritative), and the transcript
  message. A Go map that the code only passes through is kept as the list of its entries, raw
  JSON as its text.
\<close>

type_synonym role = string

definition RoleSystem :: role where "RoleSystem = ''system''"
definition RoleUser :: role where "RoleUser = ''user''"
definition RoleAssistant :: role where "RoleAssistant = ''assistant''"
definition RoleTool :: role where "RoleTool = ''tool''"

lemmas role_defs = RoleSystem_def RoleUser_def RoleAssistant_def RoleTool_def

lemma roles_distinct [simp]:
  "RoleSystem \<noteq> RoleUser" "RoleSystem \<noteq> RoleAssistant" "RoleSystem \<noteq> RoleTool"
  "RoleUser \<noteq> RoleSystem" "RoleUser \<noteq> RoleAssistant" "RoleUser \<noteq> RoleTool"
  "RoleAssistant \<noteq> RoleSystem" "RoleAssistant \<noteq> RoleUser" "RoleAssistant \<noteq> RoleTool"
  "RoleTool \<noteq> RoleSystem" "RoleTool \<noteq> RoleUser" "RoleTool \<noteq> RoleAssistant"
  by (simp_all add: role_defs)

record ToolCall =
  tc_ID :: string
  tc_Name :: string
  tc_Arguments :: string
  tc_ExtraContent :: "(string \<times> json) list"
  tc_ProviderSpecificFields :: "(string \<times> json) list"
  tc_FunctionProviderSpecific :: "(string \<times> json) list"

record ContentBlock =
  cb_Type :: string
  cb_Text :: string
  cb_ImageURL :: string
  cb_Raw :: "(string \<times> string) list option"

record Content =
  ct_Text :: string
  ct_Blocks :: "ContentBlock list option"
  ct_isText :: bool

definition TextContent :: "string \<Rightarrow> Content" where
  "TextContent s = \<lparr>ct_Text = s, ct_Blocks = None, ct_isText = True\<rparr>"

definition BlockContent :: "ContentBlock list \<Rightarrow> Content" where
  "BlockContent b = \<lparr>ct_Text = [], ct_Blocks = Some b, ct_isText = False\<rparr>"

text \<open>The content of a message whose JSON has no content at all.\<close>

definition NoContent :: Content where
  "NoContent = \<lparr>ct_Text = [], ct_Blocks = None, ct_isText = False\<rparr>"

text \<open>The blocks a \<^verbatim>\<open>range\<close> loop over the slice visits: none when it is nil.\<close>

abbreviation blocks :: "Content \<Rightarrow> ContentBlock list" where
  "blocks c \<equiv> (case ct_Blocks c of None \<Rightarrow> [] | Some bs \<Rightarrow> bs)"

record Message =
  Role :: role
  Content :: Content
  Timestamp :: string
  ToolCalls :: "ToolCall list"
  ToolCallID :: string
  Name :: string
  ReasoningContent :: string
  ThinkingBlocks :: "(string \<times> json) list list"
  extra :: "(string \<times> string) list"
  present :: "string list"

definition NewMessage :: "role \<Rightarrow> string \<Rightarrow> Message" where
  "NewMessage r t =
     \<lparr>Role = r, Content = TextContent t, Timestamp = [], ToolCalls = [], ToolCallID = [], Name = [],
      ReasoningContent = [], ThinkingBlocks = [], extra = [], present = []\<rparr>"

text \<open>Is the body a non-empty string, or a list with a non-empty text block?\<close>

definition messageHasContent :: "Message \<Rightarrow> bool" where
  "messageHasContent m =
     (if ct_isText (Content m) then ct_Text (Content m) \<noteq> []
      else list_ex (\<lambda>b. cb_Type b = ''text'' \<and> cb_Text b \<noteq> []) (blocks (Content m)))"

lemma NewMessage_simps [simp]:
  "Role (NewMessage r t) = r" "ToolCalls (NewMessage r t) = []" "ToolCallID (NewMessage r t) = []"
  "Content (NewMessage r t) = TextContent t"
  by (simp_all add: NewMessage_def)

text \<open>The non-empty ids that a message declares as an assistant turn.\<close>

definition declares :: "Message \<Rightarrow> string list" where
  "declares m = (if Role m = RoleAssistant then filter (\<lambda>i. i \<noteq> []) (map tc_ID (ToolCalls m)) else [])"

definition is_tool :: "Message \<Rightarrow> bool" where
  "is_tool m \<longleftrightarrow> Role m = RoleTool"

lemma declares_tool [simp]: "is_tool m \<Longrightarrow> declares m = []"
  by (simp add: declares_def is_tool_def)

lemma declares_nonempty [simp]: "[] \<notin> set (declares m)"
  by (simp add: declares_def)

end
