(* ===== verification/Governance.thy ===== *)
theory Governance
  imports Messages Textutil
begin

text \<open>
  Context governance (\<^verbatim>\<open>internal/agent/governance.go\<close>) and the token estimators it uses
  (\<^verbatim>\<open>internal/agent/tokens.go\<close>): the model-facing copy of a transcript is repaired (placeholders,
  malformed calls, orphan results, missing results) and trimmed to the token budget of the model.

  Two things are parameters, gathered in the record \<open>tokenizer\<close>: the cl100k encoder of
  \<^verbatim>\<open>internal/bpe\<close> (whether its vocabulary loads, and the number of tokens of a text or an error),
  and the text \<^verbatim>\<open>encoding/json\<close> writes for a list of tool calls, a content block and a list of
  tool schemas (with its final newline, or an error). The cache of tool token counts is explicit
  state that every function which estimates a request takes and returns. Token counts are
  mathematical integers (they count bytes of texts in memory); the subtraction that makes the
  input budget from configured numbers wraps at 64 bits.
\<close>

section \<open>Token estimation\<close>

record ToolSchema =
  ts_Name :: string
  ts_Description :: string
  ts_Parameters :: string

record tokenizer =
  Available :: bool
  TokenCount :: "string \<Rightarrow> int option"
  Encode_calls :: "ToolCall list \<Rightarrow> string option"
  Encode_block :: "ContentBlock \<Rightarrow> string option"
  Encode_tools :: "ToolSchema list \<Rightarrow> string option"

definition newline :: string where
  "newline = [CHR 0x0A]"

definition joinWithNewline :: "string list \<Rightarrow> string" where
  "joinWithNewline parts = (case parts of [] \<Rightarrow> [] | [p] \<Rightarrow> p | _ \<Rightarrow> Join parts newline)"

text \<open>The encoder's output without its trailing newlines.\<close>

definition marshalCompactNoEscape :: "string option \<Rightarrow> string option" where
  "marshalCompactNoEscape enc =
     map_option (\<lambda>b. rev (dropWhile (\<lambda>c. c = CHR 0x0A) (rev b))) enc"

fun spaced_loop :: "bool \<Rightarrow> bool \<Rightarrow> string \<Rightarrow> string \<Rightarrow> string" where
  "spaced_loop inString escaped out [] = out"
| "spaced_loop inString escaped out (c # b) =
     (if escaped then spaced_loop inString False (out @ [c]) b
      else if c = CHR 0x5C then spaced_loop inString True (out @ [c]) b
      else if c = CHR 0x22 then spaced_loop (\<not> inString) False (out @ [c]) b
      else if \<not> inString \<and> c = CHR '':'' then spaced_loop inString False (out @ [CHR '':'', CHR '' '']) b
      else if \<not> inString \<and> c = CHR '','' then spaced_loop inString False (out @ [CHR '','', CHR '' '']) b
      else spaced_loop inString False (out @ [c]) b)"

definition spacedJSON :: "string \<Rightarrow> string" where
  "spacedJSON b = spaced_loop False False [] b"

definition marshalSpaced :: "string option \<Rightarrow> string option" where
  "marshalSpaced enc = map_option spacedJSON (marshalCompactNoEscape enc)"

text \<open>The cache of the token counts of rendered tool lists: a map and the insertion order.\<close>

definition toolsTokenCacheMaxEntries :: nat where
  "toolsTokenCacheMaxEntries = 64"

record tools_cache =
  toolsTokenCache :: "string \<rightharpoonup> int"
  toolsTokenOrder :: "string list"

definition cache_store :: "tools_cache \<Rightarrow> string \<Rightarrow> int \<Rightarrow> tools_cache" where
  "cache_store c rendered n =
     (if toolsTokenCache c rendered \<noteq> None then c
      else
        let c' = (if toolsTokenCacheMaxEntries \<le> length (toolsTokenOrder c)
                  then c\<lparr>toolsTokenCache := (toolsTokenCache c)(hd (toolsTokenOrder c) := None),
                         toolsTokenOrder := tl (toolsTokenOrder c)\<rparr>
                  else c)
        in c'\<lparr>toolsTokenCache := (toolsTokenCache c')(rendered \<mapsto> n),
              toolsTokenOrder := toolsTokenOrder c' @ [rendered]\<rparr>)"

definition estimateToolsTokens ::
  "tokenizer \<Rightarrow> tools_cache \<Rightarrow> ToolSchema list \<Rightarrow> bool \<Rightarrow> tools_cache \<times> int option" where
  "estimateToolsTokens T c tools leadingSeparator =
     (case marshalSpaced (Encode_tools T tools) of
        None \<Rightarrow> (c, None)
      | Some raw \<Rightarrow>
          let rendered = (if leadingSeparator then newline @ raw else raw) in
          (case toolsTokenCache c rendered of
             Some n \<Rightarrow> (c, Some n)
           | None \<Rightarrow>
               (case TokenCount T rendered of
                  None \<Rightarrow> (c, None)
                | Some n \<Rightarrow> (cache_store c rendered n, Some n))))"

definition nonempty_part :: "string \<Rightarrow> string list" where
  "nonempty_part s = (if s \<noteq> [] then [s] else [])"

definition call_part :: "tokenizer \<Rightarrow> Message \<Rightarrow> string list" where
  "call_part T m =
     (if ToolCalls m \<noteq> []
      then (case marshalSpaced (Encode_calls T (ToolCalls m)) of None \<Rightarrow> [] | Some raw \<Rightarrow> [raw])
      else [])"

definition promptParts :: "tokenizer \<Rightarrow> Message \<Rightarrow> string list" where
  "promptParts T m =
     (if ct_isText (Content m) then [ct_Text (Content m)]
      else map cb_Text (filter (\<lambda>b. cb_Type b = ''text'' \<and> cb_Text b \<noteq> []) (blocks (Content m))))
     @ call_part T m
     @ nonempty_part (ReasoningContent m)
     @ nonempty_part (Name m)
     @ nonempty_part (ToolCallID m)"

definition block_part :: "tokenizer \<Rightarrow> ContentBlock \<Rightarrow> string list" where
  "block_part T b =
     (if cb_Type b = ''text'' then nonempty_part (cb_Text b)
      else (case marshalSpaced (Encode_block T b) of None \<Rightarrow> [] | Some raw \<Rightarrow> [raw]))"

definition messageTokensParts :: "tokenizer \<Rightarrow> Message \<Rightarrow> string list" where
  "messageTokensParts T m =
     (if ct_isText (Content m) then [ct_Text (Content m)]
      else concat (map (block_part T) (blocks (Content m))))
     @ nonempty_part (Name m)
     @ nonempty_part (ToolCallID m)
     @ call_part T m
     @ nonempty_part (ReasoningContent m)"

definition EstimateMessageTokens :: "tokenizer \<Rightarrow> Message \<Rightarrow> int" where
  "EstimateMessageTokens T m =
     (let payload = joinWithNewline (messageTokensParts T m) in
      if payload = [] then 4
      else (case TokenCount T payload of
              Some n \<Rightarrow> max 4 (n + 4)
            | None \<Rightarrow> max 4 (int (length payload) + 4)))"

text \<open>The byte count that is charged when the encoder cannot be used.\<close>

definition heuristic_tokens :: "tokenizer \<Rightarrow> string \<Rightarrow> ToolSchema list \<Rightarrow> int" where
  "heuristic_tokens T messagePayload tools =
     (let toolPayload =
        (if tools \<noteq> []
         then (case marshalSpaced (Encode_tools T tools) of
                 None \<Rightarrow> []
               | Some raw \<Rightarrow> (if messagePayload \<noteq> [] then newline else []) @ raw)
         else [])
      in int (length (messagePayload @ toolPayload)))"

definition estimatePromptTokensWithSource ::
  "tokenizer \<Rightarrow> tools_cache \<Rightarrow> Message list \<Rightarrow> ToolSchema list \<Rightarrow> tools_cache \<times> int \<times> string" where
  "estimatePromptTokensWithSource T c messages tools =
     (let parts = concat (map (promptParts T) messages);
          messagePayload = joinWithNewline parts;
          perMessageOverhead = int (length messages) * 4;
          fallback = (heuristic_tokens T messagePayload tools + perMessageOverhead, ''heuristic'')
      in if Available T then
           (let (c', toolTokens) =
              (if tools \<noteq> [] then estimateToolsTokens T c tools (parts \<noteq> []) else (c, Some 0))
            in case toolTokens of
                 None \<Rightarrow> (c', fallback)
               | Some t \<Rightarrow>
                   (case (if messagePayload \<noteq> [] then TokenCount T messagePayload else Some 0) of
                      None \<Rightarrow> (c', fallback)
                    | Some n \<Rightarrow> (c', n + t + perMessageOverhead, ''tiktoken'')))
         else (c, fallback))"

definition EstimatePromptTokens ::
  "tokenizer \<Rightarrow> tools_cache \<Rightarrow> Message list \<Rightarrow> ToolSchema list \<Rightarrow> tools_cache \<times> int \<times> string" where
  "EstimatePromptTokens T c messages tools = estimatePromptTokensWithSource T c messages tools"

text \<open>
  The chain with a provider's own counter. The counter is a value that may not implement the
  interface (\<open>None\<close>), and its call may panic (an inner \<open>None\<close>).
\<close>

type_synonym provider_counter =
  "Message list \<Rightarrow> ToolSchema list \<Rightarrow> string \<Rightarrow> (int \<times> string) option"

definition tryProviderCounter ::
  "provider_counter \<Rightarrow> Message list \<Rightarrow> ToolSchema list \<Rightarrow> string \<Rightarrow> (int \<times> string) option" where
  "tryProviderCounter counter messages tools model =
     (case counter messages tools model of
        None \<Rightarrow> None
      | Some (tokens, source) \<Rightarrow> if tokens \<le> 0 then None else Some (tokens, source))"

definition EstimatePromptTokensChain ::
  "tokenizer \<Rightarrow> tools_cache \<Rightarrow> provider_counter option \<Rightarrow> string \<Rightarrow> Message list \<Rightarrow> ToolSchema list
   \<Rightarrow> tools_cache \<times> int \<times> string" where
  "EstimatePromptTokensChain T c providerCounter model messages tools =
     (let estimated = (let (c', n, source) = estimatePromptTokensWithSource T c messages tools
                       in if 0 < n then (c', n, source) else (c', 0, ''none''))
      in case providerCounter of
           None \<Rightarrow> estimated
         | Some counter \<Rightarrow>
             (case tryProviderCounter counter messages tools model of
                None \<Rightarrow> estimated
              | Some (tokens, source) \<Rightarrow>
                  (c, tokens, if source = [] then ''provider_counter'' else source)))"

section \<open>History repair\<close>

definition SnipSafetyBuffer :: int where "SnipSafetyBuffer = 1024"
definition defaultMaxOutputTokens :: int where "defaultMaxOutputTokens = 4096"

definition BackfillContent :: string where
  "BackfillContent = ''[Tool result unavailable '' @ [CHR 0xE2, CHR 0x80, CHR 0x94]
     @ '' call was interrupted or lost]''"

definition placeholderTexts :: "string list" where
  "placeholderTexts = [''[Previous assistant message omitted.]'']"

definition toolCallNameIsValid :: "ToolCall \<Rightarrow> bool" where
  "toolCallNameIsValid tc \<longleftrightarrow> tc_Name tc \<noteq> []"

text \<open>
  The repair loops copy the transcript only from the first change on: \<open>out\<close> is empty until then,
  and is started with the messages before the current index.
\<close>

definition is_placeholder :: "Message \<Rightarrow> bool" where
  "is_placeholder m \<longleftrightarrow>
     (let text = (if ct_isText (Content m) then ct_Text (Content m) else [])
      in PyStrip text \<in> set placeholderTexts \<and> ToolCalls m = [])"

fun placeholder_loop :: "Message list \<Rightarrow> nat \<Rightarrow> bool \<Rightarrow> Message list \<Rightarrow> Message list \<Rightarrow> Message list" where
  "placeholder_loop messages i changed out [] = (if changed then out else messages)"
| "placeholder_loop messages i changed out (m # ms) =
     (if Role m \<noteq> RoleAssistant
      then placeholder_loop messages (Suc i) changed (if changed then out @ [m] else out) ms
      else if is_placeholder m
      then placeholder_loop messages (Suc i) True (if changed then out else take i messages) ms
      else placeholder_loop messages (Suc i) changed (if changed then out @ [m] else out) ms)"

definition StripPlaceholderAssistantMessages :: "Message list \<Rightarrow> Message list" where
  "StripPlaceholderAssistantMessages messages = placeholder_loop messages 0 False [] messages"

fun malformed_loop :: "Message list \<Rightarrow> nat \<Rightarrow> bool \<Rightarrow> Message list \<Rightarrow> Message list \<Rightarrow> Message list" where
  "malformed_loop messages i changed out [] = (if changed then out else messages)"
| "malformed_loop messages i changed out (m # ms) =
     (if Role m \<noteq> RoleAssistant \<or> ToolCalls m = []
      then malformed_loop messages (Suc i) changed (if changed then out @ [m] else out) ms
      else
        let kept = filter toolCallNameIsValid (ToolCalls m) in
        if length kept = length (ToolCalls m)
        then malformed_loop messages (Suc i) changed (if changed then out @ [m] else out) ms
        else
          let out = (if changed then out else take i messages) in
          if kept = [] \<and> \<not> messageHasContent m
          then malformed_loop messages (Suc i) True out ms
          else malformed_loop messages (Suc i) True (out @ [m\<lparr>ToolCalls := kept\<rparr>]) ms)"

definition StripMalformedToolCalls :: "Message list \<Rightarrow> Message list" where
  "StripMalformedToolCalls messages = malformed_loop messages 0 False [] messages"

text \<open>The ids that \<^verbatim>\<open>declared[tc.ID] = true\<close> adds for one message.\<close>

definition declare_ids :: "string set \<Rightarrow> Message \<Rightarrow> string set" where
  "declare_ids declared m =
     (if Role m = RoleAssistant
      then fold (\<lambda>tc d. if tc_ID tc \<noteq> [] then insert (tc_ID tc) d else d) (ToolCalls m) declared
      else declared)"

fun orphan_loop ::
  "Message list \<Rightarrow> nat \<Rightarrow> string set \<Rightarrow> string set \<Rightarrow> bool \<Rightarrow> Message list \<Rightarrow> Message list \<Rightarrow> Message list"
where
  "orphan_loop messages i declared fulfilled changed out [] = (if changed then out else messages)"
| "orphan_loop messages i declared fulfilled changed out (m # ms) =
     (let declared = declare_ids declared m;
          callID = ToolCallID m
      in if Role m = RoleTool \<and> (callID = [] \<or> callID \<notin> declared \<or> callID \<in> fulfilled)
         then orphan_loop messages (Suc i) declared fulfilled True
                (if changed then out else take i messages) ms
         else orphan_loop messages (Suc i) declared
                (if Role m = RoleTool then insert callID fulfilled else fulfilled) changed
                (if changed then out @ [m] else out) ms)"

definition DropOrphanToolResults :: "Message list \<Rightarrow> Message list" where
  "DropOrphanToolResults messages = orphan_loop messages 0 {} {} False [] messages"

text \<open>A declared call: the index of its message, its id and its name.\<close>

type_synonym call_decl = "nat \<times> string \<times> string"

fun backfill_scan ::
  "nat \<Rightarrow> call_decl list \<Rightarrow> string set \<Rightarrow> Message list \<Rightarrow> call_decl list \<times> string set" where
  "backfill_scan i declared fulfilled [] = (declared, fulfilled)"
| "backfill_scan i declared fulfilled (m # ms) =
     (if Role m = RoleAssistant
      then backfill_scan (Suc i)
             (declared @ map (\<lambda>tc. (i, tc_ID tc, tc_Name tc)) (filter (\<lambda>tc. tc_ID tc \<noteq> []) (ToolCalls m)))
             fulfilled ms
      else if Role m = RoleTool
      then backfill_scan (Suc i) declared
             (if ToolCallID m \<noteq> [] then insert (ToolCallID m) fulfilled else fulfilled) ms
      else backfill_scan (Suc i) declared fulfilled ms)"

text \<open>Skip past the tool results that already sit at the insertion point.\<close>

function skip_tools :: "Message list \<Rightarrow> nat \<Rightarrow> nat" where
  "skip_tools out insertAt =
     (if insertAt < length out \<and> Role (out ! insertAt) = RoleTool
      then skip_tools out (Suc insertAt) else insertAt)"
  by pat_completeness auto
termination
  by (relation "measure (\<lambda>(out, k). length out - k)") auto

declare skip_tools.simps [simp del]

definition filler :: "string \<Rightarrow> string \<Rightarrow> Message" where
  "filler callID name = (NewMessage RoleTool BackfillContent)\<lparr>ToolCallID := callID, Name := name\<rparr>"

fun backfill_insert :: "Message list \<Rightarrow> nat \<Rightarrow> call_decl list \<Rightarrow> Message list" where
  "backfill_insert out offset [] = out"
| "backfill_insert out offset ((index, callID, name) # missing) =
     (let insertAt = skip_tools out (index + 1 + offset)
      in backfill_insert (take insertAt out @ filler callID name # drop insertAt out)
           (Suc offset) missing)"

definition BackfillMissingToolResults :: "Message list \<Rightarrow> Message list" where
  "BackfillMissingToolResults messages =
     (let (declared, fulfilled) = backfill_scan 0 [] {} messages;
          missing = filter (\<lambda>(index, callID, name). callID \<notin> fulfilled) declared
      in if missing = [] then messages else backfill_insert messages 0 missing)"

definition PrepareForModel :: "Message list \<Rightarrow> Message list" where
  "PrepareForModel messages =
     BackfillMissingToolResults
       (DropOrphanToolResults
         (StripMalformedToolCalls
           (StripPlaceholderAssistantMessages messages)))"

section \<open>Budget\<close>

definition InputBudget :: "int \<Rightarrow> int option \<Rightarrow> int" where
  "InputBudget contextWindowTokens maxTokens =
     (if contextWindowTokens = 0 then 0
      else
        let maxOutput = (case maxTokens of None \<Rightarrow> defaultMaxOutputTokens | Some n \<Rightarrow> n);
            budget = i64 (i64 (contextWindowTokens - maxOutput) - SnipSafetyBuffer)
        in if budget \<le> 0 then 0 else budget)"

fun legal_start_loop :: "nat \<Rightarrow> string set \<Rightarrow> nat \<Rightarrow> Message list \<Rightarrow> nat" where
  "legal_start_loop i declared start [] = start"
| "legal_start_loop i declared start (m # ms) =
     (if Role m = RoleAssistant
      then legal_start_loop (Suc i) (declare_ids declared m) start ms
      else if Role m = RoleTool \<and> ToolCallID m \<noteq> [] \<and> ToolCallID m \<notin> declared
      then legal_start_loop (Suc i) {} (i + 1) ms
      else legal_start_loop (Suc i) declared start ms)"

definition FindLegalMessageStart :: "Message list \<Rightarrow> nat" where
  "FindLegalMessageStart messages = legal_start_loop 0 {} 0 messages"

text \<open>From the last user message: the loop runs down from the end.\<close>

fun user_tail_last :: "Message list \<Rightarrow> nat \<Rightarrow> Message list" where
  "user_tail_last messages 0 = []"
| "user_tail_last messages (Suc i) =
     (if Role (messages ! i) = RoleUser then drop i messages else user_tail_last messages i)"

fun user_tail_first :: "Message list \<Rightarrow> Message list" where
  "user_tail_first [] = []"
| "user_tail_first (m # ms) = (if Role m = RoleUser then m # ms else user_tail_first ms)"

definition userTail :: "Message list \<Rightarrow> bool \<Rightarrow> Message list" where
  "userTail messages lst =
     (if lst then user_tail_last messages (length messages) else user_tail_first messages)"

definition legalHistoryTail :: "Message list \<Rightarrow> Message list \<Rightarrow> Message list" where
  "legalHistoryTail kept nonSystem =
     (let fallback = (if kept = []
                      then (if nonSystem \<noteq> [] then drop (length nonSystem - 1) nonSystem else [])
                      else kept);
          result = userTail kept False;
          result = (if result = [] then userTail nonSystem True else result);
          result = (if result = [] then fallback else result);
          start = FindLegalMessageStart result
      in if 0 < start \<and> start \<le> length result then drop start result else result)"

text \<open>The newest messages first, while they fit; the very newest is always kept.\<close>

fun keep_loop :: "tokenizer \<Rightarrow> int \<Rightarrow> Message list \<Rightarrow> int \<Rightarrow> Message list \<Rightarrow> Message list" where
  "keep_loop T remaining kept keptTokens [] = kept"
| "keep_loop T remaining kept keptTokens (m # ms) =
     (let t = EstimateMessageTokens T m in
      if kept \<noteq> [] \<and> remaining < keptTokens + t then kept
      else keep_loop T remaining (kept @ [m]) (keptTokens + t) ms)"

definition SnipHistory ::
  "tokenizer \<Rightarrow> tools_cache \<Rightarrow> Message list \<Rightarrow> ToolSchema list \<Rightarrow> int \<Rightarrow> int option \<Rightarrow> bool
   \<Rightarrow> tools_cache \<times> Message list" where
  "SnipHistory T c messages tools contextWindowTokens maxTokens force =
     (if messages = [] \<or> contextWindowTokens = 0 then (c, messages)
      else
        let budget = InputBudget contextWindowTokens maxTokens in
        if budget \<le> 0 then (c, messages)
        else
          let (c1, estimate, _) = (if force then (c, 0, []) else EstimatePromptTokens T c messages tools) in
          if \<not> force \<and> estimate \<le> budget then (c1, messages)
          else
            let sys = filter (\<lambda>m. Role m = RoleSystem) messages;
                nonSystem = filter (\<lambda>m. Role m \<noteq> RoleSystem) messages
            in if nonSystem = [] then (c1, messages)
               else
                 let systemTokens = sum_list (map (EstimateMessageTokens T) sys);
                     (c2, fixedTokens, _) = EstimatePromptTokens T c1 sys tools;
                     systemTokens = (if systemTokens < fixedTokens then fixedTokens else systemTokens);
                     remaining = (if budget - systemTokens < 0 then 0 else budget - systemTokens);
                     kept = rev (keep_loop T remaining [] 0 (rev nonSystem))
                 in (c2, sys @ legalHistoryTail kept nonSystem))"

definition RequestPressure ::
  "tokenizer \<Rightarrow> tools_cache \<Rightarrow> Message list \<Rightarrow> ToolSchema list \<Rightarrow> int \<Rightarrow> int option
   \<Rightarrow> tools_cache \<times> int \<times> bool" where
  "RequestPressure T c messages tools contextWindowTokens maxTokens =
     (if contextWindowTokens = 0 then (c, 0, False)
      else
        let budget = InputBudget contextWindowTokens maxTokens;
            (c', measured, _) = EstimatePromptTokens T c messages tools
        in if 0 < budget \<and> measured < budget then (c', measured, False) else (c', measured, True))"

record ContextWindowExceededError =
  cw_SessionKey :: string
  cw_EstimatedTokens :: int
  cw_InputBudget :: int
  cw_Source :: string

definition ContextWindowExceededError_Error :: "ContextWindowExceededError \<Rightarrow> string" where
  "ContextWindowExceededError_Error e =
     (let key = (if cw_SessionKey e = [] then ''default'' else cw_SessionKey e)
      in ''model input still exceeds the local context budget after request fitting for '' @ key
         @ '': '' @ Itoa (cw_EstimatedTokens e) @ ''/'' @ Itoa (cw_InputBudget e) @ '' via '' @ cw_Source e)"

definition EnsureRequestFits ::
  "tokenizer \<Rightarrow> tools_cache \<Rightarrow> Message list \<Rightarrow> ToolSchema list \<Rightarrow> int \<Rightarrow> int option \<Rightarrow> string
   \<Rightarrow> tools_cache \<times> ContextWindowExceededError option" where
  "EnsureRequestFits T c messages tools contextWindowTokens maxTokens sessionKey =
     (if contextWindowTokens = 0 then (c, None)
      else
        let budget = InputBudget contextWindowTokens maxTokens;
            (c', estimated, source) = EstimatePromptTokens T c messages tools
        in if 0 < budget \<and> estimated \<le> budget then (c', None)
           else (c', Some \<lparr>cw_SessionKey = sessionKey, cw_EstimatedTokens = estimated,
                           cw_InputBudget = budget, cw_Source = source\<rparr>))"

definition FitToBudget ::
  "tokenizer \<Rightarrow> tools_cache \<Rightarrow> Message list \<Rightarrow> ToolSchema list \<Rightarrow> int \<Rightarrow> int option \<Rightarrow> string
   \<Rightarrow> tools_cache \<times> (ContextWindowExceededError + Message list)" where
  "FitToBudget T c messages tools contextWindowTokens maxTokens sessionKey =
     (let (c1, updated) = SnipHistory T c messages tools contextWindowTokens maxTokens True;
          updated = DropOrphanToolResults updated;
          updated = BackfillMissingToolResults updated;
          (c2, err) = EnsureRequestFits T c1 updated tools contextWindowTokens maxTokens sessionKey
      in case err of None \<Rightarrow> (c2, Inr updated) | Some e \<Rightarrow> (c2, Inl e))"

end
