(* ===== verification/Governance_Proofs.thy ===== *)
theory Governance_Proofs
  imports Governance
begin

text \<open>
  What context governance guarantees. The three repair loops that copy the transcript lazily
  satisfy one interface (\<open>lazy_copy\<close>), which gives each of them a plain left-to-right
  description; the insertion of synthetic results by index is shown equal to splicing them after
  the results of their turn; from these follow the structural guarantees of
  \<^verbatim>\<open>PrepareForModel\<close>, the exact meaning of \<^verbatim>\<open>FindLegalMessageStart\<close>, the contract of
  \<^verbatim>\<open>FitToBudget\<close>, and that the cache of tool counts is transparent.
\<close>

section \<open>Lazily copying loops\<close>

text \<open>Walk over a list with a state, replacing each element by a list.\<close>

fun walk :: "('s \<Rightarrow> 'a \<Rightarrow> 'a list) \<Rightarrow> ('s \<Rightarrow> 'a \<Rightarrow> 's) \<Rightarrow> 's \<Rightarrow> 'a list \<Rightarrow> 'a list" where
  "walk act upd s [] = []"
| "walk act upd s (m # ms) = act s m @ walk act upd (upd s m) ms"

locale lazy_copy =
  fixes loop :: "'a list \<Rightarrow> nat \<Rightarrow> 's \<Rightarrow> bool \<Rightarrow> 'a list \<Rightarrow> 'a list \<Rightarrow> 'a list"
    and act :: "'s \<Rightarrow> 'a \<Rightarrow> 'a list"
    and upd :: "'s \<Rightarrow> 'a \<Rightarrow> 's"
  assumes loop_done: "loop messages i s changed out [] = (if changed then out else messages)"
    and loop_keep: "act s m = [m] \<Longrightarrow>
      loop messages i s changed out (m # ms)
      = loop messages (Suc i) (upd s m) changed (if changed then out @ [m] else out) ms"
    and loop_change: "act s m \<noteq> [m] \<Longrightarrow>
      loop messages i s changed out (m # ms)
      = loop messages (Suc i) (upd s m) True ((if changed then out else take i messages) @ act s m) ms"
begin

lemma loop_walk_changed:
  "loop messages i s True out ms = out @ walk act upd s ms"
proof (induction ms arbitrary: i s out)
  case Nil
  then show ?case by (simp add: loop_done)
next
  case (Cons m ms)
  then show ?case by (cases "act s m = [m]") (simp_all add: loop_keep loop_change)
qed

lemma loop_walk_unchanged:
  "messages = pre @ ms \<Longrightarrow> loop messages (length pre) s False [] ms = pre @ walk act upd s ms"
proof (induction ms arbitrary: pre s)
  case Nil
  then show ?case by (simp add: loop_done)
next
  case (Cons m ms)
  show ?case
  proof (cases "act s m = [m]")
    case True
    then show ?thesis using Cons.IH [of "pre @ [m]" "upd s m"] Cons.prems by (simp add: loop_keep)
  next
    case False
    then show ?thesis using Cons.prems by (simp add: loop_change loop_walk_changed)
  qed
qed

theorem loop_walk: "loop messages 0 s False [] messages = walk act upd s messages"
  using loop_walk_unchanged [of messages "[]" messages s] by simp

end

definition placeholder_act :: "unit \<Rightarrow> Message \<Rightarrow> Message list" where
  "placeholder_act s m = (if Role m = RoleAssistant \<and> is_placeholder m then [] else [m])"

interpretation placeholder: lazy_copy
  "\<lambda>messages i (s :: unit) changed out ms. placeholder_loop messages i changed out ms"
  placeholder_act "\<lambda>s m. s"
  by unfold_locales (auto simp: placeholder_act_def split: if_splits)

definition malformed_act :: "unit \<Rightarrow> Message \<Rightarrow> Message list" where
  "malformed_act s m =
     (let kept = filter toolCallNameIsValid (ToolCalls m) in
      if Role m \<noteq> RoleAssistant \<or> kept = ToolCalls m then [m]
      else if kept = [] \<and> \<not> messageHasContent m then []
      else [m\<lparr>ToolCalls := kept\<rparr>])"

lemma length_filter_eq_iff: "length (filter P xs) = length xs \<longleftrightarrow> filter P xs = xs"
  by (metis filter_True length_filter_less less_irrefl)

lemma ToolCalls_update_same: "m\<lparr>ToolCalls := cs\<rparr> = m \<longleftrightarrow> ToolCalls m = cs"
  by (cases m) auto

interpretation malformed: lazy_copy
  "\<lambda>messages i (s :: unit) changed out ms. malformed_loop messages i changed out ms"
  malformed_act "\<lambda>s m. s"
  by unfold_locales
    (auto simp: malformed_act_def Let_def length_filter_eq_iff ToolCalls_update_same split: if_splits)

definition orphan_act :: "string set \<times> string set \<Rightarrow> Message \<Rightarrow> Message list" where
  "orphan_act s m =
     (if is_tool m \<and> (ToolCallID m = [] \<or> ToolCallID m \<notin> fst s \<or> ToolCallID m \<in> snd s) then [] else [m])"

definition orphan_upd :: "string set \<times> string set \<Rightarrow> Message \<Rightarrow> string set \<times> string set" where
  "orphan_upd s m =
     (fst s \<union> set (declares m),
      if is_tool m \<and> orphan_act s m = [m] then insert (ToolCallID m) (snd s) else snd s)"

lemma fold_insert_ids:
  "fold (\<lambda>tc d. if tc_ID tc \<noteq> [] then insert (tc_ID tc) d else d) cs D
   = D \<union> set (filter (\<lambda>i. i \<noteq> []) (map tc_ID cs))"
  by (induction cs arbitrary: D) auto

lemma declare_ids_eq [simp]: "declare_ids D m = D \<union> set (declares m)"
  by (simp only: declare_ids_def declares_def fold_insert_ids) simp

interpretation orphan: lazy_copy
  "\<lambda>messages i s changed out ms. orphan_loop messages i (fst s) (snd s) changed out ms"
  orphan_act orphan_upd
  by unfold_locales (auto simp: orphan_act_def orphan_upd_def Let_def is_tool_def split: if_splits)

lemma walk_filter: "(\<And>m. act s m = (if P m then [m] else [])) \<Longrightarrow> walk act (\<lambda>s m. s) s ms = filter P ms"
  by (induction ms) auto

lemma StripPlaceholder_eq:
  "StripPlaceholderAssistantMessages ms
   = filter (\<lambda>m. \<not> (Role m = RoleAssistant \<and> is_placeholder m)) ms"
  unfolding StripPlaceholderAssistantMessages_def placeholder.loop_walk [of _ "()"]
  by (rule walk_filter) (simp add: placeholder_act_def)

lemma StripMalformed_eq: "StripMalformedToolCalls ms = concat (map (malformed_act ()) ms)"
proof -
  have "walk malformed_act (\<lambda>s m. s) () ms = concat (map (malformed_act ()) ms)"
    by (induction ms) auto
  then show ?thesis by (simp add: StripMalformedToolCalls_def malformed.loop_walk [of _ "()"])
qed

lemma DropOrphan_eq: "DropOrphanToolResults ms = walk orphan_act orphan_upd ({}, {}) ms"
  using orphan.loop_walk [of ms "({}, {})"] by (simp add: DropOrphanToolResults_def)

section \<open>Backfilling by splicing\<close>

text \<open>The ids of the tool results, and the calls of a turn that have none.\<close>

definition result_ids :: "Message list \<Rightarrow> string set" where
  "result_ids ms = ToolCallID ` {m \<in> set ms. is_tool m} - {[]}"

definition open_calls :: "string set \<Rightarrow> Message \<Rightarrow> ToolCall list" where
  "open_calls F m =
     (if Role m = RoleAssistant then filter (\<lambda>tc. tc_ID tc \<noteq> [] \<and> tc_ID tc \<notin> F) (ToolCalls m) else [])"

definition fill :: "ToolCall \<Rightarrow> Message" where
  "fill tc = filler (tc_ID tc) (tc_Name tc)"

text \<open>
  The reference: after the run of tool results that follows an assistant turn come the synthetic
  results of its open calls, in the order of the calls.
\<close>

function backfill_splice :: "string set \<Rightarrow> Message list \<Rightarrow> Message list" where
  "backfill_splice F [] = []"
| "backfill_splice F (m # ms) =
     m # takeWhile is_tool ms @ map fill (open_calls F m) @ backfill_splice F (dropWhile is_tool ms)"
  by pat_completeness auto
termination
  by (relation "measure (\<lambda>(F, ms). length ms)") (auto simp: le_imp_less_Suc length_dropWhile_le)

lemma is_tool_fill [simp]: "is_tool (fill tc)" and ToolCallID_fill [simp]: "ToolCallID (fill tc) = tc_ID tc"
  by (simp_all add: fill_def filler_def is_tool_def)

lemma open_calls_tool [simp]: "is_tool m \<Longrightarrow> open_calls F m = []"
  by (simp add: open_calls_def is_tool_def)

fun open_decls :: "nat \<Rightarrow> string set \<Rightarrow> Message list \<Rightarrow> call_decl list" where
  "open_decls i F [] = []"
| "open_decls i F (m # ms) =
     map (\<lambda>tc. (i, tc_ID tc, tc_Name tc)) (open_calls F m) @ open_decls (Suc i) F ms"

lemma result_ids_simps [simp]:
  "result_ids [] = {}"
  "result_ids (m # ms) = (if is_tool m \<and> ToolCallID m \<noteq> [] then {ToolCallID m} else {}) \<union> result_ids ms"
  by (auto simp: result_ids_def)

lemma backfill_scan_eq:
  "backfill_scan i D F ms = (D @ open_decls i {} ms, F \<union> result_ids ms)"
  by (induction ms arbitrary: i D F) (auto simp: open_calls_def is_tool_def)

lemma filter_open_decls:
  "filter (\<lambda>(index, callID, name). callID \<notin> F) (open_decls i {} ms) = open_decls i F ms"
  by (induction ms arbitrary: i) (auto simp: open_calls_def filter_map comp_def intro: arg_cong)

lemma open_decls_append: "open_decls i F (xs @ ys) = open_decls i F xs @ open_decls (i + length xs) F ys"
  by (induction xs arbitrary: i) auto

lemma open_decls_tools: "list_all is_tool xs \<Longrightarrow> open_decls i F xs = []"
  by (induction xs arbitrary: i) auto

lemma skip_tools_eq:
  assumes "list_all is_tool ts" "rest = [] \<or> \<not> is_tool (hd rest)" "length pre \<le> k" "k \<le> length (pre @ ts)"
  shows "skip_tools (pre @ ts @ rest) k = length (pre @ ts)"
  using assms(3,4)
proof (induction "length (pre @ ts) - k" arbitrary: k)
  case 0
  then have k: "k = length (pre @ ts)" by simp
  with assms(2) show ?case by (subst skip_tools.simps) (cases rest, auto simp: is_tool_def nth_append)
next
  case (Suc n)
  then have "k < length (pre @ ts)" by simp
  moreover from this Suc.prems have "Role ((pre @ ts @ rest) ! k) = RoleTool"
    using assms(1) by (auto simp: nth_append list_all_length is_tool_def)
  ultimately show ?case using Suc by (subst skip_tools.simps) auto
qed

lemma backfill_insert_same:
  assumes "list_all is_tool ts" "rest = [] \<or> \<not> is_tool (hd rest)" "length pre = i + off" "off \<le> off'"
    and "off' \<le> off + length ts"
  shows "backfill_insert (pre @ m # ts @ rest) off' (map (\<lambda>tc. (i, tc_ID tc, tc_Name tc)) cs @ ds)
    = backfill_insert (pre @ m # ts @ map fill cs @ rest) (off' + length cs) ds"
  using assms
proof (induction cs arbitrary: ts off')
  case Nil
  then show ?case by simp
next
  case (Cons c cs)
  have "skip_tools ((pre @ [m]) @ ts @ rest) (i + 1 + off') = length ((pre @ [m]) @ ts)"
    by (rule skip_tools_eq) (use Cons.prems in auto)
  with Cons.IH [of "ts @ [fill c]" "Suc off'"] Cons.prems show ?case
    by (simp add: fill_def is_tool_def filler_def)
qed

lemma hd_dropWhile_tools: "dropWhile is_tool ms = [] \<or> \<not> is_tool (hd (dropWhile is_tool ms))"
  by (cases "dropWhile is_tool ms = []") (simp_all add: hd_dropWhile)

lemma backfill_insert_splice:
  "length pre = i + off \<Longrightarrow>
   backfill_insert (pre @ ms) off (open_decls i F ms) = pre @ backfill_splice F ms"
proof (induction F ms arbitrary: pre i off rule: backfill_splice.induct)
  case (1 F)
  then show ?case by simp
next
  case (2 F m ms)
  let ?t = "takeWhile is_tool ms" and ?d = "dropWhile is_tool ms" and ?o = "open_calls F m"
  have t: "list_all is_tool ?t" by (auto simp: list_all_iff dest: set_takeWhileD)
  have "open_decls i F (m # ms)
      = map (\<lambda>tc. (i, tc_ID tc, tc_Name tc)) ?o @ open_decls (Suc i + length ?t) F ?d"
    using open_decls_append [of "Suc i" F ?t ?d] open_decls_tools [OF t] by simp
  moreover have "backfill_insert (pre @ m # ?t @ ?d) off
      (map (\<lambda>tc. (i, tc_ID tc, tc_Name tc)) ?o @ open_decls (Suc i + length ?t) F ?d)
    = backfill_insert (pre @ m # ?t @ map fill ?o @ ?d) (off + length ?o) (open_decls (Suc i + length ?t) F ?d)"
    by (rule backfill_insert_same [OF t hd_dropWhile_tools \<open>length pre = i + off\<close>]) auto
  moreover have "backfill_insert ((pre @ m # ?t @ map fill ?o) @ ?d) (off + length ?o)
      (open_decls (Suc i + length ?t) F ?d)
    = (pre @ m # ?t @ map fill ?o) @ backfill_splice F ?d"
    using "2.prems" by (intro "2.IH") simp
  ultimately show ?case by simp
qed

lemma Backfill_splice: "BackfillMissingToolResults ms = backfill_splice (result_ids ms) ms"
proof -
  have "backfill_insert ms 0 (open_decls 0 (result_ids ms) ms) = backfill_splice (result_ids ms) ms"
    using backfill_insert_splice [of "[]" 0 0 ms] by simp
  then show ?thesis
    by (auto simp: BackfillMissingToolResults_def backfill_scan_eq filter_open_decls Let_def)
qed

section \<open>Well-paired transcripts\<close>

text \<open>
  \<open>legal D ms\<close>: every tool result with an id was declared by an earlier turn of \<open>ms\<close> or is
  in \<open>D\<close>.
\<close>

fun legal :: "string set \<Rightarrow> Message list \<Rightarrow> bool" where
  "legal D [] \<longleftrightarrow> True"
| "legal D (m # ms) \<longleftrightarrow>
     (is_tool m \<longrightarrow> ToolCallID m = [] \<or> ToolCallID m \<in> D) \<and> legal (D \<union> set (declares m)) ms"

definition declared_ids :: "Message list \<Rightarrow> string list" where
  "declared_ids ms = concat (map declares ms)"

definition answers :: "Message list \<Rightarrow> string list" where
  "answers ms = map ToolCallID (filter is_tool ms)"

lemma declared_ids_simps [simp]:
  "declared_ids [] = []" "declared_ids (m # ms) = declares m @ declared_ids ms"
  "declared_ids (xs @ ys) = declared_ids xs @ declared_ids ys"
  by (simp_all add: declared_ids_def)

lemma answers_simps [simp]:
  "answers [] = []" "answers (m # ms) = (if is_tool m then [ToolCallID m] else []) @ answers ms"
  "answers (xs @ ys) = answers xs @ answers ys"
  by (simp_all add: answers_def)

lemma result_ids_answers: "result_ids ms = set (answers ms) - {[]}"
  by (auto simp: result_ids_def answers_def)

lemma legal_append: "legal D (xs @ ys) \<longleftrightarrow> legal D xs \<and> legal (D \<union> set (declared_ids xs)) ys"
  by (induction xs arbitrary: D) (auto simp: Un_assoc)

lemma legal_mono: "legal D ms \<Longrightarrow> D \<subseteq> E \<Longrightarrow> legal E ms"
proof (induction ms arbitrary: D E)
  case (Cons m ms)
  then show ?case using Cons.IH [of "D \<union> set (declares m)" "E \<union> set (declares m)"] by auto
qed simp

lemma legal_tools: "list_all is_tool ms \<Longrightarrow> legal D ms \<longleftrightarrow> set (answers ms) \<subseteq> insert [] D"
  by (induction ms arbitrary: D) auto

lemma legal_nth:
  "legal D ms \<Longrightarrow> j < length ms \<Longrightarrow> is_tool (ms ! j) \<Longrightarrow> ToolCallID (ms ! j) \<noteq> [] \<Longrightarrow>
   ToolCallID (ms ! j) \<in> D \<or> (\<exists>i < j. ToolCallID (ms ! j) \<in> set (declares (ms ! i)))"
proof (induction ms arbitrary: D j)
  case (Cons m ms)
  show ?case
  proof (cases j)
    case (Suc k)
    with Cons.prems Cons.IH [of "D \<union> set (declares m)" k]
    have "ToolCallID (ms ! k) \<in> D \<union> set (declares m)
        \<or> (\<exists>i < k. ToolCallID (ms ! k) \<in> set (declares (ms ! i)))" by simp
    with Suc show ?thesis by (auto intro: exI [of _ 0] exI [of _ "Suc _"])
  qed (use Cons.prems in auto)
qed simp

subsection \<open>The repair steps\<close>

lemma declared_tools [simp]: "list_all is_tool ms \<Longrightarrow> declared_ids ms = []"
  by (induction ms) auto

lemma declared_takeWhile [simp]: "declared_ids (takeWhile is_tool ms) = []"
  by (rule declared_tools) (auto simp: list_all_iff dest: set_takeWhileD)

lemma tools_map_fill [simp]: "list_all is_tool (map fill cs)"
  by (simp add: list_all_iff)

lemma declared_dropWhile [simp]: "declared_ids (dropWhile is_tool ms) = declared_ids ms"
  by (metis append_Nil declared_ids_simps(3) declared_takeWhile takeWhile_dropWhile_id)

lemma declared_splice [simp]: "declared_ids (backfill_splice F ms) = declared_ids ms"
  by (induction F ms rule: backfill_splice.induct) simp_all

lemma open_ids: "map tc_ID (open_calls F m) = filter (\<lambda>i. i \<notin> F) (declares m)"
  by (auto simp: open_calls_def declares_def filter_map comp_def conj_commute intro: arg_cong)

lemma answers_fill [simp]: "answers (map fill cs) = map tc_ID cs"
  by (induction cs) auto

lemma answers_split: "answers ms = answers (takeWhile is_tool ms) @ answers (dropWhile is_tool ms)"
  by (metis answers_simps(3) takeWhile_dropWhile_id)

lemma answers_splice:
  "mset (answers (backfill_splice F ms)) = mset (answers ms) + mset (filter (\<lambda>i. i \<notin> F) (declared_ids ms))"
proof (induction F ms rule: backfill_splice.induct)
  case (2 F m ms)
  then show ?case by (simp add: open_ids answers_split [of ms])
qed simp

lemma legal_splice: "legal D ms \<Longrightarrow> legal D (backfill_splice F ms)"
proof (induction F ms arbitrary: D rule: backfill_splice.induct)
  case (2 F m ms)
  let ?E = "D \<union> set (declares m)"
  have "legal ?E (takeWhile is_tool ms @ dropWhile is_tool ms)" using "2.prems" by simp
  then have "legal ?E (takeWhile is_tool ms)" "legal ?E (dropWhile is_tool ms)"
    by (simp_all add: legal_append del: takeWhile_dropWhile_id)
  moreover have "legal ?E (map fill (open_calls F m))"
    using open_ids [of F m] by (auto simp: legal_tools simp flip: set_map)
  ultimately show ?case
    using "2.prems" "2.IH" [of ?E] by (simp add: legal_append)
qed simp

lemma filter_splice: "(\<And>m. is_tool m \<Longrightarrow> \<not> P m) \<Longrightarrow> filter P (backfill_splice F ms) = filter P ms"
proof (induction F ms rule: backfill_splice.induct)
  case (2 F m ms)
  have "filter P ms = filter P (takeWhile is_tool ms) @ filter P (dropWhile is_tool ms)"
    by (metis filter_append takeWhile_dropWhile_id)
  with 2 show ?case by (auto simp: filter_empty_conv dest: set_takeWhileD)
qed simp

lemma set_splice: "set (backfill_splice F ms) \<subseteq> set ms \<union> range fill"
proof (induction F ms rule: backfill_splice.induct)
  case (2 F m ms)
  then show ?case by (auto dest: set_takeWhileD set_dropWhileD)
qed simp

lemma orphan_upd_simps [simp]:
  "fst (orphan_upd s m) = fst s \<union> set (declares m)"
  by (simp add: orphan_upd_def)

lemma legal_orphan: "legal (fst s) (walk orphan_act orphan_upd s ms)"
proof (induction ms arbitrary: s)
  case (Cons m ms)
  have "legal (fst s \<union> set (declares m)) (walk orphan_act orphan_upd (orphan_upd s m) ms)"
    using Cons.IH [of "orphan_upd s m"] by simp
  then show ?case by (auto simp: orphan_act_def [of s m])
qed simp

lemma answers_orphan:
  "distinct (answers (walk orphan_act orphan_upd s ms))
   \<and> set (answers (walk orphan_act orphan_upd s ms)) \<inter> insert [] (snd s) = {}"
proof (induction ms arbitrary: s)
  case (Cons m ms)
  show ?case using Cons.IH [of "orphan_upd s m"]
    by (auto simp: orphan_act_def orphan_upd_def split: if_splits)
qed simp

lemma declared_orphan: "declared_ids (walk orphan_act orphan_upd s ms) = declared_ids ms"
  by (induction ms arbitrary: s) (simp_all add: orphan_act_def)

lemma filter_orphan:
  "(\<And>m. is_tool m \<Longrightarrow> \<not> P m) \<Longrightarrow> filter P (walk orphan_act orphan_upd s ms) = filter P ms"
  by (induction ms arbitrary: s) (auto simp: orphan_act_def)

lemma set_orphan: "set (walk orphan_act orphan_upd s ms) \<subseteq> set ms"
proof (induction ms arbitrary: s)
  case (Cons m ms)
  show ?case using Cons.IH [of "orphan_upd s m"] by (auto simp: orphan_act_def [of s m] split: if_splits)
qed simp

lemma malformed_keeps:
  assumes "\<And>m. Role m = RoleAssistant \<Longrightarrow> \<not> P m"
  shows "filter P (StripMalformedToolCalls ms) = filter P ms"
proof -
  have "filter P (malformed_act () m) = filter P [m]" for m
    using assms [of m] assms [of "m\<lparr>ToolCalls := filter toolCallNameIsValid (ToolCalls m)\<rparr>"]
    by (auto simp: malformed_act_def Let_def)
  then show ?thesis unfolding StripMalformed_eq by (induction ms) (simp_all del: filter.simps(2), simp)
qed

lemma malformed_valid_names:
  "m \<in> set (StripMalformedToolCalls ms) \<Longrightarrow> Role m = RoleAssistant \<Longrightarrow> list_all toolCallNameIsValid (ToolCalls m)"
  unfolding StripMalformed_eq
  by (auto simp: malformed_act_def Let_def list_all_iff filter_eq_self_iff split: if_splits)

lemma declares_malformed:
  "declared_ids (StripMalformedToolCalls ms)
   = concat (map (\<lambda>m. if Role m = RoleAssistant
        then filter (\<lambda>i. i \<noteq> []) (map tc_ID (filter toolCallNameIsValid (ToolCalls m))) else []) ms)"
proof -
  have "declared_ids (malformed_act () m) = (if Role m = RoleAssistant
      then filter (\<lambda>i. i \<noteq> []) (map tc_ID (filter toolCallNameIsValid (ToolCalls m))) else [])" for m
    by (auto simp: malformed_act_def Let_def declares_def)
  then show ?thesis unfolding StripMalformed_eq by (induction ms) (simp_all del: declared_ids_simps(2))
qed

lemma subseq_distinct: "subseq xs ys \<Longrightarrow> distinct ys \<Longrightarrow> distinct xs"
  by (auto simp: subseq_conv_nths intro: distinct_nthsI)

lemma subseq_declared_malformed: "subseq (declared_ids (StripMalformedToolCalls ms)) (declared_ids ms)"
proof -
  have "subseq (filter (\<lambda>i. i \<noteq> []) (map tc_ID (filter toolCallNameIsValid cs)))
      (filter (\<lambda>i. i \<noteq> []) (map tc_ID cs))" for cs
    by (intro subseq_filter subseq_map subseq_filter_left)
  then show ?thesis
    unfolding declares_malformed by (induction ms) (simp_all add: declares_def list_emb_append_mono)
qed

lemma declared_placeholder: "declared_ids (StripPlaceholderAssistantMessages ms) = declared_ids ms"
  unfolding StripPlaceholder_eq
  by (induction ms) (auto simp: is_placeholder_def declares_def Let_def)

lemma DropOrphan_props:
  "legal {} (DropOrphanToolResults ms)" "distinct (answers (DropOrphanToolResults ms))"
  "[] \<notin> set (answers (DropOrphanToolResults ms))"
  "declared_ids (DropOrphanToolResults ms) = declared_ids ms"
  using legal_orphan [of "({}, {})" ms] answers_orphan [of "({}, {})" ms]
  by (auto simp: DropOrphan_eq declared_orphan)

lemma legal_answers: "legal D ms \<Longrightarrow> set (answers ms) \<subseteq> insert [] D \<union> set (declared_ids ms)"
proof (induction ms arbitrary: D)
  case (Cons m ms)
  then show ?case using Cons.IH [of "D \<union> set (declares m)"] by auto
qed simp

text \<open>After dropping orphans and backfilling, calls and results are in one-to-one correspondence.\<close>

lemma repair_pairs:
  fixes ms
  defines "out \<equiv> BackfillMissingToolResults (DropOrphanToolResults ms)"
  shows "legal {} out" "[] \<notin> set (answers out)" "declared_ids out = declared_ids ms"
    "set (answers out) = set (declared_ids out)"
    "distinct (declared_ids ms) \<Longrightarrow> mset (answers out) = mset (declared_ids out)"
proof -
  let ?d = "DropOrphanToolResults ms"
  let ?F = "result_ids ?d"
  note d = DropOrphan_props [of ms]
  have out: "out = backfill_splice ?F ?d" by (simp add: out_def Backfill_splice)
  have F: "?F = set (answers ?d)" using d(3) by (auto simp: result_ids_answers)
  show "legal {} out" unfolding out by (rule legal_splice) (rule d)
  show decl: "declared_ids out = declared_ids ms" by (simp add: out d)
  have m: "mset (answers out) = mset (answers ?d) + mset (filter (\<lambda>i. i \<notin> ?F) (declared_ids ms))"
    using answers_splice [of ?F ?d] by (simp add: out d)
  have ne: "[] \<notin> set (declared_ids ms)" by (auto simp: declared_ids_def)
  have "set (answers out) = set (answers ?d) \<union> (set (declared_ids ms) - ?F)"
    using arg_cong [OF m, of set_mset] by auto
  moreover have "set (answers ?d) \<subseteq> set (declared_ids ms)"
    using legal_answers [OF d(1)] d(3,4) by auto
  ultimately show s: "set (answers out) = set (declared_ids out)" using F decl by auto
  then show "[] \<notin> set (answers out)" using ne decl by simp
  assume dist: "distinct (declared_ids ms)"
  have "distinct (answers ?d @ filter (\<lambda>i. i \<notin> ?F) (declared_ids ms))" using d(2) dist F by auto
  then have "distinct (answers out)" using m by (metis mset_append mset_eq_imp_distinct_iff)
  with s dist decl show "mset (answers out) = mset (declared_ids out)"
    by (simp add: set_eq_iff_mset_eq_distinct)
qed

lemma repair_keeps:
  "(\<And>m. is_tool m \<Longrightarrow> \<not> P m) \<Longrightarrow>
   filter P (BackfillMissingToolResults (DropOrphanToolResults ms)) = filter P ms"
  by (simp add: Backfill_splice DropOrphan_eq filter_splice filter_orphan)

section \<open>The legal start\<close>

lemma legal_prefix: "legal D (xs @ ys) \<Longrightarrow> legal D xs"
  by (simp add: legal_append)

lemma legal_start_loop_least:
  assumes "start \<le> length pre" "D = set (declared_ids (drop start pre))" "legal {} (drop start pre)"
    and "\<And>k. k < start \<Longrightarrow> \<not> legal {} (drop k pre)"
  shows "legal_start_loop (length pre) D start ms \<le> length (pre @ ms)
    \<and> legal {} (drop (legal_start_loop (length pre) D start ms) (pre @ ms))
    \<and> (\<forall>k < legal_start_loop (length pre) D start ms. \<not> legal {} (drop k (pre @ ms)))"
  using assms
proof (induction ms arbitrary: pre D start)
  case Nil
  then show ?case by simp
next
  case (Cons m ms)
  have keep: "\<not> legal {} (drop k (pre @ [m]))" if "k < start" for k
    using Cons.prems(1,4) that legal_prefix by fastforce
  have drop_snoc: "drop k (pre @ [m]) = drop k pre @ [m]" if "k \<le> length pre" for k
    using that by simp
  show ?case
  proof (cases "is_tool m \<and> ToolCallID m \<noteq> [] \<and> ToolCallID m \<notin> D")
    case True
    have "\<not> legal {} (drop k (pre @ [m]))" if "k < Suc (length pre)" for k
    proof (cases "k < start")
      case False
      have "drop k pre = drop (k - start) (drop start pre)" using False by simp
      then have "set (declared_ids (drop k pre)) \<subseteq> D"
        unfolding Cons.prems(2) declared_ids_def by (metis concat_append le_sup_iff map_append
            append_take_drop_id order_refl set_append)
      then show ?thesis using True that by (auto simp: drop_snoc legal_append)
    qed (rule keep)
    then have "legal_start_loop (length (pre @ [m])) {} (Suc (length pre)) ms \<le> length ((pre @ [m]) @ ms)
      \<and> legal {} (drop (legal_start_loop (length (pre @ [m])) {} (Suc (length pre)) ms) ((pre @ [m]) @ ms))
      \<and> (\<forall>k < legal_start_loop (length (pre @ [m])) {} (Suc (length pre)) ms.
            \<not> legal {} (drop k ((pre @ [m]) @ ms)))"
      by (intro Cons.IH) simp_all
    with True show ?thesis by (simp add: is_tool_def)
  next
    case False
    let ?D = "D \<union> set (declares m)"
    have "legal_start_loop (length (pre @ [m])) ?D start ms \<le> length ((pre @ [m]) @ ms)
      \<and> legal {} (drop (legal_start_loop (length (pre @ [m])) ?D start ms) ((pre @ [m]) @ ms))
      \<and> (\<forall>k < legal_start_loop (length (pre @ [m])) ?D start ms. \<not> legal {} (drop k ((pre @ [m]) @ ms)))"
      using Cons.prems False by (intro Cons.IH keep) (auto simp: drop_snoc legal_append)
    moreover have "legal_start_loop (length pre) D start (m # ms)
        = legal_start_loop (length (pre @ [m])) ?D start ms"
      using False by (auto simp: is_tool_def declares_def)
    ultimately show ?thesis by simp
  qed
qed

lemma FindLegal_least:
  "FindLegalMessageStart ms \<le> length ms \<and> legal {} (drop (FindLegalMessageStart ms) ms)
   \<and> (\<forall>k < FindLegalMessageStart ms. \<not> legal {} (drop k ms))"
  using legal_start_loop_least [of 0 "[]" "{}" ms] by (simp add: FindLegalMessageStart_def)

section \<open>The cache of tool counts\<close>

definition empty_cache :: tools_cache where
  "empty_cache = \<lparr>toolsTokenCache = Map.empty, toolsTokenOrder = []\<rparr>"

text \<open>
  The cache as a state machine. The lock is released between the lookup and the insertion, so an
  insertion may find any cache that other requests have left behind: a step stores the right
  count of some text.
\<close>

inductive cache_reach :: "tokenizer \<Rightarrow> tools_cache \<Rightarrow> bool" for T where
  init: "cache_reach T empty_cache"
| store: "cache_reach T c \<Longrightarrow> TokenCount T rendered = Some n \<Longrightarrow> cache_reach T (cache_store c rendered n)"

definition cache_ok :: "tokenizer \<Rightarrow> tools_cache \<Rightarrow> bool" where
  "cache_ok T c \<longleftrightarrow>
     (\<forall>r n. toolsTokenCache c r = Some n \<longrightarrow> TokenCount T r = Some n)
     \<and> dom (toolsTokenCache c) = set (toolsTokenOrder c) \<and> distinct (toolsTokenOrder c)
     \<and> length (toolsTokenOrder c) \<le> toolsTokenCacheMaxEntries"

lemma cache_ok_store: "cache_ok T c \<Longrightarrow> TokenCount T r = Some n \<Longrightarrow> cache_ok T (cache_store c r n)"
proof (cases "toolsTokenCache c r")
  case None
  assume ok: "cache_ok T c" and n: "TokenCount T r = Some n"
  have r: "r \<notin> set (toolsTokenOrder c)" using None ok by (auto simp: cache_ok_def)
  show ?thesis
  proof (cases "toolsTokenCacheMaxEntries \<le> length (toolsTokenOrder c)")
    case True
    then obtain x xs where x: "toolsTokenOrder c = x # xs"
      by (cases "toolsTokenOrder c") (auto simp: toolsTokenCacheMaxEntries_def)
    with True None ok n r show ?thesis by (auto simp: cache_ok_def cache_store_def Let_def)
  next
    case False
    with None ok n r show ?thesis by (auto simp: cache_ok_def cache_store_def Let_def)
  qed
qed (simp add: cache_store_def)

lemma cache_reach_ok: "cache_reach T c \<Longrightarrow> cache_ok T c"
  by (induction rule: cache_reach.induct) (auto simp: cache_ok_store, simp add: cache_ok_def empty_cache_def)

text \<open>The count without a cache.\<close>

definition tools_tokens :: "tokenizer \<Rightarrow> ToolSchema list \<Rightarrow> bool \<Rightarrow> int option" where
  "tools_tokens T tools lead =
     (case marshalSpaced (Encode_tools T tools) of
        None \<Rightarrow> None
      | Some raw \<Rightarrow> TokenCount T (if lead then newline @ raw else raw))"

lemma estimateTools_reach:
  assumes "cache_reach T c"
  shows "cache_reach T (fst (estimateToolsTokens T c tools lead))
    \<and> snd (estimateToolsTokens T c tools lead) = tools_tokens T tools lead"
  using assms cache_reach_ok [OF assms] cache_reach.store [OF assms]
  by (auto simp: estimateToolsTokens_def tools_tokens_def cache_ok_def Let_def split: option.split)

definition prompt_tokens :: "tokenizer \<Rightarrow> Message list \<Rightarrow> ToolSchema list \<Rightarrow> int \<times> string" where
  "prompt_tokens T messages tools = snd (EstimatePromptTokens T empty_cache messages tools)"

text \<open>The estimate as a function of the count of the tools.\<close>

definition prompt_result ::
  "tokenizer \<Rightarrow> Message list \<Rightarrow> ToolSchema list \<Rightarrow> int option \<Rightarrow> int \<times> string" where
  "prompt_result T messages tools toolTokens =
     (let payload = joinWithNewline (concat (map (promptParts T) messages));
          overhead = int (length messages) * 4
      in case (toolTokens, if payload \<noteq> [] then TokenCount T payload else Some 0) of
           (Some t, Some n) \<Rightarrow> (n + t + overhead, ''tiktoken'')
         | _ \<Rightarrow> (heuristic_tokens T payload tools + overhead, ''heuristic''))"

lemma EstimatePrompt_result:
  "EstimatePromptTokens T c messages tools =
     (if Available T
      then (let x = (if tools \<noteq> []
                     then estimateToolsTokens T c tools (concat (map (promptParts T) messages) \<noteq> [])
                     else (c, Some 0))
            in (fst x, prompt_result T messages tools (snd x)))
      else (c, prompt_result T messages tools None))"
  unfolding EstimatePromptTokens_def estimatePromptTokensWithSource_def prompt_result_def Let_def
  by (auto split: option.split prod.split)

lemma EstimatePrompt_uncached:
  assumes "cache_reach T c"
  shows "cache_reach T (fst (EstimatePromptTokens T c messages tools))
    \<and> snd (EstimatePromptTokens T c messages tools) = prompt_tokens T messages tools"
  using assms by (simp add: EstimatePrompt_result prompt_tokens_def Let_def
      estimateTools_reach [OF assms] estimateTools_reach [OF cache_reach.init])

section \<open>Trimming\<close>

lemma user_tail_first_suffix: "suffix (user_tail_first ms) ms"
  by (induction ms) (auto simp: suffix_Cons)

lemma user_tail_last_suffix: "suffix (user_tail_last ms n) ms"
  by (induction n) (auto simp: suffix_drop)

lemma userTail_suffix: "suffix (userTail ms lst) ms"
  by (simp add: userTail_def user_tail_first_suffix user_tail_last_suffix)

lemma keep_loop_take: "\<exists>j. keep_loop T remaining kept n ms = kept @ take j ms"
proof (induction ms arbitrary: kept n)
  case Nil
  then show ?case by simp
next
  case (Cons m ms)
  obtain j where "keep_loop T remaining (kept @ [m]) (n + EstimateMessageTokens T m) ms = (kept @ [m]) @ take j ms"
    using Cons.IH by blast
  then have "keep_loop T remaining kept n (m # ms) = kept @ take 0 (m # ms)
      \<or> keep_loop T remaining kept n (m # ms) = kept @ take (Suc j) (m # ms)"
    by (simp add: Let_def)
  then show ?case by blast
qed

lemma kept_suffix: "suffix (rev (keep_loop T remaining [] 0 (rev ms))) ms"
proof -
  obtain j where "keep_loop T remaining [] 0 (rev ms) = take j (rev ms)"
    using keep_loop_take [of T remaining "[]"] by auto
  then show ?thesis by (simp add: take_rev suffix_drop)
qed

lemma legalHistoryTail_suffix:
  assumes "suffix kept nonSystem"
  shows "suffix (legalHistoryTail kept nonSystem) nonSystem"
proof -
  have "suffix (userTail kept False) nonSystem"
    using assms userTail_suffix suffix_order.order_trans by blast
  then show ?thesis
    using assms userTail_suffix [of nonSystem True]
    by (auto simp: legalHistoryTail_def Let_def suffix_drop intro: suffix_order.order_trans [OF suffix_drop])
qed

text \<open>What a trim leaves: every system message, and a tail of the others.\<close>

definition trimmed :: "Message list \<Rightarrow> Message list \<Rightarrow> bool" where
  "trimmed messages out \<longleftrightarrow>
     filter (\<lambda>m. Role m = RoleSystem) out = filter (\<lambda>m. Role m = RoleSystem) messages
     \<and> suffix (filter (\<lambda>m. Role m \<noteq> RoleSystem) out) (filter (\<lambda>m. Role m \<noteq> RoleSystem) messages)"

lemma trimmed_refl [simp]: "trimmed ms ms"
  by (simp add: trimmed_def)

lemma trimmed_parts:
  assumes "suffix tl' (filter (\<lambda>m. Role m \<noteq> RoleSystem) ms)"
  shows "trimmed ms (filter (\<lambda>m. Role m = RoleSystem) ms @ tl')"
proof -
  have "\<forall>m \<in> set tl'. Role m \<noteq> RoleSystem" using set_mono_suffix [OF assms] by auto
  then show ?thesis using assms by (simp add: trimmed_def filter_empty_conv filter_eq_self_iff)
qed

lemma SnipHistory_reach:
  assumes "cache_reach T c"
  shows "cache_reach T (fst (SnipHistory T c ms tools cw mt force))
    \<and> trimmed ms (snd (SnipHistory T c ms tools cw mt force))"
proof -
  let ?e = "if force then (c, 0, []) else EstimatePromptTokens T c ms tools"
  have c1: "cache_reach T (fst ?e)" using assms EstimatePrompt_uncached by simp
  then have c2: "cache_reach T (fst (EstimatePromptTokens T (fst ?e) sys tools))" for sys
    using EstimatePrompt_uncached by blast
  obtain c1 e s where e: "?e = (c1, e, s)" by (metis prod_cases3)
  show ?thesis
    using assms c1 c2 unfolding SnipHistory_def e
    by (auto simp: Let_def trimmed_parts legalHistoryTail_suffix kept_suffix split: prod.split)
      (metis fst_conv)+
qed

lemma EnsureRequestFits_reach:
  assumes "cache_reach T c"
  shows "cache_reach T (fst (EnsureRequestFits T c ms tools cw mt key))
    \<and> snd (EnsureRequestFits T c ms tools cw mt key) =
      (if cw = 0 \<or> (0 < InputBudget cw mt \<and> fst (prompt_tokens T ms tools) \<le> InputBudget cw mt) then None
       else Some \<lparr>cw_SessionKey = key, cw_EstimatedTokens = fst (prompt_tokens T ms tools),
                  cw_InputBudget = InputBudget cw mt, cw_Source = snd (prompt_tokens T ms tools)\<rparr>)"
proof -
  obtain c' e s where e: "EstimatePromptTokens T c ms tools = (c', e, s)" by (metis prod_cases3)
  with EstimatePrompt_uncached [OF assms, of ms tools]
  have "cache_reach T c'" "prompt_tokens T ms tools = (e, s)" by auto
  with assms show ?thesis by (simp add: EnsureRequestFits_def e Let_def)
qed

lemma FitToBudget_unfold:
  "FitToBudget T c ms tools cw mt key =
     (let s = SnipHistory T c ms tools cw mt True;
          out = BackfillMissingToolResults (DropOrphanToolResults (snd s));
          r = EnsureRequestFits T (fst s) out tools cw mt key
      in (fst r, case snd r of None \<Rightarrow> Inr out | Some e \<Rightarrow> Inl e))"
  unfolding FitToBudget_def Let_def by (auto split: prod.split option.split)

section \<open>Properties\<close>

text \<open>The transcript of the witnesses: a lost call, a malformed call, and an orphan result.\<close>

definition call :: "string \<Rightarrow> string \<Rightarrow> ToolCall" where
  "call i name = \<lparr>tc_ID = i, tc_Name = name, tc_Arguments = ''{}'', tc_ExtraContent = [],
     tc_ProviderSpecificFields = [], tc_FunctionProviderSpecific = []\<rparr>"

definition assistant :: "string \<Rightarrow> ToolCall list \<Rightarrow> Message" where
  "assistant t cs = (NewMessage RoleAssistant t)\<lparr>ToolCalls := cs\<rparr>"

definition result :: "string \<Rightarrow> Message" where
  "result i = (NewMessage RoleTool ''done'')\<lparr>ToolCallID := i\<rparr>"

definition sample :: "Message list" where
  "sample = [NewMessage RoleSystem ''s'', NewMessage RoleUser ''u'',
     assistant [] [call ''a'' ''ls'', call ''b'' ''cat'', call ''c'' []],
     result ''a'', result ''c'', NewMessage RoleUser ''v'']"



text \<open>
  The index arithmetic of \<^verbatim>\<open>BackfillMissingToolResults\<close> (insertion positions shifted by the
  number of insertions so far, then moved past existing results) is right: the result is the
  transcript in which the synthetic results of a turn's unanswered calls, in call order, are
  spliced in directly behind the run of tool results that follows that turn.
\<close>

theorem backfill_is_splice:
  "BackfillMissingToolResults ms = backfill_splice (result_ids ms) ms"
  by (rule Backfill_splice)

text \<open>
  \<^verbatim>\<open>FindLegalMessageStart\<close> returns the least index from which the transcript is legal, that
  is, from which every tool result with an id follows a turn that declares it.
\<close>

theorem legal_start_least:
  "(LEAST k. legal {} (drop k ms)) = FindLegalMessageStart ms"
  using FindLegal_least [of ms] by (intro Least_equality) (auto simp: not_less [symmetric])


text \<open>A tokenizer whose vocabulary does not load: every estimate is the byte count.\<close>

definition bytes_only :: tokenizer where
  "bytes_only = \<lparr>Available = False, TokenCount = \<lambda>s. None, Encode_calls = \<lambda>cs. Some ''[]'',
     Encode_block = \<lambda>b. Some ''{}'', Encode_tools = \<lambda>ts. Some ''[]''\<rparr>"


text \<open>
  The cache of tool counts is transparent and bounded: in every state that interleaved requests
  can leave it in, an estimate of the tools is the count without a cache (or its error), the cache
  holds at most 64 entries, its eviction order lists exactly the cached texts, and the state after
  the estimate is again such a state.
\<close>

theorem tools_cache_transparent:
  assumes "cache_reach T c"
  shows "snd (estimateToolsTokens T c tools lead) = tools_tokens T tools lead
    \<and> cache_reach T (fst (estimateToolsTokens T c tools lead))
    \<and> length (toolsTokenOrder c) \<le> 64 \<and> dom (toolsTokenCache c) = set (toolsTokenOrder c)"
  using estimateTools_reach [OF assms, of tools lead] cache_reach_ok [OF assms]
  by (simp add: cache_ok_def toolsTokenCacheMaxEntries_def)

definition counting :: tokenizer where
  "counting = bytes_only\<lparr>Available := True, TokenCount := \<lambda>s. Some (int (length s))\<rparr>"

theorem tools_cache_transparent_witness:
  "toolsTokenOrder (cache_store empty_cache ''x'' 1) = [''x'']
   \<and> snd (estimateToolsTokens counting (cache_store empty_cache ''x'' 1) [] True) = Some 3"
proof -
  have "cache_reach counting (cache_store empty_cache ''x'' 1)"
    by (rule cache_reach.store [OF cache_reach.init]) (simp add: counting_def)
  from tools_cache_transparent [OF this, of "[]" True]
  have "snd (estimateToolsTokens counting (cache_store empty_cache ''x'' 1) [] True)
      = tools_tokens counting [] True" by blast
  moreover have "tools_tokens counting [] True = Some 3" by code_simp
  moreover have "toolsTokenOrder (cache_store empty_cache ''x'' 1) = [''x'']" by code_simp
  ultimately show ?thesis by simp
qed

section \<open>Limits of the repair\<close>

text \<open>
  When a provider reuses a call id in a later turn, the result of the later call is dropped as a
  duplicate, and the later call is not backfilled because its id is fulfilled: the copy ends in a
  call without a result.
\<close>

lemma reused_id_left_open:
  "map Role (PrepareForModel [assistant [] [call ''0'' ''ls''], result ''0'',
                              assistant [] [call ''0'' ''cat''], result ''0''])
   = [RoleAssistant, RoleTool, RoleAssistant]"
  by code_simp

text \<open>
  A placeholder whose calls are all malformed loses its calls after the placeholders were removed, so
  it stays in the copy as a bare placeholder.
\<close>

lemma PyStrip_placeholder:
  "PyStrip ''[Previous assistant message omitted.]'' = ''[Previous assistant message omitted.]''"
  by (simp add: PyStrip_def PyLStrip.simps PyRStrip.simps decode_last_rune_def PyIsSpace_iff pySpaceRanges_def)

lemma placeholder_survives:
  "map is_placeholder (PrepareForModel [assistant ''[Previous assistant message omitted.]'' [call ''0'' []]])
   = [True]"
  by (simp add: PrepareForModel_def StripPlaceholder_eq StripMalformed_eq DropOrphan_eq Backfill_splice
      malformed_act_def orphan_act_def is_placeholder_def assistant_def call_def PyStrip_placeholder
      TextContent_def messageHasContent_def toolCallNameIsValid_def placeholderTexts_def open_calls_def is_tool_def)

text \<open>
  A context window that leaves no input budget does not disable governance: every request is
  refused.
\<close>

lemma no_budget_refuses:
  "map_sum cw_InputBudget length (snd (FitToBudget bytes_only empty_cache sample [] 4096 None [])) = Inl 0"
  by code_simp

end
