(* ===== verification/Multiagent.thy ===== *)
theory Multiagent
  imports Go_Strings "HOL-Library.AList"
begin

text \<open>
  The multi-agent task manager of \<^verbatim>\<open>internal/multiagent/manager.go\<close>. The manager's maps are
  association lists, its channels counters (the slots of the manager and of each profile) or flags
  (the completion signal of a task), and the file it persists to is part of the state. A task is
  run by a goroutine of its own; the goroutine is a \<open>worker\<close> with a program counter, and every
  locked section or channel operation of the code is one definition, so that the interleavings of
  the goroutines are the sequences of these steps (relation \<open>step\<close> below).

  Times are nanoseconds, the zero time is \<open>None\<close>. The persisted JSON is represented by the value
  it encodes. The executor is arbitrary: a worker that executes may return any result or error,
  delegate with its own metadata, or give up its slot while it waits.
\<close>

section \<open>Data\<close>

type_synonym TaskStatus = string

definition TaskSubmitted :: TaskStatus where "TaskSubmitted = ''submitted''"
definition TaskWorking :: TaskStatus where "TaskWorking = ''working''"
definition TaskCompleted :: TaskStatus where "TaskCompleted = ''completed''"
definition TaskFailed :: TaskStatus where "TaskFailed = ''failed''"
definition TaskCanceled :: TaskStatus where "TaskCanceled = ''canceled''"

lemmas status_defs =
  TaskSubmitted_def TaskWorking_def TaskCompleted_def TaskFailed_def TaskCanceled_def

definition isTerminal :: "TaskStatus \<Rightarrow> bool" where
  "isTerminal status \<longleftrightarrow> status = TaskCompleted \<or> status = TaskFailed \<or> status = TaskCanceled"

record Profile =
  p_ID :: string
  p_Name :: string
  p_Role :: string
  p_Instructions :: string
  p_Model :: string
  p_Provider :: string
  p_Endpoint :: string
  p_TokenEnv :: string
  p_ToolAllow :: "string list"
  p_DelegateTo :: "string list"
  p_MemoryScope :: string
  p_MemoryOwner :: string
  p_MaxParallel :: int
  p_MaxTokens :: int
  p_MaxToolIterations :: int
  p_Enabled :: bool

record Limits =
  l_MaxDepth :: int
  l_MaxParallel :: int
  l_MaxChildren :: int
  l_MaxTasks :: int
  l_TaskTimeout :: int
  l_Retention :: int
  l_TaskTimeoutSecs :: int
  l_RetentionMinutes :: int

record Task =
  t_ID :: string
  t_ParentTaskID :: string
  t_RootTaskID :: string
  t_TraceID :: string
  t_AgentID :: string
  t_RequestedBy :: string
  t_Depth :: int
  t_Prompt :: string
  t_Status :: TaskStatus
  t_Result :: string
  t_Error :: string
  t_CreatedAt :: int
  t_StartedAt :: "int option"
  t_CompletedAt :: "int option"
  t_Deadline :: int
  t_Ancestry :: "string list"

record DelegateRequest =
  dr_AgentID :: string
  dr_Prompt :: string
  dr_Wait :: bool
  dr_Timeout :: int
  dr_RequestedBy :: string
  dr_Detach :: bool

record ExecutionMeta =
  em_TaskID :: string
  em_RootTaskID :: string
  em_TraceID :: string
  em_AgentID :: string
  em_Depth :: int
  em_Ancestry :: "string list"

datatype ma_error =
    AgentRequired | PromptRequired | UnknownAgent string | AgentDisabled string
  | MaxDepthExceeded int | NotAllowed string string | DelegationCycle string
  | MaxChildrenReached int string | CapacityReached int
  | TaskNotFound string | NoCompletionSignal string | TaskDisappeared string
  | TaskFailedWith string | TaskEnded TaskStatus | ContextError ctx_err
  | ProfileIDRequired | InvalidProfileID string | DuplicateProfile string
  | LoadTasks | DecodeTasks

text \<open>The persisted file: absent, not a JSON list of tasks, or a list of tasks and nulls.\<close>

datatype task_file = Absent | Garbage | Tasks "Task option list"

record Manager =
  profiles :: "(string \<times> Profile) list"
  tasks :: "(string \<times> Task) list"
  cancels :: "string list"
  done_chans :: "(string \<times> bool) list"
  limits :: Limits
  sem :: nat
  profileSems :: "(string \<times> nat) list"
  persistPath :: string
  disk :: task_file
  sink :: "(string \<times> Task) list"

section \<open>Configuration\<close>

definition second :: int where "second = 1000000000"
definition minute :: int where "minute = 60 * second"

definition normalizeLimits :: "Limits \<Rightarrow> Limits" where
  "normalizeLimits l =
     (let timeout = (if 0 < l_TaskTimeout l then l_TaskTimeout l
                     else if 0 < l_TaskTimeoutSecs l then i64 (l_TaskTimeoutSecs l * second)
                     else 5 * minute);
          retention = (if 0 < l_Retention l then l_Retention l
                       else if 0 < l_RetentionMinutes l then i64 (l_RetentionMinutes l * minute)
                       else 60 * minute)
      in \<lparr>l_MaxDepth = (if l_MaxDepth l \<le> 0 then 3 else l_MaxDepth l),
          l_MaxParallel = (if l_MaxParallel l \<le> 0 then 4 else l_MaxParallel l),
          l_MaxChildren = (if l_MaxChildren l \<le> 0 then 8 else l_MaxChildren l),
          l_MaxTasks = (if l_MaxTasks l \<le> 0 then 1024 else l_MaxTasks l),
          l_TaskTimeout = timeout, l_Retention = retention,
          l_TaskTimeoutSecs = timeout sdiv second, l_RetentionMinutes = retention sdiv minute\<rparr>)"

definition profile_id_rune :: "nat \<Rightarrow> bool" where
  "profile_id_rune r \<longleftrightarrow>
     (97 \<le> r \<and> r \<le> 122) \<or> (65 \<le> r \<and> r \<le> 90) \<or> (48 \<le> r \<and> r \<le> 57) \<or> r = 45 \<or> r = 95"

definition validProfileID :: "string \<Rightarrow> bool" where
  "validProfileID s \<longleftrightarrow>
     0 < length s \<and> length s \<le> 64
     \<and> list_all profile_id_rune (runes s) \<and> hd (runes s) \<noteq> 45 \<and> hd (runes s) \<noteq> 95"

text \<open>The capacity of the slot channel that \<^verbatim>\<open>NewManager\<close> makes for a profile.\<close>

definition profile_cap :: "Limits \<Rightarrow> Profile \<Rightarrow> int" where
  "profile_cap l p =
     (if p_MaxParallel p \<le> 0 \<or> l_MaxParallel l < p_MaxParallel p then l_MaxParallel l else p_MaxParallel p)"

definition add_profile :: "Manager \<Rightarrow> Profile \<Rightarrow> ma_error + Manager" where
  "add_profile m p0 =
     (let p = p0\<lparr>p_ID := TrimSpace (p_ID p0)\<rparr> in
      if p_ID p = [] then Inl ProfileIDRequired
      else if \<not> validProfileID (p_ID p) then Inl (InvalidProfileID (p_ID p))
      else
        let p = (if p_Name p = [] then p\<lparr>p_Name := p_ID p\<rparr> else p);
            p = (if p_MemoryScope p = [] then p\<lparr>p_MemoryScope := ''project''\<rparr> else p)
        in if map_of (profiles m) (p_ID p) \<noteq> None then Inl (DuplicateProfile (p_ID p))
           else Inr (m\<lparr>profiles := AList.update (p_ID p) p (profiles m),
                       profileSems := AList.update (p_ID p) 0 (profileSems m)\<rparr>))"

fun add_profiles :: "Manager \<Rightarrow> Profile list \<Rightarrow> ma_error + Manager" where
  "add_profiles m [] = Inr m"
| "add_profiles m (p # ps) = (case add_profile m p of Inl e \<Rightarrow> Inl e | Inr m' \<Rightarrow> add_profiles m' ps)"

section \<open>The task store\<close>

definition by_created :: "Task \<Rightarrow> Task \<Rightarrow> bool" where
  "by_created a b \<longleftrightarrow> t_CreatedAt a < t_CreatedAt b"

text \<open>Before on completion times: the zero time is before every other time.\<close>

definition completed_before :: "int option \<Rightarrow> int option \<Rightarrow> bool" where
  "completed_before a b = (case (a, b) of
     (None, Some _) \<Rightarrow> True | (Some x, Some y) \<Rightarrow> x < y | _ \<Rightarrow> False)"

definition drop_task :: "string \<Rightarrow> Manager \<Rightarrow> Manager" where
  "drop_task tid m = m\<lparr>tasks := AList.delete tid (tasks m), cancels := removeAll tid (cancels m),
     done_chans := AList.delete tid (done_chans m)\<rparr>"

definition expired :: "int \<Rightarrow> Task \<Rightarrow> bool" where
  "expired cutoff t \<longleftrightarrow> isTerminal (t_Status t)
     \<and> (case t_CompletedAt t of None \<Rightarrow> False | Some at \<Rightarrow> at < cutoff)"

fun evict :: "(string \<times> Task) list \<Rightarrow> Manager \<Rightarrow> Manager" where
  "evict [] m = m"
| "evict (r # rows) m =
     (if int (length (tasks m)) \<le> l_MaxTasks (limits m) then m else evict rows (drop_task (fst r) m))"

definition cleanupLocked :: "int \<Rightarrow> Manager \<Rightarrow> Manager" where
  "cleanupLocked now m =
     (let cutoff = now - l_Retention (limits m);
          m1 = fold drop_task (map fst (filter (\<lambda>(k, t). expired cutoff t) (tasks m))) m
      in if int (length (tasks m1)) \<le> l_MaxTasks (limits m1) then m1
         else evict (SliceStable (\<lambda>a b. completed_before (t_CompletedAt (snd a)) (t_CompletedAt (snd b)))
                      (filter (\<lambda>(k, t). isTerminal (t_Status t)) (tasks m1))) m1)"

text \<open>Writing the file may fail at each of its three system calls; the old file then stays.\<close>

definition persist :: "bool \<Rightarrow> Manager \<Rightarrow> Manager" where
  "persist io_ok m =
     (if persistPath m = [] \<or> \<not> io_ok then m
      else m\<lparr>disk := Tasks (map Some (SliceStable by_created (map snd (tasks m))))\<rparr>)"

definition emit_event :: "string \<Rightarrow> Task \<Rightarrow> Manager \<Rightarrow> Manager" where
  "emit_event kind t m = m\<lparr>sink := sink m @ [(kind, t)]\<rparr>"

definition restart_error :: string where
  "restart_error = ''runtime restarted before task completed''"

definition recover_task :: "int \<Rightarrow> Task \<Rightarrow> Task" where
  "recover_task now t =
     (if t_Status t = TaskSubmitted \<or> t_Status t = TaskWorking
      then t\<lparr>t_Status := TaskFailed, t_Error := restart_error, t_CompletedAt := Some now\<rparr> else t)"

fun load_tasks :: "int \<Rightarrow> Task option list \<Rightarrow> Manager \<Rightarrow> Manager" where
  "load_tasks now [] m = m"
| "load_tasks now (None # ts) m = load_tasks now ts m"
| "load_tasks now (Some t0 # ts) m =
     (if t_ID t0 = [] then load_tasks now ts m
      else
        let t = recover_task now t0 in
        load_tasks now ts (m\<lparr>tasks := AList.update (t_ID t) t (tasks m),
          done_chans := AList.update (t_ID t) (isTerminal (t_Status t)) (done_chans m)\<rparr>))"

text \<open>\<open>read_fails\<close>: reading fails with an error other than "does not exist".\<close>

definition Manager_load :: "bool \<Rightarrow> int \<Rightarrow> Manager \<Rightarrow> ma_error + Manager" where
  "Manager_load read_fails now m =
     (if persistPath m = [] then Inr m
      else if read_fails then Inl LoadTasks
      else case disk m of
          Absent \<Rightarrow> Inr m
        | Garbage \<Rightarrow> Inl DecodeTasks
        | Tasks ts \<Rightarrow> Inr (load_tasks now ts m))"

definition NewManager ::
  "Profile list \<Rightarrow> Limits \<Rightarrow> string \<Rightarrow> task_file \<Rightarrow> bool \<Rightarrow> int \<Rightarrow> ma_error + Manager" where
  "NewManager ps l path f read_fails now =
     (let m = \<lparr>profiles = [], tasks = [], cancels = [], done_chans = [], limits = normalizeLimits l,
               sem = 0, profileSems = [], persistPath = TrimSpace path, disk = f, sink = []\<rparr>
      in case add_profiles m ps of
           Inl e \<Rightarrow> Inl e
         | Inr m1 \<Rightarrow> (case Manager_load read_fails now m1 of Inl e \<Rightarrow> Inl e | Inr m2 \<Rightarrow> Inr (cleanupLocked now m2)))"

definition Profiles :: "Manager \<Rightarrow> Profile list" where
  "Profiles m = SliceStable (\<lambda>a b. string_less (p_ID a) (p_ID b)) (map snd (profiles m))"

definition get_profile :: "Manager \<Rightarrow> string \<Rightarrow> Profile option" where
  "get_profile m pid = map_of (profiles m) pid"

definition Get :: "Manager \<Rightarrow> string \<Rightarrow> Task option" where
  "Get m tid = map_of (tasks m) tid"

definition List_tasks :: "int \<Rightarrow> int \<Rightarrow> Manager \<Rightarrow> Manager \<times> Task list" where
  "List_tasks now limit m =
     (let m' = cleanupLocked now m;
          out = SliceStable (\<lambda>a b. t_CreatedAt b < t_CreatedAt a) (map snd (tasks m'))
      in (m', if 0 < limit \<and> limit < int (length out) then take (nat limit) out else out))"

section \<open>Delegation\<close>

definition delegationAllowed :: "string list \<Rightarrow> string \<Rightarrow> bool" where
  "delegationAllowed allowed target \<longleftrightarrow>
     list_ex (\<lambda>item. TrimSpace item = ''*'' \<or> TrimSpace item = target) allowed"

definition hex_nibble :: "nat \<Rightarrow> char" where
  "hex_nibble d = (if d < 10 then char_of (48 + d) else char_of (87 + d))"

definition hex_encode :: "string \<Rightarrow> string" where
  "hex_encode raw = concat (map (\<lambda>c. [hex_nibble (byte c div 16), hex_nibble (byte c mod 16)]) raw)"

text \<open>Eight random bytes, or the clock when the random source fails.\<close>

definition newID :: "string \<Rightarrow> string option \<Rightarrow> int \<Rightarrow> string" where
  "newID pre raw nanos =
     (case raw of Some bs \<Rightarrow> pre @ ''-'' @ hex_encode bs | None \<Rightarrow> pre @ ''-'' @ Itoa nanos)"

text \<open>The guards of \<^verbatim>\<open>Delegate\<close> and the task it builds, given the clock and the two fresh ids.\<close>

definition delegate_ancestry :: "ExecutionMeta option \<Rightarrow> string list" where
  "delegate_ancestry nested =
     (case nested of
        None \<Rightarrow> []
      | Some meta \<Rightarrow> em_Ancestry meta @ (if em_AgentID meta \<noteq> [] then [em_AgentID meta] else []))"

text \<open>The agent of the calling task, when the delegation is nested and has one.\<close>

definition delegate_source :: "ExecutionMeta option \<Rightarrow> string option" where
  "delegate_source nested =
     (case nested of None \<Rightarrow> None | Some meta \<Rightarrow> if em_AgentID meta \<noteq> [] then Some (em_AgentID meta) else None)"

definition delegate_depth :: "ExecutionMeta option \<Rightarrow> int" where
  "delegate_depth nested = (case nested of None \<Rightarrow> 1 | Some meta \<Rightarrow> em_Depth meta + 1)"

definition source_allowed :: "Manager \<Rightarrow> ExecutionMeta option \<Rightarrow> string \<Rightarrow> bool" where
  "source_allowed m nested agent =
     (case delegate_source nested of
        None \<Rightarrow> True
      | Some a \<Rightarrow> (case get_profile m a of
          None \<Rightarrow> False
        | Some source \<Rightarrow> delegationAllowed (p_DelegateTo source) agent))"

definition delegate_guard :: "Manager \<Rightarrow> string \<Rightarrow> string \<Rightarrow> ExecutionMeta option \<Rightarrow> ma_error option" where
  "delegate_guard m agent prompt nested =
     (if agent = [] then Some AgentRequired
      else if prompt = [] then Some PromptRequired
      else case get_profile m agent of
          None \<Rightarrow> Some (UnknownAgent agent)
        | Some p \<Rightarrow>
            if \<not> p_Enabled p then Some (AgentDisabled agent)
            else if l_MaxDepth (limits m) < delegate_depth nested
            then Some (MaxDepthExceeded (l_MaxDepth (limits m)))
            else if \<not> source_allowed m nested agent
            then Some (NotAllowed (the (delegate_source nested)) agent)
            else if agent \<in> set (delegate_ancestry nested) then Some (DelegationCycle agent)
            else None)"

definition delegate_build ::
  "Manager \<Rightarrow> DelegateRequest \<Rightarrow> ExecutionMeta option \<Rightarrow> int \<Rightarrow> string \<Rightarrow> string \<Rightarrow> Task" where
  "delegate_build m req nested now traceID taskID =
     (let requestedBy = TrimSpace (dr_RequestedBy req);
          rootID = (case nested of None \<Rightarrow> [] | Some meta \<Rightarrow> em_RootTaskID meta);
          timeout = (if dr_Timeout req \<le> 0 \<or> l_TaskTimeout (limits m) < dr_Timeout req
                     then l_TaskTimeout (limits m) else dr_Timeout req)
      in \<lparr>t_ID = taskID,
          t_ParentTaskID = (case nested of None \<Rightarrow> [] | Some meta \<Rightarrow> em_TaskID meta),
          t_RootTaskID = (if rootID = [] then taskID else rootID),
          t_TraceID = (case nested of None \<Rightarrow> traceID
                       | Some meta \<Rightarrow> if em_TraceID meta \<noteq> [] then em_TraceID meta else traceID),
          t_AgentID = TrimSpace (dr_AgentID req),
          t_RequestedBy = (case delegate_source nested of
              Some a \<Rightarrow> a | None \<Rightarrow> if requestedBy = [] then ''commander'' else requestedBy),
          t_Depth = delegate_depth nested, t_Prompt = TrimSpace (dr_Prompt req),
          t_Status = TaskSubmitted, t_Result = [], t_Error = [], t_CreatedAt = now,
          t_StartedAt = None, t_CompletedAt = None, t_Deadline = now + timeout,
          t_Ancestry = delegate_ancestry nested\<rparr>)"

definition delegate_task ::
  "Manager \<Rightarrow> DelegateRequest \<Rightarrow> ExecutionMeta option \<Rightarrow> int \<Rightarrow> string \<Rightarrow> string \<Rightarrow> ma_error + Task" where
  "delegate_task m req nested now traceID taskID =
     (case delegate_guard m (TrimSpace (dr_AgentID req)) (TrimSpace (dr_Prompt req)) nested of
        Some e \<Rightarrow> Inl e
      | None \<Rightarrow> Inr (delegate_build m req nested now traceID taskID))"

definition children :: "Manager \<Rightarrow> string \<Rightarrow> nat" where
  "children m pid = length (filter (\<lambda>(k, t). t_ParentTaskID t = pid) (tasks m))"

text \<open>The locked section of \<^verbatim>\<open>Delegate\<close>: the manager is changed by the cleanup even when it refuses.\<close>

definition delegate_insert :: "int \<Rightarrow> Task \<Rightarrow> Manager \<Rightarrow> Manager \<times> ma_error option" where
  "delegate_insert now t m =
     (if t_ParentTaskID t \<noteq> [] \<and> l_MaxChildren (limits m) \<le> int (children m (t_ParentTaskID t))
      then (m, Some (MaxChildrenReached (l_MaxChildren (limits m)) (t_ParentTaskID t)))
      else
        let m = cleanupLocked now m in
        if l_MaxTasks (limits m) \<le> int (length (tasks m))
        then (m, Some (CapacityReached (l_MaxTasks (limits m))))
        else (m\<lparr>tasks := AList.update (t_ID t) t (tasks m),
                done_chans := AList.update (t_ID t) False (done_chans m)\<rparr>, None))"

definition register_cancel :: "string \<Rightarrow> Manager \<Rightarrow> Manager" where
  "register_cancel tid m = m\<lparr>cancels := List.insert tid (cancels m)\<rparr>"

text \<open>
  \<^verbatim>\<open>Delegate\<close> up to the start of the goroutine, when nothing comes between its steps. What follows is
  \<^verbatim>\<open>Wait\<close> when the request asks for it and \<^verbatim>\<open>Get\<close> otherwise; a detached request only decides when the
  context of the goroutine is done, which the step relation leaves open.
\<close>

definition Delegate ::
  "bool \<Rightarrow> int \<Rightarrow> string \<Rightarrow> string \<Rightarrow> ExecutionMeta option \<Rightarrow> DelegateRequest \<Rightarrow> Manager
   \<Rightarrow> Manager \<times> (ma_error + string)" where
  "Delegate io_ok now traceID taskID nested req m =
     (case delegate_task m req nested now traceID taskID of
        Inl e \<Rightarrow> (m, Inl e)
      | Inr t \<Rightarrow>
          (case delegate_insert now t m of
             (m, Some e) \<Rightarrow> (m, Inl e)
           | (m, None) \<Rightarrow>
               (register_cancel (t_ID t) (emit_event ''submitted'' t (persist io_ok m)), Inr (t_ID t))))"

section \<open>Running a task\<close>

definition start_task :: "int \<Rightarrow> Task \<Rightarrow> Task" where
  "start_task now t = t\<lparr>t_Status := TaskWorking, t_StartedAt := Some now\<rparr>"

definition meta_of :: "Task \<Rightarrow> ExecutionMeta" where
  "meta_of t = \<lparr>em_TaskID = t_ID t, em_RootTaskID = t_RootTaskID t, em_TraceID = t_TraceID t,
     em_AgentID = t_AgentID t, em_Depth = t_Depth t, em_Ancestry = t_Ancestry t\<rparr>"

definition end_task :: "int \<Rightarrow> TaskStatus \<Rightarrow> string \<Rightarrow> string option \<Rightarrow> Task \<Rightarrow> Task" where
  "end_task now status result err t =
     t\<lparr>t_Status := status, t_Result := result, t_CompletedAt := Some now,
       t_Error := (case err of None \<Rightarrow> t_Error t | Some e \<Rightarrow> e)\<rparr>"

definition ctx_text :: "ctx_err \<Rightarrow> string" where
  "ctx_text e = (case e of Canceled \<Rightarrow> ''context canceled'' | DeadlineExceeded \<Rightarrow> ''context deadline exceeded'')"

text \<open>
  What the executor returned: its result and, on an error, the text and whether it is a context
  error. The status follows the test of \<^verbatim>\<open>run\<close>, which also looks at the task's own context.
\<close>

definition outcome_status :: "(string \<times> bool) option \<Rightarrow> ctx_err option \<Rightarrow> TaskStatus" where
  "outcome_status err ctx =
     (case err of
        None \<Rightarrow> TaskCompleted
      | Some (e, is_ctx) \<Rightarrow> if is_ctx \<or> ctx \<noteq> None then TaskCanceled else TaskFailed)"

definition finish_locked ::
  "int \<Rightarrow> string \<Rightarrow> TaskStatus \<Rightarrow> string \<Rightarrow> string option \<Rightarrow> Manager \<Rightarrow> Manager" where
  "finish_locked now tid status result err m =
     (case map_of (tasks m) tid of
        None \<Rightarrow> m
      | Some t \<Rightarrow> m\<lparr>tasks := AList.update tid (end_task now status result err t) (tasks m)\<rparr>)"

definition close_done :: "string \<Rightarrow> Manager \<Rightarrow> Manager" where
  "close_done tid m =
     (if map_of (done_chans m) tid = None then m
      else m\<lparr>done_chans := AList.update tid True (done_chans m)\<rparr>)"

definition taskError :: "Task \<Rightarrow> ma_error option" where
  "taskError t =
     (if t_Status t = TaskFailed \<or> t_Status t = TaskCanceled
      then Some (if t_Error t \<noteq> [] then TaskFailedWith (t_Error t) else TaskEnded (t_Status t))
      else None)"

text \<open>
  \<^verbatim>\<open>Wait\<close>: what it answers at once, or the signal it blocks on (\<open>None\<close>), and what it answers when
  it is woken by the signal or by its context.
\<close>

definition Wait_now :: "Manager \<Rightarrow> string \<Rightarrow> (Task option \<times> ma_error option) option" where
  "Wait_now m tid =
     (case map_of (tasks m) tid of
        None \<Rightarrow> Some (None, Some (TaskNotFound tid))
      | Some t \<Rightarrow>
          if isTerminal (t_Status t) then Some (Some t, taskError t)
          else if map_of (done_chans m) tid = None then Some (None, Some (NoCompletionSignal tid))
          else None)"

definition Wait_done :: "Manager \<Rightarrow> string \<Rightarrow> Task option \<times> ma_error option" where
  "Wait_done m tid =
     (case Get m tid of None \<Rightarrow> (None, Some (TaskDisappeared tid)) | Some t \<Rightarrow> (Some t, taskError t))"

definition Wait_ctx :: "Manager \<Rightarrow> string \<Rightarrow> ctx_err \<Rightarrow> Task option \<times> ma_error option" where
  "Wait_ctx m tid e = (Get m tid, Some (ContextError e))"

text \<open>Does \<^verbatim>\<open>Cancel\<close> call the task's cancel function, and what does it answer?\<close>

definition Cancel_fires :: "Manager \<Rightarrow> string \<Rightarrow> bool" where
  "Cancel_fires m tid \<longleftrightarrow>
     (case map_of (tasks m) tid of
        None \<Rightarrow> False
      | Some t \<Rightarrow> \<not> isTerminal (t_Status t) \<and> tid \<in> set (cancels m))"

definition Cancel_answer :: "Manager \<Rightarrow> string \<Rightarrow> ma_error + Task" where
  "Cancel_answer m tid =
     (case map_of (tasks m) tid of None \<Rightarrow> Inl (TaskNotFound tid) | Some t \<Rightarrow> Inr t)"

end
