(* ===== verification/Multiagent_Run.thy ===== *)
theory Multiagent_Run
  imports Multiagent
begin

text \<open>
  The goroutines of the task manager as a step relation. A worker is the goroutine of one task,
  from the moment \<^verbatim>\<open>Delegate\<close> has inserted the task to the last deferred call of \<^verbatim>\<open>run\<close>; each rule
  is one locked section, one channel operation or one write of the file. The rules leave every
  choice to the environment that the code leaves to it: which goroutine moves, when a context is
  done, whether a write fails, when the executor gives its slot up and takes it back, what it
  returns, and when somebody lists (and so cleans up) the tasks. The deferred calls at the end of
  \<^verbatim>\<open>run\<close> touch disjoint parts of the state and are one step.
\<close>

datatype pc =
    Submitted | Spawning | Run_start | Want_profile string | Want_slot | Begin | Announce
  | Executing | Finishing TaskStatus string "string option" | Persisting TaskStatus Task | Closing | Leaving | Exited

text \<open>
  \<open>w_prof\<close> and \<open>w_held\<close> are the slots the goroutine holds (of its profile, of the manager: the
  \<^verbatim>\<open>executionLease\<close>), \<open>w_meta\<close> the metadata it gave the executor; \<open>w_saved\<close> records that the
  final state of the task was written to the file.
\<close>

record worker =
  w_pc :: pc
  w_ctx :: "ctx_err option"
  w_prof :: "string option"
  w_held :: bool
  w_meta :: "ExecutionMeta option"
  w_saved :: bool

record sys =
  mgr :: Manager
  workers :: "string \<rightharpoonup> worker"

definition new_worker :: worker where
  "new_worker = \<lparr>w_pc = Submitted, w_ctx = None, w_prof = None, w_held = False, w_meta = None, w_saved = False\<rparr>"

definition start :: "Manager \<Rightarrow> sys" where
  "start m = \<lparr>mgr = m, workers = Map.empty\<rparr>"

section \<open>Slots\<close>

text \<open>
  Sending on the slot channel of the manager succeeds while it is not full; a lease sends at most
  once and receives at most once.
\<close>

definition acquire :: "Manager \<Rightarrow> worker \<Rightarrow> (Manager \<times> worker) option" where
  "acquire m w =
     (if w_held w then Some (m, w)
      else if int (sem m) < l_MaxParallel (limits m)
      then Some (m\<lparr>sem := sem m + 1\<rparr>, w\<lparr>w_held := True\<rparr>)
      else None)"

definition release :: "Manager \<Rightarrow> worker \<Rightarrow> Manager \<times> worker" where
  "release m w = (if w_held w then (m\<lparr>sem := sem m - 1\<rparr>, w\<lparr>w_held := False\<rparr>) else (m, w))"

definition acquire_profile :: "Manager \<Rightarrow> string \<Rightarrow> worker \<Rightarrow> (Manager \<times> worker) option" where
  "acquire_profile m a w =
     (case (map_of (profileSems m) a, map_of (profiles m) a) of
        (Some n, Some p) \<Rightarrow>
          if int n < profile_cap (limits m) p
          then Some (m\<lparr>profileSems := AList.update a (n + 1) (profileSems m)\<rparr>, w\<lparr>w_prof := Some a\<rparr>)
          else None
      | _ \<Rightarrow> None)"

definition release_profile :: "Manager \<Rightarrow> worker \<Rightarrow> Manager \<times> worker" where
  "release_profile m w =
     (case w_prof w of
        None \<Rightarrow> (m, w)
      | Some a \<Rightarrow>
          (case map_of (profileSems m) a of
             None \<Rightarrow> (m, w\<lparr>w_prof := None\<rparr>)
           | Some n \<Rightarrow> (m\<lparr>profileSems := AList.update a (n - 1) (profileSems m)\<rparr>, w\<lparr>w_prof := None\<rparr>)))"

definition leave :: "string \<Rightarrow> Manager \<Rightarrow> worker \<Rightarrow> Manager \<times> worker" where
  "leave i m w =
     (let (m, w) = release m w; (m, w) = release_profile m w
      in (m\<lparr>cancels := removeAll i (cancels m)\<rparr>, w\<lparr>w_pc := Exited\<rparr>))"

section \<open>Steps of one worker\<close>

text \<open>
  \<open>work now io i\<close> relates the manager and the worker of task \<open>i\<close> before and after one step; \<open>io\<close>
  says whether a write of the file succeeds.
\<close>

inductive work :: "int \<Rightarrow> bool \<Rightarrow> string \<Rightarrow> Manager \<Rightarrow> worker \<Rightarrow> Manager \<Rightarrow> worker \<Rightarrow> bool"
  for now io i m w where
  submitted: "w_pc w = Submitted \<Longrightarrow> map_of (tasks m) i = Some t \<Longrightarrow>
    work now io i m w (emit_event ''submitted'' t (persist io m)) (w\<lparr>w_pc := Spawning\<rparr>)"
| spawn: "w_pc w = Spawning \<Longrightarrow> work now io i m w (register_cancel i m) (w\<lparr>w_pc := Run_start\<rparr>)"
| ctx_done: "w_ctx w = None \<Longrightarrow> work now io i m w m (w\<lparr>w_ctx := Some e\<rparr>)"
| run_gone: "w_pc w = Run_start \<Longrightarrow> map_of (tasks m) i = None \<Longrightarrow> work now io i m w m (w\<lparr>w_pc := Leaving\<rparr>)"
| run_profile: "w_pc w = Run_start \<Longrightarrow> map_of (tasks m) i = Some t \<Longrightarrow>
    map_of (profileSems m) (t_AgentID t) \<noteq> None \<Longrightarrow>
    work now io i m w m (w\<lparr>w_pc := Want_profile (t_AgentID t)\<rparr>)"
| run_free: "w_pc w = Run_start \<Longrightarrow> map_of (tasks m) i = Some t \<Longrightarrow>
    map_of (profileSems m) (t_AgentID t) = None \<Longrightarrow> work now io i m w m (w\<lparr>w_pc := Want_slot\<rparr>)"
| take_profile: "w_pc w = Want_profile a \<Longrightarrow> acquire_profile m a w = Some (m', w') \<Longrightarrow>
    work now io i m w m' (w'\<lparr>w_pc := Want_slot\<rparr>)"
| profile_context: "w_pc w = Want_profile a \<Longrightarrow> w_ctx w = Some e \<Longrightarrow>
    work now io i m w m (w\<lparr>w_pc := Finishing TaskCanceled [] (Some (ctx_text e))\<rparr>)"
| take_slot: "w_pc w = Want_slot \<Longrightarrow> acquire m w = Some (m', w') \<Longrightarrow>
    work now io i m w m' (w'\<lparr>w_pc := Begin\<rparr>)"
| slot_context: "w_pc w = Want_slot \<Longrightarrow> w_ctx w = Some e \<Longrightarrow>
    work now io i m w m (w\<lparr>w_pc := Finishing TaskCanceled [] (Some (ctx_text e))\<rparr>)"
| begin_gone: "w_pc w = Begin \<Longrightarrow> map_of (tasks m) i = None \<Longrightarrow> work now io i m w m (w\<lparr>w_pc := Leaving\<rparr>)"
| begin_task: "w_pc w = Begin \<Longrightarrow> map_of (tasks m) i = Some t \<Longrightarrow>
    work now io i m w (m\<lparr>tasks := AList.update i (start_task now t) (tasks m)\<rparr>)
      (w\<lparr>w_pc := Announce, w_meta := Some (meta_of t)\<rparr>)"
| announce: "w_pc w = Announce \<Longrightarrow> map_of (tasks m) i = Some t \<Longrightarrow>
    work now io i m w (emit_event ''working'' t (persist io m)) (w\<lparr>w_pc := Executing\<rparr>)"
| yield_slot: "w_pc w = Executing \<Longrightarrow> release m w = (m', w') \<Longrightarrow> work now io i m w m' w'"
| regain_slot: "w_pc w = Executing \<Longrightarrow> acquire m w = Some (m', w') \<Longrightarrow> work now io i m w m' w'"
| executed: "w_pc w = Executing \<Longrightarrow>
    work now io i m w m
      (w\<lparr>w_pc := Finishing (outcome_status err (w_ctx w)) res (map_option fst err)\<rparr>)"
| finish_gone: "w_pc w = Finishing st res err \<Longrightarrow> map_of (tasks m) i = None \<Longrightarrow>
    work now io i m w m (w\<lparr>w_pc := Leaving\<rparr>)"
| finish: "w_pc w = Finishing st res err \<Longrightarrow> map_of (tasks m) i = Some t \<Longrightarrow>
    work now io i m w (finish_locked now i st res err m)
      (w\<lparr>w_pc := Persisting st (end_task now st res err t)\<rparr>)"
| finish_persist: "w_pc w = Persisting st t \<Longrightarrow>
    work now io i m w (emit_event st t (persist io m))
      (w\<lparr>w_pc := Closing, w_saved := (io \<and> persistPath m \<noteq> [])\<rparr>)"
| finish_close: "w_pc w = Closing \<Longrightarrow> work now io i m w (close_done i m) (w\<lparr>w_pc := Leaving\<rparr>)"
| leaving: "w_pc w = Leaving \<Longrightarrow> leave i m w = (m', w') \<Longrightarrow> work now io i m w m' w'"

section \<open>Steps of the system\<close>

text \<open>
  A delegation comes from outside or from the executor of a running task, with that task's metadata.
  The ids are drawn from 64 random bits: the model takes a new id to be different from every id in
  use. \<open>refuse\<close> is a delegation that passes the guards and is refused under the lock, \<open>clean\<close> a
  call of \<^verbatim>\<open>List\<close>.
\<close>

inductive step :: "sys \<Rightarrow> sys \<Rightarrow> bool" for s where
  submit: "nested = None \<or> (\<exists>j w. workers s j = Some w \<and> w_pc w = Executing \<and> nested = w_meta w) \<Longrightarrow>
    delegate_task (mgr s) req nested now traceID i = Inr t \<Longrightarrow>
    i \<noteq> [] \<Longrightarrow> workers s i = None \<Longrightarrow> map_of (tasks (mgr s)) i = None \<Longrightarrow>
    delegate_insert now t (mgr s) = (m', None) \<Longrightarrow>
    step s (s\<lparr>mgr := m', workers := (workers s)(i \<mapsto> new_worker)\<rparr>)"
| refuse: "delegate_insert now t (mgr s) = (m', Some e) \<Longrightarrow> step s (s\<lparr>mgr := m'\<rparr>)"
| clean: "step s (s\<lparr>mgr := cleanupLocked now (mgr s)\<rparr>)"
| worker_step: "workers s i = Some w \<Longrightarrow> work now io i (mgr s) w m' w' \<Longrightarrow>
    step s (s\<lparr>mgr := m', workers := (workers s)(i \<mapsto> w')\<rparr>)"

inductive reach :: "sys \<Rightarrow> sys \<Rightarrow> bool" for s0 where
  init: "reach s0 s0"
| after_step: "reach s0 s \<Longrightarrow> step s s' \<Longrightarrow> reach s0 s'"

end
