(* ===== verification/Multiagent_Proofs.thy ===== *)
theory Multiagent_Proofs
  imports Multiagent_Run
begin

text \<open>
  Invariants of the multi-agent manager over all interleavings of its goroutines: the limits it was
  configured with, the authorisation of every chain of delegations, the life cycle of a task and
  its durability, and what a restart recovers.
\<close>

section \<open>Association lists and cleanup\<close>

declare update_conv' [simp]

lemma alist_delete_filter: "AList.delete k xs = filter (\<lambda>kv. fst kv \<noteq> k) xs"
  by (induction xs) auto

lemma removeAll_filter: "removeAll k xs = filter (\<lambda>j. j \<noteq> k) xs"
  by (induction xs) auto

lemma map_of_filter_keys: "map_of (filter (\<lambda>kv. fst kv \<notin> K) xs) = (\<lambda>k. if k \<in> K then None else map_of xs k)"
  by (induction xs) auto

lemma distinct_filter_keys: "distinct (map fst xs) \<Longrightarrow> distinct (map fst (filter P xs))"
  by (induction xs) auto

text \<open>The manager without the tasks of a set of ids.\<close>

definition without :: "string set \<Rightarrow> Manager \<Rightarrow> Manager" where
  "without K m = m\<lparr>tasks := filter (\<lambda>kv. fst kv \<notin> K) (tasks m), cancels := filter (\<lambda>k. k \<notin> K) (cancels m),
     done_chans := filter (\<lambda>kv. fst kv \<notin> K) (done_chans m)\<rparr>"

lemma without_simps [simp]:
  "map_of (tasks (without K m)) k = (if k \<in> K then None else map_of (tasks m) k)"
  "map_of (done_chans (without K m)) k = (if k \<in> K then None else map_of (done_chans m) k)"
  "limits (without K m) = limits m" "profiles (without K m) = profiles m" "sem (without K m) = sem m"
  "profileSems (without K m) = profileSems m" "disk (without K m) = disk m"
  "persistPath (without K m) = persistPath m"
  by (simp_all add: without_def map_of_filter_keys)

lemma length_without: "length (tasks (without K m)) \<le> length (tasks m)"
  by (simp add: without_def)

lemma distinct_without: "distinct (map fst (tasks m)) \<Longrightarrow> distinct (map fst (tasks (without K m)))"
  by (simp add: without_def distinct_filter_keys)

lemma without_empty [simp]: "without {} m = m"
  by (simp add: without_def)

lemma without_without: "without K (without L m) = without (L \<union> K) m"
  by (simp add: without_def)

lemma drop_task_without: "drop_task k m = without {k} m"
  by (simp add: drop_task_def without_def alist_delete_filter removeAll_filter)

lemma fold_drop_task: "fold drop_task ks m = without (set ks) m"
  by (induction ks arbitrary: m) (simp_all add: drop_task_without without_without)

lemma evict_without: "\<exists>n. evict rows m = without (fst ` set (take n rows)) m
    \<and> (int (length (tasks (evict rows m))) \<le> l_MaxTasks (limits m) \<or> n = length rows)"
proof (induction rows arbitrary: m)
  case Nil
  then show ?case by simp
next
  case (Cons r rows)
  show ?case
  proof (cases "int (length (tasks m)) \<le> l_MaxTasks (limits m)")
    case True
    then show ?thesis by (intro exI [of _ 0]) simp
  next
    case False
    obtain n where "evict rows (drop_task (fst r) m) = without (fst ` set (take n rows)) (drop_task (fst r) m)"
      "int (length (tasks (evict rows (drop_task (fst r) m)))) \<le> l_MaxTasks (limits m) \<or> n = length rows"
      using Cons.IH [of "drop_task (fst r) m"] by (auto simp: drop_task_without)
    with False show ?thesis
      by (intro exI [of _ "Suc n"]) (simp add: drop_task_without without_without insert_commute)
  qed
qed

text \<open>Cleaning up drops only finished tasks, and enough of them when all are finished.\<close>

lemma cleanup_without:
  assumes "distinct (map fst (tasks m))"
  obtains K where "cleanupLocked now m = without K m"
    and "\<And>k. k \<in> K \<Longrightarrow> \<exists>t. map_of (tasks m) k = Some t \<and> isTerminal (t_Status t)"
    and "(\<forall>k t. map_of (tasks m) k = Some t \<longrightarrow> isTerminal (t_Status t)) \<longrightarrow> 0 \<le> l_MaxTasks (limits m) \<longrightarrow>
         int (length (tasks (without K m))) \<le> l_MaxTasks (limits m)"
proof -
  define K1 where "K1 = fst ` set (filter (\<lambda>(k, t). expired (now - l_Retention (limits m)) t) (tasks m))"
  let ?m1 = "without K1 m"
  let ?rows = "SliceStable (\<lambda>a b. completed_before (t_CompletedAt (snd a)) (t_CompletedAt (snd b)))
    (filter (\<lambda>(k, t). isTerminal (t_Status t)) (tasks ?m1))"
  have d1: "distinct (map fst (tasks ?m1))" using assms by (rule distinct_without)
  have K1: "\<exists>t. map_of (tasks m) k = Some t \<and> isTerminal (t_Status t)" if "k \<in> K1" for k
    using that assms by (auto simp: K1_def expired_def)
  have rows: "\<exists>t. map_of (tasks m) k = Some t \<and> isTerminal (t_Status t)" if "k \<in> fst ` set ?rows" for k
    using that d1 by (fastforce simp: without_def assms)
  have c: "cleanupLocked now m = (if int (length (tasks ?m1)) \<le> l_MaxTasks (limits m) then ?m1 else evict ?rows ?m1)"
    by (simp add: cleanupLocked_def fold_drop_task K1_def Let_def image_set)
  obtain n where n: "evict ?rows ?m1 = without (fst ` set (take n ?rows)) ?m1"
    "int (length (tasks (evict ?rows ?m1))) \<le> l_MaxTasks (limits m) \<or> n = length ?rows"
    using evict_without [of ?rows ?m1] by auto
  show ?thesis
  proof (cases "int (length (tasks ?m1)) \<le> l_MaxTasks (limits m)")
    case True
    with c K1 show ?thesis by (intro that [of K1]) auto
  next
    case False
    let ?K = "K1 \<union> fst ` set (take n ?rows)"
    show ?thesis
    proof (rule that [of ?K])
      show "cleanupLocked now m = without ?K m" using False c n(1) by (simp add: without_without)
      show "\<exists>t. map_of (tasks m) k = Some t \<and> isTerminal (t_Status t)" if "k \<in> ?K" for k
        using that K1 rows set_take_subset [of n ?rows] by blast
      show "(\<forall>k t. map_of (tasks m) k = Some t \<longrightarrow> isTerminal (t_Status t)) \<longrightarrow> 0 \<le> l_MaxTasks (limits m) \<longrightarrow>
         int (length (tasks (without ?K m))) \<le> l_MaxTasks (limits m)"
      proof (intro impI)
        assume all: "\<forall>k t. map_of (tasks m) k = Some t \<longrightarrow> isTerminal (t_Status t)"
          and nn: "0 \<le> l_MaxTasks (limits m)"
        have t: "isTerminal (t_Status t)" if "(k, t) \<in> set (tasks ?m1)" for k t
          using that d1 all by (metis map_of_eq_Some_iff option.distinct(1) without_simps(1))
        have "tasks (without (fst ` set ?rows) ?m1) = []"
          unfolding without_def [of "fst ` set ?rows"] by (auto simp: filter_empty_conv dest: t)
        with n nn show "int (length (tasks (without ?K m))) \<le> l_MaxTasks (limits m)"
          by (auto simp: without_without)
      qed
    qed
  qed
qed

section \<open>The invariant\<close>

declare map_of_eq_Some_iff [simp del]

definition known_status :: "TaskStatus \<Rightarrow> bool" where
  "known_status st \<longleftrightarrow> isTerminal st \<or> st = TaskSubmitted \<or> st = TaskWorking"

lemma known_terminal: "isTerminal st \<Longrightarrow> known_status st"
  and known_working [simp]: "known_status TaskWorking"
  by (simp_all add: known_status_def)

lemma terminal_simps [simp]:
  "\<not> isTerminal TaskSubmitted" "\<not> isTerminal TaskWorking"
  "isTerminal TaskCompleted" "isTerminal TaskFailed" "isTerminal TaskCanceled"
  "TaskWorking \<noteq> TaskSubmitted" "TaskSubmitted \<noteq> TaskWorking"
  by (simp_all add: isTerminal_def status_defs)

text \<open>A file as the manager writes it.\<close>

definition file_ok :: "task_file \<Rightarrow> bool" where
  "file_ok f \<longleftrightarrow> (\<forall>ts. f = Tasks ts \<longrightarrow>
     (\<exists>us. ts = map Some us \<and> distinct (map t_ID us)
       \<and> (\<forall>u \<in> set us. t_ID u \<noteq> [] \<and> known_status (t_Status u))))"

definition store_ok :: "Manager \<Rightarrow> bool" where
  "store_ok m \<longleftrightarrow> distinct (map fst (tasks m))
     \<and> (\<forall>k t. map_of (tasks m) k = Some t \<longrightarrow> t_ID t = k \<and> k \<noteq> [] \<and> known_status (t_Status t))
     \<and> (\<forall>k. map_of (done_chans m) k = None \<longleftrightarrow> map_of (tasks m) k = None)
     \<and> (\<forall>k t. map_of (done_chans m) k = Some True \<longrightarrow> map_of (tasks m) k = Some t \<longrightarrow> isTerminal (t_Status t))
     \<and> 0 < l_MaxTasks (limits m) \<and> file_ok (disk m)"

definition bounded :: "Manager \<Rightarrow> bool" where
  "bounded m \<longleftrightarrow> int (length (tasks m)) \<le> l_MaxTasks (limits m)"

text \<open>Who may delegate to whom, and the record a task keeps of its chain of delegations.\<close>

definition allowed :: "Manager \<Rightarrow> string \<Rightarrow> string \<Rightarrow> bool" where
  "allowed m a b \<longleftrightarrow> (\<exists>src. map_of (profiles m) a = Some src \<and> delegationAllowed (p_DelegateTo src) b)"

definition lineage :: "Manager \<Rightarrow> Task \<Rightarrow> bool" where
  "lineage m t \<longleftrightarrow> t_AgentID t \<noteq> [] \<and> t_Depth t = int (length (t_Ancestry t)) + 1
     \<and> t_Depth t \<le> l_MaxDepth (limits m) \<and> distinct (t_Ancestry t @ [t_AgentID t])
     \<and> successively (allowed m) (t_Ancestry t @ [t_AgentID t])"

text \<open>What the program counter says about the task.\<close>

definition status_is :: "Manager \<Rightarrow> string \<Rightarrow> (TaskStatus \<Rightarrow> bool) \<Rightarrow> bool" where
  "status_is m i P \<longleftrightarrow> (\<exists>t. map_of (tasks m) i = Some t \<and> P (t_Status t))"

definition ended :: "Manager \<Rightarrow> string \<Rightarrow> bool" where
  "ended m i \<longleftrightarrow> (\<forall>t. map_of (tasks m) i = Some t \<longrightarrow> isTerminal (t_Status t))"

fun pc_ok :: "Manager \<Rightarrow> string \<Rightarrow> pc \<Rightarrow> bool" where
  "pc_ok m i Announce = status_is m i (\<lambda>st. st = TaskWorking)"
| "pc_ok m i Executing = status_is m i (\<lambda>st. st = TaskWorking)"
| "pc_ok m i (Finishing st res err) = (isTerminal st \<and> status_is m i (\<lambda>st. \<not> isTerminal st))"
| "pc_ok m i (Persisting st t) = ended m i"
| "pc_ok m i Closing = ended m i"
| "pc_ok m i Leaving = (ended m i \<and> map_of (done_chans m) i \<noteq> Some False)"
| "pc_ok m i Exited = (ended m i \<and> map_of (done_chans m) i \<noteq> Some False)"
| "pc_ok m i _ = status_is m i (\<lambda>st. st = TaskSubmitted)"

fun running :: "pc \<Rightarrow> bool" where
  "running (Persisting st t) = False" | "running Closing = False" | "running Leaving = False"
| "running Exited = False" | "running _ = True"

fun before_profile :: "pc \<Rightarrow> bool" where
  "before_profile Submitted = True" | "before_profile Spawning = True" | "before_profile Run_start = True"
| "before_profile (Want_profile a) = True" | "before_profile _ = False"

definition saved_in :: "task_file \<Rightarrow> Task \<Rightarrow> bool" where
  "saved_in f t \<longleftrightarrow> (\<exists>ts. f = Tasks ts \<and> Some t \<in> set ts)"

definition worker_ok :: "Manager \<Rightarrow> string \<Rightarrow> worker \<Rightarrow> bool" where
  "worker_ok m i w \<longleftrightarrow> pc_ok m i (w_pc w)
     \<and> (\<forall>t. map_of (tasks m) i = Some t \<longrightarrow> lineage m t)
     \<and> (\<forall>meta. w_meta w = Some meta \<longrightarrow> (\<exists>t. lineage m t \<and> meta = meta_of t))
     \<and> (w_pc w = Executing \<or> w_pc w = Announce \<longrightarrow> w_meta w \<noteq> None)
     \<and> (w_saved w \<longrightarrow> ended m i)
     \<and> (w_saved w \<longrightarrow> \<not> running (w_pc w) \<and> (\<forall>st t. w_pc w \<noteq> Persisting st t))
     \<and> (\<forall>t. w_saved w \<longrightarrow> map_of (tasks m) i = Some t \<longrightarrow> saved_in (disk m) t)
     \<and> (before_profile (w_pc w) \<longrightarrow> w_prof w = None)
     \<and> (\<forall>a. w_prof w = Some a \<longrightarrow> map_of (profileSems m) a \<noteq> None)
     \<and> (w_pc w = Exited \<longrightarrow> \<not> w_held w \<and> w_prof w = None)"

definition holders :: "sys \<Rightarrow> string set" where
  "holders s = {i. \<exists>w. workers s i = Some w \<and> w_held w}"

definition profile_holders :: "sys \<Rightarrow> string \<Rightarrow> string set" where
  "profile_holders s a = {i. \<exists>w. workers s i = Some w \<and> w_prof w = Some a}"

definition slots_ok :: "sys \<Rightarrow> bool" where
  "slots_ok s \<longleftrightarrow> finite (dom (workers s)) \<and> sem (mgr s) = card (holders s)
     \<and> int (sem (mgr s)) \<le> l_MaxParallel (limits (mgr s))
     \<and> (\<forall>a n. map_of (profileSems (mgr s)) a = Some n \<longrightarrow> n = card (profile_holders s a)
          \<and> (\<exists>p. map_of (profiles (mgr s)) a = Some p \<and> int n \<le> profile_cap (limits (mgr s)) p))"

definition covered :: "sys \<Rightarrow> bool" where
  "covered s \<longleftrightarrow> (\<forall>i t. map_of (tasks (mgr s)) i = Some t \<longrightarrow> \<not> isTerminal (t_Status t) \<longrightarrow>
     (\<exists>w. workers s i = Some w \<and> running (w_pc w)))"

definition inv :: "sys \<Rightarrow> bool" where
  "inv s \<longleftrightarrow> store_ok (mgr s) \<and> bounded (mgr s) \<and> slots_ok s \<and> covered s
     \<and> (\<forall>i w. workers s i = Some w \<longrightarrow> worker_ok (mgr s) i w)"

section \<open>Cleanup\<close>

lemma store_ok_without: "store_ok m \<Longrightarrow> store_ok (without K m)"
  by (auto simp: store_ok_def distinct_without split: if_splits)

lemma bounded_without: "bounded m \<Longrightarrow> bounded (without K m)"
  using length_without [of K m] by (simp add: bounded_def)

lemma lineage_without [simp]: "lineage (without K m) t = lineage m t"
  by (simp add: lineage_def allowed_def [abs_def])

lemma ended_without: "ended m i \<Longrightarrow> ended (without K m) i"
  by (simp add: ended_def)

lemma status_is_without: "status_is m i P \<Longrightarrow> i \<notin> K \<Longrightarrow> status_is (without K m) i P"
  by (simp add: status_is_def)

lemma pc_ok_without:
  assumes "pc_ok m i p" "\<And>k. k \<in> K \<Longrightarrow> \<exists>t. map_of (tasks m) k = Some t \<and> isTerminal (t_Status t)"
  shows "pc_ok (without K m) i p"
proof (cases "i \<in> K")
  case True
  then obtain t where "map_of (tasks m) i = Some t" "isTerminal (t_Status t)" using assms(2) by blast
  then show ?thesis using assms(1) by (cases p) (auto simp: status_is_def ended_def)
next
  case False
  then show ?thesis using assms(1) by (cases p) (auto simp: status_is_def ended_def)
qed

lemma worker_ok_without:
  assumes "worker_ok m i w" "\<And>k. k \<in> K \<Longrightarrow> \<exists>t. map_of (tasks m) k = Some t \<and> isTerminal (t_Status t)"
  shows "worker_ok (without K m) i w"
  using assms pc_ok_without [OF _ assms(2), of i "w_pc w"]
  by (auto simp: worker_ok_def ended_def split: if_splits)

lemma inv_without:
  assumes "inv s" "\<And>k. k \<in> K \<Longrightarrow> \<exists>t. map_of (tasks (mgr s)) k = Some t \<and> isTerminal (t_Status t)"
  shows "inv (s\<lparr>mgr := without K (mgr s)\<rparr>)"
  using assms(1) worker_ok_without [OF _ assms(2)]
  by (auto simp: inv_def store_ok_without bounded_without slots_ok_def covered_def holders_def
      profile_holders_def split: if_splits)

lemma inv_cleanup:
  assumes "inv s"
  shows "inv (s\<lparr>mgr := cleanupLocked now (mgr s)\<rparr>)"
proof -
  have d: "distinct (map fst (tasks (mgr s)))" using assms by (simp add: inv_def store_ok_def)
  obtain K where "cleanupLocked now (mgr s) = without K (mgr s)"
    "\<And>k. k \<in> K \<Longrightarrow> \<exists>t. map_of (tasks (mgr s)) k = Some t \<and> isTerminal (t_Status t)"
    using cleanup_without [OF d, of now] by metis
  then show ?thesis using inv_without [OF assms] by simp
qed

section \<open>Delegation\<close>

lemma delegate_task_ok:
  assumes "delegate_task m req nested now trace i = Inr t"
    and "\<And>meta. nested = Some meta \<Longrightarrow> \<exists>u. lineage m u \<and> meta = meta_of u"
  shows "t_ID t = i \<and> t_Status t = TaskSubmitted \<and> lineage m t"
proof -
  let ?a = "TrimSpace (dr_AgentID req)"
  have g: "delegate_guard m ?a (TrimSpace (dr_Prompt req)) nested = None"
    and t: "t = delegate_build m req nested now trace i"
    using assms(1) by (auto simp: delegate_task_def split: option.splits)
  have f: "t_ID t = i" "t_Status t = TaskSubmitted" "t_AgentID t = ?a" "t_Depth t = delegate_depth nested"
    "t_Ancestry t = delegate_ancestry nested"
    by (simp_all add: t delegate_build_def Let_def)
  have a: "?a \<noteq> []" "delegate_depth nested \<le> l_MaxDepth (limits m)" "source_allowed m nested ?a"
    "?a \<notin> set (delegate_ancestry nested)"
    using g by (auto simp: delegate_guard_def split: option.splits if_splits)
  show ?thesis
  proof (cases nested)
    case None
    then show ?thesis using a f by (simp add: lineage_def delegate_ancestry_def delegate_depth_def)
  next
    case (Some meta)
    then obtain u where u: "lineage m u" "meta = meta_of u" using assms(2) by blast
    then have "delegate_ancestry nested = t_Ancestry u @ [t_AgentID u]" "delegate_source nested = Some (t_AgentID u)"
      "delegate_depth nested = t_Depth u + 1"
      by (simp_all add: Some delegate_ancestry_def delegate_source_def delegate_depth_def meta_of_def lineage_def)
    moreover from this a(3) have "allowed m (t_AgentID u) ?a"
      by (auto simp: source_allowed_def allowed_def get_profile_def split: option.splits)
    ultimately show ?thesis using a f u(1) by (auto simp: lineage_def successively_append_iff)
  qed
qed

lemma delegate_insert_cases:
  assumes "delegate_insert now t m = (m', r)"
  shows "(r = None \<and> int (length (tasks (cleanupLocked now m))) < l_MaxTasks (limits (cleanupLocked now m))
      \<and> m' = cleanupLocked now m\<lparr>tasks := AList.update (t_ID t) t (tasks (cleanupLocked now m)),
                done_chans := AList.update (t_ID t) False (done_chans (cleanupLocked now m))\<rparr>)
    \<or> (r \<noteq> None \<and> (m' = m \<or> m' = cleanupLocked now m))"
  using assms by (auto simp: delegate_insert_def Let_def split: if_splits)

lemma length_update: "length (AList.update k v xs) = length xs + (if k \<in> set (map fst xs) then 0 else 1)"
  using arg_cong [OF update_keys [of k v xs], of length] by simp

lemma map_of_None_keys: "map_of xs k = None \<longleftrightarrow> k \<notin> set (map fst xs)"
  by (simp add: map_of_eq_None_iff)

text \<open>Inserting a fresh submitted task with its worker.\<close>

definition insert_task :: "Task \<Rightarrow> Manager \<Rightarrow> Manager" where
  "insert_task t m = m\<lparr>tasks := AList.update (t_ID t) t (tasks m),
     done_chans := AList.update (t_ID t) False (done_chans m)\<rparr>"

lemma insert_task_simps [simp]:
  "map_of (tasks (insert_task t m)) = (map_of (tasks m))(t_ID t \<mapsto> t)"
  "map_of (done_chans (insert_task t m)) = (map_of (done_chans m))(t_ID t \<mapsto> False)"
  "limits (insert_task t m) = limits m" "profiles (insert_task t m) = profiles m" "sem (insert_task t m) = sem m"
  "profileSems (insert_task t m) = profileSems m" "disk (insert_task t m) = disk m"
  by (simp_all add: insert_task_def)

lemma lineage_insert [simp]: "lineage (insert_task t m) u = lineage m u"
  by (simp add: lineage_def allowed_def [abs_def])

lemma pc_ok_insert: "i \<noteq> t_ID t \<Longrightarrow> pc_ok (insert_task t m) i p = pc_ok m i p"
  by (cases p) (simp_all add: status_is_def ended_def)

lemma worker_ok_insert: "i \<noteq> t_ID t \<Longrightarrow> worker_ok (insert_task t m) i w = worker_ok m i w"
  by (simp add: worker_ok_def pc_ok_insert ended_def)

lemma inv_insert:
  assumes inv: "inv s" and new: "workers s (t_ID t) = None" "map_of (tasks (mgr s)) (t_ID t) = None"
    and t: "t_Status t = TaskSubmitted" "lineage (mgr s) t" "t_ID t \<noteq> []"
    and room: "int (length (tasks (mgr s))) < l_MaxTasks (limits (mgr s))"
  shows "inv (s\<lparr>mgr := insert_task t (mgr s), workers := (workers s)(t_ID t \<mapsto> new_worker)\<rparr>)" (is "inv ?s")
proof -
  have k: "t_ID t \<notin> set (map fst (tasks (mgr s)))" using new(2) by (simp add: map_of_None_keys)
  have st: "store_ok (mgr ?s)"
    using inv t k by (auto simp: inv_def store_ok_def known_status_def insert_task_def distinct_update)
  have b: "bounded (mgr ?s)"
    using k room by (simp add: bounded_def insert_task_def length_update)
  have h: "holders ?s = holders s" "profile_holders ?s a = profile_holders s a" for a
    using new(1) by (auto simp: holders_def profile_holders_def new_worker_def)
  have sl: "slots_ok ?s"
    using inv h by (auto simp: inv_def slots_ok_def)
  have c: "covered ?s"
    using inv by (auto simp: inv_def covered_def new_worker_def)
  have new_ok: "worker_ok (insert_task t (mgr s)) (t_ID t) new_worker"
    using t by (simp add: worker_ok_def new_worker_def status_is_def)
  have w: "worker_ok (mgr ?s) i w" if "workers ?s i = Some w" for i w
    using that inv new_ok by (cases "i = t_ID t") (auto simp: inv_def worker_ok_insert)
  show ?thesis using st b sl c w by (simp add: inv_def)
qed

lemma cleanup_keeps:
  assumes "store_ok m"
  shows "limits (cleanupLocked now m) = limits m" "profiles (cleanupLocked now m) = profiles m"
    "map_of (tasks m) k = None \<Longrightarrow> map_of (tasks (cleanupLocked now m)) k = None"
proof -
  obtain K where K: "cleanupLocked now m = without K m"
    using assms cleanup_without [of m now] by (metis store_ok_def)
  show "limits (cleanupLocked now m) = limits m" "profiles (cleanupLocked now m) = profiles m"
    "map_of (tasks m) k = None \<Longrightarrow> map_of (tasks (cleanupLocked now m)) k = None"
    by (simp_all add: K)
qed

lemma inv_submit:
  assumes inv: "inv s"
    and nested: "nested = None \<or> (\<exists>j w. workers s j = Some w \<and> w_pc w = Executing \<and> nested = w_meta w)"
    and d: "delegate_task (mgr s) req nested now trace i = Inr t" "i \<noteq> []" "workers s i = None"
      "map_of (tasks (mgr s)) i = None" "delegate_insert now t (mgr s) = (m', None)"
  shows "inv (s\<lparr>mgr := m', workers := (workers s)(i \<mapsto> new_worker)\<rparr>)"
proof -
  have "\<exists>u. lineage (mgr s) u \<and> meta = meta_of u" if "nested = Some meta" for meta
    using nested inv that by (auto simp: inv_def worker_ok_def)
  then have t: "t_ID t = i" "t_Status t = TaskSubmitted" "lineage (mgr s) t"
    using delegate_task_ok [OF d(1)] by blast+
  have st: "store_ok (mgr s)" using inv by (simp add: inv_def)
  note k = cleanup_keeps [OF st, where now = now]
  let ?s = "s\<lparr>mgr := cleanupLocked now (mgr s)\<rparr>"
  have l: "lineage (cleanupLocked now (mgr s)) t" using t(3) by (simp add: lineage_def allowed_def [abs_def] k)
  have "m' = insert_task t (mgr ?s)" "int (length (tasks (mgr ?s))) < l_MaxTasks (limits (mgr ?s))"
    using delegate_insert_cases [OF d(5)] by (auto simp: insert_task_def)
  with inv_insert [OF inv_cleanup [OF inv, of now], of t] d l k(3) t show ?thesis by simp
qed

lemma inv_refuse:
  assumes "inv s" "delegate_insert now t (mgr s) = (m', Some e)"
  shows "inv (s\<lparr>mgr := m'\<rparr>)"
  using delegate_insert_cases [OF assms(2)] inv_cleanup [OF assms(1), of now] assms(1) by auto

section \<open>Steps of a worker\<close>

lemma update_present: "map_of xs k = Some v \<Longrightarrow> map fst (AList.update k u xs) = map fst xs"
  by (metis map_of_None_keys option.distinct(1) update_keys)

lemmas work_defs = acquire_def release_def acquire_profile_def release_profile_def leave_def
  persist_def emit_event_def register_cancel_def finish_locked_def close_done_def

lemma work_frame:
  assumes "work now io i m w m' w'"
  shows "limits m' = limits m" "profiles m' = profiles m" "persistPath m' = persistPath m"
    "dom (map_of (profileSems m')) = dom (map_of (profileSems m))"
    "j \<noteq> i \<Longrightarrow> map_of (tasks m') j = map_of (tasks m) j"
    "j \<noteq> i \<Longrightarrow> map_of (done_chans m') j = map_of (done_chans m) j"
    "map fst (tasks m') = map fst (tasks m)"
  using assms
  by (cases rule: work.cases; auto simp: work_defs Let_def update_present insert_dom
        split: option.splits if_splits prod.splits; fail)+

text \<open>What a step does to the file, and to the task of the worker.\<close>

lemma work_disk:
  assumes "work now io i m w m' w'"
  shows "disk m' = disk m
    \<or> (disk m' = Tasks (map Some (SliceStable by_created (map snd (tasks m)))) \<and> tasks m' = tasks m)"
  using assms
  by (cases rule: work.cases; auto simp: work_defs Let_def split: option.splits if_splits prod.splits)

lemma lineage_update [simp]:
  "lineage m (start_task now t) = lineage m t" "lineage m (end_task now st res err t) = lineage m t"
  "t_ID (start_task now t) = t_ID t" "t_ID (end_task now st res err t) = t_ID t"
  "t_Status (start_task now t) = TaskWorking" "t_Status (end_task now st res err t) = st"
  by (simp_all add: lineage_def start_task_def end_task_def)

lemma lineage_frame: "limits m' = limits m \<Longrightarrow> profiles m' = profiles m \<Longrightarrow> lineage m' t = lineage m t"
  by (simp add: lineage_def allowed_def [abs_def])

lemma file_ok_persisted:
  assumes "store_ok m"
  shows "file_ok (Tasks (map Some (SliceStable by_created (map snd (tasks m)))))"
proof -
  have t: "t_ID t = k \<and> k \<noteq> [] \<and> known_status (t_Status t)" if "(k, t) \<in> set (tasks m)" for k t
  proof -
    have "map_of (tasks m) k = Some t" using assms that by (intro map_of_is_SomeI) (auto simp: store_ok_def)
    then show ?thesis using assms by (auto simp: store_ok_def)
  qed
  have "map t_ID (map snd (tasks m)) = map fst (tasks m)" using t by auto
  moreover have "distinct (map fst (tasks m))" using assms by (simp add: store_ok_def)
  ultimately have "distinct (map t_ID (map snd (tasks m)))" by metis
  then have "distinct (map t_ID (SliceStable by_created (map snd (tasks m))))"
    by (metis mset_SliceStable mset_eq_imp_distinct_iff mset_map)
  then show ?thesis using t by (auto simp: file_ok_def)
qed

lemma saved_in_persisted:
  "map_of (tasks m) i = Some t \<Longrightarrow> saved_in (Tasks (map Some (SliceStable by_created (map snd (tasks m))))) t"
  by (auto simp: saved_in_def dest!: map_of_SomeD intro: rev_image_eqI)

lemma ctx_terminal [simp]: "isTerminal (outcome_status err ctx)"
  by (auto simp: outcome_status_def split: option.split)

lemma work_tasks:
  assumes "work now io i m w m' w'"
  shows "map_of (tasks m') = map_of (tasks m)
    \<or> (\<exists>t. w_pc w = Begin \<and> w_pc w' = Announce \<and> map_of (tasks m) i = Some t
         \<and> map_of (tasks m') = (map_of (tasks m))(i \<mapsto> start_task now t))
    \<or> (\<exists>st res err t. w_pc w = Finishing st res err \<and> map_of (tasks m) i = Some t
         \<and> map_of (tasks m') = (map_of (tasks m))(i \<mapsto> end_task now st res err t))"
  using assms
  by (cases rule: work.cases; auto simp: work_defs Let_def split: option.splits if_splits prod.splits; fail)

lemma work_done:
  assumes "work now io i m w m' w'"
  shows "map_of (done_chans m') = map_of (done_chans m)
    \<or> (w_pc w = Closing \<and> map_of (done_chans m) i \<noteq> None
       \<and> map_of (done_chans m') = (map_of (done_chans m))(i \<mapsto> True))"
  using assms
  by (cases rule: work.cases; auto simp: work_defs Let_def split: option.splits if_splits prod.splits; fail)

lemma store_ok_work:
  assumes "store_ok m" "worker_ok m i w" "work now io i m w m' w'"
  shows "store_ok m'"
proof -
  note f = work_frame [OF assms(3)]
  note w = work_tasks [OF assms(3)] work_done [OF assms(3)]
  have p: "pc_ok m i (w_pc w)" using assms(2) by (simp add: worker_ok_def)
  have s: "\<And>k t. map_of (tasks m) k = Some t \<Longrightarrow> t_ID t = k \<and> k \<noteq> [] \<and> known_status (t_Status t)"
    "\<And>k. map_of (done_chans m) k = None \<longleftrightarrow> map_of (tasks m) k = None"
    "\<And>k t. map_of (done_chans m) k = Some True \<Longrightarrow> map_of (tasks m) k = Some t \<Longrightarrow> isTerminal (t_Status t)"
    using assms(1) unfolding store_ok_def by blast+
  have d: "file_ok (disk m')"
    using work_disk [OF assms(3)] file_ok_persisted [OF assms(1)] assms(1) by (auto simp: store_ok_def)
  have t: "t_ID t = k \<and> k \<noteq> [] \<and> known_status (t_Status t)" if "map_of (tasks m') k = Some t" for k t
    using w(1) p that s(1) [of k] s(1) [of i] by (auto simp: known_terminal split: if_splits)
  have c: "\<forall>k. map_of (done_chans m') k = None \<longleftrightarrow> map_of (tasks m') k = None"
    using w s(2) by (auto split: if_splits)
  have e: "isTerminal (t_Status t)" if "map_of (done_chans m') k = Some True" "map_of (tasks m') k = Some t" for k t
    using w p that s(3) [of k] s(3) [of i] by (auto simp: ended_def status_is_def split: if_splits)
  show ?thesis using assms(1) d t c e f(1,7) by (simp add: store_ok_def)
qed

lemma worker_ok_other:
  assumes "worker_ok m j u" "work now io i m w m' w'" "j \<noteq> i"
  shows "worker_ok m' j u"
proof -
  note f = work_frame [OF assms(2)]
  have t: "map_of (tasks m') j = map_of (tasks m) j" "map_of (done_chans m') j = map_of (done_chans m) j"
    using f(5,6) assms(3) by blast+
  have p: "pc_ok m' j q = pc_ok m j q" for q
    by (cases q) (simp_all add: status_is_def ended_def t)
  have l: "lineage m' t = lineage m t" for t using f(1,2) by (rule lineage_frame)
  have d: "saved_in (disk m') v" if "saved_in (disk m) v" "map_of (tasks m) j = Some v" for v
    using work_disk [OF assms(2)] that saved_in_persisted by metis
  have ps: "map_of (profileSems m') a = None \<longleftrightarrow> map_of (profileSems m) a = None" for a
    using f(4) by (metis domIff)
  show ?thesis using assms(1) d by (auto simp: worker_ok_def t p l ended_def ps)
qed

lemma pc_ok_work:
  assumes "store_ok m" "worker_ok m i w" "work now io i m w m' w'"
  shows "pc_ok m' i (w_pc w')"
proof -
  have p: "pc_ok m i (w_pc w)" using assms(2) by (simp add: worker_ok_def)
  have s: "map_of (done_chans m) i = None \<longleftrightarrow> map_of (tasks m) i = None"
    using assms(1) unfolding store_ok_def by blast
  show ?thesis using assms(3) p s
    by (cases rule: work.cases; auto simp: work_defs Let_def status_is_def ended_def
        split: option.splits if_splits prod.splits)
qed

lemma worker_ok_own:
  assumes "store_ok m" "worker_ok m i w" "work now io i m w m' w'"
  shows "worker_ok m' i w'"
proof -
  note f = work_frame [OF assms(3)]
  have p: "pc_ok m' i (w_pc w')" using assms by (rule pc_ok_work)
  have l: "lineage m' t = lineage m t" for t using f(1,2) by (rule lineage_frame)
  have t: "lineage m' t" if "map_of (tasks m') i = Some t" for t
    using work_tasks [OF assms(3)] that assms(2) by (auto simp: worker_ok_def l)
  have meta: "\<exists>t. lineage m' t \<and> meta = meta_of t" if "w_meta w' = Some meta" for meta
    unfolding l using assms(3,2) that
    by (cases rule: work.cases; fastforce simp: work_defs Let_def worker_ok_def
        split: option.splits if_splits prod.splits)
  have some: "w_pc w' = Executing \<or> w_pc w' = Announce \<longrightarrow> w_meta w' \<noteq> None"
    using assms(3,2)
    by (cases rule: work.cases; auto simp: work_defs Let_def worker_ok_def split: option.splits if_splits prod.splits)
  have sv: "w_saved w' \<longrightarrow> \<not> running (w_pc w') \<and> (\<forall>st t. w_pc w' \<noteq> Persisting st t)"
    using assms(3,2)
    by (cases rule: work.cases; auto simp: work_defs Let_def worker_ok_def split: option.splits if_splits prod.splits)
  have en: "w_saved w' \<longrightarrow> ended m' i" using sv p by (cases "w_pc w'") auto
  have sd: "saved_in (disk m') t" if "w_saved w'" "map_of (tasks m') i = Some t" for t
    using assms(3,2) that
    by (cases rule: work.cases; auto simp: work_defs Let_def worker_ok_def saved_in_persisted
        split: option.splits if_splits prod.splits)
  have bp: "before_profile (w_pc w') \<longrightarrow> w_prof w' = None"
    using assms(3,2)
    by (cases rule: work.cases; auto simp: work_defs Let_def worker_ok_def split: option.splits if_splits prod.splits)
  have ps: "map_of (profileSems m') a = None \<longleftrightarrow> map_of (profileSems m) a = None" for a
    using f(4) by (metis domIff)
  have pr: "map_of (profileSems m') a \<noteq> None" if "w_prof w' = Some a" for a
    unfolding ps using assms(3,2) that
    by (cases rule: work.cases; auto simp: work_defs Let_def worker_ok_def split: option.splits if_splits prod.splits)
  have ex: "w_pc w' = Exited \<longrightarrow> \<not> w_held w' \<and> w_prof w' = None"
    using assms(3,2)
    by (cases rule: work.cases; auto simp: work_defs Let_def worker_ok_def split: option.splits if_splits prod.splits)
  show ?thesis using p t meta some sv en sd bp pr ex by (auto simp: worker_ok_def)
qed

lemma covered_work:
  assumes "covered s" "workers s i = Some w" "work now io i (mgr s) w m' w'" "worker_ok m' i w'"
  shows "covered (s\<lparr>mgr := m', workers := (workers s)(i \<mapsto> w')\<rparr>)"
proof -
  have own: "running (w_pc w')" if "map_of (tasks m') i = Some t" "\<not> isTerminal (t_Status t)" for t
    using assms(4) that by (cases "w_pc w'") (auto simp: worker_ok_def ended_def)
  have "map_of (tasks m') j = map_of (tasks (mgr s)) j" if "j \<noteq> i" for j
    using work_frame(5) [OF assms(3)] that by blast
  then show ?thesis using own assms(1) by (auto simp: covered_def)
qed

subsection \<open>Slots\<close>

lemma card_flip:
  assumes "finite A"
  shows "card (if b then insert i A else A - {i})
    = (if b \<and> i \<notin> A then card A + 1 else if \<not> b \<and> i \<in> A then card A - 1 else card A)"
  using assms by (auto simp: insert_absorb)

lemma holders_update:
  "holders (s\<lparr>mgr := m', workers := (workers s)(i \<mapsto> w')\<rparr>)
   = (if w_held w' then insert i (holders s) else holders s - {i})"
  by (auto simp: holders_def)

lemma profile_holders_update:
  "profile_holders (s\<lparr>mgr := m', workers := (workers s)(i \<mapsto> w')\<rparr>) a
   = (if w_prof w' = Some a then insert i (profile_holders s a) else profile_holders s a - {i})"
  by (auto simp: profile_holders_def)

lemma finite_holders: "finite (dom (workers s)) \<Longrightarrow> finite (holders s) \<and> finite (profile_holders s a)"
  by (rule conjI; erule rev_finite_subset; auto simp: holders_def profile_holders_def)

text \<open>How one step changes the counters.\<close>

lemma work_sem:
  assumes "work now io i m w m' w'"
  shows "(w_held w' = w_held w \<and> sem m' = sem m)
    \<or> (\<not> w_held w \<and> w_held w' \<and> sem m' = sem m + 1 \<and> int (sem m) < l_MaxParallel (limits m))
    \<or> (w_held w \<and> \<not> w_held w' \<and> sem m' = sem m - 1)"
  using assms
  by (cases rule: work.cases; auto simp: work_defs Let_def split: option.splits if_splits prod.splits)

lemma work_profileSem:
  assumes "work now io i m w m' w'" "worker_ok m i w" "map_of (profileSems m) a = Some n"
  shows "((w_prof w' = Some a \<longleftrightarrow> w_prof w = Some a) \<and> map_of (profileSems m') a = Some n)
    \<or> (w_prof w \<noteq> Some a \<and> w_prof w' = Some a \<and> map_of (profileSems m') a = Some (n + 1)
       \<and> (\<exists>p. map_of (profiles m) a = Some p \<and> int n < profile_cap (limits m) p))
    \<or> (w_prof w = Some a \<and> w_prof w' \<noteq> Some a \<and> map_of (profileSems m') a = Some (n - 1))"
proof -
  have "before_profile (w_pc w) \<Longrightarrow> w_prof w = None" using assms(2) by (simp add: worker_ok_def)
  with assms(1,3) show ?thesis
    by (cases rule: work.cases; simp add: work_defs Let_def split: option.splits if_splits prod.splits; auto split: if_splits)
qed

lemma slots_ok_work:
  assumes "slots_ok s" "workers s i = Some w" "worker_ok (mgr s) i w" "work now io i (mgr s) w m' w'"
  shows "slots_ok (s\<lparr>mgr := m', workers := (workers s)(i \<mapsto> w')\<rparr>)" (is "slots_ok ?s")
proof -
  note f = work_frame [OF assms(4)]
  have fin: "finite (dom (workers s))" and sem: "sem (mgr s) = card (holders s)"
    and le: "int (sem (mgr s)) \<le> l_MaxParallel (limits (mgr s))"
    using assms(1) by (auto simp: slots_ok_def)
  note fh = finite_holders [OF fin]
  have mem: "i \<in> holders s \<longleftrightarrow> w_held w" "i \<in> profile_holders s a \<longleftrightarrow> w_prof w = Some a" for a
    using assms(2) by (auto simp: holders_def profile_holders_def)
  have 1: "sem m' = card (holders ?s)" "int (sem m') \<le> l_MaxParallel (limits m')"
    using work_sem [OF assms(4)] sem le fh mem f(1) by (auto simp: holders_update card_flip insert_absorb)
  have 2: "n = card (profile_holders ?s a)
      \<and> (\<exists>p. map_of (profiles m') a = Some p \<and> int n \<le> profile_cap (limits m') p)"
    if n: "map_of (profileSems m') a = Some n" for a n
  proof -
    obtain k where k: "map_of (profileSems (mgr s)) a = Some k" using f(4) n by (metis domD domI)
    obtain p where p: "k = card (profile_holders s a)" "map_of (profiles (mgr s)) a = Some p"
      "int k \<le> profile_cap (limits (mgr s)) p" using assms(1) k unfolding slots_ok_def by blast
    show ?thesis
      using work_profileSem [OF assms(4,3) k] p n fh mem(2) [of a] f(1,2)
      by (auto simp: profile_holders_update card_flip insert_absorb)
  qed
  show ?thesis using fin 1 2 by (simp add: slots_ok_def)
qed

section \<open>All reachable states\<close>

lemma inv_work:
  assumes "inv s" "workers s i = Some w" "work now io i (mgr s) w m' w'"
  shows "inv (s\<lparr>mgr := m', workers := (workers s)(i \<mapsto> w')\<rparr>)"
proof -
  have a: "store_ok (mgr s)" "bounded (mgr s)" "slots_ok s" "covered s" "worker_ok (mgr s) i w"
    and others: "\<And>j u. workers s j = Some u \<Longrightarrow> worker_ok (mgr s) j u"
    using assms(1,2) by (auto simp: inv_def)
  have own: "worker_ok m' i w'" using a(1,5) assms(3) by (rule worker_ok_own)
  have "bounded m'"
    using a(2) work_frame(1,7) [OF assms(3)] by (metis bounded_def length_map)
  then show ?thesis
    using own others worker_ok_other [OF others assms(3)] store_ok_work [OF a(1,5) assms(3)]
      slots_ok_work [OF a(3) assms(2) a(5) assms(3)] covered_work [OF a(4) assms(2,3) own]
    by (auto simp: inv_def)
qed

lemma mgr_inv_step: "inv s \<Longrightarrow> step s s' \<Longrightarrow> inv s'"
  by (erule step.cases) (auto intro: inv_submit inv_refuse inv_cleanup inv_work)

lemma inv_reach: "reach s0 s \<Longrightarrow> inv s0 \<Longrightarrow> inv s"
  by (induction rule: reach.induct) (auto intro: mgr_inv_step)

subsection \<open>The initial state\<close>

text \<open>A manager before any task: profiles with an unused slot channel each.\<close>

definition fresh :: "Manager \<Rightarrow> bool" where
  "fresh m \<longleftrightarrow> tasks m = [] \<and> done_chans m = [] \<and> sem m = 0
     \<and> (\<forall>a n. map_of (profileSems m) a = Some n \<longrightarrow> n = 0 \<and> map_of (profiles m) a \<noteq> None)"

lemma add_profile_fresh:
  "add_profile m p = Inr m' \<Longrightarrow> fresh m \<Longrightarrow> fresh m' \<and> limits m' = limits m \<and> disk m' = disk m \<and> persistPath m' = persistPath m"
  by (auto simp: add_profile_def fresh_def Let_def split: if_splits)

lemma add_profiles_fresh:
  "add_profiles m ps = Inr m' \<Longrightarrow> fresh m \<Longrightarrow> fresh m' \<and> limits m' = limits m \<and> disk m' = disk m \<and> persistPath m' = persistPath m"
proof (induction ps arbitrary: m)
  case (Cons p ps)
  then obtain m1 where m1: "add_profile m p = Inr m1" "add_profiles m1 ps = Inr m'" by (auto split: sum.splits)
  with Cons.IH [OF m1(2)] add_profile_fresh [OF m1(1) Cons.prems(2)] show ?case by simp
qed simp

lemma recover_task_simps [simp]:
  "t_ID (recover_task now t) = t_ID t" "known_status (t_Status t) \<Longrightarrow> isTerminal (t_Status (recover_task now t))"
  by (auto simp: recover_task_def known_status_def)

text \<open>A file of the manager loads into finished tasks with closed signals.\<close>

lemma load_tasks_map:
  assumes "distinct (map t_ID us)" "\<forall>u \<in> set us. t_ID u \<noteq> [] \<and> known_status (t_Status u)"
  shows "map_of (tasks (load_tasks now (map Some us) m)) k
      = (case List.find (\<lambda>u. t_ID u = k) us of Some u \<Rightarrow> Some (recover_task now u) | None \<Rightarrow> map_of (tasks m) k)
    \<and> map_of (done_chans (load_tasks now (map Some us) m)) k
      = (case List.find (\<lambda>u. t_ID u = k) us of Some u \<Rightarrow> Some True | None \<Rightarrow> map_of (done_chans m) k)"
  using assms
proof (induction us arbitrary: m)
  case (Cons u us)
  let ?m = "m\<lparr>tasks := AList.update (t_ID u) (recover_task now u) (tasks m),
    done_chans := AList.update (t_ID u) True (done_chans m)\<rparr>"
  have "load_tasks now (map Some (u # us)) m = load_tasks now (map Some us) ?m"
    using Cons.prems by (simp add: Let_def)
  moreover have "List.find (\<lambda>v. t_ID v = t_ID u) us = None"
    using Cons.prems(1) by (auto simp: find_None_iff) (metis image_eqI)
  ultimately show ?case using Cons.IH [of ?m] Cons.prems by (auto split: option.splits)
qed simp

lemma load_tasks_frame:
  "limits (load_tasks now ts m) = limits m \<and> profiles (load_tasks now ts m) = profiles m
   \<and> sem (load_tasks now ts m) = sem m \<and> profileSems (load_tasks now ts m) = profileSems m
   \<and> disk (load_tasks now ts m) = disk m
   \<and> (distinct (map fst (tasks m)) \<longrightarrow> distinct (map fst (tasks (load_tasks now ts m))))"
  by (induction now ts m rule: load_tasks.induct) (auto simp: Let_def distinct_update)

text \<open>After loading, every task is finished; the bound follows from the cleanup.\<close>

definition loaded :: "Manager \<Rightarrow> bool" where
  "loaded m \<longleftrightarrow> store_ok m \<and> sem m = 0
     \<and> (\<forall>a n. map_of (profileSems m) a = Some n \<longrightarrow> n = 0 \<and> map_of (profiles m) a \<noteq> None)
     \<and> (\<forall>k t. map_of (tasks m) k = Some t \<longrightarrow> isTerminal (t_Status t))"

lemma loadstore_loaded:
  assumes "Manager_load rf now m = Inr m'" "fresh m" "file_ok (disk m)" "0 < l_MaxTasks (limits m)"
  shows "loaded m'" "limits m' = limits m"
proof -
  have "loaded m" using assms(2-4) by (simp add: fresh_def loaded_def store_ok_def)
  moreover have "loaded (load_tasks now ts m)" if ts: "disk m = Tasks ts" for ts
  proof -
    obtain us where us: "ts = map Some us" "distinct (map t_ID us)"
      "\<forall>u \<in> set us. t_ID u \<noteq> [] \<and> known_status (t_Status u)"
      using assms(3) ts by (auto simp: file_ok_def)
    have e: "done_chans m = []" "tasks m = []"
      using assms(2) by (simp_all add: fresh_def)
    note l = load_tasks_map [OF us(2,3), of now, folded us(1)] load_tasks_frame [of now ts m]
    show ?thesis using assms(2-4) l us(3) e
      by (auto simp: loaded_def store_ok_def fresh_def known_terminal dest!: find_Some_in split: option.splits)
  qed
  ultimately show "loaded m'" using assms(1) by (auto simp: Manager_load_def split: if_splits task_file.splits)
  show "limits m' = limits m"
    using assms(1) load_tasks_frame by (auto simp: Manager_load_def split: if_splits task_file.splits)
qed

lemma normalize_pos:
  "0 < l_MaxTasks (normalizeLimits l)" "0 < l_MaxParallel (normalizeLimits l)" "0 < l_MaxDepth (normalizeLimits l)"
  by (simp_all add: normalizeLimits_def Let_def)

lemma inv_start:
  assumes "NewManager ps l path f rf now = Inr m0" "file_ok f"
  shows "inv (start m0)" "limits m0 = normalizeLimits l"
proof -
  let ?m = "\<lparr>profiles = [], tasks = [], cancels = [], done_chans = [], limits = normalizeLimits l,
    sem = 0, profileSems = [], persistPath = TrimSpace path, disk = f, sink = []\<rparr>"
  obtain m1 m2 where m: "add_profiles ?m ps = Inr m1" "Manager_load rf now m1 = Inr m2" "m0 = cleanupLocked now m2"
    using assms(1) by (auto simp: NewManager_def Let_def split: sum.splits)
  have f1: "fresh m1" "limits m1 = normalizeLimits l" "disk m1 = f"
    using add_profiles_fresh [OF m(1)] by (simp_all add: fresh_def)
  then have m2: "loaded m2" "limits m2 = normalizeLimits l"
    using loadstore_loaded [OF m(2)] assms(2) normalize_pos(1) by auto
  then have d: "distinct (map fst (tasks m2))" by (simp add: loaded_def store_ok_def)
  obtain K where K: "cleanupLocked now m2 = without K m2" "bounded (without K m2)"
    using cleanup_without [OF d, of now] m2 normalize_pos(1) [of l]
    by (metis bounded_def less_imp_le loaded_def without_simps(3))
  have cap: "0 \<le> profile_cap (normalizeLimits l) p" for p
    using normalize_pos(2) [of l] by (simp add: profile_cap_def)
  have sl: "n = 0 \<and> (\<exists>p. map_of (profiles m2) a = Some p \<and> int n \<le> profile_cap (normalizeLimits l) p)"
    if "map_of (profileSems m2) a = Some n" for a n
    using m2(1) that cap unfolding loaded_def by fastforce
  show "inv (start m0)"
    using m2 K normalize_pos(2) [of l] sl
    by (auto simp: inv_def start_def m(3) loaded_def store_ok_without slots_ok_def covered_def holders_def
        profile_holders_def split: if_splits)
  show "limits m0 = normalizeLimits l" by (simp add: m(3) K(1) m2)
qed

lemma find_key: "u \<in> set us \<Longrightarrow> distinct (map f us) \<Longrightarrow> List.find (\<lambda>v. f v = f u) us = Some u"
  by (induction us) (auto simp: rev_image_eqI)

lemma step_frame:
  assumes "step s s'" "inv s"
  shows "limits (mgr s') = limits (mgr s) \<and> profiles (mgr s') = profiles (mgr s)"
proof -
  have st: "store_ok (mgr s)" using assms(2) by (simp add: inv_def)
  note k = cleanup_keeps [OF st]
  show ?thesis
    using assms(1)
  proof cases
    case (submit nested req now traceID i t m')
    then show ?thesis using delegate_insert_cases [OF submit(7)] k by auto
  next
    case (refuse now t m' e)
    then show ?thesis using delegate_insert_cases [OF refuse(2)] k by auto
  next
    case (clean now)
    then show ?thesis using k by simp
  next
    case (worker_step i w now io m' w')
    then show ?thesis using work_frame(1,2) [OF worker_step(3)] by simp
  qed
qed

lemma reach_frame:
  "reach s0 s \<Longrightarrow> inv s0 \<Longrightarrow> limits (mgr s) = limits (mgr s0) \<and> profiles (mgr s) = profiles (mgr s0)"
  by (induction rule: reach.induct) (auto dest: step_frame inv_reach)

lemma terminal_stable:
  assumes "step s s'" "inv s" "map_of (tasks (mgr s)) i = Some t" "isTerminal (t_Status t)"
  shows "map_of (tasks (mgr s')) i = None \<or> map_of (tasks (mgr s')) i = Some t"
proof -
  have d: "distinct (map fst (tasks (mgr s)))" using assms(2) by (simp add: inv_def store_ok_def)
  have c: "map_of (tasks (cleanupLocked now (mgr s))) i = None
      \<or> map_of (tasks (cleanupLocked now (mgr s))) i = Some t" for now
    using cleanup_without [OF d, of now] assms(3) by (metis without_simps(1))
  show ?thesis
    using assms(1)
  proof cases
    case (submit nested req now traceID j u m')
    then have "j \<noteq> i" "t_ID u = j"
      using assms(3) by (auto simp: delegate_task_def delegate_build_def Let_def split: option.splits)
    then show ?thesis using submit delegate_insert_cases [OF submit(7)] c [of now] by auto
  next
    case (refuse now u m' e)
    then show ?thesis using delegate_insert_cases [OF refuse(2)] c [of now] assms(3) by auto
  next
    case (clean now)
    then show ?thesis using c by simp
  next
    case (worker_step j w now io m' w')
    have p: "pc_ok (mgr s) j (w_pc w)" using assms(2) worker_step(2) by (auto simp: inv_def worker_ok_def)
    show ?thesis
      using work_tasks [OF worker_step(3)] p assms(3,4) worker_step(1)
      by (cases "j = i") (auto simp: status_is_def)
  qed
qed

section \<open>Properties\<close>

text \<open>
  C38. For every start of the manager on a file of its own and every interleaving of delegations,
  goroutines, cancellations, failing writes and cleanups: the slots in use are exactly those held
  by goroutines and never more than \<^verbatim>\<open>MaxParallel\<close>; no profile has more running tasks than its own
  limit; no more than \<^verbatim>\<open>MaxTasks\<close> tasks are stored; a goroutine that has exited holds no slot; and
  every delegated task is within \<^verbatim>\<open>MaxDepth\<close>, records exactly its chain of delegating agents, that chain
  has no repetition (no delegation cycle), and each agent of the chain is allowed by its profile to
  delegate to the next.
\<close>

theorem manager_limits:
  assumes "NewManager ps l path f rf now = Inr m0" "file_ok f" "reach (start m0) s"
  shows "sem (mgr s) = card (holders s)
    \<and> int (card (holders s)) \<le> l_MaxParallel (normalizeLimits l)
    \<and> (\<forall>a n. map_of (profileSems (mgr s)) a = Some n \<longrightarrow> n = card (profile_holders s a) \<and>
         (\<exists>p. map_of (profiles m0) a = Some p \<and> int n \<le> profile_cap (normalizeLimits l) p))
    \<and> int (length (tasks (mgr s))) \<le> l_MaxTasks (normalizeLimits l)
    \<and> (\<forall>i w. workers s i = Some w \<longrightarrow> w_pc w = Exited \<longrightarrow> \<not> w_held w \<and> w_prof w = None)
    \<and> (\<forall>i w t. workers s i = Some w \<longrightarrow> map_of (tasks (mgr s)) i = Some t \<longrightarrow>
         t_Depth t = int (length (t_Ancestry t)) + 1 \<and> t_Depth t \<le> l_MaxDepth (normalizeLimits l)
         \<and> distinct (t_Ancestry t @ [t_AgentID t])
         \<and> successively (allowed m0) (t_Ancestry t @ [t_AgentID t]))"
proof -
  note i0 = inv_start [OF assms(1,2)]
  have inv: "inv s" and fr: "limits (mgr s) = normalizeLimits l" "profiles (mgr s) = profiles m0"
    using inv_reach [OF assms(3) i0(1)] reach_frame [OF assms(3) i0(1)] i0(2) by (simp_all add: start_def)
  have a: "allowed (mgr s) = allowed m0" by (simp add: fun_eq_iff allowed_def fr)
  have w: "worker_ok (mgr s) i w" if "workers s i = Some w" for i w using inv that by (simp add: inv_def)
  have l: "lineage (mgr s) t" if "workers s i = Some w" "map_of (tasks (mgr s)) i = Some t" for i w t
    using w [OF that(1)] that(2) by (simp add: worker_ok_def)
  have e: "\<not> w_held w \<and> w_prof w = None" if "workers s i = Some w" "w_pc w = Exited" for i w
    using w [OF that(1)] that(2) by (simp add: worker_ok_def)
  have s: "sem (mgr s) = card (holders s)" "int (card (holders s)) \<le> l_MaxParallel (normalizeLimits l)"
    "\<forall>a n. map_of (profileSems (mgr s)) a = Some n \<longrightarrow> n = card (profile_holders s a) \<and>
       (\<exists>p. map_of (profiles m0) a = Some p \<and> int n \<le> profile_cap (normalizeLimits l) p)"
    "int (length (tasks (mgr s))) \<le> l_MaxTasks (normalizeLimits l)"
    using inv unfolding inv_def slots_ok_def bounded_def fr by simp_all
  show ?thesis using s e l unfolding lineage_def fr a by blast
qed

text \<open>
  C39. The life cycle of a task, in every reachable state. An unfinished task always has a goroutine
  that will finish it; a completion signal is closed only when its task is finished, and is closed (or
  gone with its task) once the goroutine has exited; no step changes a finished task, except to remove
  it; and when the goroutine's last write of the file succeeded, the file holds the task in its
  final state for as long as the manager keeps the task.
\<close>

theorem task_lifecycle:
  assumes "NewManager ps l path f rf now = Inr m0" "file_ok f" "reach (start m0) s"
  shows "(\<forall>i t. map_of (tasks (mgr s)) i = Some t \<longrightarrow> \<not> isTerminal (t_Status t) \<longrightarrow>
        (\<exists>w. workers s i = Some w \<and> running (w_pc w)))
    \<and> (\<forall>i. map_of (done_chans (mgr s)) i = Some True \<longrightarrow> status_is (mgr s) i isTerminal)
    \<and> (\<forall>i w. workers s i = Some w \<longrightarrow> w_pc w = Exited \<longrightarrow> map_of (done_chans (mgr s)) i \<noteq> Some False)
    \<and> (\<forall>s' i t. step s s' \<longrightarrow> map_of (tasks (mgr s)) i = Some t \<longrightarrow> isTerminal (t_Status t) \<longrightarrow>
        map_of (tasks (mgr s')) i = None \<or> map_of (tasks (mgr s')) i = Some t)
    \<and> (\<forall>i w t. workers s i = Some w \<longrightarrow> w_saved w \<longrightarrow> map_of (tasks (mgr s)) i = Some t \<longrightarrow>
        isTerminal (t_Status t) \<and> saved_in (disk (mgr s)) t)"
    (is "?a \<and> ?b \<and> ?c \<and> ?d \<and> ?e")
proof (intro conjI)
  have inv: "inv s" using inv_reach [OF assms(3)] inv_start [OF assms(1,2)] by blast
  then have w: "worker_ok (mgr s) i w" if "workers s i = Some w" for i w using that by (simp add: inv_def)
  show ?a using inv by (simp add: inv_def covered_def)
  have "map_of (done_chans (mgr s)) i = None \<longleftrightarrow> map_of (tasks (mgr s)) i = None" for i
    using inv unfolding inv_def store_ok_def by blast
  then show ?b using inv unfolding inv_def store_ok_def status_is_def by (metis not_Some_eq)
  show ?c using w by (fastforce simp: worker_ok_def)
  show ?d using terminal_stable inv by blast
  show ?e using w by (auto simp: worker_ok_def ended_def)
qed


text \<open>A concrete run for the witnesses: one profile, one delegated task, and its first write.\<close>

definition demo_profile :: Profile where
  "demo_profile = \<lparr>p_ID = ''a'', p_Name = ''a'', p_Role = [], p_Instructions = [], p_Model = [], p_Provider = [],
     p_Endpoint = [], p_TokenEnv = [], p_ToolAllow = [], p_DelegateTo = [], p_MemoryScope = ''project'',
     p_MemoryOwner = [], p_MaxParallel = 1, p_MaxTokens = 0, p_MaxToolIterations = 0, p_Enabled = True\<rparr>"

definition demo_limits :: Limits where
  "demo_limits = \<lparr>l_MaxDepth = 0, l_MaxParallel = 2, l_MaxChildren = 0, l_MaxTasks = 5, l_TaskTimeout = 10,
     l_Retention = 20, l_TaskTimeoutSecs = 0, l_RetentionMinutes = 0\<rparr>"

definition demo_mgr :: "task_file \<Rightarrow> Manager" where
  "demo_mgr f = \<lparr>profiles = [(''a'', demo_profile)], tasks = [], cancels = [], done_chans = [],
     limits = normalizeLimits demo_limits, sem = 0, profileSems = [(''a'', 0)], persistPath = ''p'',
     disk = f, sink = []\<rparr>"

definition demo_req :: DelegateRequest where
  "demo_req = \<lparr>dr_AgentID = ''a'', dr_Prompt = ''go'', dr_Wait = False, dr_Timeout = 3, dr_RequestedBy = [], dr_Detach = True\<rparr>"

definition demo_task :: Task where
  "demo_task = delegate_build (demo_mgr Absent) demo_req None 0 ''tr'' ''t''"

definition ma_run :: sys where
  "ma_run = \<lparr>mgr = emit_event ''submitted'' demo_task (persist True (insert_task demo_task (demo_mgr Absent))),
     workers = [''t'' \<mapsto> new_worker\<lparr>w_pc := Spawning\<rparr>]\<rparr>"

lemma demo_new: "NewManager [demo_profile] demo_limits ''p'' Absent False 0 = Inr (demo_mgr Absent)"
  by code_simp

lemma ma_run_reach: "reach (start (demo_mgr Absent)) ma_run"
proof -
  let ?s1 = "\<lparr>mgr = insert_task demo_task (demo_mgr Absent), workers = [''t'' \<mapsto> new_worker]\<rparr>"
  have d: "delegate_task (demo_mgr Absent) demo_req None 0 ''tr'' ''t'' = Inr demo_task" by code_simp
  have i: "delegate_insert 0 demo_task (demo_mgr Absent) = (insert_task demo_task (demo_mgr Absent), None)"
    by code_simp
  have t: "map_of (tasks (insert_task demo_task (demo_mgr Absent))) ''t'' = Some demo_task" by code_simp
  have s1: "step (start (demo_mgr Absent)) ?s1"
    using step.submit [of None "start (demo_mgr Absent)" demo_req 0 "''tr''" "''t''" demo_task] d i
    by (simp add: start_def demo_mgr_def)
  have "step ?s1 ma_run"
    using step.worker_step [of ?s1 "''t''" new_worker 0 True,
        OF _ work.submitted [of new_worker "mgr ?s1" "''t''" demo_task 0 True]] t
    by (simp add: ma_run_def new_worker_def)
  with s1 show ?thesis by (meson reach.intros)
qed

theorem manager_limits_witness:
  "length (tasks (mgr ma_run)) = 1 \<and> sem (mgr ma_run) = card (holders ma_run)
   \<and> int (length (tasks (mgr ma_run))) \<le> l_MaxTasks (normalizeLimits demo_limits)"
proof -
  have "length (tasks (mgr ma_run)) = 1" by code_simp
  with manager_limits [OF demo_new _ ma_run_reach] show ?thesis by (simp add: file_ok_def)
qed

theorem task_lifecycle_witness:
  "map_of (tasks (mgr ma_run)) ''t'' = Some demo_task
   \<and> (\<exists>w. workers ma_run ''t'' = Some w \<and> running (w_pc w))"
proof -
  have t: "map_of (tasks (mgr ma_run)) ''t'' = Some demo_task" by code_simp
  moreover have "\<not> isTerminal (t_Status demo_task)" by code_simp
  moreover have "file_ok Absent" by (simp add: file_ok_def)
  ultimately show ?thesis using task_lifecycle [OF demo_new _ ma_run_reach] by blast
qed


section \<open>Observations\<close>

text \<open>
  Between the locked section of \<^verbatim>\<open>finish\<close> and its write, \<^verbatim>\<open>Wait\<close> already answers with the
  finished task although the file still holds the old state.
\<close>

lemma finished_before_durable:
  "map_of (tasks m) i = Some t \<Longrightarrow> isTerminal st \<Longrightarrow>
   Wait_now (finish_locked now i st res err m) i
     = Some (Some (end_task now st res err t), taskError (end_task now st res err t))
   \<and> disk (finish_locked now i st res err m) = disk m"
  by (simp add: Wait_now_def finish_locked_def)

text \<open>
  Between the insertion of a task and the registration of its cancel function, \<^verbatim>\<open>Cancel\<close> answers
  with the task and has no effect.
\<close>

lemma early_cancel_is_lost:
  assumes "delegate_insert now t m = (m', None)" "store_ok m" "t_ID t \<notin> set (cancels m)"
  shows "\<not> Cancel_fires m' (t_ID t) \<and> Cancel_answer m' (t_ID t) = Inr t"
proof -
  obtain K where "cleanupLocked now m = without K m"
    using assms(2) cleanup_without [of m now] by (metis store_ok_def)
  then show ?thesis
    using delegate_insert_cases [OF assms(1)] assms(3)
    by (auto simp: Cancel_fires_def Cancel_answer_def without_def split: option.splits)
qed

end
