(* ===== verification/Bpe_Vocab.thy ===== *)
theory Bpe_Vocab
  imports Go_Strings "HOL-Library.Word"
begin

text \<open>
  The vocabulary of \<^verbatim>\<open>internal/bpe/vocab.go\<close>: the decoding of the embedded blob (a header of four
  little-endian words, one length byte per rank, then the bytes of all tokens) and the open-addressed
  hash table of \<open>2 ^ 17\<close> slots that maps the bytes of a token to its rank. The blob is an argument.

  A \<^verbatim>\<open>uint32\<close> that is only stored and compared is a natural number; the hash is computed on 32-bit
  words. The table is a function of the slot. A probe loop that finds no slot to stop at runs for
  ever, which is the value \<open>None\<close> of its partial function; that no loaded vocabulary has such a loop
  is proved, and that a lookup finds the least rank with the bytes it was given.
\<close>

unbundle bit_operations_syntax

datatype vocabError =
    ShortBlob nat
  | BadMagic string
  | BadVersion nat
  | BadRankCount nat
  | BadMaxLen nat
  | TruncatedLengths
  | LengthSum nat nat
  | EmptyRank nat
  | ProbeLoops

record vocabulary =
  vtokens :: string
  voffs :: "nat list"
  vtable :: "nat \<Rightarrow> nat"

definition blobMagic :: string where
  "blobMagic = ''NBPE''"

definition blobVersion :: nat where
  "blobVersion = 1"

definition headerSize :: nat where
  "headerSize = 16"

definition tableSize :: nat where
  "tableSize = 131072"

definition tableMask :: nat where
  "tableMask = tableSize - 1"

text \<open>\<^verbatim>\<open>binary.LittleEndian.Uint32(b[i:i+4])\<close>.\<close>

definition le_uint32 :: "string \<Rightarrow> nat \<Rightarrow> nat" where
  "le_uint32 b i = byte (b ! i) + 256 * byte (b ! (i + 1)) + 65536 * byte (b ! (i + 2)) + 16777216 * byte (b ! (i + 3))"

text \<open>FNV-1a, then the finaliser.\<close>

definition hashBytes :: "string \<Rightarrow> 32 word" where
  "hashBytes b =
     (let h = fold (\<lambda>c h. (h XOR of_nat (byte c)) * 16777619) b 2166136261;
          h = h XOR drop_bit 16 h;
          h = h * 0x7feb352d;
          h = h XOR drop_bit 15 h;
          h = h * 0x846ca68b
      in h XOR drop_bit 16 h)"

definition hash_slot :: "string \<Rightarrow> nat" where
  "hash_slot tok = unat (hashBytes tok AND of_nat tableMask)"

definition next_slot :: "nat \<Rightarrow> nat" where
  "next_slot h = (h + 1) AND tableMask"

text \<open>The offset loop; the running sum is a \<^verbatim>\<open>uint32\<close>.\<close>

fun offsets :: "nat \<Rightarrow> string \<Rightarrow> nat list" where
  "offsets off [] = [off]"
| "offsets off (l # lengths) = off # offsets ((off + byte l) mod 2 ^ 32) lengths"

text \<open>\<^verbatim>\<open>v.tokens[v.offs[i]:v.offs[i+1]]\<close>.\<close>

definition rank_bytes :: "vocabulary \<Rightarrow> nat \<Rightarrow> string" where
  "rank_bytes v i = take (voffs v ! (i + 1) - voffs v ! i) (drop (voffs v ! i) (vtokens v))"

partial_function (option) free_slot :: "(nat \<Rightarrow> nat) \<Rightarrow> nat \<Rightarrow> nat option" where
  "free_slot t h = (if t h \<noteq> 0 then free_slot t (next_slot h) else Some h)"

text \<open>The insertion loop, from rank \<open>i\<close> on; \<open>k\<close> ranks are left.\<close>

fun insert_ranks :: "nat \<Rightarrow> nat \<Rightarrow> vocabulary \<Rightarrow> vocabError + vocabulary" where
  "insert_ranks 0 i v = Inr v"
| "insert_ranks (Suc k) i v =
     (let tok = rank_bytes v i in
      if length tok = 0 then Inl (EmptyRank i)
      else case free_slot (vtable v) (hash_slot tok) of
          None \<Rightarrow> Inl ProbeLoops
        | Some h \<Rightarrow> insert_ranks k (i + 1) (v\<lparr>vtable := (vtable v)(h := i + 1)\<rparr>))"

definition loadVocab :: "string \<Rightarrow> vocabError + vocabulary" where
  "loadVocab blob =
     (if length blob < headerSize then Inl (ShortBlob (length blob))
      else if take 4 blob \<noteq> blobMagic then Inl (BadMagic (take 4 blob))
      else
        let version = le_uint32 blob 4; n = le_uint32 blob 8; maxLen = le_uint32 blob 12 in
        if version \<noteq> blobVersion then Inl (BadVersion version)
        else if n \<le> 0 \<or> n \<ge> tableSize then Inl (BadRankCount n)
        else if maxLen > 255 then Inl (BadMaxLen maxLen)
        else if length blob < headerSize + n then Inl TruncatedLengths
        else
          let lengths = take n (drop headerSize blob);
              tokens = drop (headerSize + n) blob;
              offs = offsets 0 lengths
          in if offs ! n \<noteq> length tokens then Inl (LengthSum (offs ! n) (length tokens))
             else insert_ranks n 0 \<lparr>vtokens = tokens, voffs = offs, vtable = (\<lambda>_. 0)\<rparr>)"

text \<open>The lookup: the outer \<open>None\<close> is a probe loop without end, the inner one a miss.\<close>

partial_function (option) rank_probe :: "vocabulary \<Rightarrow> string \<Rightarrow> nat \<Rightarrow> nat option option" where
  "rank_probe v tok h =
     (let e = vtable v h in
      if e = 0 then Some None
      else if rank_bytes v (e - 1) = tok then Some (Some (e - 1))
      else rank_probe v tok (next_slot h))"

definition rank :: "vocabulary \<Rightarrow> string \<Rightarrow> nat option option" where
  "rank v tok = rank_probe v tok (hash_slot tok)"

definition token :: "vocabulary \<Rightarrow> nat \<Rightarrow> string option" where
  "token v i = (if length (voffs v) - 1 \<le> i then None else Some (rank_bytes v i))"

definition NumRanks :: "string \<Rightarrow> vocabError + nat" where
  "NumRanks blob = (case loadVocab blob of Inl e \<Rightarrow> Inl e | Inr v \<Rightarrow> Inr (length (voffs v) - 1))"

definition bpe_Available :: "string \<Rightarrow> bool" where
  "bpe_Available blob = (case loadVocab blob of Inl e \<Rightarrow> False | Inr v \<Rightarrow> True)"

text \<open>The lookup as the encoder uses it.\<close>

definition vocab_ranks :: "vocabulary \<Rightarrow> string \<Rightarrow> int option" where
  "vocab_ranks v tok = (case rank v tok of Some (Some i) \<Rightarrow> Some (int i) | _ \<Rightarrow> None)"

section \<open>Slots\<close>

text \<open>The slot that is \<open>d\<close> probes after \<open>h\<close>.\<close>

definition probe :: "nat \<Rightarrow> nat \<Rightarrow> nat" where
  "probe h d = (h + d) mod tableSize"

lemma and_tableMask: "(x::nat) AND tableMask = x mod tableSize"
proof -
  have "tableMask = mask 17" by (simp add: tableMask_def tableSize_def mask_eq_exp_minus_1)
  then have "x AND tableMask = take_bit 17 x" by (simp add: take_bit_eq_mask)
  then show ?thesis by (simp add: take_bit_eq_mod tableSize_def)
qed

lemma tableSize_pos [simp]: "0 < tableSize"
  by (simp add: tableSize_def)

lemma next_slot_probe: "next_slot (probe h d) = probe h (d + 1)"
  by (simp add: next_slot_def probe_def and_tableMask mod_Suc_eq)

lemma probe_0: "h < tableSize \<Longrightarrow> probe h 0 = h"
  by (simp add: probe_def)

lemma hash_slot_less: "hash_slot tok < tableSize"
proof -
  have "unat (hashBytes tok AND of_nat tableMask) = unat (hashBytes tok) AND tableMask"
    by (simp add: unsigned_and_eq tableMask_def tableSize_def)
  then show ?thesis by (simp add: hash_slot_def and_tableMask)
qed

lemma probe_onto:
  assumes "s < tableSize" "h < tableSize"
  shows "\<exists>d < tableSize. probe h d = s"
proof (intro exI conjI)
  show "(s + (tableSize - h)) mod tableSize < tableSize" by simp
  have "probe h ((s + (tableSize - h)) mod tableSize) = (h + (s + (tableSize - h))) mod tableSize"
    by (simp add: probe_def mod_add_right_eq)
  also have "h + (s + (tableSize - h)) = s + tableSize" using assms by simp
  finally show "probe h ((s + (tableSize - h)) mod tableSize) = s" using assms by simp
qed

lemma probe_inj_le:
  assumes "probe h d = probe h d'" "d' < tableSize" "d \<le> d'"
  shows "d = d'"
proof -
  have "tableSize dvd (h + d') - (h + d)"
    using assms mod_eq_dvd_iff_nat [of "h + d" "h + d'" tableSize] by (simp add: probe_def)
  then have "tableSize dvd d' - d" by simp
  then have "d' - d = 0" using assms(2) by (metis dvd_imp_le less_imp_diff_less not_gr_zero not_le)
  then show ?thesis using assms(3) by simp
qed

lemma probe_inj: "probe h d = probe h d' \<Longrightarrow> d < tableSize \<Longrightarrow> d' < tableSize \<Longrightarrow> d = d'"
  using probe_inj_le [of h d d'] probe_inj_le [of h d' d] by (cases "d \<le> d'") auto

lemma first_free:
  assumes "h < tableSize" "s < tableSize" "t s = (0::nat)"
  obtains d where "d < tableSize" "t (probe h d) = 0" "\<forall>d' < d. t (probe h d') \<noteq> 0"
proof -
  obtain d0 where d0: "d0 < tableSize" "t (probe h d0) = 0" using probe_onto [OF assms(2,1)] assms(3) by auto
  let ?d = "LEAST d. t (probe h d) = 0"
  have "?d \<le> d0" "t (probe h ?d) = 0" using d0(2) by (auto intro: Least_le LeastI)
  moreover have "\<forall>d' < ?d. t (probe h d') \<noteq> 0" using not_less_Least by blast
  ultimately show thesis using that d0(1) by (meson order_le_less_trans)
qed

lemma free_slot_first:
  assumes "t (probe h d) = 0" "\<forall>d' < d. t (probe h d') \<noteq> 0" "h < tableSize"
  shows "free_slot t h = Some (probe h d)"
proof -
  have "free_slot t (probe h 0) = free_slot t (probe h k)" if "k \<le> d" for k
    using that
  proof (induction k)
    case (Suc k)
    then show ?case using assms(2) free_slot.simps [of t "probe h k"] by (simp add: next_slot_probe)
  qed simp
  from this [of d] show ?thesis using assms by (simp add: probe_0 free_slot.simps)
qed

lemma rank_probe_skip:
  assumes "\<forall>d' < d. vtable v (probe h d') \<noteq> 0 \<and> rank_bytes v (vtable v (probe h d') - 1) \<noteq> tok" "h < tableSize"
  shows "rank_probe v tok h = rank_probe v tok (probe h d)"
proof -
  have "rank_probe v tok (probe h 0) = rank_probe v tok (probe h k)" if "k \<le> d" for k
    using that
  proof (induction k)
    case (Suc k)
    then show ?case using assms(1) rank_probe.simps [of v tok "probe h k"] by (simp add: next_slot_probe)
  qed simp
  from this [of d] show ?thesis using assms by (simp add: probe_0)
qed

section \<open>The table\<close>

text \<open>
  The table after the insertion of the first \<open>m\<close> ranks. Rank \<open>i\<close> sits \<open>f i\<close> probes after the slot of its
  hash, over slots that are all taken, and later ranks with the same bytes sit further on.
\<close>

definition table_ok :: "vocabulary \<Rightarrow> nat \<Rightarrow> (nat \<Rightarrow> nat) \<Rightarrow> bool" where
  "table_ok v m f \<longleftrightarrow>
     (\<forall>i < m. f i < tableSize \<and> vtable v (probe (hash_slot (rank_bytes v i)) (f i)) = i + 1
       \<and> (\<forall>d < f i. vtable v (probe (hash_slot (rank_bytes v i)) d) \<noteq> 0))
     \<and> (\<forall>i j. i < j \<longrightarrow> j < m \<longrightarrow> rank_bytes v i = rank_bytes v j \<longrightarrow> f i < f j)
     \<and> (\<forall>s < tableSize. vtable v s \<noteq> 0 \<longrightarrow> vtable v s \<le> m
       \<and> probe (hash_slot (rank_bytes v (vtable v s - 1))) (f (vtable v s - 1)) = s)"

lemma rank_bytes_table [simp]: "rank_bytes (v\<lparr>vtable := t\<rparr>) = rank_bytes v"
  by (simp add: rank_bytes_def fun_eq_iff)

lemma table_entry:
  assumes "table_ok v m f" "vtable v (probe h d) \<noteq> 0"
  shows "vtable v (probe h d) - 1 < m"
    "probe (hash_slot (rank_bytes v (vtable v (probe h d) - 1))) (f (vtable v (probe h d) - 1)) = probe h d"
proof -
  have "probe h d < tableSize" by (simp add: probe_def)
  with assms have "vtable v (probe h d) \<le> m \<and>
      probe (hash_slot (rank_bytes v (vtable v (probe h d) - 1))) (f (vtable v (probe h d) - 1)) = probe h d"
    unfolding table_ok_def by blast
  with assms(2) show "vtable v (probe h d) - 1 < m"
    "probe (hash_slot (rank_bytes v (vtable v (probe h d) - 1))) (f (vtable v (probe h d) - 1)) = probe h d"
    by auto
qed

lemma table_free:
  assumes "table_ok v m f" "m < tableSize"
  obtains s where "s < tableSize" "vtable v s = 0"
proof -
  have "{s. s < tableSize \<and> vtable v s \<noteq> 0} \<subseteq> (\<lambda>i. probe (hash_slot (rank_bytes v i)) (f i)) ` {..<m}"
  proof
    fix s
    assume "s \<in> {s. s < tableSize \<and> vtable v s \<noteq> 0}"
    then show "s \<in> (\<lambda>i. probe (hash_slot (rank_bytes v i)) (f i)) ` {..<m}"
      using assms(1) by (intro image_eqI [where x = "vtable v s - 1"]) (auto simp: table_ok_def)
  qed
  then have "card {s. s < tableSize \<and> vtable v s \<noteq> 0} \<le> m"
    using surj_card_le [of "{..<m}"] by (metis card_lessThan finite_lessThan)
  moreover have "card {s. s < tableSize} = tableSize" by simp
  ultimately have "{s. s < tableSize \<and> vtable v s \<noteq> 0} \<noteq> {s. s < tableSize}" using assms(2) by (metis not_le)
  then show thesis using that by auto
qed

lemma table_insert:
  assumes ok: "table_ok v m f" and m: "m < tableSize"
  obtains h f' where "free_slot (vtable v) (hash_slot (rank_bytes v m)) = Some h"
    "table_ok (v\<lparr>vtable := (vtable v)(h := m + 1)\<rparr>) (m + 1) f'"
proof -
  let ?hs = "\<lambda>i. hash_slot (rank_bytes v i)" and ?t = "vtable v"
  obtain s where "s < tableSize" "?t s = 0" by (rule table_free [OF ok m])
  then obtain d where d: "d < tableSize" "?t (probe (?hs m) d) = 0" "\<forall>d' < d. ?t (probe (?hs m) d') \<noteq> 0"
    by (rule first_free [OF hash_slot_less])
  let ?h = "probe (?hs m) d" and ?f = "f(m := d)"
  have free: "free_slot ?t (?hs m) = Some ?h" by (rule free_slot_first [OF d(2,3) hash_slot_less])
  have old: "probe (?hs i) (f i) \<noteq> ?h" if "i < m" for i using ok that d(2) by (auto simp: table_ok_def)
  have later: "f i < d" if "i < m" "rank_bytes v i = rank_bytes v m" for i
  proof (rule ccontr)
    assume "\<not> f i < d"
    moreover have "f i \<noteq> d" using old [OF that(1)] that(2) by auto
    moreover have "\<forall>d' < f i. ?t (probe (?hs m) d') \<noteq> 0"
      using ok that(1) unfolding table_ok_def that(2) [symmetric] by blast
    ultimately show False using d(2) by (metis linorder_neqE_nat)
  qed
  have "table_ok (v\<lparr>vtable := ?t(?h := m + 1)\<rparr>) (m + 1) ?f"
    unfolding table_ok_def rank_bytes_table
  proof (intro conjI allI impI)
    fix i assume i: "i < m + 1"
    show "?f i < tableSize" using i ok d(1) by (auto simp: table_ok_def less_Suc_eq)
    show "vtable (v\<lparr>vtable := ?t(?h := m + 1)\<rparr>) (probe (?hs i) (?f i)) = i + 1"
      using i ok old by (auto simp: table_ok_def less_Suc_eq)
    fix d' assume "d' < ?f i"
    then show "vtable (v\<lparr>vtable := ?t(?h := m + 1)\<rparr>) (probe (?hs i) d') \<noteq> 0"
      using i ok d(3) by (auto simp: table_ok_def less_Suc_eq split: if_splits)
  next
    fix i j assume "i < j" "j < m + 1" "rank_bytes v i = rank_bytes v j"
    then show "?f i < ?f j" using ok later by (auto simp: table_ok_def less_Suc_eq)
  next
    fix s assume s: "s < tableSize" "vtable (v\<lparr>vtable := ?t(?h := m + 1)\<rparr>) s \<noteq> 0"
    show "vtable (v\<lparr>vtable := ?t(?h := m + 1)\<rparr>) s \<le> m + 1"
      using s ok by (auto simp: table_ok_def le_Suc_eq split: if_splits)
    show "probe (?hs (vtable (v\<lparr>vtable := ?t(?h := m + 1)\<rparr>) s - 1)) (?f (vtable (v\<lparr>vtable := ?t(?h := m + 1)\<rparr>) s - 1)) = s"
      using s ok by (force simp: table_ok_def split: if_splits)
  qed
  with free show thesis by (rule that)
qed

lemma insert_ranks_ok:
  assumes "table_ok v i f" "i + k < tableSize"
  shows "case insert_ranks k i v of
      Inl e \<Rightarrow> (\<exists>j. e = EmptyRank j \<and> i \<le> j \<and> j < i + k \<and> rank_bytes v j = [])
    | Inr v' \<Rightarrow> vtokens v' = vtokens v \<and> voffs v' = voffs v \<and> (\<exists>f. table_ok v' (i + k) f)
        \<and> (\<forall>j. i \<le> j \<longrightarrow> j < i + k \<longrightarrow> rank_bytes v j \<noteq> [])"
  using assms
proof (induction k arbitrary: i v f)
  case 0
  then show ?case by auto
next
  case (Suc k)
  show ?case
  proof (cases "rank_bytes v i = []")
    case True
    then show ?thesis by (auto intro: exI [of _ i])
  next
    case False
    obtain h f' where h: "free_slot (vtable v) (hash_slot (rank_bytes v i)) = Some h"
      and ok: "table_ok (v\<lparr>vtable := (vtable v)(h := i + 1)\<rparr>) (i + 1) f'"
      by (rule table_insert [OF Suc.prems(1)]) (use Suc.prems(2) in auto)
    have "j = i \<or> i + 1 \<le> j" if "i \<le> j" for j using that by auto
    then show ?thesis
      using Suc.IH [OF ok] Suc.prems(2) False h
      by (auto simp: Let_def split: sum.splits)
  qed
qed

text \<open>A vocabulary that came out of \<open>loadVocab\<close>: the table holds every rank.\<close>

definition vocab_size :: "vocabulary \<Rightarrow> nat" where
  "vocab_size v = length (voffs v) - 1"

lemma length_offsets [simp]: "length (offsets off ls) = length ls + 1"
  by (induction off ls rule: offsets.induct) auto

lemma table_ok_empty: "vtable v = (\<lambda>_. 0) \<Longrightarrow> table_ok v 0 f"
  by (simp add: table_ok_def)

lemma loadVocab_ok:
  assumes "loadVocab blob = Inr v"
  shows "\<exists>f. table_ok v (vocab_size v) f" "0 < vocab_size v" "vocab_size v < tableSize"
    "vocab_size v = le_uint32 blob 8" "\<forall>i < vocab_size v. rank_bytes v i \<noteq> []"
proof -
  let ?n = "le_uint32 blob 8"
  let ?v = "\<lparr>vtokens = drop (headerSize + ?n) blob, voffs = offsets 0 (take ?n (drop headerSize blob)), vtable = (\<lambda>_. 0)\<rparr>"
  have load: "insert_ranks ?n 0 ?v = Inr v" and n: "0 < ?n" "?n < tableSize" "headerSize + ?n \<le> length blob"
    using assms by (auto simp: loadVocab_def Let_def split: if_splits)
  have v: "vtokens v = vtokens ?v" "voffs v = voffs ?v" "\<exists>f. table_ok v ?n f" "\<forall>j < ?n. rank_bytes ?v j \<noteq> []"
    using insert_ranks_ok [OF table_ok_empty [of ?v], of ?n] n load by auto
  have "rank_bytes v = rank_bytes ?v" using v(1,2) by (simp add: rank_bytes_def fun_eq_iff)
  moreover show "vocab_size v = ?n" using v(2) n(3) by (simp add: vocab_size_def)
  ultimately show "\<exists>f. table_ok v (vocab_size v) f" "0 < vocab_size v" "vocab_size v < tableSize"
    "\<forall>i < vocab_size v. rank_bytes v i \<noteq> []" using v n by auto
qed

text \<open>The lookup finds the least rank with the given bytes, and every lookup ends.\<close>

lemma rank_found:
  assumes ok: "table_ok v n f" and i: "i < n" "\<forall>j < i. rank_bytes v j \<noteq> rank_bytes v i"
  shows "rank v (rank_bytes v i) = Some (Some i)"
proof -
  let ?tok = "rank_bytes v i" and ?h = "hash_slot (rank_bytes v i)"
  have fi: "f i < tableSize" "vtable v (probe ?h (f i)) = i + 1" "\<forall>d < f i. vtable v (probe ?h d) \<noteq> 0"
    using ok i(1) by (auto simp: table_ok_def)
  have skip: "\<forall>d < f i. vtable v (probe ?h d) \<noteq> 0 \<and> rank_bytes v (vtable v (probe ?h d) - 1) \<noteq> ?tok"
  proof (intro allI impI conjI notI)
    fix d assume d: "d < f i"
    then show "vtable v (probe ?h d) = 0 \<Longrightarrow> False" using fi(3) by blast
    assume eq: "rank_bytes v (vtable v (probe ?h d) - 1) = ?tok"
    let ?j = "vtable v (probe ?h d) - 1"
    have j: "?j < n" "probe ?h (f ?j) = probe ?h d"
      using table_entry [OF ok, of ?h d] fi(3) d unfolding eq by auto
    then have "f ?j < tableSize" using ok by (auto simp: table_ok_def)
    then have "f ?j = d" using probe_inj [OF j(2)] d fi(1) by simp
    moreover have "i \<le> ?j" using i(2) eq by (meson not_le)
    moreover have "i < ?j \<Longrightarrow> f i < f ?j" using ok j(1) eq by (auto simp: table_ok_def)
    ultimately show False using d by (cases "i = ?j") auto
  qed
  have "rank v ?tok = rank_probe v ?tok (probe ?h (f i))"
    unfolding rank_def by (rule rank_probe_skip [OF skip hash_slot_less])
  then show ?thesis using fi(2) by (simp add: rank_probe.simps)
qed

lemma rank_missing:
  assumes ok: "table_ok v n f" and n: "n < tableSize" and tok: "\<forall>j < n. rank_bytes v j \<noteq> tok"
  shows "rank v tok = Some None"
proof -
  obtain s where "s < tableSize" "vtable v s = 0" by (rule table_free [OF ok n])
  then obtain d where d: "d < tableSize" "vtable v (probe (hash_slot tok) d) = 0"
      "\<forall>d' < d. vtable v (probe (hash_slot tok) d') \<noteq> 0"
    by (rule first_free [OF hash_slot_less])
  have "vtable v (probe (hash_slot tok) d') - 1 < n" if "d' < d" for d'
    using table_entry(1) [OF ok] d(3) that by blast
  then have "\<forall>d' < d. vtable v (probe (hash_slot tok) d') \<noteq> 0 \<and> rank_bytes v (vtable v (probe (hash_slot tok) d') - 1) \<noteq> tok"
    using d(3) tok by blast
  then have "rank v tok = rank_probe v tok (probe (hash_slot tok) d)"
    unfolding rank_def by (rule rank_probe_skip [OF _ hash_slot_less])
  then show ?thesis using d(2) by (simp add: rank_probe.simps)
qed

end
