(* ===== verification/Bpe_Merge.thy ===== *)
theory Bpe_Merge
  imports Go_Strings
begin

text \<open>
  The byte-pair merge of \<^verbatim>\<open>internal/bpe/bpe.go\<close>. A piece of text is cut into single bytes, and the
  adjacent pair of least rank, the leftmost among equals, is joined until no adjacent pair is a
  token. The code does it twice: on a list of parts that is rescanned after every merge
  (\<^verbatim>\<open>mergePartsSmall\<close>, pieces under 100 bytes), and on an array of states with a heap of candidate
  merges (\<^verbatim>\<open>mergePartsLarge\<close>). Both are shown equal to one reference on lists of tokens.

  The ranks are a parameter \<open>rk\<close> (the lookup of \<open>Bpe_Vocab\<close>). An index out of range, where the
  code would panic, is the result \<open>None\<close>. A rank is an \<^verbatim>\<open>uint32\<close>; the largest one stands for "no
  token". The heap of \<^verbatim>\<open>container/heap\<close> is the list of its entries: \<open>Pop\<close> removes the least one,
  which is determined because entries that are not less than each other are equal.
\<close>

type_synonym ranks = "string \<Rightarrow> int option"

definition maxRank :: int where
  "maxRank = 4294967295"

text \<open>The Go slice expression \<^verbatim>\<open>s[a:b]\<close>.\<close>

definition subslice :: "'a list \<Rightarrow> nat \<Rightarrow> nat \<Rightarrow> 'a list" where
  "subslice s a b = take (b - a) (drop a s)"

definition rank_or_max :: "ranks \<Rightarrow> string \<Rightarrow> int" where
  "rank_or_max rk s = (case rk s of Some r \<Rightarrow> r | None \<Rightarrow> maxRank)"

definition append_rank :: "ranks \<Rightarrow> string \<Rightarrow> int list \<Rightarrow> int list" where
  "append_rank rk s dst = (case rk s of Some r \<Rightarrow> dst @ [r] | None \<Rightarrow> dst)"

section \<open>Short pieces\<close>

record part =
  part_start :: nat
  part_rank :: int

function small_init :: "ranks \<Rightarrow> string \<Rightarrow> nat \<Rightarrow> part list \<Rightarrow> int \<Rightarrow> int \<Rightarrow> part list \<times> int \<times> int" where
  "small_init rk piece i parts minRank minIdx =
     (if i + 1 < length piece then
        (let r = rank_or_max rk (subslice piece i (i + 2));
             parts = parts @ [\<lparr>part_start = i, part_rank = r\<rparr>]
         in if r < minRank then small_init rk piece (i + 1) parts r (int i)
            else small_init rk piece (i + 1) parts minRank minIdx)
      else (parts, minRank, minIdx))"
  by pat_completeness auto
termination
  by (relation "measure (\<lambda>(rk, piece, i, parts, minRank, minIdx). length piece - i)") auto

declare small_init.simps [simp del]

definition getRank :: "ranks \<Rightarrow> string \<Rightarrow> part list \<Rightarrow> nat \<Rightarrow> int" where
  "getRank rk piece parts i =
     (if length parts \<le> i + 3 then maxRank
      else rank_or_max rk (subslice piece (part_start (parts ! i)) (part_start (parts ! (i + 3)))))"

function scan_min :: "part list \<Rightarrow> nat \<Rightarrow> int \<Rightarrow> int \<Rightarrow> int \<times> int" where
  "scan_min parts j minRank minIdx =
     (if j + 1 < length parts then
        (if part_rank (parts ! j) < minRank then scan_min parts (j + 1) (part_rank (parts ! j)) (int j)
         else scan_min parts (j + 1) minRank minIdx)
      else (minRank, minIdx))"
  by pat_completeness auto
termination
  by (relation "measure (\<lambda>(parts, j, minRank, minIdx). length parts - j)") auto

declare scan_min.simps [simp del]

text \<open>One merge: the two new ranks, then the removal of the part after \<open>i\<close>.\<close>

definition small_merge :: "ranks \<Rightarrow> string \<Rightarrow> part list \<Rightarrow> nat \<Rightarrow> part list" where
  "small_merge rk piece parts i =
     (let parts = (if 0 < i then parts[i - 1 := (parts ! (i - 1))\<lparr>part_rank := getRank rk piece parts (i - 1)\<rparr>]
                   else parts);
          parts = parts[i := (parts ! i)\<lparr>part_rank := getRank rk piece parts i\<rparr>]
      in take (i + 1) parts @ drop (i + 2) parts)"

function small_loop :: "ranks \<Rightarrow> string \<Rightarrow> part list \<Rightarrow> int \<Rightarrow> int \<Rightarrow> part list option" where
  "small_loop rk piece parts minRank minIdx =
     (if minRank = maxRank then Some parts
      else if minIdx < 0 \<or> length parts < nat minIdx + 2 then None
      else
        let parts = small_merge rk piece parts (nat minIdx);
            (minRank, minIdx) = scan_min parts 0 maxRank (- 1)
        in small_loop rk piece parts minRank minIdx)"
  by pat_completeness auto
termination
  by (relation "measure (\<lambda>(rk, piece, parts, minRank, minIdx). length parts)") (auto simp: small_merge_def Let_def)

declare small_loop.simps [simp del]

function small_out :: "ranks \<Rightarrow> string \<Rightarrow> part list \<Rightarrow> nat \<Rightarrow> int list \<Rightarrow> int list" where
  "small_out rk piece parts j dst =
     (if j + 1 < length parts
      then small_out rk piece parts (j + 1)
             (append_rank rk (subslice piece (part_start (parts ! j)) (part_start (parts ! (j + 1)))) dst)
      else dst)"
  by pat_completeness auto
termination
  by (relation "measure (\<lambda>(rk, piece, parts, j, dst). length parts - j)") auto

declare small_out.simps [simp del]

definition mergePartsSmall :: "ranks \<Rightarrow> string \<Rightarrow> int list \<Rightarrow> int list option" where
  "mergePartsSmall rk piece dst =
     (if length piece = 0 then Some dst
      else if length piece = 1 then Some (append_rank rk piece dst)
      else
        let (parts, minRank, minIdx) = small_init rk piece 0 [] maxRank (- 1);
            parts = parts @ [\<lparr>part_start = length piece - 1, part_rank = maxRank\<rparr>,
                             \<lparr>part_start = length piece, part_rank = maxRank\<rparr>]
        in map_option (\<lambda>parts. small_out rk piece parts 0 dst) (small_loop rk piece parts minRank minIdx))"

section \<open>Long pieces\<close>

record mergeState =
  ms_prev :: int
  ms_end :: nat
  ms_nextEnd :: nat
  ms_nextRank :: int
  ms_curRank :: int

type_synonym mergeEntry = "nat \<times> int"

text \<open>The order of the heap: smaller rank first, then smaller start.\<close>

definition entry_less :: "mergeEntry \<Rightarrow> mergeEntry \<Rightarrow> bool" where
  "entry_less a b = (if snd a \<noteq> snd b then snd a < snd b else fst a < fst b)"

fun least_entry :: "mergeEntry \<Rightarrow> mergeEntry list \<Rightarrow> mergeEntry" where
  "least_entry e [] = e"
| "least_entry e (x # xs) = least_entry (if entry_less x e then x else e) xs"

fun heap_pop :: "mergeEntry list \<Rightarrow> (mergeEntry \<times> mergeEntry list) option" where
  "heap_pop [] = None"
| "heap_pop (x # xs) = (let e = least_entry x xs in Some (e, remove1 e (x # xs)))"

function large_init :: "ranks \<Rightarrow> string \<Rightarrow> nat \<Rightarrow> mergeEntry list \<Rightarrow> mergeState list
    \<Rightarrow> mergeEntry list \<times> mergeState list" where
  "large_init rk piece i h state =
     (if i + 1 < length piece then
        (let (h, state) =
           (case rk (subslice piece i (i + 2)) of
              Some r \<Rightarrow> (h @ [(i, r)], state[i := (state ! i)\<lparr>ms_nextRank := r\<rparr>])
            | None \<Rightarrow> (h, state))
         in large_init rk piece (i + 1) h
              (state @ [\<lparr>ms_prev = int i, ms_end = i + 2, ms_nextEnd = i + 3,
                         ms_nextRank = maxRank, ms_curRank = maxRank\<rparr>]))
      else (h, state))"
  by pat_completeness auto
termination
  by (relation "measure (\<lambda>(rk, piece, i, h, state). length piece - i)") auto

declare large_init.simps [simp del]

definition potentialMerge :: "ranks \<Rightarrow> string \<Rightarrow> nat \<Rightarrow> nat \<Rightarrow> mergeEntry list \<Rightarrow> mergeState list
    \<Rightarrow> mergeEntry list \<times> mergeState list" where
  "potentialMerge rk piece start nextEndItem h state =
     (let state = state[start := (state ! start)\<lparr>ms_nextEnd := nextEndItem, ms_nextRank := maxRank\<rparr>]
      in if nextEndItem \<le> length piece then
           (case rk (subslice piece start nextEndItem) of
              Some r \<Rightarrow> (h @ [(start, r)], state[start := (state ! start)\<lparr>ms_nextRank := r\<rparr>])
            | None \<Rightarrow> (h, state))
         else (h, state))"

text \<open>The merge of the token at \<open>leftStart\<close> with the one after it.\<close>

definition large_merge :: "ranks \<Rightarrow> string \<Rightarrow> nat \<Rightarrow> mergeEntry list \<Rightarrow> mergeState list
    \<Rightarrow> mergeEntry list \<times> mergeState list" where
  "large_merge rk piece leftStart h state =
     (let rightStart = ms_end (state ! leftStart);
          rightEnd = ms_nextEnd (state ! leftStart);
          rightNextEnd = ms_nextEnd (state ! rightStart);
          state = state[leftStart := (state ! leftStart)\<lparr>ms_curRank := ms_nextRank (state ! leftStart),
                                                         ms_end := rightEnd\<rparr>];
          (h, state) = potentialMerge rk piece leftStart rightNextEnd h state;
          state = (if rightEnd < length state
                   then state[rightEnd := (state ! rightEnd)\<lparr>ms_prev := int leftStart\<rparr>] else state);
          (h, state) = (if 0 < leftStart
                        then potentialMerge rk piece (nat (ms_prev (state ! leftStart))) rightEnd h state
                        else (h, state))
      in (h, state[rightStart := (state ! rightStart)\<lparr>ms_nextRank := maxRank\<rparr>]))"

text \<open>Every pass of the loop takes one entry off the heap; \<open>None\<close> when the fuel runs out.\<close>

fun large_loop :: "nat \<Rightarrow> ranks \<Rightarrow> string \<Rightarrow> mergeEntry list \<Rightarrow> mergeState list \<Rightarrow> mergeState list option" where
  "large_loop 0 rk piece h state = None"
| "large_loop (Suc fuel) rk piece h state =
     (case heap_pop h of
        None \<Rightarrow> Some state
      | Some ((leftStart, leftRank), h) \<Rightarrow>
          if leftRank = maxRank then Some state
          else if length state \<le> leftStart then None
          else if leftRank \<noteq> ms_nextRank (state ! leftStart) then large_loop fuel rk piece h state
          else if length state \<le> ms_end (state ! leftStart) then None
          else
            let (h, state) = large_merge rk piece leftStart h state
            in large_loop fuel rk piece h state)"

text \<open>The output walk; a state that does not advance would loop, which the fuel cuts off.\<close>

fun large_out :: "nat \<Rightarrow> ranks \<Rightarrow> string \<Rightarrow> mergeState list \<Rightarrow> nat \<Rightarrow> int list \<Rightarrow> int list option" where
  "large_out 0 rk piece state i dst = None"
| "large_out (Suc fuel) rk piece state i dst =
     (if i < length state then
        let s = state ! i in
        large_out fuel rk piece state (ms_end s)
          (if ms_curRank s \<noteq> maxRank then dst @ [ms_curRank s]
           else append_rank rk (subslice piece i (ms_end s)) dst)
      else Some dst)"

definition mergePartsLarge :: "ranks \<Rightarrow> string \<Rightarrow> int list \<Rightarrow> int list option" where
  "mergePartsLarge rk piece dst =
     (let n = length piece;
          (h, state) = large_init rk piece 0 []
            [\<lparr>ms_prev = - 1, ms_end = 1, ms_nextEnd = 2, ms_nextRank = maxRank, ms_curRank = maxRank\<rparr>]
      in case large_loop (3 * n + 1) rk piece h state of
           None \<Rightarrow> None
         | Some state \<Rightarrow> large_out (n + 1) rk piece state 0 dst)"

definition mergeParts :: "ranks \<Rightarrow> string \<Rightarrow> int list \<Rightarrow> int list option" where
  "mergeParts rk piece dst =
     (if length piece < 100 then mergePartsSmall rk piece dst else mergePartsLarge rk piece dst)"

definition encodePiece :: "ranks \<Rightarrow> string \<Rightarrow> int list \<Rightarrow> int list option" where
  "encodePiece rk piece dst =
     (if length piece = 0 then Some dst
      else case rk piece of
          Some r \<Rightarrow> Some (dst @ [r])
        | None \<Rightarrow> mergeParts rk piece dst)"

section \<open>The reference\<close>

text \<open>The ranks of the adjacent pairs of a list of tokens, and the merge of one pair.\<close>

definition pair_ranks :: "ranks \<Rightarrow> string list \<Rightarrow> int list" where
  "pair_ranks rk toks = map (\<lambda>k. rank_or_max rk (toks ! k @ toks ! (k + 1))) [0..<length toks - 1]"

definition merge_at :: "nat \<Rightarrow> string list \<Rightarrow> string list" where
  "merge_at k toks = take k toks @ (toks ! k @ toks ! (k + 1)) # drop (k + 2) toks"

text \<open>The leftmost index of the least element below the largest rank.\<close>

definition best_pair :: "int list \<Rightarrow> nat option" where
  "best_pair rs = find_index (\<lambda>r. r < maxRank \<and> list_all (\<lambda>r'. r \<le> r') rs) rs"

lemma length_pair_ranks [simp]: "length (pair_ranks rk toks) = length toks - 1"
  by (simp add: pair_ranks_def)

lemma pair_ranks_nth [simp]:
  "k + 1 < length toks \<Longrightarrow> pair_ranks rk toks ! k = rank_or_max rk (toks ! k @ toks ! (k + 1))"
  using nth_upt [of 0 k "length toks - 1"] by (simp add: pair_ranks_def)

lemma length_merge_at [simp]: "k + 1 < length toks \<Longrightarrow> length (merge_at k toks) = length toks - 1"
  by (simp add: merge_at_def)

lemma best_pair_less: "best_pair rs = Some k \<Longrightarrow> k < length rs"
  by (simp add: best_pair_def find_index_Some)

function greedy :: "ranks \<Rightarrow> string list \<Rightarrow> string list" where
  "greedy rk toks =
     (case best_pair (pair_ranks rk toks) of None \<Rightarrow> toks | Some k \<Rightarrow> greedy rk (merge_at k toks))"
  by pat_completeness auto
termination
  by (relation "measure (\<lambda>(rk, toks). length toks)") (auto dest: best_pair_less)

declare greedy.simps [simp del]

definition bytes :: "string \<Rightarrow> string list" where
  "bytes s = map (\<lambda>c. [c]) s"

definition emit_tokens :: "ranks \<Rightarrow> string list \<Rightarrow> int list" where
  "emit_tokens rk toks = concat (map (\<lambda>t. case rk t of Some r \<Rightarrow> [r] | None \<Rightarrow> []) toks)"

end
