(* ===== verification/Bpe_Merge_Proofs.thy ===== *)
theory Bpe_Merge_Proofs
  imports Bpe_Merge
begin

text \<open>
  Both merge loops compute the reference \<open>greedy\<close>. The abstraction of either data structure is the
  list of tokens the piece is cut into at the moment; the boundaries of the tokens are the offsets
  \<open>off\<close> of the list.
\<close>

section \<open>Offsets\<close>

definition off :: "'a list list \<Rightarrow> nat \<Rightarrow> nat" where
  "off toks k = length (concat (take k toks))"

lemma off_0 [simp]: "off toks 0 = 0"
  by (simp add: off_def)

lemma off_Suc: "k < length toks \<Longrightarrow> off toks (Suc k) = off toks k + length (toks ! k)"
  by (simp add: off_def take_Suc_conv_app_nth)

lemma off_length: "off toks (length toks) = length (concat toks)"
  by (simp add: off_def)

lemma off_mono: "i \<le> j \<Longrightarrow> off toks i \<le> off toks j"
  by (metis off_def concat_append length_append le_add1 le_Suc_ex take_add)

lemma off_strict: "[] \<notin> set toks \<Longrightarrow> i < j \<Longrightarrow> j \<le> length toks \<Longrightarrow> off toks i < off toks j"
proof -
  assume a: "[] \<notin> set toks" "i < j" "j \<le> length toks"
  then have "toks ! i \<in> set toks" by (intro nth_mem) simp
  then have "toks ! i \<noteq> []" using a(1) by auto
  then have "off toks i < off toks (Suc i)" using a by (simp add: off_Suc)
  also have "\<dots> \<le> off toks j" using a by (intro off_mono) simp
  finally show ?thesis .
qed

lemma off_inj: "[] \<notin> set toks \<Longrightarrow> i \<le> length toks \<Longrightarrow> j \<le> length toks \<Longrightarrow> off toks i = off toks j \<longleftrightarrow> i = j"
  by (metis linorder_neqE_nat nat_neq_iff off_strict)

lemma off_le: "off toks k \<le> length (concat toks)"
  by (metis append_take_drop_id concat_append le_add1 length_append off_def)

lemma off_less: "[] \<notin> set toks \<Longrightarrow> k < length toks \<Longrightarrow> off toks k < length (concat toks)"
  using off_strict [of toks k "length toks"] by (simp add: off_length)

lemma subslice_off:
  assumes "i \<le> j" "j \<le> length toks"
  shows "subslice (concat toks) (off toks i) (off toks j) = concat (take (j - i) (drop i toks))"
proof -
  have c: "concat toks = concat (take i toks) @ concat (drop i toks)"
    by (metis append_take_drop_id concat_append)
  have "take j toks = take i toks @ take (j - i) (drop i toks)"
    using assms(1) by (metis le_add_diff_inverse take_add)
  then have "off toks j - off toks i = length (concat (take (j - i) (drop i toks)))"
    by (simp add: off_def)
  moreover have "drop (off toks i) (concat toks) = concat (drop i toks)"
    by (subst c) (simp add: off_def)
  moreover have "take (length (concat (take (j - i) (drop i toks)))) (concat (drop i toks))
      = concat (take (j - i) (drop i toks))"
    by (metis append_eq_conv_conj append_take_drop_id concat_append)
  ultimately show ?thesis by (simp add: subslice_def)
qed

lemma take_2_drop: "k + 1 < length xs \<Longrightarrow> take 2 (drop k xs) = [xs ! k, xs ! (k + 1)]"
  by (simp add: numeral_2_eq_2 Cons_nth_drop_Suc [symmetric])

lemma take_3_drop: "k + 2 < length xs \<Longrightarrow> take 3 (drop k xs) = [xs ! k, xs ! (k + 1), xs ! (k + 2)]"
  by (simp add: numeral_3_eq_3 Cons_nth_drop_Suc [symmetric])

lemma subslice_token: "k < length toks \<Longrightarrow> subslice (concat toks) (off toks k) (off toks (k + 1)) = toks ! k"
  using subslice_off [of k "k + 1" toks] by (simp add: Cons_nth_drop_Suc [symmetric])

lemma subslice_pair:
  "k + 1 < length toks \<Longrightarrow> subslice (concat toks) (off toks k) (off toks (k + 2)) = toks ! k @ toks ! (k + 1)"
  using subslice_off [of k "k + 2" toks] take_2_drop [of k toks] by simp

lemma subslice_triple:
  "k + 2 < length toks \<Longrightarrow>
   subslice (concat toks) (off toks k) (off toks (k + 3)) = toks ! k @ toks ! (k + 1) @ toks ! (k + 2)"
  using subslice_off [of k "k + 3" toks] take_3_drop [of k toks] by simp

section \<open>Merging in the list of tokens\<close>

lemma nth_merge_at:
  "k + 1 < length toks \<Longrightarrow> j < length toks - 1 \<Longrightarrow>
   merge_at k toks ! j = (if j < k then toks ! j else if j = k then toks ! k @ toks ! (k + 1) else toks ! (j + 1))"
  by (auto simp: merge_at_def nth_append nth_Cons' min_def)

lemma split_pair: "k + 1 < length toks \<Longrightarrow> toks = take k toks @ toks ! k # toks ! (k + 1) # drop (k + 2) toks"
  by (metis Cons_nth_drop_Suc Suc_eq_plus1 add_2_eq_Suc' add_lessD1 append_take_drop_id)

lemma concat_merge_at [simp]: "k + 1 < length toks \<Longrightarrow> concat (merge_at k toks) = concat toks"
  unfolding merge_at_def by (subst (6) split_pair [of k]) simp_all

lemma merge_at_nonempty: "k + 1 < length toks \<Longrightarrow> [] \<notin> set toks \<Longrightarrow> [] \<notin> set (merge_at k toks)"
  unfolding merge_at_def
  by (auto dest: in_set_takeD in_set_dropD) (metis add_lessD1 nth_mem)

lemma merge_at_not_Nil [simp]: "merge_at k toks \<noteq> []"
  by (simp add: merge_at_def)

lemma off_merge:
  assumes "k + 1 < length toks" "j < length toks"
  shows "off (merge_at k toks) j = (if j \<le> k then off toks j else off toks (j + 1))"
proof (cases "j \<le> k")
  case True
  then have "take j (merge_at k toks) = take j toks" using assms by (simp add: merge_at_def min_def)
  with True show ?thesis by (simp add: off_def)
next
  case False
  then have "take j (merge_at k toks) = merge_at k (take (j + 1) toks)"
    using assms by (auto simp: merge_at_def take_Cons' min_def drop_take)
  with False assms show ?thesis by (simp add: off_def)
qed

section \<open>The least pair\<close>

text \<open>The scans of the code, on a list of ranks.\<close>

fun argmin :: "int list \<Rightarrow> nat \<Rightarrow> int \<Rightarrow> int \<Rightarrow> int \<times> int" where
  "argmin [] j m i = (m, i)"
| "argmin (r # rs) j m i = (if r < m then argmin rs (j + 1) r (int j) else argmin rs (j + 1) m i)"

lemma argmin_find:
  "argmin rs j m i = (case find_index (\<lambda>r. r < m \<and> list_all (\<lambda>r'. r \<le> r') rs) rs of
     Some k \<Rightarrow> (rs ! k, int (j + k)) | None \<Rightarrow> (m, i))"
proof (induction rs arbitrary: j m i)
  case Nil
  then show ?case by simp
next
  case (Cons r rs)
  let ?P = "\<lambda>m r. r < m \<and> list_all (\<lambda>r'. r \<le> r') rs"
  show ?case
  proof (cases "r < m")
    case False
    have "find_index (\<lambda>x. x < m \<and> list_all (\<lambda>r'. x \<le> r') (r # rs)) rs = find_index (?P m) rs"
      using False by (intro arg_cong2 [where f = find_index]) auto
    then show ?thesis using False Cons.IH [of "j + 1" m i] by (auto split: option.splits)
  next
    case True
    show ?thesis
    proof (cases "list_all (\<lambda>r'. r \<le> r') rs")
      case all: True
      then have "find_index (?P r) rs = None" by (auto simp: find_index_None list_all_iff)
      then show ?thesis using True all Cons.IH [of "j + 1" r "int j"] by simp
    next
      case False
      have "find_index (\<lambda>x. x < m \<and> list_all (\<lambda>r'. x \<le> r') (r # rs)) rs = find_index (?P r) rs"
      proof (rule arg_cong2 [where f = find_index])
        show "(\<lambda>x. x < m \<and> list_all (\<lambda>r'. x \<le> r') (r # rs)) = ?P r"
          using True False by (auto simp: fun_eq_iff list_all_iff)
      qed simp
      moreover obtain k where "find_index (?P r) rs = Some k"
      proof -
        have "rs \<noteq> []" using False by auto
        then have "Min (set rs) \<in> set rs" "\<And>x. x \<in> set rs \<Longrightarrow> Min (set rs) \<le> x" by auto
        moreover obtain x where "x \<in> set rs" "x < r" using False by (auto simp: list_all_iff not_le)
        moreover have "Min (set rs) < r" using \<open>x \<in> set rs\<close> \<open>x < r\<close> by (meson List.finite_set Min_le le_less_trans)
        ultimately have "?P r (Min (set rs))" by (simp add: list_all_iff)
        with \<open>Min (set rs) \<in> set rs\<close> have "find_index (?P r) rs \<noteq> None" by (auto simp: find_index_None)
        then show ?thesis using that by blast
      qed
      ultimately show ?thesis using True False Cons.IH [of "j + 1" r "int j"] by simp
    qed
  qed
qed

lemma argmin_best:
  "argmin rs 0 maxRank (- 1) = (case best_pair rs of Some k \<Rightarrow> (rs ! k, int k) | None \<Rightarrow> (maxRank, - 1))"
  by (simp add: argmin_find best_pair_def split: option.split)

lemma find_index_snoc: "\<not> P x \<Longrightarrow> find_index P (xs @ [x]) = find_index P xs"
  by (induction xs) auto

lemma best_pair_snoc: "best_pair (rs @ [maxRank]) = best_pair rs"
  unfolding best_pair_def by (subst find_index_snoc) (auto intro!: arg_cong2 [where f = find_index])

lemma best_pair_rank: "best_pair rs = Some k \<Longrightarrow> rs ! k < maxRank"
  by (simp add: best_pair_def find_index_Some)

section \<open>Short pieces\<close>

definition parts_ok :: "ranks \<Rightarrow> string list \<Rightarrow> part list \<Rightarrow> bool" where
  "parts_ok rk toks parts \<longleftrightarrow> toks \<noteq> [] \<and> length parts = length toks + 1
     \<and> (\<forall>j \<le> length toks. part_start (parts ! j) = off toks j)
     \<and> map part_rank parts = pair_ranks rk toks @ [maxRank, maxRank]"

lemma parts_rank_nth:
  "parts_ok rk toks parts \<Longrightarrow> j \<le> length toks \<Longrightarrow>
   part_rank (parts ! j) = (if j + 1 < length toks then rank_or_max rk (toks ! j @ toks ! (j + 1)) else maxRank)"
proof -
  assume p: "parts_ok rk toks parts" and j: "j \<le> length toks"
  then have "part_rank (parts ! j) = (pair_ranks rk toks @ [maxRank, maxRank]) ! j"
    by (metis parts_ok_def less_add_one nth_map order_le_less_trans)
  also have "\<dots> = (if j + 1 < length toks then rank_or_max rk (toks ! j @ toks ! (j + 1)) else maxRank)"
    using p j by (auto simp: parts_ok_def nth_append nth_Cons')
  finally show ?thesis .
qed

lemma parts_okI:
  assumes "toks \<noteq> []" "length parts = length toks + 1" "\<And>j. j \<le> length toks \<Longrightarrow> part_start (parts ! j) = off toks j"
    and "\<And>j. j \<le> length toks \<Longrightarrow>
      part_rank (parts ! j) = (if j + 1 < length toks then rank_or_max rk (toks ! j @ toks ! (j + 1)) else maxRank)"
  shows "parts_ok rk toks parts"
proof -
  have "map part_rank parts = pair_ranks rk toks @ [maxRank, maxRank]"
  proof (rule nth_equalityI)
    show "length (map part_rank parts) = length (pair_ranks rk toks @ [maxRank, maxRank])"
      using assms(1,2) by (cases toks) auto
    fix j
    assume "j < length (map part_rank parts)"
    then have "j \<le> length toks" using assms(2) by simp
    with assms show "map part_rank parts ! j = (pair_ranks rk toks @ [maxRank, maxRank]) ! j"
      by (auto simp: nth_append nth_Cons')
  qed
  with assms show ?thesis by (simp add: parts_ok_def)
qed

lemma getRank_eq:
  assumes "parts_ok rk toks parts" "k + 1 < length toks"
  shows "getRank rk (concat toks) parts k =
    (if k + 2 < length toks then rank_or_max rk (toks ! k @ toks ! (k + 1) @ toks ! (k + 2)) else maxRank)"
  using assms subslice_triple [of k toks] by (auto simp: getRank_def parts_ok_def)

lemma small_merge_ok:
  assumes p: "parts_ok rk toks parts" and k: "k + 1 < length toks"
  shows "parts_ok rk (merge_at k toks) (small_merge rk (concat toks) parts k)"
proof (rule parts_okI)
  let ?c = "concat toks"
  define ps1 where "ps1 = (if 0 < k then parts[k - 1 := (parts ! (k - 1))\<lparr>part_rank := getRank rk ?c parts (k - 1)\<rparr>]
    else parts)"
  define ps2 where "ps2 = ps1[k := (ps1 ! k)\<lparr>part_rank := getRank rk ?c ps1 k\<rparr>]"
  have l: "length parts = length toks + 1" using p by (simp add: parts_ok_def)
  have sm: "small_merge rk ?c parts k = take (k + 1) ps2 @ drop (k + 2) ps2"
    by (simp add: small_merge_def ps1_def ps2_def Let_def)
  have l2: "length ps2 = length toks + 1" by (simp add: ps2_def ps1_def l)
  have upd: "part_start (xs[i := (xs ! i)\<lparr>part_rank := r\<rparr>] ! j) = part_start (xs ! j)" for xs i j r
    by (cases "i = j"; cases "i < length xs") (simp_all add: list_update_beyond)
  have st: "part_start (ps2 ! j) = part_start (parts ! j)" "part_start (ps1 ! j) = part_start (parts ! j)" for j
    by (simp_all add: ps2_def ps1_def upd)
  have g: "getRank rk ?c ps1 k = getRank rk ?c parts k"
    by (simp add: getRank_def st(2)) (simp add: ps1_def)
  have rk2: "part_rank (ps2 ! j) = (if j = k then getRank rk ?c parts k
      else if j + 1 = k then getRank rk ?c parts (k - 1) else part_rank (parts ! j))" if "j \<le> length toks" for j
  proof -
    have "part_rank (ps2 ! j) = (if j = k then getRank rk ?c parts k else part_rank (ps1 ! j))"
      using that k l by (auto simp: ps2_def g) (simp_all add: ps1_def)
    then show ?thesis using that k l by (auto simp: ps1_def)
  qed
  have nth: "small_merge rk ?c parts k ! j = ps2 ! (if j \<le> k then j else j + 1)" if "j < length toks" for j
    using that k l2 by (auto simp: sm nth_append min_def)
  show "merge_at k toks \<noteq> []" by (simp add: merge_at_def)
  show "length (small_merge rk ?c parts k) = length (merge_at k toks) + 1" using k l2 by (simp add: sm)
  fix j
  assume "j \<le> length (merge_at k toks)"
  then have j: "j < length toks" using k by simp
  show "part_start (small_merge rk ?c parts k ! j) = off (merge_at k toks) j"
    using p j k by (simp add: nth [OF j] st off_merge parts_ok_def)
  show "part_rank (small_merge rk ?c parts k ! j) = (if j + 1 < length (merge_at k toks)
      then rank_or_max rk (merge_at k toks ! j @ merge_at k toks ! (j + 1)) else maxRank)"
    using j k getRank_eq [OF p k] getRank_eq [OF p, of "k - 1"]
    by (auto simp: nth [OF j] rk2 nth_merge_at parts_rank_nth [OF p])
qed

lemma scan_min_argmin:
  "scan_min parts j m i = argmin (map part_rank (drop j (butlast parts))) j m i"
proof (induction parts j m i rule: scan_min.induct)
  case (1 parts j m i)
  show ?case
  proof (cases "j + 1 < length parts")
    case True
    then have "drop j (butlast parts) = parts ! j # drop (j + 1) (butlast parts)"
      by (simp add: Cons_nth_drop_Suc [symmetric] nth_butlast)
    with 1 True show ?thesis by (subst scan_min.simps) simp
  next
    case False
    then show ?thesis by (subst scan_min.simps) simp
  qed
qed

lemma scan_min_ok:
  assumes "parts_ok rk toks parts"
  shows "scan_min parts 0 maxRank (- 1)
    = (case best_pair (pair_ranks rk toks) of Some k \<Rightarrow> (pair_ranks rk toks ! k, int k) | None \<Rightarrow> (maxRank, - 1))"
proof -
  have "map part_rank (butlast parts) = pair_ranks rk toks @ [maxRank]"
    using assms by (simp add: parts_ok_def map_butlast butlast_append)
  then show ?thesis
    by (auto simp: scan_min_argmin argmin_best best_pair_snoc nth_append dest: best_pair_less split: option.split)
qed

lemma small_loop_greedy:
  assumes "parts_ok rk toks parts" "scan_min parts 0 maxRank (- 1) = (m, i)"
  shows "\<exists>parts'. small_loop rk (concat toks) parts m i = Some parts'
    \<and> parts_ok rk (greedy rk toks) parts' \<and> concat (greedy rk toks) = concat toks"
  using assms
proof (induction rk toks arbitrary: parts m i rule: greedy.induct)
  case (1 rk toks)
  show ?case
  proof (cases "best_pair (pair_ranks rk toks)")
    case None
    then have "small_loop rk (concat toks) parts m i = Some parts"
      using 1 scan_min_ok [OF 1(2)] by (subst small_loop.simps) auto
    moreover have "greedy rk toks = toks" using None by (subst greedy.simps) simp
    ultimately show ?thesis using 1(2) by simp
  next
    case (Some k)
    have k: "k + 1 < length toks" using best_pair_less [OF Some] by simp
    have mi: "m = pair_ranks rk toks ! k" "i = int k" "m \<noteq> maxRank"
      using 1(3) Some scan_min_ok [OF 1(2)] best_pair_rank [OF Some] by auto
    let ?parts = "small_merge rk (concat toks) parts k"
    obtain m' i' where s: "scan_min ?parts 0 maxRank (- 1) = (m', i')" by fastforce
    have p: "parts_ok rk (merge_at k toks) ?parts" using small_merge_ok [OF 1(2) k] .
    have "small_loop rk (concat toks) parts m i = small_loop rk (concat toks) ?parts m' i'"
      using mi k s 1(2) by (subst small_loop.simps) (auto simp: parts_ok_def Let_def)
    moreover have "greedy rk toks = greedy rk (merge_at k toks)" using Some by (subst greedy.simps) simp
    ultimately show ?thesis using 1(1) [OF Some p s] k by simp
  qed
qed

lemma small_init_eq:
  "small_init rk piece i parts m idx =
     (parts @ map (\<lambda>j. \<lparr>part_start = j, part_rank = rank_or_max rk (subslice piece j (j + 2))\<rparr>) [i..<length piece - 1],
      argmin (map (\<lambda>j. rank_or_max rk (subslice piece j (j + 2))) [i..<length piece - 1]) i m idx)"
proof (induction rk piece i parts m idx rule: small_init.induct)
  case (1 rk piece i parts m idx)
  show ?case
  proof (cases "i + 1 < length piece")
    case True
    then have "[i..<length piece - 1] = i # [i + 1..<length piece - 1]" by (simp add: upt_conv_Cons)
    with 1 True show ?thesis by (subst small_init.simps) (simp add: Let_def)
  next
    case False
    then show ?thesis by (subst small_init.simps) simp
  qed
qed

lemma length_bytes [simp]: "length (bytes s) = length s"
  by (simp add: bytes_def)

lemma concat_bytes [simp]: "concat (bytes s) = s"
  by (simp add: bytes_def concat_map_singleton)

lemma nil_notin_bytes [simp]: "[] \<notin> set (bytes s)"
  by (auto simp: bytes_def)

lemma off_bytes: "j \<le> length s \<Longrightarrow> off (bytes s) j = j"
  using concat_bytes [of "take j s"] by (simp add: off_def bytes_def take_map)

lemma subslice_bytes: "Suc j < length s \<Longrightarrow> subslice s j (Suc (Suc j)) = bytes s ! j @ bytes s ! Suc j"
  using subslice_pair [of j "bytes s"] by (simp add: off_bytes)

lemma pair_ranks_bytes:
  "map (\<lambda>j. rank_or_max rk (subslice s j (j + 2))) [0..<length s - 1] = pair_ranks rk (bytes s)"
  by (auto simp: pair_ranks_def subslice_bytes less_diff_conv)

lemma small_out_emit:
  assumes "parts_ok rk toks parts"
  shows "small_out rk (concat toks) parts j dst = dst @ emit_tokens rk (drop j toks)"
  using assms
proof (induction rk "concat toks" parts j dst rule: small_out.induct)
  case (1 rk parts j dst)
  have l: "length parts = length toks + 1" using 1(2) by (simp add: parts_ok_def)
  show ?case
  proof (cases "j < length toks")
    case True
    then have "subslice (concat toks) (part_start (parts ! j)) (part_start (parts ! (j + 1))) = toks ! j"
      using 1(2) subslice_token [of j toks] by (simp add: parts_ok_def)
    then show ?thesis using True 1 l
      by (subst small_out.simps)
        (simp add: append_rank_def emit_tokens_def Cons_nth_drop_Suc [symmetric] split: option.split)
  next
    case False
    then show ?thesis using l by (subst small_out.simps) (simp add: emit_tokens_def)
  qed
qed

lemma greedy_short: "length toks < 2 \<Longrightarrow> greedy rk toks = toks"
  by (subst greedy.simps) (auto dest!: best_pair_less split: option.split)

lemma mergePartsSmall_eq: "mergePartsSmall rk piece dst = Some (dst @ emit_tokens rk (greedy rk (bytes piece)))"
proof (cases "length piece < 2")
  case True
  then show ?thesis
    by (auto simp: mergePartsSmall_def greedy_short emit_tokens_def bytes_def append_rank_def length_Suc_conv
          less_Suc_eq numeral_2_eq_2 split: option.split)
next
  case False
  define init where
    "init = map (\<lambda>j. \<lparr>part_start = j, part_rank = rank_or_max rk (subslice piece j (j + 2))\<rparr>) [0..<length piece - 1]"
  let ?parts = "init @ [\<lparr>part_start = length piece - 1, part_rank = maxRank\<rparr>, \<lparr>part_start = length piece, part_rank = maxRank\<rparr>]"
  have p: "parts_ok rk (bytes piece) ?parts"
  proof (rule parts_okI)
    fix j
    assume j: "j \<le> length (bytes piece)"
    then show "part_start (?parts ! j) = off (bytes piece) j"
      using False by (auto simp: init_def nth_append off_bytes nth_Cons')
    show "part_rank (?parts ! j) = (if j + 1 < length (bytes piece)
        then rank_or_max rk (bytes piece ! j @ bytes piece ! (j + 1)) else maxRank)"
      using False j by (auto simp: init_def nth_append nth_Cons' subslice_bytes)
  qed (use False in \<open>auto simp: bytes_def init_def\<close>)
  obtain m i where mi: "scan_min ?parts 0 maxRank (- 1) = (m, i)" by fastforce
  have "argmin (pair_ranks rk (bytes piece)) 0 maxRank (- 1) = (m, i)"
    using mi scan_min_ok [OF p] by (simp add: argmin_best)
  then have small_init: "small_init rk piece 0 [] maxRank (- 1) = (init, m, i)"
    using pair_ranks_bytes [of rk piece] by (simp add: small_init_eq init_def)
  obtain parts where loop: "small_loop rk piece ?parts m i = Some parts"
    and ok: "parts_ok rk (greedy rk (bytes piece)) parts" and c: "concat (greedy rk (bytes piece)) = piece"
    using small_loop_greedy [OF p mi] by auto
  have out: "small_out rk piece parts 0 dst = dst @ emit_tokens rk (greedy rk (bytes piece))"
    using small_out_emit [OF ok, of 0 dst] c by simp
  show ?thesis using False loop out unfolding mergePartsSmall_def small_init by (auto simp: Let_def)
qed

section \<open>Long pieces\<close>

text \<open>
  The state array holds one entry per byte. The entries at the offsets of the tokens form a doubly
  linked list with the rank of the pair that starts there; every other entry has no pair.
\<close>

definition noff :: "string list \<Rightarrow> nat \<Rightarrow> nat" where
  "noff toks k = (if k \<le> length toks then off toks k else length (concat toks) + 1)"

definition pair_rank :: "ranks \<Rightarrow> string list \<Rightarrow> nat \<Rightarrow> int" where
  "pair_rank rk toks k = (if k + 1 < length toks then rank_or_max rk (toks ! k @ toks ! (k + 1)) else maxRank)"

definition token_ok :: "ranks \<Rightarrow> string list \<Rightarrow> nat \<Rightarrow> mergeState \<Rightarrow> bool" where
  "token_ok rk toks k s \<longleftrightarrow>
     ms_prev s = (if k = 0 then - 1 else int (off toks (k - 1))) \<and> ms_end s = off toks (k + 1)
     \<and> ms_nextEnd s = noff toks (k + 2) \<and> ms_nextRank s = pair_rank rk toks k
     \<and> (ms_curRank s = maxRank \<or> rk (toks ! k) = Some (ms_curRank s))"

definition state_ok :: "ranks \<Rightarrow> string list \<Rightarrow> mergeState list \<Rightarrow> bool" where
  "state_ok rk toks st \<longleftrightarrow> toks \<noteq> [] \<and> [] \<notin> set toks \<and> length st = length (concat toks)
     \<and> (\<forall>k < length toks. token_ok rk toks k (st ! off toks k))
     \<and> (\<forall>p < length st. p \<notin> off toks ` {..<length toks} \<longrightarrow> ms_nextRank (st ! p) = maxRank)"

definition heap_ok :: "ranks \<Rightarrow> string list \<Rightarrow> mergeEntry list \<Rightarrow> bool" where
  "heap_ok rk toks h \<longleftrightarrow>
     (\<forall>k < length toks. pair_rank rk toks k \<noteq> maxRank \<longrightarrow> (off toks k, pair_rank rk toks k) \<in> set h)
     \<and> (\<forall>(p, r) \<in> set h. p < length (concat toks) \<and> r < maxRank)"

definition ranks_ok :: "ranks \<Rightarrow> bool" where
  "ranks_ok rk \<longleftrightarrow> (\<forall>s r. rk s = Some r \<longrightarrow> 0 \<le> r \<and> r < maxRank)"

lemma pair_ranks_pair_rank: "k + 1 < length toks \<Longrightarrow> pair_ranks rk toks ! k = pair_rank rk toks k"
  by (simp add: pair_rank_def)

lemma potentialMerge_eq:
  "potentialMerge rk piece s e h st =
     (let r = (if e \<le> length piece then rk (subslice piece s e) else None)
      in (h @ (case r of Some r \<Rightarrow> [(s, r)] | None \<Rightarrow> []),
          st[s := (st ! s)\<lparr>ms_nextEnd := e, ms_nextRank := (case r of Some r \<Rightarrow> r | None \<Rightarrow> maxRank)\<rparr>]))"
proof (cases "s < length st")
  case True
  then show ?thesis by (simp add: potentialMerge_def Let_def split: option.split)
next
  case False
  then show ?thesis by (simp add: potentialMerge_def Let_def list_update_beyond split: option.split)
qed

subsection \<open>The heap\<close>

lemma entry_less_irrefl: "\<not> entry_less a a"
  by (simp add: entry_less_def)

lemma entry_less_trans: "entry_less a b \<Longrightarrow> entry_less b c \<Longrightarrow> entry_less a c"
  by (auto simp: entry_less_def split: if_splits)

lemma entry_less_total: "\<not> entry_less a b \<Longrightarrow> \<not> entry_less b a \<Longrightarrow> a = b"
  by (auto simp: entry_less_def prod_eq_iff split: if_splits)

lemma least_entry_least:
  "least_entry e xs \<in> insert e (set xs) \<and> (\<forall>x \<in> insert e (set xs). \<not> entry_less x (least_entry e xs))"
proof (induction xs arbitrary: e)
  case Nil
  then show ?case by (simp add: entry_less_irrefl)
next
  case (Cons x xs)
  show ?case
    using Cons [of "if entry_less x e then x else e"]
    by (auto split: if_splits) (metis entry_less_trans entry_less_total)+
qed

lemma remove1_bounds:
  shows "x \<in> set h \<Longrightarrow> length (remove1 x h) < length h" "set h - {x} \<subseteq> set (remove1 x h)" "set (remove1 x h) \<subseteq> set h"
proof -
  show "x \<in> set h \<Longrightarrow> length (remove1 x h) < length h" using length_pos_if_in_set [of x h] by (simp add: length_remove1)
  show "set h - {x} \<subseteq> set (remove1 x h)" by (intro subsetI) (simp add: in_set_remove1)
  show "set (remove1 x h) \<subseteq> set h" by (rule set_remove1_subset)
qed

lemma heap_pop_least:
  assumes "heap_pop h = Some (e, h')"
  shows "e \<in> set h" "h' = remove1 e h" "\<And>x. x \<in> set h \<Longrightarrow> \<not> entry_less x e"
  using assms least_entry_least by (cases h; fastforce simp: Let_def)+

lemma best_pair_iff:
  "best_pair rs = Some k \<longleftrightarrow> k < length rs \<and> rs ! k < maxRank \<and> (\<forall>j < length rs. rs ! k \<le> rs ! j)
     \<and> (\<forall>j < k. rs ! k < rs ! j)"
  by (auto simp: best_pair_def find_index_Some list_all_length)
     (metis linorder_not_le order.strict_trans order_le_less_trans)+

subsection \<open>One merge\<close>

lemma off_noff: "k \<le> length toks \<Longrightarrow> noff toks k = off toks k"
  by (simp add: noff_def)

lemma noff_le: "noff toks k \<le> length (concat toks) \<longleftrightarrow> k \<le> length toks"
  by (simp add: noff_def off_le)

lemma noff_merge:
  assumes "k + 1 < length toks"
  shows "noff (merge_at k toks) j = (if j \<le> k then noff toks j else noff toks (j + 1))"
proof (cases "j < length toks")
  case True
  then show ?thesis using assms by (auto simp: noff_def off_merge)
next
  case False
  then have "\<not> j \<le> length toks - 1" using assms by simp
  with False show ?thesis using assms by (simp add: noff_def)
qed

lemma pair_rank_merge:
  assumes k: "k + 1 < length toks" and j: "j < length toks - 1"
  shows "pair_rank rk (merge_at k toks) j =
    (if j + 1 < k then pair_rank rk toks j
     else if j + 1 = k then rank_or_max rk (toks ! j @ toks ! k @ toks ! (k + 1))
     else if j = k then (if k + 2 < length toks then rank_or_max rk (toks ! k @ toks ! (k + 1) @ toks ! (k + 2)) else maxRank)
     else pair_rank rk toks (j + 1))"
  using k j by (auto simp: pair_rank_def nth_merge_at)

lemma token_offsets_merge:
  "k + 1 < length toks \<Longrightarrow>
   off (merge_at k toks) ` {..<length toks - 1} = off toks ` ({..<length toks} - {k + 1})"
proof (rule equalityI; rule subsetI)
  fix p
  assume k: "k + 1 < length toks" and "p \<in> off (merge_at k toks) ` {..<length toks - 1}"
  then obtain j where "j < length toks - 1" "p = off (merge_at k toks) j" by auto
  then show "p \<in> off toks ` ({..<length toks} - {k + 1})"
    using k by (intro image_eqI [where x = "if j \<le> k then j else j + 1"]) (auto simp: off_merge)
next
  fix p
  assume k: "k + 1 < length toks" and "p \<in> off toks ` ({..<length toks} - {k + 1})"
  then obtain j where "j < length toks" "j \<noteq> k + 1" "p = off toks j" by auto
  then show "p \<in> off (merge_at k toks) ` {..<length toks - 1}"
    using k by (intro image_eqI [where x = "if j \<le> k then j else j - 1"]) (auto simp: off_merge)
qed

text \<open>The state array and the heap after the merge of token \<open>k\<close> with the one after it.\<close>

definition merged_state :: "ranks \<Rightarrow> string list \<Rightarrow> nat \<Rightarrow> mergeState list \<Rightarrow> nat \<Rightarrow> mergeState" where
  "merged_state rk toks k st p =
     (if p = off toks k then
        (st ! p)\<lparr>ms_curRank := ms_nextRank (st ! p), ms_end := off toks (k + 2), ms_nextEnd := noff toks (k + 3),
                ms_nextRank := pair_rank rk (merge_at k toks) k\<rparr>
      else if p = off toks (k + 1) then (st ! p)\<lparr>ms_nextRank := maxRank\<rparr>
      else if p = off toks (k + 2) then (st ! p)\<lparr>ms_prev := int (off toks k)\<rparr>
      else if 0 < k \<and> p = off toks (k - 1) then
        (st ! p)\<lparr>ms_nextEnd := off toks (k + 2), ms_nextRank := pair_rank rk (merge_at k toks) (k - 1)\<rparr>
      else st ! p)"

definition new_rank :: "ranks \<Rightarrow> string \<Rightarrow> nat \<Rightarrow> nat \<Rightarrow> int option" where
  "new_rank rk piece s e = (if e \<le> length piece then rk (subslice piece s e) else None)"

definition pushed_entry :: "ranks \<Rightarrow> string \<Rightarrow> nat \<Rightarrow> nat \<Rightarrow> mergeEntry list" where
  "pushed_entry rk piece s e = (case new_rank rk piece s e of Some r \<Rightarrow> [(s, r)] | None \<Rightarrow> [])"

lemma new_rank_right:
  assumes "k + 1 < length toks"
  shows "(case new_rank rk (concat toks) (off toks k) (noff toks (k + 3)) of Some r \<Rightarrow> r | None \<Rightarrow> maxRank)
    = pair_rank rk (merge_at k toks) k"
proof (cases "k + 2 < length toks")
  case True
  then have "noff toks (k + 3) = off toks (k + 3)" "off toks (k + 3) \<le> length (concat toks)"
    by (simp_all add: noff_def off_le)
  with True assms subslice_triple [of k toks] show ?thesis
    by (simp add: new_rank_def pair_rank_merge rank_or_max_def)
next
  case False
  then have "\<not> noff toks (k + 3) \<le> length (concat toks)" by (simp add: noff_le)
  with False assms show ?thesis by (simp add: new_rank_def pair_rank_merge)
qed

lemma new_rank_left:
  assumes "k + 1 < length toks" "0 < k"
  shows "(case new_rank rk (concat toks) (off toks (k - 1)) (off toks (k + 2)) of Some r \<Rightarrow> r | None \<Rightarrow> maxRank)
    = pair_rank rk (merge_at k toks) (k - 1)"
  using assms subslice_triple [of "k - 1" toks]
  by (simp add: new_rank_def off_le pair_rank_merge rank_or_max_def numeral_2_eq_2 numeral_3_eq_3)

lemma new_rank_push:
  assumes "ranks_ok rk" "(case new_rank rk c s e of Some r \<Rightarrow> r | None \<Rightarrow> maxRank) = r"
  shows "set (pushed_entry rk c s e) = (if r \<noteq> maxRank then {(s, r)} else {})"
  using assms by (auto simp: ranks_ok_def pushed_entry_def new_rank_def split: option.splits if_splits)

text \<open>The statements of the merge, on a state array whose links at the two tokens are known.\<close>

lemma large_merge_steps:
  assumes links: "ms_end (st ! L) = R" "ms_nextEnd (st ! L) = E" "ms_nextEnd (st ! R) = NE"
      "0 < L \<Longrightarrow> ms_prev (st ! L) = int P"
    and ord: "L < R" "R < E" "R < length st"
    and m: "\<And>s e. m s e = (case new_rank rk c s e of Some r \<Rightarrow> r | None \<Rightarrow> maxRank)"
    and push: "\<And>s e. push s e = (case new_rank rk c s e of Some r \<Rightarrow> [(s, r)] | None \<Rightarrow> [])"
    and st2: "st2 = st[L := (st ! L)\<lparr>ms_curRank := ms_nextRank (st ! L), ms_end := E, ms_nextEnd := NE, ms_nextRank := m L NE\<rparr>]"
    and st3: "st3 = (if E < length st then st2[E := (st2 ! E)\<lparr>ms_prev := int L\<rparr>] else st2)"
    and st4: "st4 = (if 0 < L then st3[P := (st3 ! P)\<lparr>ms_nextEnd := E, ms_nextRank := m P E\<rparr>] else st3)"
  shows "large_merge rk c L h st = (h @ push L NE @ (if 0 < L then push P E else []), st4[R := (st4 ! R)\<lparr>ms_nextRank := maxRank\<rparr>])"
proof -
  have first: "potentialMerge rk c L NE h (st[L := (st ! L)\<lparr>ms_curRank := ms_nextRank (st ! L), ms_end := E\<rparr>])
      = (h @ push L NE, st2)"
    using ord by (simp add: potentialMerge_eq new_rank_def [symmetric] Let_def m push st2)
  have prev: "nat (ms_prev (st3 ! L)) = P" if "0 < L" using that ord links by (simp add: st3 st2)
  have second: "potentialMerge rk c P E h2 st3 = (h2 @ push P E, st4)" if "0 < L" for h2
    using that by (simp add: potentialMerge_eq new_rank_def [symmetric] Let_def m push st4)
  have len: "length st2 = length st" by (simp add: st2)
  show ?thesis
    unfolding large_merge_def links Let_def first prod.case len st3 [symmetric]
    using prev second by (simp add: st4)
qed

lemma large_merge_eq:
  assumes rk: "ranks_ok rk" and st: "state_ok rk toks st" and k: "k + 1 < length toks"
  obtains h' st' where "large_merge rk (concat toks) (off toks k) h st = (h @ h', st')"
    and "length st' = length st" and "\<forall>p < length st. st' ! p = merged_state rk toks k st p"
    and "length h' \<le> 2"
    and "set h' = {(off toks j, pair_rank rk (merge_at k toks) j) | j.
      (j = k \<or> j + 1 = k) \<and> pair_rank rk (merge_at k toks) j \<noteq> maxRank}"
proof -
  let ?c = "concat toks" and ?L = "off toks k" and ?R = "off toks (k + 1)" and ?E = "off toks (k + 2)"
    and ?P = "off toks (k - 1)"
  let ?m = "\<lambda>s e. case new_rank rk ?c s e of Some r \<Rightarrow> r | None \<Rightarrow> maxRank"
    and ?push = "pushed_entry rk ?c"
  have ne: "[] \<notin> set toks" and len: "length st = length ?c"
    and tok: "\<And>j. j < length toks \<Longrightarrow> token_ok rk toks j (st ! off toks j)"
    using st by (auto simp: state_ok_def)
  have ord: "?L < ?R" "?R < ?E" "0 < k \<Longrightarrow> ?P < ?L" "?R < length st" "0 < ?L \<longleftrightarrow> 0 < k"
    using k ne off_strict [OF ne, of k "k + 1"] off_strict [OF ne, of "k + 1" "k + 2"] off_strict [OF ne, of "k - 1" k]
      off_less [OF ne, of "k + 1"] off_strict [OF ne, of 0 k] by (auto simp: len intro: gr0I)
  have L: "ms_end (st ! ?L) = ?R" "ms_nextEnd (st ! ?L) = ?E" "0 < k \<Longrightarrow> ms_prev (st ! ?L) = int ?P"
    using tok [of k] k by (auto simp: token_ok_def off_noff)
  have R: "ms_nextEnd (st ! ?R) = noff toks (k + 3)"
    using tok [of "k + 1"] k by (auto simp: token_ok_def numeral_3_eq_3)
  define st2 where "st2 = st[?L := (st ! ?L)\<lparr>ms_curRank := ms_nextRank (st ! ?L), ms_end := ?E,
    ms_nextEnd := noff toks (k + 3), ms_nextRank := ?m ?L (noff toks (k + 3))\<rparr>]"
  define st3 where "st3 = (if ?E < length st then st2[?E := (st2 ! ?E)\<lparr>ms_prev := int ?L\<rparr>] else st2)"
  define st4 where "st4 = (if 0 < ?L then st3[?P := (st3 ! ?P)\<lparr>ms_nextEnd := ?E, ms_nextRank := ?m ?P ?E\<rparr>] else st3)"
  define st5 where "st5 = st4[?R := (st4 ! ?R)\<lparr>ms_nextRank := maxRank\<rparr>]"
  define h' where "h' = ?push ?L (noff toks (k + 3)) @ (if 0 < ?L then ?push ?P ?E else [])"
  have nth: "st5 ! p = merged_state rk toks k st p" if "p < length st" for p
    using that ord new_rank_right [OF k, of rk] new_rank_left [OF k, of rk]
    by (auto simp: st5_def st4_def st3_def st2_def merged_state_def nth_list_update)
  have eqn: "large_merge rk ?c ?L h st = (h @ h', st5)"
    unfolding h'_def st5_def
    by (rule large_merge_steps [where m = ?m and push = ?push, OF L(1,2) R _ ord(1,2,4) _ _ st2_def st3_def st4_def])
      (use ord L(3) in \<open>simp_all add: pushed_entry_def\<close>)
  have len5: "length st5 = length st" by (simp add: st5_def st4_def st3_def st2_def)
  have two: "length h' \<le> 2" by (auto simp: h'_def pushed_entry_def split: option.splits)
  let ?pr = "pair_rank rk (merge_at k toks)"
  have pl: "0 < k \<Longrightarrow> set (?push ?P ?E) = (if ?pr (k - 1) \<noteq> maxRank then {(?P, ?pr (k - 1))} else {})"
    by (rule new_rank_push [OF rk new_rank_left [OF k]])
  have "set h' = (if ?pr k \<noteq> maxRank then {(?L, ?pr k)} else {})
      \<union> (if 0 < k \<and> ?pr (k - 1) \<noteq> maxRank then {(?P, ?pr (k - 1))} else {})"
    unfolding h'_def set_append new_rank_push [OF rk new_rank_right [OF k]]
    by (cases "0 < k") (use pl in \<open>simp_all add: ord(5)\<close>)
  also have "\<dots> = {(off toks j, ?pr j) | j. (j = k \<or> j + 1 = k) \<and> ?pr j \<noteq> maxRank}"
    by (cases k) auto
  finally show thesis using that [of h' st5] eqn len5 nth two by simp
qed

lemma state_ok_merge:
  assumes rk: "ranks_ok rk" and st: "state_ok rk toks st" and k: "k + 1 < length toks"
    and r: "pair_rank rk toks k \<noteq> maxRank"
    and len: "length st' = length st" and st': "\<And>p. p < length st \<Longrightarrow> st' ! p = merged_state rk toks k st p"
  shows "state_ok rk (merge_at k toks) st'"
proof -
  have ne: "[] \<notin> set toks" and n: "length st = length (concat toks)"
    and tok: "\<And>j. j < length toks \<Longrightarrow> token_ok rk toks j (st ! off toks j)"
    and rest: "\<And>p. p < length st \<Longrightarrow> p \<notin> off toks ` {..<length toks} \<Longrightarrow> ms_nextRank (st ! p) = maxRank"
    using st by (auto simp: state_ok_def)
  have eq: "\<And>i j. i \<le> length toks \<Longrightarrow> j \<le> length toks \<Longrightarrow> off toks i = off toks j \<longleftrightarrow> i = j"
    using off_inj [OF ne] by blast
  have m: "merged_state rk toks k st (off toks i) =
      (if i = k then (st ! off toks i)\<lparr>ms_curRank := pair_rank rk toks k, ms_end := off toks (k + 2),
          ms_nextEnd := noff toks (k + 3), ms_nextRank := pair_rank rk (merge_at k toks) k\<rparr>
       else if i = k + 1 then (st ! off toks i)\<lparr>ms_nextRank := maxRank\<rparr>
       else if i = k + 2 then (st ! off toks i)\<lparr>ms_prev := int (off toks k)\<rparr>
       else if i + 1 = k then (st ! off toks i)\<lparr>ms_nextEnd := off toks (k + 2), ms_nextRank := pair_rank rk (merge_at k toks) i\<rparr>
       else st ! off toks i)" if "i < length toks" for i
    using that k tok [of k] unfolding merged_state_def by (auto simp: eq token_ok_def)
  have cur: "rk (toks ! k @ toks ! (k + 1)) = Some (pair_rank rk toks k)"
    using k r by (auto simp: pair_rank_def rank_or_max_def split: option.splits)
  have "token_ok rk (merge_at k toks) j (st' ! off (merge_at k toks) j)" if j: "j < length toks - 1" for j
  proof -
    let ?i = "if j \<le> k then j else j + 1"
    have i: "?i < length toks" using j k by auto
    have "st' ! off (merge_at k toks) j = merged_state rk toks k st (off toks ?i)"
      using j k i st' [of "off toks ?i"] off_less [OF ne i] n by (auto simp: off_merge)
    then show ?thesis
      using tok [OF i] i j k cur
      by (auto simp: m token_ok_def off_merge noff_merge pair_rank_merge nth_merge_at off_noff numeral_3_eq_3 split: if_splits)
  qed
  moreover have "ms_nextRank (st' ! p) = maxRank"
    if p: "p < length st" "p \<notin> off toks ` ({..<length toks} - {k + 1})" for p
  proof (cases "p = off toks (k + 1)")
    case True
    then show ?thesis using st' [OF p(1)] m [of "k + 1"] k by simp
  next
    case False
    then have q: "p \<notin> off toks ` {..<length toks}" using p(2) by auto
    then have "p \<noteq> off toks k" "0 < k \<longrightarrow> p \<noteq> off toks (k - 1)" using k by auto
    with False show ?thesis using st' [OF p(1)] rest [OF p(1) q] by (auto simp: merged_state_def)
  qed
  ultimately show ?thesis
    using k len n merge_at_nonempty [OF k ne] token_offsets_merge [OF k] by (auto simp: state_ok_def)
qed

lemma heap_ok_merge:
  assumes ne: "[] \<notin> set toks" and h: "heap_ok rk toks h" and k: "k + 1 < length toks"
    and h'': "set h - {(off toks k, r)} \<subseteq> set h''" "set h'' \<subseteq> set h"
    and h': "set h' = {(off toks j, pair_rank rk (merge_at k toks) j) | j.
      (j = k \<or> j + 1 = k) \<and> pair_rank rk (merge_at k toks) j \<noteq> maxRank}"
    and rk: "ranks_ok rk"
  shows "heap_ok rk (merge_at k toks) (h'' @ h')"
proof -
  have eq: "\<And>i j. i \<le> length toks \<Longrightarrow> j \<le> length toks \<Longrightarrow> off toks i = off toks j \<longleftrightarrow> i = j"
    using off_inj [OF ne] by blast
  have pr: "pair_rank rk ts j \<noteq> maxRank \<Longrightarrow> pair_rank rk ts j < maxRank" for ts j
    using rk by (auto simp: pair_rank_def rank_or_max_def ranks_ok_def split: option.splits if_splits)
  have "(off (merge_at k toks) j, pair_rank rk (merge_at k toks) j) \<in> set (h'' @ h')"
    if j: "j < length toks - 1" and r: "pair_rank rk (merge_at k toks) j \<noteq> maxRank" for j
  proof (cases "j = k \<or> j + 1 = k")
    case True
    then show ?thesis using r j k by (auto simp: h' off_merge)
  next
    case False
    let ?i = "if j \<le> k then j else j + 1"
    have "pair_rank rk (merge_at k toks) j = pair_rank rk toks ?i" "?i \<noteq> k" "?i < length toks"
      using False j k by (auto simp: pair_rank_merge)
    then have "(off toks ?i, pair_rank rk (merge_at k toks) j) \<in> set h - {(off toks k, r)}"
      using h r k eq [of ?i k] by (auto simp: heap_ok_def)
    then show ?thesis using h''(1) j k by (auto simp: off_merge)
  qed
  moreover have "\<forall>(p, r) \<in> set (h'' @ h'). p < length (concat toks) \<and> r < maxRank"
    using h h''(2) k off_less [OF ne, of k] off_less [OF ne, of "k - 1"] pr
    by (auto simp: heap_ok_def h' dest: off_less [OF ne])
  ultimately show ?thesis using k by (simp add: heap_ok_def)
qed

subsection \<open>The loop\<close>

lemma best_pair_None: "best_pair rs = None \<longleftrightarrow> (\<forall>r \<in> set rs. maxRank \<le> r)"
proof
  assume none: "best_pair rs = None"
  show "\<forall>r \<in> set rs. maxRank \<le> r"
  proof (cases "rs = []")
    case False
    then have "Min (set rs) \<in> set rs" "list_all (\<lambda>r. Min (set rs) \<le> r) rs" by (auto simp: list_all_iff)
    then have "maxRank \<le> Min (set rs)" using none by (auto simp: best_pair_def find_index_None not_less)
    then show ?thesis using False by auto
  qed simp
next
  assume "\<forall>r \<in> set rs. maxRank \<le> r"
  then show "best_pair rs = None" by (auto simp: best_pair_def find_index_None not_less)
qed

lemma rank_or_max_le: "ranks_ok rk \<Longrightarrow> rank_or_max rk s \<le> maxRank"
  by (auto simp: rank_or_max_def ranks_ok_def intro: less_imp_le split: option.split)

lemma pair_rank_le: "ranks_ok rk \<Longrightarrow> pair_rank rk toks k \<le> maxRank"
  by (simp add: pair_rank_def rank_or_max_le)

text \<open>An empty heap leaves no pair; a current entry that is popped is the pair the reference merges.\<close>

lemma heap_empty_best:
  assumes "ranks_ok rk" "heap_ok rk toks []"
  shows "best_pair (pair_ranks rk toks) = None"
proof -
  have "pair_ranks rk toks ! j = maxRank" if "j < length toks - 1" for j
    using that assms(2) pair_ranks_pair_rank [of j toks rk] by (auto simp: heap_ok_def)
  then show ?thesis by (auto simp: best_pair_None in_set_conv_nth)
qed

lemma popped_best:
  assumes rk: "ranks_ok rk" and st: "state_ok rk toks st" and h: "heap_ok rk toks h"
    and pop: "heap_pop h = Some ((p, r), h')" and cur: "r = ms_nextRank (st ! p)"
  obtains k where "k + 1 < length toks" "p = off toks k" "r = pair_rank rk toks k" "pair_rank rk toks k \<noteq> maxRank"
    "best_pair (pair_ranks rk toks) = Some k"
proof -
  have ne: "[] \<notin> set toks" and n: "length st = length (concat toks)"
    and tok: "\<And>j. j < length toks \<Longrightarrow> token_ok rk toks j (st ! off toks j)"
    and rest: "\<And>p. p < length st \<Longrightarrow> p \<notin> off toks ` {..<length toks} \<Longrightarrow> ms_nextRank (st ! p) = maxRank"
    using st by (auto simp: state_ok_def)
  have pr: "p < length st" "r < maxRank" using heap_pop_least(1) [OF pop] h n by (auto simp: heap_ok_def)
  then obtain k where k: "k < length toks" "p = off toks k" using rest [of p] cur by auto
  have r: "r = pair_rank rk toks k" using tok [OF k(1)] cur k(2) by (simp add: token_ok_def)
  then have k1: "k + 1 < length toks" using pr(2) by (auto simp: pair_rank_def split: if_splits)
  have least: "r \<le> pair_rank rk toks j \<and> (j < k \<longrightarrow> r < pair_rank rk toks j)" if j: "j < length toks" for j
  proof (cases "pair_rank rk toks j = maxRank")
    case True
    then show ?thesis using pr(2) by simp
  next
    case False
    then have "(off toks j, pair_rank rk toks j) \<in> set h" using h j by (simp add: heap_ok_def)
    then have "\<not> entry_less (off toks j, pair_rank rk toks j) (p, r)" by (rule heap_pop_least(3) [OF pop])
    then show ?thesis using k j off_strict [OF ne, of j k] by (auto simp: entry_less_def split: if_splits)
  qed
  have "best_pair (pair_ranks rk toks) = Some k"
    using k1 least pr(2) r by (auto simp: best_pair_iff pair_ranks_pair_rank simp del: pair_ranks_nth)
  then show thesis using that k1 k(2) r pr(2) by auto
qed

lemma heap_ok_stale:
  assumes st: "state_ok rk toks st" and h: "heap_ok rk toks h" and stale: "r \<noteq> ms_nextRank (st ! p)"
  shows "heap_ok rk toks (remove1 (p, r) h)"
proof -
  have "(off toks k, pair_rank rk toks k) \<noteq> (p, r)" if "k < length toks" for k
    using st stale that by (auto simp: state_ok_def token_ok_def)
  then show ?thesis using h remove1_bounds(2,3) [where x = "(p, r)" and h = h]
    by (auto simp: heap_ok_def dest: subsetD)
qed

lemma large_loop_greedy:
  assumes "ranks_ok rk" "state_ok rk toks st" "heap_ok rk toks h" "length h + 2 * (length toks - 1) < fuel"
  shows "\<exists>st'. large_loop fuel rk (concat toks) h st = Some st'
    \<and> state_ok rk (greedy rk toks) st' \<and> concat (greedy rk toks) = concat toks"
  using assms(2-)
proof (induction fuel arbitrary: toks st h)
  case 0
  then show ?case by simp
next
  case (Suc fuel)
  have n: "length st = length (concat toks)" and ne: "[] \<notin> set toks" using Suc.prems(1) by (auto simp: state_ok_def)
  show ?case
  proof (cases "heap_pop h")
    case None
    then have "h = []" by (cases h) (auto simp: Let_def)
    then have "greedy rk toks = toks"
      using heap_empty_best [OF assms(1)] Suc.prems(2) by (subst greedy.simps) simp
    with None Suc.prems(1) show ?thesis by simp
  next
    case (Some x)
    then obtain p r h' where pop: "heap_pop h = Some ((p, r), h')" by (cases x) auto
    note least = heap_pop_least [OF pop]
    have pr: "p < length st" "r \<noteq> maxRank" using least(1) Suc.prems(2) n by (auto simp: heap_ok_def)
    have len: "length h' < length h" "set h - {(p, r)} \<subseteq> set h'" "set h' \<subseteq> set h"
      using least(1,2) remove1_bounds [where x = "(p, r)" and h = h] by simp_all
    show ?thesis
    proof (cases "r = ms_nextRank (st ! p)")
      case False
      have "heap_ok rk toks h'" using heap_ok_stale [OF Suc.prems(1,2) False] least(2) by simp
      moreover have "length h' + 2 * (length toks - 1) < fuel" using Suc.prems(3) len(1) by simp
      ultimately show ?thesis using Suc.IH [OF Suc.prems(1)] pop pr False by simp
    next
      case True
      then obtain k where k: "k + 1 < length toks" "p = off toks k" "r = pair_rank rk toks k"
          "pair_rank rk toks k \<noteq> maxRank" and best: "best_pair (pair_ranks rk toks) = Some k"
        by (rule popped_best [OF assms(1) Suc.prems(1,2) pop])
      obtain g st' where step: "large_merge rk (concat toks) (off toks k) h' st = (h' @ g, st')"
        and st': "length st' = length st" "\<forall>p < length st. st' ! p = merged_state rk toks k st p"
        and g: "length g \<le> 2" "set g = {(off toks j, pair_rank rk (merge_at k toks) j) | j.
          (j = k \<or> j + 1 = k) \<and> pair_rank rk (merge_at k toks) j \<noteq> maxRank}"
        by (rule large_merge_eq [OF assms(1) Suc.prems(1) k(1), of h'])
      have "state_ok rk (merge_at k toks) st'"
        by (rule state_ok_merge [OF assms(1) Suc.prems(1) k(1,4) st'(1)]) (use st'(2) in simp)
      moreover have "heap_ok rk (merge_at k toks) (h' @ g)"
        by (rule heap_ok_merge [OF ne Suc.prems(2) k(1) _ len(3) g(2) assms(1), of r]) (use len(2) k(2) in simp)
      moreover have "length (h' @ g) + 2 * (length (merge_at k toks) - 1) < fuel"
        using Suc.prems(3) len(1) g(1) k(1) by simp
      moreover have "ms_end (st ! p) < length st"
        using Suc.prems(1) k off_less [OF ne k(1)] n by (auto simp: state_ok_def token_ok_def)
      ultimately show ?thesis
        using Suc.IH [of "merge_at k toks" st' "h' @ g"] pop pr True step k best
        by (subst (1 2) greedy.simps) simp
    qed
  qed
qed

subsection \<open>The first and the last pass\<close>

lemma length_tokens_le: "[] \<notin> set toks \<Longrightarrow> length toks \<le> length (concat toks)"
proof (induction toks)
  case (Cons t toks)
  then show ?case by (cases t) auto
qed simp

definition init_state :: "nat \<Rightarrow> int \<Rightarrow> mergeState" where
  "init_state p r = \<lparr>ms_prev = int p - 1, ms_end = p + 1, ms_nextEnd = p + 2, ms_nextRank = r, ms_curRank = maxRank\<rparr>"

lemma pair_rank_bytes:
  "pair_rank rk (bytes piece) p = (if p + 1 < length piece then rank_or_max rk (subslice piece p (p + 2)) else maxRank)"
  by (simp add: pair_rank_def subslice_bytes)

lemma large_init_inv:
  assumes "ranks_ok rk" "i < length piece" "length st = i + 1" "st ! i = init_state i maxRank"
    and "\<And>p. p < i \<Longrightarrow> st ! p = init_state p (pair_rank rk (bytes piece) p)"
    and "set h = {(p, pair_rank rk (bytes piece) p) | p. p < i \<and> pair_rank rk (bytes piece) p \<noteq> maxRank}" "length h \<le> i"
  shows "\<exists>h' st'. large_init rk piece i h st = (h', st') \<and> length st' = length piece \<and> length h' < length piece
    \<and> (\<forall>p < length piece. st' ! p = init_state p (pair_rank rk (bytes piece) p))
    \<and> set h' = {(p, pair_rank rk (bytes piece) p) | p. p < length piece \<and> pair_rank rk (bytes piece) p \<noteq> maxRank}"
  using assms(2-)
proof (induction "length piece - i" arbitrary: i h st rule: less_induct)
  case less
  let ?pr = "pair_rank rk (bytes piece)"
  show ?case
  proof (cases "i + 1 < length piece")
    case True
    define ro where "ro = rk (subslice piece i (i + 2))"
    define h2 where "h2 = (case ro of Some r \<Rightarrow> h @ [(i, r)] | None \<Rightarrow> h)"
    define st2 where "st2 = (case ro of Some r \<Rightarrow> st[i := (st ! i)\<lparr>ms_nextRank := r\<rparr>] | None \<Rightarrow> st) @ [init_state (i + 1) maxRank]"
    have pr: "?pr i = (case ro of Some r \<Rightarrow> r | None \<Rightarrow> maxRank)" using True by (simp add: pair_rank_bytes rank_or_max_def ro_def)
    have ro: "ro = Some r \<Longrightarrow> r \<noteq> maxRank" for r using assms(1) by (auto simp: ro_def ranks_ok_def)
    have eq: "large_init rk piece i h st = large_init rk piece (i + 1) h2 st2"
      using True by (subst large_init.simps)
        (simp add: Let_def h2_def st2_def ro_def init_state_def numeral_3_eq_3 split: option.split)
    have nth: "st2 ! p = init_state p (?pr p)" if "p < i + 1" for p
      using that less(3-5) pr
      by (cases "p = i") (auto simp: st2_def nth_append init_state_def split: option.split)
    have h2: "set h2 = {(p, ?pr p) | p. p < i + 1 \<and> ?pr p \<noteq> maxRank}" "length h2 \<le> i + 1"
      using less(6,7) ro pr by (auto simp: h2_def less_Suc_eq split: option.splits)
    have IH: "\<exists>h' st'. large_init rk piece (i + 1) h2 st2 = (h', st') \<and> length st' = length piece \<and> length h' < length piece
        \<and> (\<forall>p < length piece. st' ! p = init_state p (?pr p))
        \<and> set h' = {(p, ?pr p) | p. p < length piece \<and> ?pr p \<noteq> maxRank}"
    proof (rule less(1))
      show "length st2 = i + 1 + 1" "st2 ! (i + 1) = init_state (i + 1) maxRank"
        using less(3) by (simp_all add: st2_def nth_append split: option.split)
    qed (use True nth h2 in simp_all)
    then show ?thesis by (simp add: eq)
  next
    case False
    then have i: "i + 1 = length piece" "?pr i = maxRank" using less(2) by (auto simp: pair_rank_bytes)
    have "large_init rk piece i h st = (h, st)" using False by (subst large_init.simps) simp
    then show ?thesis using less(2-) i by (auto simp: less_Suc_eq i(1) [symmetric])
  qed
qed

lemma large_out_emit:
  assumes st: "state_ok rk toks st" and k: "k \<le> length toks" and fuel: "length toks - k < fuel"
  shows "large_out fuel rk (concat toks) st (off toks k) dst = Some (dst @ emit_tokens rk (drop k toks))"
  using k fuel
proof (induction fuel arbitrary: k dst)
  case 0
  then show ?case by simp
next
  case (Suc fuel)
  have ne: "[] \<notin> set toks" and n: "length st = length (concat toks)" using st by (auto simp: state_ok_def)
  show ?case
  proof (cases "k = length toks")
    case True
    then show ?thesis using n by (simp add: off_length emit_tokens_def)
  next
    case False
    then have k: "k < length toks" using Suc.prems by simp
    have tok: "ms_end (st ! off toks k) = off toks (k + 1)"
        "ms_curRank (st ! off toks k) = maxRank \<or> rk (toks ! k) = Some (ms_curRank (st ! off toks k))"
      using st k by (auto simp: state_ok_def token_ok_def)
    have step: "large_out fuel rk (concat toks) st (off toks (k + 1)) d = Some (d @ emit_tokens rk (drop (k + 1) toks))" for d
      using Suc.IH [of "k + 1"] Suc.prems k by simp
    show ?thesis
      using off_less [OF ne k] n tok step subslice_token [OF k]
      by (auto simp: Let_def append_rank_def emit_tokens_def Cons_nth_drop_Suc [OF k, symmetric] split: option.splits)
  qed
qed

lemma mergePartsLarge_eq:
  assumes rk: "ranks_ok rk" and piece: "piece \<noteq> []"
  shows "mergePartsLarge rk piece dst = Some (dst @ emit_tokens rk (greedy rk (bytes piece)))"
proof -
  let ?pr = "pair_rank rk (bytes piece)"
  obtain h st where init: "large_init rk piece 0 [] [init_state 0 maxRank] = (h, st)" "length st = length piece"
      "length h < length piece" "\<forall>p < length piece. st ! p = init_state p (?pr p)"
      "set h = {(p, ?pr p) | p. p < length piece \<and> ?pr p \<noteq> maxRank}"
    using large_init_inv [OF rk, of 0 piece "[init_state 0 maxRank]" "[]"] piece by auto
  have st: "state_ok rk (bytes piece) st"
    using piece init(2,4)
    by (auto simp: state_ok_def token_ok_def off_bytes noff_def init_state_def image_iff) (auto simp: bytes_def)
  have h: "heap_ok rk (bytes piece) h"
    using init(5) pair_rank_le [OF rk, of "bytes piece"] by (auto simp: heap_ok_def off_bytes order_less_le)
  have fuel: "length h + 2 * (length (bytes piece) - 1) < 3 * length piece + 1" using init(3) by simp
  obtain st' where loop: "large_loop (3 * length piece + 1) rk piece h st = Some st'"
    and ok: "state_ok rk (greedy rk (bytes piece)) st'" "concat (greedy rk (bytes piece)) = piece"
    using large_loop_greedy [OF rk st h fuel] by auto
  have "length (greedy rk (bytes piece)) \<le> length piece"
    using ok by (metis length_tokens_le state_ok_def)
  then have "large_out (length piece + 1) rk piece st' 0 dst = Some (dst @ emit_tokens rk (greedy rk (bytes piece)))"
    using large_out_emit [OF ok(1), of 0 "length piece + 1" dst] ok(2) by simp
  moreover have "init_state 0 maxRank
      = \<lparr>ms_prev = - 1, ms_end = 1, ms_nextEnd = 2, ms_nextRank = maxRank, ms_curRank = maxRank\<rparr>"
    by (simp add: init_state_def)
  ultimately show ?thesis using init(1) loop unfolding mergePartsLarge_def Let_def by simp
qed

section \<open>Both paths\<close>

lemma mergeParts_eq:
  assumes "ranks_ok rk"
  shows "mergeParts rk piece dst = Some (dst @ emit_tokens rk (greedy rk (bytes piece)))"
proof (cases "length piece < 100")
  case False
  then have "piece \<noteq> []" by auto
  with False show ?thesis by (simp add: mergeParts_def mergePartsLarge_eq [OF assms])
qed (simp add: mergeParts_def mergePartsSmall_eq)

lemma concat_greedy [simp]: "concat (greedy rk toks) = concat toks"
proof (induction rk toks rule: greedy.induct)
  case (1 rk toks)
  then show ?case
    by (cases "best_pair (pair_ranks rk toks)")
      (use greedy.simps [of rk toks] in \<open>auto dest!: best_pair_less simp: less_diff_conv\<close>)
qed

lemma greedy_stuck: "best_pair (pair_ranks rk (greedy rk toks)) = None"
proof (induction rk toks rule: greedy.induct)
  case (1 rk toks)
  then show ?case
    by (cases "best_pair (pair_ranks rk toks)") (use greedy.simps [of rk toks] in auto)
qed

lemma merge_at_tokens:
  assumes "best_pair (pair_ranks rk toks) = Some k" "\<forall>t \<in> set toks. rk t \<noteq> None"
  shows "\<forall>t \<in> set (merge_at k toks). rk t \<noteq> None"
proof -
  have k: "k + 1 < length toks" using best_pair_less [OF assms(1)] by simp
  then have "rk (toks ! k @ toks ! (k + 1)) \<noteq> None"
    using best_pair_rank [OF assms(1)] by (auto simp: rank_or_max_def split: option.splits)
  with assms(2) show ?thesis by (auto simp: merge_at_def dest: in_set_takeD in_set_dropD)
qed

lemma greedy_tokens: "\<forall>t \<in> set toks. rk t \<noteq> None \<Longrightarrow> \<forall>t \<in> set (greedy rk toks). rk t \<noteq> None"
proof (induction rk toks rule: greedy.induct)
  case (1 rk toks)
  then show ?case
    by (cases "best_pair (pair_ranks rk toks)")
      (use greedy.simps [of rk toks] merge_at_tokens [of rk toks] in auto)
qed

lemma greedy_nonempty: "[] \<notin> set toks \<Longrightarrow> [] \<notin> set (greedy rk toks)"
proof (induction rk toks rule: greedy.induct)
  case (1 rk toks)
  show ?case
  proof (cases "best_pair (pair_ranks rk toks)")
    case None
    then show ?thesis using 1(2) greedy.simps [of rk toks] by simp
  next
    case (Some k)
    then have "[] \<notin> set (merge_at k toks)" using best_pair_less [OF Some] 1(2) by (intro merge_at_nonempty) simp_all
    then show ?thesis using Some 1(1) [OF Some] greedy.simps [of rk toks] by simp
  qed
qed

end
