(* ===== verification/Bpe_Scanner.thy ===== *)
theory Bpe_Scanner
  imports Go_Strings Bpe_Tables Bpe_Merge
begin

text \<open>
  The pre-tokenizer of \<^verbatim>\<open>internal/bpe/scanner.go\<close>: a hand-written matcher for the eight alternatives of
  the \<^verbatim>\<open>cl100k_base\<close> pattern, which Go's regular expressions cannot express. Positions are byte offsets
  into the text, as in the code. The alternatives the code tries in turn inside \<^verbatim>\<open>matchPiece\<close> are one
  definition each, \<open>None\<close> where the code goes on to the one after it. A call at the end of the text, where the
  code would index out of range, never happens: \<open>ScanPieces\<close> calls \<open>matchPiece\<close> inside the text only.
\<close>

definition isSpace :: "int \<Rightarrow> bool" where
  "isSpace r \<longleftrightarrow> (9 \<le> r \<and> r \<le> 13) \<or> r = 0x20 \<or> r = 0x85 \<or> r = 0xA0 \<or> r = 0x1680 \<or> (0x2000 \<le> r \<and> r \<le> 0x200A)
     \<or> r = 0x2028 \<or> r = 0x2029 \<or> r = 0x202F \<or> r = 0x205F \<or> r = 0x3000"

definition Classify :: "int \<Rightarrow> bool \<times> bool \<times> bool" where
  "Classify r = (isSpace r, isLetter r, isNumber r)"

definition decodeRune :: "string \<Rightarrow> nat \<Rightarrow> int \<times> nat" where
  "decodeRune s i =
     (let c = byte (s ! i) in
      if c < 128 then (int c, 1)
      else if c = 0xED \<and> i + 2 < length s
          \<and> 0xA0 \<le> byte (s ! (i + 1)) \<and> byte (s ! (i + 1)) \<le> 0xBF \<and> 0x80 \<le> byte (s ! (i + 2)) \<and> byte (s ! (i + 2)) \<le> 0xBF
        then (int RuneError, 3)
      else let (r, size) = decode_rune (drop i s) in (int r, size))"

lemma decode_rune_size: "s \<noteq> [] \<Longrightarrow> snd (decode_rune s) \<le> length s"
  by (cases s) (auto simp: Let_def split: list.splits)

lemma decodeRune_size:
  assumes "i < length s"
  shows "0 < snd (decodeRune s i)" "i + snd (decodeRune s i) \<le> length s"
proof -
  have "drop i s \<noteq> []" using assms by simp
  then show "0 < snd (decodeRune s i)" "i + snd (decodeRune s i) \<le> length s"
    using assms decode_rune_width [of "drop i s"] decode_rune_size [of "drop i s"]
    by (auto simp: decodeRune_def Let_def split: prod.splits)
qed

text \<open>The loops that consume the code points of a class.\<close>

function scan_run :: "(int \<Rightarrow> bool) \<Rightarrow> string \<Rightarrow> nat \<Rightarrow> nat" where
  "scan_run p s i =
     (if i < length s then
        (let (r, size) = decodeRune s i in if p r then scan_run p s (i + size) else i)
      else i)"
  by pat_completeness auto
termination
proof (relation "measure (\<lambda>(p, s, i). length s - i)")
  fix p :: "int \<Rightarrow> bool" and s i x r size
  assume "i < length s" "x = decodeRune s i" "(r, size) = x" "p r"
  then show "((p, s, i + size), p, s, i) \<in> measure (\<lambda>(p, s, i). length s - i)"
    using decodeRune_size [of i s] by (cases "decodeRune s i") auto
qed simp

declare scan_run.simps [simp del]

definition scanNonSpaceLetterNumber :: "string \<Rightarrow> nat \<Rightarrow> nat" where
  "scanNonSpaceLetterNumber s i = scan_run (\<lambda>r. \<not> (isSpace r \<or> isLetter r \<or> isNumber r)) s i"

definition scanSpace :: "string \<Rightarrow> nat \<Rightarrow> nat" where
  "scanSpace s i = scan_run isSpace s i"

function scanCRLF :: "string \<Rightarrow> nat \<Rightarrow> nat" where
  "scanCRLF s i =
     (if i < length s \<and> (s ! i = CHR 0x0D \<or> s ! i = CHR 0x0A) then scanCRLF s (i + 1) else i)"
  by pat_completeness auto
termination
  by (relation "measure (\<lambda>(s, i). length s - i)") auto

declare scanCRLF.simps [simp del]

definition matchBranch4 :: "string \<Rightarrow> nat \<Rightarrow> nat" where
  "matchBranch4 s i =
     (let j = (if s ! i = CHR '' '' then i + 1 else i);
          k = scanNonSpaceLetterNumber s j
      in if j < k then scanCRLF s k - i
         else if j \<noteq> i then
           (let k = scanNonSpaceLetterNumber s i in if i < k then scanCRLF s k - i else 0)
         else 0)"

definition branch1 :: "string \<Rightarrow> nat \<Rightarrow> nat option" where
  "branch1 s i =
     (if s ! i = CHR 0x27 \<and> i + 1 < length s then
        (let (r, size) = decodeRune s (i + 1) in
         if r \<in> {0x64, 0x44, 0x6D, 0x4D, 0x73, 0x53, 0x74, 0x54, 0x17F} then Some (1 + size)
         else if r \<in> {0x6C, 0x4C} then
           (if i + 1 + size < length s
            then let (r2, s2) = decodeRune s (i + 1 + size) in
                 if r2 = 0x6C \<or> r2 = 0x4C then Some (1 + size + s2) else None
            else None)
         else if r \<in> {0x76, 0x56, 0x72, 0x52} then
           (if i + 1 + size < length s
            then let (r2, s2) = decodeRune s (i + 1 + size) in
                 if r2 = 0x65 \<or> r2 = 0x45 then Some (1 + size + s2) else None
            else None)
         else None)
      else None)"

definition branch2 :: "string \<Rightarrow> nat \<Rightarrow> nat option" where
  "branch2 s i =
     (let (r, size) = decodeRune s i;
          j = (if r \<noteq> 0x0D \<and> r \<noteq> 0x0A \<and> \<not> isLetter r \<and> \<not> isNumber r then i + size else i)
      in if j < length s then
           (let (r, size) = decodeRune s j in
            if isLetter r then Some (scan_run isLetter s (j + size) - i) else None)
         else None)"

text \<open>At most \<open>k\<close> numbers from \<open>j\<close> on.\<close>

fun scan_numbers :: "nat \<Rightarrow> string \<Rightarrow> nat \<Rightarrow> nat" where
  "scan_numbers 0 s j = j"
| "scan_numbers (Suc k) s j =
     (if j < length s then
        (let (r, size) = decodeRune s j in if isNumber r then scan_numbers k s (j + size) else j)
      else j)"

definition branch3 :: "string \<Rightarrow> nat \<Rightarrow> nat option" where
  "branch3 s i = (if isNumber (fst (decodeRune s i)) then Some (scan_numbers 3 s i - i) else None)"

definition branch5 :: "string \<Rightarrow> nat \<Rightarrow> nat option" where
  "branch5 s i = (let j = scanSpace s i in if j = length s \<and> i < j then Some (j - i) else None)"

text \<open>The white space run from \<open>j\<close> on, with the position of the last line break in it.\<close>

function last_newline :: "string \<Rightarrow> nat \<Rightarrow> nat option \<Rightarrow> nat option" where
  "last_newline s j lst =
     (if j < length s then
        (let (r, size) = decodeRune s j in
         if isSpace r then last_newline s (j + size) (if r = 0x0D \<or> r = 0x0A then Some j else lst)
         else lst)
      else lst)"
  by pat_completeness auto
termination
proof (relation "measure (\<lambda>(s, j, lst). length s - j)")
  fix s j lst x r size
  assume "j < length s" "x = decodeRune s j" "(r, size) = x"
  then show "((s, j + size, if r = 0x0D \<or> r = 0x0A then Some j else lst), s, j, lst) \<in> measure (\<lambda>(s, j, lst). length s - j)"
    using decodeRune_size [of j s] by (cases "decodeRune s j") auto
qed simp

declare last_newline.simps [simp del]

definition branch6 :: "string \<Rightarrow> nat \<Rightarrow> nat option" where
  "branch6 s i = map_option (\<lambda>lst. lst + 1 - i) (last_newline s i None)"

text \<open>The white space run from \<open>j\<close> on: its end, and the start of its last code point.\<close>

function last_rune :: "string \<Rightarrow> nat \<Rightarrow> nat option \<Rightarrow> nat \<times> nat option" where
  "last_rune s j lst =
     (if j < length s then
        (let (r, size) = decodeRune s j in
         if isSpace r then last_rune s (j + size) (Some j) else (j, lst))
      else (j, lst))"
  by pat_completeness auto
termination
proof (relation "measure (\<lambda>(s, j, lst). length s - j)")
  fix s :: string and j and lst :: "nat option" and x and r :: int and size
  assume "j < length s" "x = decodeRune s j" "(r, size) = x"
  then show "((s, j + size, Some j), s, j, lst) \<in> measure (\<lambda>(s, j, lst). length s - j)"
    using decodeRune_size [of j s] by (cases "decodeRune s j") auto
qed simp

declare last_rune.simps [simp del]

definition branch7 :: "string \<Rightarrow> nat \<Rightarrow> nat option" where
  "branch7 s i =
     (let (j, lst) = last_rune s i None in
      if i < j then
        (if j = length s then Some (j - i)
         else case lst of Some l \<Rightarrow> if i < l then Some (l - i) else None | None \<Rightarrow> None)
      else None)"

fun first_some :: "'a option list \<Rightarrow> 'a \<Rightarrow> 'a" where
  "first_some [] d = d"
| "first_some (None # xs) d = first_some xs d"
| "first_some (Some x # xs) d = x"

definition branch4 :: "string \<Rightarrow> nat \<Rightarrow> nat option" where
  "branch4 s i = (let n = matchBranch4 s i in if 0 < n then Some n else None)"

definition matchPiece :: "string \<Rightarrow> nat \<Rightarrow> nat" where
  "matchPiece s i =
     first_some [branch1 s i, branch2 s i, branch3 s i, branch4 s i, branch5 s i, branch6 s i, branch7 s i]
       (snd (decodeRune s i))"

record Piece =
  Start :: nat
  End :: nat

section \<open>Bounds\<close>

lemma scan_run_bounds: "i \<le> length s \<Longrightarrow> i \<le> scan_run p s i \<and> scan_run p s i \<le> length s"
proof (induction p s i rule: scan_run.induct)
  case (1 p s i)
  obtain r size where d: "decodeRune s i = (r, size)" by fastforce
  have "i + size \<le> scan_run p s (i + size) \<and> scan_run p s (i + size) \<le> length s" if "i < length s" "p r"
    using 1(1) [OF that(1) d [symmetric] refl that(2)] that d decodeRune_size [of i s] by simp
  then show ?case using 1(2) d by (subst (1 2) scan_run.simps) auto
qed

lemma scan_run_advances:
  "i < length s \<Longrightarrow> p (fst (decodeRune s i)) \<Longrightarrow> i < scan_run p s i"
  using decodeRune_size [of i s] scan_run_bounds [of "i + snd (decodeRune s i)" s p]
  by (subst scan_run.simps) (auto simp: Let_def split: prod.splits)

lemma scan_run_stops:
  "i \<le> length s \<Longrightarrow> scan_run p s i < length s \<Longrightarrow> \<not> p (fst (decodeRune s (scan_run p s i)))"
proof (induction p s i rule: scan_run.induct)
  case (1 p s i)
  obtain r size where d: "decodeRune s i = (r, size)" by fastforce
  show ?case using 1 d decodeRune_size [of i s]
    by (cases "i < length s"; cases "p r") (simp_all add: scan_run.simps [of p s i])
qed

lemma scanCRLF_bounds: "i \<le> length s \<Longrightarrow> i \<le> scanCRLF s i \<and> scanCRLF s i \<le> length s"
proof (induction s i rule: scanCRLF.induct)
  case (1 s i)
  then show ?case by (subst (1 2) scanCRLF.simps) auto
qed

lemma scan_numbers_bounds: "j \<le> length s \<Longrightarrow> j \<le> scan_numbers k s j \<and> scan_numbers k s j \<le> length s"
proof (induction k s j rule: scan_numbers.induct)
  case (2 k s j)
  obtain r size where d: "decodeRune s j = (r, size)" by fastforce
  have "j + size \<le> scan_numbers k s (j + size) \<and> scan_numbers k s (j + size) \<le> length s" if "j < length s" "isNumber r"
    using 2(1) [OF that(1) d [symmetric] refl that(2)] that d decodeRune_size [of j s] by simp
  then show ?case using 2(2) d by auto
qed simp

lemma last_newline_bounds:
  assumes "j \<le> length s" "i \<le> j" "\<And>k. lst = Some k \<Longrightarrow> i \<le> k \<and> k < length s" "last_newline s j lst = Some k"
  shows "i \<le> k \<and> k < length s"
  using assms
proof (induction s j lst rule: last_newline.induct)
  case (1 s j lst)
  obtain r size where d: "decodeRune s j = (r, size)" by fastforce
  show ?case
  proof (cases "j < length s \<and> isSpace r")
    case True
    show ?thesis
      by (rule 1(1) [OF _ d [symmetric] refl]) (use 1(2-5) True d decodeRune_size [of j s] last_newline.simps [of s j lst] in \<open>auto split: if_splits\<close>)
  next
    case False
    then have "last_newline s j lst = lst" using d by (subst last_newline.simps) auto
    then show ?thesis using 1(4,5) by simp
  qed
qed

lemma last_rune_bounds:
  assumes "j \<le> length s" "i \<le> j" "\<And>k. lst = Some k \<Longrightarrow> k < j" "last_rune s j lst = (e, l)"
  shows "j \<le> e \<and> e \<le> length s \<and> (\<forall>k. l = Some k \<longrightarrow> k < e)"
  using assms
proof (induction s j lst rule: last_rune.induct)
  case (1 s j lst)
  obtain r size where d: "decodeRune s j = (r, size)" by fastforce
  show ?case
  proof (cases "j < length s \<and> isSpace r")
    case True
    have "j + size \<le> e \<and> e \<le> length s \<and> (\<forall>k. l = Some k \<longrightarrow> k < e)"
      by (rule 1(1) [OF _ d [symmetric] refl]) (use 1(2-5) True d decodeRune_size [of j s] last_rune.simps [of s j lst] in auto)
    then show ?thesis by simp
  next
    case False
    then have "last_rune s j lst = (j, lst)" using d by (subst last_rune.simps) auto
    then show ?thesis using 1(2-5) by auto
  qed
qed

text \<open>Every alternative that matches consumes at least one byte and stays inside the text.\<close>

definition piece_ok :: "string \<Rightarrow> nat \<Rightarrow> nat option \<Rightarrow> bool" where
  "piece_ok s i m \<longleftrightarrow> (\<forall>n. m = Some n \<longrightarrow> 0 < n \<and> i + n \<le> length s)"

lemma branch1_ok: "i < length s \<Longrightarrow> piece_ok s i (branch1 s i)"
  using decodeRune_size [of "i + 1" s] decodeRune_size [of "i + 1 + snd (decodeRune s (i + 1))" s]
  by (auto simp: piece_ok_def branch1_def Let_def split: prod.splits if_splits)

lemma branch2_ok:
  assumes "i < length s"
  shows "piece_ok s i (branch2 s i)"
proof -
  have "i < scan_run isLetter s (j + snd (decodeRune s j)) \<and> scan_run isLetter s (j + snd (decodeRune s j)) \<le> length s"
    if "i \<le> j" "j < length s" for j
    using that decodeRune_size [of j s] scan_run_bounds [of "j + snd (decodeRune s j)" s isLetter] by auto
  from this [of i] this [of "i + snd (decodeRune s i)"] show ?thesis
    using assms by (auto simp: piece_ok_def branch2_def Let_def split: prod.splits if_splits)
qed

lemma branch3_ok: "i < length s \<Longrightarrow> piece_ok s i (branch3 s i)"
  using decodeRune_size [of i s] scan_numbers_bounds [of "i + snd (decodeRune s i)" s 2]
  by (auto simp: piece_ok_def branch3_def numeral_3_eq_3 numeral_2_eq_2 Let_def split: prod.splits if_splits)

lemma branch4_ok:
  assumes "i < length s"
  shows "piece_ok s i (branch4 s i)"
proof -
  have "scanCRLF s (scanNonSpaceLetterNumber s j) \<le> length s"
    if "j \<le> length s" for j
    using that scan_run_bounds [of j s] scanCRLF_bounds [of "scanNonSpaceLetterNumber s j" s]
    by (simp add: scanNonSpaceLetterNumber_def)
  from this [of i] this [of "i + 1"] show ?thesis
    using assms by (simp add: piece_ok_def branch4_def matchBranch4_def Let_def)
qed

lemma branch5_ok: "i < length s \<Longrightarrow> piece_ok s i (branch5 s i)"
  by (auto simp: piece_ok_def branch5_def Let_def split: if_splits)

lemma branch6_ok: "i < length s \<Longrightarrow> piece_ok s i (branch6 s i)"
  using last_newline_bounds [of i s i None] by (auto simp: piece_ok_def branch6_def)

lemma branch7_ok:
  assumes "i < length s"
  shows "piece_ok s i (branch7 s i)"
proof -
  obtain e l where r: "last_rune s i None = (e, l)" by fastforce
  have "i \<le> e \<and> e \<le> length s \<and> (\<forall>k. l = Some k \<longrightarrow> k < e)"
    by (rule last_rune_bounds [OF _ _ _ r]) (use assms in auto)
  then show ?thesis by (auto simp: piece_ok_def branch7_def r split: if_splits option.splits)
qed

lemma first_some_ok:
  "(\<And>m. m \<in> set ms \<Longrightarrow> piece_ok s i m) \<Longrightarrow> piece_ok s i (Some d) \<Longrightarrow> piece_ok s i (Some (first_some ms d))"
  by (induction ms d rule: first_some.induct) auto

lemma matchPiece_bounds:
  assumes "i < length s"
  shows "0 < matchPiece s i" "i + matchPiece s i \<le> length s"
proof -
  have "piece_ok s i (Some (matchPiece s i))"
    unfolding matchPiece_def
    by (rule first_some_ok)
      (use assms decodeRune_size [OF assms] branch1_ok branch2_ok branch3_ok branch4_ok branch5_ok branch6_ok branch7_ok
        in \<open>auto simp: piece_ok_def [of _ _ "Some _"]\<close>)
  then show "0 < matchPiece s i" "i + matchPiece s i \<le> length s" by (simp_all add: piece_ok_def)
qed

section \<open>The pieces of a text\<close>

function scan_from :: "string \<Rightarrow> nat \<Rightarrow> Piece list" where
  "scan_from input i =
     (if i < length input then
        (let n = matchPiece input i in \<lparr>Start = i, End = i + n\<rparr> # scan_from input (i + n))
      else [])"
  by pat_completeness auto
termination
proof (relation "measure (\<lambda>(input, i). length input - i)")
  fix input :: string and i n
  assume "i < length input" "n = matchPiece input i"
  then show "((input, i + n), input, i) \<in> measure (\<lambda>(input, i). length input - i)"
    using matchPiece_bounds [of i input] by auto
qed simp

declare scan_from.simps [simp del]

definition ScanPieces :: "string \<Rightarrow> Piece list" where
  "ScanPieces input = scan_from input 0"

definition piece_text :: "string \<Rightarrow> Piece \<Rightarrow> string" where
  "piece_text input p = subslice input (Start p) (End p)"

lemma scan_from_tiles:
  "i \<le> length input \<Longrightarrow> concat (map (piece_text input) (scan_from input i)) = drop i input
    \<and> (\<forall>p \<in> set (scan_from input i). Start p < End p \<and> End p \<le> length input)"
proof (induction input i rule: scan_from.induct)
  case (1 input i)
  show ?case
  proof (cases "i < length input")
    case True
    let ?n = "matchPiece input i"
    have "take ?n (drop i input) @ drop (i + ?n) input = drop i input"
      by (metis add.commute append_take_drop_id drop_drop)
    moreover have "piece_text input \<lparr>Start = i, End = i + ?n\<rparr> = take ?n (drop i input)"
      by (simp add: piece_text_def subslice_def)
    ultimately show ?thesis
      using True 1(1) [OF True refl] matchPiece_bounds [OF True]
      by (subst (1 2) scan_from.simps) (auto simp: Let_def)
  next
    case False
    then show ?thesis using 1(2) by (simp add: scan_from.simps)
  qed
qed

end
