(* ===== verification/Bpe_Pattern.thy ===== *)
theory Bpe_Pattern
  imports Bpe_Scanner
begin

text \<open>
  The pattern the scanner of \<open>Bpe_Scanner\<close> implements, as the comment of \<^verbatim>\<open>scanner.go\<close> and its constant
  \<^verbatim>\<open>Pattern\<close> spell it, with the backtracking semantics of a regular expression that has possessive
  quantifiers and lookahead: the matches of an expression are the remainders it can leave, in the
  order in which the engine tries them. The scanner is shown to return the first match.

  The expressions run over the code points of the text from a position on, each with its width in bytes.
\<close>

datatype rx =
    Cls "int \<Rightarrow> bool"
  | Many "int \<Rightarrow> bool"
  | Seq rx rx
  | Alt rx rx
  | Opt rx
  | Poss rx
  | NotAhead rx
  | AtEnd

type_synonym rune_list = "(int \<times> nat) list"

primrec many :: "(int \<Rightarrow> bool) \<Rightarrow> rune_list \<Rightarrow> rune_list list" where
  "many p [] = [[]]"
| "many p (x # xs) = (if p (fst x) then many p xs else []) @ [x # xs]"

primrec rx_matches :: "rx \<Rightarrow> rune_list \<Rightarrow> rune_list list" where
  "rx_matches (Cls p) xs = (case xs of [] \<Rightarrow> [] | x # xs \<Rightarrow> if p (fst x) then [xs] else [])"
| "rx_matches (Many p) xs = many p xs"
| "rx_matches (Seq a b) xs = concat (map (rx_matches b) (rx_matches a xs))"
| "rx_matches (Alt a b) xs = rx_matches a xs @ rx_matches b xs"
| "rx_matches (Opt a) xs = rx_matches a xs @ [xs]"
| "rx_matches (Poss a) xs = take 1 (rx_matches a xs)"
| "rx_matches (NotAhead a) xs = (if rx_matches a xs = [] then [xs] else [])"
| "rx_matches AtEnd xs = (if xs = [] then [xs] else [])"

abbreviation Chr :: "int \<Rightarrow> rx" where
  "Chr c \<equiv> Cls (\<lambda>r. r = c)"

abbreviation Plus :: "(int \<Rightarrow> bool) \<Rightarrow> rx" where
  "Plus p \<equiv> Seq (Cls p) (Many p)"

definition is_crlf :: "int \<Rightarrow> bool" where
  "is_crlf r \<longleftrightarrow> r = 0x0D \<or> r = 0x0A"

definition is_other :: "int \<Rightarrow> bool" where
  "is_other r \<longleftrightarrow> \<not> (isSpace r \<or> isLetter r \<or> isNumber r)"

text \<open>The eight alternatives, in the order of the pattern.\<close>

definition pat1 :: rx where
  "pat1 = Seq (Chr 0x27)
     (Alt (Cls (\<lambda>r. r \<in> {0x64, 0x44, 0x6D, 0x4D, 0x73, 0x53, 0x74, 0x54, 0x17F}))
     (Alt (Seq (Cls (\<lambda>r. r \<in> {0x6C, 0x4C})) (Cls (\<lambda>r. r \<in> {0x6C, 0x4C})))
     (Alt (Seq (Cls (\<lambda>r. r \<in> {0x76, 0x56})) (Cls (\<lambda>r. r \<in> {0x65, 0x45})))
          (Seq (Cls (\<lambda>r. r \<in> {0x72, 0x52})) (Cls (\<lambda>r. r \<in> {0x65, 0x45}))))))"

definition pat2 :: rx where
  "pat2 = Seq (Poss (Opt (Cls (\<lambda>r. \<not> is_crlf r \<and> \<not> isLetter r \<and> \<not> isNumber r)))) (Poss (Plus isLetter))"

definition pat3 :: rx where
  "pat3 = Poss (Seq (Cls isNumber) (Opt (Seq (Cls isNumber) (Opt (Cls isNumber)))))"

definition pat4 :: rx where
  "pat4 = Seq (Opt (Chr 0x20)) (Seq (Poss (Plus is_other)) (Poss (Many is_crlf)))"

definition pat5 :: rx where
  "pat5 = Seq (Poss (Plus isSpace)) AtEnd"

definition pat6 :: rx where
  "pat6 = Seq (Many isSpace) (Cls is_crlf)"

definition pat7 :: rx where
  "pat7 = Seq (Plus isSpace) (NotAhead (Cls (\<lambda>r. \<not> isSpace r)))"

definition pat8 :: rx where
  "pat8 = Cls isSpace"

definition pattern :: rx where
  "pattern = Alt pat1 (Alt pat2 (Alt pat3 (Alt pat4 (Alt pat5 (Alt pat6 (Alt pat7 pat8))))))"

text \<open>The code points of the text from position \<open>i\<close> on.\<close>

function rune_seq :: "string \<Rightarrow> nat \<Rightarrow> rune_list" where
  "rune_seq s i =
     (if i < length s then (let (r, size) = decodeRune s i in (r, size) # rune_seq s (i + size)) else [])"
  by pat_completeness auto
termination
proof (relation "measure (\<lambda>(s, i). length s - i)")
  fix s i x r size
  assume "i < length s" "x = decodeRune s i" "(r, size) = x"
  then show "((s, i + size), s, i) \<in> measure (\<lambda>(s, i). length s - i)"
    using decodeRune_size [of i s] by (cases "decodeRune s i") auto
qed simp

declare rune_seq.simps [simp del]

definition width :: "rune_list \<Rightarrow> nat" where
  "width xs = sum_list (map snd xs)"

text \<open>The length in bytes of what a match that leaves \<open>r\<close> has consumed of \<open>xs\<close>.\<close>

definition consumed :: "rune_list \<Rightarrow> rune_list \<Rightarrow> nat" where
  "consumed xs r = width (take (length xs - length r) xs)"

definition first_match :: "rx \<Rightarrow> rune_list \<Rightarrow> nat option" where
  "first_match p xs = (case rx_matches p xs of [] \<Rightarrow> None | r # _ \<Rightarrow> Some (consumed xs r))"

section \<open>The runs of a class\<close>

lemma width_simps [simp]: "width [] = 0" "width (x # xs) = snd x + width xs" "width (xs @ ys) = width xs + width ys"
  by (simp_all add: width_def)

lemma rune_seq_end [simp]: "length s \<le> i \<Longrightarrow> rune_seq s i = []"
  by (simp add: rune_seq.simps)

lemma rune_seq_step: "i < length s \<Longrightarrow> rune_seq s i = decodeRune s i # rune_seq s (i + snd (decodeRune s i))"
  by (subst rune_seq.simps) (auto simp: Let_def split: prod.splits)

lemma rune_seq_Nil: "rune_seq s i = [] \<longleftrightarrow> length s \<le> i"
  by (cases "i < length s") (simp_all add: rune_seq_step)

lemma consumed_suffix [simp]: "consumed (ys @ r) r = width ys"
  by (simp add: consumed_def)

lemma consumed_self [simp]: "consumed r r = 0"
  by (simp add: consumed_def)

lemma rune_seq_width: "i \<le> length s \<Longrightarrow> i + width (rune_seq s i) = length s"
proof (induction s i rule: rune_seq.induct)
  case (1 s i)
  show ?case
  proof (cases "i < length s")
    case True
    obtain r size where d: "decodeRune s i = (r, size)" by fastforce
    show ?thesis
      using True 1(1) [OF True d [symmetric] refl] d decodeRune_size [OF True] by (simp add: rune_seq_step)
  qed (use 1 in simp)
qed

lemma scan_run_seq:
  "i \<le> length s \<Longrightarrow> scan_run p s i = i + width (takeWhile (p \<circ> fst) (rune_seq s i))
    \<and> rune_seq s (scan_run p s i) = dropWhile (p \<circ> fst) (rune_seq s i)"
proof (induction p s i rule: scan_run.induct)
  case (1 p s i)
  obtain r size where d: "decodeRune s i = (r, size)" by fastforce
  show ?case
  proof (cases "i < length s \<and> p r")
    case True
    then have "scan_run p s i = scan_run p s (i + size)" by (subst scan_run.simps) (simp add: d)
    then show ?thesis
      using True d 1(1) [of "(r, size)" r size] decodeRune_size [of i s] by (auto simp: rune_seq_step)
  next
    case False
    then have "scan_run p s i = i" by (subst scan_run.simps) (auto simp: d)
    then show ?thesis using False d by (cases "i < length s") (simp_all add: rune_seq_step)
  qed
qed

lemma hd_many [simp]: "many p xs \<noteq> [] \<and> hd (many p xs) = dropWhile (p \<circ> fst) xs"
  by (induction xs) auto

lemma take_1_many [simp]: "take (Suc 0) (many p xs) = [dropWhile (p \<circ> fst) xs]"
  using hd_many [of p xs] by (cases "many p xs") auto

lemma matches_Plus_Poss:
  "rx_matches (Poss (Plus p)) xs = (case xs of [] \<Rightarrow> [] | x # ys \<Rightarrow> if p (fst x) then [dropWhile (p \<circ> fst) ys] else [])"
  by (simp split: list.split)

section \<open>ASCII code points\<close>

lemma decode_rune_high: "128 \<le> byte a \<Longrightarrow> 128 \<le> fst (decode_rune (a # s))"
  by (auto simp: Let_def RuneError_def cont_byte_def split: list.splits)

lemma decodeRune_ascii:
  assumes "i < length s" "c < 128"
  shows "fst (decodeRune s i) = int c \<longleftrightarrow> byte (s ! i) = c"
    and "byte (s ! i) = c \<Longrightarrow> decodeRune s i = (int c, 1)"
proof -
  have "drop i s = s ! i # drop (i + 1) s" using assms(1) by (simp add: Cons_nth_drop_Suc)
  then have "128 \<le> fst (decodeRune s i)" if "128 \<le> byte (s ! i)"
    using that decode_rune_high [of "s ! i" "drop (i + 1) s"]
    by (auto simp: decodeRune_def Let_def RuneError_def split: prod.splits)
  then show "fst (decodeRune s i) = int c \<longleftrightarrow> byte (s ! i) = c"
    using assms(2) by (cases "byte (s ! i) < 128") (auto simp: decodeRune_def not_less)
  show "byte (s ! i) = c \<Longrightarrow> decodeRune s i = (int c, 1)"
    using assms(2) by (simp add: decodeRune_def)
qed

lemma char_byte: "s ! i = CHR 0x27 \<longleftrightarrow> byte (s ! i) = 39" "s ! i = CHR '' '' \<longleftrightarrow> byte (s ! i) = 32"
    "s ! i = CHR 0x0D \<longleftrightarrow> byte (s ! i) = 13" "s ! i = CHR 0x0A \<longleftrightarrow> byte (s ! i) = 10"
  using of_char_eq_iff [where ?'a = nat, of "s ! i" "CHR 0x27"] of_char_eq_iff [where ?'a = nat, of "s ! i" "CHR '' ''"]
    of_char_eq_iff [where ?'a = nat, of "s ! i" "CHR 0x0D"] of_char_eq_iff [where ?'a = nat, of "s ! i" "CHR 0x0A"]
  by simp_all

lemma decodeRune_char:
  assumes "i < length s"
  shows "s ! i = CHR 0x27 \<longleftrightarrow> fst (decodeRune s i) = 0x27" "s ! i = CHR '' '' \<longleftrightarrow> fst (decodeRune s i) = 0x20"
    "s ! i = CHR 0x0D \<or> s ! i = CHR 0x0A \<longleftrightarrow> is_crlf (fst (decodeRune s i))"
  using decodeRune_ascii(1) [OF assms, of 39] decodeRune_ascii(1) [OF assms, of 32]
    decodeRune_ascii(1) [OF assms, of 13] decodeRune_ascii(1) [OF assms, of 10]
  by (simp_all add: char_byte is_crlf_def)

lemma decodeRune_width_1:
  assumes "i < length s" "0 \<le> fst (decodeRune s i)" "fst (decodeRune s i) < 128"
  shows "snd (decodeRune s i) = 1"
proof -
  obtain c where c: "fst (decodeRune s i) = int c" "c < 128" using assms by (metis nat_0_le nat_less_iff of_nat_numeral zless_nat_eq_int_zless)
  then have "byte (s ! i) = c" using decodeRune_ascii(1) [OF assms(1)] by simp
  then show ?thesis using decodeRune_ascii(2) [OF assms(1) c(2)] by simp
qed

lemma scanCRLF_run: "i \<le> length s \<Longrightarrow> scanCRLF s i = scan_run is_crlf s i"
proof (induction s i rule: scanCRLF.induct)
  case (1 s i)
  show ?case
  proof (cases "i < length s \<and> (s ! i = CHR 0x0D \<or> s ! i = CHR 0x0A)")
    case True
    then have c: "is_crlf (fst (decodeRune s i))" using decodeRune_char(3) by blast
    then have "snd (decodeRune s i) = 1" using True decodeRune_width_1 [of i s] by (auto simp: is_crlf_def)
    then show ?thesis
      using True 1(1) [OF True] c by (subst scanCRLF.simps, subst scan_run.simps) (auto simp: Let_def split: prod.splits)
  next
    case False
    then show ?thesis
      using decodeRune_char(3) [of i s] by (subst scanCRLF.simps, subst scan_run.simps) (auto simp: Let_def split: prod.splits)
  qed
qed

section \<open>The alternatives\<close>

lemma first_match_branch1:
  assumes "i < length s"
  shows "first_match pat1 (rune_seq s i) = branch1 s i"
proof (cases "s ! i = CHR 0x27 \<and> i + 1 < length s")
  case True
  then have q: "fst (decodeRune s i) = 0x27" "snd (decodeRune s i) = 1"
    using decodeRune_char(1) [OF assms] decodeRune_width_1 [OF assms] by auto
  obtain r1 n1 where d1: "decodeRune s (i + 1) = (r1, n1)" by fastforce
  have rs: "rune_seq s i = (0x27, 1) # (r1, n1) # rune_seq s (i + 1 + n1)"
    using True q d1 rune_seq_step [OF assms] rune_seq_step [of "i + 1" s] by (cases "decodeRune s i") simp
  show ?thesis
  proof (cases "i + 1 + n1 < length s")
    case False
    then show ?thesis using True d1 by (auto simp: rs branch1_def pat1_def first_match_def consumed_def)
  next
    case in_text: True
    obtain r2 n2 where "decodeRune s (i + 1 + n1) = (r2, n2)" by fastforce
    then show ?thesis using True in_text d1 rune_seq_step [OF in_text]
      by (auto simp: rs branch1_def pat1_def first_match_def consumed_def)
  qed
next
  case False
  then show ?thesis
    using assms decodeRune_char(1) [OF assms] rune_seq_step [OF assms] decodeRune_width_1 [OF assms]
    by (auto simp: branch1_def pat1_def first_match_def)
qed

text \<open>Position \<open>k\<close> is reached from \<open>i\<close> by whole code points.\<close>

definition rune_reach :: "string \<Rightarrow> nat \<Rightarrow> nat \<Rightarrow> bool" where
  "rune_reach s i k \<longleftrightarrow> (\<exists>ys. rune_seq s i = ys @ rune_seq s k \<and> k = i + width ys)"

lemma reach_refl [simp]: "rune_reach s i i"
  by (auto simp: rune_reach_def)

lemma reach_trans: "rune_reach s i j \<Longrightarrow> rune_reach s j k \<Longrightarrow> rune_reach s i k"
  by (fastforce simp: rune_reach_def)

lemma reach_step: "i < length s \<Longrightarrow> rune_reach s i (i + snd (decodeRune s i))"
  by (auto simp: rune_reach_def rune_seq_step intro!: exI [of _ "[decodeRune s i]"])

lemma reach_scan: "i \<le> length s \<Longrightarrow> rune_reach s i (scan_run p s i)"
  using scan_run_seq [of i s p] takeWhile_dropWhile_id [of "p \<circ> fst" "rune_seq s i"]
  by (auto simp: rune_reach_def intro!: exI [of _ "takeWhile (p \<circ> fst) (rune_seq s i)"])

lemma reach_consumed: "rune_reach s i k \<Longrightarrow> consumed (rune_seq s i) (rune_seq s k) = k - i"
  by (auto simp: rune_reach_def)

lemma first_match_reach: "rx_matches p (rune_seq s i) = rune_seq s k # rs \<Longrightarrow> rune_reach s i k \<Longrightarrow> first_match p (rune_seq s i) = Some (k - i)"
  by (simp add: first_match_def reach_consumed)

lemma matches_Plus_seq:
  "j \<le> length s \<Longrightarrow> rx_matches (Poss (Plus p)) (rune_seq s j) =
     (if j < length s \<and> p (fst (decodeRune s j)) then [rune_seq s (scan_run p s j)] else [])"
  using scan_run_seq [of j s p, THEN conjunct2] unfolding matches_Plus_Poss by (cases "j < length s") (simp_all add: rune_seq_step)

lemma scan_run_step:
  "j < length s \<Longrightarrow> p (fst (decodeRune s j)) \<Longrightarrow> scan_run p s (j + snd (decodeRune s j)) = scan_run p s j"
  by (subst (2) scan_run.simps) (auto simp: Let_def split: prod.splits)

lemma scan_run_stay: "j < length s \<Longrightarrow> \<not> p (fst (decodeRune s j)) \<Longrightarrow> scan_run p s j = j"
  by (subst scan_run.simps) (auto simp: Let_def split: prod.splits)

lemma scan_run_end [simp]: "length s \<le> j \<Longrightarrow> scan_run p s j = j"
  by (subst scan_run.simps) simp

lemma scan_run_progress:
  assumes "j \<le> length s"
  shows "j < scan_run p s j \<longleftrightarrow> j < length s \<and> p (fst (decodeRune s j))"
proof (cases "j < length s")
  case True
  then show ?thesis
    using scan_run_advances [of j s p] scan_run_stay [of j s p] by (cases "p (fst (decodeRune s j))") simp_all
qed (use assms in simp)

lemma first_match_branch2:
  assumes "i < length s"
  shows "first_match pat2 (rune_seq s i) = branch2 s i"
proof -
  let ?c = "\<lambda>r. \<not> is_crlf r \<and> \<not> isLetter r \<and> \<not> isNumber r"
  define j where "j = (if ?c (fst (decodeRune s i)) then i + snd (decodeRune s i) else i)"
  have j: "j \<le> length s" "rune_reach s i j" using decodeRune_size [OF assms] assms reach_step by (auto simp: j_def)
  have opt: "rx_matches (Poss (Opt (Cls ?c))) (rune_seq s i) = [rune_seq s j]"
    using assms by (simp add: j_def rune_seq_step)
  have pat: "rx_matches pat2 (rune_seq s i) = rx_matches (Poss (Plus isLetter)) (rune_seq s j)"
    unfolding pat2_def rx_matches.simps(3) [of "Poss (Opt (Cls ?c))"] opt by simp
  have br: "branch2 s i = (if j < length s \<and> isLetter (fst (decodeRune s j))
      then Some (scan_run isLetter s (j + snd (decodeRune s j)) - i) else None)"
    by (auto simp: branch2_def j_def is_crlf_def Let_def split: prod.splits)
  show ?thesis
  proof (cases "j < length s \<and> isLetter (fst (decodeRune s j))")
    case True
    then have "rx_matches pat2 (rune_seq s i) = [rune_seq s (scan_run isLetter s j)]"
      using pat matches_Plus_seq [OF j(1), of isLetter] by simp
    moreover have "rune_reach s i (scan_run isLetter s j)" using reach_trans [OF j(2) reach_scan [OF j(1)]] .
    ultimately show ?thesis using True br scan_run_step [of j s isLetter] first_match_reach by simp
  next
    case False
    then show ?thesis using br pat matches_Plus_seq [OF j(1), of isLetter] by (auto simp: first_match_def)
  qed
qed

lemma first_match_branch3:
  assumes "i < length s"
  shows "first_match pat3 (rune_seq s i) = branch3 s i"
proof -
  define j where "j = i + snd (decodeRune s i)"
  define k where "k = j + snd (decodeRune s j)"
  have rs: "rune_seq s i = decodeRune s i # rune_seq s j" using assms by (simp add: rune_seq_step j_def)
  have rs2: "j < length s \<Longrightarrow> rune_seq s j = decodeRune s j # rune_seq s k" by (simp add: rune_seq_step k_def)
  have rs3: "k < length s \<Longrightarrow> rune_seq s k = decodeRune s k # rune_seq s (k + snd (decodeRune s k))"
    by (simp add: rune_seq_step)
  have n: "scan_numbers (Suc m) s p = (if p < length s \<and> isNumber (fst (decodeRune s p))
      then scan_numbers m s (p + snd (decodeRune s p)) else p)" for m p
    by (auto simp: Let_def split: prod.splits)
  show ?thesis
    using assms rs rs2 rs3
    by (cases "j < length s"; cases "k < length s")
      (auto simp: branch3_def pat3_def first_match_def consumed_def numeral_3_eq_3 n j_def [symmetric] k_def [symmetric]
        simp del: scan_numbers.simps(2), simp_all add: j_def k_def)
qed

lemma matches_tail4:
  assumes "j \<le> length s"
  shows "rx_matches (Seq (Poss (Plus is_other)) (Poss (Many is_crlf))) (rune_seq s j) =
    (if j < scan_run is_other s j then [rune_seq s (scanCRLF s (scan_run is_other s j))] else [])"
proof -
  let ?k = "scan_run is_other s j"
  have k: "j \<le> ?k" "?k \<le> length s" using scan_run_bounds [OF assms] by auto
  have crlf: "rx_matches (Poss (Many is_crlf)) (rune_seq s ?k) = [rune_seq s (scanCRLF s ?k)]"
    using scan_run_seq [OF k(2), of is_crlf, THEN conjunct2] scanCRLF_run [OF k(2)] by simp
  show ?thesis
    unfolding rx_matches.simps(3) [of "Poss (Plus is_other)"] matches_Plus_seq [OF assms] scan_run_progress [OF assms]
    using crlf by simp
qed

lemma first_match_branch4:
  assumes "i < length s"
  shows "first_match pat4 (rune_seq s i) = branch4 s i"
proof -
  let ?t = "Seq (Poss (Plus is_other)) (Poss (Many is_crlf))"
  let ?e = "\<lambda>j. scanCRLF s (scan_run is_other s j)"
  have other: "scanNonSpaceLetterNumber s j = scan_run is_other s j" for j
    by (simp add: scanNonSpaceLetterNumber_def is_other_def [abs_def])
  have e: "j \<le> length s \<Longrightarrow> rune_reach s j (?e j)" "j \<le> length s \<Longrightarrow> scan_run is_other s j \<le> ?e j" for j
    using reach_scan [of j s is_other] reach_scan [of "scan_run is_other s j" s is_crlf] scan_run_bounds [of j s is_other]
      scanCRLF_run [of "scan_run is_other s j" s] scanCRLF_bounds [of "scan_run is_other s j" s]
    by (auto intro: reach_trans)
  show ?thesis
  proof (cases "s ! i = CHR '' ''")
    case True
    then have r: "fst (decodeRune s i) = 0x20" "snd (decodeRune s i) = 1"
      using decodeRune_char(2) [OF assms] decodeRune_width_1 [OF assms] by auto
    have i1: "i + 1 \<le> length s" "rune_reach s i (i + 1)" using assms r(2) reach_step [OF assms] by auto
    have m: "rx_matches pat4 (rune_seq s i) = rx_matches ?t (rune_seq s (i + 1)) @ rx_matches ?t (rune_seq s i)"
      using r assms unfolding pat4_def rx_matches.simps(3) [of "Opt (Chr 0x20)"] by (simp add: rune_seq_step)
    have sp: "\<not> i < scan_run is_other s i" using scan_run_stay [OF assms, of is_other] r(1)
      by (simp add: is_other_def isSpace_def)
    show ?thesis
    proof (cases "i + 1 < scan_run is_other s (i + 1)")
      case adv: True
      have "rune_reach s i (?e (i + 1))" using reach_trans [OF i1(2) e(1) [OF i1(1)]] .
      moreover have "rx_matches pat4 (rune_seq s i) = rune_seq s (?e (i + 1)) # rx_matches ?t (rune_seq s i)"
        unfolding m matches_tail4 [OF i1(1)] using adv by simp
      ultimately have "first_match pat4 (rune_seq s i) = Some (?e (i + 1) - i)" by (simp add: first_match_reach)
      moreover have "i < ?e (i + 1)" using adv e(2) [OF i1(1)] by simp
      ultimately show ?thesis using True adv by (simp add: branch4_def matchBranch4_def other)
    next
      case False
      then have "rx_matches pat4 (rune_seq s i) = []"
        unfolding m matches_tail4 [OF i1(1)] matches_tail4 [OF less_imp_le [OF assms]] using sp by simp
      then show ?thesis using True False sp by (simp add: first_match_def branch4_def matchBranch4_def other)
    qed
  next
    case False
    then have "fst (decodeRune s i) \<noteq> 0x20" using decodeRune_char(2) [OF assms] by simp
    then have m: "rx_matches pat4 (rune_seq s i) = rx_matches ?t (rune_seq s i)"
      using assms unfolding pat4_def rx_matches.simps(3) [of "Opt (Chr 0x20)"] by (simp add: rune_seq_step)
    have i: "i \<le> length s" using assms by simp
    show ?thesis
    proof (cases "i < scan_run is_other s i")
      case True
      then have "rx_matches pat4 (rune_seq s i) = [rune_seq s (?e i)]" unfolding m matches_tail4 [OF i] by simp
      then have "first_match pat4 (rune_seq s i) = Some (?e i - i)" by (rule first_match_reach [OF _ e(1) [OF i]])
      then show ?thesis using False True e(2) [OF i] by (simp add: branch4_def matchBranch4_def other)
    next
      case stay: False
      then have "rx_matches pat4 (rune_seq s i) = []" unfolding m matches_tail4 [OF i] by simp
      then show ?thesis using False stay by (simp add: branch4_def matchBranch4_def other first_match_def)
    qed
  qed
qed

lemma first_match_branch5:
  assumes "i < length s"
  shows "first_match pat5 (rune_seq s i) = branch5 s i"
proof -
  let ?k = "scan_run isSpace s i"
  have k: "i \<le> ?k" "?k \<le> length s" "rune_reach s i ?k" using scan_run_bounds [of i s isSpace] reach_scan [of i s isSpace] assms by auto
  have adv: "i < ?k \<longleftrightarrow> isSpace (fst (decodeRune s i))" using scan_run_progress [of i s isSpace] assms by simp
  have "rx_matches pat5 (rune_seq s i) = (if i < ?k \<and> ?k = length s then [rune_seq s ?k] else [])"
    unfolding pat5_def rx_matches.simps(3) [of "Poss (Plus isSpace)"] matches_Plus_seq [OF less_imp_le [OF assms]] adv
    using assms k(2) by (auto simp: rune_seq_Nil)
  then show ?thesis
    using k first_match_reach [of pat5 s i ?k "[]"]
    by (auto simp: branch5_def scanSpace_def first_match_def Let_def)
qed

text \<open>The two loops over the white space run, against the matches that give code points back.\<close>

lemma matches_suffix: "r \<in> set (rx_matches p xs) \<Longrightarrow> \<exists>ys. xs = ys @ r"
proof (induction p arbitrary: xs r)
  case (Many p)
  then have "r \<in> set (many p xs)" by simp
  then show ?case
  proof (induction xs)
    case (Cons x xs)
    then show ?case by (auto split: if_splits intro: exI [of _ "[]"])
  qed simp
next
  case (Seq a b)
  then obtain q where "q \<in> set (rx_matches a xs)" "r \<in> set (rx_matches b q)" by auto
  with Seq.IH show ?case by (metis append.assoc)
next
  case (Opt a)
  then show ?case by auto
next
  case (Poss a)
  then have "r \<in> set (rx_matches a xs)" by (auto dest: in_set_takeD)
  with Poss.IH show ?case .
qed (auto split: list.splits if_splits)

lemma consumed_Cons: "\<exists>ys. xs = ys @ r \<Longrightarrow> consumed (x # xs) r = snd x + consumed xs r"
  by (auto simp: consumed_def)

lemma is_crlf_space: "is_crlf r \<Longrightarrow> isSpace r"
  by (auto simp: is_crlf_def isSpace_def)

lemma matches_pat6_Cons:
  "rx_matches pat6 (x # xs) = (if isSpace (fst x) then rx_matches pat6 xs @ (if is_crlf (fst x) then [xs] else []) else [])"
  using is_crlf_space [of "fst x"] by (auto simp: pat6_def)

lemma matches_pat6_Nil: "rx_matches pat6 [] = []"
  by (simp add: pat6_def)

lemma last_newline_match:
  "j \<le> length s \<Longrightarrow> last_newline s j lst =
     (case rx_matches pat6 (rune_seq s j) of [] \<Rightarrow> lst | r # _ \<Rightarrow> Some (j + consumed (rune_seq s j) r - 1))"
proof (induction s j lst rule: last_newline.induct)
  case (1 s j lst)
  obtain r size where d: "decodeRune s j = (r, size)" by fastforce
  show ?case
  proof (cases "j < length s \<and> isSpace r")
    case True
    let ?l = "if r = 0x0D \<or> r = 0x0A then Some j else lst"
    have rs: "rune_seq s j = (r, size) # rune_seq s (j + size)" using True d by (simp add: rune_seq_step)
    have crlf: "is_crlf r \<longleftrightarrow> r = 0x0D \<or> r = 0x0A" by (simp add: is_crlf_def)
    have one: "is_crlf r \<Longrightarrow> size = 1" using True d decodeRune_width_1 [of j s] by (auto simp: is_crlf_def)
    have step: "last_newline s j lst = last_newline s (j + size) ?l" using True d by (subst last_newline.simps) simp
    have IH: "last_newline s (j + size) ?l = (case rx_matches pat6 (rune_seq s (j + size)) of [] \<Rightarrow> ?l
        | r # _ \<Rightarrow> Some (j + size + consumed (rune_seq s (j + size)) r - 1))"
      using 1(1) [of "(r, size)" r size] True d decodeRune_size [of j s] by auto
    show ?thesis
    proof (cases "rx_matches pat6 (rune_seq s (j + size))")
      case Nil
      have "consumed ((r, size) # rune_seq s (j + size)) (rune_seq s (j + size)) = size" by (simp add: consumed_Cons)
      with Nil show ?thesis unfolding step IH rs matches_pat6_Cons using True one by (auto simp: crlf)
    next
      case (Cons q qs)
      then have "\<exists>ys. rune_seq s (j + size) = ys @ q" using matches_suffix [of q pat6] by simp
      then have "consumed ((r, size) # rune_seq s (j + size)) q = size + consumed (rune_seq s (j + size)) q"
        by (simp add: consumed_Cons)
      with Cons show ?thesis unfolding step IH rs matches_pat6_Cons using True by (simp add: add.assoc)
    qed
  next
    case False
    then have "rx_matches pat6 (rune_seq s j) = []"
      using d by (cases "j < length s") (simp_all add: rune_seq_step matches_pat6_Cons matches_pat6_Nil)
    moreover have "last_newline s j lst = lst" using False d by (subst last_newline.simps) auto
    ultimately show ?thesis by simp
  qed
qed

lemma first_match_branch6:
  assumes "i < length s"
  shows "first_match pat6 (rune_seq s i) = branch6 s i"
proof (cases "rx_matches pat6 (rune_seq s i)")
  case Nil
  then show ?thesis using assms by (simp add: branch6_def last_newline_match first_match_def)
next
  case (Cons q qs)
  have "0 < consumed (rune_seq s i) q"
  proof -
    let ?rest = "rune_seq s (i + snd (decodeRune s i))"
    have "q \<in> set (rx_matches pat6 (rune_seq s i))" using Cons by simp
    then have "q \<in> set (rx_matches pat6 ?rest) \<or> q = ?rest"
      using assms by (auto simp: rune_seq_step matches_pat6_Cons split: if_splits)
    then have "\<exists>ys. ?rest = ys @ q" using matches_suffix [of q pat6 ?rest] by auto
    then show ?thesis using assms decodeRune_size(1) [OF assms] by (simp add: rune_seq_step consumed_Cons)
  qed
  then show ?thesis using Cons assms by (simp add: branch6_def last_newline_match first_match_def)
qed

definition tail7 :: rx where
  "tail7 = Seq (Many isSpace) (NotAhead (Cls (\<lambda>r. \<not> isSpace r)))"

lemma matches_tail7:
  "rx_matches tail7 [] = [[]]"
  "rx_matches tail7 (x # xs) = (if isSpace (fst x) then rx_matches tail7 xs @ [x # xs] else [])"
  by (simp_all add: tail7_def)

lemma matches_pat7_Cons: "rx_matches pat7 (x # xs) = (if isSpace (fst x) then rx_matches tail7 xs else [])"
  by (simp add: pat7_def tail7_def)

lemma last_rune_match:
  assumes "j \<le> length s" "last_rune s j lst = (e, l)"
  shows "(e = length s \<longrightarrow> (\<exists>qs. rx_matches tail7 (rune_seq s j) = [] # qs))
    \<and> (e < length s \<longrightarrow> (if e = j then rx_matches tail7 (rune_seq s j) = [] \<and> l = lst
         else (\<exists>k qs. l = Some k \<and> rune_reach s j k \<and> rx_matches tail7 (rune_seq s j) = rune_seq s k # qs)))"
  using assms
proof (induction s j lst rule: last_rune.induct)
  case (1 s j lst)
  obtain r size where d: "decodeRune s j = (r, size)" by fastforce
  show ?case
  proof (cases "j < length s \<and> isSpace r")
    case True
    have rs: "rune_seq s j = (r, size) # rune_seq s (j + size)" using True d by (simp add: rune_seq_step)
    have size: "0 < size" "j + size \<le> length s" using decodeRune_size [of j s] True d by auto
    have step: "last_rune s (j + size) (Some j) = (e, l)" using True d 1(3) by (subst (asm) last_rune.simps) simp
    have e: "j + size \<le> e" using last_rune_bounds [OF size(2) le_refl _ step] size(1) by simp
    have m: "rx_matches tail7 (rune_seq s j) = rx_matches tail7 (rune_seq s (j + size)) @ [rune_seq s j]"
      using True by (simp add: rs matches_tail7)
    have "rune_reach s j (j + size)" using True d reach_step [of j s] by simp
    then show ?thesis
      using 1(1) [of "(r, size)" r size, OF _ _ _ _ size(2) step] True d e size(1) unfolding m
      by (auto split: if_splits intro: reach_trans)
  next
    case False
    then have "last_rune s j lst = (j, lst)" using d by (subst last_rune.simps) auto
    moreover have "rx_matches tail7 (rune_seq s j) = (if j = length s then [[]] else [])"
      using False d 1(2) by (auto simp: matches_tail7 rune_seq_step)
    ultimately show ?thesis using 1(2,3) by auto
  qed
qed

lemma first_match_branch7:
  assumes "i < length s"
  shows "first_match pat7 (rune_seq s i) = branch7 s i"
proof (cases "isSpace (fst (decodeRune s i))")
  case True
  define j where "j = i + snd (decodeRune s i)"
  have j: "i < j" "j \<le> length s" "rune_reach s i j" using decodeRune_size [OF assms] reach_step [OF assms] by (auto simp: j_def)
  obtain e l where el: "last_rune s j (Some i) = (e, l)" by fastforce
  have step: "last_rune s i None = (e, l)"
    using True assms el by (subst last_rune.simps) (auto simp: j_def Let_def split: prod.splits)
  have m: "rx_matches pat7 (rune_seq s i) = rx_matches tail7 (rune_seq s j)"
    using True assms by (simp add: rune_seq_step matches_pat7_Cons j_def)
  have e: "j \<le> e" "e \<le> length s" using last_rune_bounds [OF j(2) le_refl _ el] j(1) by auto
  then consider (whole) "e = length s" | (one) "e < length s" "e = j" | (behind) "e < length s" "e \<noteq> j" by linarith
  then show ?thesis
  proof cases
    case whole
    obtain qs where "rx_matches tail7 (rune_seq s j) = [] # qs" using last_rune_match [OF j(2) el] whole by auto
    then have "rx_matches pat7 (rune_seq s i) = rune_seq s e # qs" using m whole by simp
    moreover have "rune_reach s i e" using assms rune_seq_width [of i s] whole
      by (auto simp: rune_reach_def intro!: exI [of _ "rune_seq s i"])
    ultimately show ?thesis using step e j(1) whole by (simp add: first_match_reach branch7_def)
  next
    case one
    then have "rx_matches pat7 (rune_seq s i) = []" "l = Some i" using last_rune_match [OF j(2) el] m by auto
    then show ?thesis using step one j(1) by (simp add: first_match_def branch7_def)
  next
    case behind
    then obtain k qs where k: "l = Some k" "rune_reach s j k" "rx_matches tail7 (rune_seq s j) = rune_seq s k # qs"
      using last_rune_match [OF j(2) el] by auto
    then have "first_match pat7 (rune_seq s i) = Some (k - i)"
      using m first_match_reach [of pat7 s i k qs] reach_trans [OF j(3) k(2)] by simp
    moreover have "i < k" using k(2) j(1) by (auto simp: rune_reach_def)
    ultimately show ?thesis using step e j(1) behind k(1) by (simp add: branch7_def)
  qed
next
  case False
  then have "last_rune s i None = (i, None)" using assms by (subst last_rune.simps) (auto simp: Let_def split: prod.splits)
  then show ?thesis using False assms by (simp add: branch7_def first_match_def rune_seq_step matches_pat7_Cons)
qed

section \<open>The scanner and the pattern\<close>

lemma first_match_Alt: "first_match (Alt a b) xs = (case first_match a xs of None \<Rightarrow> first_match b xs | Some n \<Rightarrow> Some n)"
  by (auto simp: first_match_def split: list.splits)

text \<open>A code point that is not white space is taken by one of the alternatives two to four.\<close>

lemma not_space_matched:
  assumes "i < length s" "\<not> isSpace (fst (decodeRune s i))"
  shows "branch2 s i \<noteq> None \<or> branch3 s i \<noteq> None \<or> branch4 s i \<noteq> None"
proof -
  have "branch2 s i \<noteq> None" if "isLetter (fst (decodeRune s i))"
    using that assms by (auto simp: branch2_def Let_def split: prod.splits)
  moreover have "branch4 s i \<noteq> None" if "is_other (fst (decodeRune s i))"
  proof -
    have "s ! i \<noteq> CHR '' ''" using assms decodeRune_char(2) [OF assms(1)] by (auto simp: isSpace_def)
    moreover have "i < scanNonSpaceLetterNumber s i"
      using scan_run_advances [OF assms(1), of is_other] that by (simp add: scanNonSpaceLetterNumber_def is_other_def [abs_def])
    moreover have "scanNonSpaceLetterNumber s i \<le> scanCRLF s (scanNonSpaceLetterNumber s i)"
      using scan_run_bounds [of i s] assms(1) scanCRLF_bounds [of "scanNonSpaceLetterNumber s i" s]
      by (simp add: scanNonSpaceLetterNumber_def)
    ultimately show ?thesis by (auto simp: branch4_def matchBranch4_def Let_def)
  qed
  moreover have "branch3 s i \<noteq> None" if "isNumber (fst (decodeRune s i))" using that by (simp add: branch3_def)
  ultimately show ?thesis using assms(2) by (auto simp: is_other_def)
qed

lemma matchPiece_pattern:
  assumes "i < length s"
  shows "first_match pattern (rune_seq s i) = Some (matchPiece s i)"
proof -
  have pat8: "first_match pat8 (rune_seq s i) = Some (snd (decodeRune s i))" if "isSpace (fst (decodeRune s i))"
    using that assms by (simp add: pat8_def first_match_def rune_seq_step consumed_Cons)
  show ?thesis
    using not_space_matched [OF assms] pat8
    by (cases "isSpace (fst (decodeRune s i))")
      (auto simp: pattern_def first_match_Alt first_match_branch1 [OF assms] first_match_branch2 [OF assms]
      first_match_branch3 [OF assms] first_match_branch4 [OF assms] first_match_branch5 [OF assms]
      first_match_branch6 [OF assms] first_match_branch7 [OF assms] matchPiece_def split: option.splits)
qed

end
