(* ===== verification/Bpe.thy ===== *)
theory Bpe
  imports Bpe_Vocab Bpe_Merge_Proofs Bpe_Pattern
begin

text \<open>
  The encoder and decoder of \<^verbatim>\<open>internal/bpe\<close>, over the vocabulary, the scanner and the merge:
  \<^verbatim>\<open>Encode\<close>, \<^verbatim>\<open>EncodeOrdinary\<close>, \<^verbatim>\<open>TokenCount\<close>, \<^verbatim>\<open>DecodeBytes\<close> and \<^verbatim>\<open>Decode\<close> of \<^verbatim>\<open>bpe.go\<close>, the
  Python-compatible UTF-8 decoding of \<^verbatim>\<open>utf8replace.go\<close>, and the truncation to a number of tokens of
  \<^verbatim>\<open>truncate.go\<close>. The vocabulary blob is an argument; \<^verbatim>\<open>getVocab\<close> decodes it once and keeps the result,
  which here is the value of \<open>loadVocab\<close>. A merge that would index out of range is the error \<open>Panic\<close>,
  which a loaded vocabulary never gives.
\<close>

datatype bpeError = ErrUnavailable vocabError | SpecialTokenError string | Panic

definition specialTokens :: "(string \<times> nat) list" where
  "specialTokens =
     [(''<|endoftext|>'', 100257), (''<|fim_prefix|>'', 100258), (''<|fim_middle|>'', 100259),
      (''<|fim_suffix|>'', 100260), (''<|endofprompt|>'', 100276)]"

definition findSpecialToken :: "string \<Rightarrow> string" where
  "findSpecialToken s = (case List.find (\<lambda>t. Contains s (fst t)) specialTokens of Some t \<Rightarrow> fst t | None \<Rightarrow> [])"

fun encode_pieces :: "ranks \<Rightarrow> string \<Rightarrow> Piece list \<Rightarrow> int list \<Rightarrow> int list option" where
  "encode_pieces rk s [] out = Some out"
| "encode_pieces rk s (p # ps) out =
     (case encodePiece rk (piece_text s p) out of None \<Rightarrow> None | Some out \<Rightarrow> encode_pieces rk s ps out)"

definition encodeOrdinary :: "vocabulary \<Rightarrow> string \<Rightarrow> int list option" where
  "encodeOrdinary v s = encode_pieces (vocab_ranks v) s (ScanPieces s) []"

definition EncodeOrdinary :: "string \<Rightarrow> string \<Rightarrow> bpeError + int list" where
  "EncodeOrdinary blob s =
     (case loadVocab blob of
        Inl e \<Rightarrow> Inl (ErrUnavailable e)
      | Inr v \<Rightarrow> (case encodeOrdinary v s of None \<Rightarrow> Inl Panic | Some ids \<Rightarrow> Inr ids))"

definition bpe_Encode :: "string \<Rightarrow> string \<Rightarrow> bpeError + int list" where
  "bpe_Encode blob s =
     (if findSpecialToken s \<noteq> [] then Inl (SpecialTokenError (findSpecialToken s)) else EncodeOrdinary blob s)"

definition bpe_TokenCount :: "string \<Rightarrow> string \<Rightarrow> bpeError + int" where
  "bpe_TokenCount blob s = (case bpe_Encode blob s of Inl e \<Rightarrow> Inl e | Inr ids \<Rightarrow> Inr (int (length ids)))"

definition token_bytes :: "(nat \<Rightarrow> string option) \<Rightarrow> int list \<Rightarrow> string" where
  "token_bytes tok ids = concat (map (\<lambda>t. case tok (nat t) of Some b \<Rightarrow> b | None \<Rightarrow> []) ids)"

definition DecodeBytes :: "string \<Rightarrow> int list \<Rightarrow> string" where
  "DecodeBytes blob ids = (case loadVocab blob of Inl e \<Rightarrow> [] | Inr v \<Rightarrow> token_bytes (token v) ids)"

section \<open>UTF-8\<close>

definition utf8Lead :: "nat \<Rightarrow> (nat \<times> nat \<times> nat) option" where
  "utf8Lead c =
     (if 0xC2 \<le> c \<and> c \<le> 0xDF then Some (1, 0x80, 0xBF)
      else if 0xE0 \<le> c \<and> c \<le> 0xEF
        then Some (2, if c = 0xE0 then 0xA0 else 0x80, if c = 0xED then 0x9F else 0xBF)
      else if 0xF0 \<le> c \<and> c \<le> 0xF4
        then Some (3, if c = 0xF0 then 0x90 else 0x80, if c = 0xF4 then 0x8F else 0xBF)
      else None)"

text \<open>The continuation bytes from \<open>j\<close> on: whether all are there, and where the sequence stops.\<close>

fun utf8_cont :: "string \<Rightarrow> nat \<Rightarrow> nat \<Rightarrow> nat \<Rightarrow> nat \<Rightarrow> bool \<times> nat" where
  "utf8_cont b 0 j lo hi = (True, j)"
| "utf8_cont b (Suc k) j lo hi =
     (if length b \<le> j then (False, length b)
      else if byte (b ! j) < lo \<or> hi < byte (b ! j) then (False, j)
      else utf8_cont b k (j + 1) 0x80 0xBF)"

lemma utf8_cont_bounds: "j \<le> length b \<Longrightarrow> utf8_cont b k j lo hi = (g, e) \<Longrightarrow> j \<le> e \<and> e \<le> length b"
  by (induction b k j lo hi arbitrary: g e rule: utf8_cont.induct) (force split: if_splits)+

definition replacement_char :: string where
  "replacement_char = [CHR 0xEF, CHR 0xBF, CHR 0xBD]"

function decode_loop :: "string \<Rightarrow> bool \<Rightarrow> nat \<Rightarrow> string" where
  "decode_loop b replacement i =
     (if i < length b then
        (let c = byte (b ! i) in
         if c < 0x80 then b ! i # decode_loop b replacement (i + 1)
         else case utf8Lead c of
             None \<Rightarrow> (if replacement then replacement_char else []) @ decode_loop b replacement (i + 1)
           | Some (need, lo, hi) \<Rightarrow>
               (let (good, j) = utf8_cont b need (i + 1) lo hi in
                (if good then subslice b i j else if replacement then replacement_char else [])
                @ decode_loop b replacement j))
      else [])"
  by pat_completeness auto
termination
proof (relation "measure (\<lambda>(b, replacement, i). length b - i)")
  fix b and replacement :: bool and i c x need y lo hi z good j
  assume "i < length b" "z = utf8_cont b need (i + 1) lo hi" "(good, j) = z"
  then show "((b, replacement, j), b, replacement, i) \<in> measure (\<lambda>(b, replacement, i). length b - i)"
    using utf8_cont_bounds [of "i + 1" b need lo hi good j] by auto
qed auto

declare decode_loop.simps [simp del]

definition decodeUTF8 :: "string \<Rightarrow> bool \<Rightarrow> string" where
  "decodeUTF8 b replacement = (if valid_utf8 b then b else decode_loop b replacement 0)"

definition decodeUTF8Replace :: "string \<Rightarrow> string" where
  "decodeUTF8Replace b = decodeUTF8 b True"

definition decodeUTF8Ignore :: "string \<Rightarrow> string" where
  "decodeUTF8Ignore b = decodeUTF8 b False"

definition Decode :: "string \<Rightarrow> int list \<Rightarrow> string" where
  "Decode blob ids = decodeUTF8Replace (DecodeBytes blob ids)"

section \<open>Truncation\<close>

definition TruncatedSuffix :: string where
  "TruncatedSuffix = CHR 0x0A # ''... (truncated)''"

definition truncateToUTF8Bytes :: "string \<Rightarrow> int \<Rightarrow> string" where
  "truncateToUTF8Bytes s maxBytes =
     (if maxBytes \<le> 0 then []
      else if int (length s) \<le> maxBytes then s
      else decodeUTF8Ignore (take (nat maxBytes) s))"

definition truncateByBytes :: "string \<Rightarrow> int \<Rightarrow> string" where
  "truncateByBytes s maxTokens =
     (if int (length s) \<le> maxTokens then s
      else if maxTokens \<le> int (length TruncatedSuffix) then truncateToUTF8Bytes s maxTokens
      else truncateToUTF8Bytes s (maxTokens - int (length TruncatedSuffix)) @ TruncatedSuffix)"

text \<open>
  The candidates with \<open>k\<close>, \<open>k - 1\<close>, \dots, \<open>0\<close> tokens. The last resort \<open>Decode(tokens[:maxTokens])\<close> is
  the value after the loop. \<open>None\<close> is the panic of an encoder call.
\<close>

fun try_candidates :: "string \<Rightarrow> vocabulary \<Rightarrow> string \<Rightarrow> int list \<Rightarrow> int \<Rightarrow> nat \<Rightarrow> string option" where
  "try_candidates blob v s tokens maxTokens k =
     (let result = Decode blob (take k tokens) @ TruncatedSuffix in
      if findSpecialToken result \<noteq> [] then Some (truncateByBytes s maxTokens)
      else case encodeOrdinary v result of
          None \<Rightarrow> None
        | Some ids \<Rightarrow>
            if int (length ids) \<le> maxTokens then Some result
            else (case k of
                0 \<Rightarrow> Some (Decode blob (take (nat maxTokens) tokens))
              | Suc k \<Rightarrow> try_candidates blob v s tokens maxTokens k))"

declare try_candidates.simps [simp del]

definition TruncateTextToTokens :: "string \<Rightarrow> string \<Rightarrow> int \<Rightarrow> string option" where
  "TruncateTextToTokens blob s maxTokens =
     (if maxTokens \<le> 0 then Some s
      else case loadVocab blob of
          Inl e \<Rightarrow> Some (truncateByBytes s maxTokens)
        | Inr v \<Rightarrow>
            (case encodeOrdinary v s of
               None \<Rightarrow> None
             | Some tokens \<Rightarrow>
                 if findSpecialToken s \<noteq> [] then Some (truncateByBytes s maxTokens)
                 else if int (length tokens) \<le> maxTokens then Some s
                 else if findSpecialToken TruncatedSuffix \<noteq> [] then Some (truncateByBytes s maxTokens)
                 else
                   (case encodeOrdinary v TruncatedSuffix of
                      None \<Rightarrow> None
                    | Some suffixTokens \<Rightarrow>
                        let bodyBudget = maxTokens - int (length suffixTokens) in
                        if bodyBudget \<le> 0 then Some (Decode blob (take (nat maxTokens) tokens))
                        else try_candidates blob v s tokens maxTokens (nat bodyBudget))))"

end
