(* ===== verification/Bpe_Proofs.thy ===== *)
theory Bpe_Proofs
  imports Bpe
begin

text \<open>
  The properties of the tokenizer. The encoder relies on one interface of the vocabulary, the locale
  \<open>rank_table\<close>: a rank that is found names the bytes it was found for. Under it the tokens of a text
  decode to the text and are at most as many as its bytes. The interface is interpreted on the table
  that \<open>loadVocab\<close> builds from any blob.
\<close>

section \<open>The vocabulary\<close>

lemma rank_eq:
  assumes "loadVocab blob = Inr v"
  shows "rank v tok = Some (find_index (\<lambda>t. t = tok) (map (rank_bytes v) [0..<vocab_size v]))"
proof -
  obtain f where f: "table_ok v (vocab_size v) f" using loadVocab_ok(1) [OF assms] by blast
  show ?thesis
  proof (cases "find_index (\<lambda>t. t = tok) (map (rank_bytes v) [0..<vocab_size v])")
    case None
    then have "\<forall>j < vocab_size v. rank_bytes v j \<noteq> tok" by (auto simp: find_index_None)
    then show ?thesis using rank_missing [OF f loadVocab_ok(3) [OF assms]] None by simp
  next
    case (Some i)
    then have i: "i < vocab_size v" "rank_bytes v i = tok" "\<forall>j < i. rank_bytes v j \<noteq> rank_bytes v i"
      by (auto simp: find_index_Some)
    have "rank v (rank_bytes v i) = Some (Some i)" by (rule rank_found [OF f i(1,3)])
    then show ?thesis using Some i(2) by simp
  qed
qed

lemma vocab_ranks_eq:
  assumes "loadVocab blob = Inr v"
  shows "vocab_ranks v tok = map_option int (find_index (\<lambda>t. t = tok) (map (rank_bytes v) [0..<vocab_size v]))"
  by (simp add: vocab_ranks_def rank_eq [OF assms] split: option.split)

lemma loadVocab_no_loop: "loadVocab blob \<noteq> Inl ProbeLoops"
proof
  let ?n = "le_uint32 blob 8"
  let ?v = "\<lparr>vtokens = drop (headerSize + ?n) blob, voffs = offsets 0 (take ?n (drop headerSize blob)), vtable = (\<lambda>_. 0)\<rparr>"
  assume "loadVocab blob = Inl ProbeLoops"
  then have "insert_ranks ?n 0 ?v = Inl ProbeLoops" "?n < tableSize"
    by (auto simp: loadVocab_def Let_def split: if_splits)
  then show False using insert_ranks_ok [OF table_ok_empty [of ?v], of ?n] by auto
qed

section \<open>Encoding over a rank table\<close>

locale rank_table =
  fixes rk :: "string \<Rightarrow> int option" and tok :: "nat \<Rightarrow> string option"
  assumes rank_range: "rk s = Some r \<Longrightarrow> 0 \<le> r \<and> r < maxRank"
    and rank_token: "rk s = Some r \<Longrightarrow> tok (nat r) = Some s"
begin

lemma table_ranks_ok: "ranks_ok rk"
  using rank_range by (simp add: ranks_ok_def)

lemma emit_decodes: "\<forall>t \<in> set toks. rk t \<noteq> None \<Longrightarrow> token_bytes tok (emit_tokens rk toks) = concat toks"
  by (induction toks) (auto simp: token_bytes_def emit_tokens_def rank_token)

lemma emit_length: "[] \<notin> set toks \<Longrightarrow> length (emit_tokens rk toks) \<le> length (concat toks)"
proof (induction toks)
  case (Cons t toks)
  then show ?case by (cases t) (auto simp: emit_tokens_def split: option.split)
qed (simp add: emit_tokens_def)

lemma encodePiece_total:
  "\<exists>ids. encodePiece rk piece dst = Some (dst @ ids) \<and> length ids \<le> length piece \<and> (\<forall>r \<in> set ids. 0 \<le> r \<and> r < maxRank)
    \<and> ((\<forall>c \<in> set piece. rk [c] \<noteq> None) \<longrightarrow> token_bytes tok ids = piece)"
proof (cases "piece = [] \<or> rk piece \<noteq> None")
  case True
  then show ?thesis using rank_range rank_token
    by (cases piece) (auto simp: encodePiece_def token_bytes_def intro: exI [of _ "[_]"])
next
  case False
  let ?ids = "emit_tokens rk (greedy rk (bytes piece))"
  have "encodePiece rk piece dst = Some (dst @ ?ids)"
    using False by (simp add: encodePiece_def mergeParts_eq [OF table_ranks_ok])
  moreover have "length ?ids \<le> length piece" using emit_length greedy_nonempty [of "bytes piece" rk] by fastforce
  moreover have "\<forall>r \<in> set ?ids. 0 \<le> r \<and> r < maxRank"
    using rank_range by (auto simp: emit_tokens_def split: option.splits)
  moreover have "token_bytes tok ?ids = piece" if "\<forall>c \<in> set piece. rk [c] \<noteq> None"
  proof -
    have "\<forall>t \<in> set (bytes piece). rk t \<noteq> None" using that by (auto simp: bytes_def)
    then show ?thesis using emit_decodes [OF greedy_tokens] by simp
  qed
  ultimately show ?thesis by blast
qed

lemma encode_pieces_total:
  "\<exists>ids. encode_pieces rk s ps out = Some (out @ ids) \<and> length ids \<le> length (concat (map (piece_text s) ps))
    \<and> (\<forall>r \<in> set ids. 0 \<le> r \<and> r < maxRank)
    \<and> ((\<forall>p \<in> set ps. \<forall>c \<in> set (piece_text s p). rk [c] \<noteq> None) \<longrightarrow> token_bytes tok ids = concat (map (piece_text s) ps))"
proof (induction ps arbitrary: out)
  case Nil
  then show ?case by (simp add: token_bytes_def)
next
  case (Cons p ps)
  obtain ids where ids: "encodePiece rk (piece_text s p) out = Some (out @ ids)" "length ids \<le> length (piece_text s p)"
      "\<forall>r \<in> set ids. 0 \<le> r \<and> r < maxRank" "(\<forall>c \<in> set (piece_text s p). rk [c] \<noteq> None) \<longrightarrow> token_bytes tok ids = piece_text s p"
    using encodePiece_total by blast
  obtain ids' where ids': "encode_pieces rk s ps (out @ ids) = Some ((out @ ids) @ ids')"
      "length ids' \<le> length (concat (map (piece_text s) ps))" "\<forall>r \<in> set ids'. 0 \<le> r \<and> r < maxRank"
      "(\<forall>p \<in> set ps. \<forall>c \<in> set (piece_text s p). rk [c] \<noteq> None) \<longrightarrow> token_bytes tok ids' = concat (map (piece_text s) ps)"
    using Cons by blast
  show ?case
    using ids ids' by (intro exI [of _ "ids @ ids'"]) (auto simp: token_bytes_def)
qed

lemma encode_text:
  "\<exists>ids. encode_pieces rk s (ScanPieces s) [] = Some ids \<and> length ids \<le> length s \<and> (\<forall>r \<in> set ids. 0 \<le> r \<and> r < maxRank)
    \<and> ((\<forall>c \<in> set s. rk [c] \<noteq> None) \<longrightarrow> token_bytes tok ids = s)"
proof -
  have tiles: "concat (map (piece_text s) (ScanPieces s)) = s"
    using scan_from_tiles [of 0 s] by (simp add: ScanPieces_def)
  have sub: "c \<in> set s" if "c \<in> set (piece_text s p)" for p c
    using that by (auto simp: piece_text_def subslice_def dest: in_set_takeD in_set_dropD)
  obtain ids where ids: "encode_pieces rk s (ScanPieces s) [] = Some ids" "length ids \<le> length s"
      "\<forall>r \<in> set ids. 0 \<le> r \<and> r < maxRank"
      "(\<forall>p \<in> set (ScanPieces s). \<forall>c \<in> set (piece_text s p). rk [c] \<noteq> None) \<longrightarrow> token_bytes tok ids = s"
    using encode_pieces_total [of s "ScanPieces s" "[]"] unfolding tiles by auto
  have "token_bytes tok ids = s" if "\<forall>c \<in> set s. rk [c] \<noteq> None"
    using ids(4) that sub by blast
  with ids(1-3) show ?thesis by blast
qed

end

text \<open>The table of a blob, empty when the blob does not load.\<close>

definition blob_ranks :: "string \<Rightarrow> string \<Rightarrow> int option" where
  "blob_ranks blob = (case loadVocab blob of Inl e \<Rightarrow> (\<lambda>_. None) | Inr v \<Rightarrow> vocab_ranks v)"

definition blob_token :: "string \<Rightarrow> nat \<Rightarrow> string option" where
  "blob_token blob = (case loadVocab blob of Inl e \<Rightarrow> (\<lambda>_. None) | Inr v \<Rightarrow> token v)"

interpretation bt: rank_table "blob_ranks blob" "blob_token blob" for blob
proof unfold_locales
  fix s r
  assume a: "blob_ranks blob s = Some r"
  then obtain v where v: "loadVocab blob = Inr v" by (auto simp: blob_ranks_def split: sum.splits)
  with a obtain i where i: "find_index (\<lambda>t. t = s) (map (rank_bytes v) [0..<vocab_size v]) = Some i" "r = int i"
    by (auto simp: blob_ranks_def vocab_ranks_eq)
  then have "i < vocab_size v" "rank_bytes v i = s" by (auto simp: find_index_Some)
  moreover have "vocab_size v < 131072" using loadVocab_ok(3) [OF v] by (simp add: tableSize_def)
  ultimately show "0 \<le> r \<and> r < maxRank" "blob_token blob (nat r) = Some s"
    using i(2) by (auto simp: maxRank_def blob_token_def v token_def vocab_size_def)
qed

lemma encodeOrdinary_total:
  assumes "loadVocab blob = Inr v"
  obtains ids where "encodeOrdinary v s = Some ids" "length ids \<le> length s" "\<forall>r \<in> set ids. 0 \<le> r \<and> r < maxRank"
    "(\<forall>c \<in> set s. vocab_ranks v [c] \<noteq> None) \<longrightarrow> token_bytes (token v) ids = s"
  using bt.encode_text [of blob s] assms that by (auto simp: encodeOrdinary_def blob_ranks_def blob_token_def)

section \<open>UTF-8\<close>

text \<open>Valid texts are the encodings of scalar values.\<close>

lemma utf8_valid_runes: "list_all scalar rs \<Longrightarrow> valid_utf8 (runes_string rs)"
  by (simp add: valid_utf8_def utf8_fix_def runes_runes_string list_all_iff)

lemma valid_obtain:
  assumes "valid_utf8 s"
  obtains rs where "list_all scalar rs" "s = runes_string rs"
  using assms runes_scalar that [of "runes s"] by (simp add: valid_utf8_def utf8_fix_def list_all_iff)

lemma utf8_valid_append: "valid_utf8 s \<Longrightarrow> valid_utf8 t \<Longrightarrow> valid_utf8 (s @ t)"
proof -
  assume "valid_utf8 s" "valid_utf8 t"
  then obtain rs rs' where "list_all scalar rs" "s = runes_string rs" "list_all scalar rs'" "t = runes_string rs'"
    by (metis valid_obtain)
  then have "s @ t = runes_string (rs @ rs')" "list_all scalar (rs @ rs')" by (simp_all add: runes_string_def)
  then show ?thesis using utf8_valid_runes by metis
qed

lemma valid_encode: "scalar r \<Longrightarrow> valid_utf8 (encode_rune r)"
  using utf8_valid_runes [of "[r]"] by (simp add: runes_string_def)

lemma utf8_valid_Nil [simp]: "valid_utf8 []"
  using utf8_valid_runes [of "[]"] by (simp add: runes_string_def)

lemma valid_replacement: "valid_utf8 replacement_char"
proof -
  have "char_of (239::nat) = CHR 0xEF" "char_of (191::nat) = CHR 0xBF" "char_of (189::nat) = CHR 0xBD"
    using char_of_char [where ?'a = nat, of "CHR 0xEF"] char_of_char [where ?'a = nat, of "CHR 0xBF"]
      char_of_char [where ?'a = nat, of "CHR 0xBD"] by simp_all
  then have "encode_rune RuneError = replacement_char"
    by (simp add: encode_rune_def RuneError_def replacement_char_def)
  then show ?thesis using valid_encode [OF scalar_RuneError] by simp
qed

lemma valid_ascii: "byte c < 128 \<Longrightarrow> valid_utf8 [c]"
  using ascii_valid [of "[c]"] by simp

text \<open>A lead byte with its continuation bytes is the encoding of a scalar value.\<close>

lemma split_64_eq: "z < 64 \<Longrightarrow> (n * 64 + z) div 64 = n" "z < 64 \<Longrightarrow> (n * 64 + z) mod 64 = (z::nat)"
  by auto

lemma char_byte_eq: "byte c = n \<Longrightarrow> char_of n = c"
  by auto

lemma valid_2:
  assumes "byte a = 192 + x" "byte b = 128 + y" "2 \<le> x" "x < 32" "y < 64"
  shows "valid_utf8 [a, b]"
proof -
  have "128 \<le> x * 64 + y" "x * 64 + y < 2048" using assms by linarith+
  then have "encode_rune (x * 64 + y) = [a, b]"
    using assms char_byte_eq [OF assms(1)] char_byte_eq [OF assms(2)] by (simp add: encode_rune_def Let_def split_64_eq)
  then show ?thesis using valid_encode [OF scalar_2 [of "192 + x" "128 + y"]] assms by simp
qed

lemma valid_3:
  assumes "byte a = 224 + x" "byte b = 128 + y" "byte c = 128 + z" "x < 16" "y < 64" "z < 64"
    and "x = 0 \<longrightarrow> 32 \<le> y" "x = 13 \<longrightarrow> y \<le> 31"
  shows "valid_utf8 [a, b, c]"
proof -
  define r where "r = (x * 64 + y) * 64 + z"
  have r: "r = x * 4096 + y * 64 + z" by (simp add: r_def)
  have sc: "scalar r" using scalar_3 [of "224 + x" "128 + y" "128 + z"] assms by (simp add: r)
  have d64: "r div 64 = x * 64 + y" "r mod 64 = z" using assms(6) by (simp_all only: r_def split_64_eq)
  have d: "r div 4096 = x" "r div 64 mod 64 = y"
    using assms(5) div_64(1) [of r, unfolded d64] by (simp_all only: d64 split_64_eq)
  have "2048 \<le> r" using assms(7) r by (cases "x = 0") auto
  moreover have "r < 65536" using assms(4-6) r by linarith
  ultimately have "encode_rune r = [char_of (224 + x), char_of (128 + y), char_of (128 + z)]"
    using sc d d64 by (auto simp: encode_rune_def Let_def scalar_def)
  then show ?thesis
    using valid_encode [OF sc] char_byte_eq [OF assms(1)] char_byte_eq [OF assms(2)] char_byte_eq [OF assms(3)] by simp
qed

lemma valid_4:
  assumes "byte a = 240 + x" "byte b = 128 + y" "byte c = 128 + z" "byte d = 128 + w" "x < 5" "y < 64" "z < 64" "w < 64"
    and "x = 0 \<longrightarrow> 16 \<le> y" "x = 4 \<longrightarrow> y \<le> 15"
  shows "valid_utf8 [a, b, c, d]"
proof -
  define r where "r = ((x * 64 + y) * 64 + z) * 64 + w"
  have r: "r = x * 262144 + y * 4096 + z * 64 + w" by (simp add: r_def)
  have sc: "scalar r" using scalar_4 [of "240 + x" "128 + y" "128 + z" "128 + w"] assms by (simp add: r)
  have d64: "r div 64 = (x * 64 + y) * 64 + z" "r mod 64 = w" using assms(8) by (simp_all only: r_def split_64_eq)
  have d: "r div 4096 = x * 64 + y" "r div 64 mod 64 = z"
    using assms(7) div_64(1) [of r, unfolded d64] by (simp_all only: d64 split_64_eq)
  have d3: "r div 262144 = x" "r div 4096 mod 64 = y"
    using assms(6) div_64(2) [of r, unfolded d] by (simp_all only: d split_64_eq)
  have "65536 \<le> r" using assms(9) r by (cases "x = 0") auto
  then have "encode_rune r = [char_of (240 + x), char_of (128 + y), char_of (128 + z), char_of (128 + w)]"
    using sc d(2) d64(2) d3 by (auto simp: encode_rune_def Let_def scalar_def)
  then show ?thesis
    using valid_encode [OF sc] char_byte_eq [OF assms(1)] char_byte_eq [OF assms(2)] char_byte_eq [OF assms(3)]
      char_byte_eq [OF assms(4)] by simp
qed

lemma sequence_valid:
  assumes lead: "utf8Lead (byte (b ! i)) = Some (need, lo, hi)" and i: "i < length b"
    and cont: "utf8_cont b need (i + 1) lo hi = (True, j)"
  shows "valid_utf8 (subslice b i j)"
proof -
  let ?B = "\<lambda>k. byte (b ! (i + k))"
  have sub: "subslice b i (i + n) = map (\<lambda>k. b ! (i + k)) [0..<n]" if "i + n \<le> length b" for n
    using that by (intro nth_equalityI) (simp_all add: subslice_def)
  consider (two) "0xC2 \<le> ?B 0" "?B 0 \<le> 0xDF" "need = 1" "lo = 0x80" "hi = 0xBF"
    | (three) "0xE0 \<le> ?B 0" "?B 0 \<le> 0xEF" "need = 2" "lo = (if ?B 0 = 0xE0 then 0xA0 else 0x80)" "hi = (if ?B 0 = 0xED then 0x9F else 0xBF)"
    | (four) "0xF0 \<le> ?B 0" "?B 0 \<le> 0xF4" "need = 3" "lo = (if ?B 0 = 0xF0 then 0x90 else 0x80)" "hi = (if ?B 0 = 0xF4 then 0x8F else 0xBF)"
    using lead by (auto simp: utf8Lead_def split: if_splits)
  then show ?thesis
  proof cases
    case two
    then have c: "i + 1 < length b" "j = i + 2" "0x80 \<le> ?B 1" "?B 1 \<le> 0xBF"
      using cont by (auto split: if_splits)
    have "valid_utf8 [b ! i, b ! (i + 1)]"
      by (rule valid_2 [of _ "?B 0 - 192" _ "?B 1 - 128"]) (use two c in auto)
    then show ?thesis using sub [of 2] c by (simp add: upt_rec)
  next
    case three
    then have c: "i + 2 < length b" "j = i + 3" "lo \<le> ?B 1" "?B 1 \<le> hi" "0x80 \<le> ?B 2" "?B 2 \<le> 0xBF"
      using cont by (auto simp: numeral_2_eq_2 split: if_splits)
    have r: "128 \<le> ?B 1" "?B 1 \<le> 191" "?B 0 = 224 \<longrightarrow> 160 \<le> ?B 1" "?B 0 = 237 \<longrightarrow> ?B 1 \<le> 159"
      using c(3,4) three(4,5) by (auto split: if_splits)
    have "valid_utf8 [b ! i, b ! (i + 1), b ! (i + 2)]"
      by (rule valid_3 [of _ "?B 0 - 224" _ "?B 1 - 128" _ "?B 2 - 128"]) (use three(1,2) c(5,6) r in auto)
    then show ?thesis using sub [of 3] c by (simp add: upt_rec)
  next
    case four
    then have c: "i + 3 < length b" "j = i + 4" "lo \<le> ?B 1" "?B 1 \<le> hi" "0x80 \<le> ?B 2" "?B 2 \<le> 0xBF" "0x80 \<le> ?B 3" "?B 3 \<le> 0xBF"
      using cont by (auto simp: numeral_3_eq_3 numeral_2_eq_2 split: if_splits)
    have r: "128 \<le> ?B 1" "?B 1 \<le> 191" "?B 0 = 240 \<longrightarrow> 144 \<le> ?B 1" "?B 0 = 244 \<longrightarrow> ?B 1 \<le> 143"
      using c(3,4) four(4,5) by (auto split: if_splits)
    have "valid_utf8 [b ! i, b ! (i + 1), b ! (i + 2), b ! (i + 3)]"
      by (rule valid_4 [of _ "?B 0 - 240" _ "?B 1 - 128" _ "?B 2 - 128" _ "?B 3 - 128"]) (use four(1,2) c(5-8) r in auto)
    then show ?thesis using sub [of 4] c by (simp add: upt_rec numeral_3_eq_3)
  qed
qed

lemma decode_loop_valid: "valid_utf8 (decode_loop b replacement i)"
proof (induction b replacement i rule: decode_loop.induct)
  case (1 b replacement i)
  show ?case
  proof (cases "i < length b \<and> 0x80 \<le> byte (b ! i)")
    case True
    show ?thesis
    proof (cases "utf8Lead (byte (b ! i))")
      case None
      then have "decode_loop b replacement i = (if replacement then replacement_char else []) @ decode_loop b replacement (i + 1)"
        using True by (subst decode_loop.simps) simp
      then show ?thesis using 1(2) True None utf8_valid_append valid_replacement by simp
    next
      case (Some x)
      obtain need lo hi where x: "x = (need, lo, hi)" by (cases x) auto
      obtain good j where g: "utf8_cont b need (i + 1) lo hi = (good, j)" by fastforce
      have "decode_loop b replacement i
          = (if good then subslice b i j else if replacement then replacement_char else []) @ decode_loop b replacement j"
        using True Some x g by (subst decode_loop.simps) simp
      moreover have "valid_utf8 (decode_loop b replacement j)"
        using 1(3) [OF _ refl _ Some x [symmetric] refl g [symmetric] refl] True by simp
      ultimately show ?thesis
        using utf8_valid_append valid_replacement sequence_valid [of b i need lo hi j] Some x g True by auto
    qed
  next
    case False
    then show ?thesis
      using 1(1) utf8_valid_append [OF valid_ascii, of "b ! i" "decode_loop b replacement (i + 1)"]
      by (subst decode_loop.simps) auto
  qed
qed

lemma decodeUTF8_valid: "valid_utf8 (decodeUTF8 b replacement)"
  by (simp add: decodeUTF8_def decode_loop_valid)

lemma decode_loop_ignore_length: "i \<le> length b \<Longrightarrow> length (decode_loop b False i) \<le> length b - i"
proof (induction b "False" i rule: decode_loop.induct)
  case (1 b i)
  show ?case
  proof (cases "i < length b \<and> 0x80 \<le> byte (b ! i)")
    case True
    show ?thesis
    proof (cases "utf8Lead (byte (b ! i))")
      case None
      then have "decode_loop b False i = decode_loop b False (i + 1)" using True by (subst decode_loop.simps) simp
      then show ?thesis using 1(2) True None by simp
    next
      case (Some x)
      obtain need lo hi where x: "x = (need, lo, hi)" by (cases x) auto
      obtain good j where g: "utf8_cont b need (i + 1) lo hi = (good, j)" by fastforce
      have j: "i < j" "j \<le> length b" using utf8_cont_bounds [OF _ g] True by auto
      have "decode_loop b False i = (if good then subslice b i j else []) @ decode_loop b False j"
        using True Some x g by (subst decode_loop.simps) simp
      moreover have "length (decode_loop b False j) \<le> length b - j"
        using 1(3) [OF _ refl _ Some x [symmetric] refl g [symmetric] refl] True j by simp
      ultimately show ?thesis using j by (auto simp: subslice_def)
    qed
  next
    case False
    then show ?thesis using 1(1) 1(4) by (subst decode_loop.simps) (auto simp: Suc_le_eq)
  qed
qed

lemma decodeUTF8Ignore_length: "length (decodeUTF8Ignore b) \<le> length b"
  using decode_loop_ignore_length [of 0 b] by (simp add: decodeUTF8Ignore_def decodeUTF8_def)

section \<open>Truncation\<close>

lemma truncateToUTF8Bytes_length: "int (length (truncateToUTF8Bytes s n)) \<le> max 0 n"
  using decodeUTF8Ignore_length [of "take (nat n) s"] by (auto simp: truncateToUTF8Bytes_def)

lemma truncateByBytes_length: "0 < n \<Longrightarrow> int (length (truncateByBytes s n)) \<le> n"
  using truncateToUTF8Bytes_length [of s n] truncateToUTF8Bytes_length [of s "n - int (length TruncatedSuffix)"]
  by (auto simp: truncateByBytes_def max_def split: if_splits)

text \<open>What the candidate loop returns.\<close>

lemma try_candidates_cases:
  assumes v: "loadVocab blob = Inr v"
  shows "\<exists>r. try_candidates blob v s tokens n k = Some r \<and>
    (r = truncateByBytes s n \<or> (\<exists>ids. encodeOrdinary v r = Some ids \<and> int (length ids) \<le> n)
     \<or> r = Decode blob (take (nat n) tokens))"
proof (induction k)
  case 0
  obtain ids where "encodeOrdinary v (Decode blob (take 0 tokens) @ TruncatedSuffix) = Some ids"
    by (rule encodeOrdinary_total [OF v])
  then show ?case by (subst try_candidates.simps) (auto simp: Let_def)
next
  case (Suc k)
  obtain ids where "encodeOrdinary v (Decode blob (take (Suc k) tokens) @ TruncatedSuffix) = Some ids"
    by (rule encodeOrdinary_total [OF v])
  then show ?case using Suc by (subst try_candidates.simps) (auto simp: Let_def)
qed

lemma byte_truncation_tokens:
  assumes v: "loadVocab blob = Inr v" and n: "0 < n"
  shows "\<exists>ids. encodeOrdinary v (truncateByBytes s n) = Some ids \<and> int (length ids) \<le> n"
proof -
  obtain ids where ids: "encodeOrdinary v (truncateByBytes s n) = Some ids" "length ids \<le> length (truncateByBytes s n)"
    by (rule encodeOrdinary_total [OF v])
  then show ?thesis using truncateByBytes_length [OF n, of s] by auto
qed

section \<open>A small vocabulary\<close>

text \<open>A blob whose header and length table are right loads.\<close>

lemma loadVocab_loads:
  fixes blob
  defines "n \<equiv> le_uint32 blob 8"
  defines "v0 \<equiv> \<lparr>vtokens = drop (headerSize + n) blob, voffs = offsets 0 (take n (drop headerSize blob)), vtable = (\<lambda>_. 0)\<rparr>"
  assumes "headerSize + n \<le> length blob" "take 4 blob = blobMagic" "le_uint32 blob 4 = blobVersion" "0 < n" "n < tableSize"
    "le_uint32 blob 12 \<le> 255" "voffs v0 ! n = length (vtokens v0)" "\<forall>i < n. rank_bytes v0 i \<noteq> []"
  obtains v where "loadVocab blob = Inr v" "vtokens v = vtokens v0" "voffs v = voffs v0"
proof -
  have "case insert_ranks n 0 v0 of
      Inl e \<Rightarrow> (\<exists>j. e = EmptyRank j \<and> 0 \<le> j \<and> j < 0 + n \<and> rank_bytes v0 j = [])
    | Inr v' \<Rightarrow> vtokens v' = vtokens v0 \<and> voffs v' = voffs v0 \<and> (\<exists>f. table_ok v' (0 + n) f)
        \<and> (\<forall>j. 0 \<le> j \<longrightarrow> j < 0 + n \<longrightarrow> rank_bytes v0 j \<noteq> [])"
    by (rule insert_ranks_ok [OF table_ok_empty]) (use assms(7) in \<open>simp_all add: v0_def\<close>)
  then obtain v where v: "insert_ranks n 0 v0 = Inr v" "vtokens v = vtokens v0" "voffs v = voffs v0"
    using assms(10) by (auto split: sum.splits)
  have "loadVocab blob = Inr v"
    using assms(3-9) v(1) by (simp add: loadVocab_def Let_def n_def v0_def)
  then show thesis using v that by blast
qed

definition demo_blob :: string where
  "demo_blob = ''NBPE'' @ [CHR 0x01, CHR 0x00, CHR 0x00, CHR 0x00] @ [CHR 0x03, CHR 0x00, CHR 0x00, CHR 0x00]
     @ [CHR 0x02, CHR 0x00, CHR 0x00, CHR 0x00] @ [CHR 0x01, CHR 0x01, CHR 0x02] @ ''abab''"

lemma demo_loads:
  obtains v where "loadVocab demo_blob = Inr v" "vtokens v = ''abab''" "voffs v = [0, 1, 2, 4]"
proof -
  have n: "le_uint32 demo_blob 8 = 3" by (simp add: demo_blob_def le_uint32_def)
  have "take 3 (drop headerSize demo_blob) = [CHR 0x01, CHR 0x01, CHR 0x02]" by (simp add: headerSize_def demo_blob_def)
  then have offs: "offsets 0 (take 3 (drop headerSize demo_blob)) = [0, 1, 2, 4]" by simp
  have toks: "drop (headerSize + 3) demo_blob = ''abab''" by (simp add: headerSize_def demo_blob_def)
  have "rank_bytes \<lparr>vtokens = ''abab'', voffs = [0, 1, 2, 4], vtable = (\<lambda>_. 0)\<rparr> i \<noteq> []" if "i < 3" for i
  proof -
    consider "i = 0" | "i = 1" | "i = 2" using \<open>i < 3\<close> by linarith
    then show ?thesis by cases (simp_all add: rank_bytes_def nth_Cons')
  qed
  then obtain v where "loadVocab demo_blob = Inr v" "vtokens v = ''abab''" "voffs v = [0, 1, 2, 4]"
    using loadVocab_loads [of demo_blob, unfolded n offs toks]
    by (simp add: headerSize_def demo_blob_def blobMagic_def blobVersion_def le_uint32_def tableSize_def nth_Cons') blast
  then show thesis by (rule that)
qed

lemma demo_ranks:
  assumes "loadVocab demo_blob = Inr v"
  shows "vocab_ranks v ''a'' = Some 0" "vocab_ranks v ''b'' = Some 1" "vocab_ranks v ''ab'' = Some 2" "vocab_ranks v ''c'' = None"
proof -
  have v: "vtokens v = ''abab''" "voffs v = [0, 1, 2, 4]" using demo_loads assms by (metis sum.inject(2))+
  have "map (rank_bytes v) [0..<vocab_size v] = [''a'', ''b'', ''ab'']"
    by (simp add: v vocab_size_def rank_bytes_def upt_rec nth_Cons')
  then show "vocab_ranks v ''a'' = Some 0" "vocab_ranks v ''b'' = Some 1" "vocab_ranks v ''ab'' = Some 2" "vocab_ranks v ''c'' = None"
    by (simp_all add: vocab_ranks_eq [OF assms])
qed

section \<open>Properties\<close>

text \<open>
  C12. Both merge loops compute the reference: for every ranking of byte strings and every non-empty
  piece, the quadratic loop for short pieces and the heap of candidate merges for long ones never index
  out of range, end within their fuel, and append the tokens that are left when the adjacent pair of
  least rank, the leftmost among equals, is joined until no adjacent pair has a rank.
\<close>

theorem merge_paths_agree:
  assumes "ranks_ok rk" "piece \<noteq> []"
  shows "mergePartsSmall rk piece dst = Some (dst @ emit_tokens rk (greedy rk (bytes piece)))
    \<and> mergePartsLarge rk piece dst = mergePartsSmall rk piece dst"
  using mergePartsSmall_eq mergePartsLarge_eq [OF assms] by simp_all

definition demo_ranking :: ranks where
  "demo_ranking s = (if s = ''a'' then Some 0 else if s = ''b'' then Some 1 else if s = ''ab'' then Some 2
     else if s = ''bb'' then Some 3 else None)"

theorem merge_paths_agree_witness:
  "mergePartsSmall demo_ranking ''abbb'' [7] = Some ([7] @ emit_tokens demo_ranking (greedy demo_ranking (bytes ''abbb'')))
   \<and> mergePartsLarge demo_ranking ''abbb'' [7] = mergePartsSmall demo_ranking ''abbb'' [7]
   \<and> mergePartsLarge demo_ranking ''abbb'' [7] = Some [7, 2, 3]"
proof -
  have "ranks_ok demo_ranking" by (auto simp: ranks_ok_def demo_ranking_def maxRank_def split: if_splits)
  moreover have "mergePartsLarge demo_ranking ''abbb'' [7] = Some [7, 2, 3]" by code_simp
  ultimately show ?thesis
    using merge_paths_agree [of demo_ranking "''abbb''" "[7]"] by simp
qed

text \<open>
  C13. The hand-written scanner is the pattern: at every position of every text, valid UTF-8 or not, the
  length it returns is that of the first match of the tokenizer's pattern, tried in the order of its
  alternatives with possessive quantifiers, backtracking and lookahead.
\<close>

theorem scanner_is_pattern:
  assumes "i < length s"
  shows "first_match pattern (rune_seq s i) = Some (matchPiece s i)"
  by (rule matchPiece_pattern [OF assms])

theorem scanner_is_pattern_witness:
  "first_match pattern (rune_seq ''a b'' 1) = Some (matchPiece ''a b'' 1)"
  by (rule scanner_is_pattern) simp

text \<open>
  C18. The vocabulary table is a dictionary: for every blob that loads, looking up a byte string ends and
  returns the least rank whose bytes it is, or none when no rank has these bytes, whatever collisions
  the hash has; and a blob never fails to load because a probe loop does not end.
\<close>

theorem vocab_lookup:
  assumes "loadVocab blob = Inr v"
  shows "rank v tok = Some (find_index (\<lambda>t. t = tok) (map (rank_bytes v) [0..<vocab_size v]))
    \<and> loadVocab blob' \<noteq> Inl ProbeLoops"
  using rank_eq [OF assms] loadVocab_no_loop by auto

theorem vocab_lookup_witness:
  "\<exists>v. loadVocab demo_blob = Inr v \<and> rank v ''ab'' = Some (Some 2) \<and> rank v ''ba'' = Some None"
proof -
  obtain v where v: "loadVocab demo_blob = Inr v" "vtokens v = ''abab''" "voffs v = [0, 1, 2, 4]" by (rule demo_loads)
  have "map (rank_bytes v) [0..<vocab_size v] = [''a'', ''b'', ''ab'']"
    by (simp add: v vocab_size_def rank_bytes_def upt_rec nth_Cons')
  then show ?thesis
    using v(1) vocab_lookup [OF v(1), of "''ab''"] vocab_lookup [OF v(1), of "''ba''"] by auto
qed

text \<open>
  C22. Encoding loses nothing: with a vocabulary that has every byte of a text as a token, the tokens of the
  text exist, are at most as many as its bytes, and decode to exactly its bytes; valid UTF-8 also
  survives \<^verbatim>\<open>Decode\<close>.
\<close>

theorem encode_decode:
  assumes "loadVocab blob = Inr v" "\<forall>c \<in> set s. vocab_ranks v [c] \<noteq> None"
  shows "\<exists>ids. EncodeOrdinary blob s = Inr ids \<and> length ids \<le> length s \<and> DecodeBytes blob ids = s
    \<and> (valid_utf8 s \<longrightarrow> Decode blob ids = s)"
proof -
  obtain ids where "encodeOrdinary v s = Some ids" "length ids \<le> length s"
      "(\<forall>c \<in> set s. vocab_ranks v [c] \<noteq> None) \<longrightarrow> token_bytes (token v) ids = s"
    by (rule encodeOrdinary_total [OF assms(1)])
  then show ?thesis
    using assms by (auto simp: EncodeOrdinary_def DecodeBytes_def Decode_def decodeUTF8Replace_def decodeUTF8_def)
qed

theorem encode_decode_witness:
  "\<exists>ids. EncodeOrdinary demo_blob ''abb'' = Inr ids \<and> length ids \<le> 3 \<and> DecodeBytes demo_blob ids = ''abb''"
proof -
  obtain v where v: "loadVocab demo_blob = Inr v" by (rule demo_loads)
  show ?thesis using encode_decode [OF v, of "''abb''"] demo_ranks [OF v] by auto
qed

text \<open>
  C23. Decoding always yields valid UTF-8: whatever bytes a list of token ids stands for, cut sequences,
  stray continuation bytes, overlong forms and encoded surrogates included, the replacing and the
  ignoring decoder return a valid text, and the ignoring one never a longer one.
\<close>

theorem decode_yields_utf8:
  "valid_utf8 (Decode blob ids) \<and> valid_utf8 (decodeUTF8 b replacement) \<and> length (decodeUTF8Ignore b) \<le> length b"
  by (simp_all add: Decode_def decodeUTF8Replace_def decodeUTF8_valid decodeUTF8Ignore_length)

text \<open>
  Truncation keeps its cap: for a positive limit \<^verbatim>\<open>TruncateTextToTokens\<close> returns a text whose tokens are
  at most the limit, also on the byte fallback that a special token in the text causes; the one
  exception is the last resort, the decoding of the first tokens of the text, which is returned when no
  candidate with the suffix fits and is not measured again.
\<close>

theorem truncation_cap:
  assumes "loadVocab blob = Inr v" "0 < n"
  shows "\<exists>r tokens. TruncateTextToTokens blob s n = Some r \<and> encodeOrdinary v s = Some tokens
    \<and> ((\<exists>ids. encodeOrdinary v r = Some ids \<and> int (length ids) \<le> n)
       \<or> r = Decode blob (take (nat n) tokens) \<and> n < int (length tokens))"
proof -
  obtain tokens where tokens: "encodeOrdinary v s = Some tokens" by (rule encodeOrdinary_total [OF assms(1)])
  obtain suffix where suffix: "encodeOrdinary v TruncatedSuffix = Some suffix" by (rule encodeOrdinary_total [OF assms(1)])
  have bytes: "\<exists>ids. encodeOrdinary v (truncateByBytes s n) = Some ids \<and> int (length ids) \<le> n"
    by (rule byte_truncation_tokens [OF assms])
  let ?k = "nat (n - int (length suffix))"
  obtain r where r: "try_candidates blob v s tokens n ?k = Some r"
      "r = truncateByBytes s n \<or> (\<exists>ids. encodeOrdinary v r = Some ids \<and> int (length ids) \<le> n)
       \<or> r = Decode blob (take (nat n) tokens)"
    using try_candidates_cases [OF assms(1), of s tokens n ?k] by auto
  show ?thesis
    using assms tokens suffix bytes r by (auto simp: TruncateTextToTokens_def Let_def)
qed

theorem truncation_cap_witness:
  "\<exists>v r tokens. loadVocab demo_blob = Inr v \<and> TruncateTextToTokens demo_blob ''abb'' 1 = Some r
    \<and> encodeOrdinary v ''abb'' = Some tokens
    \<and> ((\<exists>ids. encodeOrdinary v r = Some ids \<and> int (length ids) \<le> 1)
       \<or> r = Decode demo_blob (take (nat 1) tokens) \<and> 1 < int (length tokens))"
proof -
  obtain v where v: "loadVocab demo_blob = Inr v" by (rule demo_loads)
  show ?thesis using truncation_cap [OF v, of 1 "''abb''"] v by auto
qed

end
