(* ===== verification/Provider.thy ===== *)
theory Provider
  imports Governance Float64
begin

text \<open>
  The vocabulary between the agent and a model provider: responses, usage and stream events
  (\<^verbatim>\<open>internal/core/types.go\<close>), requests, HTTP errors and the policy that decides which failures are worth a
  retry and how long to wait (\<^verbatim>\<open>internal/provider/provider.go\<close>). Seconds are binary64 numbers, token
  counts wrap at 64 bits. The lower case of runes beyond ASCII, a table of the Unicode library, is
  the argument \<open>lower\<close>.
\<close>

section \<open>Responses\<close>

type_synonym FinishReason = string

definition FinishStop :: FinishReason where "FinishStop = ''stop''"
definition FinishToolCalls :: FinishReason where "FinishToolCalls = ''tool_calls''"
definition FinishFunctionCall :: FinishReason where "FinishFunctionCall = ''function_call''"
definition FinishLength :: FinishReason where "FinishLength = ''length''"
definition FinishContentFilter :: FinishReason where "FinishContentFilter = ''content_filter''"
definition FinishRefusal :: FinishReason where "FinishRefusal = ''refusal''"
definition FinishError :: FinishReason where "FinishError = ''error''"

lemmas finish_defs = FinishStop_def FinishToolCalls_def FinishFunctionCall_def FinishLength_def
  FinishContentFilter_def FinishRefusal_def FinishError_def

record Usage =
  PromptTokens :: int
  CompletionTokens :: int
  TotalTokens :: int
  CachedTokens :: "int option"
  ReasoningTokens :: "int option"

definition zero_usage :: Usage where
  "zero_usage = \<lparr>PromptTokens = 0, CompletionTokens = 0, TotalTokens = 0, CachedTokens = None,
     ReasoningTokens = None\<rparr>"

definition add_count :: "int option \<Rightarrow> int option \<Rightarrow> int option" where
  "add_count a b =
     (case b of None \<Rightarrow> a | Some n \<Rightarrow> Some (i64 ((case a of None \<Rightarrow> 0 | Some m \<Rightarrow> m) + n)))"

definition Usage_Add :: "Usage \<Rightarrow> Usage option \<Rightarrow> Usage" where
  "Usage_Add u other =
     (case other of
        None \<Rightarrow> u
      | Some v \<Rightarrow>
          \<lparr>PromptTokens = i64 (PromptTokens u + PromptTokens v),
           CompletionTokens = i64 (CompletionTokens u + CompletionTokens v),
           TotalTokens = i64 (TotalTokens u + TotalTokens v),
           CachedTokens = add_count (CachedTokens u) (CachedTokens v),
           ReasoningTokens = add_count (ReasoningTokens u) (ReasoningTokens v)\<rparr>)"

record Response =
  rs_Content :: string
  rs_HasContent :: bool
  rs_ToolCalls :: "ToolCall list"
  rs_FinishReason :: FinishReason
  rs_Usage :: "Usage option"
  rs_ReasoningContent :: string
  rs_ThinkingBlocks :: "(string \<times> json) list list"
  rs_GenerationMS :: "int option"
  rs_TTFTMS :: "int option"
  rs_RetryAfter :: "float64 option"
  rs_ErrorStatusCode :: "int option"
  rs_ErrorKind :: string
  rs_ErrorType :: string
  rs_ErrorCode :: string
  rs_ErrorRetryAfterS :: "float64 option"
  rs_ErrorShouldRetry :: "bool option"

text \<open>The composite literal \<^verbatim>\<open>core.Response{Content: c, FinishReason: f}\<close>.\<close>

definition new_response :: "string \<Rightarrow> FinishReason \<Rightarrow> Response" where
  "new_response c f =
     \<lparr>rs_Content = c, rs_HasContent = False, rs_ToolCalls = [], rs_FinishReason = f, rs_Usage = None,
      rs_ReasoningContent = [], rs_ThinkingBlocks = [], rs_GenerationMS = None, rs_TTFTMS = None,
      rs_RetryAfter = None, rs_ErrorStatusCode = None, rs_ErrorKind = [], rs_ErrorType = [],
      rs_ErrorCode = [], rs_ErrorRetryAfterS = None, rs_ErrorShouldRetry = None\<rparr>"

definition HasToolCalls :: "Response \<Rightarrow> bool" where
  "HasToolCalls r \<longleftrightarrow> 0 < length (rs_ToolCalls r)"

definition ShouldExecuteTools :: "Response \<Rightarrow> bool" where
  "ShouldExecuteTools r \<longleftrightarrow>
     HasToolCalls r \<and> rs_FinishReason r \<in> {FinishToolCalls, FinishFunctionCall, FinishStop}"

datatype StreamEventKind = StreamText | StreamReasoning | StreamToolCall | StreamUsage | StreamDone

record StreamEvent =
  se_Kind :: StreamEventKind
  se_Text :: string
  se_Index :: int
  se_ToolCallID :: string
  se_ToolCallName :: string
  se_ArgumentsDelta :: string
  se_Usage :: "Usage option"
  se_Response :: "Response option"
  se_Err :: "string option"

record ToolResult =
  tr_CallID :: string
  tr_Content :: string
  tr_IsError :: bool

record ChatRequest =
  rq_Messages :: "Message list"
  rq_Tools :: "ToolSchema list"
  rq_Model :: string
  rq_MaxTokens :: int
  rq_Temperature :: float64
  rq_ReasoningEffort :: string

section \<open>Errors\<close>

record HTTPError =
  he_StatusCode :: int
  he_Status :: string
  he_Body :: string
  he_RetryAfter :: float64

definition HTTPError_Error :: "HTTPError \<Rightarrow> string" where
  "HTTPError_Error e =
     (let body = (if 512 < length (he_Body e) then take 512 (he_Body e) @ ''...'' else he_Body e)
      in ''provider: http '' @ Itoa (he_StatusCode e) @ '' '' @ he_Status e @ '': '' @ body)"

definition Retryable :: "HTTPError \<Rightarrow> bool" where
  "Retryable e \<longleftrightarrow>
     he_StatusCode e = 408 \<or> he_StatusCode e = 409 \<or> he_StatusCode e = 429 \<or> 500 \<le> he_StatusCode e"

text \<open>
  What the code looks at of a Go error: its message, the name of its dynamic type, the HTTP error it
  wraps (\<^verbatim>\<open>errors.As\<close>), and whether it is an expired deadline (\<^verbatim>\<open>errors.Is\<close>).
\<close>

record go_error =
  ge_Error :: string
  ge_TypeName :: string
  ge_HTTP :: "HTTPError option"
  ge_Deadline :: bool

section \<open>Retry policy\<close>

text \<open>\<^verbatim>\<open>strings.ToLower\<close>: bytes when all are ASCII, otherwise rune by rune.\<close>

definition ToLower :: "(nat \<Rightarrow> nat) \<Rightarrow> string \<Rightarrow> string" where
  "ToLower lower s =
     (if list_all (\<lambda>c. byte c < 128) s then map ascii_lower s
      else runes_string
             (map (\<lambda>r. if r < 128 then byte (ascii_lower (char_of r)) else lower r) (runes s)))"

definition RetryAfterBuffer :: float64 where "RetryAfterBuffer = FNum 1"

definition ChatRetryDelays :: "float64 list" where
  "ChatRetryDelays = [FNum 1, FNum 2, FNum 4]"

definition rate_limit_zh :: string where
  "rate_limit_zh = [CHR 0xE9, CHR 0x80, CHR 0x9F, CHR 0xE7, CHR 0x8E, CHR 0x87, CHR 0xE9, CHR 0x99, CHR 0x90,
     CHR 0xE5, CHR 0x88, CHR 0xB6]"

definition overload_zh :: string where
  "overload_zh = [CHR 0xE8, CHR 0xAE, CHR 0xBF, CHR 0xE9, CHR 0x97, CHR 0xAE, CHR 0xE9, CHR 0x87, CHR 0x8F,
     CHR 0xE8, CHR 0xBF, CHR 0x87, CHR 0xE5, CHR 0xA4, CHR 0xA7]"

definition transientErrorMarkers :: "string list" where
  "transientErrorMarkers =
     [''429'', ''rate limit'', ''500'', ''502'', ''503'', ''504'', ''overloaded'', ''timeout'', ''timed out'',
      ''connection'', ''server error'', ''server_error'', ''temporarily unavailable'', rate_limit_zh, overload_zh]"

definition nonRetryable429Tokens :: "string list" where
  "nonRetryable429Tokens =
     [''insufficient_quota'', ''quota_exceeded'', ''quota_exhausted'', ''billing_hard_limit_reached'',
      ''insufficient_balance'', ''credit_balance_too_low'', ''billing_not_active'', ''payment_required'']"

definition retryable429Tokens :: "string list" where
  "retryable429Tokens =
     [''rate_limit_exceeded'', ''rate_limit_error'', ''too_many_requests'', ''request_limit_exceeded'',
      ''requests_limit_exceeded'', ''overloaded_error'']"

definition nonRetryable429Markers :: "string list" where
  "nonRetryable429Markers =
     [''insufficient_quota'', ''insufficient quota'', ''quota exceeded'', ''quota exhausted'',
      ''billing hard limit'', ''billing_hard_limit_reached'', ''billing not active'', ''insufficient balance'',
      ''insufficient_balance'', ''credit balance too low'', ''payment required'', ''out of credits'',
      ''out of quota'', ''exceeded your current quota'']"

definition retryable429Markers :: "string list" where
  "retryable429Markers =
     [''rate limit'', ''rate_limit'', ''too many requests'', ''retry after'', ''try again in'',
      ''temporarily unavailable'', ''overloaded'', ''concurrency limit'', rate_limit_zh]"

definition containsAny :: "string \<Rightarrow> string list \<Rightarrow> bool" where
  "containsAny haystack needles = list_ex (Contains haystack) needles"

definition isRetryable429 :: "(nat \<Rightarrow> nat) \<Rightarrow> Response \<Rightarrow> bool" where
  "isRetryable429 lower r =
     (if rs_ErrorStatusCode r = Some 402 then False
      else
        let tokens = [ToLower lower (rs_ErrorType r), ToLower lower (rs_ErrorCode r)];
            content = ToLower lower (rs_Content r)
        in if list_ex (\<lambda>tok. tok \<noteq> [] \<and> tok \<in> set nonRetryable429Tokens) tokens then False
           else if containsAny content nonRetryable429Markers then False
           else if list_ex (\<lambda>tok. tok \<noteq> [] \<and> tok \<in> set retryable429Tokens) tokens then True
           else if containsAny content retryable429Markers then True
           else True)"

definition derefFloat :: "float64 option \<Rightarrow> float64" where
  "derefFloat f = (case f of None \<Rightarrow> FZero False | Some x \<Rightarrow> x)"

definition ClassifyResponse :: "(nat \<Rightarrow> nat) \<Rightarrow> Response option \<Rightarrow> bool \<times> float64" where
  "ClassifyResponse lower resp =
     (case resp of
        None \<Rightarrow> (False, FZero False)
      | Some r \<Rightarrow>
          let wait = derefFloat (rs_ErrorRetryAfterS r) in
          (case rs_ErrorShouldRetry r of
             Some b \<Rightarrow> (b, wait)
           | None \<Rightarrow>
               if rs_FinishReason r \<noteq> FinishError then (False, FZero False)
               else if rs_ErrorStatusCode r = Some 429 then (isRetryable429 lower r, wait)
               else if (case rs_ErrorStatusCode r of
                          None \<Rightarrow> False | Some code \<Rightarrow> code = 408 \<or> code = 409 \<or> 500 \<le> code)
               then (True, wait)
               else if rs_ErrorKind r = ''timeout'' \<or> rs_ErrorKind r = ''connection'' then (True, wait)
               else if containsAny (ToLower lower (rs_Content r)) transientErrorMarkers then (True, wait)
               else (False, FZero False)))"

definition IsTransientErrorText :: "(nat \<Rightarrow> nat) \<Rightarrow> string \<Rightarrow> bool" where
  "IsTransientErrorText lower s = containsAny (ToLower lower s) transientErrorMarkers"

definition RetryDelay :: "nat \<Rightarrow> float64 \<Rightarrow> float64 list \<Rightarrow> float64" where
  "RetryDelay attempt retryAfter delays =
     (let delays = (if delays = [] then ChatRetryDelays else delays) in
      if f64_less (FZero False) retryAfter then f64_add retryAfter RetryAfterBuffer
      else
        let idx = int attempt - 1;
            idx = (if int (length delays) \<le> idx then int (length delays) - 1 else idx);
            idx = (if idx < 0 then 0 else idx)
        in delays ! nat idx)"

end
