(* ===== verification/Tools.thy ===== *)
theory Tools
  imports Provider Json_Codec
begin

text \<open>
  The tool boundary, \<^verbatim>\<open>internal/tools/tool.go\<close>: the registry with its order of registration, the schemas
  advertised to the model, and the execution of one call, where every failure becomes a result the
  model can read. A tool is a record of what its methods answer; its work is a function on the state
  \<open>'w\<close> of the world and gives an error or a content with its error flag. The diffs a tool may attach
  to its result are passed on unread and are left out.

  \<^verbatim>\<open>json.Valid\<close> is the reader of \<open>Json_Codec\<close> accepting the whole input (its limit of ten thousand nested
  levels is not modelled); \<open>printable\<close> is \<^verbatim>\<open>unicode.IsPrint\<close>, which quoting consults.
\<close>

record concurrency =
  cc_ReadOnly :: bool
  cc_ConcurrencySafe :: bool
  cc_Exclusive :: bool

record 'w tool =
  tl_Name :: string
  tl_Description :: string
  tl_Parameters :: string
  tl_Concurrency :: "concurrency option"
  tl_Execute :: "string \<Rightarrow> 'w \<Rightarrow> 'w \<times> (string + string \<times> bool)"

definition Base_flags :: concurrency where
  "Base_flags = \<lparr>cc_ReadOnly = False, cc_ConcurrencySafe = False, cc_Exclusive = False\<rparr>"

definition ReadOnlyBase_flags :: concurrency where
  "ReadOnlyBase_flags = \<lparr>cc_ReadOnly = True, cc_ConcurrencySafe = True, cc_Exclusive = False\<rparr>"

definition IsReadOnly :: "'w tool \<Rightarrow> bool" where
  "IsReadOnly t = (case tl_Concurrency t of Some c \<Rightarrow> cc_ReadOnly c | None \<Rightarrow> False)"

definition IsConcurrencySafe :: "'w tool \<Rightarrow> bool" where
  "IsConcurrencySafe t = (case tl_Concurrency t of Some c \<Rightarrow> cc_ConcurrencySafe c | None \<Rightarrow> False)"

definition IsExclusive :: "'w tool \<Rightarrow> bool" where
  "IsExclusive t = (case tl_Concurrency t of Some c \<Rightarrow> cc_Exclusive c | None \<Rightarrow> False)"

section \<open>Registry\<close>

record 'w Registry =
  reg_tools :: "string \<Rightarrow> 'w tool option"
  reg_order :: "string list"

definition NewRegistry :: "'w Registry" where
  "NewRegistry = \<lparr>reg_tools = (\<lambda>_. None), reg_order = []\<rparr>"

definition Register :: "'w tool \<Rightarrow> 'w Registry \<Rightarrow> 'w Registry" where
  "Register t r =
     (let name = tl_Name t;
          r = (if reg_tools r name = None then r\<lparr>reg_order := reg_order r @ [name]\<rparr> else r)
      in r\<lparr>reg_tools := (reg_tools r)(name \<mapsto> t)\<rparr>)"

definition Registry_Get :: "'w Registry \<Rightarrow> string \<Rightarrow> 'w tool option" where
  "Registry_Get r name = reg_tools r name"

definition Registry_Names :: "'w Registry \<Rightarrow> string list" where
  "Registry_Names r = reg_order r"

text \<open>The length of the map, which has one entry per name of the order.\<close>

definition Registry_Len :: "'w Registry \<Rightarrow> nat" where
  "Registry_Len r = length (filter (\<lambda>name. reg_tools r name \<noteq> None) (remdups (reg_order r)))"

definition empty_parameters :: string where
  "empty_parameters = ''{'' @ [quote_char] @ ''type'' @ [quote_char] @ '':'' @ [quote_char] @ ''object'' @ [quote_char]
     @ '','' @ [quote_char] @ ''properties'' @ [quote_char] @ '':{}}''"

definition tool_schema :: "'w Registry \<Rightarrow> string \<Rightarrow> ToolSchema" where
  "tool_schema r name =
     (let t = the (reg_tools r name);
          params = (if tl_Parameters t = [] then empty_parameters else tl_Parameters t)
      in \<lparr>ts_Name = name, ts_Description = tl_Description t, ts_Parameters = params\<rparr>)"

definition is_mcp :: "ToolSchema \<Rightarrow> bool" where
  "is_mcp s = HasPrefix (ts_Name s) ''mcp_''"

definition schema_less :: "ToolSchema \<Rightarrow> ToolSchema \<Rightarrow> bool" where
  "schema_less a b = string_less (ts_Name a) (ts_Name b)"

definition Schemas :: "'w Registry \<Rightarrow> ToolSchema list" where
  "Schemas r =
     (let all = map (tool_schema r) (reg_order r);
          builtins = filter (\<lambda>s. \<not> is_mcp s) all;
          mcpTools = filter is_mcp all
      in SliceStable schema_less builtins @ SliceStable schema_less mcpTools)"

definition SortedNames :: "'w Registry \<Rightarrow> string list" where
  "SortedNames r = sort_Strings (Registry_Names r)"

section \<open>Executing a call\<close>

text \<open>\<^verbatim>\<open>strconv.Quote\<close>, which \<^verbatim>\<open>%q\<close> uses; an invalid byte is written as such.\<close>

definition quote_rune :: "(nat \<Rightarrow> bool) \<Rightarrow> nat \<Rightarrow> string" where
  "quote_rune printable r =
     (if r = 34 \<or> r = 92 then [backslash, char_of r]
      else if printable r then encode_rune r
      else if r = 7 then [backslash, CHR ''a''] else if r = 8 then [backslash, CHR ''b'']
      else if r = 12 then [backslash, CHR ''f''] else if r = 10 then [backslash, CHR ''n'']
      else if r = 13 then [backslash, CHR ''r''] else if r = 9 then [backslash, CHR ''t'']
      else if r = 11 then [backslash, CHR ''v'']
      else if r < 32 \<or> r = 127 then [backslash, CHR ''x''] @ hex_pad 2 r
      else if r < 65536 then [backslash, CHR ''u''] @ hex_pad 4 r
      else [backslash, CHR ''U''] @ hex_pad 8 r)"

function quote_body :: "(nat \<Rightarrow> bool) \<Rightarrow> string \<Rightarrow> string" where
  "quote_body printable s =
     (if s = [] then []
      else
        (if decode_rune s = (RuneError, 1) then [backslash, CHR ''x''] @ hex_pad 2 (byte (hd s))
         else quote_rune printable (fst (decode_rune s)))
        @ quote_body printable (drop (snd (decode_rune s)) s))"
  by pat_completeness auto
termination
  by (relation "measure (\<lambda>(p, s). length s)") (auto simp: decode_rune_width)

declare quote_body.simps [simp del]

definition Quote :: "(nat \<Rightarrow> bool) \<Rightarrow> string \<Rightarrow> string" where
  "Quote printable s = [quote_char] @ quote_body printable s @ [quote_char]"

definition json_Valid :: "string \<Rightarrow> bool" where
  "json_Valid raw \<longleftrightarrow> decodeJSONDocument raw \<noteq> None"

definition describeJSON :: "string \<Rightarrow> string" where
  "describeJSON s =
     (case s of
        [] \<Rightarrow> ''empty''
      | c # _ \<Rightarrow>
          if c = CHR ''['' then ''an array''
          else if c = quote_char then ''a string''
          else if c = CHR ''t'' \<or> c = CHR ''f'' then ''a boolean''
          else if c = CHR ''n'' then ''null''
          else if c = CHR ''-'' \<or> is_digit c then ''a number''
          else ''a non-object value'')"

definition NormalizeArguments :: "string \<Rightarrow> string + string" where
  "NormalizeArguments raw =
     (let trimmed = TrimSpace raw in
      if trimmed = [] \<or> trimmed = ''null'' then Inr ''{}''
      else if hd trimmed \<noteq> CHR ''{'' then Inl (''arguments must be a JSON object, got '' @ describeJSON trimmed)
      else if \<not> json_Valid raw then Inl ''arguments are not valid JSON''
      else Inr raw)"

definition HasValidName :: "ToolCall \<Rightarrow> bool" where
  "HasValidName t \<longleftrightarrow> tc_Name t \<noteq> []"

definition error_result :: "ToolCall \<Rightarrow> string \<Rightarrow> ToolResult" where
  "error_result call content = \<lparr>tr_CallID = tc_ID call, tr_Content = content, tr_IsError = True\<rparr>"

definition Registry_Execute ::
  "(nat \<Rightarrow> bool) \<Rightarrow> ('w \<Rightarrow> string option) \<Rightarrow> 'w Registry \<Rightarrow> ToolCall \<Rightarrow> 'w \<Rightarrow> 'w \<times> ToolResult" where
  "Registry_Execute printable ctx_err r call w =
     (if \<not> HasValidName call
      then (w, error_result call ''Error: tool call has an empty or invalid name and was not executed.'')
      else
        let q = Quote printable (tc_Name call) in
        case Registry_Get r (tc_Name call) of
          None \<Rightarrow> (w, error_result call (''Error: unknown tool '' @ q @ ''. Available tools: ''
                                        @ Join (Registry_Names r) '', ''))
        | Some t \<Rightarrow>
            (case NormalizeArguments (tc_Arguments call) of
               Inl e \<Rightarrow> (w, error_result call (''Error: invalid arguments for tool '' @ q @ '': '' @ e))
             | Inr args \<Rightarrow>
                 let (w', res) = tl_Execute t args w in
                 (case res of
                    Inl e \<Rightarrow>
                      (case ctx_err w' of
                         Some ce \<Rightarrow> (w', error_result call (''Error: tool '' @ q @ '' canceled: '' @ ce))
                       | None \<Rightarrow> (w', error_result call (''Error: tool '' @ q @ '' failed: '' @ e)))
                  | Inr (content, isError) \<Rightarrow>
                      (w', \<lparr>tr_CallID = tc_ID call, tr_Content = content, tr_IsError = isError\<rparr>))))"

section \<open>What the registry guarantees\<close>

text \<open>The order lists each registered name once.\<close>

definition registry_ok :: "'w Registry \<Rightarrow> bool" where
  "registry_ok r \<longleftrightarrow> distinct (reg_order r) \<and> set (reg_order r) = dom (reg_tools r)
     \<and> (\<forall>n t. reg_tools r n = Some t \<longrightarrow> tl_Name t = n)"

lemma registry_ok_New [simp]: "registry_ok NewRegistry"
  by (simp add: registry_ok_def NewRegistry_def)

lemma registry_ok_Register [simp]: "registry_ok r \<Longrightarrow> registry_ok (Register t r)"
  by (auto simp: registry_ok_def Register_def Let_def domIff)

lemma Registry_Len_ok: "registry_ok r \<Longrightarrow> Registry_Len r = length (reg_order r)"
proof -
  assume "registry_ok r"
  then have "filter (\<lambda>name. reg_tools r name \<noteq> None) (reg_order r) = reg_order r" "distinct (reg_order r)"
    by (auto simp: registry_ok_def filter_id_conv)
  then show ?thesis by (simp add: Registry_Len_def distinct_remdups_id)
qed

text \<open>Every call is answered under its own id, and a tool only ever runs on an object.\<close>

lemma Execute_CallID [simp]: "tr_CallID (snd (Registry_Execute printable ctx_err r call w)) = tc_ID call"
  by (auto simp: Registry_Execute_def error_result_def Let_def split: option.split sum.split prod.split)

lemma decode_object:
  assumes "skip_ws s = CHR ''{'' # t" "decodeJSONDocument s = Some v"
  shows "\<exists>ob. v = JObject ob"
proof -
  have *: "decode_members n b ob u = Some (v, r) \<Longrightarrow> \<exists>ob. v = JObject ob" for n b ob u v r
    by (induction n arbitrary: b ob u) (auto simp: decode_members.simps split: list.splits if_splits option.splits prod.splits)
  obtain r where "decodeJSONValue (2 * length s + 2) s = Some (v, r)"
    using assms(2) by (auto simp: decodeJSONDocument_def split: option.splits prod.splits if_splits)
  then show ?thesis using * assms(1) by (auto simp: numeral_2_eq_2 decodeJSONValue.simps)
qed

text \<open>White space of JSON is white space of Go, and no value starts with either.\<close>

lemma trim_front_suffix: "\<exists>n. trim_front ws s = drop n s"
proof (induction ws s rule: trim_front.induct)
  case (1 ws s)
  show ?case
  proof (cases "space_width ws s = 0")
    case True
    then have "trim_front ws s = drop 0 s" by (subst trim_front.simps) simp
    then show ?thesis by blast
  next
    case False
    then show ?thesis using 1 [OF False] by (subst trim_front.simps) (auto simp: drop_drop)
  qed
qed

lemma ws_width: "is_ws c \<Longrightarrow> space_width space_encodings (c # s) = 1"
  unfolding is_ws_def by (elim disjE) (simp_all add: space_width_def space_encodings_def HasPrefix_def)

lemma no_space_width:
  assumes "c \<notin> hd ` set space_encodings"
  shows "space_width space_encodings (c # s) = 0"
proof -
  have "w \<noteq> []" if "w \<in> set space_encodings" for w using that by (auto simp: space_encodings_def)
  then have "\<not> HasPrefix (c # s) w" if "w \<in> set space_encodings" for w
    using that assms by (cases w) (force simp: HasPrefix_def)+
  then show ?thesis by (auto simp: space_width_def find_None_iff split: option.split dest!: find_Some_in)
qed

lemma trim_front_ws: "skip_ws s = c # t \<Longrightarrow> c \<notin> hd ` set space_encodings \<Longrightarrow> trim_front space_encodings s = c # t"
proof (induction s)
  case (Cons d s)
  show ?case
  proof (cases "is_ws d")
    case True
    then show ?thesis using Cons by (subst trim_front.simps) (simp add: ws_width skip_ws_def)
  next
    case False
    then show ?thesis using Cons.prems by (subst trim_front.simps) (simp add: no_space_width skip_ws_def)
  qed
qed (simp add: skip_ws_def)

lemma lex_number_start: "lex_number (c # s) \<noteq> None \<Longrightarrow> c = CHR ''-'' \<or> is_digit c"
  by (auto simp: is_digit_def lex_number_def lex_sign_def lex_int_def Let_def split: if_splits option.splits prod.splits)

lemma value_start:
  assumes "decodeJSONValue n s = Some (v, r)"
  obtains c t where "skip_ws s = c # t" "c \<notin> hd ` set space_encodings"
proof -
  obtain m where "n = Suc m" using assms by (cases n) (simp_all add: decodeJSONValue.simps)
  then obtain c t where s: "skip_ws s = c # t" using assms by (cases "skip_ws s") (simp_all add: decodeJSONValue.simps)
  have "c = CHR ''{'' \<or> c = CHR ''['' \<or> c = quote_char \<or> c = CHR ''n'' \<or> c = CHR ''t'' \<or> c = CHR ''f'' \<or> c = CHR ''-'' \<or> is_digit c"
    using assms \<open>n = Suc m\<close> s lex_number_start [of c t]
    by (auto simp: decodeJSONValue.simps HasPrefix_def split: if_splits)
  then have "c \<notin> hd ` set space_encodings"
    by (elim disjE) (auto simp: space_encodings_def is_digit_def)
  then show thesis using that s by blast
qed

lemma arguments_object: "NormalizeArguments raw = Inr args \<Longrightarrow> \<exists>ob. decodeJSONDocument args = Some (JObject ob)"
proof -
  assume n: "NormalizeArguments raw = Inr args"
  let ?t = "TrimSpace raw"
  show ?thesis
  proof (cases "?t = [] \<or> ?t = ''null''")
    case True
    then have "args = ''{}''" using n by (auto simp: NormalizeArguments_def)
    moreover have "decodeJSONDocument ''{}'' = Some (JObject [])"
      by (simp add: decodeJSONDocument_def decodeJSONValue.simps decode_members.simps skip_ws_def is_ws_def eval_nat_numeral)
    ultimately show ?thesis by blast
  next
    case False
    then have raw: "args = raw" "hd ?t = CHR ''{''" "?t \<noteq> []" "json_Valid raw"
      using n by (auto simp: NormalizeArguments_def Let_def split: if_splits)
    then obtain v where v: "decodeJSONDocument raw = Some v" by (auto simp: json_Valid_def)
    then obtain r where "decodeJSONValue (2 * length raw + 2) raw = Some (v, r)"
      by (auto simp: decodeJSONDocument_def split: option.splits prod.splits if_splits)
    then obtain c t where c: "skip_ws raw = c # t" "c \<notin> hd ` set space_encodings" by (rule value_start)
    have "trim_front space_encodings raw = c # t" by (rule trim_front_ws [OF c])
    then obtain k where "?t = rev (drop k (rev (c # t)))"
      unfolding TrimSpace_def using trim_front_suffix [of "map rev space_encodings" "rev (c # t)"] by auto
    then have "?t = take (length (c # t) - k) (c # t)" by (simp only: rev_drop rev_rev_ident length_rev)
    then have "hd ?t = c" using raw(3) by (cases "length (c # t) - k") simp_all
    then show ?thesis using decode_object [OF _ v] v c raw by auto
  qed
qed

section \<open>Order of the schemas\<close>

lemma sorted_wrt_unique:
  assumes "sorted_wrt R xs" "sorted_wrt R ys" "mset xs = mset ys"
    and "\<And>a b. a \<in> set xs \<Longrightarrow> b \<in> set xs \<Longrightarrow> R a b \<Longrightarrow> R b a \<Longrightarrow> a = b"
  shows "xs = ys"
  using assms
proof (induction xs arbitrary: ys)
  case (Cons x xs)
  then obtain y ys' where ys: "ys = y # ys'" by (cases ys) auto
  have "set (x # xs) = set ys" using Cons.prems(3) mset_eq_setD by blast
  then have "x = y \<or> R x y \<and> R y x" using Cons.prems(1,2) ys by auto
  then have "x = y" using Cons.prems(4) [of x y] \<open>set (x # xs) = set ys\<close> ys by auto
  moreover have "xs = ys'" using Cons.IH [of ys'] Cons.prems ys \<open>x = y\<close> by simp
  ultimately show ?case by (simp add: ys)
qed simp

lemma weak_order_schema: "weak_order schema_less"
  using weak_order_string_less unfolding weak_order_def schema_less_def by blast

lemma SliceStable_unique:
  assumes "distinct (map ts_Name xs)" "distinct (map ts_Name ys)" "set xs = set ys"
  shows "SliceStable schema_less xs = SliceStable schema_less ys"
proof (rule sorted_wrt_unique)
  show "sorted_wrt (\<lambda>a b. \<not> schema_less b a) (SliceStable schema_less xs)"
    "sorted_wrt (\<lambda>a b. \<not> schema_less b a) (SliceStable schema_less ys)"
    by (rule sorted_SliceStable [OF weak_order_schema])+
  show "mset (SliceStable schema_less xs) = mset (SliceStable schema_less ys)"
    using assms by (simp add: set_eq_iff_mset_eq_distinct distinct_map)
  fix a b
  assume "a \<in> set (SliceStable schema_less xs)" "b \<in> set (SliceStable schema_less xs)"
    "\<not> schema_less b a" "\<not> schema_less a b"
  then show "a = b"
    using assms(1) string_less_linear by (simp add: schema_less_def) (meson distinct_map inj_onD)
qed

lemma tool_schema_name [simp]: "ts_Name (tool_schema r name) = name"
  by (simp add: tool_schema_def Let_def)

lemma schema_names: "map ts_Name (map (tool_schema r) ns) = ns"
  by (simp add: comp_def)

text \<open>
  What is advertised to the model depends on the registered tools and not on the order in which
  they were registered: built-in tools first and MCP tools behind them, each group in the order of its
  names, and every tool once.
\<close>

theorem schemas_deterministic:
  assumes "registry_ok r" "registry_ok r'" "reg_tools r = reg_tools r'"
  shows "Schemas r = Schemas r' \<and> distinct (map ts_Name (Schemas r)) \<and>
    set (map ts_Name (Schemas r)) = dom (reg_tools r) \<and>
    (\<exists>bs ms. Schemas r = bs @ ms \<and> (\<forall>s \<in> set bs. \<not> is_mcp s) \<and> (\<forall>s \<in> set ms. is_mcp s) \<and>
      sorted_wrt (\<lambda>a b. \<not> schema_less b a) bs \<and> sorted_wrt (\<lambda>a b. \<not> schema_less b a) ms)"
proof -
  let ?all = "\<lambda>r. map (tool_schema r) (reg_order r)"
  have same: "tool_schema r = tool_schema r'" using assms(3) by (simp add: tool_schema_def fun_eq_iff)
  have order: "set (reg_order r) = set (reg_order r')" "distinct (reg_order r)" "distinct (reg_order r')"
    "set (reg_order r) = dom (reg_tools r)"
    using assms by (simp_all add: registry_ok_def)
  have d: "distinct (map ts_Name (filter P (?all r)))" "distinct (map ts_Name (filter P (?all r')))" for P
    using order schema_names by (metis distinct_map_filter)+
  have eq: "Schemas r = Schemas r'"
    unfolding Schemas_def Let_def
    by (intro arg_cong2 [where f = append] SliceStable_unique d) (use same order in \<open>auto simp: image_iff\<close>)
  have part: "mset (filter (\<lambda>s. \<not> P s) xs) + mset (filter P xs) = mset xs" for P and xs :: "ToolSchema list"
    by (induction xs) auto
  have m: "mset (Schemas r) = mset (?all r)"
    using part [of is_mcp "?all r"] by (simp add: Schemas_def Let_def)
  then have "mset (map ts_Name (Schemas r)) = mset (reg_order r)"
    by (metis mset_map schema_names)
  then have "distinct (map ts_Name (Schemas r))" "set (map ts_Name (Schemas r)) = dom (reg_tools r)"
    using order mset_eq_imp_distinct_iff mset_eq_setD by metis+
  moreover have "\<exists>bs ms. Schemas r = bs @ ms \<and> (\<forall>s \<in> set bs. \<not> is_mcp s) \<and> (\<forall>s \<in> set ms. is_mcp s) \<and>
      sorted_wrt (\<lambda>a b. \<not> schema_less b a) bs \<and> sorted_wrt (\<lambda>a b. \<not> schema_less b a) ms"
    unfolding Schemas_def Let_def
    by (intro exI conjI, rule refl) (auto simp: sorted_SliceStable [OF weak_order_schema])
  ultimately show ?thesis using eq by simp
qed

definition demo_tool :: "string \<Rightarrow> unit tool" where
  "demo_tool name = \<lparr>tl_Name = name, tl_Description = ''demo'', tl_Parameters = [],
     tl_Concurrency = Some ReadOnlyBase_flags, tl_Execute = (\<lambda>args w. (w, Inr (args, False)))\<rparr>"

theorem schemas_deterministic_witness:
  "let a = demo_tool ''mcp_x''; b = demo_tool ''exec'';
       r = Register a (Register b NewRegistry); r' = Register b (Register a NewRegistry)
   in reg_order r \<noteq> reg_order r' \<and> Schemas r = Schemas r' \<and> set (map ts_Name (Schemas r)) = {''exec'', ''mcp_x''}"
proof -
  let ?a = "demo_tool ''mcp_x''" and ?b = "demo_tool ''exec''"
  let ?r = "Register ?a (Register ?b NewRegistry)" and ?r' = "Register ?b (Register ?a NewRegistry)"
  have n: "reg_tools ?r = reg_tools ?r'" "reg_order ?r \<noteq> reg_order ?r'" "dom (reg_tools ?r) = {''exec'', ''mcp_x''}"
    by (auto simp: Register_def NewRegistry_def demo_tool_def Let_def fun_eq_iff)
  have "registry_ok ?r" "registry_ok ?r'" by simp_all
  from schemas_deterministic [OF this n(1)]
  have "Schemas ?r = Schemas ?r'" "set (map ts_Name (Schemas ?r)) = {''exec'', ''mcp_x''}" unfolding n(3) by blast+
  then show ?thesis unfolding Let_def using n(2) by (intro conjI)
qed

end
