(* ===== verification/Go_Regexp.thy ===== *)
theory Go_Regexp
  imports Textutil
begin

text \<open>
  What the sources use of Go's \<^verbatim>\<open>regexp\<close> package: classes of runes, literals, greedy and lazy
  repetition of a class, sequence, ordered alternative, option, and the anchors of the text. A text is
  cut into its runes, each kept with its bytes (an invalid byte is a rune of its own, U+FFFD). The
  matches of an expression at a position are what it can leave, in the order of preference of the
  leftmost-first rule, and \<^verbatim>\<open>ReplaceAllString(s, "")\<close> deletes the leftmost, non-overlapping ones.
\<close>

type_synonym chunk = "nat \<times> string"

function chunks :: "string \<Rightarrow> chunk list" where
  "chunks s =
     (if s = [] then []
      else (fst (decode_rune s), take (snd (decode_rune s)) s) # chunks (drop (snd (decode_rune s)) s))"
  by pat_completeness auto
termination
  by (relation "measure length") (auto simp: decode_rune_width)

declare chunks.simps [simp del]

definition chunk_text :: "chunk list \<Rightarrow> string" where
  "chunk_text xs = concat (map snd xs)"

datatype regexp =
    Class "nat \<Rightarrow> bool"
  | Lit string
  | Star "nat \<Rightarrow> bool"
  | Lazy "nat \<Rightarrow> bool"
  | Cat regexp regexp
  | Or regexp regexp
  | Quest regexp
  | BeginText
  | EndText

primrec star_rest :: "(nat \<Rightarrow> bool) \<Rightarrow> chunk list \<Rightarrow> chunk list list" where
  "star_rest p [] = [[]]"
| "star_rest p (x # xs) = (if p (fst x) then star_rest p xs else []) @ [x # xs]"

primrec lazy_rest :: "(nat \<Rightarrow> bool) \<Rightarrow> chunk list \<Rightarrow> chunk list list" where
  "lazy_rest p [] = [[]]"
| "lazy_rest p (x # xs) = (x # xs) # (if p (fst x) then lazy_rest p xs else [])"

text \<open>A literal of ASCII characters, rune by rune.\<close>

fun lit_rest :: "string \<Rightarrow> chunk list \<Rightarrow> chunk list list" where
  "lit_rest [] xs = [xs]"
| "lit_rest (c # cs) [] = []"
| "lit_rest (c # cs) (x # xs) = (if fst x = byte c then lit_rest cs xs else [])"

text \<open>\<open>n\<close> is the number of runes of the whole text, which tells where it begins.\<close>

primrec regexp_rest :: "nat \<Rightarrow> regexp \<Rightarrow> chunk list \<Rightarrow> chunk list list" where
  "regexp_rest n (Class p) xs = (case xs of [] \<Rightarrow> [] | x # ys \<Rightarrow> if p (fst x) then [ys] else [])"
| "regexp_rest n (Lit cs) xs = lit_rest cs xs"
| "regexp_rest n (Star p) xs = star_rest p xs"
| "regexp_rest n (Lazy p) xs = lazy_rest p xs"
| "regexp_rest n (Cat a b) xs = concat (map (regexp_rest n b) (regexp_rest n a xs))"
| "regexp_rest n (Or a b) xs = regexp_rest n a xs @ regexp_rest n b xs"
| "regexp_rest n (Quest a) xs = regexp_rest n a xs @ [xs]"
| "regexp_rest n BeginText xs = (if length xs = n then [xs] else [])"
| "regexp_rest n EndText xs = (if xs = [] then [xs] else [])"

primrec any_of :: "string list \<Rightarrow> regexp" where
  "any_of [] = Class (\<lambda>_. False)"
| "any_of (w # ws) = (if ws = [] then Lit w else Or (Lit w) (any_of ws))"

text \<open>
  The scan of \<^verbatim>\<open>ReplaceAllString\<close> with an empty replacement: a match is dropped and the scan goes on
  behind it; without one, or with an empty one, the next rune is copied.
\<close>

function delete_scan :: "nat \<Rightarrow> regexp \<Rightarrow> chunk list \<Rightarrow> chunk list" where
  "delete_scan n re xs =
     (case xs of
        [] \<Rightarrow> []
      | x # ys \<Rightarrow>
          (case regexp_rest n re xs of
             [] \<Rightarrow> x # delete_scan n re ys
           | r # _ \<Rightarrow> if length r < length xs then delete_scan n re r else x # delete_scan n re ys))"
  by pat_completeness auto
termination
  by (relation "measure (\<lambda>(n, re, xs). length xs)") auto

declare delete_scan.simps [simp del]

definition DeleteAll :: "regexp \<Rightarrow> string \<Rightarrow> string" where
  "DeleteAll re s = chunk_text (delete_scan (length (chunks s)) re (chunks s))"

section \<open>Runes of a text\<close>

lemma chunks_Nil [simp]: "chunks [] = []"
  by (simp add: chunks.simps)

lemma chunk_text_simps [simp]:
  "chunk_text [] = []" "chunk_text (x # xs) = snd x @ chunk_text xs"
  "chunk_text (xs @ ys) = chunk_text xs @ chunk_text ys"
  by (simp_all add: chunk_text_def)

lemma chunk_text_chunks [simp]: "chunk_text (chunks s) = s"
proof (induction s rule: chunks.induct)
  case (1 s)
  then show ?case by (subst chunks.simps) simp
qed

lemma decode_rune_le: "snd (decode_rune s) \<le> length s"
  by (cases s) (auto simp: Let_def split: list.splits)

text \<open>A byte below 128 never belongs to a longer rune, so a text can be cut before and behind it.\<close>

lemma decode_rune_ascii: "byte c < 128 \<Longrightarrow> decode_rune (c # s) = (byte c, 1)"
  by simp

lemma not_cont_ascii: "byte c < 128 \<Longrightarrow> \<not> cont_byte c"
  by (simp add: cont_byte_def)

lemma decode_rune_cut:
  assumes "s \<noteq> []" "byte c < 128"
  shows "decode_rune (s @ c # t) = decode_rune s"
  using assms not_cont_ascii [OF assms(2)]
  by (cases s) (auto simp: Let_def split: list.splits)

lemma chunks_ascii: "byte c < 128 \<Longrightarrow> chunks (c # s) = (byte c, [c]) # chunks s"
  by (subst chunks.simps) simp

lemma chunks_cut:
  assumes "byte c < 128"
  shows "chunks (s @ c # t) = chunks s @ (byte c, [c]) # chunks t"
proof (induction s rule: chunks.induct)
  case (1 s)
  show ?case
  proof (cases "s = []")
    case True
    then show ?thesis by (simp add: chunks_ascii assms)
  next
    case False
    have d: "decode_rune (s @ c # t) = decode_rune s" by (rule decode_rune_cut [OF False assms])
    have "chunks (s @ c # t) = (fst (decode_rune s), take (snd (decode_rune s)) s)
        # chunks (drop (snd (decode_rune s)) s @ c # t)"
      by (subst chunks.simps) (simp add: d decode_rune_le)
    also have "\<dots> = chunks s @ (byte c, [c]) # chunks t"
      using 1 [OF False] chunks.simps [of s] False by simp
    finally show ?thesis .
  qed
qed

lemma chunks_ascii_append: "list_all (\<lambda>c. byte c < 128) s \<Longrightarrow>
    chunks (s @ t) = map (\<lambda>c. (byte c, [c])) s @ chunks t"
  by (induction s) (simp_all add: chunks_ascii)

text \<open>A rune that is an ASCII character has that character as its only byte.\<close>

lemma decode_rune_large:
  assumes "128 \<le> byte a"
  shows "128 \<le> fst (decode_rune (a # s))"
proof -
  let ?n = "byte a"
  have two: "128 \<le> (?n - 192) * 64 + k" if "194 \<le> ?n" for k using that by arith
  have three: "128 \<le> (?n - 224) * 4096 + (byte b - 128) * 64 + k"
    if "224 \<le> ?n" "?n = 224 \<longrightarrow> 160 \<le> byte b" for b k using that by arith
  have four: "128 \<le> (?n - 240) * 262144 + (byte b - 128) * 4096 + k * 64 + l"
    if "240 \<le> ?n" "?n = 240 \<longrightarrow> 144 \<le> byte b" for b k l using that by arith
  have e: "128 \<le> RuneError" by (simp add: RuneError_def)
  show ?thesis using assms e two three four
    by (simp add: Let_def split: list.split)
qed

lemma decode_rune_small:
  "s \<noteq> [] \<Longrightarrow> fst (decode_rune s) < 128 \<Longrightarrow> byte (hd s) = fst (decode_rune s)"
  using decode_rune_large by (cases s; cases "byte (hd s) < 128") (auto simp del: decode_rune.simps simp: decode_rune_ascii not_less dest: leD)

lemma chunks_mem_ascii: "(byte c, b) \<in> set (chunks s) \<Longrightarrow> byte c < 128 \<Longrightarrow> c \<in> set s"
proof (induction s rule: chunks.induct)
  case (1 s)
  then have s: "s \<noteq> []" by auto
  from 1(2) consider "fst (decode_rune s) = byte c" | "(byte c, b) \<in> set (chunks (drop (snd (decode_rune s)) s))"
    by (subst (asm) chunks.simps) (auto simp: s)
  then show ?case
  proof cases
    case 1
    then have "byte (hd s) = byte c" using decode_rune_small [OF s] \<open>byte c < 128\<close> by simp
    then show ?thesis using s by (metis hd_in_set of_char_eq_iff)
  next
    case 2
    then show ?thesis using 1(1) [OF s] 1(3) by (meson in_set_dropD)
  qed
qed

section \<open>Matches\<close>

lemma star_rest_suffix: "r \<in> set (star_rest p xs) \<Longrightarrow> suffix r xs"
  by (induction xs) (auto split: if_splits simp: suffix_def intro: exI [of _ "_ # _"])

lemma lazy_rest_suffix: "r \<in> set (lazy_rest p xs) \<Longrightarrow> suffix r xs"
  by (induction xs) (auto split: if_splits simp: suffix_def intro: exI [of _ "_ # _"])

lemma lit_rest_suffix: "r \<in> set (lit_rest cs xs) \<Longrightarrow> suffix r xs"
  by (induction cs xs rule: lit_rest.induct) (auto split: if_splits simp: suffix_def intro: exI [of _ "_ # _"])

lemma regexp_rest_suffix: "r \<in> set (regexp_rest n re xs) \<Longrightarrow> suffix r xs"
proof (induction re arbitrary: xs r)
  case (Cat a b)
  then show ?case by (fastforce intro: suffix_order.trans)
qed (auto dest: star_rest_suffix lazy_rest_suffix lit_rest_suffix split: list.splits if_splits
    simp: suffix_ConsI)

text \<open>Deleting keeps a subsequence of the runes, and of the bytes.\<close>

lemma subseq_suffix: "subseq a b \<Longrightarrow> suffix b c \<Longrightarrow> subseq a c"
  by (auto simp: suffix_def intro: list_emb_append2)

lemma delete_scan_subseq: "subseq (delete_scan n re xs) xs"
proof (induction n re xs rule: delete_scan.induct)
  case (1 n re xs)
  show ?case
  proof (cases xs)
    case (Cons x ys)
    show ?thesis
    proof (cases "regexp_rest n re xs")
      case Nil
      then show ?thesis using 1(1) [OF Cons Nil] Cons by (subst delete_scan.simps) simp
    next
      case (Cons r rs)
      have "suffix r xs" using regexp_rest_suffix [of r n re xs] Cons by simp
      then show ?thesis
        using 1(2) [OF \<open>xs = x # ys\<close> Cons] 1(3) [OF \<open>xs = x # ys\<close> Cons] \<open>xs = x # ys\<close> Cons
        by (subst delete_scan.simps) (auto intro: subseq_suffix)
    qed
  qed (simp add: delete_scan.simps)
qed

lemma subseq_concat_map: "subseq xs ys \<Longrightarrow> subseq (concat (map f xs)) (concat (map f ys))"
  by (induction rule: list_emb.induct) (auto intro: list_emb_append_mono list_emb_append2)

lemma DeleteAll_subseq: "subseq (DeleteAll re s) s"
proof -
  have "subseq (DeleteAll re s) (chunk_text (chunks s))"
    unfolding DeleteAll_def chunk_text_def by (intro subseq_concat_map delete_scan_subseq)
  then show ?thesis by simp
qed

text \<open>An expression none of whose matches can start at the runes of a text leaves it alone.\<close>

lemma delete_scan_skip:
  assumes "\<And>x zs. x \<in> set xs \<Longrightarrow> regexp_rest n re (x # zs) = []"
  shows "delete_scan n re (xs @ ys) = xs @ delete_scan n re ys"
  using assms
proof (induction xs)
  case (Cons x xs)
  then show ?case by (subst append_Cons, subst delete_scan.simps) simp
qed simp

lemma delete_scan_Nil [simp]: "delete_scan n re [] = []"
  by (simp add: delete_scan.simps)

lemma delete_scan_match:
  "regexp_rest n re (x # xs) = r # rs \<Longrightarrow> length r \<le> length xs \<Longrightarrow> delete_scan n re (x # xs) = delete_scan n re r"
  by (subst delete_scan.simps) simp

end
