(* ===== verification/Reasoning.thy ===== *)
theory Reasoning
  imports Go_Regexp
begin

text \<open>
  Separating the reasoning of a model response from its answer: \<^verbatim>\<open>internal/textutil/stripthink.go\<close> and
  \<^verbatim>\<open>internal/textutil/reasoning.go\<close>. The expressions are those the sources compile, over the classes of
  \<open>Textutil\<close>; the explicit scans that stand in for look-ahead and back-reference are written as the
  loops they are. A Go \<^verbatim>\<open>*string\<close> is an option, a value of dynamic type is a JSON value.
\<close>

section \<open>Expressions\<close>

definition thinkingTags :: "string list" where
  "thinkingTags = [''think'', ''thinking'', ''thought'']"

definition thinkingTagAlt :: regexp where
  "thinkingTagAlt = any_of thinkingTags"

definition partialThinkingTag :: regexp where
  "partialThinkingTag =
     Cat (Lit ''<'') (Cat (Quest (Lit ''/'')) (Cat
       (any_of [''thinking'', ''thinkin'', ''thought'', ''thinki'', ''though'', ''thoug'', ''think'',
                ''thou'', ''thin'', ''tho'', ''thi'', ''th'', ''t''])
       (Quest (Lit ''>''))))"

definition pySpaceClass :: regexp where
  "pySpaceClass = Star (\<lambda>r. list_ex (\<lambda>rng. fst rng \<le> r \<and> r \<le> snd rng) pySpaceRanges)"

definition pyEnd :: regexp where
  "pyEnd = Cat (Quest (Lit [CHR 0x0A])) EndText"

definition wellFormedTag :: "string \<Rightarrow> regexp" where
  "wellFormedTag tag = Cat (Lit (''<'' @ tag @ ''>'')) (Cat (Lazy (\<lambda>_. True)) (Lit (''</'' @ tag @ ''>'')))"

definition unclosedBlock :: regexp where
  "unclosedBlock =
     Cat BeginText (Cat pySpaceClass (Cat (Lit ''<'') (Cat thinkingTagAlt (Cat (Lit ''>'')
       (Cat (Star (\<lambda>_. True)) pyEnd)))))"

definition selfClosingStart :: regexp where
  "selfClosingStart = Cat BeginText (Cat pySpaceClass (Cat (Lit ''<thinking/>'') pySpaceClass))"

definition selfClosingEnd :: regexp where
  "selfClosingEnd = Cat pySpaceClass (Cat (Lit ''<thinking/>'') (Cat pySpaceClass pyEnd))"

definition orphanCloseStart :: regexp where
  "orphanCloseStart =
     Cat BeginText (Cat pySpaceClass (Cat (Lit ''</'') (Cat thinkingTagAlt (Cat (Lit ''>'') pySpaceClass))))"

definition orphanCloseEnd :: regexp where
  "orphanCloseEnd =
     Cat pySpaceClass (Cat (Lit ''</'') (Cat thinkingTagAlt (Cat (Lit ''>'') (Cat pySpaceClass pyEnd))))"

definition channelMarker :: regexp where
  "channelMarker =
     Cat BeginText (Cat pySpaceClass (Cat (Lit ''<'') (Cat (Quest (Lit ''|'')) (Cat (Lit ''channel'')
       (Cat (Quest (Lit ''|'')) (Cat (Lit ''>'') pySpaceClass))))))"

definition partialTag :: regexp where
  "partialTag =
     Cat (Or partialThinkingTag
            (Cat (Lit ''<'') (Cat (Quest (Lit ''|'')) (Cat
              (any_of [''c'', ''ch'', ''cha'', ''chan'', ''chann'', ''channe'', ''channel''])
              (Quest (Cat (Quest (Lit ''|'')) (Quest (Lit ''>'')))))))) pyEnd"

definition lonePipe :: regexp where
  "lonePipe = Cat BeginText (Cat pySpaceClass (Cat (Lit ''<'') (Cat (Quest (Lit ''|'')) pyEnd)))"

section \<open>Cleaning the answer\<close>

definition isTagNameChar :: "char \<Rightarrow> bool" where
  "isTagNameChar c \<longleftrightarrow>
     (65 \<le> byte c \<and> byte c \<le> 90) \<or> (97 \<le> byte c \<and> byte c \<le> 122) \<or> (48 \<le> byte c \<and> byte c \<le> 57)
     \<or> c \<in> {CHR ''_'', CHR ''-'', CHR '':'', CHR ''>'', CHR ''/''}"

text \<open>
  The end of the first tag name, behind the \<^verbatim>\<open><\<close> that starts the text, which no tag-name character
  follows.
\<close>

fun malformed_end :: "string list \<Rightarrow> string \<Rightarrow> nat option" where
  "malformed_end [] text = None"
| "malformed_end (tag # tags) text =
     (let end = 1 + length tag in
      if length text < end \<or> take (length tag) (drop 1 text) \<noteq> tag then malformed_end tags text
      else if end = length text \<or> \<not> isTagNameChar (text ! end) then Some end
      else malformed_end tags text)"

lemma malformed_end_pos: "malformed_end tags s = Some end \<Longrightarrow> 0 < end"
  by (induction tags s rule: malformed_end.induct) (auto simp: Let_def split: if_splits)

function malformed_loop_tags :: "string \<Rightarrow> string" where
  "malformed_loop_tags text =
     (case text of
        [] \<Rightarrow> []
      | c # rest \<Rightarrow>
          if c \<noteq> CHR ''<'' then c # malformed_loop_tags rest
          else (case malformed_end thinkingTags text of
                  Some end \<Rightarrow> malformed_loop_tags (drop end text)
                | None \<Rightarrow> c # malformed_loop_tags rest))"
  by pat_completeness auto
termination
  by (relation "measure length") (auto dest: malformed_end_pos)

declare malformed_loop_tags.simps [simp del]

definition stripMalformedOpenTags :: "string \<Rightarrow> string" where
  "stripMalformedOpenTags text = (if \<not> Contains text ''<'' then text else malformed_loop_tags text)"

definition StripThink :: "string \<Rightarrow> string" where
  "StripThink text =
     (if \<not> Contains text ''<'' then PyStrip text
      else
        let text = fold (\<lambda>tag. DeleteAll (wellFormedTag tag)) thinkingTags text;
            text = DeleteAll unclosedBlock text;
            text = DeleteAll selfClosingStart text;
            text = DeleteAll selfClosingEnd text;
            text = stripMalformedOpenTags text;
            text = DeleteAll orphanCloseStart text;
            text = DeleteAll orphanCloseEnd text;
            text = DeleteAll channelMarker text;
            text = DeleteAll partialTag text;
            text = DeleteAll lonePipe text
        in PyStrip text)"

definition TruncatedSuffix :: string where
  "TruncatedSuffix = CHR 0x0A # ''... (truncated)''"

definition TruncateText :: "string \<Rightarrow> int \<Rightarrow> string" where
  "TruncateText text maxChars =
     (if maxChars \<le> 0 then text
      else let rs = runes text in
        if int (length rs) \<le> maxChars then text
        else runes_string (take (nat maxChars) rs) @ TruncatedSuffix)"

section \<open>Extracting the reasoning\<close>

definition stripReasoningSelfCloseStart :: regexp where
  "stripReasoningSelfCloseStart =
     Cat BeginText (Cat pySpaceClass (Cat (Lit ''<'') (Cat thinkingTagAlt (Cat (Lit ''/>'') pySpaceClass))))"

definition stripReasoningSelfCloseEnd :: regexp where
  "stripReasoningSelfCloseEnd =
     Cat pySpaceClass (Cat (Lit ''<'') (Cat thinkingTagAlt (Cat (Lit ''/>'') (Cat pySpaceClass pyEnd))))"

definition stripReasoningOpenStart :: regexp where
  "stripReasoningOpenStart =
     Cat BeginText (Cat pySpaceClass (Cat (Lit ''<'') (Cat thinkingTagAlt (Cat (Lit ''>'') pySpaceClass))))"

definition stripReasoningCloseEnd :: regexp where
  "stripReasoningCloseEnd =
     Cat pySpaceClass (Cat (Lit ''</'') (Cat thinkingTagAlt (Cat (Lit ''>'') (Cat pySpaceClass pyEnd))))"

definition stripReasoningPartial :: regexp where
  "stripReasoningPartial = Cat pySpaceClass (Cat partialThinkingTag pyEnd)"

definition StripReasoningTags :: "json option \<Rightarrow> string" where
  "StripReasoningTags text =
     (case text of
        Some (JString s) \<Rightarrow>
          if \<not> Contains s ''<'' then PyStrip s
          else
            let s = DeleteAll stripReasoningSelfCloseStart s;
                s = DeleteAll stripReasoningSelfCloseEnd s;
                s = DeleteAll stripReasoningOpenStart s;
                s = DeleteAll stripReasoningCloseEnd s;
                s = DeleteAll stripReasoningPartial s
            in PyStrip s
      | _ \<Rightarrow> [])"

text \<open>\<^verbatim>\<open>strings.Index\<close>: where the pattern first occurs.\<close>

fun IndexOf :: "string \<Rightarrow> string \<Rightarrow> nat option" where
  "IndexOf s pat =
     (if HasPrefix s pat then Some 0
      else case s of [] \<Rightarrow> None | _ # rest \<Rightarrow> map_option Suc (IndexOf rest pat))"

declare IndexOf.simps [simp del]

text \<open>The leftmost opening tag from position \<open>i\<close> on, where \<open>s\<close> is the text from there.\<close>

fun find_open :: "string \<Rightarrow> nat \<Rightarrow> (nat \<times> string) option" where
  "find_open [] i = None"
| "find_open (c # s) i =
     (if c \<noteq> CHR ''<'' then find_open s (Suc i)
      else case List.find (\<lambda>name. HasPrefix (c # s) (''<'' @ name @ ''>'')) thinkingTags of
             None \<Rightarrow> find_open s (Suc i)
           | Some name \<Rightarrow> Some (i, name))"

lemma find_open_ge: "find_open s i = Some (k, tag) \<Longrightarrow> i \<le> k"
  by (induction s i rule: find_open.induct) (auto split: if_splits option.splits)

function inline_loop :: "string \<Rightarrow> nat \<Rightarrow> string list \<Rightarrow> string list" where
  "inline_loop text pos parts =
     (if pos < length text then
        (case find_open (drop pos text) pos of
           None \<Rightarrow> parts
         | Some (openIdx, tag) \<Rightarrow>
             let bodyStart = openIdx + length tag + 2;
                 closeTag = ''</'' @ tag @ ''>''
             in case IndexOf (drop bodyStart text) closeTag of
                  None \<Rightarrow> inline_loop text (openIdx + 1) parts
                | Some rel \<Rightarrow>
                    let closeIdx = bodyStart + rel in
                    inline_loop text (closeIdx + length closeTag)
                      (parts @ [PyStrip (drop bodyStart (take closeIdx text))]))
      else parts)"
  by pat_completeness auto
termination
  by (relation "measure (\<lambda>(text, pos, parts). length text - pos)") (auto dest!: find_open_ge)

declare inline_loop.simps [simp del]

definition inlineThinkParts :: "string \<Rightarrow> string list" where
  "inlineThinkParts text = (if \<not> Contains text ''</'' then [] else inline_loop text 0 [])"

definition blank_line :: string where
  "blank_line = [CHR 0x0A, CHR 0x0A]"

definition ExtractThink :: "string \<Rightarrow> string option \<times> string" where
  "ExtractThink text =
     (if \<not> Contains text ''<'' then (None, PyStrip text)
      else
        let parts = inlineThinkParts text;
            thinking = (if parts \<noteq> [] then Some (Join parts blank_line) else None)
        in (thinking, StripThink text))"

definition stripContentOrSelf :: "string option \<Rightarrow> string option" where
  "stripContentOrSelf content =
     (if content = None \<or> content = Some [] then content else Some (StripThink (the content)))"

definition thinking_part :: "(string \<times> json) list \<Rightarrow> string list" where
  "thinking_part block =
     (if map_of block ''type'' \<noteq> Some (JString ''thinking'') then []
      else let part = StripReasoningTags (map_of block ''thinking'') in if part \<noteq> [] then [part] else [])"

definition ExtractReasoning ::
  "string option \<Rightarrow> (string \<times> json) list list \<Rightarrow> string option \<Rightarrow> string option \<times> string option" where
  "ExtractReasoning reasoningContent thinkingBlocks content =
     (if reasoningContent \<noteq> None \<and> reasoningContent \<noteq> Some [] then
        (Some (StripReasoningTags (map_option JString reasoningContent)), stripContentOrSelf content)
      else if thinkingBlocks \<noteq> [] then
        let joined = Join (concat (map thinking_part thinkingBlocks)) blank_line in
        (if joined \<noteq> [] then Some joined else None, stripContentOrSelf content)
      else if content \<noteq> None \<and> content \<noteq> Some [] then
        let (thinking, cleaned) = ExtractThink (the content) in (thinking, Some cleaned)
      else (None, content))"

end
