(* ===== verification/Toolresult.thy ===== *)
theory Toolresult
  imports Reasoning Messages
begin

text \<open>
  Tool results on their way into the transcript, \<^verbatim>\<open>internal/agent/toolresult.go\<close>: an empty result gets a
  marker, an oversized one is written to a file of the workspace and replaced by a reference. The
  files are a map from paths to contents; what the system answers, the outcome of each call, the
  listing and the times of the directories, is the record \<open>result_io\<close>. Paths are those of Unix.
\<close>

section \<open>Paths\<close>

definition clean_step :: "bool \<Rightarrow> string list \<Rightarrow> string \<Rightarrow> string list" where
  "clean_step rooted acc c =
     (if c = [] \<or> c = ''.'' then acc
      else if c = ''..'' then
        (if acc \<noteq> [] \<and> last acc \<noteq> ''..'' then butlast acc else if rooted then acc else acc @ [c])
      else acc @ [c])"

text \<open>\<^verbatim>\<open>filepath.Clean\<close> and \<^verbatim>\<open>filepath.Join\<close>.\<close>

definition path_Clean :: "string \<Rightarrow> string" where
  "path_Clean s =
     (let rooted = HasPrefix s ''/'';
          p = Join (foldl (clean_step rooted) [] (Split s (CHR ''/''))) ''/''
      in if rooted then ''/'' @ p else if p = [] then ''.'' else p)"

definition path_Join :: "string list \<Rightarrow> string" where
  "path_Join elems =
     (let es = filter (\<lambda>e. e \<noteq> []) elems in if es = [] then [] else path_Clean (Join es ''/''))"

section \<open>Marker and reference\<close>

definition toolResultsDir :: string where "toolResultsDir = ''.nanobot/tool-results''"
definition toolResultPreviewChars :: nat where "toolResultPreviewChars = 1200"
definition toolResultRetentionSecs :: int where "toolResultRetentionSecs = 7 * 24 * 60 * 60"
definition toolResultMaxBuckets :: nat where "toolResultMaxBuckets = 32"

definition unsafeChars :: "char \<Rightarrow> bool" where
  "unsafeChars c \<longleftrightarrow> c \<in> {CHR ''<'', CHR ''>'', CHR '':'', CHR 0x22, CHR ''/'', CHR 0x5C, CHR ''|'', CHR ''?'', CHR ''*''}"

definition toolResultOffloadExempt :: "string \<Rightarrow> bool" where
  "toolResultOffloadExempt name \<longleftrightarrow> name = ''read_file''"

definition EmptyToolResultMessage :: "string \<Rightarrow> string" where
  "EmptyToolResultMessage toolName = ''('' @ toolName @ '' completed with no output)''"

definition SafeFilename :: "string \<Rightarrow> string" where
  "SafeFilename name = PyStrip (map (\<lambda>c. if unsafeChars c then CHR ''_'' else c) name)"

text \<open>The blocks up to the first that is not text: whether all are, and the text collected.\<close>

fun all_text :: "ContentBlock list \<Rightarrow> string \<Rightarrow> bool \<times> string" where
  "all_text [] payload = (True, payload)"
| "all_text (b # bs) payload =
     (if cb_Type b \<noteq> ''text'' then (False, payload) else all_text bs (payload @ cb_Text b))"

definition EnsureNonemptyContent :: "string \<Rightarrow> Content \<Rightarrow> Content" where
  "EnsureNonemptyContent toolName content =
     (let marker = TextContent (EmptyToolResultMessage toolName) in
      if \<not> ct_isText content \<and> ct_Blocks content = None then marker
      else if ct_isText content then (if PyStrip (ct_Text content) = [] then marker else content)
      else if blocks content = [] then marker
      else
        let (allText, textPayload) = all_text (blocks content) [] in
        if allText \<and> PyStrip textPayload = [] then marker else content)"

definition RenderToolResultReference :: "string \<Rightarrow> int \<Rightarrow> string \<Rightarrow> bool \<Rightarrow> int \<Rightarrow> string" where
  "RenderToolResultReference referencePath originalSize preview truncatedPreview maxChars =
     (let nl = [CHR 0x0A];
          result = ''[tool output persisted]'' @ nl @ ''Full output saved to workspace path: '' @ referencePath
            @ nl @ ''Original size: '' @ Itoa originalSize @ '' chars'' @ nl @ ''Preview:'' @ nl @ preview
            @ (if truncatedPreview then nl @ ''...'' @ nl @ ''Preview is also truncated.'' else [])
            @ nl @ ''Result truncated. Read the saved file if you need the complete output.''
      in if 0 < maxChars \<and> maxChars < int (length result) then ''[truncated: '' @ referencePath @ '']'' else result)"

section \<open>Offloading\<close>

type_synonym result_files = "string \<Rightarrow> string option"

text \<open>
  The directory entries with the flag of a directory (\<open>None\<close> when it cannot be read), modification
  times in seconds (a missing directory has the zero time), whether the calls that make the bucket and
  write the file succeed, and the path a reader is given.
\<close>

record result_io =
  ri_MkdirAll :: bool
  ri_ReadDir :: "(string \<times> bool) list option"
  ri_ModTime :: "string \<Rightarrow> int"
  ri_Now :: int
  ri_Write :: bool
  ri_Resolve :: "string \<Rightarrow> string"

definition RemoveAll :: "string \<Rightarrow> result_files \<Rightarrow> result_files" where
  "RemoveAll p fs = (\<lambda>q. if q = p \<or> HasPrefix q (p @ ''/'') then None else fs q)"

text \<open>The buckets the cleanup removes, in order: the stale ones, then all but the newest.\<close>

definition stale_buckets :: "result_io \<Rightarrow> string \<Rightarrow> string \<Rightarrow> string list" where
  "stale_buckets io root current =
     (case ri_ReadDir io of
        None \<Rightarrow> []
      | Some entries \<Rightarrow>
          let siblings = filter (\<lambda>p. p \<noteq> current)
                           (map (\<lambda>e. path_Join [root, fst e]) (filter snd entries));
              cutoff = ri_Now io - toolResultRetentionSecs;
              stale = filter (\<lambda>p. ri_ModTime io p < cutoff) siblings;
              kept = filter (\<lambda>p. \<not> ri_ModTime io p < cutoff) siblings;
              keep = toolResultMaxBuckets - 1
          in stale @ (if length kept \<le> keep then []
                      else drop keep (SliceStable (\<lambda>p q. ri_ModTime io q < ri_ModTime io p) kept)))"

definition cleanupToolResultBuckets :: "result_io \<Rightarrow> string \<Rightarrow> string \<Rightarrow> result_files \<Rightarrow> result_files" where
  "cleanupToolResultBuckets io root current fs = fold RemoveAll (stale_buckets io root current) fs"

definition result_bucket :: "string \<Rightarrow> string \<Rightarrow> string" where
  "result_bucket workspace sessionKey =
     (let name = SafeFilename sessionKey;
          name = (if name = [] then ''default'' else name)
      in path_Join [path_Join [workspace, toolResultsDir], name])"

definition result_path :: "string \<Rightarrow> string \<Rightarrow> string \<Rightarrow> string" where
  "result_path workspace sessionKey toolCallID =
     path_Join [result_bucket workspace sessionKey, SafeFilename toolCallID @ ''.txt'']"

definition MaybePersistToolResult ::
  "result_io \<Rightarrow> string \<Rightarrow> string \<Rightarrow> string \<Rightarrow> string \<Rightarrow> int \<Rightarrow> result_files \<Rightarrow> result_files \<times> string" where
  "MaybePersistToolResult io workspace sessionKey toolCallID content maxChars fs =
     (if workspace = [] \<or> maxChars \<le> 0 \<or> int (length content) \<le> maxChars then (fs, content)
      else if \<not> ri_MkdirAll io then (fs, TruncateText content maxChars)
      else
        let root = path_Join [workspace, toolResultsDir];
            fs = cleanupToolResultBuckets io root (result_bucket workspace sessionKey) fs;
            path = result_path workspace sessionKey toolCallID
        in if fs path = None \<and> \<not> ri_Write io then (fs, TruncateText content maxChars)
           else
             let fs = (if fs path = None then fs(path \<mapsto> content) else fs);
                 cut = toolResultPreviewChars < length content;
                 preview = (if cut then take toolResultPreviewChars content else content)
             in (fs, RenderToolResultReference (ri_Resolve io path) (int (length content)) preview cut maxChars))"

definition persist_text ::
  "result_io \<Rightarrow> string \<Rightarrow> string \<Rightarrow> int \<Rightarrow> string \<Rightarrow> string \<Rightarrow> result_files \<Rightarrow> result_files \<times> string" where
  "persist_text io workspace sessionKey maxChars s callID fs =
     (let (fs, out) = MaybePersistToolResult io workspace sessionKey callID s maxChars fs
      in (fs, if workspace = [] then TruncateText out maxChars else out))"

fun persist_blocks ::
  "result_io \<Rightarrow> string \<Rightarrow> string \<Rightarrow> int \<Rightarrow> string \<Rightarrow> nat \<Rightarrow> ContentBlock list \<Rightarrow> result_files
   \<Rightarrow> result_files \<times> ContentBlock list \<times> bool" where
  "persist_blocks io workspace sessionKey maxChars callID i [] fs = (fs, [], False)"
| "persist_blocks io workspace sessionKey maxChars callID i (b # bs) fs =
     (if cb_Type b \<noteq> ''text'' then
        let (fs, bs', changed) = persist_blocks io workspace sessionKey maxChars callID (Suc i) bs fs
        in (fs, b # bs', changed)
      else
        let (fs, nxt) = persist_text io workspace sessionKey maxChars (cb_Text b)
                          (callID @ ''_text_'' @ Itoa (int i)) fs;
            (fs, bs', changed) = persist_blocks io workspace sessionKey maxChars callID (Suc i) bs fs
        in if nxt \<noteq> cb_Text b then (fs, b\<lparr>cb_Text := nxt\<rparr> # bs', True) else (fs, b # bs', changed))"

definition NormalizeToolResult ::
  "result_io \<Rightarrow> string \<Rightarrow> string \<Rightarrow> string \<Rightarrow> string \<Rightarrow> Content \<Rightarrow> int \<Rightarrow> result_files \<Rightarrow> result_files \<times> Content" where
  "NormalizeToolResult io workspace sessionKey toolCallID toolName content maxChars fs =
     (let content = EnsureNonemptyContent toolName content in
      if toolResultOffloadExempt toolName then (fs, content)
      else if ct_isText content then
        let (fs, out) = persist_text io workspace sessionKey maxChars (ct_Text content) toolCallID fs
        in (fs, TextContent out)
      else if blocks content = [] then (fs, content)
      else
        let (fs, bs, changed) = persist_blocks io workspace sessionKey maxChars toolCallID 0 (blocks content) fs
        in (fs, if changed then BlockContent bs else content))"

section \<open>What is kept\<close>

text \<open>
  An oversized text that meets a free path and a working file system is kept in full under that path,
  whatever the cleanup removes; the cleanup itself never adds or changes a file.
\<close>

lemma RemoveAll_sub: "RemoveAll p fs \<subseteq>\<^sub>m fs"
  by (auto simp: RemoveAll_def map_le_def dom_def)

lemma cleanup_sub: "cleanupToolResultBuckets io root current fs \<subseteq>\<^sub>m fs"
proof -
  have "fold RemoveAll ps fs \<subseteq>\<^sub>m fs" for ps
    by (induction ps arbitrary: fs) (auto intro: map_le_trans [OF _ RemoveAll_sub])
  then show ?thesis by (simp add: cleanupToolResultBuckets_def)
qed

lemma oversized_kept:
  assumes "MaybePersistToolResult io ws key i content maxChars fs = (fs', out)"
    "ws \<noteq> []" "0 < maxChars" "maxChars < int (length content)" "ri_MkdirAll io" "ri_Write io"
    "fs (result_path ws key i) = None"
  shows "fs' (result_path ws key i) = Some content"
proof -
  have "cleanupToolResultBuckets io root current fs (result_path ws key i) = None" for root current
    using cleanup_sub [of io root current fs] assms(7) by (auto simp: map_le_def dom_def)
  then show ?thesis using assms by (auto simp: MaybePersistToolResult_def Let_def)
qed

text \<open>A path that is taken keeps what it has, though the reference says the full output was saved.\<close>

lemma taken_path_kept:
  assumes "MaybePersistToolResult io ws key i content maxChars fs = (fs', out)"
    "stale_buckets io (path_Join [ws, toolResultsDir]) (result_bucket ws key) = []"
    "fs (result_path ws key i) = Some old"
  shows "fs' (result_path ws key i) = Some old"
  using assms by (auto simp: MaybePersistToolResult_def Let_def cleanupToolResultBuckets_def split: if_splits)

end
