(* ===== verification/Runner.thy ===== *)
theory Runner
  imports Tools Toolresult
begin

text \<open>
  The turn runner, \<^verbatim>\<open>internal/agent/runner.go\<close>: the loop of model requests and tool calls, with the
  retry of transient failures, streaming, batches of tools that run in parallel, the retry of empty
  answers, the continuation of truncated ones, and the salvage of an exhausted budget.

  What the code calls outside the modelled sources is the record \<open>run_env\<close>: the context, the hook, the
  provider, the timer and the scheduler, as functions on the state \<open>'w\<close> of the world. A provider that
  streams delivers the list of its events and how the stream ends for the reader: closed, or the
  context done first. Goroutines of one batch of tools are interleaved by the scheduler, a list of
  worker numbers (each with the choice a \<^verbatim>\<open>select\<close> makes when both of its cases are ready); taking a
  slot, the start notice, the work of the tool, and the end notice with the release are one step each.
  The trace records the calls of the hook, the requests handed to the provider, and the sleeps.
  Metrics are left out, and so is the route that is only put into the context of the tools.
\<close>

section \<open>Data\<close>

type_synonym StopReason = string

definition StopCompleted :: StopReason where "StopCompleted = ''completed''"
definition StopMaxIterations :: StopReason where "StopMaxIterations = ''max_iterations''"
definition StopError :: StopReason where "StopError = ''error''"
definition StopCanceled :: StopReason where "StopCanceled = ''cancelled''"
definition StopEmptyFinalResponse :: StopReason where "StopEmptyFinalResponse = ''empty_final_response''"

lemmas stop_defs = StopCompleted_def StopMaxIterations_def StopError_def StopCanceled_def StopEmptyFinalResponse_def

definition DefaultError :: string where
  "DefaultError = ''Sorry, I encountered an error calling the AI model.''"

definition ArrearageError :: string where
  "ArrearageError = ''The AI provider rejected the request because the API key is out of quota or the ''
     @ ''account is in arrears. Please top up / check the billing status of your API key and try again.''"

definition maxEmptyRetries :: nat where "maxEmptyRetries = 2"

definition PersistedModelErrorPlaceholder :: string where
  "PersistedModelErrorPlaceholder = ''[Assistant reply unavailable due to model error.]''"

definition EmptyFinalResponseMessage :: string where
  "EmptyFinalResponseMessage = ''I completed the tool steps but couldn'' @ [CHR 0x27] @ ''t produce a final answer. ''
     @ ''Please try again or narrow the task.''"

definition DefaultMaxToolIterations :: int where "DefaultMaxToolIterations = 200"
definition DefaultMaxToolResultChars :: int where "DefaultMaxToolResultChars = 16000"
definition MaxLengthRecoveries :: nat where "MaxLengthRecoveries = 3"
definition LengthRecoveryTailChars :: nat where "LengthRecoveryTailChars = 64"

definition LengthRecoveryPrompt :: string where
  "LengthRecoveryPrompt = ''The previous assistant response was cut off. ''
     @ ''Continue the same response from its exact endpoint. Output only new ''
     @ ''continuation text in the same language and style. Do not acknowledge this ''
     @ ''instruction, restart the response, repeat its title or any existing text, ''
     @ ''recap, or apologize.''"

definition BudgetExhaustedFinalizationPrompt :: string where
  "BudgetExhaustedFinalizationPrompt = ''The tool-call budget for this turn is exhausted. ''
     @ ''Based only on the conversation and tool results above, provide a concise final ''
     @ ''response to the user. Do not call or request tools. Do not claim the task is ''
     @ ''complete unless the evidence above clearly shows it is complete. State what was ''
     @ ''done, what remains, and the best next step if anything is incomplete.''"

record 'w RunSpec =
  sp_Messages :: "Message list"
  sp_Tools :: "'w Registry option"
  sp_Model :: string
  sp_RetryDelays :: "float64 list option"
  sp_Workspace :: string
  sp_ContextWindowTokens :: int
  sp_MaxIterations :: int
  sp_MaxToolResultChars :: int
  sp_MaxTokens :: int
  sp_Temperature :: float64
  sp_ReasoningEffort :: string
  sp_ConcurrentTools :: bool
  sp_MaxParallelTools :: int
  sp_SessionKey :: string
  sp_ErrorMessage :: string
  sp_MaxIterationsMessage :: string
  sp_FinalizeOnMaxIterations :: "bool option"

definition withDefaults :: "'w RunSpec \<Rightarrow> 'w RunSpec" where
  "withDefaults s =
     s\<lparr>sp_MaxIterations := (if sp_MaxIterations s \<le> 0 then DefaultMaxToolIterations else sp_MaxIterations s),
       sp_MaxToolResultChars :=
         (if sp_MaxToolResultChars s \<le> 0 then DefaultMaxToolResultChars else sp_MaxToolResultChars s),
       sp_MaxTokens := (if sp_MaxTokens s \<le> 0 then 8192 else sp_MaxTokens s),
       sp_ErrorMessage := (if sp_ErrorMessage s = [] then DefaultError else sp_ErrorMessage s)\<rparr>"

record RunResult =
  rr_FinalContent :: string
  rr_Messages :: "Message list"
  rr_ToolsUsed :: "string list"
  rr_Usage :: "Usage option"
  rr_StopReason :: StopReason
  rr_Error :: string

datatype run_event =
    BeforeIteration int "Message list"
  | OnTextDelta string
  | OnReasoningDelta string
  | OnReasoningEnd
  | OnToolStart ToolCall
  | OnToolEnd ToolCall ToolResult
  | Requested ChatRequest
  | Slept int

datatype stream_end = Closed | Cancelled go_error

record 'w run_env =
  en_Tokens :: tokenizer
  en_Lower :: "nat \<Rightarrow> nat"
  en_Printable :: "nat \<Rightarrow> bool"
  en_CtxErr :: "'w \<Rightarrow> go_error option"
  en_Before :: "int \<Rightarrow> Message list \<Rightarrow> 'w \<Rightarrow> 'w \<times> string option"
  en_Hook :: "run_event \<Rightarrow> 'w \<Rightarrow> 'w"
  en_Chat :: "ChatRequest \<Rightarrow> 'w \<Rightarrow> 'w \<times> (go_error + Response)"
  en_Stream :: "(ChatRequest \<Rightarrow> 'w \<Rightarrow> 'w \<times> (go_error + StreamEvent list \<times> stream_end)) option"
  en_Sleep :: "int \<Rightarrow> 'w \<Rightarrow> 'w \<times> bool"
  en_Sched :: "nat list \<Rightarrow> 'w \<Rightarrow> (nat \<times> bool) list"
  en_IO :: "'w \<Rightarrow> result_io"

record 'w run_state =
  rs_World :: 'w
  rs_Trace :: "run_event list"
  rs_Cache :: tools_cache
  rs_Files :: result_files

definition note_event :: "run_event \<Rightarrow> 'w run_state \<Rightarrow> 'w run_state" where
  "note_event ev st = st\<lparr>rs_Trace := rs_Trace st @ [ev]\<rparr>"

definition hook :: "'w run_env \<Rightarrow> run_event \<Rightarrow> 'w run_state \<Rightarrow> 'w run_state" where
  "hook env ev st = (note_event ev st)\<lparr>rs_World := en_Hook env ev (rs_World st)\<rparr>"

section \<open>Texts and messages\<close>

definition IsBlankText :: "string \<Rightarrow> bool" where
  "IsBlankText content \<longleftrightarrow> PyStrip content = []"

definition EmptyRetryEligible :: "FinishReason \<Rightarrow> string \<Rightarrow> bool" where
  "EmptyRetryEligible finishReason clean \<longleftrightarrow>
     (if finishReason \<in> {FinishError, FinishLength, FinishRefusal, FinishContentFilter} then False
      else IsBlankText clean)"

definition RestoreOuterWhitespace :: "string \<Rightarrow> string \<Rightarrow> string" where
  "RestoreOuterWhitespace content original =
     (if original = [] then content
      else
        let leadingSize = length original - length (PyLStrip original);
            trailingSize = length original - length (PyRStrip original);
            leading = take leadingSize original;
            trailing = (if 0 < trailingSize then drop (length original - trailingSize) original else [])
        in leading @ content @ trailing)"

definition BuildLengthRecoveryMessage :: "string \<Rightarrow> Message" where
  "BuildLengthRecoveryMessage content =
     (let rs = runes content;
          tl = (if LengthRecoveryTailChars < length content \<and> LengthRecoveryTailChars < length rs
                then runes_string (drop (length rs - LengthRecoveryTailChars) rs) else content);
          nl = [CHR 0x0A]
      in NewMessage RoleUser
           (LengthRecoveryPrompt @ nl @ nl
            @ ''The following tail was already delivered to the user. Treat it as immutable ''
            @ ''context and do not output it again:'' @ nl
            @ ''<already_delivered_tail>'' @ nl @ tl @ nl @ ''</already_delivered_tail>'' @ nl
            @ ''Begin with the text that belongs immediately after this tail.''))"

definition assistantMessage :: "Response \<Rightarrow> string \<Rightarrow> ToolCall list \<Rightarrow> Message" where
  "assistantMessage resp clean toolCalls =
     (NewMessage RoleAssistant clean)\<lparr>ToolCalls := toolCalls, ReasoningContent := rs_ReasoningContent resp,
        ThinkingBlocks := rs_ThinkingBlocks resp\<rparr>"

definition toolMessage ::
  "'w run_env \<Rightarrow> 'w RunSpec \<Rightarrow> ToolResult \<Rightarrow> string \<Rightarrow> 'w run_state \<Rightarrow> 'w run_state \<times> Message" where
  "toolMessage env spec tr toolName st =
     (let (fs, content) = NormalizeToolResult (en_IO env (rs_World st)) (sp_Workspace spec) (sp_SessionKey spec)
            (tr_CallID tr) toolName (TextContent (tr_Content tr)) (sp_MaxToolResultChars spec) (rs_Files st)
      in (st\<lparr>rs_Files := fs\<rparr>,
          (NewMessage RoleTool [])\<lparr>Content := content, ToolCallID := tr_CallID tr, Name := toolName\<rparr>))"

definition validCalls :: "ToolCall list \<Rightarrow> ToolCall list" where
  "validCalls calls = filter HasValidName calls"

definition ends_in_reply :: "Message list \<Rightarrow> bool" where
  "ends_in_reply messages \<longleftrightarrow>
     messages \<noteq> [] \<and> Role (last messages) = RoleAssistant \<and> ToolCalls (last messages) = []"

definition AppendFinalMessage :: "Message list \<Rightarrow> string \<Rightarrow> Message list" where
  "AppendFinalMessage messages content =
     (if content = [] then messages
      else if ends_in_reply messages then
        (if ct_isText (Content (last messages)) \<and> ct_Text (Content (last messages)) = content then messages
         else butlast messages @ [NewMessage RoleAssistant content])
      else messages @ [NewMessage RoleAssistant content])"

definition AppendModelErrorPlaceholder :: "Message list \<Rightarrow> Message list" where
  "AppendModelErrorPlaceholder messages =
     (if ends_in_reply messages then messages
      else messages @ [NewMessage RoleAssistant PersistedModelErrorPlaceholder])"

definition isArrearage :: "(nat \<Rightarrow> nat) \<Rightarrow> Response \<Rightarrow> bool" where
  "isArrearage lower r \<longleftrightarrow>
     rs_ErrorType r = ''insufficient_quota''
     \<or> containsAny (ToLower lower (rs_Content r @ '' '' @ rs_ErrorCode r @ '' '' @ rs_ErrorType r))
         [''insufficient_quota'', ''out of quota'', ''arrears'', ''billing'']"

definition errorResponseFromException :: "(nat \<Rightarrow> nat) \<Rightarrow> go_error \<Rightarrow> Response" where
  "errorResponseFromException lower err =
     (let detail = PyStrip (ge_Error err);
          detail = (if detail = [] then ge_TypeName err else detail);
          resp = new_response (''Error calling LLM: '' @ detail) FinishError
      in case ge_HTTP err of
           Some he \<Rightarrow>
             let code = he_StatusCode he;
                 kind = (if code = 429 then ''rate_limit'' else if 500 \<le> code then ''server_error''
                         else if code = 401 \<or> code = 403 then ''authentication'' else []);
                 resp = resp\<lparr>rs_ErrorStatusCode := Some code, rs_ErrorKind := kind,
                             rs_ErrorShouldRetry := Some (Retryable he)\<rparr>
             in if f64_less (FZero False) (he_RetryAfter he)
                then resp\<lparr>rs_ErrorRetryAfterS := Some (he_RetryAfter he), rs_RetryAfter := Some (he_RetryAfter he)\<rparr>
                else resp
         | None \<Rightarrow>
             if ge_Deadline err then resp\<lparr>rs_ErrorKind := ''timeout'', rs_ErrorShouldRetry := Some True\<rparr>
             else if IsTransientErrorText lower detail
             then resp\<lparr>rs_ErrorKind := ''connection'', rs_ErrorShouldRetry := Some True\<rparr>
             else resp)"

text \<open>\<^verbatim>\<open>strings.ReplaceAll\<close> with a non-empty pattern.\<close>

function ReplaceAll :: "string \<Rightarrow> string \<Rightarrow> string \<Rightarrow> string" where
  "ReplaceAll s old new =
     (case s of
        [] \<Rightarrow> []
      | c # rest \<Rightarrow>
          if old \<noteq> [] \<and> HasPrefix s old then new @ ReplaceAll (drop (length old) s) old new
          else c # ReplaceAll rest old new)"
  by pat_completeness auto
termination
  by (relation "measure (\<lambda>(s, old, new). length s)") auto

declare ReplaceAll.simps [simp del]

definition maxIterationsMessage :: "'w RunSpec \<Rightarrow> string" where
  "maxIterationsMessage spec =
     (if sp_MaxIterationsMessage spec \<noteq> []
      then ReplaceAll (sp_MaxIterationsMessage spec) ''{max_iterations}'' (Itoa (sp_MaxIterations spec))
      else ''I reached the maximum number of tool call iterations ('' @ Itoa (sp_MaxIterations spec)
        @ '') without completing the task. You can try breaking the task into smaller steps.'')"

definition shouldFinalizeOnMaxIterations :: "'w RunSpec \<Rightarrow> bool" where
  "shouldFinalizeOnMaxIterations spec =
     (case sp_FinalizeOnMaxIterations spec of Some b \<Rightarrow> b | None \<Rightarrow> True)"

section \<open>Streams\<close>

record streamPartial =
  pt_id :: string
  pt_name :: string
  pt_args :: string

record stream_acc =
  sa_text :: string
  sa_reasoning :: string
  sa_partials :: "int \<Rightarrow> streamPartial option"
  sa_order :: "int list"
  sa_final :: "Response option"
  sa_open :: bool

definition new_acc :: stream_acc where
  "new_acc = \<lparr>sa_text = [], sa_reasoning = [], sa_partials = (\<lambda>_. None), sa_order = [], sa_final = None,
     sa_open = False\<rparr>"

definition stream_call :: "streamPartial \<Rightarrow> ToolCall" where
  "stream_call p =
     (let args = PyStrip (pt_args p);
          args = (if args = [] then ''{}'' else args)
      in \<lparr>tc_ID = pt_id p, tc_Name = pt_name p, tc_Arguments = args, tc_ExtraContent = [],
          tc_ProviderSpecificFields = [], tc_FunctionProviderSpecific = []\<rparr>)"

definition finishStream :: "stream_acc \<Rightarrow> Response" where
  "finishStream a =
     (case sa_final a of
        Some r \<Rightarrow> r
      | None \<Rightarrow>
          let calls = map (\<lambda>idx. stream_call (the (sa_partials a idx))) (sa_order a)
          in (new_response (sa_text a) (if calls \<noteq> [] then FinishToolCalls else FinishStop))
               \<lparr>rs_HasContent := (sa_text a \<noteq> []), rs_ReasoningContent := sa_reasoning a, rs_ToolCalls := calls\<rparr>)"

definition closeNativeReasoning :: "'w run_env \<Rightarrow> stream_acc \<Rightarrow> 'w run_state \<Rightarrow> stream_acc \<times> 'w run_state" where
  "closeNativeReasoning env a st =
     (if sa_open a then (a\<lparr>sa_open := False\<rparr>, hook env OnReasoningEnd st) else (a, st))"

definition add_fragment :: "StreamEvent \<Rightarrow> stream_acc \<Rightarrow> stream_acc" where
  "add_fragment ev a =
     (let idx = se_Index ev;
          a = (if sa_partials a idx = None
               then a\<lparr>sa_partials := (sa_partials a)(idx \<mapsto> \<lparr>pt_id = [], pt_name = [], pt_args = []\<rparr>),
                      sa_order := sa_order a @ [idx]\<rparr>
               else a);
          p = the (sa_partials a idx);
          p = \<lparr>pt_id = (if se_ToolCallID ev \<noteq> [] then se_ToolCallID ev else pt_id p),
               pt_name = (if se_ToolCallName ev \<noteq> [] then se_ToolCallName ev else pt_name p),
               pt_args = pt_args p @ se_ArgumentsDelta ev\<rparr>
      in a\<lparr>sa_partials := (sa_partials a)(idx \<mapsto> p)\<rparr>)"

text \<open>One event: the accumulator, the flag of the caller, and the state.\<close>

definition stream_event ::
  "'w run_env \<Rightarrow> StreamEvent \<Rightarrow> stream_acc \<times> bool \<times> 'w run_state \<Rightarrow> stream_acc \<times> bool \<times> 'w run_state" where
  "stream_event env ev s =
     (case s of (a, streamed, st) \<Rightarrow>
       (case se_Kind ev of
          StreamText \<Rightarrow>
            let a = a\<lparr>sa_text := sa_text a @ se_Text ev\<rparr>;
                (a, st) = (if se_Text ev \<noteq> [] then closeNativeReasoning env a st else (a, st))
            in (a, streamed, hook env (OnTextDelta (se_Text ev)) st)
        | StreamReasoning \<Rightarrow>
            let a = a\<lparr>sa_reasoning := sa_reasoning a @ se_Text ev\<rparr>;
                st = hook env (OnReasoningDelta (se_Text ev)) st
            in if se_Text ev \<noteq> [] then (a\<lparr>sa_open := True\<rparr>, True, st) else (a, streamed, st)
        | StreamToolCall \<Rightarrow> (add_fragment ev a, streamed, st)
        | StreamUsage \<Rightarrow> (a, streamed, st)
        | StreamDone \<Rightarrow> (if se_Response ev \<noteq> None then a\<lparr>sa_final := se_Response ev\<rparr> else a, streamed, st)))"

definition consumeStream ::
  "'w run_env \<Rightarrow> StreamEvent list \<Rightarrow> stream_end \<Rightarrow> bool \<Rightarrow> 'w run_state \<Rightarrow> (go_error + Response) \<times> bool \<times> 'w run_state" where
  "consumeStream env events ending streamed st =
     (let (a, streamed, st) = fold (stream_event env) events (new_acc, streamed, st);
          (a, st) = closeNativeReasoning env a st
      in case ending of
           Cancelled e \<Rightarrow> (Inl e, streamed, st)
         | Closed \<Rightarrow> (Inr (finishStream a), streamed, st))"

section \<open>Requests\<close>

definition fit_error :: "ContextWindowExceededError \<Rightarrow> go_error" where
  "fit_error e = \<lparr>ge_Error = ContextWindowExceededError_Error e, ge_TypeName = ''ContextWindowExceededError'',
     ge_HTTP = None, ge_Deadline = False\<rparr>"

definition tool_schemas :: "'w RunSpec \<Rightarrow> ToolSchema list" where
  "tool_schemas spec =
     (case sp_Tools spec of None \<Rightarrow> [] | Some r \<Rightarrow> if 0 < Registry_Len r then Schemas r else [])"

definition govern ::
  "'w run_env \<Rightarrow> 'w RunSpec \<Rightarrow> Message list \<Rightarrow> 'w run_state \<Rightarrow> 'w run_state \<times> (go_error + Message list)" where
  "govern env spec messages st =
     (let messages = PrepareForModel messages;
          tools = tool_schemas spec;
          T = en_Tokens env
      in if 0 < sp_ContextWindowTokens spec then
           let (c, _, pressured) =
                 RequestPressure T (rs_Cache st) messages tools (sp_ContextWindowTokens spec) (Some (sp_MaxTokens spec));
               st = st\<lparr>rs_Cache := c\<rparr>
           in if pressured then
                let (c, fitted) = FitToBudget T (rs_Cache st) messages tools (sp_ContextWindowTokens spec)
                                    (Some (sp_MaxTokens spec)) (sp_SessionKey spec);
                    st = st\<lparr>rs_Cache := c\<rparr>
                in (case fitted of Inl e \<Rightarrow> (st, Inl (fit_error e)) | Inr ms \<Rightarrow> (st, Inr ms))
              else (st, Inr messages)
         else (st, Inr messages))"

definition chat_request :: "'w RunSpec \<Rightarrow> Message list \<Rightarrow> ChatRequest" where
  "chat_request spec messages =
     \<lparr>rq_Messages = messages, rq_Tools = tool_schemas spec, rq_Model = sp_Model spec,
      rq_MaxTokens = sp_MaxTokens spec, rq_Temperature = sp_Temperature spec,
      rq_ReasoningEffort = sp_ReasoningEffort spec\<rparr>"

definition requestModelOnce ::
  "'w run_env \<Rightarrow> 'w RunSpec \<Rightarrow> Message list \<Rightarrow> bool \<Rightarrow> 'w run_state \<Rightarrow> (go_error + Response) \<times> bool \<times> 'w run_state" where
  "requestModelOnce env spec messages streamed st =
     (let (st, governed) = govern env spec messages st in
      case governed of
        Inl e \<Rightarrow> (Inl e, streamed, st)
      | Inr messages \<Rightarrow>
          let req = chat_request spec messages;
              st = note_event (Requested req) st
          in (case en_Stream env of
                None \<Rightarrow>
                  let (w, resp) = en_Chat env req (rs_World st) in (resp, streamed, st\<lparr>rs_World := w\<rparr>)
              | Some chatStream \<Rightarrow>
                  let (w, res) = chatStream req (rs_World st);
                      st = st\<lparr>rs_World := w\<rparr>
                  in (case res of
                        Inl e \<Rightarrow> (Inl e, streamed, st)
                      | Inr (events, ending) \<Rightarrow> consumeStream env events ending streamed st)))"

text \<open>\<^verbatim>\<open>time.Duration(delay * float64(time.Second))\<close>.\<close>

definition delay_nanos :: "float64 \<Rightarrow> int" where
  "delay_nanos delay =
     f64_to_int64 (case delay of FNum x \<Rightarrow> round64 (x * 1000000000) | d \<Rightarrow> d)"

text \<open>The result says whether the wait ended without the context being done.\<close>

definition SleepWithContext :: "'w run_env \<Rightarrow> int \<Rightarrow> 'w run_state \<Rightarrow> 'w run_state \<times> bool" where
  "SleepWithContext env d st =
     (if d \<le> 0 then (st, en_CtxErr env (rs_World st) = None)
      else let (w, ok) = en_Sleep env d (rs_World st) in ((note_event (Slept d) st)\<lparr>rs_World := w\<rparr>, ok))"

definition retry_delays :: "'w RunSpec \<Rightarrow> float64 list" where
  "retry_delays spec = (case sp_RetryDelays spec of None \<Rightarrow> ChatRetryDelays | Some ds \<Rightarrow> ds)"

function request_loop ::
  "'w run_env \<Rightarrow> 'w RunSpec \<Rightarrow> Message list \<Rightarrow> nat \<Rightarrow> bool \<Rightarrow> 'w run_state \<Rightarrow> (go_error + Response) \<times> bool \<times> 'w run_state"
where
  "request_loop env spec messages attempt streamed st =
     (let delays = retry_delays spec in
      case requestModelOnce env spec messages streamed st of
        (Inl e, streamed, st) \<Rightarrow> (Inl e, streamed, st)
      | (Inr resp, streamed, st) \<Rightarrow>
          if rs_FinishReason resp \<noteq> FinishError then (Inr resp, streamed, st)
          else
            let (transient, retryAfter) = ClassifyResponse (en_Lower env) (Some resp) in
            if \<not> transient then (Inr resp, streamed, st)
            else if length delays < attempt then (Inr resp, streamed, st)
            else
              let delay = RetryDelay attempt retryAfter delays in
              if f64_less (FZero False) delay then
                let (st, ok) = SleepWithContext env (delay_nanos delay) st in
                if ok then request_loop env spec messages (Suc attempt) streamed st
                else (Inr resp, streamed, st)
              else request_loop env spec messages (Suc attempt) streamed st)"
  by pat_completeness auto
termination
  by (relation "measure (\<lambda>(env, spec, messages, attempt, streamed, st). Suc (length (retry_delays spec)) - attempt)") auto

declare request_loop.simps [simp del]

definition requestModel ::
  "'w run_env \<Rightarrow> 'w RunSpec \<Rightarrow> Message list \<Rightarrow> bool \<Rightarrow> 'w run_state \<Rightarrow> (go_error + Response) \<times> bool \<times> 'w run_state" where
  "requestModel env spec messages streamed st = request_loop env spec messages 1 streamed st"

section \<open>Tools\<close>

definition is_safe :: "'w Registry \<Rightarrow> ToolCall \<Rightarrow> bool" where
  "is_safe r c \<longleftrightarrow>
     (case Registry_Get r (tc_Name c) of None \<Rightarrow> False | Some t \<Rightarrow> IsConcurrencySafe t \<and> \<not> IsExclusive t)"

fun partition_loop :: "'w Registry \<Rightarrow> nat \<Rightarrow> nat list \<Rightarrow> ToolCall list \<Rightarrow> nat list list" where
  "partition_loop r i current [] = (if current \<noteq> [] then [current] else [])"
| "partition_loop r i current (c # calls) =
     (if is_safe r c then partition_loop r (Suc i) (current @ [i]) calls
      else (if current \<noteq> [] then [current] else []) @ [i] # partition_loop r (Suc i) [] calls)"

definition partitionBatches :: "'w Registry \<Rightarrow> ToolCall list \<Rightarrow> nat list list" where
  "partitionBatches r calls = partition_loop r 0 [] calls"

abbreviation ctx_error_text :: "'w run_env \<Rightarrow> 'w \<Rightarrow> string option" where
  "ctx_error_text env w \<equiv> map_option ge_Error (en_CtxErr env w)"

definition execute_call :: "'w run_env \<Rightarrow> 'w Registry \<Rightarrow> ToolCall \<Rightarrow> 'w run_state \<Rightarrow> 'w run_state \<times> ToolResult" where
  "execute_call env r call st =
     (let (w, res) = Registry_Execute (en_Printable env) (ctx_error_text env) r call (rs_World st)
      in (st\<lparr>rs_World := w\<rparr>, res))"

definition runOne :: "'w run_env \<Rightarrow> 'w Registry \<Rightarrow> ToolCall \<Rightarrow> 'w run_state \<Rightarrow> 'w run_state \<times> ToolResult" where
  "runOne env r call st =
     (let st = hook env (OnToolStart call) st;
          (st, res) = execute_call env r call st
      in (hook env (OnToolEnd call res) st, res))"

text \<open>The goroutines of a batch.\<close>

datatype tool_worker = Waiting | Ready | Running | Executed ToolResult | Finished ToolResult

definition slots_held :: "tool_worker list \<Rightarrow> nat" where
  "slots_held ws = length (filter (\<lambda>w. case w of Waiting \<Rightarrow> False | Finished _ \<Rightarrow> False | _ \<Rightarrow> True) ws)"

definition cancel_result :: "'w run_env \<Rightarrow> ToolCall \<Rightarrow> go_error \<Rightarrow> ToolResult" where
  "cancel_result env call e =
     error_result call (''Error: tool '' @ Quote (en_Printable env) (tc_Name call) @ '' canceled: '' @ ge_Error e)"

definition take_slot :: "'w run_env \<Rightarrow> 'w RunSpec \<Rightarrow> ToolCall \<Rightarrow> bool \<Rightarrow> tool_worker list \<Rightarrow> 'w run_state \<Rightarrow> tool_worker" where
  "take_slot env spec call prefer_done ws st =
     (if sp_MaxParallelTools spec \<le> 0 then Ready
      else
        let free = int (slots_held ws) < sp_MaxParallelTools spec in
        case en_CtxErr env (rs_World st) of
          None \<Rightarrow> if free then Ready else Waiting
        | Some e \<Rightarrow> if free \<and> \<not> prefer_done then Ready else Finished (cancel_result env call e))"

definition worker_step ::
  "'w run_env \<Rightarrow> 'w RunSpec \<Rightarrow> 'w Registry \<Rightarrow> ToolCall list \<Rightarrow> nat \<times> bool \<Rightarrow> tool_worker list \<times> 'w run_state
   \<Rightarrow> tool_worker list \<times> 'w run_state" where
  "worker_step env spec r calls choice s =
     (case (choice, s) of ((i, prefer_done), (ws, st)) \<Rightarrow>
        if length ws \<le> i then (ws, st)
        else
          let call = calls ! i in
          case ws ! i of
            Waiting \<Rightarrow> (ws[i := take_slot env spec call prefer_done ws st], st)
          | Ready \<Rightarrow> (ws[i := Running], hook env (OnToolStart call) st)
          | Running \<Rightarrow> let (st, res) = execute_call env r call st in (ws[i := Executed res], st)
          | Executed res \<Rightarrow> (ws[i := Finished res], hook env (OnToolEnd call res) st)
          | Finished res \<Rightarrow> (ws, st))"

text \<open>
  The scheduler runs first; workers it has not brought to their end are then finished one by one,
  twice over, since one that waits for a slot may have to let the others finish.
\<close>

definition drain_order :: "nat \<Rightarrow> (nat \<times> bool) list" where
  "drain_order n = concat (map (\<lambda>i. replicate 4 (i, False)) ([0..<n] @ [0..<n]))"

definition run_batch ::
  "'w run_env \<Rightarrow> 'w RunSpec \<Rightarrow> 'w Registry \<Rightarrow> ToolCall list \<Rightarrow> (nat \<times> bool) list \<Rightarrow> 'w run_state
   \<Rightarrow> tool_worker list \<times> 'w run_state" where
  "run_batch env spec r calls sched st =
     fold (worker_step env spec r calls) (sched @ drain_order (length calls)) (replicate (length calls) Waiting, st)"

definition worker_result :: "tool_worker \<Rightarrow> ToolResult" where
  "worker_result w = (case w of Executed res \<Rightarrow> res | Finished res \<Rightarrow> res
     | _ \<Rightarrow> \<lparr>tr_CallID = [], tr_Content = [], tr_IsError = False\<rparr>)"

definition empty_result :: ToolResult where
  "empty_result = \<lparr>tr_CallID = [], tr_Content = [], tr_IsError = False\<rparr>"

fun write_results :: "nat list \<Rightarrow> ToolResult list \<Rightarrow> ToolResult list \<Rightarrow> ToolResult list" where
  "write_results (i # is) (x # xs) out = write_results is xs (out[i := x])"
| "write_results _ _ out = out"

fun run_sequence ::
  "'w run_env \<Rightarrow> 'w Registry \<Rightarrow> ToolCall list \<Rightarrow> nat list \<Rightarrow> ToolResult list \<times> 'w run_state \<Rightarrow> ToolResult list \<times> 'w run_state"
where
  "run_sequence env r calls [] s = s"
| "run_sequence env r calls (i # is) s =
     (case s of (out, st) \<Rightarrow>
        let (st, res) = runOne env r (calls ! i) st in run_sequence env r calls is (out[i := res], st))"

definition execute_batch ::
  "'w run_env \<Rightarrow> 'w RunSpec \<Rightarrow> 'w Registry \<Rightarrow> ToolCall list \<Rightarrow> nat list \<Rightarrow> ToolResult list \<times> 'w run_state
   \<Rightarrow> ToolResult list \<times> 'w run_state" where
  "execute_batch env spec r calls batch s =
     (if length batch = 1 \<or> \<not> sp_ConcurrentTools spec then run_sequence env r calls batch s
      else
        case s of (out, st) \<Rightarrow>
          let (ws, st) = run_batch env spec r (map (\<lambda>i. calls ! i) batch) (en_Sched env batch (rs_World st)) st
          in (write_results batch (map worker_result ws) out, st))"

definition executeTools ::
  "'w run_env \<Rightarrow> 'w RunSpec \<Rightarrow> ToolCall list \<Rightarrow> 'w run_state \<Rightarrow> ToolResult list \<times> 'w run_state" where
  "executeTools env spec calls st =
     (case sp_Tools spec of
        None \<Rightarrow>
          (map (\<lambda>c. error_result c (''Error: unknown tool '' @ Quote (en_Printable env) (tc_Name c)
                                     @ '' (no tools registered).'')) calls, st)
      | Some r \<Rightarrow>
          fold (execute_batch env spec r calls) (partitionBatches r calls)
            (replicate (length calls) empty_result, st))"

fun tool_messages ::
  "'w run_env \<Rightarrow> 'w RunSpec \<Rightarrow> ToolCall list \<Rightarrow> ToolResult list \<Rightarrow> 'w run_state \<Rightarrow> Message list \<times> 'w run_state" where
  "tool_messages env spec (c # calls) (tr # results) st =
     (let (st, m) = toolMessage env spec tr (tc_Name c) st;
          (ms, st) = tool_messages env spec calls results st
      in (m # ms, st))"
| "tool_messages env spec _ _ st = ([], st)"

section \<open>The run\<close>

definition finalizeAfterMaxIterations ::
  "'w run_env \<Rightarrow> 'w RunSpec \<Rightarrow> Message list \<Rightarrow> 'w run_state \<Rightarrow> string option \<times> 'w run_state" where
  "finalizeAfterMaxIterations env spec messages st =
     (if \<not> shouldFinalizeOnMaxIterations spec then (None, st)
      else
        let noTools = spec\<lparr>sp_Tools := None\<rparr>;
            retryMessages = messages @ [NewMessage RoleUser BudgetExhaustedFinalizationPrompt];
            (res, _, st) = requestModelOnce env noTools retryMessages False st
        in case res of
             Inl _ \<Rightarrow> (None, st)
           | Inr resp \<Rightarrow>
               if rs_FinishReason resp = FinishError \<or> 0 < length (rs_ToolCalls resp) then (None, st)
               else
                 let clean = StripThink (rs_Content resp) in
                 if IsBlankText clean then (None, st) else (Some clean, st))"

record loop_state =
  ls_messages :: "Message list"
  ls_result :: RunResult
  ls_usage :: Usage
  ls_usageSeen :: bool
  ls_seenTools :: "string set"
  ls_emptyRetries :: nat
  ls_lengthParts :: "string list"

datatype step_outcome = Continue loop_state | Break loop_state | Return RunResult

fun use_tools :: "ToolCall list \<Rightarrow> string set \<Rightarrow> string list \<Rightarrow> string set \<times> string list" where
  "use_tools [] seen used = (seen, used)"
| "use_tools (c # calls) seen used =
     (if tc_Name c \<in> seen then use_tools calls seen used
      else use_tools calls (insert (tc_Name c) seen) (used @ [tc_Name c]))"

text \<open>The branch for a response that calls tools.\<close>

definition tool_branch ::
  "'w run_env \<Rightarrow> 'w RunSpec \<Rightarrow> int \<Rightarrow> Response \<Rightarrow> string \<Rightarrow> ToolCall list \<Rightarrow> loop_state \<Rightarrow> 'w run_state
   \<Rightarrow> step_outcome \<times> 'w run_state" where
  "tool_branch env spec iteration resp clean calls ls st =
     (let (seen, used) = use_tools calls (ls_seenTools ls) (rr_ToolsUsed (ls_result ls));
          ls = ls\<lparr>ls_seenTools := seen, ls_result := (ls_result ls)\<lparr>rr_ToolsUsed := used\<rparr>, ls_lengthParts := []\<rparr>;
          messages = ls_messages ls @ [assistantMessage resp clean calls];
          (results, st) = executeTools env spec calls st;
          (tms, st) = tool_messages env spec calls results st;
          messages = messages @ tms
      in if iteration = sp_MaxIterations spec - 1 then
           let (salvaged, st) = finalizeAfterMaxIterations env spec messages st;
               terminalContent = (case salvaged of Some content \<Rightarrow> content | None \<Rightarrow> maxIterationsMessage spec)
           in (Continue (ls\<lparr>ls_messages := AppendFinalMessage messages terminalContent,
                            ls_result := (ls_result ls)\<lparr>rr_StopReason := StopMaxIterations,
                                                       rr_FinalContent := terminalContent\<rparr>\<rparr>), st)
         else (Continue (ls\<lparr>ls_messages := messages\<rparr>), st))"

text \<open>The terminal branch.\<close>

definition terminal_branch :: "Response \<Rightarrow> string \<Rightarrow> string \<Rightarrow> loop_state \<Rightarrow> step_outcome" where
  "terminal_branch resp clean originalContent ls =
     (if IsBlankText clean then
        Return ((ls_result ls)\<lparr>rr_FinalContent := EmptyFinalResponseMessage, rr_StopReason := StopEmptyFinalResponse,
                  rr_Error := EmptyFinalResponseMessage,
                  rr_Messages := AppendFinalMessage (ls_messages ls) EmptyFinalResponseMessage\<rparr>)
      else
        let content = (if 0 < length (ls_lengthParts ls)
                       then PyStrip (concat (ls_lengthParts ls) @ RestoreOuterWhitespace clean originalContent)
                       else clean)
        in Break (ls\<lparr>ls_messages := ls_messages ls @ [assistantMessage resp clean []],
                     ls_result := (ls_result ls)\<lparr>rr_FinalContent := content, rr_StopReason := StopCompleted\<rparr>\<rparr>))"

text \<open>What is done with a response, from the accounting of its usage on.\<close>

definition respond ::
  "'w run_env \<Rightarrow> 'w RunSpec \<Rightarrow> int \<Rightarrow> bool \<Rightarrow> Response \<Rightarrow> loop_state \<Rightarrow> 'w run_state \<Rightarrow> step_outcome \<times> 'w run_state" where
  "respond env spec iteration streamed resp ls st =
     (let ls = (if rs_Usage resp \<noteq> None
                then ls\<lparr>ls_usage := Usage_Add (ls_usage ls) (rs_Usage resp), ls_usageSeen := True\<rparr> else ls);
          originalContent = rs_Content resp;
          (reasoningText, cleanedContent) = ExtractReasoning (Some (rs_ReasoningContent resp))
             (rs_ThinkingBlocks resp) (Some (rs_Content resp));
          resp = resp\<lparr>rs_Content := (case cleanedContent of Some c \<Rightarrow> c | None \<Rightarrow> [])\<rparr>;
          st = (case reasoningText of
                  None \<Rightarrow> st
                | Some t \<Rightarrow> if t \<noteq> [] \<and> \<not> streamed
                            then hook env OnReasoningEnd (hook env (OnReasoningDelta t) st) else st);
          clean = StripThink (rs_Content resp)
      in if rs_FinishReason resp = FinishError then
           let msg = (if isArrearage (en_Lower env) resp then ArrearageError
                      else if clean = [] then sp_ErrorMessage spec else clean)
           in (Return ((ls_result ls)\<lparr>rr_StopReason := StopError, rr_Error := msg, rr_FinalContent := msg,
                         rr_Messages := AppendModelErrorPlaceholder (ls_messages ls)\<rparr>), st)
         else
           let calls = validCalls (rs_ToolCalls resp);
               toolBranch = (ShouldExecuteTools resp \<and> 0 < length calls);
               retryable = (\<not> toolBranch \<and> EmptyRetryEligible (rs_FinishReason resp) clean)
           in if retryable \<and> ls_emptyRetries ls < maxEmptyRetries
              then (Continue (ls\<lparr>ls_emptyRetries := ls_emptyRetries ls + 1\<rparr>), st)
              else
                let ls = (if retryable then ls else ls\<lparr>ls_emptyRetries := 0\<rparr>) in
                if rs_FinishReason resp = FinishLength \<and> length (ls_lengthParts ls) < MaxLengthRecoveries then
                  (Continue (ls\<lparr>ls_lengthParts := ls_lengthParts ls @ [RestoreOuterWhitespace clean originalContent],
                               ls_messages := ls_messages ls @ [assistantMessage resp clean [],
                                                               BuildLengthRecoveryMessage clean]\<rparr>), st)
                else if \<not> toolBranch then (terminal_branch resp clean originalContent ls, st)
                else tool_branch env spec iteration resp clean calls ls st)"

definition canceled :: "go_error \<Rightarrow> loop_state \<Rightarrow> RunResult" where
  "canceled e ls = (ls_result ls)\<lparr>rr_StopReason := StopCanceled, rr_Error := ge_Error e, rr_Messages := ls_messages ls\<rparr>"

definition iteration_step ::
  "'w run_env \<Rightarrow> 'w RunSpec \<Rightarrow> int \<Rightarrow> loop_state \<Rightarrow> 'w run_state \<Rightarrow> step_outcome \<times> 'w run_state" where
  "iteration_step env spec iteration ls st =
     (case en_CtxErr env (rs_World st) of
        Some e \<Rightarrow> (Return (canceled e ls), st)
      | None \<Rightarrow>
          let (w, err) = en_Before env iteration (ls_messages ls) (rs_World st);
              st = (note_event (BeforeIteration iteration (ls_messages ls)) st)\<lparr>rs_World := w\<rparr>
          in (case err of
                Some e \<Rightarrow> (Return ((ls_result ls)\<lparr>rr_StopReason := StopError, rr_Error := e,
                                                rr_Messages := ls_messages ls\<rparr>), st)
              | None \<Rightarrow>
                  let (res, streamed, st) = requestModel env spec (ls_messages ls) False st in
                  (case res of
                     Inr resp \<Rightarrow> respond env spec iteration streamed resp ls st
                   | Inl e \<Rightarrow>
                       (case en_CtxErr env (rs_World st) of
                          Some ce \<Rightarrow> (Return (canceled ce ls), st)
                        | None \<Rightarrow>
                            respond env spec iteration streamed (errorResponseFromException (en_Lower env) e) ls st))))"

definition finish_run :: "loop_state \<Rightarrow> RunResult" where
  "finish_run ls =
     (ls_result ls)\<lparr>rr_Usage := (if ls_usageSeen ls then Some (ls_usage ls) else rr_Usage (ls_result ls)),
                    rr_Messages := ls_messages ls\<rparr>"

text \<open>The first argument counts the iterations that are left.\<close>

fun run_loop :: "nat \<Rightarrow> 'w run_env \<Rightarrow> 'w RunSpec \<Rightarrow> int \<Rightarrow> loop_state \<Rightarrow> 'w run_state \<Rightarrow> RunResult \<times> 'w run_state" where
  "run_loop 0 env spec iteration ls st = (finish_run ls, st)"
| "run_loop (Suc n) env spec iteration ls st =
     (case iteration_step env spec iteration ls st of
        (Continue ls, st) \<Rightarrow> run_loop n env spec (iteration + 1) ls st
      | (Break ls, st) \<Rightarrow> (finish_run ls, st)
      | (Return res, st) \<Rightarrow> (res, st))"

definition new_loop :: "Message list \<Rightarrow> loop_state" where
  "new_loop messages =
     \<lparr>ls_messages = messages,
      ls_result = \<lparr>rr_FinalContent = [], rr_Messages = messages, rr_ToolsUsed = [], rr_Usage = None,
                   rr_StopReason = StopCompleted, rr_Error = []\<rparr>,
      ls_usage = zero_usage, ls_usageSeen = False, ls_seenTools = {}, ls_emptyRetries = 0, ls_lengthParts = []\<rparr>"

definition Run :: "'w run_env \<Rightarrow> 'w RunSpec \<Rightarrow> 'w run_state \<Rightarrow> RunResult \<times> 'w run_state" where
  "Run env spec st =
     (let spec = withDefaults spec
      in run_loop (nat (sp_MaxIterations spec)) env spec 0 (new_loop (sp_Messages spec)) st)"

end
