(* ===== verification/Runner_Batch.thy ===== *)
theory Runner_Batch
  imports Runner
begin

text \<open>
  The execution of tool calls, under every schedule of the goroutines: the batches partition the calls,
  each call is answered under its id and at its index, tools that are not safe run alone, and the
  number of tools at work never exceeds the limit.
\<close>

section \<open>Batches\<close>

lemma partition_loop_concat: "concat (partition_loop r i current calls) = current @ [i..<i + length calls]"
proof (induction r i current calls rule: partition_loop.induct)
  case (2 r i current c calls)
  have "[i..<i + length (c # calls)] = i # [Suc i..<Suc i + length calls]"
    by (simp add: upt_conv_Cons del: upt_Suc)
  then show ?case using 2 by simp
qed simp

lemma partition_loop_safe:
  assumes "\<forall>j \<in> set current. j < i \<and> is_safe r ((pre @ calls) ! j)" "length pre = i"
    "batch \<in> set (partition_loop r i current calls)"
  shows "batch \<noteq> [] \<and> (length batch = 1 \<or> (\<forall>j \<in> set batch. is_safe r ((pre @ calls) ! j)))"
  using assms
proof (induction r i current calls arbitrary: pre rule: partition_loop.induct)
  case (1 r i current)
  then show ?case by (auto split: if_splits)
next
  case (2 r i current c calls)
  show ?case
  proof (cases "is_safe r c")
    case True
    have "\<forall>j \<in> set (current @ [i]). j < Suc i \<and> is_safe r (((pre @ [c]) @ calls) ! j)"
      using 2(3,4) True by (auto simp: less_Suc_eq)
    then show ?thesis using 2(1) [OF True, of "pre @ [c]"] 2(4,5) True by simp
  next
    case False
    then consider "batch = current" "current \<noteq> []" | "batch = [i]" | "batch \<in> set (partition_loop r (Suc i) [] calls)"
      using 2(5) by (auto split: if_splits)
    then show ?thesis
    proof cases
      case 3
      then show ?thesis using 2(2) [OF False, of "pre @ [c]"] 2(4) by simp
    qed (use 2(3) in auto)
  qed
qed

lemma partition_concat: "concat (partitionBatches r calls) = [0..<length calls]"
  by (simp add: partitionBatches_def partition_loop_concat)

lemma partition_safe:
  "batch \<in> set (partitionBatches r calls) \<Longrightarrow>
   batch \<noteq> [] \<and> (length batch = 1 \<or> (\<forall>j \<in> set batch. is_safe r (calls ! j)))"
  using partition_loop_safe [of "[]" 0 r "[]" calls] by (simp add: partitionBatches_def)

section \<open>Workers\<close>

abbreviation at_rest :: "tool_worker \<Rightarrow> bool" where
  "at_rest w \<equiv> (case w of Waiting \<Rightarrow> True | Finished _ \<Rightarrow> True | _ \<Rightarrow> False)"

definition is_finished :: "tool_worker \<Rightarrow> bool" where
  "is_finished w \<longleftrightarrow> (\<exists>res. w = Finished res)"

lemma slots_held_rest: "slots_held ws = 0 \<longleftrightarrow> list_all at_rest ws"
  by (induction ws) (auto simp: slots_held_def split: tool_worker.splits)

fun steps_left :: "tool_worker \<Rightarrow> nat" where
  "steps_left Waiting = 4"
| "steps_left Ready = 3"
| "steps_left Running = 2"
| "steps_left (Executed res) = 1"
| "steps_left (Finished res) = 0"

lemma steps_left_0: "steps_left w = 0 \<longleftrightarrow> is_finished w"
  by (cases w) (auto simp: is_finished_def)

lemma take_slot_cases:
  obtains "take_slot env spec c b ws st = Ready" | e where "take_slot env spec c b ws st = Finished (cancel_result env c e)"
  | "take_slot env spec c b ws st = Waiting" "slots_held ws \<noteq> 0" "sp_MaxParallelTools spec \<le> int (slots_held ws)"
proof -
  have "take_slot env spec c b ws st = Ready \<or> (\<exists>e. take_slot env spec c b ws st = Finished (cancel_result env c e))
    \<or> take_slot env spec c b ws st = Waiting \<and> slots_held ws \<noteq> 0 \<and> sp_MaxParallelTools spec \<le> int (slots_held ws)"
    by (auto simp: take_slot_def Let_def split: option.split)
  then show thesis using that by blast
qed

text \<open>One step of worker \<open>i\<close>: only its entry changes, and it gets closer to its end unless it waits in vain.\<close>

lemma worker_step_entry:
  assumes "i < length ws"
  obtains "worker_step env spec r calls (i, b) (ws, st) = (ws, st)" "ws ! i = Waiting" "slots_held ws \<noteq> 0"
  | w st' where "worker_step env spec r calls (i, b) (ws, st) = (ws[i := w], st')"
      "steps_left w \<le> steps_left (ws ! i) - 1" "w \<noteq> Waiting"
proof (cases "ws ! i")
  case Waiting
  have e: "worker_step env spec r calls (i, b) (ws, st) = (ws[i := take_slot env spec (calls ! i) b ws st], st)"
    using Waiting assms by (simp add: worker_step_def)
  show thesis
  proof (rule take_slot_cases [of env spec "calls ! i" b ws st])
    assume "take_slot env spec (calls ! i) b ws st = Ready"
    then show thesis using that(2) [of Ready st] e Waiting by simp
  next
    fix e'
    assume "take_slot env spec (calls ! i) b ws st = Finished (cancel_result env (calls ! i) e')"
    then show thesis using that(2) e Waiting by simp
  next
    assume "take_slot env spec (calls ! i) b ws st = Waiting" "slots_held ws \<noteq> 0"
    then show thesis using that(1) e Waiting assms by (metis list_update_id)
  qed
next
  case Ready
  then show thesis using that(2) [of Running] assms by (simp add: worker_step_def)
next
  case Running
  obtain st' res where "execute_call env r (calls ! i) st = (st', res)" by fastforce
  then show thesis using that(2) [of "Executed res" st'] Running assms by (simp add: worker_step_def)
next
  case (Executed res)
  then show thesis using that(2) [of "Finished res"] assms by (simp add: worker_step_def)
next
  case (Finished res)
  then have "worker_step env spec r calls (i, b) (ws, st) = (ws[i := Finished res], st)"
    using assms by (simp add: worker_step_def) (metis list_update_id)
  then show thesis using that(2) Finished by simp
qed

lemma steps_of_one:
  fixes env spec r calls i
  defines "F \<equiv> fold (worker_step env spec r calls)"
  assumes "i < length ws"
  shows "length (fst (F (replicate k (i, b)) (ws, st))) = length ws \<and>
    (\<forall>j. j \<noteq> i \<longrightarrow> fst (F (replicate k (i, b)) (ws, st)) ! j = ws ! j) \<and>
    (steps_left (ws ! i) \<le> k \<longrightarrow> at_rest (fst (F (replicate k (i, b)) (ws, st)) ! i)) \<and>
    (steps_left (ws ! i) \<le> k \<and> (slots_held ws = 0 \<or> ws ! i \<noteq> Waiting) \<longrightarrow>
       is_finished (fst (F (replicate k (i, b)) (ws, st)) ! i))"
  using assms(2)
proof (induction k arbitrary: ws st)
  case 0
  then show ?case using steps_left_0 [of "ws ! i"] by (auto simp: F_def is_finished_def)
next
  case (Suc k)
  let ?s = "worker_step env spec r calls (i, b) (ws, st)"
  have unfold: "F (replicate (Suc k) (i, b)) (ws, st) = F (replicate k (i, b)) ?s"
    by (simp add: F_def)
  show ?case
  proof (rule worker_step_entry [OF Suc.prems, of env spec r calls b st])
    assume stuck: "?s = (ws, st)" "ws ! i = Waiting" "slots_held ws \<noteq> 0"
    have "at_rest (fst (F (replicate k (i, b)) (ws, st)) ! i)" 
    proof -
      have "F (replicate k (i, b)) (ws, st) = (ws, st)"
        unfolding F_def using stuck(1) by (induction k) simp_all
      then show ?thesis using stuck by simp
    qed
    then show ?thesis using Suc.IH [OF Suc.prems, of st] stuck unfolding unfold by simp
  next
    fix w st'
    assume go: "?s = (ws[i := w], st')" "steps_left w \<le> steps_left (ws ! i) - 1" "w \<noteq> Waiting"
    have IH: "i < length (ws[i := w])" "(ws[i := w]) ! i = w" using Suc.prems by simp_all
    show ?thesis
      using Suc.IH [OF IH(1), of st'] go IH(2) unfolding unfold by (auto simp: is_finished_def)
  qed
qed

lemma fold_others:
  assumes "\<forall>c \<in> set cs. fst c \<noteq> j" "\<forall>c \<in> set cs. fst c < length ws"
  shows "length (fst (fold (worker_step env spec r calls) cs (ws, st))) = length ws \<and>
    fst (fold (worker_step env spec r calls) cs (ws, st)) ! j = ws ! j"
  using assms
proof (induction cs arbitrary: ws st)
  case (Cons c cs)
  obtain ws' st' where s: "worker_step env spec r calls c (ws, st) = (ws', st')" by fastforce
  have "fold (worker_step env spec r calls) (replicate 1 c) (ws, st) = (ws', st')" using s by simp
  then have "length ws' = length ws" "ws' ! j = ws ! j"
    using steps_of_one [of "fst c" ws env spec r calls 1 "snd c" st] Cons.prems by auto
  then show ?case using Cons.IH [of ws' st'] Cons.prems s by simp
qed simp

text \<open>A pass over the workers leaves none at work, and finishes all when none was.\<close>

lemma drain_pass:
  fixes env spec r calls
  defines "F \<equiv> fold (worker_step env spec r calls)"
  assumes "m \<le> length ws"
  shows "length (fst (F (concat (map (\<lambda>i. replicate 4 (i, False)) [0..<m])) (ws, st))) = length ws \<and>
    (\<forall>j < length ws. let w = fst (F (concat (map (\<lambda>i. replicate 4 (i, False)) [0..<m])) (ws, st)) ! j in
      if j < m then at_rest w \<and> (list_all at_rest ws \<longrightarrow> is_finished w) else w = ws ! j)"
  using assms(2)
proof (induction m)
  case 0
  then show ?case by (simp add: F_def)
next
  case (Suc m)
  let ?p = "\<lambda>m. concat (map (\<lambda>i. replicate 4 (i, False)) [0..<m])"
  obtain ws1 st1 where s1: "F (?p m) (ws, st) = (ws1, st1)" by fastforce
  note IH = Suc.IH [unfolded s1, simplified, OF Suc_leD [OF Suc.prems]]
  have len: "length ws1 = length ws" and m: "m < length ws1" using IH Suc.prems by auto
  have s2: "F (?p (Suc m)) (ws, st) = F (replicate 4 (m, False)) (ws1, st1)"
    using s1 by (simp add: F_def)
  have "steps_left (ws1 ! m) \<le> 4" by (cases "ws1 ! m") simp_all
  moreover have "slots_held ws1 = 0" if "list_all at_rest ws"
  proof -
    have "at_rest (ws1 ! j)" if "j < length ws1" for j
      using IH that len \<open>list_all at_rest ws\<close> by (cases "j < m") (auto simp: Let_def list_all_length)
    then show ?thesis unfolding slots_held_rest list_all_length by blast
  qed
  ultimately show ?case
    using steps_of_one [OF m, of env spec r calls 4 False st1] IH len m unfolding s2
    by (auto simp: F_def Let_def less_Suc_eq)
qed

lemma batch_finishes:
  fixes env spec r calls sched st
  defines "s \<equiv> run_batch env spec r calls sched st"
  shows "length (fst s) = length calls \<and> list_all is_finished (fst s)"
proof -
  let ?F = "fold (worker_step env spec r calls)"
  let ?p = "concat (map (\<lambda>i. replicate 4 (i, False)) [0..<length calls])"
  obtain ws1 st1 where s1: "?F sched (replicate (length calls) Waiting, st) = (ws1, st1)" by fastforce
  have "length (fst (?F cs (ws, st))) = length ws" for cs ws st
  proof (induction cs arbitrary: ws st)
    case (Cons c cs)
    obtain ws' st' where s': "worker_step env spec r calls c (ws, st) = (ws', st')" by fastforce
    then have "length ws' = length ws"
      by (auto simp: worker_step_def Let_def split: prod.splits if_splits tool_worker.splits)
    then show ?case using Cons.IH [of ws' st'] s' by simp
  qed simp
  then have l1: "length ws1 = length calls" using s1 by (metis fst_conv length_replicate)
  obtain ws2 st2 where s2: "?F ?p (ws1, st1) = (ws2, st2)" by fastforce
  have p2: "length ws2 = length calls" "list_all at_rest ws2"
    using drain_pass [of "length calls" ws1 env spec r calls st1] s2 l1 by (auto simp: list_all_length Let_def)
  have "s = ?F ?p (ws2, st2)" using s1 s2 by (simp add: s_def run_batch_def drain_order_def)
  then show ?thesis
    using drain_pass [of "length calls" ws2 env spec r calls st2] p2 by (auto simp: list_all_length Let_def)
qed

section \<open>What a batch does\<close>

definition tool_depth :: "run_event list \<Rightarrow> int" where
  "tool_depth evs = sum_list (map (\<lambda>e. case e of OnToolStart c \<Rightarrow> 1 | OnToolEnd c res \<Rightarrow> -1 | _ \<Rightarrow> 0) evs)"

text \<open>The number of tools at work is never negative, and within the limit \<open>M\<close> when there is one.\<close>

definition depth_ok :: "int \<Rightarrow> run_event list \<Rightarrow> bool" where
  "depth_ok M evs \<longleftrightarrow> (\<forall>k. 0 \<le> tool_depth (take k evs) \<and> (0 < M \<longrightarrow> tool_depth (take k evs) \<le> M))"

definition tool_event :: "ToolCall list \<Rightarrow> run_event \<Rightarrow> bool" where
  "tool_event calls e \<longleftrightarrow>
     (case e of OnToolStart c \<Rightarrow> c \<in> set calls | OnToolEnd c res \<Rightarrow> c \<in> set calls \<and> tr_CallID res = tc_ID c | _ \<Rightarrow> False)"

lemma tool_depth_simps [simp]:
  "tool_depth [] = 0" "tool_depth (xs @ ys) = tool_depth xs + tool_depth ys"
  "tool_depth [OnToolStart c] = 1" "tool_depth [OnToolEnd c res] = -1"
  by (simp_all add: tool_depth_def)

lemma depth_ok_Nil [simp]: "depth_ok M []"
  by (simp add: depth_ok_def)

lemma depth_ok_snoc:
  assumes "depth_ok M evs" "0 \<le> tool_depth (evs @ [e])" "0 < M \<longrightarrow> tool_depth (evs @ [e]) \<le> M"
  shows "depth_ok M (evs @ [e])"
  unfolding depth_ok_def
proof
  fix k
  show "0 \<le> tool_depth (take k (evs @ [e])) \<and> (0 < M \<longrightarrow> tool_depth (take k (evs @ [e])) \<le> M)"
    using assms by (cases "k \<le> length evs") (auto simp: depth_ok_def)
qed

lemma depth_ok_append:
  assumes "depth_ok M xs" "tool_depth xs = 0" "depth_ok M ys"
  shows "depth_ok M (xs @ ys)"
  unfolding depth_ok_def
proof
  fix k
  show "0 \<le> tool_depth (take k (xs @ ys)) \<and> (0 < M \<longrightarrow> tool_depth (take k (xs @ ys)) \<le> M)"
    using assms by (cases "k \<le> length xs") (simp_all add: depth_ok_def)
qed

lemma filter_update_count:
  "i < length xs \<Longrightarrow> int (length (filter P (xs[i := y]))) =
     int (length (filter P xs)) + of_bool (P y) - of_bool (P (xs ! i))"
proof (induction xs arbitrary: i)
  case (Cons x xs)
  then show ?case by (cases i) auto
qed simp

definition at_work :: "tool_worker list \<Rightarrow> nat" where
  "at_work ws = length (filter (\<lambda>w. case w of Running \<Rightarrow> True | Executed _ \<Rightarrow> True | _ \<Rightarrow> False) ws)"

lemma at_work_le: "at_work ws \<le> slots_held ws"
  by (induction ws) (auto simp: at_work_def slots_held_def split: tool_worker.splits)

text \<open>A worker that has a result has one for its own call.\<close>

definition answers_own :: "ToolCall list \<Rightarrow> nat \<Rightarrow> tool_worker \<Rightarrow> bool" where
  "answers_own calls i w \<longleftrightarrow> (case w of Executed res \<Rightarrow> tr_CallID res = tc_ID (calls ! i)
     | Finished res \<Rightarrow> tr_CallID res = tc_ID (calls ! i) | _ \<Rightarrow> True)"

lemma answers_own_simps [simp]:
  "answers_own calls i Waiting" "answers_own calls i Ready" "answers_own calls i Running"
  "answers_own calls i (Executed res) \<longleftrightarrow> tr_CallID res = tc_ID (calls ! i)"
  "answers_own calls i (Finished res) \<longleftrightarrow> tr_CallID res = tc_ID (calls ! i)"
  by (simp_all add: answers_own_def)

definition batch_inv :: "'w RunSpec \<Rightarrow> ToolCall list \<Rightarrow> run_event list \<Rightarrow> tool_worker list \<times> 'w run_state \<Rightarrow> bool" where
  "batch_inv spec calls tr s \<longleftrightarrow>
     (case s of (ws, st) \<Rightarrow>
        length ws = length calls
        \<and> (\<forall>i < length ws. answers_own calls i (ws ! i))
        \<and> (0 < sp_MaxParallelTools spec \<longrightarrow> int (slots_held ws) \<le> sp_MaxParallelTools spec)
        \<and> (\<exists>evs. rs_Trace st = tr @ evs \<and> tool_depth evs = int (at_work ws)
              \<and> depth_ok (sp_MaxParallelTools spec) evs \<and> list_all (tool_event calls) evs))"

lemma hook_simps [simp]: "rs_Trace (hook env ev st) = rs_Trace st @ [ev]"
  "rs_Cache (hook env ev st) = rs_Cache st"
  by (simp_all add: hook_def note_event_def)

lemma execute_call_simps:
  assumes "execute_call env r c st = (st', res)"
  shows "rs_Trace st' = rs_Trace st" "rs_Cache st' = rs_Cache st" "tr_CallID res = tc_ID c"
proof -
  obtain w x where e: "Registry_Execute (en_Printable env) (ctx_error_text env) r c (rs_World st) = (w, x)" by fastforce
  have "st' = st\<lparr>rs_World := w\<rparr>" "res = x" using assms by (simp_all add: execute_call_def e)
  then show "rs_Trace st' = rs_Trace st" "rs_Cache st' = rs_Cache st" "tr_CallID res = tc_ID c"
    using Execute_CallID [of "en_Printable env" "ctx_error_text env" r c "rs_World st"] e by simp_all
qed

lemma own_update:
  "\<forall>i < length ws. answers_own calls i (ws ! i) \<Longrightarrow> answers_own calls k w \<Longrightarrow>
   \<forall>i < length (ws[k := w]). answers_own calls i ((ws[k := w]) ! i)"
  by (metis length_list_update nth_list_update_eq nth_list_update_neq)

lemma batch_inv_step:
  assumes "batch_inv spec calls tr (ws, st)" "worker_step env spec r calls (i, b) (ws, st) = (ws', st')"
  shows "batch_inv spec calls tr (ws', st')"
proof (cases "i < length ws")
  case False
  then show ?thesis using assms by (simp add: worker_step_def)
next
  case True
  let ?P = "answers_own calls"
  let ?M = "sp_MaxParallelTools spec"
  obtain evs where inv: "length ws = length calls" "\<forall>i < length ws. ?P i (ws ! i)"
    "0 < ?M \<longrightarrow> int (slots_held ws) \<le> ?M" "rs_Trace st = tr @ evs" "tool_depth evs = int (at_work ws)"
    "depth_ok ?M evs" "list_all (tool_event calls) evs"
    using assms(1) by (auto simp: batch_inv_def)
  have mem: "calls ! i \<in> set calls" using True inv(1) by simp
  note upd = filter_update_count [OF True]
  have flight: "int (slots_held (ws[i := w])) = int (slots_held ws)
      + of_bool (case w of Waiting \<Rightarrow> False | Finished _ \<Rightarrow> False | _ \<Rightarrow> True)
      - of_bool (case ws ! i of Waiting \<Rightarrow> False | Finished _ \<Rightarrow> False | _ \<Rightarrow> True)" for w
    unfolding slots_held_def by (rule upd)
  have work: "int (at_work (ws[i := w])) = int (at_work ws)
      + of_bool (case w of Running \<Rightarrow> True | Executed _ \<Rightarrow> True | _ \<Rightarrow> False)
      - of_bool (case ws ! i of Running \<Rightarrow> True | Executed _ \<Rightarrow> True | _ \<Rightarrow> False)" for w
    unfolding at_work_def by (rule upd)
  show ?thesis
  proof (cases "ws ! i")
    case Waiting
    let ?w = "take_slot env spec (calls ! i) b ws st"
    have s': "ws' = ws[i := ?w]" "st' = st" using assms(2) True Waiting by (auto simp: worker_step_def)
    have slot: "?w = Ready \<longrightarrow> 0 < ?M \<longrightarrow> int (slots_held ws) < ?M"
      by (auto simp: take_slot_def Let_def split: option.splits if_splits)
    have "?P i ?w"
      by (rule take_slot_cases [of env spec "calls ! i" b ws st]) (simp_all add: cancel_result_def error_result_def)
    then have P': "\<forall>j < length ws'. ?P j (ws' ! j)" unfolding s' using own_update [OF inv(2)] by blast
    have "0 < ?M \<longrightarrow> int (slots_held ws') \<le> ?M" "int (at_work ws') = int (at_work ws)"
      unfolding s' using slot inv(3) flight [of ?w] work [of ?w] Waiting
      by (rule_tac take_slot_cases [of env spec "calls ! i" b ws st]; auto)+
    then show ?thesis unfolding batch_inv_def using P' inv s' by auto
  next
    case Ready
    have s': "ws' = ws[i := Running]" "st' = hook env (OnToolStart (calls ! i)) st"
      using assms(2) True Ready by (simp_all add: worker_step_def)
    have P': "\<forall>j < length ws'. ?P j (ws' ! j)" unfolding s' using own_update [OF inv(2)] by auto
    have n: "int (slots_held ws') = int (slots_held ws)" "int (at_work ws') = int (at_work ws) + 1"
      unfolding s' using flight [of Running] work [of Running] Ready by simp_all
    have "depth_ok ?M (evs @ [OnToolStart (calls ! i)])"
      using inv(3,5,6) n at_work_le [of ws'] by (intro depth_ok_snoc) auto
    then show ?thesis unfolding batch_inv_def using P' inv s' n mem
      by (auto simp: tool_event_def intro!: exI [of _ "evs @ [OnToolStart (calls ! i)]"])
  next
    case Running
    obtain st1 res where e: "execute_call env r (calls ! i) st = (st1, res)" by fastforce
    have s': "ws' = ws[i := Executed res]" "st' = st1" using assms(2) True Running e by (simp_all add: worker_step_def)
    have P': "\<forall>j < length ws'. ?P j (ws' ! j)" unfolding s' using own_update [OF inv(2)] execute_call_simps [OF e] by auto
    have n: "int (slots_held ws') = int (slots_held ws)" "int (at_work ws') = int (at_work ws)"
      unfolding s' using flight [of "Executed res"] work [of "Executed res"] Running by simp_all
    then show ?thesis unfolding batch_inv_def using P' inv s' execute_call_simps [OF e] by auto
  next
    case (Executed res)
    have s': "ws' = ws[i := Finished res]" "st' = hook env (OnToolEnd (calls ! i) res) st"
      using assms(2) True Executed by (simp_all add: worker_step_def)
    have id: "tr_CallID res = tc_ID (calls ! i)" using inv(2) True Executed by fastforce
    have P': "\<forall>j < length ws'. ?P j (ws' ! j)" unfolding s' using own_update [OF inv(2)] id by auto
    have n: "int (slots_held ws') = int (slots_held ws) - 1" "int (at_work ws') = int (at_work ws) - 1"
      unfolding s' using flight [of "Finished res"] work [of "Finished res"] Executed by simp_all
    have "depth_ok ?M (evs @ [OnToolEnd (calls ! i) res])"
      using inv(3,5,6) n at_work_le [of ws'] by (intro depth_ok_snoc) auto
    then show ?thesis unfolding batch_inv_def using P' inv s' n mem id
      by (auto simp: tool_event_def intro!: exI [of _ "evs @ [OnToolEnd (calls ! i) res]"])
  next
    case (Finished res)
    then show ?thesis using assms True by (simp add: worker_step_def)
  qed
qed

lemma batch_inv_fold:
  "batch_inv spec calls tr s \<Longrightarrow> batch_inv spec calls tr (fold (worker_step env spec r calls) cs s)"
proof (induction cs arbitrary: s)
  case (Cons c cs)
  obtain ws' st' where "worker_step env spec r calls c s = (ws', st')" by fastforce
  moreover have "batch_inv spec calls tr (ws', st')"
    using batch_inv_step [of spec calls tr "fst s" "snd s" env r "fst c" "snd c" ws' st'] Cons.prems calculation by simp
  ultimately show ?case using Cons.IH by simp
qed simp

lemma run_batch_effect:
  assumes "run_batch env spec r calls sched st = (ws, st')"
  obtains evs where "map tr_CallID (map worker_result ws) = map tc_ID calls"
    "rs_Trace st' = rs_Trace st @ evs" "tool_depth evs = 0" "depth_ok (sp_MaxParallelTools spec) evs"
    "list_all (tool_event calls) evs"
proof -
  have "batch_inv spec calls (rs_Trace st) (replicate (length calls) Waiting, st)"
    by (auto simp: batch_inv_def slots_held_def at_work_def intro!: exI [of _ "[]"])
  then have inv: "batch_inv spec calls (rs_Trace st) (ws, st')"
    using batch_inv_fold assms unfolding run_batch_def by metis
  have fin: "length ws = length calls" "list_all is_finished ws"
    using batch_finishes [of env spec r calls sched st] assms by simp_all
  have idle: "at_work ws = 0"
    using fin(2) by (induction ws) (auto simp: at_work_def is_finished_def)
  have "map tr_CallID (map worker_result ws) = map tc_ID calls"
  proof (rule nth_equalityI)
    fix i
    assume "i < length (map tr_CallID (map worker_result ws))"
    then have i: "i < length ws" by simp
    then obtain res where "ws ! i = Finished res" using fin(2) by (auto simp: list_all_length is_finished_def)
    moreover from this have "tr_CallID res = tc_ID (calls ! i)" using inv i by (fastforce simp: batch_inv_def)
    ultimately show "map tr_CallID (map worker_result ws) ! i = map tc_ID calls ! i"
      using i fin(1) by (simp add: worker_result_def)
  qed (simp add: fin)
  then show thesis using that inv idle by (auto simp: batch_inv_def)
qed

section \<open>All the calls of a response\<close>

text \<open>A tool that is not safe starts when none is at work, and the next thing to happen is its end.\<close>

definition alone :: "'w Registry \<Rightarrow> run_event list \<Rightarrow> bool" where
  "alone r evs \<longleftrightarrow> (\<forall>p c q. evs = p @ OnToolStart c # q \<longrightarrow> \<not> is_safe r c \<longrightarrow>
     tool_depth p = 0 \<and> (\<exists>res q'. q = OnToolEnd c res # q'))"

lemma alone_Nil [simp]: "alone r []"
  by (simp add: alone_def)

lemma alone_pair: "alone r [OnToolStart c, OnToolEnd c res]"
  by (auto simp: alone_def Cons_eq_append_conv)

lemma alone_safe: "list_all (tool_event calls) evs \<Longrightarrow> \<forall>c \<in> set calls. is_safe r c \<Longrightarrow> alone r evs"
  by (auto simp: alone_def tool_event_def)

lemma alone_append:
  assumes "alone r xs" "tool_depth xs = 0" "alone r ys"
  shows "alone r (xs @ ys)"
  unfolding alone_def
proof (intro allI impI)
  fix p c q
  assume split: "xs @ ys = p @ OnToolStart c # q" and c: "\<not> is_safe r c"
  from split consider us where "xs = p @ OnToolStart c # us" "q = us @ ys" | us where "p = xs @ us" "ys = us @ OnToolStart c # q"
    by (auto simp: append_eq_append_conv2 Cons_eq_append_conv append_eq_Cons_conv)
  then show "tool_depth p = 0 \<and> (\<exists>res q'. q = OnToolEnd c res # q')"
  proof cases
    case 1
    then show ?thesis using assms(1) c unfolding alone_def by fastforce
  next
    case 2
    then show ?thesis using assms(2,3) c unfolding alone_def by fastforce
  qed
qed

text \<open>What a batch, or a list of them, does to the results and to the trace.\<close>

definition tools_effect ::
  "'w RunSpec \<Rightarrow> 'w Registry \<Rightarrow> ToolCall list \<Rightarrow> nat list \<Rightarrow> ToolResult list \<times> 'w run_state
   \<Rightarrow> ToolResult list \<times> 'w run_state \<Rightarrow> bool" where
  "tools_effect spec r calls batch s s' \<longleftrightarrow>
     (length (fst s) = length calls \<longrightarrow>
        length (fst s') = length calls
        \<and> (\<forall>i < length calls. if i \<in> set batch then tr_CallID (fst s' ! i) = tc_ID (calls ! i) else fst s' ! i = fst s ! i))
     \<and> (\<exists>evs. rs_Trace (snd s') = rs_Trace (snd s) @ evs \<and> tool_depth evs = 0
           \<and> depth_ok (sp_MaxParallelTools spec) evs \<and> list_all (tool_event calls) evs \<and> alone r evs)"

lemma tools_effect_Nil: "tools_effect spec r calls [] s s"
  by (auto simp: tools_effect_def intro!: exI [of _ "[]"])

lemma tools_effect_append:
  assumes "tools_effect spec r calls xs s s'" "tools_effect spec r calls ys s' s''"
  shows "tools_effect spec r calls (xs @ ys) s s''"
proof -
  obtain es fs where "rs_Trace (snd s') = rs_Trace (snd s) @ es" "tool_depth es = 0"
      "depth_ok (sp_MaxParallelTools spec) es" "list_all (tool_event calls) es" "alone r es"
    "rs_Trace (snd s'') = rs_Trace (snd s') @ fs" "tool_depth fs = 0"
      "depth_ok (sp_MaxParallelTools spec) fs" "list_all (tool_event calls) fs" "alone r fs"
    using assms unfolding tools_effect_def by blast
  then have "\<exists>evs. rs_Trace (snd s'') = rs_Trace (snd s) @ evs \<and> tool_depth evs = 0
      \<and> depth_ok (sp_MaxParallelTools spec) evs \<and> list_all (tool_event calls) evs \<and> alone r evs"
    by (intro exI [of _ "es @ fs"]) (simp add: depth_ok_append alone_append)
  moreover have "if i \<in> set (xs @ ys) then tr_CallID (fst s'' ! i) = tc_ID (calls ! i) else fst s'' ! i = fst s ! i"
    if "length (fst s) = length calls" "i < length calls" for i
    using assms that by (cases "i \<in> set ys"; cases "i \<in> set xs") (simp_all add: tools_effect_def)
  moreover have "length (fst s) = length calls \<Longrightarrow> length (fst s'') = length calls"
    using assms by (simp add: tools_effect_def)
  ultimately show ?thesis unfolding tools_effect_def by blast
qed

lemma runOne_effect:
  assumes "runOne env r c st = (st', res)"
  shows "rs_Trace st' = rs_Trace st @ [OnToolStart c, OnToolEnd c res]" "rs_Cache st' = rs_Cache st"
    "tr_CallID res = tc_ID c"
proof -
  obtain st1 x where e: "execute_call env r c (hook env (OnToolStart c) st) = (st1, x)" by fastforce
  have "res = x" "st' = hook env (OnToolEnd c x) st1" using assms by (auto simp: runOne_def e Let_def)
  then show "rs_Trace st' = rs_Trace st @ [OnToolStart c, OnToolEnd c res]" "rs_Cache st' = rs_Cache st"
    "tr_CallID res = tc_ID c"
    using execute_call_simps [OF e] by simp_all
qed

lemma pair_depth: "depth_ok M [OnToolStart c, OnToolEnd c res]"
proof -
  have "depth_ok M ([] @ [OnToolStart c])" by (rule depth_ok_snoc) auto
  then have "depth_ok M ([OnToolStart c] @ [OnToolEnd c res])" by (intro depth_ok_snoc) (auto simp: tool_depth_def)
  then show ?thesis by simp
qed

lemma run_sequence_effect:
  "\<forall>i \<in> set is. i < length calls \<Longrightarrow> tools_effect spec r calls is s (run_sequence env r calls is s)"
proof (induction "is" arbitrary: s)
  case Nil
  then show ?case by (simp add: tools_effect_Nil)
next
  case (Cons i "is")
  obtain out st where s: "s = (out, st)" by fastforce
  obtain st' res where one: "runOne env r (calls ! i) st = (st', res)" by fastforce
  have "list_all (tool_event calls) [OnToolStart (calls ! i), OnToolEnd (calls ! i) res]"
    using Cons.prems runOne_effect(3) [OF one] by (simp add: tool_event_def)
  then have "tools_effect spec r calls [i] s (out[i := res], st')"
    unfolding tools_effect_def using runOne_effect [OF one] Cons.prems
    by (auto simp: s nth_list_update pair_depth alone_pair tool_depth_def
        intro!: exI [of _ "[OnToolStart (calls ! i), OnToolEnd (calls ! i) res]"])
  from tools_effect_append [OF this Cons.IH] show ?case using Cons.prems by (simp add: s one)
qed

lemma write_results_nth:
  assumes "length xs = length is" "distinct is" "\<forall>i \<in> set is. i < length out"
  shows "length (write_results is xs out) = length out \<and>
    (\<forall>k < length is. write_results is xs out ! (is ! k) = xs ! k) \<and>
    (\<forall>j. j \<notin> set is \<longrightarrow> write_results is xs out ! j = out ! j)"
  using assms
proof (induction "is" xs out rule: write_results.induct)
  case (1 i "is" x xs out)
  then have IH: "length (write_results is xs (out[i := x])) = length out"
    "\<forall>k < length is. write_results is xs (out[i := x]) ! (is ! k) = xs ! k"
    "\<forall>j. j \<notin> set is \<longrightarrow> write_results is xs (out[i := x]) ! j = (out[i := x]) ! j"
    by simp_all
  have "write_results is xs (out[i := x]) ! ((i # is) ! k) = (x # xs) ! k" if "k < length (i # is)" for k
    using IH 1(3,4) that by (cases k) auto
  then show ?case using IH by auto
qed auto

lemma execute_batch_effect:
  assumes "distinct batch" "\<forall>i \<in> set batch. i < length calls"
    "length batch = 1 \<or> (\<forall>j \<in> set batch. is_safe r (calls ! j))"
  shows "tools_effect spec r calls batch s (execute_batch env spec r calls batch s)"
proof (cases "length batch = 1 \<or> \<not> sp_ConcurrentTools spec")
  case True
  then show ?thesis using run_sequence_effect [OF assms(2)] by (simp add: execute_batch_def)
next
  case False
  let ?cs = "map (\<lambda>i. calls ! i) batch"
  obtain out st where s: "s = (out, st)" by fastforce
  obtain ws st' where b: "run_batch env spec r ?cs (en_Sched env batch (rs_World st)) st = (ws, st')" by fastforce
  obtain evs where e: "map tr_CallID (map worker_result ws) = map tc_ID ?cs"
    "rs_Trace st' = rs_Trace st @ evs" "tool_depth evs = 0" "depth_ok (sp_MaxParallelTools spec) evs"
    "list_all (tool_event ?cs) evs"
    using run_batch_effect [OF b] .
  have sub: "set ?cs \<subseteq> set calls" using assms(2) by auto
  have ev: "list_all (tool_event calls) evs"
    using e(5) sub by (auto simp: list_all_iff tool_event_def split: run_event.splits)
  have al: "alone r evs" using e(5) by (rule alone_safe) (use assms(3) False in auto)
  have len: "length (map worker_result ws) = length batch" using arg_cong [OF e(1), of length] by simp
  have res: "execute_batch env spec r calls batch s = (write_results batch (map worker_result ws) out, st')"
    using False b by (simp add: execute_batch_def s)
  have id: "tr_CallID (write_results batch (map worker_result ws) out ! i) = tc_ID (calls ! i)"
    if i: "i \<in> set batch" and l: "length out = length calls" for i
  proof -
    obtain k where k: "k < length batch" "i = batch ! k" using i by (auto simp: in_set_conv_nth)
    then have "write_results batch (map worker_result ws) out ! i = map worker_result ws ! k"
      using write_results_nth [OF len assms(1), of out] assms(2) l by simp
    moreover have "tr_CallID (map worker_result ws ! k) = tc_ID (?cs ! k)"
      using arg_cong [OF e(1), of "\<lambda>xs. xs ! k"] k len by simp
    ultimately show ?thesis using k by simp
  qed
  show ?thesis
    unfolding tools_effect_def res
    using write_results_nth [OF len assms(1), of out] assms(2) id e(2-4) ev al by (auto simp: s)
qed

lemma batches_effect:
  assumes "distinct (concat batches)" "\<forall>i \<in> set (concat batches). i < length calls"
    "\<forall>batch \<in> set batches. length batch = 1 \<or> (\<forall>j \<in> set batch. is_safe r (calls ! j))"
  shows "tools_effect spec r calls (concat batches) s (fold (execute_batch env spec r calls) batches s)"
  using assms
proof (induction batches arbitrary: s)
  case Nil
  then show ?case by (simp add: tools_effect_Nil)
next
  case (Cons batch batches)
  have "tools_effect spec r calls batch s (execute_batch env spec r calls batch s)"
    using Cons.prems by (intro execute_batch_effect) auto
  from tools_effect_append [OF this Cons.IH] show ?case using Cons.prems by simp
qed

lemma executeTools_effect:
  assumes "sp_Tools spec = Some r"
  shows "tools_effect spec r calls [0..<length calls] (replicate (length calls) empty_result, st)
    (executeTools env spec calls st)"
  using batches_effect [of "partitionBatches r calls" calls r spec "(replicate (length calls) empty_result, st)" env]
    partition_safe [of _ r calls] by (auto simp: partition_concat executeTools_def assms)

lemma executeTools_ids: "map tr_CallID (fst (executeTools env spec calls st)) = map tc_ID calls"
proof (cases "sp_Tools spec")
  case None
  then show ?thesis by (simp add: executeTools_def error_result_def)
next
  case (Some r)
  then show ?thesis
    using executeTools_effect [OF Some, of calls st env] by (auto simp: tools_effect_def intro: nth_equalityI)
qed

text \<open>Tools do not touch the cache of token counts.\<close>

lemma worker_step_cache: "rs_Cache (snd (worker_step env spec r calls c s)) = rs_Cache (snd s)"
proof (cases c; cases s)
  fix i b ws st
  assume "c = (i, b)" "s = (ws, st)"
  then show ?thesis
    using execute_call_simps(2) [of env r "calls ! i" st]
    by (auto simp: worker_step_def Let_def split: tool_worker.split prod.split)
qed

lemma fold_worker_cache: "rs_Cache (snd (fold (worker_step env spec r calls) cs s)) = rs_Cache (snd s)"
  by (induction cs arbitrary: s) (simp_all add: worker_step_cache)

lemma run_sequence_cache: "rs_Cache (snd (run_sequence env r calls is s)) = rs_Cache (snd s)"
proof (induction "is" arbitrary: s)
  case (Cons i "is")
  obtain out st where s: "s = (out, st)" by fastforce
  obtain st' res where one: "runOne env r (calls ! i) st = (st', res)" by fastforce
  show ?case using Cons.IH [of "(out[i := res], st')"] runOne_effect(2) [OF one] by (simp add: s one)
qed simp

lemma execute_batch_cache: "rs_Cache (snd (execute_batch env spec r calls batch s)) = rs_Cache (snd s)"
proof -
  obtain out st where s: "s = (out, st)" by fastforce
  obtain ws st' where b:
    "run_batch env spec r (map (\<lambda>i. calls ! i) batch) (en_Sched env batch (rs_World st)) st = (ws, st')" by fastforce
  have "rs_Cache st' = rs_Cache st" using b fold_worker_cache unfolding run_batch_def by (metis snd_conv)
  then show ?thesis by (simp add: execute_batch_def run_sequence_cache s b)
qed

lemma executeTools_cache: "rs_Cache (snd (executeTools env spec calls st)) = rs_Cache st"
proof -
  have "rs_Cache (snd (fold (execute_batch env spec r calls) bs s)) = rs_Cache (snd s)" for r bs s
    by (induction bs arbitrary: s) (simp_all add: execute_batch_cache)
  then show ?thesis by (simp add: executeTools_def split: option.split)
qed

end
