(* ===== verification/Reasoning_Proofs.thy ===== *)
theory Reasoning_Proofs
  imports Reasoning
begin

text \<open>
  What the cleaning of a response guarantees: the answer is a subsequence of the response without outer
  white space, and a response built from text and closed thinking blocks is taken apart exactly.
\<close>

section \<open>Trimming twice\<close>

lemma decode_rune_prefix:
  assumes "fst (decode_rune p) \<noteq> RuneError"
  shows "decode_rune (p @ q) = decode_rune p"
proof (cases p)
  case (Cons a p1)
  show ?thesis
  proof (cases "byte a < 128")
    case False
    consider "p1 = []" | b where "p1 = [b]" | b c where "p1 = [b, c]" | b c d p2 where "p1 = b # c # d # p2"
      by (metis neq_Nil_conv)
    then show ?thesis using assms False Cons by cases (simp_all add: Let_def split: if_split_asm)
  qed (simp add: Cons)
qed (use assms in simp)

lemma RuneError_no_space: "\<not> PyIsSpace RuneError"
  by (simp add: PyIsSpace_iff pySpaceRanges_def RuneError_def)

text \<open>What is left of a trim on the right does not end in white space, and likewise on the left.\<close>

lemma PyRStrip_end: "PyRStrip s = [] \<or> \<not> PyIsSpace (fst (decode_last_rune (PyRStrip s)))"
proof (induction s rule: PyRStrip.induct)
  case (1 s)
  obtain r size where d: "decode_last_rune s = (r, size)" by fastforce
  show ?case
  proof (cases "s = [] \<or> \<not> PyIsSpace r")
    case True
    then have "PyRStrip s = s" by (subst PyRStrip.simps) (auto simp: d)
    then show ?thesis using True d by auto
  next
    case False
    moreover from this have "PyRStrip s = PyRStrip (take (length s - size) s)"
      by (subst PyRStrip.simps) (auto simp: d)
    ultimately show ?thesis using 1 [OF _ d [symmetric] refl] by simp
  qed
qed

lemma PyLStrip_begin: "PyLStrip s = [] \<or> \<not> PyIsSpace (fst (decode_rune (PyLStrip s)))"
proof (induction s rule: PyLStrip.induct)
  case (1 s)
  obtain r size where d: "decode_rune s = (r, size)" by fastforce
  show ?case
  proof (cases "s = [] \<or> \<not> PyIsSpace r")
    case True
    then have "PyLStrip s = s" by (subst PyLStrip.simps) (auto simp: d)
    then show ?thesis using True d by auto
  next
    case False
    moreover from this have "PyLStrip s = PyLStrip (drop size s)"
      by (subst PyLStrip.simps) (auto simp: d)
    ultimately show ?thesis using 1 [OF _ d [symmetric] refl] by simp
  qed
qed

lemma PyRStrip_id: "s = [] \<or> \<not> PyIsSpace (fst (decode_last_rune s)) \<Longrightarrow> PyRStrip s = s"
  by (subst PyRStrip.simps) (auto split: prod.splits)

lemma PyLStrip_id: "s = [] \<or> \<not> PyIsSpace (fst (decode_rune s)) \<Longrightarrow> PyLStrip s = s"
  by (subst PyLStrip.simps) (auto split: prod.splits)

lemma PyStrip_idem [simp]: "PyStrip (PyStrip s) = PyStrip s"
proof -
  let ?u = "PyLStrip s"
  obtain n where n: "PyRStrip ?u = take n ?u" using PyRStrip_prefix by blast
  have "\<not> PyIsSpace (fst (decode_rune (PyRStrip ?u)))" if "PyRStrip ?u \<noteq> []"
  proof
    assume sp: "PyIsSpace (fst (decode_rune (PyRStrip ?u)))"
    then have "fst (decode_rune (PyRStrip ?u)) \<noteq> RuneError" using RuneError_no_space by auto
    from decode_rune_prefix [OF this, of "drop n ?u"]
    have "decode_rune ?u = decode_rune (PyRStrip ?u)" by (simp add: n)
    then show False using sp PyLStrip_begin [of s] that n by auto
  qed
  then have "PyLStrip (PyRStrip ?u) = PyRStrip ?u" by (intro PyLStrip_id) blast
  moreover have "PyRStrip (PyRStrip ?u) = PyRStrip ?u" by (rule PyRStrip_id [OF PyRStrip_end])
  ultimately show ?thesis by (simp add: PyStrip_def)
qed

section \<open>The answer is part of the response\<close>

lemma malformed_loop_subseq: "subseq (malformed_loop_tags s) s"
proof (induction s rule: malformed_loop_tags.induct)
  case (1 s)
  show ?case
  proof (cases s)
    case (Cons c rest)
    show ?thesis
    proof (cases "c = CHR ''<'' \<and> malformed_end thinkingTags s \<noteq> None")
      case True
      then obtain k where k: "malformed_end thinkingTags s = Some k" by blast
      have "subseq (malformed_loop_tags (drop k s)) (drop k s)"
        using 1(3) [OF Cons _ k] True by simp
      then have "subseq (malformed_loop_tags (drop k s)) s" using suffix_drop subseq_suffix by blast
      then show ?thesis using True k Cons by (subst malformed_loop_tags.simps) simp
    next
      case False
      then have "malformed_loop_tags s = c # malformed_loop_tags rest"
        using Cons by (subst malformed_loop_tags.simps) auto
      moreover have "subseq (malformed_loop_tags rest) rest"
        using 1(1) [OF Cons] 1(2) [OF Cons] False by (cases "c = CHR ''<''") auto
      ultimately show ?thesis using Cons by simp
    qed
  qed (simp add: malformed_loop_tags.simps)
qed

lemma subseq_PyStrip: "subseq s t \<Longrightarrow> subseq (PyStrip s) t"
  using PyStrip_sublist sublist_imp_subseq subseq_order.order_trans by blast

lemma DeleteAll_subseq_trans: "subseq s t \<Longrightarrow> subseq (DeleteAll re s) t"
  using DeleteAll_subseq subseq_order.order_trans by blast

lemma stripMalformed_subseq: "subseq s t \<Longrightarrow> subseq (stripMalformedOpenTags s) t"
  unfolding stripMalformedOpenTags_def using malformed_loop_subseq subseq_order.order_trans by fastforce

lemma StripThink_subseq: "subseq (StripThink s) s"
  by (simp add: StripThink_def Let_def thinkingTags_def subseq_PyStrip DeleteAll_subseq_trans stripMalformed_subseq)

lemma StripThink_trimmed [simp]: "PyStrip (StripThink s) = StripThink s"
  by (simp add: StripThink_def Let_def)

section \<open>Expressions that need a tag\<close>

abbreviation plain :: "string \<Rightarrow> bool" where
  "plain s \<equiv> CHR ''<'' \<notin> set s"

abbreviation lt_free :: "chunk list \<Rightarrow> bool" where
  "lt_free xs \<equiv> (\<forall>x \<in> set xs. fst x \<noteq> 60)"

definition needs_lt :: "regexp \<Rightarrow> bool" where
  "needs_lt re \<longleftrightarrow> (\<forall>n xs. lt_free xs \<longrightarrow> regexp_rest n re xs = [])"

lemma lt_free_suffix: "lt_free xs \<Longrightarrow> suffix ys xs \<Longrightarrow> lt_free ys"
  by (auto simp: suffix_def)

lemma needs_lt_Lit [simp]: "needs_lt (Lit (CHR ''<'' # s))"
proof -
  have "lit_rest (CHR ''<'' # s) xs = []" if "lt_free xs" for xs using that by (cases xs) simp_all
  then show ?thesis by (simp add: needs_lt_def)
qed

lemma needs_lt_Cat1 [intro]: "needs_lt a \<Longrightarrow> needs_lt (Cat a b)"
  by (simp add: needs_lt_def)

lemma needs_lt_Cat2 [intro]:
  assumes "needs_lt b"
  shows "needs_lt (Cat a b)"
  unfolding needs_lt_def
proof (intro allI impI)
  fix n xs
  assume "lt_free xs"
  then have "regexp_rest n b ys = []" if "ys \<in> set (regexp_rest n a xs)" for ys
    using assms lt_free_suffix [OF _ regexp_rest_suffix [OF that]] by (simp add: needs_lt_def)
  then show "regexp_rest n (Cat a b) xs = []" by simp
qed

lemma needs_lt_Or [intro]: "needs_lt a \<Longrightarrow> needs_lt b \<Longrightarrow> needs_lt (Or a b)"
  by (simp add: needs_lt_def)

lemma needs_lt_all [simp]:
  "needs_lt (wellFormedTag tag)" "needs_lt unclosedBlock" "needs_lt selfClosingStart" "needs_lt selfClosingEnd"
  "needs_lt orphanCloseStart" "needs_lt orphanCloseEnd" "needs_lt channelMarker" "needs_lt partialTag"
  "needs_lt lonePipe"
  unfolding wellFormedTag_def unclosedBlock_def selfClosingStart_def selfClosingEnd_def orphanCloseStart_def
    orphanCloseEnd_def channelMarker_def partialTag_def partialThinkingTag_def lonePipe_def
  by (auto simp only: append.simps intro!: needs_lt_Lit needs_lt_Or intro: needs_lt_Cat1 needs_lt_Cat2)

lemma delete_scan_id:
  assumes "needs_lt re" "lt_free xs"
  shows "delete_scan n re xs = xs"
  using assms(2)
proof (induction xs)
  case (Cons x xs)
  then have "regexp_rest n re (x # xs) = []" using assms(1) unfolding needs_lt_def by blast
  then show ?case using Cons by (subst delete_scan.simps) simp
qed simp

lemma lt_free_chunks: "plain s \<Longrightarrow> lt_free (chunks s)"
  using chunks_mem_ascii [of "CHR ''<''"] by fastforce

lemma DeleteAll_plain: "needs_lt re \<Longrightarrow> plain s \<Longrightarrow> DeleteAll re s = s"
  by (simp add: DeleteAll_def delete_scan_id lt_free_chunks)

lemma Contains_lt: "Contains s ''<'' \<longleftrightarrow> \<not> plain s"
  by (induction s) (auto simp: HasPrefix_def)

lemma StripThink_plain: "plain s \<Longrightarrow> StripThink s = PyStrip s"
  by (simp add: StripThink_def Contains_lt)

section \<open>Closed blocks\<close>

text \<open>
  A text with closed thinking blocks: each entry is the text before a block, its tag and its body;
  only the blocks with a tag in \<open>K\<close> are written.
\<close>

type_synonym think_block = "string \<times> string \<times> string"

definition block_text :: "string \<Rightarrow> string \<Rightarrow> string" where
  "block_text g b = ''<'' @ g @ ''>'' @ b @ ''</'' @ g @ ''>''"

fun render_only :: "string set \<Rightarrow> think_block list \<Rightarrow> string \<Rightarrow> string" where
  "render_only K [] rest = rest"
| "render_only K ((t, g, b) # bs) rest =
     t @ (if g \<in> K then block_text g b else []) @ render_only K bs rest"

definition tagged_ok :: "think_block list \<Rightarrow> bool" where
  "tagged_ok bs \<longleftrightarrow> list_all (\<lambda>(t, g, b). plain t \<and> g \<in> set thinkingTags \<and> plain b) bs"

definition block_texts :: "think_block list \<Rightarrow> string" where
  "block_texts bs = concat (map fst bs)"

abbreviation block_body :: "think_block \<Rightarrow> string" where
  "block_body \<equiv> \<lambda>(t, g, b). b"

lemma tag_cases: "g \<in> set thinkingTags \<longleftrightarrow> g = ''think'' \<or> g = ''thinking'' \<or> g = ''thought''"
  by (auto simp: thinkingTags_def)

lemma tag_ascii: "g \<in> set thinkingTags \<Longrightarrow> list_all (\<lambda>c. byte c < 128) g"
  by (auto simp: thinkingTags_def)

lemma tag_plain: "g \<in> set thinkingTags \<Longrightarrow> plain g"
  by (auto simp: thinkingTags_def)

abbreviation asc :: "string \<Rightarrow> chunk list" where
  "asc s \<equiv> map (\<lambda>c. (byte c, [c])) s"

lemma chunks_block:
  assumes "g \<in> set thinkingTags"
  shows "chunks (t @ block_text g b @ s) =
    chunks t @ asc (''<'' @ g @ ''>'') @ chunks b @ asc (''</'' @ g @ ''>'') @ chunks s"
proof -
  have "chunks (t @ block_text g b @ s) = chunks t @ asc ''<'' @ chunks (g @ ''>'' @ b @ ''</'' @ g @ ''>'' @ s)"
    by (simp add: block_text_def chunks_cut)
  also have "chunks (g @ ''>'' @ b @ ''</'' @ g @ ''>'' @ s) = asc g @ chunks (''>'' @ b @ ''</'' @ g @ ''>'' @ s)"
    by (rule chunks_ascii_append [OF tag_ascii [OF assms]])
  also have "chunks (''>'' @ b @ ''</'' @ g @ ''>'' @ s) = asc ''>'' @ chunks b @ asc ''</'' @ chunks (g @ ''>'' @ s)"
    by (simp add: chunks_ascii chunks_cut)
  also have "chunks (g @ ''>'' @ s) = asc g @ asc ''>'' @ chunks s"
    by (simp add: chunks_ascii_append [OF tag_ascii [OF assms]] chunks_ascii)
  finally show ?thesis by simp
qed

lemma lit_rest_same: "lit_rest s (asc s @ xs) = [xs]"
  by (induction s) simp_all

lemma lit_rest_lt: "x \<in> set xs \<Longrightarrow> lt_free xs \<Longrightarrow> lit_rest (CHR ''<'' # s) (x # ys) = []"
  by simp

text \<open>The lazy repetition of any rune stops first at the first place where the rest matches.\<close>

lemma lazy_lit_first:
  assumes "lt_free xs" "lit_rest (CHR ''<'' # s) ys = r # rs"
  shows "\<exists>qs. concat (map (lit_rest (CHR ''<'' # s)) (lazy_rest (\<lambda>_. True) (xs @ ys))) = r # qs"
  using assms(1)
proof (induction xs)
  case Nil
  then show ?case using assms(2) by (cases ys) auto
qed simp

lemma block_match:
  assumes "plain b"
  shows "\<exists>qs. regexp_rest n (wellFormedTag g)
      (asc (''<'' @ g @ ''>'') @ chunks b @ asc (''</'' @ g @ ''>'') @ xs) = xs # qs"
proof -
  have "lit_rest (''<'' @ g @ ''>'') (asc (''<'' @ g @ ''>'') @ chunks b @ asc (''</'' @ g @ ''>'') @ xs)
      = [chunks b @ asc (''</'' @ g @ ''>'') @ xs]"
    by (rule lit_rest_same)
  moreover have "lit_rest (''</'' @ g @ ''>'') (asc (''</'' @ g @ ''>'') @ xs) = [xs]"
    by (rule lit_rest_same)
  then have "\<exists>qs. concat (map (lit_rest (''</'' @ g @ ''>'')) (lazy_rest (\<lambda>_. True)
      (chunks b @ asc (''</'' @ g @ ''>'') @ xs))) = xs # qs"
    using lazy_lit_first [OF lt_free_chunks [OF assms], of "''/'' @ g @ ''>''"] by simp
  moreover have "regexp_rest n (Lit s) = lit_rest s" for s by (rule ext) simp
  ultimately show ?thesis unfolding wellFormedTag_def by simp
qed

lemma wellFormed_no_start: "fst x \<noteq> 60 \<Longrightarrow> regexp_rest n (wellFormedTag g) (x # xs) = []"
  by (simp add: wellFormedTag_def)

lemma wellFormed_other:
  assumes "g \<in> set thinkingTags" "h \<in> set thinkingTags" "g \<noteq> h"
  shows "regexp_rest n (wellFormedTag g) (asc (''<'' @ h @ ''>'') @ xs) = []"
  using assms by (auto simp: tag_cases wellFormedTag_def)

lemma wellFormed_close:
  "g \<in> set thinkingTags \<Longrightarrow> regexp_rest n (wellFormedTag g) (asc ''</'' @ xs) = []"
  by (auto simp: tag_cases wellFormedTag_def)

lemma delete_scan_plain:
  assumes "lt_free xs"
  shows "delete_scan n (wellFormedTag g) (xs @ ys) = xs @ delete_scan n (wellFormedTag g) ys"
  by (rule delete_scan_skip) (use assms wellFormed_no_start in blast)

lemma delete_scan_nomatch:
  "regexp_rest n re (x # xs) = [] \<Longrightarrow> delete_scan n re (x # xs) = x # delete_scan n re xs"
  by (subst delete_scan.simps) simp

lemma delete_pass:
  assumes g: "g \<in> set thinkingTags" and ok: "tagged_ok bs" and rest: "plain rest"
  shows "plain acc \<Longrightarrow> chunk_text (delete_scan n (wellFormedTag g) (chunks (acc @ render_only K bs rest)))
    = acc @ render_only (K - {g}) bs rest"
  using ok
proof (induction bs arbitrary: acc)
  case Nil
  then have "delete_scan n (wellFormedTag g) (chunks (acc @ rest) @ []) = chunks (acc @ rest) @ []"
    using rest lt_free_chunks [of "acc @ rest"] by (subst delete_scan_plain) simp_all
  then show ?case by simp
next
  case (Cons e bs)
  obtain t h b where e: "e = (t, h, b)" by (cases e)
  have h: "h \<in> set thinkingTags" "plain t" "plain b" and bs: "tagged_ok bs"
    using Cons.prems(2) by (auto simp: e tagged_ok_def)
  have pre: "plain (acc @ t)" using Cons.prems h by simp
  show ?case
  proof (cases "h \<in> K")
    case False
    then show ?thesis using Cons.IH [OF pre bs] by (simp add: e)
  next
    case True
    let ?R = "chunks (render_only K bs rest)"
    let ?D = "delete_scan n (wellFormedTag g)"
    have IH: "chunk_text (?D ?R) = render_only (K - {g}) bs rest" using Cons.IH [of "[]"] bs by simp
    let ?blk = "asc (''<'' @ h @ ''>'') @ chunks b @ asc (''</'' @ h @ ''>'')"
    have split: "chunks (acc @ render_only K (e # bs) rest) = chunks (acc @ t) @ ?blk @ ?R"
      using chunks_block [OF h(1), of "acc @ t"] True by (simp add: e)
    have D: "?D (chunks (acc @ render_only K (e # bs) rest)) = chunks (acc @ t) @ ?D (?blk @ ?R)"
      unfolding split by (rule delete_scan_plain [OF lt_free_chunks [OF pre]])
    show ?thesis
    proof (cases "h = g")
      case True
      obtain qs where "regexp_rest n (wellFormedTag g) (?blk @ ?R) = ?R # qs"
        using block_match [OF h(3), of n g ?R] True by auto
      then have "?D (?blk @ ?R) = ?D ?R" by (simp add: delete_scan_match)
      then show ?thesis using D IH True by (simp add: e)
    next
      case False
      have 1: "?D (?blk @ ?R) = (60, ''<'') # ?D (asc (h @ ''>'') @ chunks b @ asc (''</'' @ h @ ''>'') @ ?R)"
        using wellFormed_other [OF g h(1), of n "chunks b @ asc (''</'' @ h @ ''>'') @ ?R"] False
        by (simp add: delete_scan_nomatch)
      have f: "lt_free (asc (h @ ''>''))" "lt_free (asc (''/'' @ h @ ''>''))"
        using h(1) by (auto simp: tag_cases)
      have 2: "?D (asc (h @ ''>'') @ chunks b @ asc (''</'' @ h @ ''>'') @ ?R)
          = asc (h @ ''>'') @ chunks b @ ?D (asc (''</'' @ h @ ''>'') @ ?R)"
        using delete_scan_plain [OF f(1)] delete_scan_plain [OF lt_free_chunks [OF h(3)]] by simp
      have 3: "?D (asc (''</'' @ h @ ''>'') @ ?R) = (60, ''<'') # asc (''/'' @ h @ ''>'') @ ?D ?R"
        using wellFormed_close [OF g, of n "asc (h @ ''>'') @ ?R"] delete_scan_plain [OF f(2), of n g ?R]
        by (simp add: delete_scan_nomatch)
      have "chunk_text (asc s) = s" for s by (induction s) simp_all
      then show ?thesis using D IH False True 1 2 3 by (simp add: e block_text_def)
    qed
  qed
qed

lemma DeleteAll_pass:
  "g \<in> set thinkingTags \<Longrightarrow> tagged_ok bs \<Longrightarrow> plain rest \<Longrightarrow>
   DeleteAll (wellFormedTag g) (render_only K bs rest) = render_only (K - {g}) bs rest"
  using delete_pass [of g bs rest "[]"] by (simp add: DeleteAll_def)

lemma render_none: "tagged_ok bs \<Longrightarrow> set thinkingTags \<inter> K = {} \<Longrightarrow>
    render_only K bs rest = block_texts bs @ rest"
  by (induction bs) (auto simp: tagged_ok_def block_texts_def)

lemma texts_plain: "tagged_ok bs \<Longrightarrow> plain (block_texts bs)"
  by (auto simp: tagged_ok_def block_texts_def list_all_iff)

lemma StripThink_blocks:
  assumes "tagged_ok bs" "plain rest"
  shows "StripThink (render_only UNIV bs rest) = PyStrip (block_texts bs @ rest)"
proof (cases "plain (render_only UNIV bs rest)")
  case True
  then have "bs = []" by (cases bs) (auto simp: block_text_def)
  then show ?thesis using assms by (simp add: StripThink_plain block_texts_def)
next
  case False
  let ?t = "block_texts bs @ rest"
  have "fold (\<lambda>tag. DeleteAll (wellFormedTag tag)) thinkingTags (render_only UNIV bs rest) = ?t"
    using render_none [OF assms(1), of "UNIV - {''think''} - {''thinking''} - {''thought''}"]
    by (simp add: thinkingTags_def DeleteAll_pass assms)
  moreover have "plain ?t" using texts_plain assms by simp
  ultimately show ?thesis
    using False by (simp add: StripThink_def Contains_lt DeleteAll_plain stripMalformedOpenTags_def)
qed

section \<open>The bodies of the blocks\<close>

lemma find_open_plain: "plain t \<Longrightarrow> find_open (t @ s) i = find_open s (i + length t)"
  by (induction t arbitrary: i) auto

lemma find_open_block:
  assumes "g \<in> set thinkingTags"
  shows "find_open (block_text g b @ s) i = Some (i, g)"
  using assms by (auto simp: tag_cases block_text_def thinkingTags_def HasPrefix_def)

lemma IndexOf_first: "plain b \<Longrightarrow> IndexOf (b @ CHR ''<'' # p @ s) (CHR ''<'' # p) = Some (length b)"
proof (induction b)
  case Nil
  then show ?case by (subst IndexOf.simps) (simp add: HasPrefix_def)
next
  case (Cons c b)
  then show ?case by (subst IndexOf.simps) (auto simp: HasPrefix_def)
qed

lemma inline_loop_blocks:
  assumes "tagged_ok bs" "plain rest"
  shows "inline_loop (pre @ render_only UNIV bs rest) (length pre) parts = parts @ map (PyStrip \<circ> block_body) bs"
  using assms(1)
proof (induction bs arbitrary: pre parts)
  case Nil
  have "find_open rest i = None" for i using find_open_plain [OF assms(2), of "[]"] by simp
  then show ?case by (subst inline_loop.simps) simp
next
  case (Cons e bs)
  obtain t g b where e: "e = (t, g, b)" by (cases e)
  have g: "g \<in> set thinkingTags" "plain t" "plain b" and bs: "tagged_ok bs"
    using Cons.prems by (auto simp: e tagged_ok_def)
  let ?r = "render_only UNIV bs rest"
  let ?text = "pre @ render_only UNIV (e # bs) rest"
  have lay: "?text = pre @ t @ ''<'' @ g @ ''>'' @ b @ ''</'' @ g @ ''>'' @ ?r"
    by (simp add: e block_text_def)
  have "find_open (drop (length pre) ?text) (length pre) = Some (length pre + length t, g)"
    using find_open_plain [OF g(2), of "block_text g b @ ?r" "length pre"] find_open_block [OF g(1)] by (simp add: e)
  moreover have "drop (length pre + length t + length g + 2) ?text = b @ CHR ''<'' # (''/'' @ g @ ''>'') @ ?r"
    unfolding lay by simp
  then have "IndexOf (drop (length pre + length t + length g + 2) ?text) (''</'' @ g @ ''>'') = Some (length b)"
    using IndexOf_first [OF g(3), of "''/'' @ g @ ''>''" ?r] by simp
  moreover have "drop (length pre + length t + length g + 2)
      (take (length pre + length t + length g + 2 + length b) ?text) = b"
    unfolding lay by simp
  ultimately have "inline_loop ?text (length pre) parts
      = inline_loop ?text (length pre + length t + length g + 2 + length b + length (''</'' @ g @ ''>'')) (parts @ [PyStrip b])"
    by (subst inline_loop.simps) (simp add: Let_def e block_text_def)
  also have "\<dots> = inline_loop ((pre @ t @ block_text g b) @ ?r) (length (pre @ t @ block_text g b)) (parts @ [PyStrip b])"
    by (simp add: e block_text_def algebra_simps)
  also have "\<dots> = (parts @ [PyStrip b]) @ map (PyStrip \<circ> block_body) bs" by (rule Cons.IH [OF bs])
  finally show ?case by (simp add: e)
qed

lemma render_close: "bs \<noteq> [] \<Longrightarrow> Contains (render_only UNIV bs rest) ''</''"
proof -
  have pre: "Contains (x @ ''</'' @ y) ''</''" for x y
    by (induction x) (simp_all add: HasPrefix_def)
  assume "bs \<noteq> []"
  then obtain t g b bs' where "bs = (t, g, b) # bs'" by (cases bs) auto
  then show ?thesis using pre [of "t @ ''<'' @ g @ ''>'' @ b" "g @ ''>'' @ render_only UNIV bs' rest"]
    by (simp add: block_text_def)
qed

lemma render_not_plain: "bs \<noteq> [] \<Longrightarrow> \<not> plain (render_only UNIV bs rest)"
  by (cases bs) (auto simp: block_text_def)

lemma ExtractReasoning_cleaned:
  "s \<noteq> [] \<Longrightarrow> snd (ExtractReasoning reasoning thinking (Some s)) = Some (StripThink s)"
  by (auto simp: ExtractReasoning_def stripContentOrSelf_def ExtractThink_def Let_def StripThink_plain Contains_lt)

lemmas strip_eval = PyStrip_def PyLStrip.simps PyRStrip.simps PyIsSpace_iff pySpaceRanges_def decode_last_rune_def

lemmas scan_eval = DeleteAll_def chunks_ascii delete_scan.simps thinkingTagAlt_def thinkingTags_def pySpaceClass_def
  pySpaceRanges_def pyEnd_def partialThinkingTag_def



text \<open>Deleting a block may put a new one together, which is not looked for again.\<close>

lemma nested_block_survives: "StripThink ''a<thi<think>x</think>nk>s</think>b'' = ''a<think>s</think>b''"
proof -
  let ?s = "''a<think>s</think>b''"
  have think: "DeleteAll (wellFormedTag ''think'') ''a<thi<think>x</think>nk>s</think>b'' = ?s"
    by (simp add: scan_eval wellFormedTag_def)
  have thinking: "DeleteAll (wellFormedTag ''thinking'') ?s = ?s" by (simp add: scan_eval wellFormedTag_def)
  have thought: "DeleteAll (wellFormedTag ''thought'') ?s = ?s" by (simp add: scan_eval wellFormedTag_def)
  have unclosedBlock: "DeleteAll unclosedBlock ?s = ?s" by (simp add: scan_eval unclosedBlock_def)
  have selfClosingStart: "DeleteAll selfClosingStart ?s = ?s" by (simp add: scan_eval selfClosingStart_def)
  have selfClosingEnd: "DeleteAll selfClosingEnd ?s = ?s" by (simp add: scan_eval selfClosingEnd_def)
  have orphanCloseStart: "DeleteAll orphanCloseStart ?s = ?s" by (simp add: scan_eval orphanCloseStart_def)
  have orphanCloseEnd: "DeleteAll orphanCloseEnd ?s = ?s" by (simp add: scan_eval orphanCloseEnd_def)
  have channelMarker: "DeleteAll channelMarker ?s = ?s" by (simp add: scan_eval channelMarker_def)
  have partialTag: "DeleteAll partialTag ?s = ?s" by (simp add: scan_eval partialTag_def)
  have lonePipe: "DeleteAll lonePipe ?s = ?s" by (simp add: scan_eval lonePipe_def)
  have malformed: "stripMalformedOpenTags ?s = ?s"
    by (simp add: stripMalformedOpenTags_def Contains_lt malformed_loop_tags.simps isTagNameChar_def thinkingTags_def)
  have "PyStrip ?s = ?s" by (simp add: strip_eval)
  moreover have "fold (\<lambda>tag. DeleteAll (wellFormedTag tag)) thinkingTags ''a<thi<think>x</think>nk>s</think>b'' = ?s"
    by (simp only: thinkingTags_def fold_simps id_apply o_apply think thinking thought)
  ultimately show ?thesis
    by (simp only: StripThink_def Contains_lt Let_def unclosedBlock selfClosingStart selfClosingEnd malformed
        orphanCloseStart orphanCloseEnd channelMarker partialTag lonePipe) simp
qed

text \<open>A tag name cut in half is removed only behind its bracket.\<close>

lemma partial_name_kept: "StripReasoningTags (Some (JString ''<b>answer t'')) = ''<b>answer t''"
proof -
  let ?s = "''<b>answer t''"
  have stripReasoningSelfCloseStart: "DeleteAll stripReasoningSelfCloseStart ?s = ?s" by (simp add: scan_eval stripReasoningSelfCloseStart_def)
  have stripReasoningSelfCloseEnd: "DeleteAll stripReasoningSelfCloseEnd ?s = ?s" by (simp add: scan_eval stripReasoningSelfCloseEnd_def)
  have stripReasoningOpenStart: "DeleteAll stripReasoningOpenStart ?s = ?s" by (simp add: scan_eval stripReasoningOpenStart_def)
  have stripReasoningCloseEnd: "DeleteAll stripReasoningCloseEnd ?s = ?s" by (simp add: scan_eval stripReasoningCloseEnd_def)
  have stripReasoningPartial: "DeleteAll stripReasoningPartial ?s = ?s" by (simp add: scan_eval stripReasoningPartial_def)
  have "PyStrip ?s = ?s" by (simp add: strip_eval)
  then show ?thesis
    by (simp only: StripReasoningTags_def Contains_lt Let_def option.case json.case stripReasoningSelfCloseStart
        stripReasoningSelfCloseEnd stripReasoningOpenStart stripReasoningCloseEnd stripReasoningPartial) simp
qed

end
