(* ===== verification/Runner_Proofs.thy ===== *)
theory Runner_Proofs
  imports Runner_Batch Reasoning_Proofs Governance_Proofs
begin

text \<open>
  What holds of every run of \<open>Runner\<close>, whatever the provider, the tools, the hook and the scheduler do.
  The locale \<open>run_trace\<close> gives a property of traces to a whole run once the parts of a run have it.
\<close>

section \<open>Traces\<close>

lemma note_event_simps [simp]:
  "rs_Trace (note_event ev st) = rs_Trace st @ [ev]" "rs_Cache (note_event ev st) = rs_Cache st"
  by (simp_all add: note_event_def)

text \<open>The events that one state adds to another.\<close>

definition adds :: "'w run_state \<Rightarrow> run_event list \<Rightarrow> 'w run_state \<Rightarrow> bool" where
  "adds st evs st' \<longleftrightarrow> rs_Trace st' = rs_Trace st @ evs"

lemma adds_refl [simp]: "adds st [] st"
  by (simp add: adds_def)

lemma adds_trans: "adds st xs st' \<Longrightarrow> adds st' ys st'' \<Longrightarrow> adds st (xs @ ys) st''"
  by (simp add: adds_def)

lemma govern_trace:
  assumes "govern env spec ms st = (st', res)"
  shows "adds st [] st'"
  using assms by (auto simp: govern_def adds_def Let_def split: prod.splits if_splits sum.splits)

lemma toolMessage_state: "rs_Trace (fst (toolMessage env spec tr name st)) = rs_Trace st"
  "rs_Cache (fst (toolMessage env spec tr name st)) = rs_Cache st"
  by (simp_all add: toolMessage_def split: prod.split)

lemma tool_messages_state: "rs_Trace (snd (tool_messages env spec calls results st)) = rs_Trace st
    \<and> rs_Cache (snd (tool_messages env spec calls results st)) = rs_Cache st"
proof (induction env spec calls results st rule: tool_messages.induct)
  case (1 env spec c calls tr results st)
  obtain st1 m where m: "toolMessage env spec tr (tc_Name c) st = (st1, m)" by fastforce
  obtain ms st2 where ms: "tool_messages env spec calls results st1 = (ms, st2)" by fastforce
  show ?case using 1 [OF m [symmetric] refl] toolMessage_state [of env spec tr "tc_Name c" st] m ms by simp
qed simp_all

lemma Sleep_adds: "SleepWithContext env d st = (st', ok) \<Longrightarrow> adds st [] st' \<or> adds st [Slept d] st'"
  by (auto simp: SleepWithContext_def adds_def split: if_splits prod.splits)

text \<open>How the loop of attempts goes on after one of them.\<close>

lemma request_loop_cases:
  assumes "request_loop env spec ms attempt b st = (res, b', st')"
    "requestModelOnce env spec ms b st = (res1, b1, st1)"
  obtains "(res, b', st') = (res1, b1, st1)"
      "\<forall>resp. res1 = Inr resp \<and> rs_FinishReason resp = FinishError \<and> fst (ClassifyResponse (en_Lower env) (Some resp))
         \<longrightarrow> length (retry_delays spec) < attempt"
  | d where "res = res1" "b' = b1" "SleepWithContext env d st1 = (st', False)"
  | resp st2 where "res1 = Inr resp" "rs_FinishReason resp = FinishError"
      "fst (ClassifyResponse (en_Lower env) (Some resp))" "attempt \<le> length (retry_delays spec)"
      "st2 = st1 \<or> (\<exists>d. SleepWithContext env d st1 = (st2, True))"
      "request_loop env spec ms (Suc attempt) b1 st2 = (res, b', st')"
proof (cases res1)
  case (Inl e)
  then show thesis using that(1) assms by (subst (asm) request_loop.simps) (simp add: Let_def)
next
  case (Inr resp)
  obtain tr ra where c: "ClassifyResponse (en_Lower env) (Some resp) = (tr, ra)" by fastforce
  let ?d = "RetryDelay attempt ra (retry_delays spec)"
  obtain st2 ok where sl: "SleepWithContext env (delay_nanos ?d) st1 = (st2, ok)" by fastforce
  have "request_loop env spec ms attempt b st =
      (if rs_FinishReason resp \<noteq> FinishError \<or> \<not> tr \<or> length (retry_delays spec) < attempt then (res1, b1, st1)
       else if f64_less (FZero False) ?d
       then (if ok then request_loop env spec ms (Suc attempt) b1 st2 else (res1, b1, st2))
       else request_loop env spec ms (Suc attempt) b1 st1)"
    using assms(2) Inr c sl by (subst request_loop.simps) (simp add: Let_def cong: if_cong)
  note e = this [unfolded assms(1)]
  show thesis
  proof (cases "rs_FinishReason resp \<noteq> FinishError \<or> \<not> tr \<or> length (retry_delays spec) < attempt")
    case True
    then show thesis using that(1) e c Inr by auto
  next
    case False
    then have f: "rs_FinishReason resp = FinishError" "fst (ClassifyResponse (en_Lower env) (Some resp))"
      "attempt \<le> length (retry_delays spec)" using c by simp_all
    consider "\<not> f64_less (FZero False) ?d" | "f64_less (FZero False) ?d" ok | "f64_less (FZero False) ?d" "\<not> ok" by blast
    then show thesis
    proof cases
      case 1
      then show thesis using that(3) [OF Inr f, of st1] e False by simp
    next
      case 2
      then show thesis using that(3) [OF Inr f, of st2] e False sl by auto
    next
      case 3
      then show thesis using that(2) [of "delay_nanos ?d"] e False sl by simp
    qed
  qed
qed

locale run_trace =
  fixes env :: "'w run_env" and spec :: "'w RunSpec" and Q :: "run_event list \<Rightarrow> bool" and I :: "'w run_state \<Rightarrow> bool"
  assumes Q_Nil: "Q []"
    and Q_append: "\<And>xs ys. Q xs \<Longrightarrow> Q ys \<Longrightarrow> Q (xs @ ys)"
    and Q_before: "\<And>i ms. Q [BeforeIteration i ms]"
    and Q_slept: "\<And>d. Q [Slept d]"
    and Q_reasoning: "\<And>t. t \<noteq> [] \<Longrightarrow> Q [OnReasoningDelta t, OnReasoningEnd]"
    and Q_request: "\<And>tools ms b st res b' st'. tools \<in> {sp_Tools spec, None} \<Longrightarrow> I st \<Longrightarrow>
      requestModelOnce env (spec\<lparr>sp_Tools := tools\<rparr>) ms b st = (res, b', st') \<Longrightarrow> I st' \<and> (\<exists>evs. adds st evs st' \<and> Q evs)"
    and Q_tools: "\<And>calls st out st'. I st \<Longrightarrow> executeTools env spec calls st = (out, st') \<Longrightarrow>
      I st' \<and> (\<exists>evs. adds st evs st' \<and> Q evs)"
    and I_cache: "\<And>st st'. rs_Cache st' = rs_Cache st \<Longrightarrow> I st \<Longrightarrow> I st'"
begin

definition good :: "'w run_state \<Rightarrow> 'w run_state \<Rightarrow> bool" where
  "good st st' \<longleftrightarrow> (I st \<longrightarrow> I st' \<and> (\<exists>evs. adds st evs st' \<and> Q evs))"

lemma good_trans: "good st st' \<Longrightarrow> good st' st'' \<Longrightarrow> good st st''"
  unfolding good_def using adds_trans Q_append by blast

lemma goodI: "rs_Cache st' = rs_Cache st \<Longrightarrow> adds st evs st' \<Longrightarrow> Q evs \<Longrightarrow> good st st'"
  unfolding good_def using I_cache by blast

lemma good_refl: "good st st"
  by (rule goodI [OF refl adds_refl Q_Nil])

lemma good_once: "requestModelOnce env spec ms b st = (res, b', st') \<Longrightarrow> good st st'"
  using Q_request [of "sp_Tools spec" st ms b] by (auto simp: good_def)

lemma good_once_noTools: "requestModelOnce env (spec\<lparr>sp_Tools := None\<rparr>) ms b st = (res, b', st') \<Longrightarrow> good st st'"
  using Q_request [of None st ms b] by (auto simp: good_def)

lemma good_sleep: "SleepWithContext env d st = (st', ok) \<Longrightarrow> good st st'"
proof -
  assume s: "SleepWithContext env d st = (st', ok)"
  then have "rs_Cache st' = rs_Cache st" by (auto simp: SleepWithContext_def split: if_splits prod.splits)
  then show ?thesis using Sleep_adds [OF s] goodI Q_Nil Q_slept by blast
qed

lemma good_request: "request_loop env spec ms attempt b st = (res, b', st') \<Longrightarrow> good st st'"
proof (induction "Suc (length (retry_delays spec)) - attempt" arbitrary: attempt b st rule: less_induct)
  case less
  obtain res1 b1 st1 where once: "requestModelOnce env spec ms b st = (res1, b1, st1)" by (metis prod_cases3)
  have g1: "good st st1" by (rule good_once [OF once])
  show ?case
  proof (rule request_loop_cases [OF less.prems once])
    assume "(res, b', st') = (res1, b1, st1)"
    then show ?thesis using g1 by simp
  next
    fix d
    assume "SleepWithContext env d st1 = (st', False)"
    then show ?thesis using g1 good_sleep good_trans by blast
  next
    fix resp st2
    assume again: "attempt \<le> length (retry_delays spec)" "st2 = st1 \<or> (\<exists>d. SleepWithContext env d st1 = (st2, True))"
      "request_loop env spec ms (Suc attempt) b1 st2 = (res, b', st')"
    have "good st1 st2" using again(2) good_sleep good_refl by auto
    moreover have "good st2 st'" by (rule less.hyps [OF _ again(3)]) (use again(1) in simp)
    ultimately show ?thesis using g1 good_trans by blast
  qed
qed

lemma good_finalize: "finalizeAfterMaxIterations env spec ms st = (x, st') \<Longrightarrow> good st st'"
proof (cases "shouldFinalizeOnMaxIterations spec")
  case True
  assume f: "finalizeAfterMaxIterations env spec ms st = (x, st')"
  obtain res b st1 where once: "requestModelOnce env (spec\<lparr>sp_Tools := None\<rparr>)
      (ms @ [NewMessage RoleUser BudgetExhaustedFinalizationPrompt]) False st = (res, b, st1)" by (metis prod_cases3)
  have "st' = st1"
    using f True once by (auto simp: finalizeAfterMaxIterations_def Let_def split: sum.splits if_splits)
  then show ?thesis using good_once_noTools [OF once] by simp
qed (simp add: finalizeAfterMaxIterations_def good_refl)

lemma good_tool_branch: "tool_branch env spec it resp clean calls ls st = (oc, st') \<Longrightarrow> good st st'"
proof -
  assume t: "tool_branch env spec it resp clean calls ls st = (oc, st')"
  obtain results st1 where x: "executeTools env spec calls st = (results, st1)" by fastforce
  obtain tms st2 where m: "tool_messages env spec calls results st1 = (tms, st2)" by fastforce
  obtain seen used where u: "use_tools calls (ls_seenTools ls) (rr_ToolsUsed (ls_result ls)) = (seen, used)" by fastforce
  obtain y st3 where f: "finalizeAfterMaxIterations env spec
      (ls_messages ls @ assistantMessage resp clean calls # tms) st2 = (y, st3)" by fastforce
  have "good st st1" using Q_tools [OF _ x] by (auto simp: good_def)
  moreover have "good st1 st2"
    using tool_messages_state [of env spec calls results st1] m by (intro goodI [OF _ _ Q_Nil]) (simp_all add: adds_def)
  moreover have "st' = st2 \<or> st' = st3" using t by (auto simp: tool_branch_def Let_def u x m f split: if_splits)
  moreover have "good st2 st3" by (rule good_finalize [OF f])
  ultimately show ?thesis using good_trans by blast
qed

lemma good_respond: "respond env spec it b resp ls st = (oc, st') \<Longrightarrow> good st st'"
proof -
  assume r: "respond env spec it b resp ls st = (oc, st')"
  obtain rt cl where x: "ExtractReasoning (Some (rs_ReasoningContent resp)) (rs_ThinkingBlocks resp)
      (Some (rs_Content resp)) = (rt, cl)" by fastforce
  define st1 where "st1 = (case rt of None \<Rightarrow> st | Some t \<Rightarrow> if t \<noteq> [] \<and> \<not> b
      then hook env OnReasoningEnd (hook env (OnReasoningDelta t) st) else st)"
  have "good st st1"
  proof (cases "\<exists>t. rt = Some t \<and> t \<noteq> [] \<and> \<not> b")
    case True
    then obtain t where t: "rt = Some t" "t \<noteq> []" "\<not> b" by blast
    then show ?thesis
      by (intro goodI [OF _ _ Q_reasoning [OF t(2)]]) (simp_all add: st1_def adds_def)
  next
    case False
    then have "st1 = st" by (auto simp: st1_def split: option.splits)
    then show ?thesis by (simp add: good_refl)
  qed
  moreover have "st' = st1 \<or> (\<exists>resp' clean calls ls'. tool_branch env spec it resp' clean calls ls' st1 = (oc, st'))"
    using r unfolding respond_def x by (auto simp: Let_def st1_def split: if_splits)
  ultimately show ?thesis using good_tool_branch good_trans by blast
qed

lemma good_iteration: "iteration_step env spec it ls st = (oc, st') \<Longrightarrow> good st st'"
proof (cases "en_CtxErr env (rs_World st)")
  case None
  assume s: "iteration_step env spec it ls st = (oc, st')"
  obtain w err where b: "en_Before env it (ls_messages ls) (rs_World st) = (w, err)" by fastforce
  define st1 where "st1 = (note_event (BeforeIteration it (ls_messages ls)) st)\<lparr>rs_World := w\<rparr>"
  obtain res sr st2 where m: "requestModel env spec (ls_messages ls) False st1 = (res, sr, st2)" by (metis prod_cases3)
  have "good st st1" by (rule goodI [OF _ _ Q_before]) (simp_all add: st1_def adds_def)
  moreover have "good st1 st2" using good_request m unfolding requestModel_def by blast
  moreover have "st' = st1 \<or> st' = st2 \<or> (\<exists>b' resp. respond env spec it b' resp ls st2 = (oc, st'))"
    using s None b m by (auto simp: iteration_step_def Let_def split: option.splits sum.splits simp flip: st1_def)
  ultimately show ?thesis using good_respond good_trans by blast
qed (simp add: iteration_step_def good_refl)

lemma good_loop: "run_loop n env spec it ls st = (res, st') \<Longrightarrow> good st st'"
proof (induction n arbitrary: it ls st)
  case (Suc n)
  obtain oc st1 where s: "iteration_step env spec it ls st = (oc, st1)" by fastforce
  then show ?case
    using Suc good_iteration [OF s] good_trans by (cases oc) auto
qed (simp add: good_refl)

end

section \<open>Groups of reasoning\<close>

text \<open>
  The reasoning group a reader of the trace sees open: a non-empty piece of reasoning opens it, only
  an open group is closed, and nothing but reasoning (or an empty piece of text) comes inside.
\<close>

fun groups :: "bool \<Rightarrow> run_event list \<Rightarrow> bool option" where
  "groups op [] = Some op"
| "groups op (OnReasoningDelta t # es) = groups (op \<or> t \<noteq> []) es"
| "groups op (OnReasoningEnd # es) = (if op then groups False es else None)"
| "groups op (OnTextDelta t # es) = (if op \<and> t \<noteq> [] then None else groups op es)"
| "groups op (e # es) = (if op then None else groups op es)"

lemma groups_append: "groups op (xs @ ys) = Option.bind (groups op xs) (\<lambda>op. groups op ys)"
  by (induction op xs rule: groups.induct) simp_all

lemma groups_tools: "list_all (tool_event calls) evs \<Longrightarrow> groups False evs = Some False"
proof (induction evs)
  case (Cons e evs)
  then show ?case by (cases e) (simp_all add: tool_event_def)
qed simp

fun is_request :: "run_event \<Rightarrow> bool" where
  "is_request (Requested req) = True"
| "is_request _ = False"

definition requests :: "run_event list \<Rightarrow> run_event list" where
  "requests evs = filter is_request evs"

lemma requests_simps [simp]:
  "requests [] = []" "requests (xs @ ys) = requests xs @ requests ys"
  "requests (e # es) = (if is_request e then [e] else []) @ requests es"
  by (simp_all add: requests_def)

lemma requests_tools: "list_all (tool_event calls) evs \<Longrightarrow> requests evs = []"
proof (induction evs)
  case (Cons e evs)
  then show ?case by (cases e) (simp_all add: tool_event_def)
qed simp

definition stream_inv :: "run_event list \<Rightarrow> stream_acc \<times> bool \<times> 'w run_state \<Rightarrow> bool" where
  "stream_inv tr s \<longleftrightarrow>
     (case s of (a, b, st) \<Rightarrow> \<exists>evs. rs_Trace st = tr @ evs \<and> groups False evs = Some (sa_open a) \<and> requests evs = [])"

lemma closeNative_inv:
  assumes "stream_inv tr (a, b, st)" "closeNativeReasoning env a st = (a', st')"
  shows "stream_inv tr (a', b', st') \<and> \<not> sa_open a' \<and> rs_Cache st' = rs_Cache st
    \<and> a' = a\<lparr>sa_open := False\<rparr>"
proof -
  obtain evs where e: "rs_Trace st = tr @ evs" "groups False evs = Some (sa_open a)" "requests evs = []"
    using assms(1) by (auto simp: stream_inv_def)
  show ?thesis
  proof (cases "sa_open a")
    case True
    then have "a' = a\<lparr>sa_open := False\<rparr>" "st' = hook env OnReasoningEnd st"
      using assms(2) by (simp_all add: closeNativeReasoning_def)
    moreover have "groups False (evs @ [OnReasoningEnd]) = Some False" using e True by (simp add: groups_append)
    ultimately show ?thesis using e by (auto simp: stream_inv_def intro!: exI [of _ "evs @ [OnReasoningEnd]"])
  next
    case False
    then show ?thesis using assms(2) e by (auto simp: closeNativeReasoning_def stream_inv_def)
  qed
qed

lemma stream_inv_event:
  assumes "stream_inv tr s"
  shows "stream_inv tr (stream_event env ev s) \<and> rs_Cache (snd (snd (stream_event env ev s))) = rs_Cache (snd (snd s))"
proof -
  obtain a b st where s: "s = (a, b, st)" by (metis prod_cases3)
  obtain evs where e: "rs_Trace st = tr @ evs" "groups False evs = Some (sa_open a)" "requests evs = []"
    using assms by (auto simp: stream_inv_def s)
  show ?thesis
  proof (cases "se_Kind ev")
    case StreamText
    let ?a = "a\<lparr>sa_text := sa_text a @ se_Text ev\<rparr>"
    obtain a' st' where c: "(if se_Text ev \<noteq> [] then closeNativeReasoning env ?a st else (?a, st)) = (a', st')" by fastforce
    have i: "stream_inv tr (?a, b, st)" using e by (auto simp: stream_inv_def)
    have "stream_inv tr (a', b, st') \<and> (se_Text ev \<noteq> [] \<longrightarrow> \<not> sa_open a') \<and> rs_Cache st' = rs_Cache st"
      using c closeNative_inv [OF i] i by (auto split: if_splits)
    then obtain es where es: "rs_Trace st' = tr @ es" "groups False es = Some (sa_open a')" "requests es = []"
      "se_Text ev \<noteq> [] \<longrightarrow> \<not> sa_open a'" "rs_Cache st' = rs_Cache st"
      by (auto simp: stream_inv_def)
    have "groups False (es @ [OnTextDelta (se_Text ev)]) = Some (sa_open a')"
      using es(2,4) by (cases "se_Text ev = []") (simp_all add: groups_append)
    moreover have "stream_event env ev s = (a', b, hook env (OnTextDelta (se_Text ev)) st')"
      by (simp only: stream_event_def s StreamText prod.case StreamEventKind.case Let_def c)
    ultimately show ?thesis
      using es by (auto simp: stream_inv_def s intro!: exI [of _ "es @ [OnTextDelta (se_Text ev)]"])
  next
    case StreamReasoning
    have "groups False (evs @ [OnReasoningDelta (se_Text ev)]) = Some (sa_open a \<or> se_Text ev \<noteq> [])"
      using e by (simp add: groups_append)
    then show ?thesis
      using e StreamReasoning
      by (auto simp: stream_inv_def stream_event_def s Let_def intro!: exI [of _ "evs @ [OnReasoningDelta (se_Text ev)]"])
  next
    case StreamToolCall
    have "sa_open (add_fragment ev a) = sa_open a" by (simp add: add_fragment_def Let_def)
    then show ?thesis using e StreamToolCall by (auto simp: stream_inv_def stream_event_def s)
  qed (use e in \<open>auto simp: stream_inv_def stream_event_def s\<close>)
qed

lemma stream_inv_fold:
  "stream_inv tr s \<Longrightarrow> stream_inv tr (fold (stream_event env) evs s) \<and>
   rs_Cache (snd (snd (fold (stream_event env) evs s))) = rs_Cache (snd (snd s))"
proof (induction evs arbitrary: s)
  case (Cons ev evs)
  then show ?case using stream_inv_event [OF Cons.prems, of env ev] Cons.IH [of "stream_event env ev s"] by simp
qed simp

lemma consumeStream_groups:
  assumes "consumeStream env events ending b st = (res, b', st')"
  shows "rs_Cache st' = rs_Cache st \<and> (\<exists>evs. adds st evs st' \<and> groups False evs = Some False \<and> requests evs = [])"
proof -
  obtain a1 b1 st1 where f: "fold (stream_event env) events (new_acc, b, st) = (a1, b1, st1)" by (metis prod_cases3)
  obtain a2 st2 where c: "closeNativeReasoning env a1 st1 = (a2, st2)" by fastforce
  have "stream_inv (rs_Trace st) (new_acc, b, st)" by (auto simp: stream_inv_def new_acc_def intro!: exI [of _ "[]"])
  from stream_inv_fold [OF this, of env events]
  have i: "stream_inv (rs_Trace st) (a1, b1, st1)" "rs_Cache st1 = rs_Cache st" using f by simp_all
  have "st' = st2" using assms f c by (auto simp: consumeStream_def split: stream_end.splits)
  then show ?thesis using closeNative_inv [OF i(1) c] i(2) by (auto simp: stream_inv_def adds_def)
qed

lemma once_cases:
  assumes "requestModelOnce env spec ms b st = (res, b', st')"
  obtains e where "govern env spec ms st = (st', Inl e)" "res = Inl e" "b' = b"
  | ms' st1 evs where "govern env spec ms st = (st1, Inr ms')" "rs_Cache st' = rs_Cache st1"
      "adds st (Requested (chat_request spec ms') # evs) st'" "groups False evs = Some False" "requests evs = []"
proof -
  obtain st1 governed where g: "govern env spec ms st = (st1, governed)" by fastforce
  show thesis
  proof (cases governed)
    case (Inl e)
    then show thesis using that(1) assms g by (simp add: requestModelOnce_def)
  next
    case (Inr ms')
    let ?req = "chat_request spec ms'" and ?st2 = "note_event (Requested (chat_request spec ms')) st1"
    have t: "rs_Trace st1 = rs_Trace st" using govern_trace [OF g] by (simp add: adds_def)
    show thesis
    proof (cases "en_Stream env")
      case None
      then have "rs_Trace st' = rs_Trace ?st2" "rs_Cache st' = rs_Cache st1"
        using assms g Inr by (auto simp: requestModelOnce_def Let_def split: prod.splits)
      then show thesis using that(2) [OF g [unfolded Inr], of "[]"] t by (simp add: adds_def)
    next
      case (Some chatStream)
      obtain w x where x: "chatStream ?req (rs_World ?st2) = (w, x)" by fastforce
      let ?st3 = "?st2\<lparr>rs_World := w\<rparr>"
      have tr: "rs_Trace ?st3 = rs_Trace st @ [Requested ?req]" "rs_Cache ?st3 = rs_Cache st1" using t by simp_all
      show thesis
      proof (cases x)
        case (Inl e)
        then have "st' = ?st3" using assms g Inr Some x by (simp add: requestModelOnce_def Let_def)
        then show thesis using that(2) [OF g [unfolded Inr], of "[]"] tr by (simp add: adds_def)
      next
        case xr: (Inr y)
        obtain events ending where y: "y = (events, ending)" by fastforce
        have "consumeStream env events ending b ?st3 = (res, b', st')"
          using assms g Inr Some x xr y by (simp add: requestModelOnce_def Let_def)
        from consumeStream_groups [OF this] obtain evs where
          "rs_Cache st' = rs_Cache ?st3" "adds ?st3 evs st'" "groups False evs = Some False" "requests evs = []" by blast
        then show thesis using that(2) [OF g [unfolded Inr], of evs] tr by (simp add: adds_def)
      qed
    qed
  qed
qed

lemma executeTools_adds:
  assumes "executeTools env spec calls st = (out, st')"
  shows "\<exists>evs. adds st evs st' \<and> list_all (tool_event calls) evs"
proof (cases "sp_Tools spec")
  case None
  then show ?thesis using assms by (auto simp: executeTools_def intro!: exI [of _ "[]"])
next
  case (Some r)
  then show ?thesis using executeTools_effect [OF Some, of calls st env] assms by (auto simp: tools_effect_def adds_def)
qed

interpretation reasoning: run_trace env spec "\<lambda>evs. groups False evs = Some False" "\<lambda>st. True" for env spec
proof
  fix tools ms b st res b' st'
  assume "requestModelOnce env (spec\<lparr>sp_Tools := tools\<rparr>) ms b st = (res, b', st')"
  then show "True \<and> (\<exists>evs. adds st evs st' \<and> groups False evs = Some False)"
  proof (rule once_cases)
    fix e
    assume "govern env (spec\<lparr>sp_Tools := tools\<rparr>) ms st = (st', Inl e)"
    from govern_trace [OF this] show ?thesis by (auto intro!: exI [of _ "[]"])
  next
    fix ms' st1 evs
    assume "adds st (Requested (chat_request (spec\<lparr>sp_Tools := tools\<rparr>) ms') # evs) st'" "groups False evs = Some False"
    then show ?thesis by (intro conjI exI [of _ "Requested (chat_request (spec\<lparr>sp_Tools := tools\<rparr>) ms') # evs"]) simp_all
  qed
next
  fix calls st out st'
  assume "executeTools env spec calls st = (out, st')"
  from executeTools_adds [OF this] show "True \<and> (\<exists>evs. adds st evs st' \<and> groups False evs = Some False)"
    using groups_tools by blast
qed (simp_all add: groups_append)

section \<open>Requests\<close>

text \<open>
  What a request to the provider satisfies: calls and results of its messages are paired, and with a
  context window its estimate is within a positive input budget.
\<close>

definition governed_request :: "'w run_env \<Rightarrow> 'w RunSpec \<Rightarrow> ChatRequest \<Rightarrow> bool" where
  "governed_request env spec req \<longleftrightarrow>
     legal {} (rq_Messages req) \<and> set (answers (rq_Messages req)) = set (declared_ids (rq_Messages req))
     \<and> (0 < sp_ContextWindowTokens spec \<longrightarrow>
          0 < InputBudget (sp_ContextWindowTokens spec) (Some (sp_MaxTokens spec))
          \<and> fst (prompt_tokens (en_Tokens env) (rq_Messages req) (rq_Tools req))
              \<le> InputBudget (sp_ContextWindowTokens spec) (Some (sp_MaxTokens spec)))"

lemma prepared_pairs: "legal {} (PrepareForModel ms)" "set (answers (PrepareForModel ms)) = set (declared_ids (PrepareForModel ms))"
  using repair_pairs [of "StripMalformedToolCalls (StripPlaceholderAssistantMessages ms)"]
  by (simp_all add: PrepareForModel_def)

lemma RequestPressure_reach:
  assumes "cache_reach T c" "cw \<noteq> 0" "RequestPressure T c ms tools cw mt = (c', n, pressured)"
  shows "cache_reach T c' \<and> (\<not> pressured \<longrightarrow> 0 < InputBudget cw mt \<and> fst (prompt_tokens T ms tools) \<le> InputBudget cw mt)"
proof -
  obtain c1 m src where e: "EstimatePromptTokens T c ms tools = (c1, m, src)" by (metis prod_cases3)
  with EstimatePrompt_uncached [OF assms(1), of ms tools]
  have "cache_reach T c1" "prompt_tokens T ms tools = (m, src)" by auto
  with assms(2,3) show ?thesis by (auto simp: RequestPressure_def e Let_def split: if_splits)
qed

lemma returned_Inr: "(case x of None \<Rightarrow> Inr a | Some e \<Rightarrow> Inl e) = Inr b \<longleftrightarrow> x = None \<and> a = b"
  by (cases x) auto

lemma FitToBudget_reach:
  assumes "cache_reach T c" "FitToBudget T c ms tools cw mt key = (c', fitted)"
  shows "cache_reach T c' \<and> (\<forall>out. fitted = Inr out \<longrightarrow> legal {} out \<and> set (answers out) = set (declared_ids out)
    \<and> (cw \<noteq> 0 \<longrightarrow> 0 < InputBudget cw mt \<and> fst (prompt_tokens T out tools) \<le> InputBudget cw mt))"
proof -
  let ?s = "SnipHistory T c ms tools cw mt True"
  let ?out = "BackfillMissingToolResults (DropOrphanToolResults (snd ?s))"
  let ?r = "EnsureRequestFits T (fst ?s) ?out tools cw mt key"
  have "cache_reach T (fst ?s)" using SnipHistory_reach [OF assms(1)] by blast
  note r = EnsureRequestFits_reach [OF this, of ?out tools cw mt key]
  have eq: "c' = fst ?r" "fitted = (case snd ?r of None \<Rightarrow> Inr ?out | Some e \<Rightarrow> Inl e)"
    using assms(2) by (simp_all add: FitToBudget_unfold Let_def)
  have fits: "snd ?r = None \<longrightarrow> cw \<noteq> 0 \<longrightarrow> 0 < InputBudget cw mt \<and> fst (prompt_tokens T ?out tools) \<le> InputBudget cw mt"
    using conjunct2 [OF r] by (auto split: if_split_asm)
  show ?thesis
  proof (intro conjI allI impI)
    show "cache_reach T c'" using r eq by blast
    fix out
    assume "fitted = Inr out"
    then have n: "snd ?r = None" "out = ?out" unfolding eq(2) returned_Inr by blast+
    show "legal {} out" "set (answers out) = set (declared_ids out)"
      unfolding n(2) by (rule repair_pairs)+
    assume "cw \<noteq> 0"
    then show "0 < InputBudget cw mt" "fst (prompt_tokens T out tools) \<le> InputBudget cw mt"
      unfolding n(2) using fits n(1) by blast+
  qed
qed

lemma govern_ok:
  assumes "cache_reach (en_Tokens env) (rs_Cache st)" "govern env spec ms st = (st', res)"
  shows "cache_reach (en_Tokens env) (rs_Cache st') \<and>
    (\<forall>ms'. res = Inr ms' \<longrightarrow> governed_request env spec (chat_request spec ms'))"
proof (cases "0 < sp_ContextWindowTokens spec")
  case False
  then have "res = Inr (PrepareForModel ms)" "st' = st" using assms(2) by (simp_all add: govern_def)
  then show ?thesis using assms(1) False prepared_pairs by (simp add: governed_request_def chat_request_def)
next
  case True
  let ?cw = "sp_ContextWindowTokens spec" and ?mt = "Some (sp_MaxTokens spec)" and ?T = "en_Tokens env"
  let ?tools = "tool_schemas spec"
  have cw: "?cw \<noteq> 0" using True by simp
  obtain c1 n pr where p: "RequestPressure ?T (rs_Cache st) (PrepareForModel ms) ?tools ?cw ?mt = (c1, n, pr)"
    by (metis prod_cases3)
  note r = RequestPressure_reach [OF assms(1) cw p]
  obtain c2 fitted where f: "FitToBudget ?T c1 (PrepareForModel ms) ?tools ?cw ?mt (sp_SessionKey spec) = (c2, fitted)"
    by fastforce
  have "cache_reach ?T c1" using r by blast
  note fr = FitToBudget_reach [OF this f]
  show ?thesis
  proof (cases pr)
    case False
    then have "res = Inr (PrepareForModel ms)" "st' = st\<lparr>rs_Cache := c1\<rparr>"
      using assms(2) True p by (simp_all add: govern_def Let_def)
    then show ?thesis using r False prepared_pairs by (simp add: governed_request_def chat_request_def)
  next
    case pr: True
    then have "(st', res) = (st\<lparr>rs_Cache := c2\<rparr>, map_sum fit_error id fitted)"
      using assms(2) True p f by (cases fitted) (simp_all add: govern_def Let_def)
    then show ?thesis using fr cw by (cases fitted) (simp_all add: governed_request_def chat_request_def)
  qed
qed

interpretation governed: run_trace env spec
  "\<lambda>evs. \<forall>req. Requested req \<in> set evs \<longrightarrow> governed_request env spec req"
  "\<lambda>st. cache_reach (en_Tokens env) (rs_Cache st)" for env spec
proof
  let ?Q = "\<lambda>evs. \<forall>req. Requested req \<in> set evs \<longrightarrow> governed_request env spec req"
  let ?I = "\<lambda>st. cache_reach (en_Tokens env) (rs_Cache st)"
  have none: "?Q evs" if "requests evs = []" for evs
    using that by (auto simp: requests_def filter_empty_conv)
  fix tools ms b st res b' st'
  let ?spec = "spec\<lparr>sp_Tools := tools\<rparr>"
  have same: "governed_request env ?spec req = governed_request env spec req" for req
    by (simp add: governed_request_def)
  assume i: "?I st" and "requestModelOnce env ?spec ms b st = (res, b', st')"
  from this(2) show "?I st' \<and> (\<exists>evs. adds st evs st' \<and> ?Q evs)"
  proof (rule once_cases)
    fix e
    assume g: "govern env ?spec ms st = (st', Inl e)"
    have "adds st [] st'" by (rule govern_trace [OF g])
    then show ?thesis using govern_ok [OF i g] by (auto intro!: exI [of _ "[]"])
  next
    fix ms' st1 evs
    let ?req = "chat_request ?spec ms'"
    assume g: "govern env ?spec ms st = (st1, Inr ms')" and a: "rs_Cache st' = rs_Cache st1"
      "adds st (Requested ?req # evs) st'" "requests evs = []"
    have "?Q (Requested ?req # evs)" using none [OF a(3)] govern_ok [OF i g] same by auto
    then show ?thesis using govern_ok [OF i g] a(1,2) by (metis (no_types, lifting))
  qed
next
  fix calls st out st'
  assume i: "cache_reach (en_Tokens env) (rs_Cache st)" and x: "executeTools env spec calls st = (out, st')"
  obtain evs where e: "adds st evs st'" "requests evs = []"
    using executeTools_adds [OF x] requests_tools by blast
  then have "\<forall>req. Requested req \<in> set evs \<longrightarrow> governed_request env spec req"
    by (auto simp: requests_def filter_empty_conv)
  then show "cache_reach (en_Tokens env) (rs_Cache st') \<and>
      (\<exists>evs. adds st evs st' \<and> (\<forall>req. Requested req \<in> set evs \<longrightarrow> governed_request env spec req))"
    using i e executeTools_cache [of env spec calls st] x by auto
qed auto

end
