(* ===== verification/Runner_Started.thy ===== *)
theory Runner_Started
  imports Runner_Batch Governance_Proofs "HOL-Library.Multiset"
begin

text \<open>
  How often the calls of a response start: under every schedule each of them at most once, and exactly
  once when the context is never done. The calls of a batch are accounted for as a multiset, those that
  have started and those whose worker has still to start them.
\<close>

section \<open>Started calls\<close>

definition start_of :: "run_event \<Rightarrow> ToolCall list" where
  "start_of e = (case e of OnToolStart c \<Rightarrow> [c] | _ \<Rightarrow> [])"

definition started :: "run_event list \<Rightarrow> ToolCall list" where
  "started evs = concat (map start_of evs)"

lemma started_simps [simp]:
  "started [] = []" "started (xs @ ys) = started xs @ started ys" "started (e # es) = start_of e @ started es"
  by (simp_all add: started_def)

lemma start_of_simps [simp]: "start_of (OnToolStart c) = [c]" "start_of (OnToolEnd c res) = []"
  by (simp_all add: start_of_def)

definition never_done :: "'w run_env \<Rightarrow> bool" where
  "never_done env \<longleftrightarrow> (\<forall>w. en_CtxErr env w = None)"

text \<open>All of the calls, or, when the context may be done, some of them.\<close>

definition covers :: "'w run_env \<Rightarrow> ToolCall multiset \<Rightarrow> ToolCall multiset \<Rightarrow> bool" where
  "covers env calls cs \<longleftrightarrow> cs \<subseteq># calls \<and> (never_done env \<longrightarrow> cs = calls)"

lemma covers_refl [simp]: "covers env calls calls"
  by (simp add: covers_def)

lemma covers_plus: "covers env A xs \<Longrightarrow> covers env B ys \<Longrightarrow> covers env (A + B) (xs + ys)"
  by (auto simp: covers_def intro: subset_mset.add_mono)

section \<open>One batch\<close>

definition unstarted :: "ToolCall \<Rightarrow> tool_worker \<Rightarrow> ToolCall multiset" where
  "unstarted c w = (case w of Waiting \<Rightarrow> {#c#} | Ready \<Rightarrow> {#c#} | _ \<Rightarrow> {#})"

lemma unstarted_simps [simp]:
  "unstarted c Waiting = {#c#}" "unstarted c Ready = {#c#}" "unstarted c Running = {#}"
  "unstarted c (Executed res) = {#}" "unstarted c (Finished res) = {#}"
  by (simp_all add: unstarted_def)

definition still_to_start :: "ToolCall list \<Rightarrow> tool_worker list \<Rightarrow> ToolCall multiset" where
  "still_to_start calls ws = (\<Sum>i<length ws. unstarted (calls ! i) (ws ! i))"

lemma still_to_start_update:
  assumes "i < length ws"
  shows "still_to_start calls (ws[i := w]) + unstarted (calls ! i) (ws ! i)
    = still_to_start calls ws + unstarted (calls ! i) w"
proof -
  let ?I = "{..<length ws} - {i}"
  have "(\<Sum>j\<in>?I. unstarted (calls ! j) (ws[i := w] ! j)) = (\<Sum>j\<in>?I. unstarted (calls ! j) (ws ! j))"
    by (rule sum.cong) auto
  then show ?thesis
    using assms sum.remove [of "{..<length ws}" i "\<lambda>j. unstarted (calls ! j) (ws[i := w] ! j)"]
      sum.remove [of "{..<length ws}" i "\<lambda>j. unstarted (calls ! j) (ws ! j)"]
    by (simp add: still_to_start_def ac_simps)
qed

lemma still_to_start_init: "still_to_start calls (replicate (length calls) Waiting) = mset calls"
proof -
  have "(\<Sum>i<length calls. {#calls ! i#}) = mset calls"
    by (induction calls rule: rev_induct) (simp_all add: nth_append)
  then show ?thesis by (simp add: still_to_start_def)
qed

lemma still_to_start_finished: "list_all is_finished ws \<Longrightarrow> still_to_start calls ws = {#}"
  by (auto simp: still_to_start_def list_all_length is_finished_def intro!: sum.neutral)

definition start_inv :: "'w run_env \<Rightarrow> ToolCall list \<Rightarrow> run_event list \<Rightarrow> tool_worker list \<times> 'w run_state \<Rightarrow> bool" where
  "start_inv env calls tr s \<longleftrightarrow>
     (\<exists>evs. rs_Trace (snd s) = tr @ evs \<and>
        covers env (mset calls) (mset (started evs) + still_to_start calls (fst s)))"

lemma start_inv_step:
  assumes "start_inv env calls tr (ws, st)"
  shows "start_inv env calls tr (worker_step env spec r calls (i, b) (ws, st))"
proof (cases "i < length ws")
  case False
  then show ?thesis using assms by (simp add: worker_step_def)
next
  case True
  obtain evs where e: "rs_Trace st = tr @ evs" "covers env (mset calls) (mset (started evs) + still_to_start calls ws)"
    using assms by (auto simp: start_inv_def)
  note upd = still_to_start_update [OF True, of calls]
  have quiet: ?thesis if "worker_step env spec r calls (i, b) (ws, st) = (ws[i := w], st')"
    "rs_Trace st' = rs_Trace st @ es" "started es = []" "unstarted (calls ! i) (ws ! i) = unstarted (calls ! i) w"
    for w st' es
    using e that upd [of w] by (auto simp: start_inv_def intro!: exI [of _ "evs @ es"])
  show ?thesis
  proof (cases "ws ! i")
    case Waiting
    let ?w = "take_slot env spec (calls ! i) b ws st"
    have s: "worker_step env spec r calls (i, b) (ws, st) = (ws[i := ?w], st)"
      using True Waiting by (simp add: worker_step_def)
    show ?thesis
    proof (cases "unstarted (calls ! i) ?w = {#calls ! i#}")
      case True
      then show ?thesis using quiet [OF s, of "[]"] Waiting by simp
    next
      case False
      then have "en_CtxErr env (rs_World st) \<noteq> None" and u: "unstarted (calls ! i) ?w = {#}"
        by (auto simp: take_slot_def Let_def split: if_splits option.splits)
      then have "\<not> never_done env" by (auto simp: never_done_def)
      moreover have "still_to_start calls (ws[i := ?w]) \<subseteq># still_to_start calls ws"
        using upd [of ?w] u by (metis add.right_neutral mset_subset_eq_add_left)
      ultimately show ?thesis
        using e by (auto simp: s start_inv_def covers_def intro: subset_mset.order_trans [OF subset_mset.add_left_mono])
    qed
  next
    case Ready
    have s: "worker_step env spec r calls (i, b) (ws, st) = (ws[i := Running], hook env (OnToolStart (calls ! i)) st)"
      using True Ready by (simp add: worker_step_def)
    have "mset (started (evs @ [OnToolStart (calls ! i)])) + still_to_start calls (ws[i := Running])
        = mset (started evs) + still_to_start calls ws"
      using upd [of Running] Ready by simp
    then have "covers env (mset calls) (mset (started (evs @ [OnToolStart (calls ! i)]))
        + still_to_start calls (ws[i := Running]))" using e(2) by (simp only:)
    then show ?thesis
      unfolding s start_inv_def using e(1) by (intro exI [of _ "evs @ [OnToolStart (calls ! i)]"]) simp
  next
    case Running
    obtain st1 res where x: "execute_call env r (calls ! i) st = (st1, res)" by fastforce
    have "worker_step env spec r calls (i, b) (ws, st) = (ws[i := Executed res], st1)"
      using True Running x by (simp add: worker_step_def)
    then show ?thesis using quiet [of "Executed res" st1 "[]"] execute_call_simps [OF x] Running by simp
  next
    case (Executed res)
    have "worker_step env spec r calls (i, b) (ws, st) = (ws[i := Finished res], hook env (OnToolEnd (calls ! i) res) st)"
      using True Executed by (simp add: worker_step_def)
    then show ?thesis
      using quiet [of "Finished res" "hook env (OnToolEnd (calls ! i) res) st" "[OnToolEnd (calls ! i) res]"] Executed by simp
  next
    case (Finished res)
    then show ?thesis using assms True by (simp add: worker_step_def)
  qed
qed

lemma start_inv_fold: "start_inv env calls tr s \<Longrightarrow> start_inv env calls tr (fold (worker_step env spec r calls) cs s)"
proof (induction cs arbitrary: s)
  case (Cons c cs)
  have "start_inv env calls tr (worker_step env spec r calls c s)"
    using start_inv_step [of env calls tr "fst s" "snd s" spec r "fst c" "snd c"] Cons.prems by simp
  then show ?case using Cons.IH by simp
qed simp

text \<open>The calls that start between two states.\<close>

definition starts :: "'w run_env \<Rightarrow> ToolCall list \<Rightarrow> 'w run_state \<Rightarrow> 'w run_state \<Rightarrow> bool" where
  "starts env calls st st' \<longleftrightarrow> (\<exists>evs. rs_Trace st' = rs_Trace st @ evs \<and> covers env (mset calls) (mset (started evs)))"

lemma starts_trans: "starts env xs st st' \<Longrightarrow> starts env ys st' st'' \<Longrightarrow> starts env (xs @ ys) st st''"
  unfolding starts_def using covers_plus by (metis append.assoc mset_append started_simps(2))

lemma starts_Nil [simp]: "starts env [] st st"
  by (auto simp: starts_def intro!: exI [of _ "[]"])

lemma run_batch_starts: "starts env calls st (snd (run_batch env spec r calls sched st))"
proof -
  let ?s = "run_batch env spec r calls sched st"
  have "start_inv env calls (rs_Trace st) (replicate (length calls) Waiting, st)"
    by (auto simp: start_inv_def still_to_start_init intro!: exI [of _ "[]"])
  then have "start_inv env calls (rs_Trace st) ?s" unfolding run_batch_def by (rule start_inv_fold)
  moreover have "still_to_start calls (fst ?s) = {#}"
    using batch_finishes [of env spec r calls sched st] by (intro still_to_start_finished) simp
  ultimately show ?thesis by (auto simp: start_inv_def starts_def)
qed

section \<open>All the calls of a response\<close>

lemma run_sequence_starts: "starts env (map (\<lambda>i. calls ! i) is) (snd s) (snd (run_sequence env r calls is s))"
proof (induction "is" arbitrary: s)
  case (Cons i "is")
  obtain out st where s: "s = (out, st)" by fastforce
  obtain st' res where one: "runOne env r (calls ! i) st = (st', res)" by fastforce
  have "starts env [calls ! i] st st'"
    using runOne_effect(1) [OF one] by (auto simp: starts_def)
  from starts_trans [OF this, of "map (\<lambda>i. calls ! i) is"] Cons.IH [of "(out[i := res], st')"]
  show ?case by (simp add: s one)
qed simp

lemma execute_batch_starts:
  "starts env (map (\<lambda>i. calls ! i) batch) (snd s) (snd (execute_batch env spec r calls batch s))"
proof (cases "length batch = 1 \<or> \<not> sp_ConcurrentTools spec")
  case True
  then show ?thesis using run_sequence_starts by (simp add: execute_batch_def)
next
  case False
  let ?cs = "map (\<lambda>i. calls ! i) batch"
  obtain out st where s: "s = (out, st)" by fastforce
  obtain ws st' where b: "run_batch env spec r ?cs (en_Sched env batch (rs_World st)) st = (ws, st')" by fastforce
  show ?thesis
    using False b run_batch_starts [of env ?cs st spec r "en_Sched env batch (rs_World st)"]
    by (simp add: execute_batch_def s)
qed

lemma batches_starts:
  "starts env (map (\<lambda>i. calls ! i) (concat batches)) (snd s) (snd (fold (execute_batch env spec r calls) batches s))"
proof (induction batches arbitrary: s)
  case (Cons batch batches)
  show ?case
    using starts_trans [OF execute_batch_starts [of env calls batch s spec r]
        Cons.IH [of "execute_batch env spec r calls batch s"]] by simp
qed simp

lemma executeTools_starts:
  assumes "sp_Tools spec = Some r"
  shows "starts env calls st (snd (executeTools env spec calls st))"
  using batches_starts [of env calls "partitionBatches r calls" "(replicate (length calls) empty_result, st)" spec r]
  by (simp add: executeTools_def assms partition_concat map_nth)

section \<open>Properties\<close>

text \<open>
  C29. The calls of one response, run by \<^verbatim>\<open>executeTools\<close> under any schedule of the goroutines: the result
  at each position is the answer to the call at that position; every tool that starts ends, never more
  than \<^verbatim>\<open>MaxParallelTools\<close> are at work at once (when there is a limit), and a tool that is not
  concurrency safe works alone; each call starts at most once, and exactly once unless the context is
  done.
\<close>

theorem tools_in_order:
  assumes "sp_Tools spec = Some r"
  shows "map tr_CallID (fst (executeTools env spec calls st)) = map tc_ID calls \<and>
    (\<exists>evs. rs_Trace (snd (executeTools env spec calls st)) = rs_Trace st @ evs \<and>
       list_all (tool_event calls) evs \<and> tool_depth evs = 0 \<and> depth_ok (sp_MaxParallelTools spec) evs \<and>
       alone r evs \<and> mset (started evs) \<subseteq># mset calls \<and>
       ((\<forall>w. en_CtxErr env w = None) \<longrightarrow> mset (started evs) = mset calls))"
proof -
  obtain evs where e: "rs_Trace (snd (executeTools env spec calls st)) = rs_Trace st @ evs" "tool_depth evs = 0"
    "depth_ok (sp_MaxParallelTools spec) evs" "list_all (tool_event calls) evs" "alone r evs"
    using executeTools_effect [OF assms, of calls st env] by (auto simp: tools_effect_def)
  moreover have "covers env (mset calls) (mset (started evs))"
    using executeTools_starts [OF assms, of env calls st] e(1) by (auto simp: starts_def)
  ultimately show ?thesis
    using executeTools_ids [of env spec calls st] by (auto simp: covers_def never_done_def)
qed

text \<open>A world in which nothing fails and every request is answered by \<open>resp\<close>; its scheduler is given.\<close>

definition still_io :: result_io where
  "still_io = \<lparr>ri_MkdirAll = True, ri_ReadDir = None, ri_ModTime = (\<lambda>_. 0), ri_Now = 0, ri_Write = True,
     ri_Resolve = id\<rparr>"

definition calm_env :: "Response \<Rightarrow> (nat \<times> bool) list \<Rightarrow> unit run_env" where
  "calm_env resp sched =
     \<lparr>en_Tokens = bytes_only, en_Lower = id, en_Printable = (\<lambda>_. True), en_CtxErr = (\<lambda>_. None),
      en_Before = (\<lambda>_ _ w. (w, None)), en_Hook = (\<lambda>_ w. w), en_Chat = (\<lambda>_ w. (w, Inr resp)), en_Stream = None,
      en_Sleep = (\<lambda>_ w. (w, True)), en_Sched = (\<lambda>_ _. sched), en_IO = (\<lambda>_. still_io)\<rparr>"

definition plain_spec :: "unit Registry option \<Rightarrow> int \<Rightarrow> unit RunSpec" where
  "plain_spec tools iterations =
     \<lparr>sp_Messages = [NewMessage RoleUser ''hi''], sp_Tools = tools, sp_Model = ''m'', sp_RetryDelays = Some [FZero False],
      sp_Workspace = [], sp_ContextWindowTokens = 0, sp_MaxIterations = iterations, sp_MaxToolResultChars = 0,
      sp_MaxTokens = 0, sp_Temperature = FZero False, sp_ReasoningEffort = [], sp_ConcurrentTools = True,
      sp_MaxParallelTools = 1, sp_SessionKey = [], sp_ErrorMessage = [], sp_MaxIterationsMessage = [],
      sp_FinalizeOnMaxIterations = None\<rparr>"

definition first_state :: "unit run_state" where
  "first_state = \<lparr>rs_World = (), rs_Trace = [], rs_Cache = empty_cache, rs_Files = (\<lambda>_. None)\<rparr>"

text \<open>Two safe calls whose workers take turns from the second on, with one slot between them.\<close>

theorem tools_in_order_witness:
  "let r = Register (demo_tool ''exec'') NewRegistry; calls = [call ''a'' ''exec'', call ''b'' ''exec''];
       spec = plain_spec (Some r) 1; env = calm_env (new_response [] FinishStop) [(1, False), (0, False), (1, False)];
       out = executeTools env spec calls first_state
   in map tr_CallID (fst out) = [''a'', ''b''] \<and> mset (started (rs_Trace (snd out))) = mset calls \<and>
      depth_ok 1 (rs_Trace (snd out))"
proof -
  let ?r = "Register (demo_tool ''exec'') NewRegistry"
  let ?calls = "[call ''a'' ''exec'', call ''b'' ''exec'']"
  let ?env = "calm_env (new_response [] FinishStop) [(1, False), (0, False), (1, False)]"
  have "sp_Tools (plain_spec (Some ?r) 1) = Some ?r" "sp_MaxParallelTools (plain_spec (Some ?r) 1) = 1"
    "en_CtxErr ?env w = None" "rs_Trace first_state = []" "map tc_ID ?calls = [''a'', ''b'']" for w
    by (simp_all add: plain_spec_def calm_env_def first_state_def call_def)
  then show ?thesis
    using tools_in_order [of "plain_spec (Some ?r) 1" ?r ?env ?calls first_state] by (auto simp: Let_def)
qed

end
