(* ===== verification/Runner_Outcome.thy ===== *)
theory Runner_Outcome
  imports Runner_Proofs Runner_Started
begin

text \<open>
  The result of a run: its transcript answers every tool call it holds, its stop reason says what the
  final content is, the number of requests is bounded, and a failed request is retried exactly as the
  policy has it. The last section has two runs in which the code does not do what it is meant to.
\<close>

section \<open>The branches of an iteration\<close>

text \<open>The reasoning of a response goes to the hooks as one group, or not at all.\<close>

definition shown :: "'w run_env \<Rightarrow> 'w run_state \<Rightarrow> 'w run_state \<Rightarrow> bool" where
  "shown env st st1 \<longleftrightarrow>
     st1 = st \<or> (\<exists>t. t \<noteq> [] \<and> st1 = hook env OnReasoningEnd (hook env (OnReasoningDelta t) st))"

text \<open>What a response leads to; \<open>st1\<close> is the state after its reasoning was shown.\<close>

lemma respond_cases:
  assumes "respond env spec it b resp ls st = (oc, st')"
  obtains st1 where "shown env st st1"
    "(\<exists>msg. st' = st1 \<and> rs_FinishReason resp = FinishError \<and> (sp_ErrorMessage spec \<noteq> [] \<longrightarrow> msg \<noteq> []) \<and>
        oc = Return ((ls_result ls)\<lparr>rr_StopReason := StopError, rr_Error := msg, rr_FinalContent := msg,
                       rr_Messages := AppendModelErrorPlaceholder (ls_messages ls)\<rparr>))
     \<or> (\<exists>ls'. st' = st1 \<and> oc = Continue ls' \<and> ls_result ls' = ls_result ls \<and> ls_messages ls' = ls_messages ls)
     \<or> (\<exists>ls' resp' clean. st' = st1 \<and> oc = Continue ls' \<and> ls_result ls' = ls_result ls \<and>
          ls_messages ls' = ls_messages ls @ [assistantMessage resp' clean [], BuildLengthRecoveryMessage clean])
     \<or> (\<exists>ls' resp' clean orig. st' = st1 \<and> oc = terminal_branch resp' clean orig ls' \<and>
          ls_result ls' = ls_result ls \<and> ls_messages ls' = ls_messages ls)
     \<or> (\<exists>ls' resp' clean calls. tool_branch env spec it resp' clean calls ls' st1 = (oc, st') \<and> calls \<noteq> [] \<and>
          ls_result ls' = ls_result ls \<and> ls_messages ls' = ls_messages ls)"
proof -
  obtain rt cl where x: "ExtractReasoning (Some (rs_ReasoningContent resp)) (rs_ThinkingBlocks resp)
      (Some (rs_Content resp)) = (rt, cl)" by fastforce
  define st1 where "st1 = (case rt of None \<Rightarrow> st | Some t \<Rightarrow> if t \<noteq> [] \<and> \<not> b
      then hook env OnReasoningEnd (hook env (OnReasoningDelta t) st) else st)"
  define resp1 where "resp1 = resp\<lparr>rs_Content := (case cl of Some c \<Rightarrow> c | None \<Rightarrow> [])\<rparr>"
  define clean where "clean = StripThink (rs_Content resp1)"
  define ls1 where "ls1 = (if rs_Usage resp \<noteq> None
      then ls\<lparr>ls_usage := Usage_Add (ls_usage ls) (rs_Usage resp), ls_usageSeen := True\<rparr> else ls)"
  define calls where "calls = validCalls (rs_ToolCalls resp1)"
  define tb where "tb = (ShouldExecuteTools resp1 \<and> 0 < length calls)"
  define ret where "ret = (\<not> tb \<and> EmptyRetryEligible (rs_FinishReason resp1) clean)"
  define ls2 where "ls2 = (if ret then ls1 else ls1\<lparr>ls_emptyRetries := 0\<rparr>)"
  define msg where "msg = (if isArrearage (en_Lower env) resp1 then ArrearageError
      else if clean = [] then sp_ErrorMessage spec else clean)"
  have same: "ls_result ls1 = ls_result ls" "ls_messages ls1 = ls_messages ls"
    "ls_result ls2 = ls_result ls" "ls_messages ls2 = ls_messages ls"
    by (simp_all add: ls1_def ls2_def)
  have eq: "(oc, st') =
      (if rs_FinishReason resp1 = FinishError then
         (Return ((ls_result ls1)\<lparr>rr_StopReason := StopError, rr_Error := msg, rr_FinalContent := msg,
            rr_Messages := AppendModelErrorPlaceholder (ls_messages ls1)\<rparr>), st1)
       else if ret \<and> ls_emptyRetries ls1 < maxEmptyRetries
       then (Continue (ls1\<lparr>ls_emptyRetries := ls_emptyRetries ls1 + 1\<rparr>), st1)
       else if rs_FinishReason resp1 = FinishLength \<and> length (ls_lengthParts ls2) < MaxLengthRecoveries then
         (Continue (ls2\<lparr>ls_lengthParts := ls_lengthParts ls2 @ [RestoreOuterWhitespace clean (rs_Content resp)],
            ls_messages := ls_messages ls2 @ [assistantMessage resp1 clean [], BuildLengthRecoveryMessage clean]\<rparr>), st1)
       else if \<not> tb then (terminal_branch resp1 clean (rs_Content resp) ls2, st1)
       else tool_branch env spec it resp1 clean calls ls2 st1)"
    using assms unfolding respond_def x
    by (simp only: Let_def prod.case st1_def resp1_def clean_def ls1_def calls_def tb_def ret_def ls2_def msg_def)
  have st1: "shown env st st1"
    by (auto simp: shown_def st1_def split: option.split)
  have m: "sp_ErrorMessage spec \<noteq> [] \<longrightarrow> msg \<noteq> []" by (simp add: msg_def ArrearageError_def)
  have fin: "rs_FinishReason resp1 = rs_FinishReason resp" by (simp add: resp1_def)
  consider "rs_FinishReason resp1 = FinishError"
    | "rs_FinishReason resp1 \<noteq> FinishError" "ret \<and> ls_emptyRetries ls1 < maxEmptyRetries"
    | "rs_FinishReason resp1 \<noteq> FinishError" "\<not> (ret \<and> ls_emptyRetries ls1 < maxEmptyRetries)"
      "rs_FinishReason resp1 = FinishLength \<and> length (ls_lengthParts ls2) < MaxLengthRecoveries"
    | "rs_FinishReason resp1 \<noteq> FinishError" "\<not> (ret \<and> ls_emptyRetries ls1 < maxEmptyRetries)"
      "\<not> (rs_FinishReason resp1 = FinishLength \<and> length (ls_lengthParts ls2) < MaxLengthRecoveries)" "\<not> tb"
    | "rs_FinishReason resp1 \<noteq> FinishError" "\<not> (ret \<and> ls_emptyRetries ls1 < maxEmptyRetries)"
      "\<not> (rs_FinishReason resp1 = FinishLength \<and> length (ls_lengthParts ls2) < MaxLengthRecoveries)" tb
    by blast
  then show thesis
  proof cases
    case 1
    then have "oc = Return ((ls_result ls)\<lparr>rr_StopReason := StopError, rr_Error := msg, rr_FinalContent := msg,
            rr_Messages := AppendModelErrorPlaceholder (ls_messages ls)\<rparr>)" "st' = st1"
      using eq same by simp_all
    moreover have "rs_FinishReason resp = FinishError" using 1 fin by simp
    ultimately show thesis using m by (intro that [OF st1] disjI1 exI [of _ msg] conjI)
  next
    case 2
    then have "oc = Continue (ls1\<lparr>ls_emptyRetries := ls_emptyRetries ls1 + 1\<rparr>)" "st' = st1" using eq by simp_all
    then show thesis using that [OF st1] same by auto
  next
    case 3
    then have "oc = Continue (ls2\<lparr>ls_lengthParts := ls_lengthParts ls2 @ [RestoreOuterWhitespace clean (rs_Content resp)],
            ls_messages := ls_messages ls2 @ [assistantMessage resp1 clean [], BuildLengthRecoveryMessage clean]\<rparr>)" "st' = st1"
      using eq [unfolded if_not_P [OF 3(1)] if_not_P [OF 3(2)] if_P [OF 3(3)]] by simp_all
    then obtain ls3 where "oc = Continue ls3" "st' = st1" "ls_result ls3 = ls_result ls"
      "ls_messages ls3 = ls_messages ls @ [assistantMessage resp1 clean [], BuildLengthRecoveryMessage clean]"
      using same by simp
    then show thesis using that [OF st1] by blast
  next
    case 4
    have "oc = terminal_branch resp1 clean (rs_Content resp) ls2" "st' = st1"
      using eq [unfolded if_not_P [OF 4(1)] if_not_P [OF 4(2)] if_not_P [OF 4(3)] if_P [OF 4(4)]] by simp_all
    then show thesis using that [OF st1] same by blast
  next
    case 5
    have "tool_branch env spec it resp1 clean calls ls2 st1 = (oc, st')" "calls \<noteq> []"
      using eq [unfolded if_not_P [OF 5(1)] if_not_P [OF 5(2)] if_not_P [OF 5(3)]] 5(4) by (simp_all add: tb_def)
    then show thesis using that [OF st1] same by blast
  qed
qed

lemma tool_branch_cases:
  assumes "tool_branch env spec it resp clean calls ls st = (oc, st')"
  obtains results st1 tms st2 ls' where "executeTools env spec calls st = (results, st1)"
    "tool_messages env spec calls results st1 = (tms, st2)" "oc = Continue ls'"
    "it \<noteq> sp_MaxIterations spec - 1 \<and> st' = st2 \<and>
       ls_messages ls' = ls_messages ls @ assistantMessage resp clean calls # tms \<and>
       rr_StopReason (ls_result ls') = rr_StopReason (ls_result ls) \<and>
       rr_FinalContent (ls_result ls') = rr_FinalContent (ls_result ls) \<and>
       rr_Usage (ls_result ls') = rr_Usage (ls_result ls)
     \<or> it = sp_MaxIterations spec - 1 \<and>
       (\<exists>y content. finalizeAfterMaxIterations env spec (ls_messages ls @ assistantMessage resp clean calls # tms) st2 = (y, st') \<and>
          content = (case y of Some c \<Rightarrow> c | None \<Rightarrow> maxIterationsMessage spec) \<and>
          ls_messages ls' = AppendFinalMessage (ls_messages ls @ assistantMessage resp clean calls # tms) content \<and>
          rr_StopReason (ls_result ls') = StopMaxIterations \<and> rr_FinalContent (ls_result ls') = content \<and>
          rr_Usage (ls_result ls') = rr_Usage (ls_result ls))"
proof -
  obtain results st1 where x: "executeTools env spec calls st = (results, st1)" by fastforce
  obtain tms st2 where m: "tool_messages env spec calls results st1 = (tms, st2)" by fastforce
  obtain seen used where u: "use_tools calls (ls_seenTools ls) (rr_ToolsUsed (ls_result ls)) = (seen, used)" by fastforce
  obtain y st3 where f: "finalizeAfterMaxIterations env spec
      (ls_messages ls @ assistantMessage resp clean calls # tms) st2 = (y, st3)" by fastforce
  show thesis
  proof (cases "it = sp_MaxIterations spec - 1")
    case True
    then show thesis using that [OF x m] assms f by (auto simp: tool_branch_def Let_def u x m)
  next
    case False
    then show thesis using that [OF x m] assms by (auto simp: tool_branch_def Let_def u x m)
  qed
qed

lemma iteration_cases:
  assumes "iteration_step env spec it ls st = (oc, st')"
  obtains (cancelled) e where "oc = Return (canceled e ls)"
      "st' = st \<or> (\<exists>w. \<exists>res b. requestModel env spec (ls_messages ls) False
         ((note_event (BeforeIteration it (ls_messages ls)) st)\<lparr>rs_World := w\<rparr>) = (res, b, st'))"
  | (refused) e w where "oc = Return ((ls_result ls)\<lparr>rr_StopReason := StopError, rr_Error := e, rr_Messages := ls_messages ls\<rparr>)"
      "st' = (note_event (BeforeIteration it (ls_messages ls)) st)\<lparr>rs_World := w\<rparr>"
  | (answered) w res b st2 resp where "requestModel env spec (ls_messages ls) False
         ((note_event (BeforeIteration it (ls_messages ls)) st)\<lparr>rs_World := w\<rparr>) = (res, b, st2)"
      "respond env spec it b resp ls st2 = (oc, st')"
      "res = Inr resp \<or> (\<exists>e. res = Inl e \<and> resp = errorResponseFromException (en_Lower env) e)"
proof (cases "en_CtxErr env (rs_World st)")
  case None
  obtain w err where b: "en_Before env it (ls_messages ls) (rs_World st) = (w, err)" by fastforce
  let ?st1 = "(note_event (BeforeIteration it (ls_messages ls)) st)\<lparr>rs_World := w\<rparr>"
  obtain res sr st2 where m: "requestModel env spec (ls_messages ls) False ?st1 = (res, sr, st2)" by (metis prod_cases3)
  show thesis
  proof (cases err)
    case (Some e)
    then have "oc = Return ((ls_result ls)\<lparr>rr_StopReason := StopError, rr_Error := e, rr_Messages := ls_messages ls\<rparr>)"
      "st' = ?st1" using assms None b by (auto simp: iteration_step_def)
    then show thesis using refused by blast
  next
    case err: None
    show thesis
    proof (cases res)
      case (Inr resp)
      then show thesis using answered [OF m, of resp] assms None b err m by (simp add: iteration_step_def)
    next
      case (Inl e)
      show thesis
      proof (cases "en_CtxErr env (rs_World st2)")
        case c: None
        then show thesis
          using answered [OF m, of "errorResponseFromException (en_Lower env) e"] assms None b err m Inl
          by (simp add: iteration_step_def)
      next
        case (Some ce)
        then have "oc = Return (canceled ce ls)" "st' = st2" using assms None b err m Inl by (simp_all add: iteration_step_def)
        then show thesis using cancelled m by blast
      qed
    qed
  qed
next
  case (Some e)
  then have "oc = Return (canceled e ls)" "st' = st" using assms by (simp_all add: iteration_step_def)
  then show thesis using cancelled by blast
qed

section \<open>The transcript\<close>

text \<open>
  A transcript in which every assistant turn with tool calls is followed by the results of exactly
  these calls, in their order and under their ids and names, and tool results stand nowhere else.
\<close>

inductive answered :: "Message list \<Rightarrow> bool" where
  nil: "answered []"
| plain: "answered ms \<Longrightarrow> Role m \<noteq> RoleTool \<Longrightarrow> (Role m = RoleAssistant \<longrightarrow> ToolCalls m = []) \<Longrightarrow> answered (ms @ [m])"
| turn: "answered ms \<Longrightarrow> Role m = RoleAssistant \<Longrightarrow> ToolCalls m \<noteq> [] \<Longrightarrow>
    map (\<lambda>t. (Role t, ToolCallID t, Name t)) ts = map (\<lambda>c. (RoleTool, tc_ID c, tc_Name c)) (ToolCalls m) \<Longrightarrow>
    answered (ms @ m # ts)"

lemma answered_butlast:
  assumes "answered ms" "ends_in_reply ms"
  shows "answered (butlast ms)"
  using assms
proof cases
  case (turn xs m ts)
  then have "ts \<noteq> []" by auto
  then obtain t where "last ms = t" "t \<in> set ts" using turn(1) by simp
  moreover have "Role t = RoleTool"
  proof -
    have "(Role t, ToolCallID t, Name t) \<in> set (map (\<lambda>c. (RoleTool, tc_ID c, tc_Name c)) (ToolCalls m))"
      using calculation(2) turn(5) by (metis (no_types, lifting) image_eqI list.set_map)
    then show ?thesis by auto
  qed
  ultimately show ?thesis using assms(2) by (simp add: ends_in_reply_def)
qed (auto simp: ends_in_reply_def)

lemma answered_reply: "answered ms \<Longrightarrow> answered (ms @ [NewMessage RoleAssistant c])"
  by (rule answered.plain) simp_all

lemma answered_AppendFinal: "answered ms \<Longrightarrow> answered (AppendFinalMessage ms c)"
  using answered_butlast answered_reply by (auto simp: AppendFinalMessage_def)

lemma answered_placeholder: "answered ms \<Longrightarrow> answered (AppendModelErrorPlaceholder ms)"
  using answered_reply by (simp add: AppendModelErrorPlaceholder_def)

lemma answered_assistant: "answered ms \<Longrightarrow> answered (ms @ [assistantMessage resp clean []])"
  by (rule answered.plain) (simp_all add: assistantMessage_def)

lemma answered_length: "answered ms \<Longrightarrow> answered (ms @ [assistantMessage resp clean [], BuildLengthRecoveryMessage c])"
proof -
  assume "answered ms"
  then have "answered ((ms @ [assistantMessage resp clean []]) @ [BuildLengthRecoveryMessage c])"
    by (intro answered.plain answered_assistant) (simp_all add: BuildLengthRecoveryMessage_def Let_def)
  then show ?thesis by simp
qed

lemma toolMessage_fields:
  "Role (snd (toolMessage env spec tr name st)) = RoleTool" "ToolCallID (snd (toolMessage env spec tr name st)) = tr_CallID tr"
  "Name (snd (toolMessage env spec tr name st)) = name"
  by (simp_all add: toolMessage_def split: prod.split)

lemma tool_messages_fields:
  "map tr_CallID results = map tc_ID calls \<Longrightarrow>
   map (\<lambda>t. (Role t, ToolCallID t, Name t)) (fst (tool_messages env spec calls results st))
     = map (\<lambda>c. (RoleTool, tc_ID c, tc_Name c)) calls"
proof (induction env spec calls results st rule: tool_messages.induct)
  case (1 env spec c calls tr results st)
  obtain st1 m where m: "toolMessage env spec tr (tc_Name c) st = (st1, m)" by fastforce
  obtain ms st2 where ms: "tool_messages env spec calls results st1 = (ms, st2)" by fastforce
  show ?case
    using 1(1) [OF m [symmetric] refl] 1(2) toolMessage_fields [of env spec tr "tc_Name c" st] m ms by simp
qed simp_all

lemma answered_turn:
  assumes "answered ms" "calls \<noteq> []" "executeTools env spec calls st = (results, st1)"
    "tool_messages env spec calls results st1 = (tms, st2)"
  shows "answered (ms @ assistantMessage resp clean calls # tms)"
proof (rule answered.turn [OF assms(1)])
  have "map tr_CallID results = map tc_ID calls" using executeTools_ids [of env spec calls st] assms(3) by simp
  from tool_messages_fields [OF this, of env spec st1] assms(4)
  show "map (\<lambda>t. (Role t, ToolCallID t, Name t)) tms
      = map (\<lambda>c. (RoleTool, tc_ID c, tc_Name c)) (ToolCalls (assistantMessage resp clean calls))"
    by (simp add: assistantMessage_def)
qed (simp_all add: assistantMessage_def assms)

section \<open>The result\<close>

definition reply_text :: "Message list \<Rightarrow> string" where
  "reply_text ms = ct_Text (Content (last ms))"

text \<open>What the stop reason says about the final content and the end of the transcript.\<close>

definition outcome_ok :: "RunResult \<Rightarrow> bool" where
  "outcome_ok res \<longleftrightarrow>
     rr_StopReason res = StopCanceled \<and> rr_FinalContent res = []
     \<or> rr_StopReason res = StopError \<and>
         (rr_FinalContent res = [] \<or> rr_FinalContent res = rr_Error res \<and> ends_in_reply (rr_Messages res))
     \<or> rr_StopReason res = StopEmptyFinalResponse \<and> rr_FinalContent res = EmptyFinalResponseMessage \<and>
         rr_Error res = EmptyFinalResponseMessage \<and> ends_in_reply (rr_Messages res) \<and>
         reply_text (rr_Messages res) = EmptyFinalResponseMessage
     \<or> rr_StopReason res = StopMaxIterations \<and> rr_FinalContent res \<noteq> [] \<and> ends_in_reply (rr_Messages res) \<and>
         reply_text (rr_Messages res) = rr_FinalContent res
     \<or> rr_StopReason res = StopCompleted \<and> rr_FinalContent res = []
     \<or> rr_StopReason res = StopCompleted \<and> ends_in_reply (rr_Messages res) \<and>
         \<not> IsBlankText (reply_text (rr_Messages res)) \<and>
         (rr_FinalContent res = reply_text (rr_Messages res) \<or>
          (\<exists>parts original. parts \<noteq> [] \<and> rr_FinalContent res =
             PyStrip (concat parts @ RestoreOuterWhitespace (reply_text (rr_Messages res)) original)))"

definition result_ok :: "RunResult \<Rightarrow> bool" where
  "result_ok res \<longleftrightarrow> answered (rr_Messages res) \<and> outcome_ok res"

definition loop_ok :: "loop_state \<Rightarrow> bool" where
  "loop_ok ls \<longleftrightarrow> answered (ls_messages ls) \<and> rr_StopReason (ls_result ls) = StopCompleted
     \<and> rr_FinalContent (ls_result ls) = []"

lemma AppendFinal_reply:
  "c \<noteq> [] \<Longrightarrow> ends_in_reply (AppendFinalMessage ms c) \<and> reply_text (AppendFinalMessage ms c) = c"
  by (auto simp: AppendFinalMessage_def ends_in_reply_def reply_text_def TextContent_def)

lemma placeholder_reply: "ends_in_reply (AppendModelErrorPlaceholder ms)"
  by (auto simp: AppendModelErrorPlaceholder_def ends_in_reply_def)

lemma assistant_reply:
  "ends_in_reply (ms @ [assistantMessage resp clean []])" "reply_text (ms @ [assistantMessage resp clean []]) = clean"
  by (simp_all add: ends_in_reply_def reply_text_def assistantMessage_def TextContent_def)

lemma EmptyFinal_nonempty: "EmptyFinalResponseMessage \<noteq> []"
  by (simp add: EmptyFinalResponseMessage_def)

lemma ReplaceAll_nonempty: "s \<noteq> [] \<Longrightarrow> new \<noteq> [] \<Longrightarrow> ReplaceAll s old new \<noteq> []"
  by (subst ReplaceAll.simps) (simp split: list.split)

lemma Itoa_nonempty: "Itoa n \<noteq> []"
  by (simp add: Itoa_def)

lemma maxIterationsMessage_nonempty: "maxIterationsMessage spec \<noteq> []"
  by (simp add: maxIterationsMessage_def ReplaceAll_nonempty Itoa_nonempty)

lemma finalize_nonempty:
  assumes "finalizeAfterMaxIterations env spec ms st = (Some c, st')"
  shows "c \<noteq> []"
proof
  assume "c = []"
  moreover have "IsBlankText []" by (simp add: IsBlankText_def PyStrip_def PyLStrip.simps PyRStrip.simps)
  moreover have "\<not> IsBlankText c"
    using assms by (auto simp: finalizeAfterMaxIterations_def Let_def split: prod.splits sum.splits if_splits)
  ultimately show False by simp
qed

text \<open>One iteration keeps the invariant, or ends the run with a proper result.\<close>

definition step_ok :: "'w RunSpec \<Rightarrow> int \<Rightarrow> step_outcome \<Rightarrow> bool" where
  "step_ok spec it oc \<longleftrightarrow>
     (case oc of
        Continue ls \<Rightarrow> loop_ok ls \<or> it = sp_MaxIterations spec - 1 \<and> result_ok (finish_run ls)
      | Break ls \<Rightarrow> result_ok (finish_run ls)
      | Return res \<Rightarrow> result_ok res)"

lemma terminal_ok:
  assumes "loop_ok ls"
  shows "step_ok spec it (terminal_branch resp clean orig ls)"
proof (cases "IsBlankText clean")
  case True
  then show ?thesis
    using assms AppendFinal_reply [OF EmptyFinal_nonempty, of "ls_messages ls"] answered_AppendFinal
    by (auto simp: step_ok_def terminal_branch_def result_ok_def outcome_ok_def loop_ok_def)
next
  case False
  have "answered (ls_messages ls @ [assistantMessage resp clean []])"
    using assms answered_assistant by (simp add: loop_ok_def)
  then show ?thesis
    using False assistant_reply [of "ls_messages ls" resp clean]
    by (auto simp: step_ok_def terminal_branch_def result_ok_def outcome_ok_def finish_run_def Let_def)
qed

lemma tool_branch_ok:
  assumes "loop_ok ls" "calls \<noteq> []" "tool_branch env spec it resp clean calls ls st = (oc, st')"
  shows "step_ok spec it oc"
  using assms(3)
proof (rule tool_branch_cases)
  fix results st1 tms st2 ls'
  let ?ms = "ls_messages ls @ assistantMessage resp clean calls # tms"
  assume x: "executeTools env spec calls st = (results, st1)" "tool_messages env spec calls results st1 = (tms, st2)"
    and oc: "oc = Continue ls'"
    and alt: "it \<noteq> sp_MaxIterations spec - 1 \<and> st' = st2 \<and> ls_messages ls' = ?ms \<and>
       rr_StopReason (ls_result ls') = rr_StopReason (ls_result ls) \<and>
       rr_FinalContent (ls_result ls') = rr_FinalContent (ls_result ls) \<and>
       rr_Usage (ls_result ls') = rr_Usage (ls_result ls)
     \<or> it = sp_MaxIterations spec - 1 \<and>
       (\<exists>y content. finalizeAfterMaxIterations env spec ?ms st2 = (y, st') \<and>
          content = (case y of Some c \<Rightarrow> c | None \<Rightarrow> maxIterationsMessage spec) \<and>
          ls_messages ls' = AppendFinalMessage ?ms content \<and>
          rr_StopReason (ls_result ls') = StopMaxIterations \<and> rr_FinalContent (ls_result ls') = content \<and>
          rr_Usage (ls_result ls') = rr_Usage (ls_result ls))"
  have ans: "answered ?ms" by (rule answered_turn [OF _ assms(2) x]) (use assms(1) in \<open>simp add: loop_ok_def\<close>)
  from alt show ?thesis
  proof
    assume "it \<noteq> sp_MaxIterations spec - 1 \<and> st' = st2 \<and> ls_messages ls' = ?ms \<and>
       rr_StopReason (ls_result ls') = rr_StopReason (ls_result ls) \<and>
       rr_FinalContent (ls_result ls') = rr_FinalContent (ls_result ls) \<and>
       rr_Usage (ls_result ls') = rr_Usage (ls_result ls)"
    then show ?thesis using assms(1) ans oc by (simp add: step_ok_def loop_ok_def)
  next
    assume "it = sp_MaxIterations spec - 1 \<and>
       (\<exists>y content. finalizeAfterMaxIterations env spec ?ms st2 = (y, st') \<and>
          content = (case y of Some c \<Rightarrow> c | None \<Rightarrow> maxIterationsMessage spec) \<and>
          ls_messages ls' = AppendFinalMessage ?ms content \<and>
          rr_StopReason (ls_result ls') = StopMaxIterations \<and> rr_FinalContent (ls_result ls') = content \<and>
          rr_Usage (ls_result ls') = rr_Usage (ls_result ls))"
    then obtain y content where f: "it = sp_MaxIterations spec - 1"
      "finalizeAfterMaxIterations env spec ?ms st2 = (y, st')"
      "content = (case y of Some c \<Rightarrow> c | None \<Rightarrow> maxIterationsMessage spec)"
      "ls_messages ls' = AppendFinalMessage ?ms content" "rr_StopReason (ls_result ls') = StopMaxIterations"
      "rr_FinalContent (ls_result ls') = content"
      by blast
    have "content \<noteq> []"
    proof (cases y)
      case None
      then show ?thesis using f(3) maxIterationsMessage_nonempty [of spec] by simp
    next
      case (Some c)
      then show ?thesis using f(3) finalize_nonempty f(2) by simp
    qed
    then show ?thesis
      using f oc ans AppendFinal_reply [of content ?ms] answered_AppendFinal [OF ans, of content]
      by (simp add: step_ok_def result_ok_def outcome_ok_def finish_run_def)
  qed
qed

lemma respond_ok:
  assumes "loop_ok ls" "respond env spec it b resp ls st = (oc, st')"
  shows "step_ok spec it oc"
  using assms(2)
proof (rule respond_cases, elim disjE exE conjE)
  fix msg
  assume "oc = Return ((ls_result ls)\<lparr>rr_StopReason := StopError, rr_Error := msg, rr_FinalContent := msg,
                       rr_Messages := AppendModelErrorPlaceholder (ls_messages ls)\<rparr>)"
  then show ?thesis
    using assms(1) placeholder_reply answered_placeholder by (simp add: step_ok_def result_ok_def outcome_ok_def loop_ok_def)
next
  fix ls'
  assume "oc = Continue ls'" "ls_result ls' = ls_result ls" "ls_messages ls' = ls_messages ls"
  then show ?thesis using assms(1) by (simp add: step_ok_def loop_ok_def)
next
  fix ls' resp' clean
  assume "oc = Continue ls'" "ls_result ls' = ls_result ls"
    "ls_messages ls' = ls_messages ls @ [assistantMessage resp' clean [], BuildLengthRecoveryMessage clean]"
  then show ?thesis using assms(1) answered_length by (simp add: step_ok_def loop_ok_def)
next
  fix ls' resp' clean orig
  assume "oc = terminal_branch resp' clean orig ls'" "ls_result ls' = ls_result ls" "ls_messages ls' = ls_messages ls"
  moreover from this have "loop_ok ls'" using assms(1) by (simp add: loop_ok_def)
  ultimately show ?thesis using terminal_ok by simp
next
  fix st1 ls' resp' clean calls
  assume "tool_branch env spec it resp' clean calls ls' st1 = (oc, st')" "calls \<noteq> []"
    "ls_result ls' = ls_result ls" "ls_messages ls' = ls_messages ls"
  moreover from this have "loop_ok ls'" using assms(1) by (simp add: loop_ok_def)
  ultimately show ?thesis using tool_branch_ok by blast
qed

lemma iteration_ok:
  assumes "loop_ok ls" "iteration_step env spec it ls st = (oc, st')"
  shows "step_ok spec it oc"
  using assms(2)
proof (cases rule: iteration_cases)
  case (cancelled e)
  then show ?thesis using assms(1) by (simp add: step_ok_def result_ok_def outcome_ok_def canceled_def loop_ok_def)
next
  case (refused e w)
  then show ?thesis using assms(1) by (simp add: step_ok_def result_ok_def outcome_ok_def loop_ok_def)
next
  case (answered w res b st2 resp)
  then show ?thesis using respond_ok [OF assms(1)] by blast
qed

lemma finish_ok: "loop_ok ls \<Longrightarrow> result_ok (finish_run ls)"
  by (simp add: loop_ok_def result_ok_def outcome_ok_def finish_run_def)

lemma loop_result_ok:
  "loop_ok ls \<Longrightarrow> it + int n = sp_MaxIterations spec \<Longrightarrow> result_ok (fst (run_loop n env spec it ls st))"
proof (induction n arbitrary: it ls st)
  case 0
  then show ?case by (simp add: finish_ok)
next
  case (Suc n)
  obtain oc st1 where s: "iteration_step env spec it ls st = (oc, st1)" by fastforce
  have ok: "step_ok spec it oc" by (rule iteration_ok [OF Suc.prems(1) s])
  show ?case
  proof (cases oc)
    case (Continue ls')
    show ?thesis
    proof (cases "loop_ok ls'")
      case True
      then show ?thesis using Suc.IH [of ls' "it + 1" st1] Suc.prems(2) s Continue by simp
    next
      case False
      then have "n = 0" "result_ok (finish_run ls')" using ok Continue Suc.prems(2) by (auto simp: step_ok_def)
      then show ?thesis using s Continue by simp
    qed
  qed (use ok s in \<open>simp_all add: step_ok_def\<close>)
qed

lemma withDefaults_simps [simp]:
  "sp_Messages (withDefaults spec) = sp_Messages spec" "0 < sp_MaxIterations (withDefaults spec)"
  "retry_delays (withDefaults spec) = retry_delays spec"
  "sp_ContextWindowTokens (withDefaults spec) = sp_ContextWindowTokens spec"
  by (simp_all add: withDefaults_def DefaultMaxToolIterations_def retry_delays_def)

lemma Run_result_ok: "answered (sp_Messages spec) \<Longrightarrow> result_ok (fst (Run env spec st))"
  unfolding Run_def Let_def
  by (rule loop_result_ok) (simp_all add: loop_ok_def new_loop_def less_imp_le)

section \<open>The number of requests\<close>

abbreviation sent :: "run_event list \<Rightarrow> nat" where
  "sent evs \<equiv> length (requests evs)"

text \<open>A world in which the context is never done.\<close>

definition patient :: "'w run_env \<Rightarrow> bool" where
  "patient env \<longleftrightarrow> (\<forall>w. en_CtxErr env w = None) \<and> (\<forall>d w. snd (en_Sleep env d w))"

lemma patient_sleep: "patient env \<Longrightarrow> SleepWithContext env d st = (st', ok) \<Longrightarrow> ok"
  unfolding patient_def by (auto simp: SleepWithContext_def split: if_splits prod.splits) (metis snd_conv)

lemma once_sent:
  assumes "requestModelOnce env spec ms b st = (res, b', st')"
  obtains evs where "adds st evs st'" "sent evs \<le> 1" "\<forall>resp. res = Inr resp \<longrightarrow> sent evs = 1"
  using assms
proof (rule once_cases)
  fix e
  assume g: "govern env spec ms st = (st', Inl e)" "res = Inl e"
  show thesis using that [of "[]"] govern_trace [OF g(1)] g(2) by simp
next
  fix ms' st1 evs
  assume "adds st (Requested (chat_request spec ms') # evs) st'" "requests evs = []"
  then show thesis using that [of "Requested (chat_request spec ms') # evs"] by simp
qed

text \<open>
  The attempts from number \<open>attempt\<close> on: never more than the schedule has, and, when nothing cancels
  the waits, exactly as many when the last response is still a transient failure.
\<close>

definition transient_failure :: "'w run_env \<Rightarrow> go_error + Response \<Rightarrow> bool" where
  "transient_failure env res \<longleftrightarrow>
     (case res of Inl e \<Rightarrow> False
      | Inr resp \<Rightarrow> rs_FinishReason resp = FinishError \<and> fst (ClassifyResponse (en_Lower env) (Some resp)))"

definition attempts_ok :: "'w run_env \<Rightarrow> nat \<Rightarrow> go_error + Response \<Rightarrow> nat \<Rightarrow> bool" where
  "attempts_ok env left res n \<longleftrightarrow> n \<le> left \<and> (patient env \<and> transient_failure env res \<longrightarrow> n = left)"

lemma request_loop_sent:
  assumes "attempt \<le> Suc (length (retry_delays spec))" "request_loop env spec ms attempt b st = (res, b', st')"
  shows "\<exists>evs. adds st evs st' \<and> attempts_ok env (length (retry_delays spec) + 2 - attempt) res (sent evs)"
  using assms
proof (induction "Suc (length (retry_delays spec)) - attempt" arbitrary: attempt b st rule: less_induct)
  case less
  let ?n = "length (retry_delays spec)"
  obtain res1 b1 st1 where once: "requestModelOnce env spec ms b st = (res1, b1, st1)" by (metis prod_cases3)
  obtain es where es: "adds st es st1" "sent es \<le> 1" "\<forall>resp. res1 = Inr resp \<longrightarrow> sent es = 1"
    using once_sent [OF once] .
  show ?case
  proof (rule request_loop_cases [OF less.prems(2) once])
    assume stop: "(res, b', st') = (res1, b1, st1)"
      "\<forall>resp. res1 = Inr resp \<and> rs_FinishReason resp = FinishError \<and> fst (ClassifyResponse (en_Lower env) (Some resp))
         \<longrightarrow> ?n < attempt"
    have "sent es = ?n + 2 - attempt" if tf: "transient_failure env res"
    proof -
      obtain resp where r: "res1 = Inr resp" "rs_FinishReason resp = FinishError"
        "fst (ClassifyResponse (en_Lower env) (Some resp))"
        using tf stop(1) by (auto simp: transient_failure_def split: sum.splits)
      then have "attempt = Suc ?n" using stop(2) less.prems(1) by auto
      then show ?thesis using es(3) r(1) by simp
    qed
    then show ?thesis using es(1,2) stop(1) less.prems(1) by (intro exI [of _ es]) (auto simp: attempts_ok_def)
  next
    fix d
    assume c: "res = res1" "SleepWithContext env d st1 = (st', False)"
    then have np: "\<not> patient env" using patient_sleep by blast
    obtain fs where "adds st1 fs st'" "requests fs = []" using Sleep_adds [OF c(2)] by force
    then have "adds st (es @ fs) st'" "sent (es @ fs) \<le> ?n + 2 - attempt"
      using es less.prems(1) by (auto intro: adds_trans)
    then show ?thesis using np by (auto simp: attempts_ok_def)
  next
    fix resp st2
    assume again: "res1 = Inr resp" "attempt \<le> ?n" "st2 = st1 \<or> (\<exists>d. SleepWithContext env d st1 = (st2, True))"
      "request_loop env spec ms (Suc attempt) b1 st2 = (res, b', st')"
    obtain fs where fs: "adds st1 fs st2" "requests fs = []"
    proof (cases "st2 = st1")
      case True
      then show thesis using that [of "[]"] by simp
    next
      case False
      then obtain d where "SleepWithContext env d st1 = (st2, True)" using again(3) by blast
      from Sleep_adds [OF this] show thesis using that [of "[]"] that [of "[Slept d]"] by auto
    qed
    have "\<exists>gs. adds st2 gs st' \<and> attempts_ok env (?n + 2 - Suc attempt) res (sent gs)"
      by (rule less.hyps [OF _ _ again(4)]) (use again(2) in simp_all)
    then obtain gs where gs: "adds st2 gs st'" "attempts_ok env (?n + 2 - Suc attempt) res (sent gs)" by blast
    have "adds st (es @ fs @ gs) st'" using es(1) fs(1) gs(1) adds_trans by blast
    moreover have "sent (es @ fs @ gs) = 1 + sent gs" using es(3) again(1) fs(2) by simp
    ultimately show ?thesis
      using gs(2) again(2) by (intro exI [of _ "es @ fs @ gs"]) (auto simp: attempts_ok_def)
  qed
qed

lemma requestModel_sent:
  assumes "requestModel env spec ms b st = (res, b', st')"
  shows "\<exists>evs. adds st evs st' \<and> attempts_ok env (Suc (length (retry_delays spec))) res (sent evs)"
  using request_loop_sent [of 1 spec env ms b st res b' st'] assms by (simp add: requestModel_def)

text \<open>At most \<open>k\<close> requests between two states.\<close>

definition sends :: "nat \<Rightarrow> 'w run_state \<Rightarrow> 'w run_state \<Rightarrow> bool" where
  "sends k st st' \<longleftrightarrow> (\<exists>evs. adds st evs st' \<and> sent evs \<le> k)"

lemma sends_trans: "sends j st st' \<Longrightarrow> sends k st' st'' \<Longrightarrow> sends (j + k) st st''"
  unfolding sends_def using adds_trans by (metis add_mono length_append requests_simps(2))

lemma sends_mono: "sends j st st' \<Longrightarrow> j \<le> k \<Longrightarrow> sends k st st'"
  unfolding sends_def by (meson order_trans)

lemma sendsI: "adds st evs st' \<Longrightarrow> requests evs = [] \<Longrightarrow> sends k st st'"
  unfolding sends_def by auto

lemma finalize_sends: "finalizeAfterMaxIterations env spec ms st = (x, st') \<Longrightarrow> sends 1 st st'"
proof (cases "shouldFinalizeOnMaxIterations spec")
  case True
  assume f: "finalizeAfterMaxIterations env spec ms st = (x, st')"
  obtain res b st1 where once: "requestModelOnce env (spec\<lparr>sp_Tools := None\<rparr>)
      (ms @ [NewMessage RoleUser BudgetExhaustedFinalizationPrompt]) False st = (res, b, st1)" by (metis prod_cases3)
  have "st' = st1"
    using f True once by (auto simp: finalizeAfterMaxIterations_def Let_def split: sum.splits if_splits)
  then show ?thesis using once_sent [OF once] by (auto simp: sends_def)
qed (auto simp: finalizeAfterMaxIterations_def intro: sendsI [OF adds_refl])

text \<open>Only the tools of the last iteration are followed by a request of their own.\<close>

lemma tool_branch_sends:
  assumes "tool_branch env spec it resp clean calls ls st = (oc, st')"
  shows "sends (of_bool (it = sp_MaxIterations spec - 1)) st st'"
proof -
  obtain results st1 tms st2 where x: "executeTools env spec calls st = (results, st1)"
    and m: "tool_messages env spec calls results st1 = (tms, st2)"
    and alt: "it \<noteq> sp_MaxIterations spec - 1 \<and> st' = st2 \<or>
      it = sp_MaxIterations spec - 1 \<and> (\<exists>ms y. finalizeAfterMaxIterations env spec ms st2 = (y, st'))"
    by (rule tool_branch_cases [OF assms]) blast
  have "sends 0 st st1" using executeTools_adds [OF x] requests_tools sendsI by blast
  moreover have "adds st1 [] st2" using tool_messages_state [of env spec calls results st1] m by (simp add: adds_def)
  ultimately have s: "sends 0 st st2" using sends_trans [of 0 st st1 0 st2] sendsI [of st1 "[]" st2 0] by simp
  from alt show ?thesis using s finalize_sends sends_trans [OF s] by fastforce
qed

lemma respond_sends:
  assumes "respond env spec it b resp ls st = (oc, st')"
  shows "sends (of_bool (it = sp_MaxIterations spec - 1)) st st'"
proof -
  obtain st1 where st1: "shown env st st1"
    and alt: "st' = st1 \<or> (\<exists>resp' clean calls ls'. tool_branch env spec it resp' clean calls ls' st1 = (oc, st'))"
    by (rule respond_cases [OF assms]) blast
  have "adds st [] st1 \<or> (\<exists>t. adds st [OnReasoningDelta t, OnReasoningEnd] st1)"
    using st1 by (auto simp: shown_def adds_def)
  then have s: "sends 0 st st1" using sendsI by fastforce
  from alt show ?thesis
  proof
    assume "st' = st1"
    then show ?thesis using s sends_mono by blast
  next
    assume "\<exists>resp' clean calls ls'. tool_branch env spec it resp' clean calls ls' st1 = (oc, st')"
    then show ?thesis using sends_trans [OF s] tool_branch_sends by (metis add_0)
  qed
qed

lemma iteration_sends:
  assumes "iteration_step env spec it ls st = (oc, st')"
  shows "sends (Suc (length (retry_delays spec)) + of_bool (it = sp_MaxIterations spec - 1)) st st'"
proof -
  let ?n = "Suc (length (retry_delays spec))" and ?l = "of_bool (it = sp_MaxIterations spec - 1)"
  let ?st1 = "\<lambda>w. (note_event (BeforeIteration it (ls_messages ls)) st)\<lparr>rs_World := w\<rparr>"
  have b: "sends 0 st (?st1 w)" for w
    by (rule sendsI [of _ "[BeforeIteration it (ls_messages ls)]"]) (simp_all add: adds_def)
  have r: "sends ?n st st2" if "requestModel env spec (ls_messages ls) False (?st1 w) = (res, sr, st2)" for w res sr st2
    using sends_trans [OF b, of ?n w st2] requestModel_sent [OF that] by (auto simp: sends_def attempts_ok_def)
  show ?thesis
    using assms
  proof (cases rule: iteration_cases)
    case (cancelled e)
    then show ?thesis using r sends_mono [of ?n st st' "?n + ?l"] sendsI [OF adds_refl, of "?n + ?l" st] by auto
  next
    case (refused e w)
    then show ?thesis using sends_mono [OF b] by simp
  next
    case (answered w res sr st2 resp)
    then show ?thesis using sends_trans [OF r [OF answered(1)] respond_sends [OF answered(2)]] by simp
  qed
qed

lemma loop_sends:
  "run_loop n env spec it ls st = (res, st') \<Longrightarrow> it + int n = sp_MaxIterations spec \<Longrightarrow>
   sends (n * Suc (length (retry_delays spec)) + of_bool (0 < n)) st st'"
proof (induction n arbitrary: it ls st)
  case 0
  then show ?case by (simp add: sendsI [OF adds_refl])
next
  case (Suc n)
  let ?d = "Suc (length (retry_delays spec))"
  obtain oc st1 where s: "iteration_step env spec it ls st = (oc, st1)" by fastforce
  have i: "sends (?d + of_bool (n = 0)) st st1"
  proof -
    have "(it = sp_MaxIterations spec - 1) = (n = 0)" using Suc.prems(2) by auto
    then show ?thesis using iteration_sends [OF s] by simp
  qed
  show ?case
  proof (cases oc)
    case (Continue ls')
    then have "sends (n * ?d + of_bool (0 < n)) st1 st'" using Suc.IH [of "it + 1" ls' st1] Suc.prems s by simp
    from sends_trans [OF i this] show ?thesis by (rule sends_mono) simp
  qed (use i s Suc.prems sends_mono [OF i] in simp_all)
qed

section \<open>Properties\<close>

text \<open>
  C31. What a run shows of the model's reasoning, streamed or not, comes to the hooks in closed groups:
  over the whole run, with retries, tools and failures, a group opens with a non-empty piece, nothing
  but reasoning comes before it is closed, only an open group is closed, and none is open at the end.
\<close>

theorem reasoning_groups_closed:
  "\<exists>evs. rs_Trace (snd (Run env spec st)) = rs_Trace st @ evs \<and> groups False evs = Some False"
proof -
  obtain res st' where r: "Run env spec st = (res, st')" by fastforce
  then show ?thesis
    using reasoning.good_loop [of "nat (sp_MaxIterations (withDefaults spec))" env "withDefaults spec" 0
        "new_loop (sp_Messages (withDefaults spec))" st res st']
    by (simp add: Run_def Let_def reasoning.good_def adds_def)
qed



text \<open>
  C35. A run ends after at most one request per iteration and retry, and one more for the summary when
  the iterations are used up, whatever the provider answers and the tools do.
\<close>

theorem run_request_bound:
  "\<exists>evs. rs_Trace (snd (Run env spec st)) = rs_Trace st @ evs \<and>
     length (requests evs) \<le> nat (sp_MaxIterations (withDefaults spec)) * Suc (length (retry_delays spec)) + 1"
proof -
  obtain res st' where r: "Run env spec st = (res, st')" by fastforce
  let ?n = "nat (sp_MaxIterations (withDefaults spec))"
  have "sends (?n * Suc (length (retry_delays spec)) + of_bool (0 < ?n)) st st'"
    using loop_sends [of ?n env "withDefaults spec" 0 "new_loop (sp_Messages (withDefaults spec))" st res st']
      r withDefaults_simps(2) [of spec] by (simp add: Run_def Let_def)
  then show ?thesis using r by (auto simp: sends_def adds_def)
qed


definition unavailable :: Response where
  "unavailable = (new_response ''down'' FinishError)\<lparr>rs_ErrorStatusCode := Some 503\<rparr>"

lemma unavailable_once:
  "\<exists>st'. requestModelOnce (calm_env unavailable []) (plain_spec None 3) ms b st = (Inr unavailable, b, st')"
  by (simp add: requestModelOnce_def govern_def plain_spec_def calm_env_def Let_def)


section \<open>Runs that end wrongly\<close>

text \<open>
  When the last iteration is spent on the retry of an empty answer, the loop ends with the result it
  began with: the run reports completion, without content, error or reply.
\<close>

lemma blank_response:
  "respond env spec it b (new_response [] FinishStop) ls st =
     (if ls_emptyRetries ls < maxEmptyRetries then (Continue (ls\<lparr>ls_emptyRetries := ls_emptyRetries ls + 1\<rparr>), st)
      else (terminal_branch (new_response [] FinishStop) [] [] ls, st))"
proof -
  have "IsBlankText []" by (simp add: IsBlankText_def PyStrip_def PyLStrip.simps PyRStrip.simps)
  moreover have "StripThink [] = []"
    by (simp add: StripThink_def Contains_lt PyStrip_def PyLStrip.simps PyRStrip.simps)
  ultimately show ?thesis
    by (simp add: respond_def new_response_def finish_defs ExtractReasoning_def ShouldExecuteTools_def HasToolCalls_def
        EmptyRetryEligible_def)
qed

lemma completed_without_answer:
  "let res = fst (Run (calm_env (new_response [] FinishStop) []) (plain_spec None 1) first_state)
   in rr_StopReason res = StopCompleted \<and> rr_FinalContent res = [] \<and> rr_Error res = [] \<and>
      rr_Messages res = [NewMessage RoleUser ''hi'']"
proof -
  define resp where "resp = new_response [] FinishStop"
  let ?env = "calm_env resp []" and ?spec = "withDefaults (plain_spec None 1)"
  let ?ls = "new_loop [NewMessage RoleUser ''hi'']"
  have once: "\<exists>st'. requestModelOnce ?env ?spec ms b st = (Inr resp, b, st')" for ms b st
    by (simp add: requestModelOnce_def govern_def withDefaults_def plain_spec_def calm_env_def Let_def)
  have "rs_FinishReason resp \<noteq> FinishError" by (simp add: resp_def new_response_def finish_defs)
  then have r: "\<exists>st'. requestModel ?env ?spec ms b st = (Inr resp, b, st')" for ms b st
    using once [of ms b st] by (auto simp: requestModel_def request_loop.simps [of ?env ?spec ms "Suc 0"] Let_def)
  have e: "en_CtxErr ?env w = None" "en_Before ?env it ms w = (w, None)" for w it ms by (simp_all add: calm_env_def)
  have "\<exists>st'. iteration_step ?env ?spec 0 ?ls first_state = respond ?env ?spec 0 False resp ?ls st'"
  proof -
    let ?st = "(note_event (BeforeIteration 0 (ls_messages ?ls)) first_state)\<lparr>rs_World := rs_World first_state\<rparr>"
    obtain st2 where "requestModel ?env ?spec (ls_messages ?ls) False ?st = (Inr resp, False, st2)"
      using r [of "ls_messages ?ls" False ?st] by blast
    then show ?thesis by (auto simp: iteration_step_def e)
  qed
  then have "\<exists>st'. iteration_step ?env ?spec 0 ?ls first_state = (Continue (?ls\<lparr>ls_emptyRetries := 1\<rparr>), st')"
    by (simp add: resp_def blank_response maxEmptyRetries_def new_loop_def)
  moreover have "sp_Messages ?spec = [NewMessage RoleUser ''hi'']" "nat (sp_MaxIterations ?spec) = Suc 0"
    by (simp_all add: withDefaults_def plain_spec_def)
  ultimately show ?thesis
    unfolding Run_def Let_def by (auto simp: finish_run_def new_loop_def simp flip: resp_def)
qed

text \<open>The usage of the requests is lost on every early return.\<close>

lemma usage_lost:
  assumes "rr_Usage (ls_result ls) = None" "iteration_step env spec it ls st = (Return res, st')"
  shows "rr_Usage res = None"
  using assms(2)
proof (cases rule: iteration_cases)
  case (cancelled e)
  then show ?thesis using assms(1) by (simp add: canceled_def)
next
  case (refused e w)
  then show ?thesis using assms(1) by simp
next
  case (answered w r b st2 resp)
  then show ?thesis
    using assms(1)
    by - (rule respond_cases [of env spec it b resp ls st2 "Return res" st'],
        auto simp: terminal_branch_def Let_def elim: tool_branch_cases split: if_splits)
qed

end
