(* ===== verification/Tool_Values.thy ===== *)
theory Tool_Values
  imports Tools
begin

text \<open>
  The arguments of the built-in tools, \<^verbatim>\<open>internal/tools/builtin/args.go\<close> and \<^verbatim>\<open>pyvalue.go\<close>: reading the
  object of arguments, the coercion of its values, and the Python notions of truth, type name and
  iteration that the tools keep. A decoded value is a \<open>json\<close> value with its numbers as literals
  (\<^verbatim>\<open>UseNumber\<close>), an object a list of members whose keys are distinct. The schemas the tools publish are
  left out. \<open>json_error\<close> is the text of the decoder's error; of several unexpected parameters the model
  reports the first, where the order of a Go map is random.
\<close>

record tool_result =
  res_Content :: string
  res_IsError :: bool

definition tools_OK :: "string \<Rightarrow> tool_result" where
  "tools_OK content = \<lparr>res_Content = content, res_IsError = False\<rparr>"

definition tools_Errf :: "string \<Rightarrow> tool_result" where
  "tools_Errf content = \<lparr>res_Content = content, res_IsError = True\<rparr>"

section \<open>Arguments\<close>

definition invalidParams :: "string \<Rightarrow> string \<Rightarrow> tool_result" where
  "invalidParams toolName detail =
     tools_Errf (''Error: Invalid parameters for tool '' @ [CHR 0x27] @ toolName @ [CHR 0x27] @ '': '' @ detail)"

text \<open>\<^verbatim>\<open>dec.More()\<close>: a byte follows that does not close an array or an object.\<close>

definition dec_More :: "string \<Rightarrow> bool" where
  "dec_More rest \<longleftrightarrow> (case skip_ws rest of [] \<Rightarrow> False | c # _ \<Rightarrow> c \<noteq> CHR '']'' \<and> c \<noteq> CHR ''}'')"

definition parseArgs :: "(string \<Rightarrow> string) \<Rightarrow> string \<Rightarrow> string \<Rightarrow> string list \<Rightarrow> tool_result + jobject" where
  "parseArgs json_error toolName raw allowed =
     (let trimmed = TrimSpace raw in
      if trimmed = [] \<or> trimmed = ''null'' then Inr []
      else if hd trimmed \<noteq> CHR ''{'' then Inl (invalidParams toolName ''parameters must be a JSON object'')
      else
        case decodeJSONValue (2 * length trimmed + 2) trimmed of
          Some (JObject ob, rest) \<Rightarrow>
            if dec_More rest then Inl (invalidParams toolName ''arguments are not valid JSON'')
            else (case List.find (\<lambda>m. fst m \<notin> set allowed) ob of
                    Some m \<Rightarrow> Inl (invalidParams toolName (''unexpected parameter '' @ fst m))
                  | None \<Rightarrow> Inr ob)
        | _ \<Rightarrow> Inl (invalidParams toolName (json_error trimmed)))"

definition coerceString :: "json \<Rightarrow> string option" where
  "coerceString v =
     (case v of
        JString s \<Rightarrow> Some s
      | JNumber n \<Rightarrow> Some n
      | JBool b \<Rightarrow> Some (if b then ''true'' else ''false'')
      | _ \<Rightarrow> None)"

text \<open>
  \<^verbatim>\<open>math.Trunc\<close> leaves an integral number; the bounds are those of \<^verbatim>\<open>int64\<close> as binary64 numbers, the upper
  one being two to the power of 63.
\<close>

definition float_int :: "float64 \<Rightarrow> int option" where
  "float_int f =
     (case f of
        FZero _ \<Rightarrow> Some 0
      | FNum x \<Rightarrow> if x = of_int \<lfloor>x\<rfloor> \<and> - (2 ^ 63) \<le> x \<and> x \<le> 2 ^ 63 then Some (f64_to_int64 f) else None
      | _ \<Rightarrow> None)"

definition coerceInt :: "json \<Rightarrow> int option" where
  "coerceInt v =
     (case v of
        JNumber n \<Rightarrow>
          (case Atoi n of Some i \<Rightarrow> Some i
           | None \<Rightarrow> (case ParseFloat n of None \<Rightarrow> None | Some f \<Rightarrow> float_int f))
      | JString s \<Rightarrow> Atoi (TrimSpace s)
      | _ \<Rightarrow> None)"

definition coerceBool :: "(nat \<Rightarrow> nat) \<Rightarrow> json \<Rightarrow> bool option" where
  "coerceBool lower v =
     (case v of
        JBool b \<Rightarrow> Some b
      | JString s \<Rightarrow>
          let t = ToLower lower (TrimSpace s) in
          if t \<in> {''true'', ''1'', ''yes''} then Some True
          else if t \<in> {''false'', ''0'', ''no''} then Some False else None
      | _ \<Rightarrow> None)"

definition requiredString :: "string \<Rightarrow> jobject \<Rightarrow> string \<Rightarrow> tool_result + string" where
  "requiredString toolName a key =
     (let v = obj_get a key in
      if v = JNull then Inl (invalidParams toolName (''missing required '' @ key))
      else case coerceString v of
             None \<Rightarrow> Inl (invalidParams toolName (key @ '' should be string''))
           | Some s \<Rightarrow> Inr s)"

definition optionalInt :: "string \<Rightarrow> jobject \<Rightarrow> string \<Rightarrow> tool_result + int option" where
  "optionalInt toolName a key =
     (let v = obj_get a key in
      if v = JNull then Inr None
      else case coerceInt v of
             None \<Rightarrow> Inl (invalidParams toolName (key @ '' should be integer''))
           | Some n \<Rightarrow> Inr (Some n))"

definition optionalBool :: "(nat \<Rightarrow> nat) \<Rightarrow> string \<Rightarrow> jobject \<Rightarrow> string \<Rightarrow> tool_result + bool option" where
  "optionalBool lower toolName a key =
     (let v = obj_get a key in
      if v = JNull then Inr None
      else case coerceBool lower v of
             None \<Rightarrow> Inl (invalidParams toolName (key @ '' should be boolean''))
           | Some b \<Rightarrow> Inr (Some b))"

section \<open>Python's view of a value\<close>

definition pyTypeName :: "json \<Rightarrow> string" where
  "pyTypeName v =
     (case v of
        JNull \<Rightarrow> ''NoneType''
      | JBool _ \<Rightarrow> ''bool''
      | JString _ \<Rightarrow> ''str''
      | JNumber n \<Rightarrow> if Atoi n \<noteq> None then ''int'' else ''float''
      | JArray _ \<Rightarrow> ''list''
      | JObject _ \<Rightarrow> ''dict'')"

text \<open>A number is false when it is zero; one out of the range of binary64 is true.\<close>

definition pyTruthy :: "json \<Rightarrow> bool" where
  "pyTruthy v =
     (case v of
        JNull \<Rightarrow> False
      | JBool b \<Rightarrow> b
      | JString s \<Rightarrow> s \<noteq> []
      | JNumber n \<Rightarrow> (case ParseFloat n of None \<Rightarrow> True | Some (FZero _) \<Rightarrow> False | Some _ \<Rightarrow> True)
      | JArray vs \<Rightarrow> 0 < length vs
      | JObject ms \<Rightarrow> 0 < length ms)"

definition pyIterate :: "json \<Rightarrow> json list option" where
  "pyIterate v =
     (case v of
        JString s \<Rightarrow> Some (map (\<lambda>r. JString (encode_rune r)) (runes s))
      | JArray vs \<Rightarrow> Some vs
      | JObject ms \<Rightarrow> Some (map JString (sort_Strings (map fst ms)))
      | _ \<Rightarrow> None)"

definition pyAttributeError :: "string \<Rightarrow> json \<Rightarrow> string" where
  "pyAttributeError attr v =
     [CHR 0x27] @ pyTypeName v @ [CHR 0x27] @ '' object has no attribute '' @ [CHR 0x27] @ attr @ [CHR 0x27]"

definition pyReprStr :: "(nat \<Rightarrow> bool) \<Rightarrow> string \<Rightarrow> string" where
  "pyReprStr printable s = pyReprString printable s"

section \<open>Written arguments\<close>

text \<open>The arguments a JSON writer produces are read back, up to what the decoder does to their strings.\<close>

lemma TrimSpace_braces: "TrimSpace (''{'' @ s @ ''}'') = ''{'' @ s @ ''}''"
proof -
  have "space_width space_encodings (CHR ''{'' # t) = 0" "space_width (map rev space_encodings) (CHR ''}'' # t) = 0" for t
    by (simp_all add: space_width_def space_encodings_def HasPrefix_def)
  then show ?thesis by (simp add: TrimSpace_def trim_front.simps)
qed

lemma parseArgs_written:
  assumes "json_ok (JObject ms)" "list_all (\<lambda>m. fst m \<in> set allowed) (jnorm_members [] ms)" "ms \<noteq> []"
  shows "parseArgs err name (writeJSONValue (JObject ms) 0) allowed = Inr (jnorm_members [] ms)"
proof -
  let ?raw = "writeJSONValue (JObject ms) 0"
  have t: "TrimSpace ?raw = ?raw" using TrimSpace_braces [of "[CHR 0x0A] @ write_members ms 0 @ writeJSONIndent 0"] assms(3) by simp
  have d: "decodeJSONValue (2 * length ?raw + 2) ?raw = Some (JObject (jnorm_members [] ms), [])"
    using decode_write(1) [OF assms(1), of "[]" 0 "2 * length ?raw + 2"] by simp
  have f: "List.find (\<lambda>m. fst m \<notin> set allowed) (jnorm_members [] ms) = None"
    using assms(2) by (auto simp: find_None_iff list_all_iff)
  have h: "?raw \<noteq> []" "hd ?raw = CHR ''{''" "?raw \<noteq> ''null''" using assms(3) by auto
  show ?thesis unfolding parseArgs_def t Let_def d using h f by (simp del: writeJSONValue.simps add: dec_More_def)
qed

end
