(* ===== verification/Tool_Paths.thy ===== *)
theory Tool_Paths
  imports Toolresult "HOL-Library.Sublist"
begin

text \<open>
  The path policy of the file tools, \<^verbatim>\<open>internal/tools/builtin/paths.go\<close> (the part that decides where the
  tools may read and write). Paths are those of Unix. What the system answers is the record \<open>path_env\<close>:
  the home and the working directory, and \<open>pe_EvalSymlinks\<close>, the path a name leads to when every part
  of it exists. That the walk up to an existing directory ends is shown for the paths the policy gives
  it; the theory ends with what the policy lets through.
\<close>

section \<open>Paths of the library\<close>

definition path_IsAbs :: "string \<Rightarrow> bool" where
  "path_IsAbs p \<longleftrightarrow> HasPrefix p ''/''"

text \<open>The path up to and with its last slash, and what follows it.\<close>

definition dir_part :: "string \<Rightarrow> string" where
  "dir_part p = rev (dropWhile (\<lambda>c. c \<noteq> CHR ''/'') (rev p))"

definition path_Dir :: "string \<Rightarrow> string" where
  "path_Dir p = path_Clean (dir_part p)"

definition path_Base :: "string \<Rightarrow> string" where
  "path_Base p =
     (if p = [] then ''.''
      else
        let q = rev (dropWhile (\<lambda>c. c = CHR ''/'') (rev p));
            b = rev (takeWhile (\<lambda>c. c \<noteq> CHR ''/'') (rev q))
        in if b = [] then ''/'' else b)"

definition path_elems :: "string \<Rightarrow> string list" where
  "path_elems p = filter (\<lambda>e. e \<noteq> []) (Split p (CHR ''/''))"

text \<open>\<^verbatim>\<open>filepath.Rel\<close>: up from what is left of the base, then down to the target.\<close>

definition path_Rel :: "string \<Rightarrow> string \<Rightarrow> string option" where
  "path_Rel basepath targpath =
     (let base = path_Clean basepath;
          targ = path_Clean targpath
      in if targ = base then Some ''.''
         else
           let base = (if base = ''.'' then [] else base) in
           if path_IsAbs base \<noteq> path_IsAbs targ then None
           else
             let bs = path_elems base;
                 ts = path_elems targ;
                 k = length (longest_common_prefix bs ts)
             in if drop k bs \<noteq> [] \<and> hd (drop k bs) = ''..'' then None
                else Some (Join (replicate (length bs - k) ''..'' @ drop k ts) ''/''))"

section \<open>The policy\<close>

record PathPolicy =
  pp_Workspace :: string
  pp_AllowedDir :: string
  pp_ExtraReadDirs :: "string list"
  pp_ExtraReadFiles :: "string list"
  pp_ExtraWriteDirs :: "string list"
  pp_ExtraWriteFiles :: "string list"

text \<open>What the code looks at of an error of the system: its text and the two kinds it asks for.\<close>

record fs_error =
  fe_Text :: string
  fe_Permission :: bool
  fe_NotExist :: bool

record path_env =
  pe_Home :: "string option"
  pe_Getwd :: "fs_error + string"
  pe_EvalSymlinks :: "string \<Rightarrow> string option"

definition workspaceBoundaryNote :: string where
  "workspaceBoundaryNote = '' (this is a hard policy boundary, not a transient failure; ''
     @ ''do not retry with shell tricks or alternative tools, and ask ''
     @ ''the user how to proceed if the resource is genuinely required)''"

datatype path_error = BoundaryError string | WorkingDirError fs_error

definition expandUser :: "path_env \<Rightarrow> string \<Rightarrow> string" where
  "expandUser env path =
     (if path = ''~'' \<or> HasPrefix path ''~/'' then
        (case pe_Home env of
           None \<Rightarrow> path
         | Some home \<Rightarrow>
             if home = [] then path else if path = ''~'' then home else path_Join [home, drop 2 path])
      else path)"

definition path_Abs :: "path_env \<Rightarrow> string \<Rightarrow> fs_error + string" where
  "path_Abs env path =
     (if path_IsAbs path then Inr (path_Clean path)
      else map_sum id (\<lambda>wd. path_Join [wd, path]) (pe_Getwd env))"

text \<open>
  The path resolved as far as it exists: its longest ancestor that exists, with the rest appended; the
  path itself when there is none. The walk goes up until an ancestor is its own parent.
\<close>

partial_function (option) resolve_up :: "path_env \<Rightarrow> string \<Rightarrow> string \<Rightarrow> string \<Rightarrow> string option" where
  "resolve_up env path dir rest =
     (case pe_EvalSymlinks env dir of
        Some resolved \<Rightarrow> Some (if rest = [] then resolved else path_Join [resolved, rest])
      | None \<Rightarrow>
          if path_Dir dir = dir then Some path
          else resolve_up env path (path_Dir dir) (path_Join [path_Base dir, rest]))"

declare resolve_up.simps [code]

definition resolveNonStrict :: "path_env \<Rightarrow> string \<Rightarrow> string option" where
  "resolveNonStrict env path = resolve_up env path path []"

definition isPathWithin :: "path_env \<Rightarrow> string \<Rightarrow> string \<Rightarrow> bool option" where
  "isPathWithin env path root =
     (if root = [] then Some False
      else
        Option.bind (resolveNonStrict env (expandUser env path)) (\<lambda>p.
        Option.bind (resolveNonStrict env (expandUser env root)) (\<lambda>r.
          Some (case path_Rel r p of
                  None \<Rightarrow> False
                | Some rel \<Rightarrow> rel = ''.'' \<or> rel \<noteq> ''..'' \<and> \<not> HasPrefix rel ''../''))))"

definition samePath :: "path_env \<Rightarrow> string \<Rightarrow> string \<Rightarrow> bool" where
  "samePath env a b \<longleftrightarrow>
     (case (path_Abs env (expandUser env a), path_Abs env (expandUser env b)) of
        (Inr aa, Inr bb) \<Rightarrow> aa = bb
      | _ \<Rightarrow> False)"

definition logicalPath :: "path_env \<Rightarrow> PathPolicy \<Rightarrow> string \<Rightarrow> path_error + string" where
  "logicalPath env p path =
     (let candidate = expandUser env path;
          candidate = (if \<not> path_IsAbs candidate \<and> pp_Workspace p \<noteq> [] then path_Join [pp_Workspace p, candidate]
                       else candidate)
      in case path_Abs env candidate of Inl e \<Rightarrow> Inl (WorkingDirError e) | Inr p \<Rightarrow> Inr p)"

fun within_any :: "path_env \<Rightarrow> string \<Rightarrow> string list \<Rightarrow> bool option" where
  "within_any env resolved [] = Some False"
| "within_any env resolved (d # ds) =
     Option.bind (isPathWithin env resolved d) (\<lambda>b. if b then Some True else within_any env resolved ds)"

definition policy_resolve ::
  "path_env \<Rightarrow> PathPolicy \<Rightarrow> string \<Rightarrow> string list \<Rightarrow> string list \<Rightarrow> bool \<Rightarrow> (path_error + string) option" where
  "policy_resolve env p path extraDirs extraFiles requireRootForFiles =
     (case logicalPath env p path of
        Inl e \<Rightarrow> Some (Inl e)
      | Inr logical \<Rightarrow>
          Option.bind (resolveNonStrict env logical) (\<lambda>resolved.
            let files = (if requireRootForFiles \<and> pp_AllowedDir p = [] then [] else extraFiles) in
            if pp_AllowedDir p = [] \<and> length files = 0 then Some (Inr resolved)
            else
              Option.bind (if pp_AllowedDir p \<noteq> [] then isPathWithin env resolved (pp_AllowedDir p) else Some False) (\<lambda>inside.
              if inside then Some (Inr resolved)
              else
                Option.bind (within_any env resolved extraDirs) (\<lambda>extra.
                if extra then Some (Inr resolved)
                else if 0 < length files \<and> logical = resolved \<and> list_ex (samePath env logical) files
                then Some (Inr resolved)
                else Some (Inl (BoundaryError (''Path '' @ path @ '' is outside allowed directory '' @ pp_AllowedDir p
                                  @ workspaceBoundaryNote)))))))"

definition resolveRead :: "path_env \<Rightarrow> PathPolicy \<Rightarrow> string \<Rightarrow> (path_error + string) option" where
  "resolveRead env p path = policy_resolve env p path (pp_ExtraReadDirs p) (pp_ExtraReadFiles p) True"

definition resolveWrite :: "path_env \<Rightarrow> PathPolicy \<Rightarrow> string \<Rightarrow> (path_error + string) option" where
  "resolveWrite env p path = policy_resolve env p path (pp_ExtraWriteDirs p) (pp_ExtraWriteFiles p) False"

definition mustAbs :: "path_env \<Rightarrow> string \<Rightarrow> string" where
  "mustAbs env path = (case path_Abs env (expandUser env path) of Inl _ \<Rightarrow> path | Inr p \<Rightarrow> p)"

definition displayPath :: "path_env \<Rightarrow> PathPolicy \<Rightarrow> string \<Rightarrow> string" where
  "displayPath env p path =
     (if pp_Workspace p = [] then path
      else case path_Rel (mustAbs env (pp_Workspace p)) path of
             None \<Rightarrow> path
           | Some rel \<Rightarrow> if rel \<noteq> ''..'' \<and> \<not> HasPrefix rel ''../'' then rel else path)"

section \<open>Clean paths\<close>

text \<open>
  A path in normal form by its elements: none is empty or a dot, and two dots stand only at the front
  of a relative path.
\<close>

definition plain_elem :: "string \<Rightarrow> bool" where
  "plain_elem e \<longleftrightarrow> e \<noteq> [] \<and> e \<noteq> ''.'' \<and> CHR ''/'' \<notin> set e"

definition normal_elems :: "bool \<Rightarrow> string list \<Rightarrow> bool" where
  "normal_elems rooted cs \<longleftrightarrow> list_all plain_elem cs \<and>
     (\<exists>k ds. cs = replicate k ''..'' @ ds \<and> ''..'' \<notin> set ds \<and> (rooted \<longrightarrow> k = 0))"

definition render_path :: "bool \<Rightarrow> string list \<Rightarrow> string" where
  "render_path rooted cs = (if rooted then ''/'' @ Join cs ''/'' else if cs = [] then ''.'' else Join cs ''/'')"

lemma normal_Nil [simp]: "normal_elems rooted []"
  by (auto simp: normal_elems_def intro: exI [of _ 0])

lemma normal_butlast: "normal_elems rooted cs \<Longrightarrow> normal_elems rooted (butlast cs)"
proof -
  assume n: "normal_elems rooted cs"
  then obtain k ds where cs: "cs = replicate k ''..'' @ ds" "''..'' \<notin> set ds" "rooted \<longrightarrow> k = 0"
    by (auto simp: normal_elems_def)
  have "list_all plain_elem (butlast cs)" using n by (auto simp: normal_elems_def list_all_iff dest: in_set_butlastD)
  moreover have "\<exists>k ds. butlast cs = replicate k ''..'' @ ds \<and> ''..'' \<notin> set ds \<and> (rooted \<longrightarrow> k = 0)"
  proof (cases "ds = []")
    case True
    have "butlast cs = replicate (k - 1) ''..'' @ []" using cs(1) True by (cases k) (simp_all add: replicate_append_same [symmetric] butlast_append)
    then show ?thesis using cs(3) by (metis diff_0_eq_0 empty_iff empty_set)
  next
    case False
    then have "butlast cs = replicate k ''..'' @ butlast ds" using cs(1) by (simp add: butlast_append)
    then show ?thesis using cs(2,3) in_set_butlastD by metis
  qed
  ultimately show ?thesis by (simp add: normal_elems_def)
qed

lemma normal_snoc:
  assumes "normal_elems rooted cs" "plain_elem c" "c \<noteq> ''..''"
  shows "normal_elems rooted (cs @ [c])"
proof -
  obtain k ds where "cs = replicate k ''..'' @ ds" "''..'' \<notin> set ds" "rooted \<longrightarrow> k = 0"
    using assms(1) by (auto simp: normal_elems_def)
  then have "cs @ [c] = replicate k ''..'' @ (ds @ [c])" "''..'' \<notin> set (ds @ [c])" "rooted \<longrightarrow> k = 0"
    using assms(3) by auto
  moreover have "list_all plain_elem (cs @ [c])" using assms by (simp add: normal_elems_def)
  ultimately show ?thesis unfolding normal_elems_def by blast
qed

lemma normal_up:
  assumes "normal_elems False cs" "cs = [] \<or> last cs = ''..''"
  shows "normal_elems False (cs @ [''..''])"
proof -
  obtain k ds where cs: "cs = replicate k ''..'' @ ds" "''..'' \<notin> set ds" using assms(1) by (auto simp: normal_elems_def)
  have "ds = []" using assms(2) cs by (metis append_is_Nil_conv last_appendR last_in_set)
  then have "cs @ [''..''] = replicate (Suc k) ''..'' @ []" using cs(1) by (simp add: replicate_append_same)
  moreover have "list_all plain_elem (cs @ [''..''])"
    using assms(1) by (simp add: normal_elems_def plain_elem_def)
  ultimately show ?thesis unfolding normal_elems_def by (metis empty_iff empty_set)
qed

lemma clean_step_normal:
  assumes "normal_elems rooted acc" "CHR ''/'' \<notin> set c"
  shows "normal_elems rooted (clean_step rooted acc c)"
proof (cases "c = [] \<or> c = ''.''")
  case True
  then show ?thesis using assms by (simp add: clean_step_def)
next
  case False
  then have p: "plain_elem c" using assms(2) by (simp add: plain_elem_def)
  show ?thesis
  proof (cases "c = ''..''")
    case True
    then show ?thesis
      using assms(1) normal_butlast normal_up [of acc] by (cases rooted) (auto simp: clean_step_def)
  next
    case c: False
    then show ?thesis using normal_snoc [OF assms(1) p] False by (simp add: clean_step_def)
  qed
qed

lemma clean_fold_normal:
  "normal_elems rooted acc \<Longrightarrow> \<forall>c \<in> set cs. CHR ''/'' \<notin> set c \<Longrightarrow> normal_elems rooted (foldl (clean_step rooted) acc cs)"
  by (induction cs arbitrary: acc) (auto intro: clean_step_normal)

text \<open>A list in normal form is a fixed point of the cleaning steps.\<close>

lemma clean_fold_fix:
  "normal_elems rooted cs \<Longrightarrow> foldl (clean_step rooted) [] cs = cs"
proof (induction cs rule: rev_induct)
  case (snoc c cs)
  have n: "normal_elems rooted cs" using normal_butlast [OF snoc.prems] by simp
  have p: "plain_elem c" using snoc.prems by (simp add: normal_elems_def)
  obtain k ds where d: "cs @ [c] = replicate k ''..'' @ ds" "''..'' \<notin> set ds" "rooted \<longrightarrow> k = 0"
    using snoc.prems by (auto simp: normal_elems_def)
  have "clean_step rooted cs c = cs @ [c]"
  proof (cases "c = ''..''")
    case True
    then have "ds = []" using d by (metis last_appendR last_in_set last_snoc)
    then have "cs = replicate (k - 1) ''..''" "\<not> rooted"
      using d(1,3) by (cases k; simp add: replicate_append_same [symmetric])+
    then show ?thesis using True by (auto simp: clean_step_def)
  next
    case False
    then show ?thesis using p by (simp add: clean_step_def plain_elem_def)
  qed
  then show ?case using snoc.IH [OF n] by simp
qed simp

lemma split_acc_elem: "CHR ''/'' \<notin> set e \<Longrightarrow> split_acc (CHR ''/'') cur (e @ s) = split_acc (CHR ''/'') (cur @ e) s"
  by (induction e arbitrary: cur) auto

lemma Split_elems: "list_all plain_elem cs \<Longrightarrow> cs \<noteq> [] \<Longrightarrow> split_acc (CHR ''/'') [] (Join cs ''/'') = cs"
proof (induction cs rule: induct_list012)
  case (2 c)
  then show ?case using split_acc_elem [of c "[]" "[]"] by (simp add: plain_elem_def)
next
  case (3 c d cs)
  then show ?case using split_acc_elem [of c "[]" "''/'' @ Join (d # cs) ''/''"] by (simp add: plain_elem_def)
qed simp

lemma Split_elems_slash:
  "list_all plain_elem cs \<Longrightarrow> cs \<noteq> [] \<Longrightarrow> split_acc (CHR ''/'') [] (Join cs ''/'' @ ''/'') = cs @ [[]]"
proof (induction cs rule: induct_list012)
  case (2 c)
  then show ?case using split_acc_elem [of c "[]" "''/''"] by (simp add: plain_elem_def)
next
  case (3 c d cs)
  then show ?case using split_acc_elem [of c "[]" "''/'' @ Join (d # cs) ''/'' @ ''/''"] by (simp add: plain_elem_def)
qed simp

lemma Join_first: "list_all plain_elem cs \<Longrightarrow> cs \<noteq> [] \<Longrightarrow> Join cs ''/'' \<noteq> [] \<and> hd (Join cs ''/'') \<noteq> CHR ''/''"
proof (induction cs rule: induct_list012)
  case (2 c)
  then show ?case by (cases c) (auto simp: plain_elem_def)
next
  case (3 c d cs)
  then show ?case by (cases c) (auto simp: plain_elem_def)
qed simp

lemma Join_snoc: "Join (cs @ [c]) sep = (if cs = [] then c else Join cs sep @ sep @ c)"
  by (induction cs rule: induct_list012) auto

lemma Clean_normal:
  assumes "normal_elems rooted cs" "HasPrefix s ''/'' = rooted" "Split s (CHR ''/'') = pre @ cs @ post"
    "set pre \<subseteq> {[]}" "set post \<subseteq> {[]}"
  shows "path_Clean s = render_path rooted cs"
proof -
  have skip: "foldl (clean_step rooted) acc xs = acc" if "set xs \<subseteq> {[]}" for acc xs
    using that by (induction xs) (auto simp: clean_step_def)
  have "foldl (clean_step rooted) [] (Split s (CHR ''/'')) = cs"
    by (simp add: assms(3) skip [OF assms(4)] skip [OF assms(5)] clean_fold_fix [OF assms(1)])
  moreover have "Join cs ''/'' = [] \<longleftrightarrow> cs = []" using assms(1) Join_first by (auto simp: normal_elems_def)
  ultimately show ?thesis using assms(2) by (auto simp: path_Clean_def Let_def render_path_def)
qed

lemma path_Clean_render:
  obtains rooted cs where "path_Clean s = render_path rooted cs" "normal_elems rooted cs"
proof -
  define r where "r = HasPrefix s ''/''"
  define cs where "cs = foldl (clean_step r) [] (Split s (CHR ''/''))"
  have n: "normal_elems r cs"
    unfolding cs_def by (rule clean_fold_normal) (auto dest: Split_no_sep)
  have "Join cs ''/'' = [] \<longleftrightarrow> cs = []" using n Join_first by (auto simp: normal_elems_def)
  moreover have "path_Clean s = (if r then ''/'' @ Join cs ''/'' else if Join cs ''/'' = [] then ''.'' else Join cs ''/'')"
    by (simp add: path_Clean_def Let_def cs_def r_def)
  ultimately have "path_Clean s = render_path r cs" by (simp add: render_path_def)
  then show thesis using that n by blast
qed

lemma dir_part_simps:
  "CHR ''/'' \<notin> set c \<Longrightarrow> dir_part (x @ ''/'' @ c) = x @ ''/''" "CHR ''/'' \<notin> set c \<Longrightarrow> dir_part c = []"
proof -
  assume c: "CHR ''/'' \<notin> set c"
  have "dropWhile (\<lambda>d. d \<noteq> CHR ''/'') (rev c @ CHR ''/'' # rev x) = CHR ''/'' # rev x"
    using c by (subst dropWhile_append2) auto
  then show "dir_part (x @ ''/'' @ c) = x @ ''/''" by (simp add: dir_part_def)
  show "dir_part c = []" using c by (auto simp: dir_part_def dropWhile_eq_Nil_conv)
qed

lemma path_Dir_Nil: "path_Dir (render_path rooted []) = render_path rooted []"
proof -
  have "path_Clean ''/'' = render_path True []" "path_Clean [] = render_path False []"
    by (rule Clean_normal [where pre = "[[], []]" and post = "[]"] Clean_normal [where pre = "[[]]" and post = "[]"];
        simp add: HasPrefix_def Split_def)+
  then show ?thesis
    using dir_part_simps(1) [of "[]" "[]"] dir_part_simps(2) [of "''.''"]
    by (cases rooted) (simp_all add: path_Dir_def render_path_def)
qed

lemma path_Dir_snoc:
  assumes "normal_elems rooted (bs @ [c])"
  shows "path_Dir (render_path rooted (bs @ [c])) = render_path rooted bs"
proof -
  have n: "normal_elems rooted bs" using normal_butlast [OF assms] by simp
  have e: "list_all plain_elem bs" "CHR ''/'' \<notin> set c" using assms by (auto simp: normal_elems_def plain_elem_def)
  show ?thesis
  proof (cases "bs = []")
    case True
    then show ?thesis
      using e(2) dir_part_simps(1) [of c "[]"] dir_part_simps(2) [of c] path_Dir_Nil [of rooted]
        dir_part_simps(1) [of "[]" "[]"] dir_part_simps(2) [of "''.''"]
      by (cases rooted) (simp_all add: path_Dir_def render_path_def)
  next
    case False
    have sp: "Split (Join bs ''/'' @ ''/'') (CHR ''/'') = bs @ [[]]"
      using Split_elems_slash [OF e(1) False] by (simp add: Split_def)
    have "path_Clean (''/'' @ Join bs ''/'' @ ''/'') = render_path True bs" if "rooted"
      by (rule Clean_normal [where pre = "[[]]" and post = "[[]]"])
        (use n that sp in \<open>simp_all add: HasPrefix_def Split_def\<close>)
    moreover have "path_Clean (Join bs ''/'' @ ''/'') = render_path False bs" if "\<not> rooted"
      by (rule Clean_normal [where pre = "[]" and post = "[[]]"])
        (use n that sp Join_first [OF e(1) False] in \<open>auto simp: HasPrefix_def neq_Nil_conv\<close>)
    ultimately show ?thesis
      using False e(2) dir_part_simps(1) [of c "''/'' @ Join bs ''/''"] dir_part_simps(1) [of c "Join bs ''/''"]
      by (cases rooted) (simp_all add: path_Dir_def render_path_def Join_snoc)
  qed
qed

section \<open>Resolving ends\<close>

lemma resolve_up_normal:
  "normal_elems rooted cs \<Longrightarrow> \<exists>r. resolve_up env path (render_path rooted cs) rest = Some r"
proof (induction cs arbitrary: rest rule: rev_induct)
  case Nil
  show ?case by (subst resolve_up.simps) (simp add: path_Dir_Nil split: option.split)
next
  case (snoc c cs)
  have "normal_elems rooted cs" using normal_butlast [OF snoc.prems] by simp
  then show ?case using snoc.IH path_Dir_snoc [OF snoc.prems] by (subst resolve_up.simps) (auto split: option.split)
qed

lemma resolveNonStrict_total: "\<exists>r. resolveNonStrict env path = Some r"
proof -
  obtain rooted cs where "path_Dir path = render_path rooted cs" "normal_elems rooted cs"
    unfolding path_Dir_def by (rule path_Clean_render)
  then show ?thesis
    using resolve_up_normal by (auto simp: resolveNonStrict_def resolve_up.simps [of env path path] split: option.split)
qed

lemma isPathWithin_total: "\<exists>b. isPathWithin env path root = Some b"
  using resolveNonStrict_total by (metis (no_types, lifting) bind.bind_lunit isPathWithin_def)

lemma within_any_total: "\<exists>b. within_any env path roots = Some b"
proof (induction roots)
  case (Cons d ds)
  obtain b where "isPathWithin env path d = Some b" using isPathWithin_total by blast
  then show ?case using Cons by (cases b) auto
qed auto

lemma policy_resolve_total: "\<exists>x. policy_resolve env p path dirs files req = Some x"
proof (cases "logicalPath env p path")
  case (Inr logical)
  obtain r where r: "resolveNonStrict env logical = Some r" using resolveNonStrict_total by blast
  obtain b where "(if pp_AllowedDir p \<noteq> [] then isPathWithin env r (pp_AllowedDir p) else Some False) = Some b"
    using isPathWithin_total [of env r "pp_AllowedDir p"] by (cases "pp_AllowedDir p = []") auto
  moreover obtain b' where "within_any env r dirs = Some b'" using within_any_total by blast
  ultimately show ?thesis using Inr r by (simp add: policy_resolve_def Let_def)
qed (simp add: policy_resolve_def)

section \<open>What the policy lets through\<close>

text \<open>
  A path lies below a directory when the place it leads to has the elements of the place the directory
  leads to at its front.
\<close>

definition path_below :: "string \<Rightarrow> string \<Rightarrow> bool" where
  "path_below r p \<longleftrightarrow>
     path_Clean p = path_Clean r
     \<or> path_IsAbs (path_Clean r) = path_IsAbs (path_Clean p)
       \<and> (path_Clean r = ''.'' \<or> prefix (path_elems (path_Clean r)) (path_elems (path_Clean p)))"

definition leads_below :: "path_env \<Rightarrow> string \<Rightarrow> string \<Rightarrow> bool" where
  "leads_below env path root \<longleftrightarrow>
     (\<exists>p r. resolveNonStrict env (expandUser env path) = Some p \<and>
        resolveNonStrict env (expandUser env root) = Some r \<and> path_below r p)"

lemma Join_up: "0 < n \<Longrightarrow> Join (replicate n ''..'' @ ts) ''/'' = ''..'' \<or> HasPrefix (Join (replicate n ''..'' @ ts) ''/'') ''../''"
proof (cases "replicate (n - 1) ''..'' @ ts")
  case Nil
  assume "0 < n"
  then have "replicate n ''..'' @ ts = [''..'']" using Nil by (cases n) auto
  then show ?thesis by simp
next
  case (Cons t us)
  assume "0 < n"
  then have "replicate n ''..'' @ ts = ''..'' # t # us" using Cons by (cases n) auto
  then show ?thesis by (simp add: HasPrefix_def)
qed

lemma Rel_below:
  assumes "path_Rel r p = Some rel" "rel = ''.'' \<or> rel \<noteq> ''..'' \<and> \<not> HasPrefix rel ''../''"
  shows "path_below r p"
proof (cases "path_Clean p = path_Clean r")
  case False
  define base where "base = (if path_Clean r = ''.'' then [] else path_Clean r)"
  let ?bs = "path_elems base" and ?ts = "path_elems (path_Clean p)"
  let ?k = "length (longest_common_prefix ?bs ?ts)"
  have a: "path_IsAbs base = path_IsAbs (path_Clean p)"
    "rel = Join (replicate (length ?bs - ?k) ''..'' @ drop ?k ?ts) ''/''"
    using assms(1) False by (auto simp: path_Rel_def Let_def base_def split: if_splits)
  have "length ?bs - ?k = 0"
  proof (rule ccontr)
    assume "length ?bs - ?k \<noteq> 0"
    then have "rel = ''..'' \<or> HasPrefix rel ''../''" unfolding a(2) by (intro Join_up) simp
    then show False using assms(2) by (auto simp: HasPrefix_def)
  qed
  then have "length ?bs \<le> ?k" by simp
  then have "longest_common_prefix ?bs ?ts = ?bs"
    using longest_common_prefix_prefix1 [of ?bs ?ts] by (metis prefix_length_le le_antisym prefix_def append_eq_conv_conj take_all_iff order_refl)
  then have "prefix ?bs ?ts" using longest_common_prefix_prefix2 [of ?bs ?ts] by simp
  then show ?thesis using a(1) by (auto simp: path_below_def base_def path_IsAbs_def HasPrefix_def split: if_splits)
qed (simp add: path_below_def)

lemma isPathWithin_below:
  assumes "isPathWithin env path root = Some True"
  shows "root \<noteq> [] \<and> leads_below env path root"
proof -
  obtain p r where pr: "resolveNonStrict env (expandUser env path) = Some p" "resolveNonStrict env (expandUser env root) = Some r"
    using resolveNonStrict_total by metis
  have n: "root \<noteq> []" using assms by (auto simp: isPathWithin_def)
  then obtain rel where "path_Rel r p = Some rel" "rel = ''.'' \<or> rel \<noteq> ''..'' \<and> \<not> HasPrefix rel ''../''"
    using assms pr by (auto simp: isPathWithin_def split: option.splits)
  then show ?thesis using n pr Rel_below by (auto simp: leads_below_def)
qed

lemma within_any_below: "within_any env path roots = Some True \<Longrightarrow> \<exists>d \<in> set roots. d \<noteq> [] \<and> leads_below env path d"
proof (induction roots)
  case (Cons d ds)
  obtain b where b: "isPathWithin env path d = Some b" using isPathWithin_total by blast
  then show ?case using Cons isPathWithin_below [of env path d] by (cases b) auto
qed simp

text \<open>The places a tool may write to under a policy with a boundary.\<close>

definition may_write :: "path_env \<Rightarrow> PathPolicy \<Rightarrow> string \<Rightarrow> bool" where
  "may_write env p path \<longleftrightarrow>
     (\<exists>d \<in> insert (pp_AllowedDir p) (set (pp_ExtraWriteDirs p)). d \<noteq> [] \<and> leads_below env path d)
     \<or> (\<exists>f \<in> set (pp_ExtraWriteFiles p). samePath env path f \<and> resolveNonStrict env path = Some path)"

lemma resolveWrite_total: "\<exists>x. resolveWrite env p path = Some x"
  by (simp add: resolveWrite_def policy_resolve_total)

lemma resolveWrite_confined:
  assumes "resolveWrite env p path = Some (Inr resolved)" "pp_AllowedDir p \<noteq> []"
  shows "may_write env p resolved"
proof -
  obtain logical where l: "logicalPath env p path = Inr logical"
    using assms(1) by (auto simp: resolveWrite_def policy_resolve_def split: sum.splits)
  obtain r where r: "resolveNonStrict env logical = Some r" using resolveNonStrict_total by blast
  obtain b where b: "isPathWithin env r (pp_AllowedDir p) = Some b" using isPathWithin_total by blast
  obtain b' where b': "within_any env r (pp_ExtraWriteDirs p) = Some b'" using within_any_total by blast
  have "resolved = r \<and> (b \<or> b' \<or> logical = r \<and> list_ex (samePath env logical) (pp_ExtraWriteFiles p))"
    using assms l r b b' by (auto simp: resolveWrite_def policy_resolve_def Let_def split: if_splits)
  then show ?thesis
    using isPathWithin_below [of env r "pp_AllowedDir p"] within_any_below [of env r] b b' r
    by (auto simp: may_write_def list_ex_iff)
qed

end
