(* ===== verification/File_Tools.thy ===== *)
theory File_Tools
  imports Tool_Values Tool_Paths FileDiff
begin

text \<open>
  The tools that change files, \<^verbatim>\<open>internal/tools/builtin/apply_patch.go\<close>, \<^verbatim>\<open>edit_file.go\<close> and \<^verbatim>\<open>write_file.go\<close>.
  The files are a map from resolved paths to nodes; directories that are made on the way are not
  recorded. Whether a call of the system fails is the record \<open>file_io\<close>, one for the work and one for the
  undoing of a patch; a write that fails leaves whatever it left (\<open>fi_Write\<close>). The diffs attached to a
  result are the ones of \<open>FileDiff\<close>, of which only the counts appear in the text.
\<close>

section \<open>Files\<close>

text \<open>A regular file, or something else with what reading it gives, if it can be read.\<close>

datatype node = Regular string | Special "string option"

type_synonym files = "string \<Rightarrow> node option"

record file_io =
  fi_Stat :: "string \<Rightarrow> fs_error option"
  fi_Read :: "string \<Rightarrow> fs_error option"
  fi_Mkdir :: "string \<Rightarrow> fs_error option"
  fi_Write :: "string \<Rightarrow> (fs_error \<times> node option) option"
  fi_Remove :: "string \<Rightarrow> fs_error option"

definition not_exist :: "string \<Rightarrow> fs_error" where
  "not_exist p = \<lparr>fe_Text = ''open '' @ p @ '': no such file or directory'', fe_Permission = False, fe_NotExist = True\<rparr>"

definition is_directory :: "string \<Rightarrow> fs_error" where
  "is_directory p = \<lparr>fe_Text = ''read '' @ p @ '': is a directory'', fe_Permission = False, fe_NotExist = False\<rparr>"

definition os_Stat :: "file_io \<Rightarrow> string \<Rightarrow> files \<Rightarrow> node option" where
  "os_Stat io p fs = (if fi_Stat io p = None then fs p else None)"

definition isRegularFile :: "file_io \<Rightarrow> string \<Rightarrow> files \<Rightarrow> bool" where
  "isRegularFile io p fs \<longleftrightarrow> (case os_Stat io p fs of Some (Regular _) \<Rightarrow> True | _ \<Rightarrow> False)"

definition os_ReadFile :: "file_io \<Rightarrow> string \<Rightarrow> files \<Rightarrow> fs_error + string" where
  "os_ReadFile io p fs =
     (case fi_Read io p of
        Some e \<Rightarrow> Inl e
      | None \<Rightarrow>
          (case fs p of
             None \<Rightarrow> Inl (not_exist p)
           | Some (Regular s) \<Rightarrow> Inr s
           | Some (Special (Some s)) \<Rightarrow> Inr s
           | Some (Special None) \<Rightarrow> Inl (is_directory p)))"

definition os_WriteFile :: "file_io \<Rightarrow> string \<Rightarrow> string \<Rightarrow> files \<Rightarrow> fs_error option \<times> files" where
  "os_WriteFile io p data fs =
     (case fi_Write io p of
        Some (e, left) \<Rightarrow> (Some e, fs(p := left))
      | None \<Rightarrow>
          (case fs p of
             Some (Special _) \<Rightarrow> (None, fs)
           | _ \<Rightarrow> (None, fs(p \<mapsto> Regular data))))"

text \<open>\<^verbatim>\<open>os.MkdirAll(filepath.Dir(p))\<close>, then \<^verbatim>\<open>os.WriteFile\<close>.\<close>

definition mkdir_write :: "file_io \<Rightarrow> string \<Rightarrow> string \<Rightarrow> files \<Rightarrow> fs_error option \<times> files" where
  "mkdir_write io p data fs =
     (case fi_Mkdir io (path_Dir p) of Some e \<Rightarrow> (Some e, fs) | None \<Rightarrow> os_WriteFile io p data fs)"

section \<open>Errors\<close>

datatype tool_error = PatchError string | PathError path_error | SysError fs_error | OtherError string

definition tool_error_text :: "tool_error \<Rightarrow> string" where
  "tool_error_text e =
     (case e of
        PatchError s \<Rightarrow> s
      | PathError (BoundaryError s) \<Rightarrow> s
      | PathError (WorkingDirError f) \<Rightarrow> fe_Text f
      | SysError f \<Rightarrow> fe_Text f
      | OtherError s \<Rightarrow> s)"

definition is_permission :: "tool_error \<Rightarrow> bool" where
  "is_permission e \<longleftrightarrow>
     (case e of
        PathError (BoundaryError _) \<Rightarrow> True
      | PathError (WorkingDirError f) \<Rightarrow> fe_Permission f
      | SysError f \<Rightarrow> fe_Permission f
      | _ \<Rightarrow> False)"

definition is_not_exist :: "tool_error \<Rightarrow> bool" where
  "is_not_exist e \<longleftrightarrow>
     (case e of PathError (WorkingDirError f) \<Rightarrow> fe_NotExist f | SysError f \<Rightarrow> fe_NotExist f | _ \<Rightarrow> False)"

definition patchErrorResult :: "tool_error \<Rightarrow> tool_result" where
  "patchErrorResult e =
     (if is_permission e then tools_Errf (''Error: '' @ tool_error_text e)
      else tools_Errf (''Error applying patch: '' @ tool_error_text e))"

definition permissionOrGenericEdit :: "tool_error \<Rightarrow> tool_result" where
  "permissionOrGenericEdit e =
     (if is_permission e then tools_Errf (''Error: '' @ tool_error_text e)
      else if is_not_exist e then tools_Errf (''Error: File not found: '' @ tool_error_text e)
      else tools_Errf (''Error editing file: '' @ tool_error_text e))"

definition permissionOrGenericWrite :: "tool_error \<Rightarrow> tool_result" where
  "permissionOrGenericWrite e =
     (if is_permission e then tools_Errf (''Error: '' @ tool_error_text e)
      else tools_Errf (''Error writing file: '' @ tool_error_text e))"

text \<open>The environment of a tool: paths, policy, the Unicode tables, and the decoder's error text.\<close>

record tool_env =
  te_Paths :: path_env
  te_Policy :: PathPolicy
  te_Lower :: "nat \<Rightarrow> nat"
  te_Printable :: "nat \<Rightarrow> bool"
  te_JsonError :: "string \<Rightarrow> string"

text \<open>The path a tool writes to; resolving always ends (\<open>resolveWrite_total\<close>).\<close>

definition resolve_write :: "tool_env \<Rightarrow> string \<Rightarrow> tool_error + string" where
  "resolve_write env path =
     (case resolveWrite (te_Paths env) (te_Policy env) path of
        None \<Rightarrow> Inl (OtherError [])
      | Some (Inl e) \<Rightarrow> Inl (PathError e)
      | Some (Inr p) \<Rightarrow> Inr p)"

section \<open>Line ends\<close>

definition uses_crlf :: "string \<Rightarrow> bool" where
  "uses_crlf s \<longleftrightarrow> Contains s [CHR 0x0D, CHR 0x0A]"

definition lf_to_crlf :: "string \<Rightarrow> string" where
  "lf_to_crlf s = concat (map (\<lambda>c. if c = CHR 0x0A then [CHR 0x0D, CHR 0x0A] else [c]) s)"

definition HasSuffix :: "string \<Rightarrow> string \<Rightarrow> bool" where
  "HasSuffix s p \<longleftrightarrow> HasPrefix (rev s) (rev p)"

definition end_line :: "string \<Rightarrow> string" where
  "end_line s = (if s \<noteq> [] \<and> \<not> HasSuffix s [CHR 0x0A] then s @ [CHR 0x0A] else s)"

definition diff_stats :: "string \<Rightarrow> string \<Rightarrow> string" where
  "diff_stats before after =
     (case FileDiffFromText before after of
        None \<Rightarrow> []
      | Some d \<Rightarrow>
          if fd_Added d \<noteq> 0 \<or> fd_Deleted d \<noteq> 0
          then '' (+'' @ Itoa (int (fd_Added d)) @ ''/-'' @ Itoa (int (fd_Deleted d)) @ '')'' else [])"

section \<open>apply patch\<close>

text \<open>The pending writes, in the order in which their paths first came up.\<close>

type_synonym patchWrites = "(string \<times> string) list"

definition validatePatchPath :: "tool_env \<Rightarrow> string \<Rightarrow> tool_error + string" where
  "validatePatchPath env path =
     (let normalized = PyStrip path in
      if normalized = [] then Inl (PatchError ''patch path cannot be empty'')
      else if CHR 0x00 \<in> set normalized
      then Inl (PatchError (''patch path contains a null byte: '' @ pyReprStr (te_Printable env) path))
      else Inr normalized)"

definition appendText :: "string \<Rightarrow> string \<Rightarrow> string" where
  "appendText content addition =
     (let base = crlf_to_lf content;
          extra = crlf_to_lf addition;
          base = (if base \<noteq> [] \<and> extra \<noteq> [] \<and> \<not> HasSuffix base [CHR 0x0A] \<and> \<not> HasPrefix extra [CHR 0x0A]
                  then base @ [CHR 0x0A] else base)
      in end_line (base @ extra))"

text \<open>The text a patch starts from: the pending one, or the file's, or none.\<close>

definition current_text ::
  "file_io \<Rightarrow> files \<Rightarrow> string \<Rightarrow> string \<Rightarrow> patchWrites \<Rightarrow> tool_error + string option" where
  "current_text io fs path source writes =
     (case map_of writes source of
        Some pending \<Rightarrow> Inr (Some pending)
      | None \<Rightarrow>
          if os_Stat io source fs \<noteq> None then
            (case os_ReadFile io source fs of
               Inl e \<Rightarrow> Inl (SysError e)
             | Inr raw \<Rightarrow>
                 if \<not> valid_utf8 raw then Inl (PatchError (''file is not UTF-8 text: '' @ path)) else Inr (Some raw))
          else Inr None)"

definition applyAdd ::
  "file_io \<Rightarrow> files \<Rightarrow> jobject \<Rightarrow> string \<Rightarrow> string \<Rightarrow> patchWrites \<Rightarrow> tool_error + (string \<times> string) \<times> patchWrites" where
  "applyAdd io fs edit path source writes =
     (if obj_get edit ''new_text'' = JNull then Inl (PatchError (''new_text required for add: '' @ path))
      else
        case current_text io fs path source writes of
          Inl e \<Rightarrow> Inl e
        | Inr cur \<Rightarrow>
            (case obj_get edit ''new_text'' of
               JString newText \<Rightarrow>
                 (case cur of
                    Some content \<Rightarrow>
                      let newNorm = appendText content newText;
                          newNorm = (if uses_crlf content then lf_to_crlf newNorm else newNorm)
                      in Inr ((content, ''update''), AList.update source newNorm writes)
                  | None \<Rightarrow> Inr (([], ''add''), AList.update source (end_line (crlf_to_lf newText)) writes))
             | v \<Rightarrow> Inl (OtherError (pyAttributeError ''replace'' v))))"

definition replace_once :: "string \<Rightarrow> string \<Rightarrow> string \<Rightarrow> string \<Rightarrow> tool_error + string" where
  "replace_once path content oldText newText =
     (let normContent = crlf_to_lf content;
          normOld = crlf_to_lf oldText
      in case IndexOf normContent normOld of
           None \<Rightarrow> Inl (PatchError (''old_text not found in '' @ path))
         | Some pos \<Rightarrow>
             if Contains (drop (pos + 1) normContent) normOld
             then Inl (PatchError (''old_text appears multiple times in '' @ path))
             else
               let newNorm = end_line (take pos normContent @ crlf_to_lf newText @ drop (pos + length normOld) normContent)
               in Inr (if uses_crlf content then lf_to_crlf newNorm else newNorm))"

definition applyReplace ::
  "file_io \<Rightarrow> files \<Rightarrow> jobject \<Rightarrow> string \<Rightarrow> string \<Rightarrow> patchWrites \<Rightarrow> tool_error + (string \<times> string) \<times> patchWrites" where
  "applyReplace io fs edit path source writes =
     (if \<not> pyTruthy (obj_get edit ''old_text'') then Inl (PatchError (''old_text required for replace: '' @ path))
      else if obj_get edit ''new_text'' = JNull then Inl (PatchError (''new_text required for replace: '' @ path))
      else
        case current_text io fs path source writes of
          Inl e \<Rightarrow> Inl e
        | Inr None \<Rightarrow> Inl (PatchError (''file to update does not exist: '' @ path))
        | Inr (Some content) \<Rightarrow>
            if map_of writes source = None \<and> \<not> isRegularFile io source fs
            then Inl (PatchError (''path to update is not a file: '' @ path))
            else
              (case obj_get edit ''old_text'' of
                 JString oldText \<Rightarrow>
                   (case obj_get edit ''new_text'' of
                      JString newText \<Rightarrow>
                        (case replace_once path content oldText newText of
                           Inl e \<Rightarrow> Inl e
                         | Inr newNorm \<Rightarrow> Inr ((content, ''update''), AList.update source newNorm writes))
                    | v \<Rightarrow>
                        (case replace_once path content oldText [] of
                           Inl e \<Rightarrow> Inl e | Inr _ \<Rightarrow> Inl (OtherError (pyAttributeError ''replace'' v))))
               | v \<Rightarrow> Inl (OtherError (pyAttributeError ''replace'' v))))"

text \<open>What is gathered over the edits: the writes, the first text and the first action of each path.\<close>

record patch_state =
  ps_writes :: patchWrites
  ps_originals :: "string \<rightharpoonup> string"
  ps_actions :: "string \<rightharpoonup> string"

definition keep_first :: "string \<Rightarrow> string \<Rightarrow> (string \<rightharpoonup> string) \<Rightarrow> (string \<rightharpoonup> string)" where
  "keep_first k v m = (if m k = None then m(k \<mapsto> v) else m)"

definition apply_edit :: "tool_env \<Rightarrow> file_io \<Rightarrow> files \<Rightarrow> json \<Rightarrow> patch_state \<Rightarrow> tool_error + patch_state" where
  "apply_edit env io fs editValue ps =
     (case editValue of
        JObject edit \<Rightarrow>
          (case obj_get edit ''path'' of
             JString rawPath \<Rightarrow>
               (case validatePatchPath env rawPath of
                  Inl e \<Rightarrow> Inl e
                | Inr path \<Rightarrow>
                    (case obj_get edit ''action'' of
                       JString action \<Rightarrow>
                         (case resolve_write env path of
                            Inl e \<Rightarrow> Inl e
                          | Inr source \<Rightarrow>
                              (case (if action = ''add'' then applyAdd io fs edit path source (ps_writes ps)
                                     else if action = ''replace'' then applyReplace io fs edit path source (ps_writes ps)
                                     else Inl (PatchError (''unknown action: '' @ action))) of
                                 Inl e \<Rightarrow> Inl e
                               | Inr ((content, actionName), writes) \<Rightarrow>
                                   Inr \<lparr>ps_writes = writes, ps_originals = keep_first source content (ps_originals ps),
                                        ps_actions = keep_first source actionName (ps_actions ps)\<rparr>))
                     | _ \<Rightarrow> Inl (PatchError (''action required for edit: '' @ path))))
           | _ \<Rightarrow> Inl (PatchError ''path required for edit''))
      | _ \<Rightarrow> Inl (PatchError ''each edit must be an object''))"

fun apply_edits :: "tool_env \<Rightarrow> file_io \<Rightarrow> files \<Rightarrow> json list \<Rightarrow> patch_state \<Rightarrow> tool_error + patch_state" where
  "apply_edits env io fs [] ps = Inr ps"
| "apply_edits env io fs (e # es) ps =
     (case apply_edit env io fs e ps of Inl err \<Rightarrow> Inl err | Inr ps \<Rightarrow> apply_edits env io fs es ps)"

definition patch_summaries :: "tool_env \<Rightarrow> patch_state \<Rightarrow> string list" where
  "patch_summaries env ps =
     map (\<lambda>(source, data). ''- '' @ the (ps_actions ps source) @ '' '' @ displayPath (te_Paths env) (te_Policy env) source
            @ diff_stats (the (ps_originals ps source)) data) (ps_writes ps)"

text \<open>The bytes of the files that exist; a file that cannot be read ends the patch.\<close>

fun back_up :: "file_io \<Rightarrow> files \<Rightarrow> string list \<Rightarrow> (string \<rightharpoonup> string) \<Rightarrow> tool_error + (string \<rightharpoonup> string)" where
  "back_up io fs [] backups = Inr backups"
| "back_up io fs (p # ps) backups =
     (if os_Stat io p fs = None then back_up io fs ps backups
      else (case os_ReadFile io p fs of
              Inl e \<Rightarrow> Inl (SysError e)
            | Inr data \<Rightarrow> back_up io fs ps (backups(p \<mapsto> data))))"

fun writeAll :: "file_io \<Rightarrow> patchWrites \<Rightarrow> files \<Rightarrow> fs_error option \<times> files" where
  "writeAll io [] fs = (None, fs)"
| "writeAll io ((p, data) # ws) fs =
     (case mkdir_write io p data fs of (Some e, fs) \<Rightarrow> (Some e, fs) | (None, fs) \<Rightarrow> writeAll io ws fs)"

text \<open>Undoing: \<open>backups\<close> has the files that existed; the others are removed when they are there.\<close>

fun roll_back :: "file_io \<Rightarrow> string list \<Rightarrow> (string \<rightharpoonup> string) \<Rightarrow> files \<Rightarrow> fs_error option \<times> files" where
  "roll_back io [] backups fs = (None, fs)"
| "roll_back io (p # ps) backups fs =
     (case backups p of
        Some data \<Rightarrow>
          (case mkdir_write io p data fs of (Some e, fs) \<Rightarrow> (Some e, fs) | (None, fs) \<Rightarrow> roll_back io ps backups fs)
      | None \<Rightarrow>
          if os_Stat io p fs = None then roll_back io ps backups fs
          else (case fi_Remove io p of Some e \<Rightarrow> (Some e, fs) | None \<Rightarrow> roll_back io ps backups (fs(p := None))))"

definition apply_patch_edits ::
  "tool_env \<Rightarrow> file_io \<Rightarrow> file_io \<Rightarrow> json \<Rightarrow> bool \<Rightarrow> files \<Rightarrow> (tool_error + tool_result) \<times> files" where
  "apply_patch_edits env io io_back editsValue dryRun fs =
     (if \<not> pyTruthy editsValue then (Inl (PatchError ''must provide edits''), fs)
      else
        case pyIterate editsValue of
          None \<Rightarrow> (Inl (OtherError ([CHR 0x27] @ pyTypeName editsValue @ [CHR 0x27] @ '' object is not iterable'')), fs)
        | Some elems \<Rightarrow>
            (case apply_edits env io fs elems \<lparr>ps_writes = [], ps_originals = Map.empty, ps_actions = Map.empty\<rparr> of
               Inl e \<Rightarrow> (Inl e, fs)
             | Inr ps \<Rightarrow>
                 let order = map fst (ps_writes ps);
                     summary = Join (patch_summaries env ps) [CHR 0x0A]
                 in if dryRun then (Inr (tools_OK (''Patch dry-run succeeded:'' @ [CHR 0x0A] @ summary)), fs)
                    else
                      (case back_up io fs order Map.empty of
                         Inl e \<Rightarrow> (Inl e, fs)
                       | Inr backups \<Rightarrow>
                           (case writeAll io (ps_writes ps) fs of
                              (None, fs') \<Rightarrow> (Inr (tools_OK (''Patch applied:'' @ [CHR 0x0A] @ summary)), fs')
                            | (Some writeErr, fs') \<Rightarrow>
                                (case roll_back io_back order backups fs' of
                                   (Some e, fs'') \<Rightarrow> (Inl (SysError e), fs'')
                                 | (None, fs'') \<Rightarrow> (Inl (SysError writeErr), fs''))))))"

text \<open>\<open>Inl\<close> is an error of the context, which the registry reports.\<close>

definition ApplyPatch_Execute ::
  "tool_env \<Rightarrow> file_io \<Rightarrow> file_io \<Rightarrow> string option \<Rightarrow> string \<Rightarrow> files \<Rightarrow> (string + tool_result) \<times> files" where
  "ApplyPatch_Execute env io io_back ctx_err raw fs =
     (case ctx_err of
        Some e \<Rightarrow> (Inl e, fs)
      | None \<Rightarrow>
          (case parseArgs (te_JsonError env) ''apply_patch'' raw [''edits'', ''dry_run''] of
             Inl bad \<Rightarrow> (Inr bad, fs)
           | Inr args \<Rightarrow>
               (case optionalBool (te_Lower env) ''apply_patch'' args ''dry_run'' of
                  Inl bad \<Rightarrow> (Inr bad, fs)
                | Inr dry \<Rightarrow>
                    (case apply_patch_edits env io io_back (obj_get args ''edits'') (dry = Some True) fs of
                       (Inl e, fs') \<Rightarrow> (Inr (patchErrorResult e), fs')
                     | (Inr res, fs') \<Rightarrow> (Inr res, fs')))))"

section \<open>edit file\<close>

definition maxEditFileSize :: nat where "maxEditFileSize = 64 * 1024 * 1024"

definition markdownExtensions :: "string list" where
  "markdownExtensions = [''.md'', ''.mdx'', ''.markdown'']"

record matchSpan =
  mt_start :: nat
  mt_end :: nat
  mt_text :: string
  mt_line :: nat

definition count_lf :: "string \<Rightarrow> nat" where
  "count_lf s = length (filter (\<lambda>c. c = CHR 0x0A) s)"

definition TrimSuffix_lf :: "string \<Rightarrow> string" where
  "TrimSuffix_lf s = (if HasSuffix s [CHR 0x0A] then butlast s else s)"

definition endLine :: "matchSpan \<Rightarrow> nat" where
  "endLine m = mt_line m + count_lf (TrimSuffix_lf (mt_text m))"

text \<open>The search goes on behind each match; the text searched for is never empty.\<close>

function find_from :: "string \<Rightarrow> string \<Rightarrow> nat \<Rightarrow> matchSpan list" where
  "find_from content oldText start =
     (if length content < start then []
      else case IndexOf (drop start content) oldText of
             None \<Rightarrow> []
           | Some idx \<Rightarrow>
               let pos = start + idx in
               \<lparr>mt_start = pos, mt_end = pos + length oldText, mt_text = oldText,
                mt_line = count_lf (take pos content) + 1\<rparr>
               # find_from content oldText (pos + max 1 (length oldText)))"
  by pat_completeness auto
termination
  by (relation "measure (\<lambda>(content, oldText, start). Suc (length content) - start)") auto

declare find_from.simps [simp del]

definition findExactMatches :: "string \<Rightarrow> string \<Rightarrow> matchSpan list" where
  "findExactMatches content oldText = find_from content oldText 0"

definition trim_right :: "string \<Rightarrow> string" where
  "trim_right line = rev (trim_front (map rev space_encodings) (rev line))"

definition stripTrailingWS :: "string \<Rightarrow> string" where
  "stripTrailingWS s = Join (map trim_right (Split s (CHR 0x0A))) [CHR 0x0A]"

definition path_Ext :: "string \<Rightarrow> string" where
  "path_Ext p =
     (let base = rev (takeWhile (\<lambda>c. c \<noteq> CHR ''/'') (rev p))
      in if CHR ''.'' \<in> set base then CHR ''.'' # rev (takeWhile (\<lambda>c. c \<noteq> CHR ''.'') (rev base)) else [])"

record edit_request =
  eq_path :: string
  eq_old :: string
  eq_new :: string
  eq_all :: bool
  eq_occurrence :: "int option"
  eq_hint :: "int option"
  eq_expected :: "int option"

definition edit_args :: "tool_env \<Rightarrow> string \<Rightarrow> tool_result + edit_request" where
  "edit_args env raw =
     (let name = ''edit_file'' in
      case parseArgs (te_JsonError env) name raw
             [''path'', ''old_text'', ''new_text'', ''replace_all'', ''occurrence'', ''line_hint'', ''expected_replacements''] of
        Inl bad \<Rightarrow> Inl bad
      | Inr args \<Rightarrow>
          (case requiredString name args ''path'' of Inl bad \<Rightarrow> Inl bad | Inr path \<Rightarrow>
          (case requiredString name args ''old_text'' of Inl bad \<Rightarrow> Inl bad | Inr old \<Rightarrow>
          (case requiredString name args ''new_text'' of Inl bad \<Rightarrow> Inl bad | Inr new \<Rightarrow>
          (case optionalBool (te_Lower env) name args ''replace_all'' of Inl bad \<Rightarrow> Inl bad | Inr rall \<Rightarrow>
          (case optionalInt name args ''occurrence'' of Inl bad \<Rightarrow> Inl bad | Inr occ \<Rightarrow>
          (case optionalInt name args ''line_hint'' of Inl bad \<Rightarrow> Inl bad | Inr hint \<Rightarrow>
          (case optionalInt name args ''expected_replacements'' of Inl bad \<Rightarrow> Inl bad | Inr expect \<Rightarrow>
             Inr \<lparr>eq_path = path, eq_old = old, eq_new = new, eq_all = (rall = Some True), eq_occurrence = occ,
                  eq_hint = hint, eq_expected = expect\<rparr>))))))))"

definition below_one :: "int option \<Rightarrow> bool" where
  "below_one n \<longleftrightarrow> (case n of None \<Rightarrow> False | Some i \<Rightarrow> i < 1)"

definition edit_check :: "edit_request \<Rightarrow> tool_result option" where
  "edit_check q =
     (if eq_path q = [] then Some (tools_Errf ''Error editing file: Unknown path'')
      else if below_one (eq_occurrence q) then Some (tools_Errf ''Error: occurrence must be >= 1.'')
      else if below_one (eq_hint q) then Some (tools_Errf ''Error: line_hint must be >= 1.'')
      else if below_one (eq_expected q) then Some (tools_Errf ''Error: expected_replacements must be >= 1.'')
      else None)"

definition line_list :: "matchSpan list \<Rightarrow> string list" where
  "line_list ms = map (\<lambda>m. ''line '' @ Itoa (int (mt_line m))) (take 3 ms)"

definition select_matches :: "edit_request \<Rightarrow> matchSpan list \<Rightarrow> tool_result + matchSpan list" where
  "select_matches q matches =
     (let count = int (length matches) in
      if matches = []
      then Inl (tools_Errf (''Error: old_text not found in '' @ eq_path q @ ''. No similar text found. Verify the file content.''))
      else if eq_all q \<and> eq_occurrence q \<noteq> None
      then Inl (tools_Errf ''Error: occurrence cannot be used with replace_all=true.'')
      else if eq_all q \<and> eq_hint q \<noteq> None
      then Inl (tools_Errf ''Error: line_hint cannot be used with replace_all=true.'')
      else if eq_occurrence q \<noteq> None \<and> eq_hint q \<noteq> None
      then Inl (tools_Errf ''Error: line_hint cannot be used with occurrence.'')
      else if (case eq_occurrence q of None \<Rightarrow> False | Some n \<Rightarrow> count < n)
      then Inl (tools_Errf (''Error: occurrence '' @ Itoa (the (eq_occurrence q)) @ '' is out of range; old_text appears ''
                  @ Itoa count @ '' time(s).''))
      else if 1 < count \<and> \<not> eq_all q \<and> eq_occurrence q = None \<and> eq_hint q = None
      then Inl (tools_Errf (''Warning: old_text appears '' @ Itoa count @ '' times at '' @ Join (line_list matches) '', ''
                  @ (if 3 < count then '', ...'' else []) @ ''. Provide more context, set occurrence to choose one match, ''
                  @ ''or set replace_all=true.''))
      else if eq_all q then Inr matches
      else
        case eq_occurrence q of
          Some n \<Rightarrow> Inr [matches ! nat (n - 1)]
        | None \<Rightarrow>
            (case eq_hint q of
               None \<Rightarrow> Inr (take 1 matches)
             | Some h \<Rightarrow>
                 let candidates = filter (\<lambda>m. int (mt_line m) \<le> h \<and> h \<le> int (endLine m)) matches in
                 if candidates = []
                 then Inl (tools_Errf (''Error: line_hint '' @ Itoa h @ '' does not match the old_text location. ''
                        @ ''old_text appears at '' @ Join (line_list matches @ (if 3 < count then [''...''] else [])) '', ''
                        @ ''. Re-read the intended region and copy old_text that covers the target line.''))
                 else if 1 < length candidates
                 then Inl (tools_Errf (''Error: line_hint '' @ Itoa h @ '' is ambiguous; old_text appears ''
                        @ Itoa (int (length candidates)) @ '' times on that line.''))
                 else Inr candidates))"

text \<open>A deleted text that is a whole line takes its line end with it.\<close>

definition match_end :: "string \<Rightarrow> string \<Rightarrow> matchSpan \<Rightarrow> nat" where
  "match_end content normNew m =
     (if normNew = [] \<and> (mt_start m = 0 \<or> content ! (mt_start m - 1) = CHR 0x0A)
         \<and> \<not> HasSuffix (mt_text m) [CHR 0x0A] \<and> mt_end m < length content \<and> content ! mt_end m = CHR 0x0A
      then mt_end m + 1 else mt_end m)"

text \<open>
  The text between the selected matches, with the new text for each of them. A slice that ends before it
  starts is a run-time panic, \<open>None\<close>.
\<close>

fun splice :: "string \<Rightarrow> string \<Rightarrow> nat \<Rightarrow> matchSpan list \<Rightarrow> string option" where
  "splice content normNew prev [] = go_slice content prev (length content)"
| "splice content normNew prev (m # ms) =
     Option.bind (go_slice content prev (mt_start m)) (\<lambda>before.
       map_option (\<lambda>rest. before @ normNew @ rest) (splice content normNew (match_end content normNew m) ms))"

definition edit_summary :: "tool_env \<Rightarrow> string \<Rightarrow> string \<Rightarrow> string \<Rightarrow> bool \<Rightarrow> tool_result" where
  "edit_summary env fp before after created =
     tools_OK (''Patch applied:'' @ [CHR 0x0A] @ ''- '' @ (if created then ''add'' else ''update'') @ '' ''
       @ displayPath (te_Paths env) (te_Policy env) fp @ diff_stats before after)"

text \<open>\<^verbatim>\<open>%.1f\<close> of a size in mebibytes.\<close>

definition mebibytes :: "nat \<Rightarrow> string" where
  "mebibytes n =
     (let tenths = round_half_even (of_nat (10 * n) / (1024 * 1024))
      in Itoa (tenths div 10) @ ''.'' @ Itoa (tenths mod 10))"

definition node_size :: "node \<Rightarrow> nat" where
  "node_size n = (case n of Regular s \<Rightarrow> length s | Special _ \<Rightarrow> 0)"

definition written :: "tool_env \<Rightarrow> fs_error option \<times> files \<Rightarrow> tool_result \<Rightarrow> tool_result \<times> files" where
  "written env w res =
     (case w of (Some e, fs) \<Rightarrow> (permissionOrGenericEdit (SysError e), fs) | (None, fs) \<Rightarrow> (res, fs))"

text \<open>The new text as it is put in: trailing blanks stay only in Markdown.\<close>

definition norm_new :: "tool_env \<Rightarrow> edit_request \<Rightarrow> string \<Rightarrow> string" where
  "norm_new env q fp =
     (if ToLower (te_Lower env) (path_Ext fp) \<in> set markdownExtensions then crlf_to_lf (eq_new q)
      else stripTrailingWS (crlf_to_lf (eq_new q)))"

text \<open>The edit of an existing file, from its bytes on.\<close>

definition edit_text :: "tool_env \<Rightarrow> edit_request \<Rightarrow> string \<Rightarrow> string \<Rightarrow> (tool_result + string \<times> string) option" where
  "edit_text env q fp raw =
     (let content = crlf_to_lf raw;
          matches = findExactMatches content (crlf_to_lf (eq_old q))
      in case select_matches q matches of
           Inl bad \<Rightarrow> Some (Inl bad)
         | Inr selected \<Rightarrow>
             let normNew = norm_new env q fp
             in if (case eq_expected q of None \<Rightarrow> False | Some n \<Rightarrow> int (length selected) \<noteq> n)
                then Some (Inl (tools_Errf (''Error: expected '' @ Itoa (the (eq_expected q))
                       @ '' replacements but would make '' @ Itoa (int (length selected)) @ ''.'')))
                else map_option (\<lambda>newContent. Inr (content, if uses_crlf raw then lf_to_crlf newContent else newContent))
                       (splice content normNew 0 selected))"

definition already_exists :: "string \<Rightarrow> tool_result" where
  "already_exists path =
     tools_Errf (''Error: Cannot create file '' @ [CHR 0xE2, CHR 0x80, CHR 0x94] @ '' '' @ path
       @ '' already exists and is not empty.'')"

definition not_utf8 :: "string \<Rightarrow> tool_result" where
  "not_utf8 path = tools_Errf (''Error editing file: '' @ path @ '' is not valid UTF-8.'')"

definition edit_existing ::
  "tool_env \<Rightarrow> file_io \<Rightarrow> edit_request \<Rightarrow> string \<Rightarrow> node \<Rightarrow> files \<Rightarrow> (tool_result \<times> files) option" where
  "edit_existing env io q fp info fs =
     (if eq_old q = eq_new q then Some (tools_Errf ''Error: new_text must be different from old_text.'', fs)
      else if maxEditFileSize < node_size info
      then Some (tools_Errf (''Error: File too large to edit ('' @ mebibytes (node_size info) @ '' MiB). Maximum is 64 MiB.''), fs)
      else
        case os_ReadFile io fp fs of
          Inl e \<Rightarrow> Some (permissionOrGenericEdit (SysError e), fs)
        | Inr raw \<Rightarrow>
            if \<not> valid_utf8 raw then Some (not_utf8 (eq_path q), fs)
            else if eq_old q = [] then
              Some (if TrimSpace raw \<noteq> [] then (already_exists (eq_path q), fs)
                    else written env (os_WriteFile io fp (eq_new q) fs) (edit_summary env fp raw (eq_new q) False))
            else
              map_option (\<lambda>edited. case edited of
                  Inl bad \<Rightarrow> (bad, fs)
                | Inr (content, newContent) \<Rightarrow>
                    written env (os_WriteFile io fp newContent fs) (edit_summary env fp content newContent False))
                (edit_text env q fp raw))"

definition edit_run :: "tool_env \<Rightarrow> file_io \<Rightarrow> edit_request \<Rightarrow> files \<Rightarrow> (tool_result \<times> files) option" where
  "edit_run env io q fs =
     (case edit_check q of
        Some bad \<Rightarrow> Some (bad, fs)
      | None \<Rightarrow>
          (case resolve_write env (eq_path q) of
             Inl e \<Rightarrow> Some (permissionOrGenericEdit e, fs)
           | Inr fp \<Rightarrow>
               (case os_Stat io fp fs of
                  Some info \<Rightarrow> edit_existing env io q fp info fs
                | None \<Rightarrow>
                    Some (if eq_old q = [] then written env (mkdir_write io fp (eq_new q) fs) (edit_summary env fp [] (eq_new q) True)
                          else (tools_Errf (''Error: File not found: '' @ eq_path q), fs)))))"

definition EditFile_Execute ::
  "tool_env \<Rightarrow> file_io \<Rightarrow> string option \<Rightarrow> string \<Rightarrow> files \<Rightarrow> ((string + tool_result) \<times> files) option" where
  "EditFile_Execute env io ctx_err raw fs =
     (case ctx_err of
        Some e \<Rightarrow> Some (Inl e, fs)
      | None \<Rightarrow>
          (case edit_args env raw of
             Inl bad \<Rightarrow> Some (Inr bad, fs)
           | Inr q \<Rightarrow> map_option (\<lambda>(res, fs'). (Inr res, fs')) (edit_run env io q fs)))"

section \<open>write file\<close>

definition WriteFile_Execute ::
  "tool_env \<Rightarrow> file_io \<Rightarrow> string option \<Rightarrow> string \<Rightarrow> files \<Rightarrow> (string + tool_result) \<times> files" where
  "WriteFile_Execute env io ctx_err raw fs =
     (let name = ''write_file'' in
      case ctx_err of
        Some e \<Rightarrow> (Inl e, fs)
      | None \<Rightarrow>
          (case parseArgs (te_JsonError env) name raw [''path'', ''content''] of Inl bad \<Rightarrow> (Inr bad, fs) | Inr args \<Rightarrow>
          (case requiredString name args ''path'' of Inl bad \<Rightarrow> (Inr bad, fs) | Inr path \<Rightarrow>
          (case requiredString name args ''content'' of Inl bad \<Rightarrow> (Inr bad, fs) | Inr content \<Rightarrow>
             if path = [] then (Inr (tools_Errf ''Error writing file: Unknown path''), fs)
             else
               (case resolve_write env path of
                  Inl e \<Rightarrow> (Inr (permissionOrGenericWrite e), fs)
                | Inr fp \<Rightarrow>
                    (case mkdir_write io fp content fs of
                       (Some e, fs') \<Rightarrow> (Inr (permissionOrGenericWrite (SysError e)), fs')
                     | (None, fs') \<Rightarrow>
                         (Inr (tools_OK (''Successfully wrote '' @ Itoa (int (length (runes content))) @ '' characters to '' @ fp)),
                          fs')))))))"

end
