(* ===== verification/File_Tools_Proofs.thy ===== *)
theory File_Tools_Proofs
  imports File_Tools
begin

text \<open>
  What the file tools do to the files: they stay within the policy whatever the system answers, a patch
  happens as a whole or not at all, and an edit replaces exactly the selected occurrences. The last
  section has an edit that ends in a run-time panic and a link the policy does not see.
\<close>

section \<open>Confinement\<close>

text \<open>A tool by the files it may leave behind; it changes a path only after the policy has resolved it.\<close>

locale file_tool =
  fixes env :: tool_env and outcomes :: "files \<Rightarrow> files set"
  assumes touches: "\<And>fs fs' p. fs' \<in> outcomes fs \<Longrightarrow> fs' p \<noteq> fs p \<Longrightarrow> \<exists>path. resolve_write env path = Inr p"
begin

lemma confined:
  assumes "pp_AllowedDir (te_Policy env) \<noteq> []" "fs' \<in> outcomes fs" "fs' p \<noteq> fs p"
  shows "may_write (te_Paths env) (te_Policy env) p"
proof -
  obtain path where "resolve_write env path = Inr p" using touches [OF assms(2,3)] by blast
  then have "resolveWrite (te_Paths env) (te_Policy env) path = Some (Inr p)"
    by (auto simp: resolve_write_def split: option.splits sum.splits)
  then show ?thesis using resolveWrite_confined assms(1) by blast
qed

end

lemma os_WriteFile_other: "snd (os_WriteFile io p data fs) q \<noteq> fs q \<Longrightarrow> q = p"
  by (auto simp: os_WriteFile_def split: option.splits node.splits if_splits)

lemma mkdir_write_other: "snd (mkdir_write io p data fs) q \<noteq> fs q \<Longrightarrow> q = p"
  by (auto simp: mkdir_write_def dest: os_WriteFile_other split: option.splits)

lemma mkdir_write_only: "mkdir_write io p data fs = (e, fs') \<Longrightarrow> fs' q \<noteq> fs q \<Longrightarrow> q = p"
  using mkdir_write_other [of io p data fs q] by simp

lemma written_files: "written env w res = (r, fs') \<Longrightarrow> fs' = snd w"
  by (auto simp: written_def split: prod.splits option.splits)

interpretation write_tool: file_tool env "\<lambda>fs. {snd (WriteFile_Execute env io ctx raw fs)}" for env io ctx raw
proof
  fix fs fs' p
  assume "fs' \<in> {snd (WriteFile_Execute env io ctx raw fs)}" "fs' p \<noteq> fs p"
  then obtain path content fp e where "resolve_write env path = Inr fp" "mkdir_write io fp content fs = (e, fs')"
    by (auto simp: WriteFile_Execute_def Let_def split: option.splits sum.splits if_splits prod.splits)
  then show "\<exists>path. resolve_write env path = Inr p" using \<open>fs' p \<noteq> fs p\<close> mkdir_write_only by blast
qed

lemma edit_existing_other:
  assumes "edit_existing env io q fp info fs = Some (res, fs')" "fs' p \<noteq> fs p"
  shows "p = fp"
proof -
  have "fs' = fs \<or> (\<exists>data. fs' = snd (os_WriteFile io fp data fs))"
    using assms(1)
    by (auto simp: edit_existing_def dest: written_files split: if_splits sum.splits prod.splits)
      (metis written_files sum.exhaust surj_pair)
  then show ?thesis using assms(2) os_WriteFile_other [of io fp _ fs p] by auto
qed

interpretation edit_tool: file_tool env
  "\<lambda>fs. {fs'. \<exists>res. EditFile_Execute env io ctx raw fs = Some (res, fs')}" for env io ctx raw
proof
  fix fs fs' p
  assume "fs' \<in> {fs'. \<exists>res. EditFile_Execute env io ctx raw fs = Some (res, fs')}" and d: "fs' p \<noteq> fs p"
  then obtain q res where r: "edit_run env io q fs = Some (res, fs')"
    by (auto simp: EditFile_Execute_def split: option.splits sum.splits)
  then obtain fp where fp: "resolve_write env (eq_path q) = Inr fp"
    using d by (auto simp: edit_run_def split: option.splits sum.splits)
  have "p = fp"
  proof (cases "os_Stat io fp fs")
    case (Some info)
    then show ?thesis
      using r fp d edit_existing_other [of env io q fp info fs res fs' p]
      by (auto simp: edit_run_def split: option.splits)
  next
    case None
    then have "fs' = fs \<or> fs' = snd (mkdir_write io fp (eq_new q) fs)"
      using r fp by (auto simp: edit_run_def dest: written_files split: option.splits if_splits)
    then show ?thesis using d mkdir_write_other [of io fp _ fs p] by auto
  qed
  then show "\<exists>path. resolve_write env path = Inr p" using fp by blast
qed

text \<open>The paths of the pending writes are all resolved ones.\<close>

definition writes_ok :: "tool_env \<Rightarrow> patchWrites \<Rightarrow> bool" where
  "writes_ok env ws \<longleftrightarrow> distinct (map fst ws) \<and> (\<forall>p \<in> set (map fst ws). \<exists>path. resolve_write env path = Inr p)"

lemma writes_ok_update:
  "writes_ok env ws \<Longrightarrow> resolve_write env path = Inr p \<Longrightarrow> writes_ok env (AList.update p data ws)"
  by (auto simp: writes_ok_def distinct_update update_keys dom_update)

lemma apply_edit_writes:
  assumes "writes_ok env (ps_writes ps)" "apply_edit env io fs e ps = Inr ps'"
  shows "writes_ok env (ps_writes ps')"
proof -
  obtain source path data where "resolve_write env path = Inr source" "ps_writes ps' = AList.update source data (ps_writes ps)"
    using assms(2)
    by (auto simp: apply_edit_def applyAdd_def applyReplace_def Let_def
        split: json.splits sum.splits if_splits option.splits prod.splits)
  then show ?thesis using writes_ok_update [OF assms(1)] by simp
qed

lemma apply_edits_writes:
  "apply_edits env io fs es ps = Inr ps' \<Longrightarrow> writes_ok env (ps_writes ps) \<Longrightarrow> writes_ok env (ps_writes ps')"
  by (induction es arbitrary: ps) (auto dest: apply_edit_writes split: sum.splits)

lemma writeAll_other: "writeAll io ws fs = (e, fs') \<Longrightarrow> p \<notin> set (map fst ws) \<Longrightarrow> fs' p = fs p"
proof (induction io ws fs rule: writeAll.induct)
  case (2 io q data ws fs)
  obtain e1 fs1 where w: "mkdir_write io q data fs = (e1, fs1)" by fastforce
  then have "fs1 p = fs p" using mkdir_write_other [of io q data fs p] 2(3) by auto
  then show ?case using 2 w by (cases e1) auto
qed simp

lemma roll_back_other: "roll_back io ps backups fs = (e, fs') \<Longrightarrow> p \<notin> set ps \<Longrightarrow> fs' p = fs p"
proof (induction io ps backups fs rule: roll_back.induct)
  case (2 io q ps backups fs)
  show ?case
  proof (cases "backups q")
    case (Some data)
    obtain e1 fs1 where w: "mkdir_write io q data fs = (e1, fs1)" by fastforce
    then have "fs1 p = fs p" using mkdir_write_other [of io q data fs p] 2(5) by auto
    then show ?thesis using 2 w Some by (cases e1) auto
  next
    case None
    then show ?thesis using 2 by (auto simp: fun_upd_def split: if_splits option.splits)
  qed
qed simp

definition no_edits :: patch_state where
  "no_edits = \<lparr>ps_writes = [], ps_originals = Map.empty, ps_actions = Map.empty\<rparr>"

text \<open>How a patch ends: with the files as they were, written, or undone.\<close>

lemma patch_cases:
  assumes "apply_patch_edits env io io_back edits dry fs = (res, fs')"
  obtains (failed) "fs' = fs" "\<exists>e. res = Inl e"
  | (rehearsed) es ps where "pyIterate edits = Some es" "apply_edits env io fs es no_edits = Inr ps" "dry"
      "fs' = fs" "\<exists>r. res = Inr r \<and> \<not> res_IsError r"
  | (applied) es ps backups where "pyIterate edits = Some es" "apply_edits env io fs es no_edits = Inr ps" "\<not> dry"
      "back_up io fs (map fst (ps_writes ps)) Map.empty = Inr backups" "writeAll io (ps_writes ps) fs = (None, fs')" "\<exists>r. res = Inr r \<and> \<not> res_IsError r"
  | (undone) es ps backups e g where "pyIterate edits = Some es" "apply_edits env io fs es no_edits = Inr ps" "\<not> dry"
      "back_up io fs (map fst (ps_writes ps)) Map.empty = Inr backups" "writeAll io (ps_writes ps) fs = (Some e, g)"
      "\<exists>e'. roll_back io_back (map fst (ps_writes ps)) backups g = (e', fs')" "\<exists>err. res = Inl err"
proof (cases "pyTruthy edits")
  case False
  then show thesis using assms failed by (auto simp: apply_patch_edits_def)
next
  case truthy: True
  show thesis
  proof (cases "pyIterate edits")
    case None
    then show thesis using assms failed truthy by (auto simp: apply_patch_edits_def)
  next
    case (Some es)
    show thesis
    proof (cases "apply_edits env io fs es no_edits")
      case (Inl e)
      then show thesis using assms failed truthy Some by (auto simp: apply_patch_edits_def no_edits_def)
    next
      case (Inr ps)
      show thesis
      proof (cases dry)
        case True
        then show thesis
          using assms rehearsed [OF Some Inr] truthy Some Inr by (auto simp: apply_patch_edits_def no_edits_def Let_def tools_OK_def)
      next
        case nd: False
        show thesis
        proof (cases "back_up io fs (map fst (ps_writes ps)) Map.empty")
          case (Inl e)
          then show thesis using assms failed truthy Some Inr nd by (auto simp: apply_patch_edits_def no_edits_def Let_def)
        next
          case b: (Inr backups)
          obtain w g where w: "writeAll io (ps_writes ps) fs = (w, g)" by fastforce
          show thesis
          proof (cases w)
            case None
            then show thesis
              using assms applied [OF Some Inr nd b] truthy Some Inr nd b w
              by (auto simp: apply_patch_edits_def no_edits_def Let_def tools_OK_def)
          next
            case ws: (Some e)
            obtain e' h where "roll_back io_back (map fst (ps_writes ps)) backups g = (e', h)" by fastforce
            then show thesis
              using assms undone [OF Some Inr nd b] truthy Some Inr nd b w ws
              by (cases e') (auto simp: apply_patch_edits_def no_edits_def Let_def)
          qed
        qed
      qed
    qed
  qed
qed

lemma no_edits_writes: "apply_edits env io fs es no_edits = Inr ps \<Longrightarrow> writes_ok env (ps_writes ps)"
  by (erule apply_edits_writes) (simp add: no_edits_def writes_ok_def)

interpretation patch_tool: file_tool env "\<lambda>fs. {snd (ApplyPatch_Execute env io io_back ctx raw fs)}"
  for env io io_back ctx raw
proof
  fix fs fs' p
  assume "fs' \<in> {snd (ApplyPatch_Execute env io io_back ctx raw fs)}" and d: "fs' p \<noteq> fs p"
  then obtain edits dry res where a: "apply_patch_edits env io io_back edits dry fs = (res, fs')"
    by (auto simp: ApplyPatch_Execute_def split: option.splits sum.splits prod.splits)
  from a show "\<exists>path. resolve_write env path = Inr p"
  proof (cases rule: patch_cases)
    case failed
    then show ?thesis using d by simp
  next
    case (rehearsed es ps)
    then show ?thesis using d by simp
  next
    case (applied es ps backups)
    then show ?thesis using d writeAll_other [OF applied(5), of p] no_edits_writes [OF applied(2)] by (auto simp: writes_ok_def)
  next
    case (undone es ps backups e g)
    then obtain e' where r: "roll_back io_back (map fst (ps_writes ps)) backups g = (e', fs')" by blast
    show ?thesis
      using d writeAll_other [OF undone(5), of p] roll_back_other [OF r, of p] no_edits_writes [OF undone(2)]
      by (auto simp: writes_ok_def)
  qed
qed

section \<open>All or nothing\<close>

text \<open>
  A system in which looking at a file that exists does not fail, what is not a regular file cannot be
  read, and a failed write leaves a regular file or none; undoing a patch meets no failure.
\<close>

definition plain_files :: "file_io \<Rightarrow> file_io \<Rightarrow> files \<Rightarrow> bool" where
  "plain_files io io_back fs \<longleftrightarrow>
     (\<forall>p. fi_Stat io p = None) \<and> (\<forall>p s. fs p \<noteq> Some (Special (Some s))) \<and>
     (\<forall>p e x. fi_Write io p \<noteq> Some (e, Some (Special x))) \<and>
     (\<forall>p. fi_Stat io_back p = None \<and> fi_Mkdir io_back p = None \<and> fi_Write io_back p = None \<and> fi_Remove io_back p = None)"

lemma back_up_exact:
  assumes "plain_files io io_back fs"
  shows "back_up io fs ps b0 = Inr b \<Longrightarrow>
    (\<forall>p \<in> set ps. \<forall>x. fs p \<noteq> Some (Special x)) \<and>
    (\<forall>p. b p = (case fs p of Some (Regular s) \<Rightarrow> if p \<in> set ps then Some s else b0 p | _ \<Rightarrow> b0 p))"
proof (induction ps arbitrary: b0)
  case (Cons p ps)
  have st: "os_Stat io p fs = fs p" using assms by (simp add: os_Stat_def plain_files_def)
  show ?case
  proof (cases "fs p")
    case None
    then show ?thesis using Cons.IH [of b0] Cons.prems st by (auto split: option.splits node.splits)
  next
    case (Some n)
    then obtain s where s: "n = Regular s"
      using Cons.prems st assms
      by (cases n) (auto simp: os_ReadFile_def plain_files_def split: option.splits sum.splits)
    have "os_ReadFile io p fs = Inr s"
      using Cons.prems st Some s by (auto simp: os_ReadFile_def split: option.splits)
    then have "back_up io fs ps (b0(p \<mapsto> s)) = Inr b" using Cons.prems st Some s by simp
    from Cons.IH [OF this] show ?thesis using Some s by (auto split: option.splits node.splits)
  qed
qed (auto split: option.split node.split)

definition no_special :: "string list \<Rightarrow> files \<Rightarrow> bool" where
  "no_special ps fs \<longleftrightarrow> (\<forall>p \<in> set ps. \<forall>x. fs p \<noteq> Some (Special x))"

lemma mkdir_write_no_special:
  assumes "plain_files io io_back fs0" "no_special ps fs" "mkdir_write io p data fs = (e, fs')"
  shows "no_special ps fs'"
  using assms by (auto simp: mkdir_write_def os_WriteFile_def no_special_def plain_files_def
      split: option.splits node.splits if_splits)

lemma writeAll_no_special:
  "plain_files io io_back fs0 \<Longrightarrow> no_special ps fs \<Longrightarrow> writeAll io ws fs = (e, fs') \<Longrightarrow> no_special ps fs'"
proof (induction io ws fs rule: writeAll.induct)
  case (2 io p data ws fs)
  obtain e1 fs1 where w: "mkdir_write io p data fs = (e1, fs1)" by fastforce
  have "no_special ps fs1" by (rule mkdir_write_no_special [OF 2(2,3) w])
  then show ?case using 2 w by (cases e1) auto
qed simp

lemma writeAll_done:
  "writeAll io ws fs = (None, fs') \<Longrightarrow> distinct (map fst ws) \<Longrightarrow> no_special (map fst ws) fs \<Longrightarrow>
   fs' p = (case map_of ws p of Some data \<Rightarrow> Some (Regular data) | None \<Rightarrow> fs p)"
proof (induction io ws fs rule: writeAll.induct)
  case (2 io q data ws fs)
  obtain fs1 where w: "mkdir_write io q data fs = (None, fs1)" "writeAll io ws fs1 = (None, fs')"
    using 2(2) by (auto split: prod.splits option.splits)
  have fs1: "fs1 = fs(q \<mapsto> Regular data)"
    using w(1) 2(4) by (auto simp: mkdir_write_def os_WriteFile_def no_special_def split: option.splits node.splits)
  have "no_special (map fst ws) fs1" using 2(3,4) fs1 by (auto simp: no_special_def)
  from 2(1) [OF w(1) [symmetric] refl w(2) _ this] have
    "fs' p = (case map_of ws p of Some data \<Rightarrow> Some (Regular data) | None \<Rightarrow> fs1 p)" using 2(3) by simp
  moreover have "map_of ws q = None" using 2(3) by (simp add: map_of_eq_None_iff)
  ultimately show ?case using fs1 by (cases "p = q"; cases "map_of ws p") simp_all
qed simp

lemma roll_back_done:
  assumes "plain_files io0 io fs0"
  shows "no_special ps fs \<Longrightarrow> \<exists>fs'. roll_back io ps b fs = (None, fs') \<and>
    (\<forall>p. fs' p = (if p \<in> set ps then map_option Regular (b p) else fs p))"
proof (induction ps arbitrary: fs)
  case (Cons p ps)
  have io: "fi_Stat io q = None" "fi_Mkdir io q = None" "fi_Write io q = None" "fi_Remove io q = None" for q
    using assms by (simp_all add: plain_files_def)
  show ?case
  proof (cases "b p")
    case (Some data)
    have w: "mkdir_write io p data fs = (None, fs(p \<mapsto> Regular data))"
      using Cons.prems io by (auto simp: mkdir_write_def os_WriteFile_def no_special_def split: option.splits node.splits)
    have "no_special ps (fs(p \<mapsto> Regular data))" using Cons.prems by (auto simp: no_special_def)
    from Cons.IH [OF this] obtain fs' where "roll_back io ps b (fs(p \<mapsto> Regular data)) = (None, fs')"
      "\<forall>q. fs' q = (if q \<in> set ps then map_option Regular (b q) else (fs(p \<mapsto> Regular data)) q)" by blast
    then show ?thesis using w Some by (intro exI [of _ fs']) auto
  next
    case None
    define fs1 where "fs1 = fs(p := None)"
    have n: "no_special ps fs1" using Cons.prems by (auto simp: no_special_def fs1_def)
    have "roll_back io (p # ps) b fs = roll_back io ps b fs1"
      using None io by (cases "fs p") (simp_all add: os_Stat_def fs1_def fun_upd_idem)
    moreover obtain fs' where "roll_back io ps b fs1 = (None, fs')"
      "\<forall>q. fs' q = (if q \<in> set ps then map_option Regular (b q) else fs1 q)" using Cons.IH [OF n] by blast
    ultimately show ?thesis using None by (intro exI [of _ fs']) (auto simp: fs1_def)
  qed
qed simp

text \<open>The files with the planned texts in place.\<close>

definition with_writes :: "patchWrites \<Rightarrow> files \<Rightarrow> files" where
  "with_writes ws fs p = (case map_of ws p of Some data \<Rightarrow> Some (Regular data) | None \<Rightarrow> fs p)"

lemma patch_undone:
  assumes io: "plain_files io io_back fs" and b: "back_up io fs (map fst ws) Map.empty = Inr backups"
    and w: "writeAll io ws fs = (Some e, g)" and r: "roll_back io_back (map fst ws) backups g = (e', fs')"
  shows "fs' = fs"
proof
  fix p
  have ns: "no_special (map fst ws) fs"
    and bk: "backups p = (case fs p of Some (Regular s) \<Rightarrow> if p \<in> set (map fst ws) then Some s else None | _ \<Rightarrow> None)"
    using back_up_exact [OF io b] by (auto simp: no_special_def)
  have "no_special (map fst ws) g" by (rule writeAll_no_special [OF io ns w])
  from roll_back_done [OF io this, of backups] r
  have fs': "fs' p = (if p \<in> set (map fst ws) then map_option Regular (backups p) else g p)" by auto
  show "fs' p = fs p"
  proof (cases "p \<in> set (map fst ws)")
    case True
    then have "fs p \<noteq> Some (Special x)" for x using ns by (auto simp: no_special_def)
    then show ?thesis using True fs' bk by (cases "fs p") (auto split: node.splits)
  next
    case False
    then show ?thesis using fs' writeAll_other [OF w False] by simp
  qed
qed

lemma patch_done:
  assumes "plain_files io io_back fs" "writes_ok env ws" "back_up io fs (map fst ws) Map.empty = Inr backups"
    "writeAll io ws fs = (None, fs')"
  shows "fs' = with_writes ws fs"
proof -
  have "no_special (map fst ws) fs" using back_up_exact [OF assms(1,3)] by (simp add: no_special_def)
  then show ?thesis using writeAll_done [OF assms(4)] assms(2) by (auto simp: writes_ok_def with_writes_def)
qed

section \<open>Edits\<close>

lemma IndexOf_Some:
  "IndexOf s p = Some i \<Longrightarrow> i + length p \<le> length s \<and> take (length p) (drop i s) = p \<and> (p \<noteq> [] \<longrightarrow> \<not> Contains (take i s) p)"
proof (induction s arbitrary: i)
  case Nil
  then show ?case by (subst (asm) IndexOf.simps) (auto simp: HasPrefix_def split: if_splits)
next
  case (Cons c s)
  show ?case
  proof (cases "HasPrefix (c # s) p")
    case True
    then have "i = 0" using Cons.prems by (subst (asm) IndexOf.simps) simp
    then show ?thesis using True by (auto simp: HasPrefix_def) (metis length_Cons length_take min.cobounded1)
  next
    case False
    then obtain j where j: "IndexOf s p = Some j" "i = Suc j"
      using Cons.prems by (subst (asm) IndexOf.simps) auto
    have "\<not> HasPrefix (c # take j s) p"
      using False by (auto simp: HasPrefix_iff prefix_def) (metis append_Cons append_assoc append_take_drop_id)
    then show ?thesis using Cons.IH [OF j(1)] j(2) by auto
  qed
qed

lemma IndexOf_None: "IndexOf s p = None \<Longrightarrow> \<not> Contains s p"
proof (induction s)
  case Nil
  then show ?case by (subst (asm) IndexOf.simps) (auto simp: HasPrefix_def split: if_splits)
next
  case (Cons c s)
  then show ?case by (subst (asm) IndexOf.simps) (auto split: if_splits)
qed

text \<open>Matches of a text one behind the other, and what lies between them.\<close>

fun spans :: "string \<Rightarrow> string \<Rightarrow> nat \<Rightarrow> matchSpan list \<Rightarrow> bool" where
  "spans content old prev [] \<longleftrightarrow> prev \<le> length content"
| "spans content old prev (m # ms) \<longleftrightarrow>
     prev \<le> mt_start m \<and> mt_end m = mt_start m + length old \<and> take (length old) (drop (mt_start m) content) = old
     \<and> spans content old (mt_end m) ms"

fun gaps :: "string \<Rightarrow> nat \<Rightarrow> matchSpan list \<Rightarrow> string list" where
  "gaps content prev [] = [drop prev content]"
| "gaps content prev (m # ms) = slice content prev (mt_start m) # gaps content (mt_end m) ms"

lemma length_gaps [simp]: "length (gaps content prev ms) = Suc (length ms)"
  by (induction ms arbitrary: prev) auto

lemma spans_earlier: "spans content old prev ms \<Longrightarrow> prev' \<le> prev \<Longrightarrow> spans content old prev' ms"
  by (cases ms) auto

lemma spans_inside: "spans content old prev ms \<Longrightarrow> prev \<le> length content"
  by (induction ms arbitrary: prev) fastforce+

lemma spans_subseq: "subseq sel ms \<Longrightarrow> spans content old prev ms \<Longrightarrow> spans content old prev sel"
proof (induction sel ms arbitrary: prev rule: list_emb.induct)
  case (list_emb_Nil ys)
  then show ?case using spans_inside by simp
next
  case (list_emb_Cons xs ys y)
  then have "spans content old (mt_end y) xs" "prev \<le> mt_end y" by auto
  then show ?case by (rule spans_earlier)
next
  case (list_emb_Cons2 x y xs ys)
  then show ?case by auto
qed

lemma Join_Cons: "xs \<noteq> [] \<Longrightarrow> Join (x # xs) sep = x @ sep @ Join xs sep"
  by (cases xs) auto

lemma gaps_not_Nil [simp]: "gaps content prev ms \<noteq> []"
  by (cases ms) auto

lemma spans_Join: "spans content old prev ms \<Longrightarrow> Join (gaps content prev ms) old = drop prev content"
proof (induction ms arbitrary: prev)
  case (Cons m ms)
  have i: "mt_end m \<le> length content" using Cons.prems spans_inside by auto
  have "drop (mt_start m) content = old @ drop (mt_end m) content"
    using Cons.prems append_take_drop_id [of "length old" "drop (mt_start m) content"] by (simp add: add.commute)
  moreover have "drop prev content = slice content prev (mt_start m) @ drop (mt_start m) content"
    using Cons.prems append_take_drop_id [of "mt_start m" content] i
    by (auto simp: slice_def) (metis append_take_drop_id drop_append drop_drop le_add_diff_inverse2 take_drop)
  moreover have "Join (gaps content (mt_end m) ms) old = drop (mt_end m) content" using Cons.prems by (intro Cons.IH) auto
  ultimately show ?case by (simp add: Join_Cons)
qed simp

lemma splice_spans:
  "spans content old prev ms \<Longrightarrow> new \<noteq> [] \<Longrightarrow> splice content new prev ms = Some (Join (gaps content prev ms) new)"
proof (induction ms arbitrary: prev)
  case Nil
  then show ?case by (simp add: go_slice_def slice_def)
next
  case (Cons m ms)
  have "mt_start m \<le> length content" using Cons.prems spans_inside [of content old "mt_end m" ms] by auto
  then show ?case using Cons by (auto simp: go_slice_def match_end_def Join_Cons)
qed

lemma find_from_spans: "old \<noteq> [] \<Longrightarrow> start \<le> length content \<Longrightarrow> spans content old start (find_from content old start)"
proof (induction content old start rule: find_from.induct)
  case (1 content old start)
  show ?case
  proof (cases "IndexOf (drop start content) old")
    case None
    then show ?thesis using 1 by (simp add: find_from.simps [of content old start])
  next
    case (Some idx)
    note i = IndexOf_Some [OF Some]
    have "0 < length old" using 1(2) by simp
    then have m: "max 1 (length old) = length old" by linarith
    have b: "start + idx + length old \<le> length content" using 1(3) i [THEN conjunct1] by simp
    have "spans content old (start + idx + length old) (find_from content old (start + idx + length old))"
      using 1(1) [OF _ Some refl] 1(2,3) b unfolding m by simp
    then show ?thesis
      using 1(3) Some i m b
      by (simp add: find_from.simps [of content old start] Let_def add.commute)
  qed
qed

lemma find_from_gaps:
  "old \<noteq> [] \<Longrightarrow> start \<le> length content \<Longrightarrow> g \<in> set (gaps content start (find_from content old start)) \<Longrightarrow> \<not> Contains g old"
proof (induction content old start rule: find_from.induct)
  case (1 content old start)
  show ?case
  proof (cases "IndexOf (drop start content) old")
    case None
    then show ?thesis using 1(3,4) IndexOf_None by (simp add: find_from.simps [of content old start])
  next
    case (Some idx)
    note i = IndexOf_Some [OF Some]
    have "0 < length old" using 1(2) by simp
    then have m: "max 1 (length old) = length old" by linarith
    have b: "start + idx + length old \<le> length content" using 1(3) i [THEN conjunct1] by simp
    have "g = take idx (drop start content) \<or> g \<in> set (gaps content (start + idx + length old) (find_from content old (start + idx + length old)))"
      using 1(3,4) Some m by (auto simp: find_from.simps [of content old start] Let_def slice_def take_drop add.commute)
    then show ?thesis using 1(1) [OF _ Some refl] 1(2,3) i b unfolding m by auto
  qed
qed

lemma select_matches_Inr:
  assumes "select_matches q ms = Inr sel"
  shows "subseq sel ms \<and> sel \<noteq> [] \<and> (if eq_all q then sel = ms else length sel = 1)"
proof (cases "eq_all q")
  case True
  then show ?thesis using assms by (auto simp: select_matches_def Let_def split: if_splits)
next
  case False
  have ms: "ms \<noteq> []" using assms by (auto simp: select_matches_def)
  show ?thesis
  proof (cases "eq_occurrence q")
    case (Some n)
    then have "sel = [ms ! nat (n - 1)]" "n \<le> int (length ms)"
      using assms False by (auto simp: select_matches_def Let_def split: if_splits)
    moreover have "nat (n - 1) < length ms" using calculation(2) ms by (cases ms) auto
    ultimately show ?thesis using False by (simp add: subseq_singleton_left)
  next
    case None
    show ?thesis
    proof (cases "eq_hint q")
      case h: None
      then have "sel = take 1 ms" using assms False None by (auto simp: select_matches_def Let_def split: if_splits)
      then show ?thesis using ms False by (cases ms) auto
    next
      case (Some h)
      then obtain P where "sel = filter P ms" "sel \<noteq> []" "\<not> 1 < length sel"
        using assms False None by (auto simp: select_matches_def Let_def split: if_splits)
      moreover have "length sel = 1" using calculation(2,3) by (cases sel) simp_all
      ultimately show ?thesis using False by (auto intro: subseq_filter_left)
    qed
  qed
qed

lemma crlf_to_lf_Nil: "crlf_to_lf s = [] \<longleftrightarrow> s = []"
  by (induction s rule: crlf_to_lf.induct) auto

text \<open>The text with its line ends as the file had them.\<close>

definition with_ends :: "string \<Rightarrow> string \<Rightarrow> string" where
  "with_ends raw s = (if uses_crlf raw then lf_to_crlf s else s)"

section \<open>A workspace\<close>

text \<open>A workspace \<^verbatim>\<open>/w\<close> that the tools may not leave, with nothing in it.\<close>

definition demo_paths :: path_env where
  "demo_paths = \<lparr>pe_Home = None, pe_Getwd = Inr ''/'', pe_EvalSymlinks = (\<lambda>p. if p = ''/w'' then Some ''/w'' else None)\<rparr>"

definition demo_policy :: PathPolicy where
  "demo_policy = \<lparr>pp_Workspace = ''/w'', pp_AllowedDir = ''/w'', pp_ExtraReadDirs = [], pp_ExtraReadFiles = [],
     pp_ExtraWriteDirs = [], pp_ExtraWriteFiles = []\<rparr>"

definition demo_env :: tool_env where
  "demo_env = \<lparr>te_Paths = demo_paths, te_Policy = demo_policy, te_Lower = id, te_Printable = (\<lambda>_. True), te_JsonError = id\<rparr>"

definition quiet_io :: file_io where
  "quiet_io = \<lparr>fi_Stat = Map.empty, fi_Read = Map.empty, fi_Mkdir = Map.empty, fi_Write = Map.empty, fi_Remove = Map.empty\<rparr>"

definition demo_args :: string where
  "demo_args = writeJSONValue (JObject [(''path'', JString ''a''), (''content'', JString ''x'')]) 0"

definition demo_edits :: json where
  "demo_edits = JArray [JObject [(''path'', JString ''a''), (''action'', JString ''add''), (''new_text'', JString ''x'')]]"

text \<open>A name with nothing behind it passes the policy as it is, also when it is a link to nowhere.\<close>

lemma link_to_nowhere_passes: "resolveWrite demo_paths demo_policy ''a'' = Some (Inr ''/w/a'')" by code_simp

lemma demo_target: "resolve_write demo_env ''a'' = Inr ''/w/a''"
  by (simp add: resolve_write_def demo_env_def link_to_nowhere_passes)

lemma demo_parse: "parseArgs err name demo_args [''path'', ''content''] = Inr [(''path'', JString ''a''), (''content'', JString ''x'')]"
proof -
  have v: "valid_utf8 ''path''" "valid_utf8 ''content''" "valid_utf8 ''a''" "valid_utf8 ''x''"
    by (rule ascii_valid, simp)+
  show ?thesis unfolding demo_args_def by (subst parseArgs_written) (use v in \<open>simp_all add: obj_set_def\<close>)
qed

lemma demo_write: "snd (WriteFile_Execute demo_env quiet_io None demo_args Map.empty) ''/w/a'' = Some (Regular ''x'')"
  by (simp add: WriteFile_Execute_def demo_parse requiredString_def obj_get_def Let_def demo_target mkdir_write_def
      os_WriteFile_def quiet_io_def coerceString_def)

section \<open>What the tools promise\<close>




text \<open>The same workspace with a file system that takes half of the text and fails.\<close>

definition failing_io :: file_io where
  "failing_io = quiet_io\<lparr>fi_Write := (\<lambda>p. Some (\<lparr>fe_Text = ''no space left on device'', fe_Permission = False, fe_NotExist = False\<rparr>,
     Some (Regular ''half'')))\<rparr>"

definition demo_plan :: patch_state where
  "demo_plan = \<lparr>ps_writes = [(''/w/a'', ''x'' @ [CHR 0x0A])], ps_originals = [''/w/a'' \<mapsto> []], ps_actions = [''/w/a'' \<mapsto> ''add'']\<rparr>"

lemma demo_valid_path: "validatePatchPath env ''a'' = Inr ''a''"
proof -
  have "PyStrip ''a'' = ''a''"
    by (simp add: PyStrip_def PyLStrip.simps PyRStrip.simps decode_last_rune_def PyIsSpace_iff pySpaceRanges_def)
  then show ?thesis by (simp add: validatePatchPath_def)
qed

lemma demo_edits_plan:
  "pyTruthy demo_edits" "\<exists>es. pyIterate demo_edits = Some es \<and> apply_edits demo_env io Map.empty es no_edits = Inr demo_plan"
proof -
  have "apply_edit demo_env io Map.empty (JObject [(''path'', JString ''a''), (''action'', JString ''add''), (''new_text'', JString ''x'')]) no_edits
    = Inr demo_plan"
    by (simp add: apply_edit_def obj_get_def demo_valid_path demo_target applyAdd_def current_text_def os_Stat_def no_edits_def
        keep_first_def end_line_def HasSuffix_def HasPrefix_def demo_plan_def)
  then show "\<exists>es. pyIterate demo_edits = Some es \<and> apply_edits demo_env io Map.empty es no_edits = Inr demo_plan"
    by (simp add: demo_edits_def pyIterate_def)
qed (simp add: demo_edits_def pyTruthy_def)



definition demo_edit :: "string \<Rightarrow> string \<Rightarrow> edit_request" where
  "demo_edit old new = \<lparr>eq_path = ''n.md'', eq_old = old, eq_new = new, eq_all = True, eq_occurrence = None, eq_hint = None,
     eq_expected = None\<rparr>"

lemma demo_edit_new: "norm_new demo_env (demo_edit old new) ''n.md'' = crlf_to_lf new"
  by (simp add: norm_new_def demo_edit_def path_Ext_def ToLower_def ascii_lower_def markdownExtensions_def)

lemma find_from_step:
  assumes "IndexOf (drop start content) old = Some idx" "start \<le> length content" "old \<noteq> []"
  shows "find_from content old start =
     \<lparr>mt_start = start + idx, mt_end = start + idx + length old, mt_text = old, mt_line = count_lf (take (start + idx) content) + 1\<rparr>
     # find_from content old (start + idx + length old)"
proof -
  have "max 1 (length old) = length old" using assms(3) by (cases old) simp_all
  then show ?thesis using assms by (subst find_from.simps) (simp add: Let_def)
qed

lemma find_from_none: "IndexOf (drop start content) old = None \<Longrightarrow> find_from content old start = []"
  by (subst find_from.simps) simp


text \<open>
  With an empty new text the guard of the property is needed: where a match is taken for a whole line the
  line end behind it goes too, and when that is where the following match begins, the pieces between them
  end before they start and the program panics.
\<close>

lemma deleting_panics:
  "edit_text demo_env (demo_edit [CHR 0x0A, CHR ''x''] []) ''n.md'' [CHR 0x0A, CHR ''x'', CHR 0x0A, CHR ''x''] = None"
proof -
  let ?c = "[CHR 0x0A, CHR ''x'', CHR 0x0A, CHR ''x'']" and ?o = "[CHR 0x0A, CHR ''x'']"
  have m: "findExactMatches ?c ?o = [\<lparr>mt_start = 0, mt_end = 2, mt_text = ?o, mt_line = 1\<rparr>, \<lparr>mt_start = 2, mt_end = 4, mt_text = ?o, mt_line = 2\<rparr>]"
    by (simp add: findExactMatches_def find_from_step find_from_none IndexOf.simps HasPrefix_def count_lf_def)
  show ?thesis
    unfolding edit_text_def demo_edit_new
    by (simp add: m demo_edit_def select_matches_def Let_def go_slice_def slice_def match_end_def HasSuffix_def HasPrefix_def)
qed

end
