(* ===== verification/Session_Keys.thy ===== *)
theory Session_Keys
  imports Tool_Paths
begin

text \<open>
  The names of session files, \<^verbatim>\<open>internal/session/keys.go\<close> and the paths of \<^verbatim>\<open>store.go\<close>: the key of a
  session in the URL alphabet of base64, the lenient decoder of Python, and the rule by which a file
  name is taken for the one of a session.
\<close>

section \<open>Encoding\<close>

definition b64_char :: "nat \<Rightarrow> char" where
  "b64_char v =
     (if v < 26 then char_of (65 + v)
      else if v < 52 then char_of (97 + (v - 26))
      else if v < 62 then char_of (48 + (v - 52))
      else if v = 62 then CHR ''-'' else CHR ''_'')"

text \<open>\<^verbatim>\<open>base64.RawURLEncoding.EncodeToString\<close>: three bytes become four characters, without padding.\<close>

fun StorageKey :: "string \<Rightarrow> string" where
  "StorageKey (a # b # c # s) =
     (let v = byte a * 65536 + byte b * 256 + byte c in
      b64_char (v div 262144) # b64_char (v div 4096 mod 64) # b64_char (v div 64 mod 64) # b64_char (v mod 64)
      # StorageKey s)"
| "StorageKey [a, b] =
     (let v = byte a * 65536 + byte b * 256
      in [b64_char (v div 262144), b64_char (v div 4096 mod 64), b64_char (v div 64 mod 64)])"
| "StorageKey [a] = (let v = byte a * 65536 in [b64_char (v div 262144), b64_char (v div 4096 mod 64)])"
| "StorageKey [] = []"

section \<open>Decoding\<close>

definition b64Value :: "char \<Rightarrow> nat option" where
  "b64Value c =
     (if 65 \<le> byte c \<and> byte c \<le> 90 then Some (byte c - 65)
      else if 97 \<le> byte c \<and> byte c \<le> 122 then Some (byte c - 97 + 26)
      else if 48 \<le> byte c \<and> byte c \<le> 57 then Some (byte c - 48 + 52)
      else if c = CHR ''+'' \<or> c = CHR ''-'' then Some 62
      else if c = CHR ''/'' \<or> c = CHR ''_'' then Some 63
      else None)"

text \<open>The six-bit values of the text, and the equals signs behind the last of them.\<close>

fun decode_data :: "string \<Rightarrow> nat list \<Rightarrow> nat \<Rightarrow> nat list \<times> nat" where
  "decode_data [] data padding = (data, padding)"
| "decode_data (c # s) data padding =
     (case b64Value c of
        Some v \<Rightarrow> decode_data s (data @ [v]) 0
      | None \<Rightarrow> decode_data s data (if c = CHR ''='' then padding + 1 else padding))"

text \<open>The bytes of the values; \<open>bits\<close> is 32 bits wide.\<close>

fun decode_bits :: "nat list \<Rightarrow> nat \<Rightarrow> nat \<Rightarrow> string" where
  "decode_bits [] bits nbits = []"
| "decode_bits (v # vs) bits nbits =
     (let bits = (bits * 64 + v) mod 2 ^ 32;
          nbits = nbits + 6
      in if 8 \<le> nbits
         then char_of (bits div 2 ^ (nbits - 8)) # decode_bits vs (bits mod 2 ^ (nbits - 8)) (nbits - 8)
         else decode_bits vs bits nbits)"

definition DecodeStorageKey :: "string \<Rightarrow> string option" where
  "DecodeStorageKey stem =
     (if list_ex (\<lambda>c. 127 < byte c) stem then None
      else
        let pad = 4 - length stem mod 4;
            s = (if pad \<noteq> 4 then stem @ replicate pad (CHR ''='') else stem);
            (data, padding) = decode_data s [] 0;
            rest = length data mod 4
        in if rest = 1 \<or> rest = 2 \<and> padding < 2 \<or> rest = 3 \<and> padding < 1 then None
           else
             let out = decode_bits data 0 0
             in if \<not> valid_utf8 out then None else Some out)"

definition SessionKeyFromStem :: "string \<Rightarrow> string option" where
  "SessionKeyFromStem stem =
     (case DecodeStorageKey stem of
        None \<Rightarrow> None
      | Some key \<Rightarrow> if StorageKey key \<noteq> stem then None else Some key)"

section \<open>Paths\<close>

definition sessionSuffix :: string where "sessionSuffix = ''.jsonl''"
definition journalSuffix :: string where "journalSuffix = ''.journal.jsonl''"
definition checkpointSuffix :: string where "checkpointSuffix = ''.checkpoint.json''"

lemmas suffix_defs = sessionSuffix_def journalSuffix_def checkpointSuffix_def

definition session_Path :: "string \<Rightarrow> string \<Rightarrow> string" where
  "session_Path dir key = path_Join [dir, StorageKey key @ sessionSuffix]"

definition journalPath :: "string \<Rightarrow> string \<Rightarrow> string" where
  "journalPath dir key = path_Join [dir, StorageKey key @ journalSuffix]"

definition checkpointPath :: "string \<Rightarrow> string \<Rightarrow> string" where
  "checkpointPath dir key = path_Join [dir, StorageKey key @ checkpointSuffix]"

text \<open>The retired name of a session, which is only ever removed.\<close>

definition safeFilename :: "string \<Rightarrow> string" where
  "safeFilename name = TrimSpace (map (\<lambda>c. if unsafeChars c then CHR ''_'' else c) name)"

definition safeKey :: "string \<Rightarrow> string" where
  "safeKey key = safeFilename (map (\<lambda>c. if c = CHR '':'' then CHR ''_'' else c) key)"

definition legacyLossyPath :: "string \<Rightarrow> string \<Rightarrow> string" where
  "legacyLossyPath dir key = path_Join [dir, safeKey key @ sessionSuffix]"

text \<open>
  Deleting a session removes its files; \<open>io p\<close> is an error of \<^verbatim>\<open>os.Remove\<close> other than a missing file. The
  first error is reported, and the others are tried all the same.
\<close>

fun remove_all :: "(string \<Rightarrow> string option) \<Rightarrow> string list \<Rightarrow> (string \<rightharpoonup> string) \<Rightarrow> string option \<Rightarrow> string option \<times> (string \<rightharpoonup> string)" where
  "remove_all io [] fs firstErr = (firstErr, fs)"
| "remove_all io (p # ps) fs firstErr =
     (case io p of
        Some e \<Rightarrow> remove_all io ps fs (if firstErr = None then Some (''session: delete '' @ p @ '': '' @ e) else firstErr)
      | None \<Rightarrow> remove_all io ps (fs(p := None)) firstErr)"

definition Store_Delete :: "(string \<Rightarrow> string option) \<Rightarrow> string \<Rightarrow> string \<Rightarrow> (string \<rightharpoonup> string) \<Rightarrow> string option \<times> (string \<rightharpoonup> string)" where
  "Store_Delete io dir key fs =
     remove_all io [session_Path dir key, journalPath dir key, checkpointPath dir key, legacyLossyPath dir key] fs None"

section \<open>Six bits at a time\<close>

lemma b64Value_char: "v < 64 \<Longrightarrow> b64Value (b64_char v) = Some v"
  by (auto simp: b64Value_def b64_char_def)

lemma b64_char_ascii: "byte (b64_char v) < 128"
  by (auto simp: b64_char_def)

lemma b64_char_plain: "b64_char v \<noteq> CHR ''.'' \<and> b64_char v \<noteq> CHR ''/'' \<and> b64_char v \<noteq> CHR ''=''"
  using arg_cong [of "b64_char v" _ byte] by (auto simp: b64_char_def dest!: arg_cong [of _ _ byte])

text \<open>The values behind the characters, byte by byte.\<close>

fun sextets :: "string \<Rightarrow> nat list" where
  "sextets (a # b # c # s) =
     byte a div 4 # (byte a mod 4 * 16 + byte b div 16) # (byte b mod 16 * 4 + byte c div 64) # byte c mod 64 # sextets s"
| "sextets [a, b] = [byte a div 4, byte a mod 4 * 16 + byte b div 16, byte b mod 16 * 4]"
| "sextets [a] = [byte a div 4, byte a mod 4 * 16]"
| "sextets [] = []"

lemma div_mod_eq: "x = q * d + r \<Longrightarrow> r < d \<Longrightarrow> x div d = q \<and> x mod d = (r::nat)"
  by simp

lemma byte_less [simp]: "byte c < 256"
  using of_char_of [of "byte c"] by (metis char_of_char mod_less_divisor zero_less_numeral)

text \<open>The bytes of a group as the sums the encoder and the decoder take apart.\<close>

lemma split_byte:
  fixes a d :: nat
  assumes "a < 256" "d * e = 256"
  obtains q r where "a = q * d + r" "r < d" "q < e" "a div d = q" "a mod d = r"
proof -
  have d: "0 < d" using assms(2) by (cases d) auto
  have "a div d < e" using assms d by (simp add: less_mult_imp_div_less mult.commute)
  then show thesis using that [of "a div d" "a mod d"] d by simp
qed

lemma group_values:
  fixes a b c :: nat
  assumes "a < 256" "b < 256" "c < 256"
  shows "(a * 65536 + b * 256 + c) div 262144 = a div 4"
    "(a * 65536 + b * 256 + c) div 4096 mod 64 = a mod 4 * 16 + b div 16"
    "(a * 65536 + b * 256 + c) div 64 mod 64 = b mod 16 * 4 + c div 64"
    "(a * 65536 + b * 256 + c) mod 64 = c mod 64"
proof -
  obtain a1 a2 where a: "a = a1 * 4 + a2" "a2 < 4" "a div 4 = a1" "a mod 4 = a2" using split_byte [of a 4 64] assms(1) by auto
  obtain b1 b2 where b: "b = b1 * 16 + b2" "b2 < 16" "b1 < 16" "b div 16 = b1" "b mod 16 = b2" using split_byte [of b 16 16] assms(2) by auto
  obtain c1 c2 where c: "c = c1 * 64 + c2" "c2 < 64" "c1 < 4" "c div 64 = c1" "c mod 64 = c2" using split_byte [of c 64 4] assms(3) by auto
  let ?v = "a * 65536 + b * 256 + c"
  have v1: "?v div 262144 = a1" by (rule conjunct1 [OF div_mod_eq [of _ _ _ "a2 * 65536 + b * 256 + c"]]) (use a b c in simp_all)
  have v2: "?v div 4096 = a1 * 64 + (a2 * 16 + b1)"
    by (rule conjunct1 [OF div_mod_eq [of _ _ _ "b2 * 256 + c"]]) (use a b c in simp_all)
  have v3: "?v div 64 = (a * 16 + b1) * 64 + (b2 * 4 + c1)" by (rule conjunct1 [OF div_mod_eq [of _ _ _ c2]]) (use a b c in simp_all)
  have v4: "?v mod 64 = c2" by (rule conjunct2 [OF div_mod_eq [of _ "a * 1024 + b * 4 + c1"]]) (use a b c in simp_all)
  have "a2 * 16 + b1 < 64" "b2 * 4 + c1 < 64" using a(2) b(2,3) c(3) by linarith+
  then have m: "(a1 * 64 + (a2 * 16 + b1)) mod 64 = a2 * 16 + b1" "((a * 16 + b1) * 64 + (b2 * 4 + c1)) mod 64 = b2 * 4 + c1"
    by (simp_all only: mod_mult_self3 mod_less)
  show "?v div 262144 = a div 4" using v1 a(3) by (rule trans [OF _ sym])
  show "?v div 4096 mod 64 = a mod 4 * 16 + b div 16" unfolding v2 m a(4) b(4) by (rule refl)
  show "?v div 64 mod 64 = b mod 16 * 4 + c div 64" unfolding v3 m b(5) c(4) by (rule refl)
  show "?v mod 64 = c mod 64" using v4 c(5) by (rule trans [OF _ sym])
qed

lemma value_bounds:
  fixes a b c :: nat
  assumes "a < 256" "b < 256" "c < 256"
  shows "a div 4 < 64" "a mod 4 * 16 + b div 16 < 64" "b mod 16 * 4 + c div 64 < 64"
proof -
  show "a div 4 < 64" using assms by (simp add: less_mult_imp_div_less)
  have "a mod 4 < 4" "b div 16 < 16" "b mod 16 < 16" "c div 64 < 4" using assms by (simp_all add: less_mult_imp_div_less)
  then show "a mod 4 * 16 + b div 16 < 64" "b mod 16 * 4 + c div 64 < 64" by linarith+
qed

lemma StorageKey_sextets: "StorageKey s = map b64_char (sextets s)"
proof (induction s rule: StorageKey.induct)
  case (1 a b c s)
  then show ?case using group_values [of "byte a" "byte b" "byte c"] by (simp add: Let_def)
next
  case (2 a b)
  then show ?case using group_values [of "byte a" "byte b" 0] by (simp add: Let_def)
next
  case (3 a)
  then show ?case using group_values [of "byte a" 0 0] by (simp add: Let_def)
qed simp

lemma sextets_small: "v \<in> set (sextets s) \<Longrightarrow> v < 64"
proof (induction s rule: sextets.induct)
  case (1 a b c s)
  then show ?case using value_bounds [of "byte a" "byte b" "byte c"] by auto
next
  case (2 a b)
  then show ?case using value_bounds [of "byte a" "byte b" 0] by auto
next
  case (3 a)
  then show ?case using value_bounds [of "byte a" 0 0] by auto
qed simp

lemma decode_bits_step:
  assumes "bits < 64" "v < 64"
  shows "decode_bits (v # vs) bits nbits =
    (if 2 \<le> nbits then char_of ((bits * 64 + v) div 2 ^ (nbits - 2)) # decode_bits vs ((bits * 64 + v) mod 2 ^ (nbits - 2)) (nbits - 2)
     else decode_bits vs (bits * 64 + v) (nbits + 6))"
proof -
  have "(bits * 64 + v) mod 2 ^ 32 = bits * 64 + v" using assms by simp
  moreover have "nbits + 6 - 8 = nbits - 2" "8 \<le> nbits + 6 \<longleftrightarrow> 2 \<le> nbits" by auto
  ultimately show ?thesis unfolding decode_bits.simps Let_def by simp
qed

text \<open>What comes out of the values of a byte and the upper part of the following one.\<close>

lemma bits_first: "byte a div 4 * 64 + (byte a mod 4 * 16 + y) = byte a * 16 + y"
proof -
  have "byte a div 4 * 64 + byte a mod 4 * 16 = (byte a div 4 * 4 + byte a mod 4) * 16" by (simp only: distrib_right)
  then show ?thesis by simp
qed

lemma bits_second: "byte b div 16 * 64 + (byte b mod 16 * 4 + z) = byte b * 4 + z"
proof -
  have "byte b div 16 * 64 + byte b mod 16 * 4 = (byte b div 16 * 16 + byte b mod 16) * 4" by (simp only: distrib_right)
  then show ?thesis by simp
qed

lemma decode_bits_two:
  assumes "y < 16"
  shows "decode_bits (byte a div 4 # (byte a mod 4 * 16 + y) # vs) 0 0 = a # decode_bits vs y 4"
proof -
  have "byte a div 4 < 64" "byte a mod 4 * 16 + y < 64" using value_bounds(1) [of "byte a" 0 0] assms by simp_all
  moreover have "(byte a * 16 + y) div 16 = byte a" "(byte a * 16 + y) mod 16 = y" using assms by simp_all
  ultimately show ?thesis by (simp add: decode_bits_step bits_first del: decode_bits.simps)
qed

lemma decode_bits_three:
  assumes "z < 4"
  shows "decode_bits ((byte b mod 16 * 4 + z) # vs) (byte b div 16) 4 = b # decode_bits vs z 2"
proof -
  have "byte b div 16 < 64" "byte b mod 16 * 4 + z < 64" using assms less_mult_imp_div_less [of "byte b" 16 16] by auto
  moreover have "(byte b * 4 + z) div 4 = byte b" "(byte b * 4 + z) mod 4 = z" using assms by simp_all
  ultimately show ?thesis by (simp add: decode_bits_step bits_second del: decode_bits.simps)
qed

lemma decode_bits_four: "decode_bits (byte c mod 64 # vs) (byte c div 64) 2 = c # decode_bits vs 0 0"
proof -
  have "byte c div 64 < 64" using less_mult_imp_div_less [of "byte c" 4 64] by auto
  then show ?thesis by (simp add: decode_bits_step del: decode_bits.simps)
qed

lemma decode_bits_sextets: "decode_bits (sextets s) 0 0 = s"
proof (induction s rule: sextets.induct)
  case (1 a b c s)
  have "byte b div 16 < 16" "byte c div 64 < 4" by (simp_all add: less_mult_imp_div_less)
  then show ?case using 1 by (simp add: decode_bits_two decode_bits_three decode_bits_four del: decode_bits.simps)
next
  case (2 a b)
  have "byte b div 16 < 16" by (simp add: less_mult_imp_div_less)
  then show ?case using decode_bits_three [of 0 b "[]"] by (simp add: decode_bits_two del: decode_bits.simps(2))
next
  case (3 a)
  then show ?case using decode_bits_two [of 0 a "[]"] by (simp del: decode_bits.simps(2))
qed simp

section \<open>A stem is read back\<close>

lemma decode_data_chars:
  "\<forall>v \<in> set vs. v < 64 \<Longrightarrow>
   decode_data (map b64_char vs @ replicate n (CHR ''='')) data padding = (data @ vs, if vs = [] then padding + n else n)"
proof (induction vs arbitrary: data padding)
  case Nil
  have "b64Value (CHR ''='') = None" by (simp add: b64Value_def)
  then show ?case by (induction n arbitrary: padding) auto
next
  case (Cons v vs)
  then show ?case using b64Value_char [of v] by simp
qed

lemma length_sextets: "length (sextets s) mod 4 = (if length s mod 3 = 0 then 0 else length s mod 3 + 1)"
proof (induction s rule: sextets.induct)
  case (1 a b c s)
  have "length (sextets (a # b # c # s)) mod 4 = length (sextets s) mod 4" by simp
  moreover have "length (a # b # c # s) mod 3 = length s mod 3" by simp
  ultimately show ?case using 1 by simp
qed simp_all

lemma decode_StorageKey:
  assumes "valid_utf8 key"
  shows "DecodeStorageKey (StorageKey key) = Some key"
proof -
  define vs where "vs = sextets key"
  have k: "StorageKey key = map b64_char vs" by (simp add: vs_def StorageKey_sextets)
  have ascii: "\<not> list_ex (\<lambda>c. 127 < byte c) (StorageKey key)"
    using b64_char_ascii by (auto simp: k list_ex_iff not_less less_Suc_eq_le [symmetric])
  have dd: "decode_data (StorageKey key @ replicate n (CHR ''='')) [] 0 = (vs, n)" for n
    using decode_data_chars [of vs n "[]" 0] sextets_small by (simp add: k vs_def)
  have m: "length vs mod 4 \<in> {0, 2, 3}" unfolding vs_def length_sextets by (auto; presburger)
  define n where "n = (if length vs mod 4 = 0 then 0 else 4 - length vs mod 4)"
  have "(if 4 - length (StorageKey key) mod 4 \<noteq> 4 then StorageKey key @ replicate (4 - length (StorageKey key) mod 4) (CHR ''='') else StorageKey key)
     = StorageKey key @ replicate n (CHR ''='')"
    using m by (auto simp: k n_def)
  then show ?thesis
    unfolding DecodeStorageKey_def Let_def using ascii dd [of n] m assms
    by (auto simp: n_def vs_def decode_bits_sextets split: if_splits)
qed

lemma StorageKey_inject: "StorageKey s = StorageKey t \<Longrightarrow> s = t"
proof -
  assume "StorageKey s = StorageKey t"
  moreover have "fst (decode_data (StorageKey u) [] 0) = sextets u" for u
    using decode_data_chars [of "sextets u" 0 "[]" 0] sextets_small by (simp add: StorageKey_sextets)
  ultimately have "sextets s = sextets t" by metis
  then show "s = t" using decode_bits_sextets by metis
qed

section \<open>One file, one session\<close>

lemma StorageKey_plain: "c \<in> set (StorageKey s) \<Longrightarrow> c \<noteq> CHR ''.'' \<and> c \<noteq> CHR ''/''"
  using b64_char_plain by (auto simp: StorageKey_sextets)

text \<open>A plain name is the end of its path, behind a part that depends on the directory alone.\<close>

lemma split_acc_slash: "split_acc sep cur (s @ sep # t) = split_acc sep cur s @ split_acc sep [] t"
  by (induction s arbitrary: cur) auto

lemma path_Join_name: "\<exists>pre. \<forall>name. plain_elem name \<and> name \<noteq> ''..'' \<longrightarrow> path_Join [dir, name] = pre @ name"
proof (cases "dir = []")
  case True
  have "path_Join [dir, name] = name" if "plain_elem name" "name \<noteq> ''..''" for name
  proof -
    have "split_acc (CHR ''/'') [] name = [name]" using split_acc_elem [of name "[]" "[]"] that by (simp add: plain_elem_def)
    moreover have "\<not> HasPrefix name ''/''" using that by (cases name) (auto simp: HasPrefix_def plain_elem_def)
    ultimately show ?thesis
      using True that by (simp add: path_Join_def path_Clean_def Split_def clean_step_def plain_elem_def)
  qed
  then show ?thesis by (metis append_Nil)
next
  case False
  define r where "r = HasPrefix dir ''/''"
  define cs where "cs = foldl (clean_step r) [] (Split dir (CHR ''/''))"
  have "path_Join [dir, name] = (if r then ''/'' else []) @ (if cs = [] then [] else Join cs ''/'' @ ''/'') @ name"
    if n: "plain_elem name" "name \<noteq> ''..''" for name
  proof -
    have "HasPrefix (dir @ ''/'' @ name) ''/'' = r" using False by (cases dir) (auto simp: r_def HasPrefix_def)
    moreover have "split_acc (CHR ''/'') [] name = [name]" using split_acc_elem [of name "[]" "[]"] n by (simp add: plain_elem_def)
    then have "Split (dir @ ''/'' @ name) (CHR ''/'') = Split dir (CHR ''/'') @ [name]"
      by (simp add: Split_def split_acc_slash)
    moreover have "clean_step r cs name = cs @ [name]" using n by (simp add: clean_step_def plain_elem_def)
    ultimately show ?thesis
      using False n by (auto simp: path_Join_def path_Clean_def Let_def cs_def plain_elem_def Join_snoc)
  qed
  then show ?thesis by (intro exI [of _ "(if r then ''/'' else []) @ (if cs = [] then [] else Join cs ''/'' @ ''/'')"]) simp
qed

lemma plain_suffixed: "suf \<in> {sessionSuffix, journalSuffix, checkpointSuffix} \<Longrightarrow>
    plain_elem (StorageKey key @ suf) \<and> StorageKey key @ suf \<noteq> ''..''"
proof -
  assume s: "suf \<in> {sessionSuffix, journalSuffix, checkpointSuffix}"
  then have "4 < length suf" "CHR ''/'' \<notin> set suf" by (auto simp: suffix_defs)
  then show ?thesis using StorageKey_plain [of _ key] by (auto simp: plain_elem_def dest: arg_cong [of _ _ length])
qed

lemma stem_split:
  assumes "StorageKey k @ suf = StorageKey k' @ suf'" "hd suf = CHR ''.''" "hd suf' = CHR ''.''" "suf \<noteq> []" "suf' \<noteq> []"
  shows "k = k' \<and> suf = suf'"
proof -
  have cut: "takeWhile (\<lambda>c. c \<noteq> CHR ''.'') (StorageKey u @ t) = StorageKey u" if "hd t = CHR ''.''" "t \<noteq> []" for u t
    using that StorageKey_plain by (cases t) (auto simp: takeWhile_tail)
  have "StorageKey k = StorageKey k'" using cut [of suf k] cut [of suf' k'] assms by metis
  then show ?thesis using StorageKey_inject assms(1) by auto
qed

lemma session_paths_inject:
  assumes "suf \<in> {sessionSuffix, journalSuffix, checkpointSuffix}" "suf' \<in> {sessionSuffix, journalSuffix, checkpointSuffix}"
    and "path_Join [dir, StorageKey k @ suf] = path_Join [dir, StorageKey k' @ suf']"
  shows "k = k' \<and> suf = suf'"
proof -
  obtain pre where "\<forall>name. plain_elem name \<and> name \<noteq> ''..'' \<longrightarrow> path_Join [dir, name] = pre @ name" using path_Join_name by blast
  then have "StorageKey k @ suf = StorageKey k' @ suf'"
    using plain_suffixed [OF assms(1), of k] plain_suffixed [OF assms(2), of k'] assms(3) by simp
  moreover have "hd suf = CHR ''.''" "hd suf' = CHR ''.''" "suf \<noteq> []" "suf' \<noteq> []" using assms(1,2) by (auto simp: suffix_defs)
  ultimately show ?thesis by (rule stem_split)
qed

definition session_files :: "string \<Rightarrow> string \<Rightarrow> string list" where
  "session_files dir key = [session_Path dir key, journalPath dir key, checkpointPath dir key]"

text \<open>
  C4. A key is kept in its file name: the name of a session's file is read back as its key, only the name
  made from a key is taken for a session, and the three files of a session are different from each other
  and from those of every other session, in any directory.
\<close>

theorem session_files_named:
  assumes "valid_utf8 key"
  shows "SessionKeyFromStem (StorageKey key) = Some key
    \<and> (\<forall>stem k. SessionKeyFromStem stem = Some k \<longrightarrow> stem = StorageKey k \<and> valid_utf8 k)
    \<and> distinct (session_files dir key) \<and> (\<forall>k. k \<noteq> key \<longrightarrow> set (session_files dir key) \<inter> set (session_files dir k) = {})"
proof (intro conjI allI impI)
  show "SessionKeyFromStem (StorageKey key) = Some key" using decode_StorageKey [OF assms] by (simp add: SessionKeyFromStem_def)
  have "sessionSuffix \<noteq> journalSuffix" "sessionSuffix \<noteq> checkpointSuffix" "journalSuffix \<noteq> checkpointSuffix" by (simp_all add: suffix_defs)
  then show "distinct (session_files dir key)"
    using session_paths_inject [of sessionSuffix journalSuffix dir key key] session_paths_inject [of sessionSuffix checkpointSuffix dir key key]
      session_paths_inject [of journalSuffix checkpointSuffix dir key key]
    by (auto simp: session_files_def session_Path_def journalPath_def checkpointPath_def)
next
  fix stem k
  assume "SessionKeyFromStem stem = Some k"
  then show "stem = StorageKey k" "valid_utf8 k"
    by (auto simp: SessionKeyFromStem_def DecodeStorageKey_def Let_def split: option.splits if_splits prod.splits)
next
  fix k
  assume "k \<noteq> key"
  then have "path_Join [dir, StorageKey key @ suf] \<noteq> path_Join [dir, StorageKey k @ suf']"
    if "suf \<in> {sessionSuffix, journalSuffix, checkpointSuffix}" "suf' \<in> {sessionSuffix, journalSuffix, checkpointSuffix}" for suf suf'
    using session_paths_inject [OF that] by blast
  then show "set (session_files dir key) \<inter> set (session_files dir k) = {}"
    by (auto simp: session_files_def session_Path_def journalPath_def checkpointPath_def)
qed

theorem session_files_named_witness:
  "SessionKeyFromStem (StorageKey ''cli:1'') = Some ''cli:1'' \<and> session_Path ''/s'' ''cli:1'' \<noteq> journalPath ''/s'' ''cli:1''"
proof -
  have "valid_utf8 ''cli:1''" by (rule ascii_valid) simp
  from session_files_named [OF this, of "''/s''"] show ?thesis by (auto simp: session_files_def)
qed

text \<open>
  The retired name is in another alphabet, and it can be the name of another session: deleting the
  session \<^verbatim>\<open>YQ\<close> removes the file of the session \<^verbatim>\<open>a\<close>.
\<close>

lemma delete_hits_another:
  "snd (Store_Delete Map.empty ''/s'' ''YQ'' [session_Path ''/s'' ''a'' \<mapsto> d]) (session_Path ''/s'' ''a'') = None"
proof -
  have "StorageKey ''a'' = ''YQ''" by (simp add: b64_char_def char_of_def bit_Suc_0_iff)
  moreover have "TrimSpace ''YQ'' = ''YQ''"
    by (simp add: TrimSpace_def trim_front.simps space_width_def space_encodings_def HasPrefix_def)
  then have "safeKey ''YQ'' = ''YQ''" by (simp add: safeKey_def safeFilename_def unsafeChars_def)
  ultimately have "legacyLossyPath ''/s'' ''YQ'' = session_Path ''/s'' ''a''" by (simp add: legacyLossyPath_def session_Path_def)
  then show ?thesis by (simp add: Store_Delete_def)
qed

end
