(* ===== verification/Session_Time.thy ===== *)
theory Session_Time
  imports Go_Strings
begin

text \<open>
  The times of sessions, \<^verbatim>\<open>internal/session/timefmt.go\<close> (writing) and \<^verbatim>\<open>isoformat.go\<close> (the test whether
  Python's \<^verbatim>\<open>datetime.fromisoformat\<close> accepts a text). An instant is a number of nanoseconds; the fields of
  its wall clock and the offset of the zone are parameters where an instant is formatted.
\<close>

section \<open>Writing\<close>

record wall_time =
  wt_Year :: int
  wt_Month :: int
  wt_Day :: int
  wt_Hour :: int
  wt_Minute :: int
  wt_Second :: int
  wt_Nanosecond :: int

text \<open>Decimal digits, padded with zeros to a width; a sign comes first.\<close>

definition pad_zero :: "nat \<Rightarrow> int \<Rightarrow> string" where
  "pad_zero w n =
     (let ds = Itoa \<bar>n\<bar> in (if n < 0 then ''-'' else []) @ replicate (w - length ds) (CHR ''0'') @ ds)"

definition date_time_text :: "wall_time \<Rightarrow> string" where
  "date_time_text t =
     pad_zero 4 (wt_Year t) @ ''-'' @ pad_zero 2 (wt_Month t) @ ''-'' @ pad_zero 2 (wt_Day t) @ ''T''
     @ pad_zero 2 (wt_Hour t) @ '':'' @ pad_zero 2 (wt_Minute t) @ '':'' @ pad_zero 2 (wt_Second t)"

definition formatNaive :: "wall_time \<Rightarrow> string" where
  "formatNaive t =
     (let us = wt_Nanosecond t div 1000
      in date_time_text t @ (if us \<noteq> 0 then ''.'' @ pad_zero 6 us else []))"

definition formatOffset :: "int \<Rightarrow> string" where
  "formatOffset seconds =
     (let sign = (if seconds < 0 then ''-'' else ''+'');
          seconds = \<bar>seconds\<bar>
      in sign @ pad_zero 2 (seconds div 3600) @ '':'' @ pad_zero 2 (seconds mod 3600 div 60))"

definition formatWithOffset :: "wall_time \<Rightarrow> int \<Rightarrow> string" where
  "formatWithOffset t offset = formatNaive t @ formatOffset offset"

section \<open>The acceptance test\<close>

text \<open>A byte of the buffer, zero behind its end.\<close>

definition at :: "string \<Rightarrow> nat \<Rightarrow> nat" where
  "at b i = (if i < length b then byte (b ! i) else 0)"

definition utf8CharLen :: "nat \<Rightarrow> nat" where
  "utf8CharLen c =
     (if c < 128 then 1
      else if c div 16 = 14 then 3
      else if c div 16 = 15 then 4
      else 2)"

definition isASCIIDigit :: "nat \<Rightarrow> bool" where
  "isASCIIDigit c \<longleftrightarrow> 48 \<le> c \<and> c \<le> 57"

text \<open>The digits from \<open>p\<close> on are added to \<open>v\<close>; the place behind them.\<close>

fun parseDigits :: "string \<Rightarrow> nat \<Rightarrow> int \<Rightarrow> nat \<Rightarrow> (nat \<times> int) option" where
  "parseDigits b p v 0 = Some (p, v)"
| "parseDigits b p v (Suc n) =
     (if isASCIIDigit (at b p) then parseDigits b (p + 1) (v * 10 + (int (at b p) - 48)) n else None)"

text \<open>The first place from \<open>i\<close> on without a digit.\<close>

function digit_run :: "string \<Rightarrow> nat \<Rightarrow> nat" where
  "digit_run b i = (if i < length b \<and> isASCIIDigit (at b i) then digit_run b (i + 1) else i)"
  by pat_completeness auto
termination
  by (relation "measure (\<lambda>(b, i). length b - i)") auto

declare digit_run.simps [simp del]

text \<open>Where the date ends; \<open>None\<close> is the \<open>-1\<close> of the code.\<close>

definition findISOFormatDatetimeSeparator :: "string \<Rightarrow> nat option" where
  "findISOFormatDatetimeSeparator b =
     (let len = length b in
      if len = 7 then Some 7
      else if at b 4 = byte (CHR ''-'') then
        (if at b 5 = byte (CHR ''W'') then
           (if len < 8 then None
            else if 8 < len \<and> at b 8 = byte (CHR ''-'') then
              (if len = 9 then None
               else if 10 < len \<and> isASCIIDigit (at b 10) then Some 8
               else Some 10)
            else Some 8)
         else Some 10)
      else if at b 4 = byte (CHR ''W'') then
        (let idx = digit_run b 7 in if idx < 9 then Some idx else if idx mod 2 = 0 then Some 7 else Some 8)
      else Some 8)"

section \<open>The calendar\<close>

definition isLeap :: "int \<Rightarrow> bool" where
  "isLeap year \<longleftrightarrow> year mod 4 = 0 \<and> (year mod 100 \<noteq> 0 \<or> year mod 400 = 0)"

definition daysInMonth :: "int \<Rightarrow> int \<Rightarrow> int" where
  "daysInMonth year month =
     (if month = 2 \<and> isLeap year then 29
      else [0, 31, 28, 31, 30, 31, 30, 31, 31, 30, 31, 30, 31] ! nat month)"

definition daysBeforeMonth :: "int \<Rightarrow> int \<Rightarrow> int" where
  "daysBeforeMonth year month =
     [0, 0, 31, 59, 90, 120, 151, 181, 212, 243, 273, 304, 334] ! nat month + (if 2 < month \<and> isLeap year then 1 else 0)"

text \<open>\<open>year\<close> is positive, so that the divisions of the code are those of the integers.\<close>

definition ymdToOrd :: "int \<Rightarrow> int \<Rightarrow> int \<Rightarrow> int" where
  "ymdToOrd year month day =
     (let y = year - 1 in y * 365 + y div 4 - y div 100 + y div 400 + daysBeforeMonth year month + day)"

definition weekday :: "int \<Rightarrow> int \<Rightarrow> int \<Rightarrow> int" where
  "weekday year month day = (ymdToOrd year month day + 6) mod 7"

definition isoWeek1Monday :: "int \<Rightarrow> int" where
  "isoWeek1Monday year =
     (let firstDay = ymdToOrd year 1 1;
          firstWeekday = (firstDay + 6) mod 7;
          week1Monday = firstDay - firstWeekday
      in if 3 < firstWeekday then week1Monday + 7 else week1Monday)"

text \<open>The date of an ordinal, as \<^verbatim>\<open>AddDate\<close> counts it from the first of January of the year one.\<close>

definition ordToYMD :: "int \<Rightarrow> int \<times> int \<times> int" where
  "ordToYMD ordinal =
     (let n = ordinal - 1;
          n400 = n div 146097; n = n mod 146097;
          n100 = n div 36524; n = n mod 36524;
          n4 = n div 1461; n = n mod 1461;
          n1 = n div 365; n = n mod 365;
          year = n400 * 400 + n100 * 100 + n4 * 4 + n1 + 1
      in if n1 = 4 \<or> n100 = 4 then (year - 1, 12, 31)
         else
           let month = int (length (filter (\<lambda>m. daysBeforeMonth year m \<le> n) [1, 2, 3, 4, 5, 6, 7, 8, 9, 10, 11, 12]))
           in (year, month, n - daysBeforeMonth year month + 1))"

text \<open>An error code, or zero and the date.\<close>

definition isoToYMD :: "int \<Rightarrow> int \<Rightarrow> int \<Rightarrow> int + int \<times> int \<times> int" where
  "isoToYMD isoYear isoWeek isoDay =
     (if isoYear < 1 \<or> 9999 < isoYear then Inl (-4)
      else if (isoWeek \<le> 0 \<or> 53 \<le> isoWeek)
              \<and> \<not> (isoWeek = 53 \<and> (let firstWeekday = weekday isoYear 1 1
                                      in firstWeekday = 3 \<or> firstWeekday = 2 \<and> isLeap isoYear))
      then Inl (-2)
      else if isoDay \<le> 0 \<or> 8 \<le> isoDay then Inl (-3)
      else Inr (ordToYMD (isoWeek1Monday isoYear + ((isoWeek - 1) * 7 + isoDay - 1))))"

definition checkDateArgs :: "int \<Rightarrow> int \<Rightarrow> int \<Rightarrow> bool" where
  "checkDateArgs year month day \<longleftrightarrow>
     1 \<le> year \<and> year \<le> 9999 \<and> 1 \<le> month \<and> month \<le> 12 \<and> 1 \<le> day \<and> day \<le> daysInMonth year month"

definition checkTimeArgs :: "int \<Rightarrow> int \<Rightarrow> int \<Rightarrow> int \<Rightarrow> bool" where
  "checkTimeArgs hour minute second microsecond \<longleftrightarrow>
     0 \<le> hour \<and> hour \<le> 23 \<and> 0 \<le> minute \<and> minute \<le> 59 \<and> 0 \<le> second \<and> second \<le> 59
     \<and> 0 \<le> microsecond \<and> microsecond \<le> 999999"

section \<open>Parsing\<close>

text \<open>\<open>None\<close> for the length is the unbounded one.\<close>

definition parseISOFormatDate :: "string \<Rightarrow> nat option \<Rightarrow> int + int \<times> int \<times> int" where
  "parseISOFormatDate b len =
     (case parseDigits b 0 0 4 of
        None \<Rightarrow> Inl (-1)
      | Some (p, year) \<Rightarrow>
          let usesSeparator = (at b p = byte (CHR ''-''));
              p = (if usesSeparator then p + 1 else p)
          in if at b p = byte (CHR ''W'') then
               (case parseDigits b (p + 1) 0 2 of
                  None \<Rightarrow> Inl (-3)
                | Some (p, isoWeek) \<Rightarrow>
                    if len = None \<or> p < the len then
                      (if usesSeparator \<and> at b p \<noteq> byte (CHR ''-'') then Inl (-2)
                       else
                         case parseDigits b (if usesSeparator then p + 1 else p) 0 1 of
                           None \<Rightarrow> Inl (-4)
                         | Some (_, isoDay) \<Rightarrow> isoToYMD year isoWeek isoDay)
                    else isoToYMD year isoWeek 1)
             else
               (case parseDigits b p 0 2 of
                  None \<Rightarrow> Inl (-1)
                | Some (p, month) \<Rightarrow>
                    if usesSeparator \<and> at b p \<noteq> byte (CHR ''-'') then Inl (-2)
                    else
                      (case parseDigits b (if usesSeparator then p + 1 else p) 0 2 of
                         None \<Rightarrow> Inl (-1)
                       | Some (_, day) \<Rightarrow> Inr (year, month, day))))"

text \<open>
  Hour, minute and second, \<open>k\<close> of them still to come. The loop returns from the function with a code
  (\<open>Inl\<close>), or leaves at the fraction (\<open>Inr\<close>).
\<close>

fun hms_loop :: "string \<Rightarrow> nat \<Rightarrow> nat \<Rightarrow> nat \<Rightarrow> bool \<Rightarrow> int list \<Rightarrow> int \<times> int list + nat \<times> int list" where
  "hms_loop b stop 0 p hasSeparator vals = Inr (p, vals)"
| "hms_loop b stop (Suc k) p hasSeparator vals =
     (case parseDigits b p 0 2 of
        None \<Rightarrow> Inl (-3, vals)
      | Some (p, v) \<Rightarrow>
          let vals = vals @ [v];
              c = at b p;
              p = p + 1;
              hasSeparator = (if k = 2 then c = byte (CHR '':'') else hasSeparator)
          in if c = byte (CHR ''.'') \<or> c = byte (CHR '','') then
               (if k \<noteq> 0 then Inl (-3, vals) else if stop \<le> p then Inl (-3, vals) else Inr (p, vals))
             else if stop \<le> p then Inl (if c \<noteq> 0 then 1 else 0, vals)
             else if hasSeparator \<and> c = byte (CHR '':'') then
               (if k = 0 then Inl (-4, vals) else hms_loop b stop k p hasSeparator vals)
             else if \<not> hasSeparator then hms_loop b stop k (p - 1) hasSeparator vals
             else Inl (-4, vals))"

text \<open>What is left of the three values is zero.\<close>

definition val :: "int list \<Rightarrow> nat \<Rightarrow> int" where
  "val vs i = (if i < length vs then vs ! i else 0)"

record hms =
  hm_Hour :: int
  hm_Minute :: int
  hm_Second :: int
  hm_Micro :: int

definition hms_of :: "int list \<Rightarrow> int \<Rightarrow> hms" where
  "hms_of vs us = \<lparr>hm_Hour = val vs 0, hm_Minute = val vs 1, hm_Second = val vs 2, hm_Micro = us\<rparr>"

definition correction :: "int list" where "correction = [100000, 10000, 1000, 100, 10]"

definition parseHHMMSSFF :: "string \<Rightarrow> nat \<Rightarrow> nat \<Rightarrow> int \<times> hms" where
  "parseHHMMSSFF b start stop =
     (case hms_loop b stop 3 start True [] of
        Inl (rv, vs) \<Rightarrow> (rv, hms_of vs 0)
      | Inr (p, vs) \<Rightarrow>
          let toParse = min 6 (stop - p) in
          case parseDigits b p 0 toParse of
            None \<Rightarrow> (-3, hms_of vs 0)
          | Some (p, us) \<Rightarrow>
              let us = (if toParse < 6 then us * correction ! (toParse - 1) else us)
              in (if at b (digit_run b p) \<noteq> 0 then 1 else 0, hms_of vs us))"

text \<open>The first sign of a time zone from \<open>pos\<close> on; one past the end of the text when there is nothing to look at.\<close>

function tz_scan :: "string \<Rightarrow> nat \<Rightarrow> nat" where
  "tz_scan b pos =
     (if at b pos \<in> {byte (CHR ''Z''), byte (CHR ''+''), byte (CHR ''-'')} then pos
      else if length b \<le> pos + 1 then pos + 1
      else tz_scan b (pos + 1))"
  by pat_completeness auto
termination
  by (relation "measure (\<lambda>(b, pos). length b - pos)") auto

declare tz_scan.simps [simp del]

text \<open>The code, the time, and the offset of the zone in seconds and microseconds.\<close>

definition parseISOFormatTime :: "string \<Rightarrow> nat \<Rightarrow> int \<times> hms \<times> int \<times> int" where
  "parseISOFormatTime b start =
     (let pEnd = length b;
          pos = tz_scan b start;
          (rv, t) = parseHHMMSSFF b start pos
      in if rv < 0 then (rv, t, 0, 0)
         else if pos = pEnd then (if rv = 1 then -5 else 0, t, 0, 0)
         else if at b pos = byte (CHR ''Z'') then (if at b (pos + 1) \<noteq> 0 then -5 else 1, t, 0, 0)
         else
           let tzsign = (if at b pos = byte (CHR ''-'') then -1 else 1);
               (rv, z) = parseHHMMSSFF b (pos + 1) pEnd
           in (if rv \<noteq> 0 then -5 else 1, t, tzsign * (hm_Hour z * 3600 + hm_Minute z * 60 + hm_Second z), hm_Micro z * tzsign))"

definition roll_over :: "int \<Rightarrow> int \<Rightarrow> int \<Rightarrow> hms \<Rightarrow> (int \<times> int \<times> int \<times> int) option" where
  "roll_over year month day t =
     (if hm_Hour t = 24 \<and> 1 \<le> month \<and> month \<le> 12 \<and> day \<le> daysInMonth year month then
        (if hm_Minute t = 0 \<and> hm_Second t = 0 \<and> hm_Micro t = 0 then
           (if daysInMonth year month < day + 1
            then (if 12 < month + 1 then Some (year + 1, 1, 1, 0) else Some (year, month + 1, 1, 0))
            else Some (year, month, day + 1, 0))
         else None)
      else Some (year, month, day, hm_Hour t))"

definition fromisoformatOK :: "string \<Rightarrow> bool" where
  "fromisoformatOK b =
     (if length (runes b) < 7 then False
      else
        let sepLoc = findISOFormatDatetimeSeparator b
        in case parseISOFormatDate b sepLoc of
             Inl _ \<Rightarrow> False
           | Inr (year, month, day) \<Rightarrow>
               let (rv, t, tzoffset, tzusec) =
                     (if sepLoc = None \<or> the sepLoc < length b
                      then parseISOFormatTime b (case sepLoc of None \<Rightarrow> 0 | Some l \<Rightarrow> min (length b) (l + utf8CharLen (at b l)))
                      else (0, hms_of [] 0, 0, 0));
                   total = tzoffset * 1000000 + tzusec
               in if rv < 0 then False
                  else if rv = 1 \<and> (total \<le> -86400000000 \<or> 86400000000 \<le> total) then False
                  else
                    case roll_over year month day t of
                      None \<Rightarrow> False
                    | Some (year, month, day, hour) \<Rightarrow>
                        checkDateArgs year month day \<and> checkTimeArgs hour (hm_Minute t) (hm_Second t) (hm_Micro t))"

section \<open>Fields of digits\<close>

lemma at_append [simp]: "at (pre @ c # post) (length pre) = byte c"
  by (simp add: at_def nth_append)

lemma is_digit_ASCII: "isASCIIDigit (byte c) \<longleftrightarrow> is_digit c"
  by (simp add: isASCIIDigit_def is_digit_def)

lemma parseDigits_run:
  "list_all is_digit ds \<Longrightarrow>
   parseDigits (pre @ ds @ post) (length pre) (int v) (length ds)
     = Some (length pre + length ds, int (foldl (\<lambda>a c. 10 * a + digit_val c) v ds))"
proof (induction ds arbitrary: pre v)
  case (Cons c ds)
  have "parseDigits ((pre @ [c]) @ ds @ post) (length (pre @ [c])) (int (10 * v + digit_val c)) (length ds)
    = Some (length (pre @ [c]) + length ds, int (foldl (\<lambda>a c. 10 * a + digit_val c) (10 * v + digit_val c) ds))"
    using Cons by (intro Cons.IH) simp
  moreover have "int (byte c) - 48 = int (digit_val c)" using Cons.prems by (simp add: digit_val_def is_digit_def of_nat_diff)
  ultimately show ?case using Cons.prems by (simp add: is_digit_ASCII mult.commute [of _ 10])
qed simp

lemma pad_zero_digits:
  assumes "0 \<le> n" "n < 10 ^ w" "0 < w"
  shows "length (pad_zero w n) = w \<and> list_all is_digit (pad_zero w n) \<and> int (digits_val (pad_zero w n)) = n"
proof -
  have bound: "length (nat_digits k) \<le> w" if "k < 10 ^ w" "0 < w" for k w :: nat
    using that
  proof (induction k arbitrary: w rule: nat_digits.induct)
    case (1 k)
    show ?case
    proof (cases "k < 10")
      case True
      then show ?thesis using 1(3) by (subst nat_digits.simps) simp
    next
      case False
      then obtain u where u: "w = Suc u" "0 < u" using 1(2,3) by (cases w; cases "w - 1") auto
      have "k div 10 < 10 ^ u" using 1(2) u by (simp add: less_mult_imp_div_less mult.commute)
      then show ?thesis using 1(1) [OF False _ u(2)] False u by (subst nat_digits.simps) simp
    qed
  qed
  have l: "length (nat_digits (nat n)) \<le> w" using bound [of "nat n" w] assms by (simp add: nat_less_iff)
  have z: "digits_val (replicate k (CHR ''0'') @ ds) = digits_val ds" for k ds
    by (induction k) (simp_all add: digits_val_def digit_val_def)
  have "is_digit (CHR ''0'')" by (simp add: is_digit_def)
  then show ?thesis using assms l nat_digits_digits [of "nat n"] by (auto simp: pad_zero_def Itoa_def Let_def z list_all_iff)
qed

lemma parse_field:
  assumes "b = pre @ pad_zero w n @ post" "length pre = p" "0 \<le> n" "n < 10 ^ w" "0 < w"
  shows "parseDigits b p 0 w = Some (p + w, n)"
  using parseDigits_run [of "pad_zero w n" pre post 0] pad_zero_digits [OF assms(3-5)] assms(1,2)
  by (simp add: digits_val_def)

lemma at_field:
  assumes "b = pre @ pad_zero w n @ post" "length pre \<le> i" "i < length pre + w" "0 \<le> n" "n < 10 ^ w"
  shows "isASCIIDigit (at b i)"
proof -
  have f: "length (pad_zero w n) = w" "list_all is_digit (pad_zero w n)" using pad_zero_digits [OF assms(4,5)] assms(2,3) by auto
  have "i - length pre < w" using assms(2,3) by linarith
  then have "b ! i = pad_zero w n ! (i - length pre)" using assms(1,2) f(1) by (simp add: nth_append)
  then have "is_digit (b ! i)" using f assms(2,3) by (simp add: list_all_length)
  then show ?thesis using assms f by (simp add: at_def is_digit_ASCII)
qed

lemma at_sign: "b = pre @ c # post \<Longrightarrow> length pre = i \<Longrightarrow> at b i = byte c"
  using at_append by auto

lemma tz_scan_none:
  assumes "\<And>i. start \<le> i \<Longrightarrow> i < length b \<Longrightarrow> at b i \<notin> {byte (CHR ''Z''), byte (CHR ''+''), byte (CHR ''-'')}" "start < length b"
  shows "tz_scan b start = length b"
  using assms
proof (induction b start rule: tz_scan.induct)
  case (1 b pos)
  then show ?case by (subst tz_scan.simps) auto
qed

section \<open>Times that are written\<close>

text \<open>The fields of a time have as many digits as they are written with.\<close>

definition digit_fields :: "wall_time \<Rightarrow> bool" where
  "digit_fields t \<longleftrightarrow>
     0 \<le> wt_Year t \<and> wt_Year t \<le> 9999 \<and> 0 \<le> wt_Month t \<and> wt_Month t \<le> 99 \<and> 0 \<le> wt_Day t \<and> wt_Day t \<le> 99
     \<and> 0 \<le> wt_Hour t \<and> wt_Hour t \<le> 99 \<and> 0 \<le> wt_Minute t \<and> wt_Minute t \<le> 99 \<and> 0 \<le> wt_Second t \<and> wt_Second t \<le> 99
     \<and> 0 \<le> wt_Nanosecond t \<and> wt_Nanosecond t < 1000000000"

definition micro :: "wall_time \<Rightarrow> int" where
  "micro t = wt_Nanosecond t div 1000"

text \<open>Where everything stands in the text of a time.\<close>

lemma written_places:
  assumes t: "digit_fields t" and b: "b = formatNaive t"
  shows "parseDigits b 0 0 4 = Some (4, wt_Year t)" "at b 4 = 45" "parseDigits b 5 0 2 = Some (7, wt_Month t)" "at b 7 = 45"
    "parseDigits b 8 0 2 = Some (10, wt_Day t)" "at b 10 = 84" "parseDigits b 11 0 2 = Some (13, wt_Hour t)" "at b 13 = 58"
    "parseDigits b 14 0 2 = Some (16, wt_Minute t)" "at b 16 = 58" "parseDigits b 17 0 2 = Some (19, wt_Second t)"
    "isASCIIDigit (at b 5)"
    "if micro t = 0 then length b = 19 else length b = 26 \<and> at b 19 = 46 \<and> parseDigits b 20 0 6 = Some (26, micro t)"
    "\<forall>i \<ge> 11. at b i = 0 \<or> isASCIIDigit (at b i) \<or> at b i = 58 \<or> at b i = 46"
    "list_all (\<lambda>c. byte c < 128) b"
proof -
  define Y where "Y = pad_zero 4 (wt_Year t)"
  define M where "M = pad_zero 2 (wt_Month t)"
  define D where "D = pad_zero 2 (wt_Day t)"
  define H where "H = pad_zero 2 (wt_Hour t)"
  define N where "N = pad_zero 2 (wt_Minute t)"
  define S where "S = pad_zero 2 (wt_Second t)"
  define F where "F = (if micro t \<noteq> 0 then CHR ''.'' # pad_zero 6 (micro t) else [])"
  have "0 \<le> wt_Nanosecond t" "wt_Nanosecond t < 1000000000" using t by (simp_all add: digit_fields_def)
  then have us: "0 \<le> micro t" "micro t < 10 ^ 6" unfolding micro_def by (simp_all add: div_less_iff_less_mult)
  have len: "length Y = 4" "length M = 2" "length D = 2" "length H = 2" "length N = 2" "length S = 2" "length (pad_zero 6 (micro t)) = 6"
    and dig: "list_all is_digit Y" "list_all is_digit M" "list_all is_digit D" "list_all is_digit H" "list_all is_digit N" "list_all is_digit S"
      "list_all is_digit (pad_zero 6 (micro t))"
    using t us pad_zero_digits [of "wt_Year t" 4] pad_zero_digits [of "wt_Month t" 2] pad_zero_digits [of "wt_Day t" 2]
      pad_zero_digits [of "wt_Hour t" 2] pad_zero_digits [of "wt_Minute t" 2] pad_zero_digits [of "wt_Second t" 2] pad_zero_digits [of "micro t" 6]
    by (simp_all add: digit_fields_def Y_def M_def D_def H_def N_def S_def)
  have bb: "b = Y @ CHR ''-'' # M @ CHR ''-'' # D @ CHR ''T'' # H @ CHR '':'' # N @ CHR '':'' # S @ F"
    by (simp add: b formatNaive_def date_time_text_def Let_def micro_def F_def Y_def M_def D_def H_def N_def S_def)
  show "parseDigits b 0 0 4 = Some (4, wt_Year t)"
    using parse_field [of b "[]" 4 "wt_Year t" _ 0] bb t by (simp add: Y_def digit_fields_def)
  show "parseDigits b 5 0 2 = Some (7, wt_Month t)"
    using parse_field [of b "Y @ ''-''" 2 "wt_Month t" _ 5] bb len t by (simp add: M_def digit_fields_def)
  show "isASCIIDigit (at b 5)"
    using at_field [of b "Y @ ''-''" 2 "wt_Month t" _ 5] bb len t by (simp add: M_def digit_fields_def)
  show "parseDigits b 8 0 2 = Some (10, wt_Day t)"
    using parse_field [of b "Y @ ''-'' @ M @ ''-''" 2 "wt_Day t" _ 8] bb len t by (simp add: D_def digit_fields_def)
  show "parseDigits b 11 0 2 = Some (13, wt_Hour t)"
    using parse_field [of b "Y @ ''-'' @ M @ ''-'' @ D @ ''T''" 2 "wt_Hour t" _ 11] bb len t by (simp add: H_def digit_fields_def)
  show "parseDigits b 14 0 2 = Some (16, wt_Minute t)"
    using parse_field [of b "Y @ ''-'' @ M @ ''-'' @ D @ ''T'' @ H @ '':''" 2 "wt_Minute t" _ 14] bb len t by (simp add: N_def digit_fields_def)
  show "parseDigits b 17 0 2 = Some (19, wt_Second t)"
    using parse_field [of b "Y @ ''-'' @ M @ ''-'' @ D @ ''T'' @ H @ '':'' @ N @ '':''" 2 "wt_Second t" _ 17] bb len t
    by (simp add: S_def digit_fields_def)
  show "at b 4 = 45" using at_sign [of b Y "CHR ''-''" _ 4] bb len by simp
  show "at b 7 = 45" using at_sign [of b "Y @ ''-'' @ M" "CHR ''-''" _ 7] bb len by simp
  show "at b 10 = 84" using at_sign [of b "Y @ ''-'' @ M @ ''-'' @ D" "CHR ''T''" _ 10] bb len by simp
  show "at b 13 = 58" using at_sign [of b "Y @ ''-'' @ M @ ''-'' @ D @ ''T'' @ H" "CHR '':''" _ 13] bb len by simp
  show "at b 16 = 58" using at_sign [of b "Y @ ''-'' @ M @ ''-'' @ D @ ''T'' @ H @ '':'' @ N" "CHR '':''" _ 16] bb len by simp
  let ?pre = "Y @ ''-'' @ M @ ''-'' @ D @ ''T'' @ H @ '':'' @ N @ '':'' @ S"
  show "if micro t = 0 then length b = 19 else length b = 26 \<and> at b 19 = 46 \<and> parseDigits b 20 0 6 = Some (26, micro t)"
    using at_sign [of b ?pre "CHR ''.''" "pad_zero 6 (micro t)" 19]
      parse_field [of b "?pre @ ''.''" 6 "micro t" "[]" 20] bb len us by (simp add: F_def)
  let ?rest = "H @ CHR '':'' # N @ CHR '':'' # S @ F"
  have c: "is_digit c \<or> c = CHR '':'' \<or> c = CHR ''.''" if "c \<in> set ?rest" for c
    using that dig by (auto simp: F_def list_all_iff split: if_splits)
  have "at b i = 0 \<or> (\<exists>c \<in> set ?rest. at b i = byte c)" if "11 \<le> i" for i
  proof (cases "i < length b")
    case True
    let ?front = "Y @ ''-'' @ M @ ''-'' @ D @ ''T''"
    have f: "b = ?front @ ?rest" "length ?front = 11" using bb len by simp_all
    have "b ! i = ?rest ! (i - 11)" using nth_append_right [of ?front i ?rest] that unfolding f(1,2) [symmetric] by (simp add: f)
    moreover have "i - 11 < length ?rest" using f True that by (metis add_diff_cancel_left' diff_less_mono length_append)
    ultimately have "b ! i = ?rest ! (i - 11)" "i - 11 < length ?rest" by blast+
    then have "b ! i \<in> set ?rest" using nth_mem by metis
    then show ?thesis using True by (auto simp: at_def)
  qed (simp add: at_def)
  then show "\<forall>i \<ge> 11. at b i = 0 \<or> isASCIIDigit (at b i) \<or> at b i = 58 \<or> at b i = 46"
    using c is_digit_ASCII by fastforce
  have "byte c < 128" if "is_digit c" for c using that by (simp add: is_digit_def)
  then show "list_all (\<lambda>c. byte c < 128) b"
    using dig by (auto simp: bb F_def list_all_iff split: if_splits)
qed

lemma written_time:
  assumes "digit_fields t" and b: "b = formatNaive t"
  shows "parseISOFormatTime b 11 = (0, hms_of [wt_Hour t, wt_Minute t, wt_Second t] (micro t), 0, 0)"
proof -
  note p = written_places [OF assms]
  have "11 < length b" using p(13) by (auto split: if_splits)
  moreover have "at b i \<notin> {byte (CHR ''Z''), byte (CHR ''+''), byte (CHR ''-'')}" if "11 \<le> i" for i
    using spec [OF p(14), of i] that by (auto simp: isASCIIDigit_def)
  ultimately have z: "tz_scan b 11 = length b" using tz_scan_none [of 11 b] by blast
  have three: "(3::nat) = Suc (Suc (Suc 0))" by simp
  show ?thesis
  proof (cases "micro t = 0")
    case True
    then have "length b = 19" "at b 19 = 0" using p(13) by (simp_all add: at_def)
    then have "hms_loop b 19 3 11 True [] = Inl (0, [wt_Hour t, wt_Minute t, wt_Second t])"
      unfolding three using p(7-11) by (simp add: Let_def)
    then show ?thesis using z True \<open>length b = 19\<close> by (simp add: parseISOFormatTime_def parseHHMMSSFF_def Let_def)
  next
    case False
    then have l: "length b = 26" "at b 19 = 46" "parseDigits b 20 0 6 = Some (26, micro t)" using p(13) by auto
    then have "hms_loop b 26 3 11 True [] = Inr (20, [wt_Hour t, wt_Minute t, wt_Second t])"
      unfolding three using p(7-11) by (simp add: Let_def)
    moreover have "at b (digit_run b 26) = 0" using l(1) by (simp add: digit_run.simps at_def)
    ultimately show ?thesis using z l by (simp add: parseISOFormatTime_def parseHHMMSSFF_def Let_def)
  qed
qed

lemma daysInMonth_bounds: "1 \<le> m \<Longrightarrow> m \<le> 12 \<Longrightarrow> 28 \<le> daysInMonth y m \<and> daysInMonth y m \<le> 31"
proof -
  assume m: "1 \<le> m" "m \<le> 12"
  have "m = 1 \<or> m = 2 \<or> m = 3 \<or> m = 4 \<or> m = 5 \<or> m = 6 \<or> m = 7 \<or> m = 8 \<or> m = 9 \<or> m = 10 \<or> m = 11 \<or> m = 12"
    using m by presburger
  then show ?thesis by (auto simp: daysInMonth_def)
qed

lemma daysInMonth_December [simp]: "daysInMonth y 12 = 31"
  by (simp add: daysInMonth_def)

lemma daysInMonth_January [simp]: "daysInMonth y 1 = 31"
  by (simp add: daysInMonth_def)

text \<open>Midnight at the end of a day is accepted when the day after it is a date.\<close>

lemma roll_over_midnight:
  assumes "0 \<le> y" "y \<le> 9999" "0 \<le> d" "1 \<le> m" "m \<le> 12" "d \<le> daysInMonth y m"
  shows "\<exists>y' m' d'. roll_over y m d (hms_of [24, 0, 0] 0) = Some (y', m', d', 0) \<and>
    (checkDateArgs y' m' d' \<longleftrightarrow> (y, m, d) \<noteq> (9999, 12, 31) \<and> (1 \<le> y \<or> (m, d) = (12, 31)))"
proof (cases "daysInMonth y m < d + 1")
  case True
  then have d: "d = daysInMonth y m" using assms(6) by simp
  show ?thesis
  proof (cases "m = 12")
    case m: True
    then have "roll_over y m d (hms_of [24, 0, 0] 0) = Some (y + 1, 1, 1, 0)" using d by (simp add: roll_over_def hms_of_def val_def)
    then show ?thesis using assms d m by (auto simp: checkDateArgs_def)
  next
    case m: False
    then have "roll_over y m d (hms_of [24, 0, 0] 0) = Some (y, m + 1, 1, 0)" using assms d by (simp add: roll_over_def hms_of_def val_def)
    then show ?thesis using assms m daysInMonth_bounds [of "m + 1" y] by (auto simp: checkDateArgs_def)
  qed
next
  case False
  then have "roll_over y m d (hms_of [24, 0, 0] 0) = Some (y, m, d + 1, 0)" using assms by (simp add: roll_over_def hms_of_def val_def)
  moreover have "(m, d) \<noteq> (12, 31)" using False by auto
  ultimately show ?thesis using assms False by (auto simp: checkDateArgs_def)
qed

lemma written_times_checks:
  assumes "digit_fields t"
  shows "fromisoformatOK (formatNaive t) \<longleftrightarrow>
    checkDateArgs (wt_Year t) (wt_Month t) (wt_Day t) \<and> checkTimeArgs (wt_Hour t) (wt_Minute t) (wt_Second t) (micro t)
    \<or> wt_Hour t = 24 \<and> wt_Minute t = 0 \<and> wt_Second t = 0 \<and> micro t = 0
      \<and> 1 \<le> wt_Month t \<and> wt_Month t \<le> 12 \<and> wt_Day t \<le> daysInMonth (wt_Year t) (wt_Month t)
      \<and> (wt_Year t, wt_Month t, wt_Day t) \<noteq> (9999, 12, 31)
      \<and> (1 \<le> wt_Year t \<or> (wt_Month t, wt_Day t) = (12, 31))"
proof -
  define b where "b = formatNaive t"
  note p = written_places [OF assms b_def]
  have l: "19 \<le> length b" using p(13) by (auto split: if_splits)
  have "length (runes b) = length b" using runes_ascii [OF p(15)] by simp
  moreover have "findISOFormatDatetimeSeparator b = Some 10"
    using p(2,12) l by (auto simp: findISOFormatDatetimeSeparator_def Let_def isASCIIDigit_def)
  moreover have "parseISOFormatDate b (Some 10) = Inr (wt_Year t, wt_Month t, wt_Day t)"
    using p(1-5,12) by (simp add: parseISOFormatDate_def Let_def isASCIIDigit_def) 
  moreover have "utf8CharLen (at b 10) = 1" using p(6) by (simp add: utf8CharLen_def)
  ultimately have "fromisoformatOK b \<longleftrightarrow>
    (case roll_over (wt_Year t) (wt_Month t) (wt_Day t) (hms_of [wt_Hour t, wt_Minute t, wt_Second t] (micro t)) of
       None \<Rightarrow> False
     | Some (year, month, day, hour) \<Rightarrow> checkDateArgs year month day \<and> checkTimeArgs hour (wt_Minute t) (wt_Second t) (micro t))"
    using written_time [OF assms b_def] l
    by (simp add: fromisoformatOK_def hms_of_def val_def split: option.split)
  note ok = this [unfolded b_def]
  have f: "0 \<le> wt_Year t" "wt_Year t \<le> 9999" "0 \<le> wt_Day t" using assms by (simp_all add: digit_fields_def)
  let ?in = "1 \<le> wt_Month t \<and> wt_Month t \<le> 12 \<and> wt_Day t \<le> daysInMonth (wt_Year t) (wt_Month t)"
  show ?thesis
  proof (cases "wt_Hour t = 24")
    case False
    then show ?thesis using ok by (simp add: roll_over_def hms_of_def val_def)
  next
    case h: True
    show ?thesis
    proof (cases "?in \<and> wt_Minute t = 0 \<and> wt_Second t = 0 \<and> micro t = 0")
      case True
      then have "checkTimeArgs 0 (wt_Minute t) (wt_Second t) (micro t)" "\<not> checkTimeArgs (wt_Hour t) (wt_Minute t) (wt_Second t) (micro t)"
        using h by (simp_all add: checkTimeArgs_def)
      then show ?thesis
        using ok h True roll_over_midnight [of "wt_Year t" "wt_Day t" "wt_Month t"] f by auto
    next
      case False
      then show ?thesis using ok h by (auto simp: roll_over_def hms_of_def val_def checkTimeArgs_def split: if_splits)
    qed
  qed
qed

text \<open>
  C24. The times that sessions write are the times Python reads: of the texts of this form, whatever
  digits they have, exactly those are accepted that name a day of the years 1 to 9999 and a time of that
  day, or midnight written as hour 24. There the day is the one before: the last day of 9999 has no such
  midnight, and the days that precede a month or the year 1 are taken too.
\<close>

theorem written_times_accepted:
  assumes "digit_fields t"
  shows "fromisoformatOK (formatNaive t) \<longleftrightarrow>
    1 \<le> wt_Month t \<and> wt_Month t \<le> 12 \<and> wt_Day t \<le> daysInMonth (wt_Year t) (wt_Month t)
    \<and> (1 \<le> wt_Year t \<and> 1 \<le> wt_Day t \<and> wt_Hour t \<le> 23 \<and> wt_Minute t \<le> 59 \<and> wt_Second t \<le> 59
       \<or> wt_Hour t = 24 \<and> wt_Minute t = 0 \<and> wt_Second t = 0 \<and> wt_Nanosecond t < 1000
         \<and> (wt_Year t, wt_Month t, wt_Day t) \<noteq> (9999, 12, 31)
         \<and> (1 \<le> wt_Year t \<or> (wt_Month t, wt_Day t) = (12, 31)))"
proof -
  have m: "0 \<le> micro t" "micro t \<le> 999999" "micro t = 0 \<longleftrightarrow> wt_Nanosecond t < 1000"
    using assms by (auto simp: digit_fields_def micro_def)
  have d: "checkDateArgs (wt_Year t) (wt_Month t) (wt_Day t) \<longleftrightarrow> 1 \<le> wt_Year t \<and> 1 \<le> wt_Month t \<and> wt_Month t \<le> 12
      \<and> 1 \<le> wt_Day t \<and> wt_Day t \<le> daysInMonth (wt_Year t) (wt_Month t)"
    using assms by (auto simp: checkDateArgs_def digit_fields_def)
  have "checkTimeArgs (wt_Hour t) (wt_Minute t) (wt_Second t) (micro t) \<longleftrightarrow> wt_Hour t \<le> 23 \<and> wt_Minute t \<le> 59 \<and> wt_Second t \<le> 59"
    using assms m(1,2) by (auto simp: checkTimeArgs_def digit_fields_def)
  with written_times_checks [OF assms] d m(3) show ?thesis by auto
qed

theorem written_times_accepted_witness:
  "fromisoformatOK (formatNaive \<lparr>wt_Year = 2024, wt_Month = 2, wt_Day = 29, wt_Hour = 7, wt_Minute = 5, wt_Second = 0, wt_Nanosecond = 1500000\<rparr>)
   \<and> \<not> fromisoformatOK (formatNaive \<lparr>wt_Year = 2023, wt_Month = 2, wt_Day = 29, wt_Hour = 7, wt_Minute = 5, wt_Second = 0, wt_Nanosecond = 0\<rparr>)"
proof -
  let ?t = "\<lambda>y. \<lparr>wt_Year = y, wt_Month = 2, wt_Day = 29, wt_Hour = 7, wt_Minute = 5, wt_Second = 0, wt_Nanosecond = 1500000\<rparr>"
  let ?u = "\<lparr>wt_Year = 2023, wt_Month = 2, wt_Day = 29, wt_Hour = 7, wt_Minute = 5, wt_Second = 0, wt_Nanosecond = 0\<rparr>"
  have "digit_fields (?t 2024)" "digit_fields ?u" by (simp_all add: digit_fields_def)
  from written_times_accepted [OF this(1)] written_times_accepted [OF this(2)]
  show ?thesis by (simp add: daysInMonth_def isLeap_def)
qed

end
