(* ===== verification/Session_Transient.thy ===== *)
theory Session_Transient
  imports Session_Time Messages "HOL-Library.AList" "HOL-Library.Multiset"
begin

text \<open>
  Temporary chats, \<^verbatim>\<open>internal/session/transient.go\<close>. The store is the list of its entries; the order in
  which a loop visits a Go map is a parameter \<open>iter\<close>, any permutation. Every reading of the clock is an
  argument, in nanoseconds. A session is a value; the lock of each session makes its methods single steps.
\<close>

section \<open>Sessions\<close>

record TransientSession =
  ts_key :: string
  ts_messages :: "Message list"
  ts_meta :: "(string \<times> json) list"
  ts_updatedAt :: int
  ts_lastArchived :: int

text \<open>Wall clock and zone offset of an instant.\<close>

record clock_env =
  ce_Wall :: "int \<Rightarrow> wall_time"
  ce_Offset :: "int \<Rightarrow> int"

text \<open>\<^verbatim>\<open>Format(time.RFC3339)\<close>.\<close>

definition RFC3339 :: "clock_env \<Rightarrow> int \<Rightarrow> string" where
  "RFC3339 env t =
     date_time_text (ce_Wall env t) @ (if ce_Offset env t = 0 then ''Z'' else formatOffset (ce_Offset env t))"

definition ts_AddMessage :: "clock_env \<Rightarrow> int \<Rightarrow> int \<Rightarrow> Message \<Rightarrow> TransientSession \<Rightarrow> TransientSession" where
  "ts_AddMessage env now1 now2 m s =
     (let m = (if Timestamp m = [] then m\<lparr>Timestamp := formatNaive (ce_Wall env now1)\<rparr> else m)
      in s\<lparr>ts_messages := ts_messages s @ [m], ts_updatedAt := now2\<rparr>)"

text \<open>Each message with its two readings of the clock.\<close>

definition ts_AppendMessagesDurable :: "clock_env \<Rightarrow> (Message \<times> int \<times> int) list \<Rightarrow> TransientSession \<Rightarrow> TransientSession" where
  "ts_AppendMessagesDurable env ms s = foldl (\<lambda>s (m, now1, now2). ts_AddMessage env now1 now2 m s) s ms"

definition ts_Clear :: "int \<Rightarrow> TransientSession \<Rightarrow> TransientSession" where
  "ts_Clear now s = s\<lparr>ts_messages := [], ts_meta := [], ts_lastArchived := 0, ts_updatedAt := now\<rparr>"

definition ts_SetMessage :: "int \<Rightarrow> Message \<Rightarrow> TransientSession \<Rightarrow> TransientSession" where
  "ts_SetMessage i m s =
     (if 0 \<le> i \<and> i < int (length (ts_messages s)) then s\<lparr>ts_messages := (ts_messages s)[nat i := m]\<rparr> else s)"

definition ts_touch :: "int \<Rightarrow> TransientSession \<Rightarrow> TransientSession" where
  "ts_touch now s = s\<lparr>ts_updatedAt := now\<rparr>"

definition ts_GetHistory :: "int \<Rightarrow> TransientSession \<Rightarrow> Message list" where
  "ts_GetHistory maxMessages s =
     (let start = ts_lastArchived s;
          start = (if start < 0 \<or> int (length (ts_messages s)) < start then 0 else start);
          out = drop (nat start) (ts_messages s)
      in if 0 < maxMessages \<and> maxMessages < int (length out) then drop (length out - nat maxMessages) out else out)"

definition SummaryContinuationText :: string where
  "SummaryContinuationText = ''Continue the active task from the working-memory checkpoint above.''"

definition HiddenHistoryMeta :: string where "HiddenHistoryMeta = ''_hidden_history''"
definition LastSummaryMetaKey :: string where "LastSummaryMetaKey = ''_last_summary''"

definition summary_marker :: Message where
  "summary_marker = (NewMessage RoleUser SummaryContinuationText)\<lparr>extra := [(HiddenHistoryMeta, ''true'')]\<rparr>"

text \<open>The index of \<^verbatim>\<open>list.insert\<close>: from the end when negative, and within the list.\<close>

definition insert_index :: "int \<Rightarrow> nat \<Rightarrow> nat" where
  "insert_index i n =
     (let i = (if i < 0 then (if i + int n < 0 then 0 else i + int n) else i)
      in if int n < i then n else nat i)"

definition ts_CommitSummaryCheckpoint ::
  "clock_env \<Rightarrow> int \<Rightarrow> string \<Rightarrow> int option \<Rightarrow> int option \<Rightarrow> TransientSession \<Rightarrow> TransientSession" where
  "ts_CommitSummaryCheckpoint env now summary insertAt lastActive s =
     (let n = length (ts_messages s);
          boundary = (case insertAt of None \<Rightarrow> int n | Some i \<Rightarrow> i);
          idx = insert_index boundary n;
          messages = (if n \<le> idx then ts_messages s @ [summary_marker]
                      else (take (idx + 1) (ts_messages s) @ drop idx (ts_messages s))[idx := summary_marker]);
          active = (case lastActive of None \<Rightarrow> ts_updatedAt s | Some a \<Rightarrow> a)
      in s\<lparr>ts_messages := messages,
           ts_meta := AList.update LastSummaryMetaKey
             (JObject [(''text'', JString summary), (''last_active'', JString (RFC3339 env active))]) (ts_meta s),
           ts_lastArchived := boundary, ts_updatedAt := now\<rparr>)"

section \<open>The store\<close>

type_synonym tstore = "(string \<times> TransientSession) list"

definition IsTransientKey :: "string \<Rightarrow> bool" where
  "IsTransientKey key \<longleftrightarrow> take 10 key = ''webui:tmp_''"

definition transientTTL :: int where "transientTTL = 6 * 3600 * 1000000000"
definition maxTransientSessions :: nat where "maxTransientSessions = 64"

definition expire :: "int \<Rightarrow> string \<Rightarrow> tstore \<Rightarrow> tstore" where
  "expire now keep ss = filter (\<lambda>(k, v). k = keep \<or> \<not> transientTTL < now - ts_updatedAt v) ss"

text \<open>The key of the longest unused session; the empty key stands for none yet.\<close>

fun oldest_loop :: "string \<Rightarrow> string \<Rightarrow> int \<Rightarrow> tstore \<Rightarrow> string" where
  "oldest_loop keep oldestKey oldest [] = oldestKey"
| "oldest_loop keep oldestKey oldest ((k, v) # ss) =
     (if k = keep then oldest_loop keep oldestKey oldest ss
      else if oldestKey = [] \<or> ts_updatedAt v < oldest then oldest_loop keep k (ts_updatedAt v) ss
      else oldest_loop keep oldestKey oldest ss)"

text \<open>
  The loop deletes an entry in every pass, or ends. The key that is found is one of the map, so that the
  second part of the test never decides.
\<close>

function evict_loop :: "(tstore \<Rightarrow> tstore) \<Rightarrow> string \<Rightarrow> tstore \<Rightarrow> tstore" where
  "evict_loop iter keep ss =
     (if length ss < maxTransientSessions then ss
      else
        let oldestKey = oldest_loop keep [] 0 (iter ss) in
        if oldestKey = [] \<or> oldestKey \<notin> fst ` set ss then ss
        else evict_loop iter keep (filter (\<lambda>e. fst e \<noteq> oldestKey) ss))"
  by pat_completeness auto
termination
  by (relation "measure (\<lambda>(iter, keep, ss). length ss)") (auto intro!: length_filter_less)

declare evict_loop.simps [simp del]

definition evictLocked :: "(tstore \<Rightarrow> tstore) \<Rightarrow> int \<Rightarrow> string \<Rightarrow> tstore \<Rightarrow> tstore" where
  "evictLocked iter now keep ss = evict_loop iter keep (expire now keep ss)"

definition TransientStore_Open ::
  "(tstore \<Rightarrow> tstore) \<Rightarrow> int \<Rightarrow> int \<Rightarrow> string \<Rightarrow> tstore \<Rightarrow> TransientSession \<times> tstore" where
  "TransientStore_Open iter now1 now2 key ss =
     (let ss = evictLocked iter now1 key ss in
      case map_of ss key of
        Some v \<Rightarrow> let v = ts_touch now2 v in (v, AList.update key v ss)
      | None \<Rightarrow>
          let v = \<lparr>ts_key = key, ts_messages = [], ts_meta = [], ts_updatedAt = now2, ts_lastArchived = 0\<rparr>
          in (v, AList.update key v ss))"

definition TransientStore_Delete :: "string \<Rightarrow> tstore \<Rightarrow> tstore" where
  "TransientStore_Delete key ss = filter (\<lambda>e. fst e \<noteq> key) ss"

definition TransientStore_Count :: "(tstore \<Rightarrow> tstore) \<Rightarrow> int \<Rightarrow> tstore \<Rightarrow> nat \<times> tstore" where
  "TransientStore_Count iter now ss = (let ss = evictLocked iter now [] ss in (length ss, ss))"

section \<open>What is evicted\<close>

text \<open>\<open>k\<close>, last used at \<open>t\<close>, is not the session to keep and no other one has been unused for longer.\<close>

definition longest_unused :: "string \<Rightarrow> tstore \<Rightarrow> string \<Rightarrow> int \<Rightarrow> bool" where
  "longest_unused keep xs k t \<longleftrightarrow>
     k \<noteq> keep \<and> (\<exists>v. (k, v) \<in> set xs \<and> ts_updatedAt v = t) \<and> (\<forall>e \<in> set xs. fst e \<noteq> keep \<longrightarrow> t \<le> ts_updatedAt (snd e))"

lemma longest_unused_snoc:
  assumes "longest_unused keep ys k t"
  shows "k' \<noteq> keep \<Longrightarrow> ts_updatedAt v < t \<Longrightarrow> longest_unused keep (ys @ [(k', v)]) k' (ts_updatedAt v)"
    and "k' = keep \<or> t \<le> ts_updatedAt v \<Longrightarrow> longest_unused keep (ys @ [(k', v)]) k t"
  using assms by (auto simp: longest_unused_def)

lemma oldest_loop_from:
  "k0 \<noteq> [] \<Longrightarrow> [] \<notin> fst ` set xs \<Longrightarrow> longest_unused keep ys k0 t0 \<Longrightarrow>
   \<exists>t. longest_unused keep (ys @ xs) (oldest_loop keep k0 t0 xs) t \<and> oldest_loop keep k0 t0 xs \<noteq> []"
proof (induction xs arbitrary: ys k0 t0)
  case (Cons e xs)
  obtain k v where e: "e = (k, v)" by fastforce
  have n: "[] \<notin> fst ` set xs" "k \<noteq> []" using Cons.prems e by auto
  show ?case
  proof (cases "k \<noteq> keep \<and> ts_updatedAt v < t0")
    case True
    then show ?thesis
      using Cons.IH [OF n(2,1) longest_unused_snoc(1) [OF Cons.prems(3), of k v]] e Cons.prems(1) by simp
  next
    case False
    then have "k = keep \<or> t0 \<le> ts_updatedAt v" by auto
    from Cons.IH [OF Cons.prems(1) n(1) longest_unused_snoc(2) [OF Cons.prems(3) this]]
    show ?thesis using e Cons.prems(1) False by auto
  qed
qed auto

lemma oldest_loop_least:
  "[] \<notin> fst ` set xs \<Longrightarrow>
   if oldest_loop keep [] 0 xs = [] then \<forall>e \<in> set xs. fst e = keep else \<exists>t. longest_unused keep xs (oldest_loop keep [] 0 xs) t"
proof (induction xs)
  case (Cons e xs)
  obtain k v where e: "e = (k, v)" by fastforce
  have n: "[] \<notin> fst ` set xs" "k \<noteq> []" using Cons.prems e by auto
  show ?case
  proof (cases "k = keep")
    case True
    then show ?thesis using Cons.IH [OF n(1)] e by (auto simp: longest_unused_def split: if_splits)
  next
    case False
    have "longest_unused keep [(k, v)] k (ts_updatedAt v)" using False by (simp add: longest_unused_def)
    then show ?thesis using oldest_loop_from [OF n(2,1), of keep "[(k, v)]" "ts_updatedAt v"] False e by auto
  qed
qed simp

definition any_order :: "(tstore \<Rightarrow> tstore) \<Rightarrow> bool" where
  "any_order iter \<longleftrightarrow> (\<forall>xs. mset (iter xs) = mset xs)"

lemma any_order_set: "any_order iter \<Longrightarrow> set (iter xs) = set xs"
  by (metis any_order_def set_mset_mset)

text \<open>One pass over a full store.\<close>

lemma evict_pass:
  assumes "any_order iter" "[] \<notin> fst ` set ss" "maxTransientSessions \<le> length ss"
  obtains (stop) "evict_loop iter keep ss = ss" "\<forall>e \<in> set ss. fst e = keep"
  | (pass) k t where "longest_unused keep ss k t" "evict_loop iter keep ss = evict_loop iter keep (filter (\<lambda>e. fst e \<noteq> k) ss)"
proof -
  have s: "set (iter ss) = set ss" by (rule any_order_set [OF assms(1)])
  define k where "k = oldest_loop keep [] 0 (iter ss)"
  have l: "if k = [] then \<forall>e \<in> set ss. fst e = keep else \<exists>t. longest_unused keep ss k t"
    using oldest_loop_least [of "iter ss" keep] assms(2) unfolding k_def longest_unused_def s by simp
  show thesis
  proof (cases "k = []")
    case True
    then have "evict_loop iter keep ss = ss" using assms(3) by (subst evict_loop.simps) (simp add: k_def)
    then show thesis using l True stop by simp
  next
    case False
    then obtain t where t: "longest_unused keep ss k t" using l by auto
    then have "k \<in> fst ` set ss" by (force simp: longest_unused_def)
    then have "evict_loop iter keep ss = evict_loop iter keep (filter (\<lambda>e. fst e \<noteq> k) ss)"
      using assms(3) False by (subst evict_loop.simps) (simp add: k_def [symmetric] Let_def)
    then show thesis using t pass by blast
  qed
qed

text \<open>The sessions that are left, against those there were.\<close>

definition evicted_well :: "string \<Rightarrow> tstore \<Rightarrow> tstore \<Rightarrow> bool" where
  "evicted_well keep ss r \<longleftrightarrow>
     set r \<subseteq> set ss \<and> (\<forall>e \<in> set ss. fst e = keep \<longrightarrow> e \<in> set r)
     \<and> (\<forall>e \<in> set ss - set r. \<forall>f \<in> set r. fst f \<noteq> keep \<longrightarrow> ts_updatedAt (snd e) \<le> ts_updatedAt (snd f))"

lemma evicted_well_pass:
  assumes "longest_unused keep ss k t" "distinct (map fst ss)" "evicted_well keep (filter (\<lambda>e. fst e \<noteq> k) ss) r"
  shows "evicted_well keep ss r"
proof -
  have k: "k \<noteq> keep" "\<forall>e \<in> set ss. fst e \<noteq> keep \<longrightarrow> t \<le> ts_updatedAt (snd e)" using assms(1) by (auto simp: longest_unused_def)
  obtain v where v: "(k, v) \<in> set ss" "ts_updatedAt v = t" using assms(1) by (auto simp: longest_unused_def)
  have u: "ts_updatedAt (snd e) = t" if "e \<in> set ss" "fst e = k" for e
    using that v assms(2) eq_key_imp_eq_value [of ss k "snd e" v] by (cases e) auto
  have sub: "set r \<subseteq> set ss" using assms(3) by (auto simp: evicted_well_def)
  have "ts_updatedAt (snd e) \<le> ts_updatedAt (snd f)" if "e \<in> set ss - set r" "f \<in> set r" "fst f \<noteq> keep" for e f
  proof (cases "fst e = k")
    case True
    then show ?thesis using that u [of e] k(2) sub by auto
  next
    case False
    then show ?thesis using that assms(3) by (auto simp: evicted_well_def)
  qed
  then show ?thesis using assms(3) k(1) sub by (auto simp: evicted_well_def)
qed

lemma evict_loop_keeps:
  assumes "any_order iter"
  shows "[] \<notin> fst ` set ss \<Longrightarrow> distinct (map fst ss) \<Longrightarrow>
    evicted_well keep ss (evict_loop iter keep ss) \<and> distinct (map fst (evict_loop iter keep ss))
    \<and> (length (evict_loop iter keep ss) < maxTransientSessions \<or> (\<forall>e \<in> set (evict_loop iter keep ss). fst e = keep))"
proof (induction "length ss" arbitrary: ss rule: less_induct)
  case less
  show ?case
  proof (cases "length ss < maxTransientSessions")
    case True
    then have "evict_loop iter keep ss = ss" by (subst evict_loop.simps) simp
    then show ?thesis using True less.prems by (simp add: evicted_well_def)
  next
    case False
    then have full: "maxTransientSessions \<le> length ss" by simp
    from assms less.prems(1) full show ?thesis
    proof (cases rule: evict_pass [of iter ss keep])
      case stop
      then show ?thesis using less.prems by (simp add: evicted_well_def)
    next
      case (pass k t)
      let ?ss = "filter (\<lambda>e. fst e \<noteq> k) ss"
      have len: "length ?ss < length ss" using pass(1) by (auto simp: longest_unused_def intro!: length_filter_less)
      have pre: "[] \<notin> fst ` set ?ss" "distinct (map fst ?ss)" using less.prems by (auto simp: distinct_map inj_on_def)
      note ih = less.hyps [OF len pre]
      then show ?thesis using evicted_well_pass [OF pass(1) less.prems(2)] unfolding pass(2) by blast
    qed
  qed
qed

section \<open>The bound of the store\<close>

text \<open>A store as the operations leave it: one entry for a key, and no empty key.\<close>

definition good_store :: "tstore \<Rightarrow> bool" where
  "good_store ss \<longleftrightarrow> distinct (map fst ss) \<and> [] \<notin> fst ` set ss"

definition new_session :: "string \<Rightarrow> int \<Rightarrow> TransientSession" where
  "new_session key now = \<lparr>ts_key = key, ts_messages = [], ts_meta = [], ts_updatedAt = now, ts_lastArchived = 0\<rparr>"

lemma evictLocked_keeps:
  assumes "any_order iter" "good_store ss"
  shows "evicted_well keep (expire now keep ss) (evictLocked iter now keep ss)" "good_store (evictLocked iter now keep ss)"
    "length (evictLocked iter now keep ss) < maxTransientSessions \<or> (\<forall>e \<in> set (evictLocked iter now keep ss). fst e = keep)"
proof -
  have "[] \<notin> fst ` set (expire now keep ss)" "distinct (map fst (expire now keep ss))"
    using assms(2) by (auto simp: good_store_def expire_def distinct_map inj_on_def)
  from evict_loop_keeps [OF assms(1) this, of keep] this(1)
  show "evicted_well keep (expire now keep ss) (evictLocked iter now keep ss)" "good_store (evictLocked iter now keep ss)"
    "length (evictLocked iter now keep ss) < maxTransientSessions \<or> (\<forall>e \<in> set (evictLocked iter now keep ss). fst e = keep)"
    by (auto simp: evictLocked_def good_store_def evicted_well_def)
qed

lemma one_key_short: "distinct (map fst ss) \<Longrightarrow> \<forall>e \<in> set ss. fst e = k \<Longrightarrow> length ss \<le> 1"
  by (cases ss; cases "tl ss") auto

lemma evictLocked_key:
  assumes "any_order iter" "good_store ss"
  shows "map_of (evictLocked iter now keep ss) keep = map_of ss keep"
proof -
  let ?r = "evictLocked iter now keep ss"
  note k = evictLocked_keeps [OF assms, where keep = keep and now = now]
  have d: "distinct (map fst ss)" "distinct (map fst ?r)" using assms(2) k(2) by (simp_all add: good_store_def)
  have "(keep, v) \<in> set ?r \<longleftrightarrow> (keep, v) \<in> set ss" for v
    using k(1) by (auto simp: evicted_well_def expire_def)
  then show ?thesis using map_of_eq_Some_iff [OF d(1)] map_of_eq_Some_iff [OF d(2)] by (metis not_None_eq)
qed

lemma Open_result:
  assumes "any_order iter" "good_store ss" "TransientStore_Open iter now1 now2 key ss = (v, ss')"
  shows "v = (case map_of ss key of None \<Rightarrow> new_session key now2 | Some u \<Rightarrow> ts_touch now2 u)"
    "ss' = AList.update key v (evictLocked iter now1 key ss)"
  using assms(3) evictLocked_key [OF assms(1,2), of now1 key]
  by (auto simp: TransientStore_Open_def Let_def new_session_def split: option.splits)

lemma update_length: "length (AList.update k v xs) = (if k \<in> fst ` set xs then length xs else Suc (length xs))"
  by (induction xs) auto

lemma update_other: "k' \<noteq> k \<Longrightarrow> (k', u) \<in> set (AList.update k v xs) \<longleftrightarrow> (k', u) \<in> set xs"
  by (induction xs) auto

text \<open>
  C37. Temporary chats stay bounded: however Go orders the map, opening one leaves at most 64. The chat
  that is opened is the one that was there, or a new one; no other chat is changed, and one that is
  dropped was idle for more than six hours or unused at least as long as every other one that stays.
\<close>

theorem transient_open_bounded:
  assumes "any_order iter" "good_store ss" "key \<noteq> []" and "TransientStore_Open iter now1 now2 key ss = (v, ss')"
  shows "length ss' \<le> maxTransientSessions \<and> good_store ss' \<and> map_of ss' key = Some v
    \<and> v = (case map_of ss key of None \<Rightarrow> new_session key now2 | Some u \<Rightarrow> ts_touch now2 u)
    \<and> (\<forall>k u. k \<noteq> key \<longrightarrow> (k, u) \<in> set ss' \<longrightarrow> (k, u) \<in> set ss)
    \<and> (\<forall>k u. k \<noteq> key \<longrightarrow> (k, u) \<in> set ss - set ss' \<longrightarrow> transientTTL < now1 - ts_updatedAt u
          \<or> (\<forall>k' u'. k' \<noteq> key \<longrightarrow> (k', u') \<in> set ss' \<longrightarrow> ts_updatedAt u \<le> ts_updatedAt u'))"
proof (intro conjI allI impI)
  let ?r = "evictLocked iter now1 key ss"
  note res = Open_result [OF assms(1,2,4)] and k = evictLocked_keeps [OF assms(1,2), where keep = key and now = now1]
  show "v = (case map_of ss key of None \<Rightarrow> new_session key now2 | Some u \<Rightarrow> ts_touch now2 u)" by (rule res(1))
  show "map_of ss' key = Some v" by (simp add: res(2) update_conv)
  show "good_store ss'"
    using k(2) assms(3) by (auto simp: good_store_def res(2) distinct_update dom_update)
  have "length ?r \<le> 1" if "\<forall>e \<in> set ?r. fst e = key" using one_key_short [OF _ that] k(2) by (simp add: good_store_def)
  then show "length ss' \<le> maxTransientSessions"
    using k(3) by (auto simp: res(2) update_length maxTransientSessions_def)
  fix l u
  assume l: "l \<noteq> key"
  show "(l, u) \<in> set ss" if "(l, u) \<in> set ss'"
    using that k(1) l by (auto simp: res(2) update_other evicted_well_def expire_def)
  assume "(l, u) \<in> set ss - set ss'"
  then have lu: "(l, u) \<in> set ss" "(l, u) \<notin> set ?r" using l by (auto simp: res(2) update_other)
  show "transientTTL < now1 - ts_updatedAt u \<or> (\<forall>k' u'. k' \<noteq> key \<longrightarrow> (k', u') \<in> set ss' \<longrightarrow> ts_updatedAt u \<le> ts_updatedAt u')"
  proof (cases "transientTTL < now1 - ts_updatedAt u")
    case False
    then have e: "(l, u) \<in> set (expire now1 key ss) - set ?r" using lu by (simp add: expire_def)
    have "ts_updatedAt u \<le> ts_updatedAt u'" if "k' \<noteq> key" "(k', u') \<in> set ss'" for k' u'
      using k(1) e that unfolding evicted_well_def res(2) update_other [OF that(1)] by (metis fst_conv snd_conv)
    then show ?thesis by blast
  qed simp
qed

theorem transient_open_bounded_witness:
  "let (v, ss') = TransientStore_Open id 0 5 ''webui:tmp_2'' [(''webui:tmp_1'', new_session ''webui:tmp_1'' 0)]
   in v = new_session ''webui:tmp_2'' 5 \<and> length ss' = 2"
proof -
  let ?ss = "[(''webui:tmp_1'', new_session ''webui:tmp_1'' 0)]"
  have pre: "any_order id" "good_store ?ss" "''webui:tmp_2'' \<noteq> []" by (simp_all add: any_order_def good_store_def)
  have "fst (TransientStore_Open id 0 5 ''webui:tmp_2'' ?ss) = new_session ''webui:tmp_2'' 5"
    using transient_open_bounded [OF pre surjective_pairing [of "TransientStore_Open id 0 5 ''webui:tmp_2'' ?ss"]] by simp
  then show ?thesis
    by (simp add: TransientStore_Open_def evictLocked_def expire_def evict_loop.simps maxTransientSessions_def transientTTL_def
        new_session_def Let_def)
qed

text \<open>
  Counting evicts as well: of a full store without idle sessions a session is dropped by being counted,
  and opening a session that is there drops another one.
\<close>

lemma full_store_pass:
  assumes "any_order iter" "good_store ss" "length ss = maxTransientSessions" "\<forall>e \<in> set ss. now - ts_updatedAt (snd e) \<le> transientTTL"
  shows "length (evictLocked iter now keep ss) = maxTransientSessions - 1"
proof -
  have ex: "expire now keep ss = ss" using assms(4) by (auto simp: expire_def not_less filter_id_conv)
  have d: "[] \<notin> fst ` set ss" "distinct (map fst ss)" using assms(2) by (simp_all add: good_store_def)
  have full: "maxTransientSessions \<le> length ss" using assms(3) by simp
  from assms(1) d(1) full show ?thesis
  proof (cases rule: evict_pass [of iter ss keep])
    case stop
    then show ?thesis using one_key_short [OF d(2)] assms(3) by (auto simp: maxTransientSessions_def)
  next
    case (pass k t)
    then obtain v where v: "(k, v) \<in> set ss" by (auto simp: longest_unused_def)
    have "length (filter (\<lambda>e. fst e \<noteq> k) ss) = length (filter (\<lambda>l. l \<noteq> k) (map fst ss))" by (simp add: filter_map comp_def)
    also have "\<dots> = length (remove1 k (map fst ss))" using d(2) by (simp add: distinct_remove1_removeAll removeAll_filter_not_eq eq_commute)
    also have "\<dots> = maxTransientSessions - 1" using v assms(3) by (force simp: length_remove1)
    finally have l: "length (filter (\<lambda>e. fst e \<noteq> k) ss) = maxTransientSessions - 1" .
    then have "evict_loop iter keep (filter (\<lambda>e. fst e \<noteq> k) ss) = filter (\<lambda>e. fst e \<noteq> k) ss"
      by (subst evict_loop.simps) (simp add: maxTransientSessions_def)
    then show ?thesis using l pass(2) ex by (simp add: evictLocked_def)
  qed
qed

lemma counting_drops:
  assumes "any_order iter" "good_store ss" "length ss = maxTransientSessions" "\<forall>e \<in> set ss. now - ts_updatedAt (snd e) \<le> transientTTL"
  shows "fst (TransientStore_Count iter now ss) = maxTransientSessions - 1"
  using full_store_pass [OF assms] by (simp add: TransientStore_Count_def Let_def)

end
