(* ===== verification/Session_History.thy ===== *)
theory Session_History
  imports Session_Transient Governance_Proofs Json_Codec
begin

text \<open>
  Which part of a session is replayed: the markers of \<^verbatim>\<open>internal/session/history_visibility.go\<close> and
  \<^verbatim>\<open>summary.go\<close>, and of \<^verbatim>\<open>history.go\<close> the choice of the recent messages, the trimming to a token budget
  and the cleaning of an assistant's text. The values under a message's unknown keys are raw JSON.
\<close>

section \<open>Markers\<close>

definition AutomationHistoryMeta :: string where "AutomationHistoryMeta = ''_automation_turn''"
definition CronHistoryMeta :: string where "CronHistoryMeta = ''_cron_turn''"
definition ChannelDeliveryMeta :: string where "ChannelDeliveryMeta = ''_channel_delivery''"

definition markerIsTrueOrMapping :: "Message \<Rightarrow> string \<Rightarrow> bool" where
  "markerIsTrueOrMapping m key \<longleftrightarrow>
     (case map_of (extra m) key of
        None \<Rightarrow> False
      | Some raw \<Rightarrow> let trimmed = TrimSpace raw in trimmed \<noteq> [] \<and> (hd trimmed = CHR ''{'' \<or> trimmed = ''true''))"

definition markerIsTrue :: "Message \<Rightarrow> string \<Rightarrow> bool" where
  "markerIsTrue m key \<longleftrightarrow> (case map_of (extra m) key of None \<Rightarrow> False | Some raw \<Rightarrow> TrimSpace raw = ''true'')"

definition hasHiddenHistoryMarker :: "Message \<Rightarrow> bool" where
  "hasHiddenHistoryMarker m \<longleftrightarrow> markerIsTrueOrMapping m HiddenHistoryMeta"

definition isAutomationHistoryMessage :: "Message \<Rightarrow> bool" where
  "isAutomationHistoryMessage m \<longleftrightarrow> markerIsTrueOrMapping m AutomationHistoryMeta \<or> markerIsTrue m CronHistoryMeta"

definition IsHiddenHistoryMessage :: "Message \<Rightarrow> bool" where
  "IsHiddenHistoryMessage m \<longleftrightarrow> hasHiddenHistoryMarker m \<or> isAutomationHistoryMessage m"

definition IsSummaryCheckpoint :: "Message \<Rightarrow> bool" where
  "IsSummaryCheckpoint m \<longleftrightarrow>
     IsHiddenHistoryMessage m \<and> ct_isText (Content m) \<and> ct_Text (Content m) = SummaryContinuationText"

text \<open>Python's truth of a raw JSON value; text that cannot be read counts as true.\<close>

definition raw_truthy :: "string \<Rightarrow> bool" where
  "raw_truthy raw =
     (let trimmed = TrimSpace raw;
          v = decodeJSONValue (2 * length trimmed + 2) trimmed
      in if trimmed = [] then False
         else if hd trimmed = CHR ''n'' then False
         else if hd trimmed = CHR ''t'' then True
         else if hd trimmed = CHR ''f'' then False
         else if hd trimmed = quote_char then (case v of Some (JString s, []) \<Rightarrow> s \<noteq> [] | _ \<Rightarrow> True)
         else if hd trimmed = CHR ''['' then (case v of Some (JArray vs, _) \<Rightarrow> vs \<noteq> [] | _ \<Rightarrow> True)
         else if hd trimmed = CHR ''{'' then (case v of Some (JObject ms, _) \<Rightarrow> ms \<noteq> [] | _ \<Rightarrow> True)
         else (case v of
                 Some (JNumber n, []) \<Rightarrow> (case ParseFloat n of Some (FZero _) \<Rightarrow> False | _ \<Rightarrow> True)
               | _ \<Rightarrow> True))"

definition markerTruthy :: "Message \<Rightarrow> string \<Rightarrow> bool" where
  "markerTruthy m key \<longleftrightarrow> (case map_of (extra m) key of None \<Rightarrow> False | Some raw \<Rightarrow> raw_truthy raw)"

section \<open>Recent messages\<close>

definition pySliceStart :: "int \<Rightarrow> nat \<Rightarrow> nat" where
  "pySliceStart i n =
     (let i = (if i < 0 then (if i + int n < 0 then 0 else i + int n) else i)
      in if int n < i then n else nat i)"

text \<open>The last user message below \<open>i\<close>: the loop runs down.\<close>

fun user_before :: "Message list \<Rightarrow> nat \<Rightarrow> nat option" where
  "user_before messages 0 = None"
| "user_before messages (Suc i) = (if Role (messages ! i) = RoleUser then Some i else user_before messages i)"

definition recentMessageStartIndex :: "Message list \<Rightarrow> int \<Rightarrow> bool \<Rightarrow> nat" where
  "recentMessageStartIndex messages maxMessages extendToUser =
     (if maxMessages \<le> 0 then length messages
      else
        let startIdx = length messages - nat maxMessages in
        if \<not> extendToUser \<or> int (length messages) \<le> maxMessages then startIdx
        else if list_ex (\<lambda>m. Role m = RoleUser) (drop startIdx messages) then startIdx
        else
          case user_before messages startIdx of
            None \<Rightarrow> startIdx
          | Some u \<Rightarrow> if 0 < u \<and> markerTruthy (messages ! (u - 1)) ChannelDeliveryMeta then u - 1 else u)"

section \<open>The token budget\<close>

text \<open>The newest messages that fit (\<open>keep_loop\<close> is the same loop), from a user turn on, from a legal start on.\<close>

definition trimHistoryToTokens :: "tokenizer \<Rightarrow> Message list \<Rightarrow> int \<Rightarrow> Message list" where
  "trimHistoryToTokens T out maxTokens =
     (let kept = rev (keep_loop T maxTokens [] 0 (rev out));
          kept = (if list_ex (\<lambda>m. Role m = RoleUser) kept then user_tail_first kept
                  else if list_ex (\<lambda>m. Role m = RoleUser) out then user_tail_last out (length out)
                  else kept);
          start = FindLegalMessageStart kept
      in if 0 < start then drop start kept else kept)"

section \<open>Cleaning an assistant's text\<close>

definition isPyLineBoundary :: "nat \<Rightarrow> bool" where
  "isPyLineBoundary r \<longleftrightarrow> r \<in> {0x0A, 0x0D, 0x0B, 0x0C, 0x1C, 0x1D, 0x1E, 0x85, 0x2028, 0x2029}"

text \<open>\<open>cur\<close> is the line so far.\<close>

function line_loop :: "string \<Rightarrow> string \<Rightarrow> string list" where
  "line_loop cur s =
     (if s = [] then (if cur = [] then [] else [cur])
      else
        let (r, n) = decode_rune s in
        if \<not> isPyLineBoundary r then line_loop (cur @ take n s) (drop n s)
        else cur # line_loop [] (drop (if r = 0x0D \<and> n < length s \<and> s ! n = CHR 0x0A then n + 1 else n) s))"
  by pat_completeness auto
termination
proof (relation "measure (\<lambda>(cur, s). length s)", goal_cases)
  case (2 cur s p r n)
  then have "snd (decode_rune s) = n" by (metis snd_conv)
  then have "s \<noteq> []" and "0 < n" using 2 decode_rune_width [of s] by auto
  then show ?case by simp
next
  case (3 cur s p r n)
  then have "snd (decode_rune s) = n" by (metis snd_conv)
  then have "s \<noteq> []" and "0 < n" using 3 decode_rune_width [of s] by auto
  then show ?case by simp
qed simp

declare line_loop.simps [simp del]

definition split_lines_runes :: "string \<Rightarrow> string list" where
  "split_lines_runes s = line_loop [] s"

definition pyAllSpace :: "string \<Rightarrow> bool" where
  "pyAllSpace s \<longleftrightarrow> list_all PyIsSpace (runes s)"

definition messageTimePrefix :: string where "messageTimePrefix = ''[Message Time: ''"
definition localImageBreadcrumbPrefix :: string where "localImageBreadcrumbPrefix = ''[image: ''"
definition toolCallEchoNames :: "string list" where "toolCallEchoNames = [''generate_image'', ''message'']"

text \<open>What stands before the first \<open>c\<close>, and what stands behind it.\<close>

definition cut_at :: "char \<Rightarrow> string \<Rightarrow> (string \<times> string) option" where
  "cut_at c s = (if c \<in> set s then Some (takeWhile (\<lambda>d. d \<noteq> c) s, tl (dropWhile (\<lambda>d. d \<noteq> c) s)) else None)"

definition stripMessageTimePrefix :: "string \<Rightarrow> string" where
  "stripMessageTimePrefix s =
     (if \<not> HasPrefix s messageTimePrefix then s
      else case cut_at (CHR '']'') (drop (length messageTimePrefix) s) of
             None \<Rightarrow> s
           | Some (inner, rest) \<Rightarrow>
               if inner = [] then s
               else if rest \<noteq> [] \<and> hd rest = CHR 0x0A then tl rest else rest)"

definition matchLocalImageBreadcrumb :: "string \<Rightarrow> bool" where
  "matchLocalImageBreadcrumb line \<longleftrightarrow>
     HasPrefix line localImageBreadcrumbPrefix \<and>
     (let body = drop (length localImageBreadcrumbPrefix) line in
      body \<noteq> [] \<and> (hd body = CHR ''/'' \<or> hd body = CHR ''~'') \<and>
      (case cut_at (CHR '']'') (tl body) of
         None \<Rightarrow> False
       | Some (inner, rest) \<Rightarrow> inner \<noteq> [] \<and> pyAllSpace rest))"

function skip_spaces :: "string \<Rightarrow> string" where
  "skip_spaces s = (if s \<noteq> [] \<and> PyIsSpace (fst (decode_rune s)) then skip_spaces (drop (snd (decode_rune s)) s) else s)"
  by pat_completeness auto
termination
proof (relation "measure length", goal_cases)
  case (2 s)
  then have "s \<noteq> []" and "0 < snd (decode_rune s)" using decode_rune_width [of s] by simp_all
  then show ?case by simp
qed simp

declare skip_spaces.simps [simp del]

definition matchToolCallEcho :: "string \<Rightarrow> bool" where
  "matchToolCallEcho line =
     (let rest = skip_spaces line in
      case List.find (\<lambda>name. HasPrefix rest (name @ ''('')) toolCallEchoNames of
        None \<Rightarrow> False
      | Some name \<Rightarrow>
          (case cut_at (CHR '')'') (drop (length name + 1) rest) of
             None \<Rightarrow> False
           | Some (_, behind) \<Rightarrow> pyAllSpace behind))"

definition sanitizeAssistantReplayText :: "string \<Rightarrow> string" where
  "sanitizeAssistantReplayText content =
     PyStrip (Join (filter (\<lambda>line. \<not> (matchLocalImageBreadcrumb line \<or> matchToolCallEcho line))
                (split_lines_runes (stripMessageTimePrefix content))) [CHR 0x0A])"

section \<open>What trimming keeps\<close>

abbreviation tokens_of :: "tokenizer \<Rightarrow> Message list \<Rightarrow> int" where
  "tokens_of T ms \<equiv> sum_list (map (EstimateMessageTokens T) ms)"

definition has_user :: "Message list \<Rightarrow> bool" where
  "has_user ms \<longleftrightarrow> (\<exists>m\<in>set ms. Role m = RoleUser)"

text \<open>The loop stops at the end or at the first message that does not fit.\<close>

lemma keep_loop_greedy:
  assumes "used = tokens_of T kept" and "length kept \<le> 1 \<or> used \<le> budget"
  shows "\<exists>j \<le> length ms. keep_loop T budget kept used ms = kept @ take j ms
     \<and> (length (kept @ take j ms) \<le> 1 \<or> tokens_of T (kept @ take j ms) \<le> budget)
     \<and> (j < length ms \<longrightarrow> kept @ take j ms \<noteq> [] \<and> budget < tokens_of T (kept @ take (Suc j) ms))"
  using assms
proof (induction ms arbitrary: kept used)
  case Nil
  then show ?case by auto
next
  case (Cons m ms)
  let ?t = "EstimateMessageTokens T m"
  show ?case
  proof (cases "kept \<noteq> [] \<and> budget < used + ?t")
    case True
    then show ?thesis using Cons.prems by (intro exI [of _ 0]) auto
  next
    case False
    have "used + ?t = tokens_of T (kept @ [m])" using Cons.prems(1) by simp
    moreover have "length (kept @ [m]) \<le> 1 \<or> used + ?t \<le> budget" using False by auto
    ultimately obtain j where "j \<le> length ms"
      and "keep_loop T budget (kept @ [m]) (used + ?t) ms = (kept @ [m]) @ take j ms"
      and "length ((kept @ [m]) @ take j ms) \<le> 1 \<or> tokens_of T ((kept @ [m]) @ take j ms) \<le> budget"
      and "j < length ms \<longrightarrow> (kept @ [m]) @ take j ms \<noteq> [] \<and> budget < tokens_of T ((kept @ [m]) @ take (Suc j) ms)"
      using Cons.IH [of "used + ?t" "kept @ [m]"] by blast
    then show ?thesis using False by (intro exI [of _ "Suc j"]) (auto simp: Let_def)
  qed
qed

lemma kept_greedy:
  obtains i where "rev (keep_loop T budget [] 0 (rev out)) = drop i out" and "i \<le> length out"
    and "length (drop i out) \<le> 1 \<or> tokens_of T (drop i out) \<le> budget"
    and "0 < i \<longrightarrow> drop i out \<noteq> [] \<and> budget < tokens_of T (drop (i - 1) out)"
proof -
  obtain j where j: "j \<le> length out" "keep_loop T budget [] 0 (rev out) = take j (rev out)"
    and fit: "length (take j (rev out)) \<le> 1 \<or> tokens_of T (take j (rev out)) \<le> budget"
    and next_one: "j < length out \<longrightarrow> take j (rev out) \<noteq> [] \<and> budget < tokens_of T (take (Suc j) (rev out))"
    using keep_loop_greedy [of 0 T "[]" budget "rev out"] by auto
  have tk: "tokens_of T (take k (rev out)) = tokens_of T (drop (length out - k) out)" for k
    by (simp add: take_rev rev_map [symmetric])
  show thesis
  proof (rule that [of "length out - j"])
    show "rev (keep_loop T budget [] 0 (rev out)) = drop (length out - j) out" using j by (simp add: take_rev)
    show "length (drop (length out - j) out) \<le> 1 \<or> tokens_of T (drop (length out - j) out) \<le> budget"
      using fit j(1) tk [of j] by auto
    show "0 < length out - j \<longrightarrow> drop (length out - j) out \<noteq> [] \<and> budget < tokens_of T (drop (length out - j - 1) out)"
      using next_one tk [of "Suc j"] by (auto simp: take_rev)
  qed simp
qed

lemma user_tail_first_drop:
  assumes "has_user ms"
  obtains i where "user_tail_first ms = drop i ms" and "i < length ms" and "Role (ms ! i) = RoleUser"
    and "\<not> has_user (take i ms)"
  using assms
proof (induction ms arbitrary: thesis)
  case (Cons m ms)
  show ?case
  proof (cases "Role m = RoleUser")
    case True
    then show ?thesis using Cons.prems(1) [of 0] by (simp add: has_user_def)
  next
    case False
    then have "has_user ms" using Cons.prems(2) by (simp add: has_user_def)
    then obtain i where "user_tail_first ms = drop i ms" "i < length ms" "Role (ms ! i) = RoleUser"
      "\<not> has_user (take i ms)" using Cons.IH by blast
    then show ?thesis using False Cons.prems(1) [of "Suc i"] by (simp add: has_user_def)
  qed
qed (simp add: has_user_def)

lemma user_tail_last_drop:
  assumes "has_user (take n ms)" and "n \<le> length ms"
  shows "\<exists>i < n. user_tail_last ms n = drop i ms \<and> Role (ms ! i) = RoleUser
     \<and> (\<forall>k. i < k \<longrightarrow> k < n \<longrightarrow> Role (ms ! k) \<noteq> RoleUser)"
  using assms
proof (induction n)
  case (Suc n)
  show ?case
  proof (cases "Role (ms ! n) = RoleUser")
    case True
    then show ?thesis by (intro exI [of _ n]) auto
  next
    case False
    have "has_user (take n ms)" using Suc.prems False by (simp add: has_user_def take_Suc_conv_app_nth)
    then obtain i where "i < n" "user_tail_last ms n = drop i ms" "Role (ms ! i) = RoleUser"
      "\<forall>k. i < k \<longrightarrow> k < n \<longrightarrow> Role (ms ! k) \<noteq> RoleUser" using Suc by auto
    then show ?thesis using False by (intro exI [of _ i]) (auto simp: less_Suc_eq)
  qed
qed (simp add: has_user_def)

lemma EstimateMessageTokens_pos: "4 \<le> EstimateMessageTokens T m"
  by (simp add: EstimateMessageTokens_def Let_def split: option.split)

lemma tokens_of_drop: "tokens_of T (drop i ms) \<le> tokens_of T ms"
proof -
  have "0 \<le> tokens_of T (take i ms)"
    using EstimateMessageTokens_pos [of T] by (intro sum_list_nonneg) (auto intro: order_trans [of 0 4])
  moreover have "tokens_of T ms = tokens_of T (take i ms) + tokens_of T (drop i ms)"
    by (metis append_take_drop_id map_append sum_list_append)
  ultimately show ?thesis by simp
qed

lemma has_user_list_ex: "list_ex (\<lambda>m. Role m = RoleUser) ms \<longleftrightarrow> has_user ms"
  by (simp add: has_user_def list_ex_iff)

text \<open>The part of a transcript from which the legal tail is taken.\<close>

definition trim_window :: "tokenizer \<Rightarrow> Message list \<Rightarrow> int \<Rightarrow> Message list" where
  "trim_window T out budget =
     (let kept = rev (keep_loop T budget [] 0 (rev out)) in
      if has_user kept then user_tail_first kept
      else if has_user out then user_tail_last out (length out)
      else kept)"

lemma trimHistory_window:
  "trimHistoryToTokens T out budget = drop (FindLegalMessageStart (trim_window T out budget)) (trim_window T out budget)"
  by (simp add: trimHistoryToTokens_def trim_window_def Let_def has_user_list_ex)

lemma trim_window_suffix: "suffix (trim_window T out budget) out"
  using kept_suffix [of T budget out]
  by (auto simp: trim_window_def Let_def user_tail_last_suffix
      intro: suffix_order.order_trans [OF user_tail_first_suffix])

text \<open>With a user message to start from, the window starts with one, and is cut short by nothing but the budget.\<close>

lemma trim_window_user:
  assumes "has_user out"
  obtains i where "trim_window T out budget = drop i out" and "i < length out" and "Role (out ! i) = RoleUser"
    and "tokens_of T (drop i out) \<le> budget \<or> \<not> has_user (drop (Suc i) out)"
    and "\<And>k. k < i \<Longrightarrow> Role (out ! k) = RoleUser \<Longrightarrow> budget < tokens_of T (drop k out)"
proof -
  obtain b where kept: "rev (keep_loop T budget [] 0 (rev out)) = drop b out" and "b \<le> length out"
    and fit: "length (drop b out) \<le> 1 \<or> tokens_of T (drop b out) \<le> budget"
    and over: "0 < b \<longrightarrow> drop b out \<noteq> [] \<and> budget < tokens_of T (drop (b - 1) out)"
    using kept_greedy [of T budget out] by blast
  have early: "budget < tokens_of T (drop k out)" if "k < b" for k
    using over that tokens_of_drop [of T "b - 1 - k" "drop k out"] by simp
  show thesis
  proof (cases "has_user (drop b out)")
    case True
    then obtain u where u: "user_tail_first (drop b out) = drop u (drop b out)" "u < length (drop b out)"
      "Role (drop b out ! u) = RoleUser" "\<not> has_user (take u (drop b out))"
      using user_tail_first_drop by blast
    show thesis
    proof (rule that [of "b + u"])
      show "trim_window T out budget = drop (b + u) out"
        using True kept u(1) by (simp add: trim_window_def Let_def add.commute)
      show "tokens_of T (drop (b + u) out) \<le> budget \<or> \<not> has_user (drop (Suc (b + u)) out)"
        using fit u(2) tokens_of_drop [of T u "drop b out"] by (auto simp: add.commute has_user_def)
      show "budget < tokens_of T (drop k out)" if "k < b + u" "Role (out ! k) = RoleUser" for k
      proof (rule early, rule ccontr)
        assume "\<not> k < b"
        then have "out ! k = take u (drop b out) ! (k - b)" and "k - b < length (take u (drop b out))"
          using that u(2) by auto
        then have "out ! k \<in> set (take u (drop b out))" by (metis nth_mem)
        then show False using u(4) that(2) by (auto simp: has_user_def)
      qed
    qed (use u in simp_all)
  next
    case False
    obtain i where i: "i < length out" "user_tail_last out (length out) = drop i out" "Role (out ! i) = RoleUser"
      "\<forall>k. i < k \<longrightarrow> k < length out \<longrightarrow> Role (out ! k) \<noteq> RoleUser"
      using user_tail_last_drop [of "length out" out] assms by auto
    have "i < b"
    proof (rule ccontr)
      assume "\<not> i < b"
      then have "out ! i = drop b out ! (i - b)" and "i - b < length (drop b out)" using i(1) by auto
      then have "out ! i \<in> set (drop b out)" by (metis nth_mem)
      then show False using False i(3) by (auto simp: has_user_def)
    qed
    show thesis
    proof (rule that [of i])
      show "trim_window T out budget = drop i out"
        using False assms i(2) kept by (simp add: trim_window_def Let_def)
      show "tokens_of T (drop i out) \<le> budget \<or> \<not> has_user (drop (Suc i) out)"
        using i(4) by (auto simp: has_user_def in_set_conv_nth)
      show "budget < tokens_of T (drop k out)" if "k < i" "Role (out ! k) = RoleUser" for k
        using early [of k] that \<open>i < b\<close> by simp
    qed (use i in simp_all)
  qed
qed

text \<open>
  C30. Trimming a replayed transcript with a user message to a token budget cuts it at user messages only: the
  result is the part from one user message on, less an illegal start (tool results nobody asked for). That part
  fits the budget, or it is the last user turn, and starting at any earlier user message would not fit.
\<close>

theorem trimmed_at_user_turn:
  assumes "\<exists>m\<in>set out. Role m = RoleUser"
  shows "\<exists>i < length out. Role (out ! i) = RoleUser
     \<and> trimHistoryToTokens T out budget = drop (LEAST k. legal {} (drop k (drop i out))) (drop i out)
     \<and> legal {} (trimHistoryToTokens T out budget)
     \<and> (sum_list (map (EstimateMessageTokens T) (drop i out)) \<le> budget
        \<or> (\<forall>m\<in>set (drop (Suc i) out). Role m \<noteq> RoleUser))
     \<and> (\<forall>k < i. Role (out ! k) = RoleUser \<longrightarrow> budget < sum_list (map (EstimateMessageTokens T) (drop k out)))"
proof -
  have "has_user out" using assms by (simp add: has_user_def)
  then obtain i where i: "trim_window T out budget = drop i out" "i < length out" "Role (out ! i) = RoleUser"
    "tokens_of T (drop i out) \<le> budget \<or> \<not> has_user (drop (Suc i) out)"
    and over: "\<And>k. k < i \<Longrightarrow> Role (out ! k) = RoleUser \<Longrightarrow> budget < tokens_of T (drop k out)"
    using trim_window_user [of out T budget] by blast
  have "(LEAST k. legal {} (drop k (drop i out))) = FindLegalMessageStart (drop i out)"
    using FindLegal_least [of "drop i out"] by (intro Least_equality) (auto simp: not_less [symmetric])
  then show ?thesis
    using i over FindLegal_least [of "drop i out"]
    by (intro exI [of _ i]) (auto simp: trimHistory_window has_user_def)
qed

theorem trimmed_at_user_turn_witness:
  "map Role (trimHistoryToTokens bytes_only sample 10) = [RoleUser] \<and> legal {} (trimHistoryToTokens bytes_only sample 10)"
proof -
  have u: "\<exists>m\<in>set sample. Role m = RoleUser" by code_simp
  have "map Role (trimHistoryToTokens bytes_only sample 10) = [RoleUser]" by code_simp
  then show ?thesis using trimmed_at_user_turn [OF u, of bytes_only 10] by blast
qed

end
