(* ===== verification/Spec2Isabelle.thy ===== *)
theory Spec2Isabelle
  imports Prelude Bus FileDiff Cron_Proofs Pairing_Proofs Governance_Proofs Multiagent_Proofs Bpe_Proofs
    Runner_Outcome File_Tools_Proofs Session_Keys Session_History
begin

text \<open>
  A verification of the core of haosbot, a Go port of the nanobot agent runtime. Chat channels
  publish messages on a bus; the agent answers them in turns of model requests and tool
  calls, with its transcript repaired and trimmed before each request, and may delegate work to other agents; a scheduler starts turns on its
  own; a pairing store decides which senders are heard; edits of files are shown as line diffs. The
  development models these parts shallowly, one theory or pair of theories each, with the names of
  the source. Theories that end in \<open>_Proofs\<close> hold what is proved about the model of the same name.

  \<^bold>\<open>Shared.\<close> \<^verbatim>\<open>Prelude\<close>: wrap-around of 64-bit integers, stable sorting, search loops, JSON values.
  \<^verbatim>\<open>Go_Strings\<close>: byte strings, decimal conversion, UTF-8, splitting and trimming as in the Go library.
  \<^verbatim>\<open>Textutil\<close> (\<^verbatim>\<open>internal/textutil/pystr.go\<close>): Python's white space, with the binary search shown
  equal to membership in the table, and \<^verbatim>\<open>str.strip\<close>. \<^verbatim>\<open>Messages\<close> (\<^verbatim>\<open>internal/core\<close>): roles, content,
  tool calls and the transcript message.

  \<^bold>\<open>Bus\<close> (\<^verbatim>\<open>internal/bus/bus.go\<close>). The record \<open>bus\<close> holds both queues, the generation of the wait
  channel and the subscriptions; every method is one function, and blocking consumers are a step
  relation over passes of their loop. No wake-up is lost (C1), delivery is in order and exactly once
  (C2), and the outbound side refines a bounded FIFO queue (C3). Lemmas beside them: a publish is all or
  nothing, and an unsubscribed handler is not called.

  \<^bold>\<open>File diff\<close> (\<^verbatim>\<open>internal/filediff\<close>). \<^verbatim>\<open>Bitvec\<close> and \<^verbatim>\<open>Indel\<close> model \<^verbatim>\<open>indel.go\<close>: words of 64 bits, the
  bit-parallel matrix, the recovery walk. The blocks transform one input into the other (C6) and are
  minimal (C7). \<^verbatim>\<open>FileDiff\<close> models \<^verbatim>\<open>filediff.go\<close>, \<^verbatim>\<open>pytext.go\<close> and \<^verbatim>\<open>payload.go\<close>: applying the unified
  diff as a patch gives the new text (C8); that a truncated payload is a well-formed diff is a lemma.

  \<^bold>\<open>Cron\<close> (\<^verbatim>\<open>internal/cron\<close>). \<^verbatim>\<open>Cron_Schedule\<close> models \<^verbatim>\<open>schedule.go\<close>: what a field selects (C11) and the
  least next instant (C10); that the field loop may run forever when its step overflows is a lemma
  there. \<^verbatim>\<open>Cron_Service\<close> models \<^verbatim>\<open>service.go\<close>, one function per locked section; runs in flight are a step
  relation. Single flight (C14), launching only what was persisted (C15), order of dispatch (C16),
  roll-back (C17) and termination of rescheduling (C25). Lemmas beside
  them cover the phase of interval jobs, adding and listing, run records, misfires, the overflow of the timer and the repeated hour
  of a clock change.

  \<^bold>\<open>Pairing\<close> (\<^verbatim>\<open>internal/pairing\<close>). \<^verbatim>\<open>Float64\<close> and \<^verbatim>\<open>Json_Codec\<close> model \<^verbatim>\<open>json.go\<close> down to bytes and to the
  rounding of binary64 (C26); \<^verbatim>\<open>Pairing\<close> models \<^verbatim>\<open>store.go\<close> and \<^verbatim>\<open>reply.go\<close> with the outcome of every
  system call as an argument. The locale \<open>store_operation\<close> states what an operation may do to the
  file and is interpreted by each of them. Approval only by a live code (C28) and uniform
  codes (C32); that errors keep the store, the life of a code and revocation are lemmas.

  \<^bold>\<open>Context governance\<close> (\<^verbatim>\<open>internal/agent/governance.go\<close>, \<^verbatim>\<open>tokens.go\<close>). \<^verbatim>\<open>Governance\<close> has the repair steps with
  their lazily copying loops, the insertion of synthetic results by index, the budget and the token
  estimators, whose cache is state that is passed along. The locale \<open>lazy_copy\<close> gives the three
  repair loops their meaning once. The repaired copy is well paired (C33), fitting to the
  budget meets its contract on success and on error (C36); that the cache is transparent and bounded, the insertion is a splice and the legal start the least one are lemmas. The tokenizer and the
  text \<^verbatim>\<open>encoding/json\<close> writes for tool calls are parameters (record \<open>tokenizer\<close>).

  \<^bold>\<open>Tokenizer\<close> (\<^verbatim>\<open>internal/bpe\<close>). \<^verbatim>\<open>Bpe_Merge\<close> models the merge loops of \<^verbatim>\<open>bpe.go\<close>: the quadratic merge of short pieces and the
  queue of candidate pairs of long ones, a heap whose content is kept as a list of entries from which
  the least is popped; both find the same tokens (C12). \<^verbatim>\<open>Bpe_Vocab\<close> has the packed vocabulary and its
  open-addressing index over 32-bit hashes, where a lookup finds a token exactly when the vocabulary has
  it (C18). \<^verbatim>\<open>Bpe_Tables\<close> and \<^verbatim>\<open>Bpe_Scanner\<close> have the hand-written scanner, with the Unicode ranges it
  searches as literals; \<^verbatim>\<open>Bpe_Pattern\<close> gives regular expressions a backtracking semantics and the
  scanner cuts a text where the pattern of the reference does (C13). \<^verbatim>\<open>Bpe\<close> has encoding, decoding and
  truncation: decoding inverts encoding (C22), what is decoded leniently is valid UTF-8 (C23); that
  a truncated text keeps its bound is a lemma.

  \<^bold>\<open>Multi-agent manager\<close> (\<^verbatim>\<open>internal/multiagent/manager.go\<close>). \<^verbatim>\<open>Multiagent\<close> has the data, the limits, the
  store with its cleanup and its file, and the guards of \<^verbatim>\<open>Delegate\<close>; \<^verbatim>\<open>Multiagent_Run\<close> has the goroutines: a
  worker per task with a program counter, one rule per locked section or channel operation. The
  invariant of \<^verbatim>\<open>Multiagent_Proofs\<close> holds in all interleavings: limits and authorised, acyclic delegation
  (C38), life cycle and durability of a task (C39), recovery after a restart (C40).

  \<^bold>\<open>Turn runner\<close> (\<^verbatim>\<open>internal/agent/runner.go\<close>). \<^verbatim>\<open>Runner\<close> models the loop of model requests and tool calls
  whole: the retry of transient failures, streams, batches of tools that run in parallel, the retry of
  empty and the continuation of truncated answers, the summary of an exhausted budget. Its state is the
  world, a trace of what the hook and the provider see, the cache of the estimator and the files of tool
  results. It rests on \<^verbatim>\<open>Go_Regexp\<close> (leftmost-first matching for the patterns in use) and \<^verbatim>\<open>Reasoning\<close>
  (\<^verbatim>\<open>internal/textutil/stripthink.go\<close>, \<^verbatim>\<open>reasoning.go\<close>), which takes a response apart exactly (C5);
  \<^verbatim>\<open>Provider\<close> (\<^verbatim>\<open>internal/core/types.go\<close>, \<^verbatim>\<open>internal/provider/provider.go\<close>), the vocabulary and retry policy;
  \<^verbatim>\<open>Tools\<close> (\<^verbatim>\<open>internal/tools/tool.go\<close>), the registry, whose schemas do not depend on the order of
  registration; and \<^verbatim>\<open>Toolresult\<close> (\<^verbatim>\<open>toolresult.go\<close>), where large results go to files.
  \<^verbatim>\<open>Runner_Batch\<close> and \<^verbatim>\<open>Runner_Started\<close> treat the goroutines of a batch under every schedule: results in
  order, the limit of parallel tools, unsafe tools alone, each call at most once (C29). The locale
  \<open>run_trace\<close> of \<^verbatim>\<open>Runner_Proofs\<close> lifts a property of traces from the parts of a run to the run; it is
  interpreted for the groups of reasoning (C31) and for the requests, which are all governed (C21,
  below). \<^verbatim>\<open>Runner_Outcome\<close> has the transcript and the result (C34), the number of requests (C35) and the
  retries (C27), and two runs in which the code falls short: completion without an answer, and usage
  that is lost.

  \<^bold>\<open>File tools\<close> (\<^verbatim>\<open>internal/tools/builtin\<close>). \<^verbatim>\<open>Tool_Values\<close> models \<^verbatim>\<open>args.go\<close> and \<^verbatim>\<open>pyvalue.go\<close>, the reading of
  arguments with Python's conversions; \<^verbatim>\<open>Tool_Paths\<close> models the policy of \<^verbatim>\<open>paths.go\<close>, with the path functions of
  the library and a proof that resolving a path ends; \<^verbatim>\<open>File_Tools\<close> models \<^verbatim>\<open>apply_patch.go\<close>, \<^verbatim>\<open>edit_file.go\<close> and
  \<^verbatim>\<open>write_file.go\<close> over a map of files. A call of the system fails when the record \<open>file_io\<close> says so. The
  locale \<open>file_tool\<close> of \<^verbatim>\<open>File_Tools_Proofs\<close> gives confinement to a tool that resolves what it writes, and
  is interpreted by the three of them (C19); a patch is all or nothing (C9); an edit replaces exactly the
  selected occurrences (C20). Beside them stand an edit that ends in a run-time panic, and a link to
  nowhere that passes the policy.

  \<^bold>\<open>Sessions\<close> (\<^verbatim>\<open>internal/session\<close>). \<^verbatim>\<open>Session_Keys\<close> models \<^verbatim>\<open>keys.go\<close> and the paths and \<^verbatim>\<open>Delete\<close> of \<^verbatim>\<open>store.go\<close>: a key
  is kept in its file name, and sessions do not share files (C4), except for the retired name that deleting
  removes as well. \<^verbatim>\<open>Session_Time\<close> models \<^verbatim>\<open>isoformat.go\<close> and the writing half of \<^verbatim>\<open>timefmt.go\<close>: which of the times
  that sessions write are accepted on reading (C24). \<^verbatim>\<open>Session_Transient\<close> models \<^verbatim>\<open>transient.go\<close>: the store of
  temporary chats is bounded whatever order Go gives its map (C37), and it drops a live chat when it is
  merely counted. \<^verbatim>\<open>Session_History\<close> models the markers of \<^verbatim>\<open>history_visibility.go\<close> and \<^verbatim>\<open>summary.go\<close>, and of
  \<^verbatim>\<open>history.go\<close> the choice of recent messages, the cleaning of an assistant's text and the trimming to a
  token budget, which cuts at user turns only (C30).

  \<^bold>\<open>Bounds and fuel.\<close> The JSON reader recurses with fuel twice the length of the input plus two. The
  merge of a long piece of \<open>n\<close> bytes has fuel \<open>3 * n + 1\<close> and the one of a short piece \<open>n + 1\<close>. Each is
  shown to be enough. Probing of the vocabulary index and the walk up a path are partial functions into \<open>option\<close>, and they are
  shown to return. Every other loop is structural or has a termination proof, except the field
  loop of cron, whose possible divergence by overflow is itself proved. Sizes of texts and
  lists in memory are unbounded naturals; integers that come from configuration or from the clock wrap
  at 64 bits where the code computes with them.

  \<^bold>\<open>Interfaces to what is not in the model.\<close> Time zones, \<^verbatim>\<open>unicode.IsPrint\<close>, random bytes,
  clocks, the outcome of system calls, the vocabulary file and the executor of a task are arguments. For
  a run they are fields of the record \<open>run_env\<close>: the context, the hook, the provider, the timer, the
  scheduler of goroutines, and the lower case of runes beyond ASCII; a registered tool carries its work.

  \<^bold>\<open>Not modelled.\<close> Chat transports, HTTP and model providers, the tools that read, search, run commands or fetch, the command line
  and the web UI are input and output. The git object store, YAML skills and configuration models are large and independent of the parts above. The process lease
  of cron and the display paths of diffs are file-system calls. Of the runner, metrics are left out, and
  the diffs a tool attaches to its result.
  Of sessions, the lines of a session file, its journal and its checkpoints, and the assembly of \<^verbatim>\<open>GetHistory\<close>
  from stored records are left out.

  \<^bold>\<open>Plan.\<close> The file format of sessions (\<^verbatim>\<open>internal/session\<close>), the network policy
  (\<^verbatim>\<open>internal/netpolicy\<close>), and the turn loop of the agent over the bus.
\<close>

section \<open>The runner over context governance\<close>



end
